(* ===== verification/Prelude.thy ===== *)
theory Prelude
  imports Complex_Main "HOL-Library.Multiset" "HOL-Library.AList" "HOL-Library.Word"
begin

text \<open>
  What every component theory shares: the names of the model's basic types, the parts of
  the Rust standard library the code uses (slc swap, iterator search over index ranges,
  string operations, truncating division), the collections of hints, and the generic
  lemmas about them.

  Text is a list of Unicode scalar values (\<open>ustr\<close>), so that \<open>str::len\<close> (UTF-8 bytes) and
  \<open>chars().count()\<close> are different functions, as they are in the code.  Floating point
  numbers are exact reals unless the code tests for NaN or infinity, in which case the
  datatype \<open>fnum\<close> keeps the special values apart.  A Rust \<open>HashMap\<close> is an association
  list with distinct keys: the order of the list is the (arbitrary) iteration order, so a
  lemma over all lists is a lemma over all iteration orders.
\<close>

section \<open>Names and collections\<close>

type_synonym ustr = "nat list"
type_synonym f32 = real
type_synonym f64 = real
type_synonym u32 = "32 word"
type_synonym u64 = "64 word"

named_theorems swap_simps \<open>what a swap does to lengths, elements and windows\<close>
named_theorems find_dests \<open>what an index found by an iterator search satisfies\<close>
named_theorems keep_mset \<open>passes that only reorder a list\<close>

section \<open>Slices\<close>

text \<open>\<open>slice::swap\<close>; both indices are in range at every call of the model.\<close>

definition swap :: "nat \<Rightarrow> nat \<Rightarrow> 'a list \<Rightarrow> 'a list" where
  "swap i j xs = xs[i := xs ! j, j := xs ! i]"

lemma length_swap [simp, swap_simps]: "length (swap i j xs) = length xs"
  by (simp add: swap_def)

lemma mset_swap' [simp, keep_mset]:
  "i < length xs \<Longrightarrow> j < length xs \<Longrightarrow> mset (swap i j xs) = mset xs"
  by (simp add: swap_def mset_swap)

lemma nth_swap [swap_simps]:
  "i < length xs \<Longrightarrow> j < length xs \<Longrightarrow> k < length xs \<Longrightarrow>
     swap i j xs ! k = (if k = j then xs ! i else if k = i then xs ! j else xs ! k)"
  by (simp add: swap_def nth_list_update)

text \<open>How many elements of a slice \<open>xs[a..b]\<close> satisfy a predicate.\<close>

definition slc :: "nat \<Rightarrow> nat \<Rightarrow> 'a list \<Rightarrow> 'a list" where
  "slc a b xs = take (b - a) (drop a xs)"

definition count_where :: "('a \<Rightarrow> bool) \<Rightarrow> 'a list \<Rightarrow> nat" where
  "count_where p xs = length (filter p xs)"

lemma count_where_simps [simp]:
  "count_where p [] = 0"
  "count_where p (x # xs) = (if p x then Suc (count_where p xs) else count_where p xs)"
  by (simp_all add: count_where_def)

lemma count_where_append [simp]: "count_where p (xs @ ys) = count_where p xs + count_where p ys"
  by (simp add: count_where_def)

lemma count_where_le: "count_where p xs \<le> length xs"
  by (simp add: count_where_def)

lemma count_where_mset: "mset xs = mset ys \<Longrightarrow> count_where p xs = count_where p ys"
  unfolding count_where_def by (metis mset_filter size_mset)

lemma count_where_pos: "x \<in> set xs \<Longrightarrow> p x \<Longrightarrow> 0 < count_where p xs"
  by (auto simp: count_where_def filter_empty_conv)

lemma count_where_zero: "count_where p xs = 0 \<longleftrightarrow> (\<forall>x\<in>set xs. \<not> p x)"
  by (auto simp: count_where_def filter_empty_conv)

lemma length_slc [simp]: "length (slc a b xs) = min (b - a) (length xs - a)"
  by (simp add: slc_def)

lemma nth_slc: "a + i < b \<Longrightarrow> a + i < length xs \<Longrightarrow> slc a b xs ! i = xs ! (a + i)"
  by (simp add: slc_def)

lemma set_slc: "set (slc a b xs) = {xs ! i |i. a \<le> i \<and> i < b \<and> i < length xs}"
proof -
  have "set (slc a b xs) = {slc a b xs ! i |i. i < length (slc a b xs)}"
    by (simp add: set_conv_nth)
  also have "\<dots> = {xs ! i |i. a \<le> i \<and> i < b \<and> i < length xs}" (is "?L = ?R")
  proof
    show "?L \<subseteq> ?R"
      by (force simp: nth_slc)
    show "?R \<subseteq> ?L"
    proof
      fix x assume "x \<in> ?R"
      then obtain i where i: "x = xs ! i" "a \<le> i" "i < b" "i < length xs" by auto
      then have "x = slc a b xs ! (i - a)" and "i - a < length (slc a b xs)"
        by (auto simp: nth_slc)
      then show "x \<in> ?L" by blast
    qed
  qed
  finally show ?thesis .
qed

lemma slc_split:
  "a \<le> i \<Longrightarrow> i < b \<Longrightarrow> b \<le> length xs \<Longrightarrow>
     slc a b xs = slc a i xs @ xs ! i # slc (Suc i) b xs"
  by (rule nth_equalityI)
    (auto simp: nth_append nth_slc nth_Cons' not_less intro!: arg_cong [where f = "(!) xs"])

lemma slc_cong:
  "length xs = length ys \<Longrightarrow> (\<And>i. a \<le> i \<Longrightarrow> i < b \<Longrightarrow> i < length xs \<Longrightarrow> xs ! i = ys ! i) \<Longrightarrow>
     slc a b xs = slc a b ys"
  by (rule nth_equalityI) (auto simp: nth_slc)

lemma slc_swap_outside [swap_simps]:
  "i < length xs \<Longrightarrow> j < length xs \<Longrightarrow> \<not> (a \<le> i \<and> i < b) \<Longrightarrow> \<not> (a \<le> j \<and> j < b) \<Longrightarrow>
     slc a b (swap i j xs) = slc a b xs"
  by (rule slc_cong) (auto simp: nth_swap)

text \<open>
  The effect of a swap on a slice that holds its first index only: one element leaves,
  one enters, so every sum (and every count) moves by the difference of the two.
\<close>

lemma slc_swap_split:
  assumes "a \<le> i" "i < b" "b \<le> j" "j < length xs"
  shows "slc a b (swap i j xs) = slc a i xs @ xs ! j # slc (Suc i) b xs"
proof -
  let ?ys = "swap i j xs"
  have "slc a b ?ys = slc a i ?ys @ ?ys ! i # slc (Suc i) b ?ys"
    using assms by (intro slc_split) auto
  also have "\<dots> = slc a i xs @ xs ! j # slc (Suc i) b xs"
    using assms by (auto simp: swap_simps)
  finally show ?thesis .
qed

lemma sum_slc_swap:
  fixes g :: "'a \<Rightarrow> nat"
  assumes "a \<le> i" "i < b" "b \<le> j" "j < length xs"
  shows "sum_list (map g (slc a b (swap i j xs))) + g (xs ! i) =
         sum_list (map g (slc a b xs)) + g (xs ! j)"
proof -
  have "slc a b xs = slc a i xs @ xs ! i # slc (Suc i) b xs"
    using assms by (intro slc_split) auto
  then show ?thesis using slc_swap_split [OF assms] by simp
qed

lemma count_where_sum: "count_where p xs = sum_list (map (\<lambda>x. of_bool (p x)) xs)"
  by (induction xs) auto

lemma count_slc_swap:
  assumes "a \<le> i" "i < b" "b \<le> j" "j < length xs"
  shows "count_where p (slc a b (swap i j xs)) + of_bool (p (xs ! i)) =
         count_where p (slc a b xs) + of_bool (p (xs ! j))"
  unfolding count_where_sum by (rule sum_slc_swap [OF assms])

text \<open>A slice of the front and what lies behind it.\<close>

lemma count_where_split:
  "w \<le> length xs \<Longrightarrow>
     count_where p xs = count_where p (slc 0 w xs) + count_where p (drop w xs)"
  by (metis append_take_drop_id count_where_append drop0 minus_nat.diff_0 slc_def)

lemma count_where_drop_zero:
  "count_where p (drop w xs) = 0 \<longleftrightarrow> (\<forall>i. w \<le> i \<longrightarrow> i < length xs \<longrightarrow> \<not> p (xs ! i))"
proof -
  have "set (drop w xs) = {xs ! i |i. w \<le> i \<and> i < length xs}"
    using set_slc [of w "length xs" xs] by (auto simp: slc_def)
  then show ?thesis by (auto simp: count_where_zero)
qed

lemma distinct_count_list: "distinct xs \<Longrightarrow> count_list xs a = of_bool (a \<in> set xs)"
  by (induction xs) auto

section \<open>Iterator searches over index ranges\<close>

text \<open>\<open>(a..b).find(p)\<close> and \<open>(a..b).rev().find(p)\<close>.\<close>

definition find_up :: "(nat \<Rightarrow> bool) \<Rightarrow> nat \<Rightarrow> nat \<Rightarrow> nat option" where
  "find_up p a b = find p [a..<b]"

definition find_down :: "(nat \<Rightarrow> bool) \<Rightarrow> nat \<Rightarrow> nat \<Rightarrow> nat option" where
  "find_down p a b = find p (rev [a..<b])"

lemma find_up_Some [find_dests]: "find_up p a b = Some i \<Longrightarrow> a \<le> i \<and> i < b \<and> p i"
  by (auto simp: find_up_def find_Some_iff)

lemma find_down_Some [find_dests]: "find_down p a b = Some i \<Longrightarrow> a \<le> i \<and> i < b \<and> p i"
  by (auto simp: find_down_def find_Some_iff rev_nth)

lemma find_up_None: "find_up p a b = None \<longleftrightarrow> (\<forall>i. a \<le> i \<longrightarrow> i < b \<longrightarrow> \<not> p i)"
  by (auto simp: find_up_def find_None_iff)

lemma find_down_None: "find_down p a b = None \<longleftrightarrow> (\<forall>i. a \<le> i \<longrightarrow> i < b \<longrightarrow> \<not> p i)"
  by (auto simp: find_down_def find_None_iff)

lemma sorted_head_le_last: "sorted (x # xs) \<Longrightarrow> x \<le> last (x # xs)"
  by (cases "xs = []") (auto dest: last_in_set)

lemma case_sum_pairD:
  "(case x of Inl e \<Rightarrow> False | Inr (b, d) \<Rightarrow> b \<and> P d) \<Longrightarrow> \<exists>d. x = Inr (True, d) \<and> P d"
  by (auto split: sum.splits prod.splits)

section \<open>Checks in sequence\<close>

text \<open>The \<open>?\<close> operator on a result whose value is dropped, and a loop of such checks.\<close>

definition and_then :: "'e + unit \<Rightarrow> 'e + 'a \<Rightarrow> 'e + 'a" where
  "and_then c k = (case c of Inl e \<Rightarrow> Inl e | Inr _ \<Rightarrow> k)"

fun check_all :: "('a \<Rightarrow> 'e + unit) \<Rightarrow> 'a list \<Rightarrow> 'e + unit" where
  "check_all f [] = Inr ()"
| "check_all f (x # xs) = and_then (f x) (check_all f xs)"

lemma and_then_Inr [simp]: "and_then c k = Inr v \<longleftrightarrow> c = Inr () \<and> k = Inr v"
  by (cases c) (simp_all add: and_then_def)

lemma and_then_Inl [simp]: "and_then c k = Inl e \<longleftrightarrow> c = Inl e \<or> (c = Inr () \<and> k = Inl e)"
  by (cases c) (simp_all add: and_then_def)

lemma check_all_Inr [simp]: "check_all f xs = Inr () \<longleftrightarrow> (\<forall>x \<in> set xs. f x = Inr ())"
  by (induction xs) auto

lemma check_all_Inl: "check_all f xs = Inl e \<Longrightarrow> \<exists>x \<in> set xs. f x = Inl e"
  by (induction xs) auto

section \<open>Floating point\<close>

text \<open>\<open>f32::powf\<close> on a base that is not negative; \<open>0.powf(0)\<close> is one.\<close>

definition powf :: "f32 \<Rightarrow> f32 \<Rightarrow> f32" where
  "powf b e = (if e = 0 then 1 else b powr e)"

definition clamp01 :: "f32 \<Rightarrow> f32" where
  "clamp01 v = max 0 (min 1 v)"

lemma clamp01_range: "0 \<le> clamp01 v" "clamp01 v \<le> 1"
  by (simp_all add: clamp01_def)

lemma powf_mono: "0 \<le> e \<Longrightarrow> 0 \<le> a \<Longrightarrow> a \<le> b \<Longrightarrow> powf a e \<le> powf b e"
  by (simp add: powf_def powr_mono2)

lemma powf_le_max:
  assumes "0 \<le> e" "e \<le> 1" "0 \<le> a"
  shows "powf a e \<le> max 1 a"
proof (cases "a \<le> 1")
  case True
  then show ?thesis using powf_mono [OF assms(1,3) True] by (cases "e = 0") (simp_all add: powf_def)
next
  case False
  then have "a powr e \<le> a powr 1" using assms by (intro powr_mono) auto
  then show ?thesis using False by (simp add: powf_def)
qed

lemma powf_nonneg: "0 \<le> powf a e"
  by (simp add: powf_def)

definition clamp :: "f32 \<Rightarrow> f32 \<Rightarrow> f32 \<Rightarrow> f32" where
  "clamp lo hi v = max lo (min hi v)"

definition f32_EPSILON :: f32 where
  "f32_EPSILON = 1 / 8388608"

end
