(* ===== verification/Text_Ops.thy ===== *)
theory Text_Ops
  imports Prelude
begin

text \<open>
  The operations of Rust's \<open>str\<close> and \<open>char\<close> that the program uses, over lists of
  Unicode scalar values.  Literals are written \<open>lit ''...''\<close>.
\<close>

section \<open>Literals and characters\<close>

definition lit :: "string \<Rightarrow> ustr" where
  "lit s = map of_char s"

lemma lit_simps [simp]: "lit [] = []" "lit (c # cs) = of_char c # lit cs"
  by (simp_all add: lit_def)

text \<open>\<open>char::is_whitespace\<close> (Unicode White\_Space) and \<open>char::is_control\<close> (category Cc).\<close>

definition is_whitespace :: "nat \<Rightarrow> bool" where
  "is_whitespace c \<longleftrightarrow> (9 \<le> c \<and> c \<le> 13) \<or> c = 32 \<or> c = 133 \<or> c = 160 \<or> c = 5760 \<or>
     (8192 \<le> c \<and> c \<le> 8202) \<or> c = 8232 \<or> c = 8233 \<or> c = 8239 \<or> c = 8287 \<or> c = 12288"

definition is_control :: "nat \<Rightarrow> bool" where
  "is_control c \<longleftrightarrow> c < 32 \<or> (127 \<le> c \<and> c < 160)"

definition is_ascii_uppercase :: "nat \<Rightarrow> bool" where
  "is_ascii_uppercase c \<longleftrightarrow> 65 \<le> c \<and> c \<le> 90"

definition is_ascii_lowercase :: "nat \<Rightarrow> bool" where
  "is_ascii_lowercase c \<longleftrightarrow> 97 \<le> c \<and> c \<le> 122"

definition is_ascii_digit :: "nat \<Rightarrow> bool" where
  "is_ascii_digit c \<longleftrightarrow> 48 \<le> c \<and> c \<le> 57"

definition is_ascii_alphanumeric :: "nat \<Rightarrow> bool" where
  "is_ascii_alphanumeric c \<longleftrightarrow>
     is_ascii_uppercase c \<or> is_ascii_lowercase c \<or> is_ascii_digit c"

lemmas char_class_defs = is_whitespace_def is_control_def is_ascii_uppercase_def
  is_ascii_lowercase_def is_ascii_digit_def is_ascii_alphanumeric_def

definition lower_char :: "nat \<Rightarrow> nat" where
  "lower_char c = (if is_ascii_uppercase c then c + 32 else c)"

definition to_ascii_lowercase :: "ustr \<Rightarrow> ustr" where
  "to_ascii_lowercase s = map lower_char s"

definition eq_ignore_ascii_case :: "ustr \<Rightarrow> ustr \<Rightarrow> bool" where
  "eq_ignore_ascii_case s t \<longleftrightarrow> to_ascii_lowercase s = to_ascii_lowercase t"

lemma lower_char_idem [simp]: "lower_char (lower_char c) = lower_char c"
  by (auto simp: lower_char_def char_class_defs)

lemma lowercase_idem [simp]:
  "to_ascii_lowercase (to_ascii_lowercase s) = to_ascii_lowercase s"
  by (simp add: to_ascii_lowercase_def)

lemma lowercase_simps [simp]:
  "to_ascii_lowercase [] = []"
  "to_ascii_lowercase (c # s) = lower_char c # to_ascii_lowercase s"
  by (simp_all add: to_ascii_lowercase_def)

lemma eq_ignore_ascii_case_refl [simp]: "eq_ignore_ascii_case s s"
  by (simp add: eq_ignore_ascii_case_def)

lemma eq_ignore_ascii_case_sym: "eq_ignore_ascii_case s t = eq_ignore_ascii_case t s"
  by (auto simp: eq_ignore_ascii_case_def)

section \<open>Lengths\<close>

text \<open>Bytes of one scalar value in UTF-8; \<open>str::len\<close> is the sum, \<open>chars().count()\<close> the length.\<close>

definition utf8_width :: "nat \<Rightarrow> nat" where
  "utf8_width c = (if c < 128 then 1 else if c < 2048 then 2 else if c < 65536 then 3 else 4)"

definition byte_len :: "ustr \<Rightarrow> nat" where
  "byte_len s = sum_list (map utf8_width s)"

lemma byte_len_simps [simp]:
  "byte_len [] = 0" "byte_len (c # s) = utf8_width c + byte_len s"
  by (simp_all add: byte_len_def)

lemma byte_len_ge: "length s \<le> byte_len s"
proof (induction s)
  case (Cons c s)
  have "1 \<le> utf8_width c" by (simp add: utf8_width_def)
  with Cons show ?case by simp
qed simp

lemma byte_len_ascii: "\<forall>c\<in>set s. c < 128 \<Longrightarrow> byte_len s = length s"
  by (induction s) (auto simp: utf8_width_def)

section \<open>Trimming, prefixes and splitting\<close>

definition trim_start_matches :: "(nat \<Rightarrow> bool) \<Rightarrow> ustr \<Rightarrow> ustr" where
  "trim_start_matches p s = dropWhile p s"

definition trim_matches :: "(nat \<Rightarrow> bool) \<Rightarrow> ustr \<Rightarrow> ustr" where
  "trim_matches p s = rev (dropWhile p (rev (dropWhile p s)))"

definition trim :: "ustr \<Rightarrow> ustr" where
  "trim s = trim_matches is_whitespace s"

definition starts_with :: "ustr \<Rightarrow> ustr \<Rightarrow> bool" where
  "starts_with p s \<longleftrightarrow> take (length p) s = p"

definition strip_prefix :: "ustr \<Rightarrow> ustr \<Rightarrow> ustr option" where
  "strip_prefix p s = (if starts_with p s then Some (drop (length p) s) else None)"

definition strip_suffix_char :: "nat \<Rightarrow> ustr \<Rightarrow> ustr option" where
  "strip_suffix_char c s = (if s \<noteq> [] \<and> last s = c then Some (butlast s) else None)"

fun contains_str :: "ustr \<Rightarrow> ustr \<Rightarrow> bool" where
  "contains_str p [] \<longleftrightarrow> p = []"
| "contains_str p (c # s) \<longleftrightarrow> starts_with p (c # s) \<or> contains_str p s"

text \<open>\<open>str::split(c)\<close>: always at least one piece.\<close>

fun split_char :: "nat \<Rightarrow> ustr \<Rightarrow> ustr list" where
  "split_char c [] = [[]]"
| "split_char c (x # s) =
     (if x = c then [] # split_char c s
      else (case split_char c s of [] \<Rightarrow> [[x]] | p # ps \<Rightarrow> (x # p) # ps))"

text \<open>\<open>split_inclusive('\n')\<close>: every piece but possibly the last ends in a line feed.\<close>

fun split_inclusive :: "nat \<Rightarrow> ustr \<Rightarrow> ustr list" where
  "split_inclusive c [] = []"
| "split_inclusive c (x # s) =
     (if x = c then [x] # split_inclusive c s
      else (case split_inclusive c s of [] \<Rightarrow> [[x]] | p # ps \<Rightarrow> (x # p) # ps))"

text \<open>\<open>str::lines\<close>: drops the line feed of each piece and a carriage return before it.\<close>

definition strip_line_end :: "ustr \<Rightarrow> ustr" where
  "strip_line_end l =
     (case strip_suffix_char 10 l of None \<Rightarrow> l
      | Some l' \<Rightarrow> (case strip_suffix_char 13 l' of None \<Rightarrow> l' | Some l'' \<Rightarrow> l''))"

definition str_lines :: "ustr \<Rightarrow> ustr list" where
  "str_lines s = map strip_line_end (split_inclusive 10 s)"

text \<open>\<open>split_whitespace\<close>: the maximal runs of non-whitespace characters.\<close>

fun split_ws_acc :: "ustr \<Rightarrow> ustr \<Rightarrow> ustr list" where
  "split_ws_acc acc [] = (if acc = [] then [] else [rev acc])"
| "split_ws_acc acc (c # s) =
     (if is_whitespace c then (if acc = [] then [] else [rev acc]) @ split_ws_acc [] s
      else split_ws_acc (c # acc) s)"

definition split_whitespace :: "ustr \<Rightarrow> ustr list" where
  "split_whitespace s = split_ws_acc [] s"

text \<open>\<open>slice::join\<close> with a separator.\<close>

fun join :: "ustr \<Rightarrow> ustr list \<Rightarrow> ustr" where
  "join sep [] = []"
| "join sep [x] = x"
| "join sep (x # y # xs) = x @ sep @ join sep (y # xs)"

lemma dropWhile_rev_Nil: "dropWhile p (rev s) = [] \<longleftrightarrow> (\<forall>c\<in>set s. p c)"
  by (simp add: dropWhile_eq_Nil_conv)

lemma trim_matches_Nil [simp]: "trim_matches p s = [] \<longleftrightarrow> (\<forall>c\<in>set s. p c)"
proof -
  have "dropWhile p s = [] \<or> \<not> (\<forall>c\<in>set (dropWhile p s). p c)"
    by (metis dropWhile_eq_Nil_conv hd_dropWhile hd_in_set)
  then show ?thesis
    unfolding trim_matches_def dropWhile_rev_Nil rev_is_Nil_conv
    by (metis dropWhile_eq_Nil_conv set_dropWhileD)
qed

lemma set_trim_matches: "set (trim_matches p s) \<subseteq> set s"
  by (auto simp: trim_matches_def dest!: set_dropWhileD)

lemma set_trim: "set (trim s) \<subseteq> set s"
  by (simp add: trim_def set_trim_matches)

lemma trim_matches_first:
  "trim_matches p s \<noteq> [] \<Longrightarrow> \<not> p (hd (trim_matches p s)) \<and> \<not> p (last (trim_matches p s))"
proof
  assume ne: "trim_matches p s \<noteq> []"
  then have ne': "dropWhile p (rev (dropWhile p s)) \<noteq> []" by (simp add: trim_matches_def)
  then show "\<not> p (last (trim_matches p s))"
    by (simp add: trim_matches_def last_rev hd_dropWhile)
  let ?d = "dropWhile p s"
  from ne' have d: "?d \<noteq> []" by (metis dropWhile.simps(1) rev.simps(1))
  then have "\<not> p (hd ?d)" by (rule hd_dropWhile)
  obtain ys where ys: "?d = rev (dropWhile p (rev ?d)) @ ys"
    by (metis rev_append rev_rev_ident takeWhile_dropWhile_id)
  have "hd ?d = hd (rev (dropWhile p (rev ?d)) @ ys)"
    by (rule arg_cong [OF ys])
  also have "\<dots> = hd (rev (dropWhile p (rev ?d)))"
    by (rule hd_append2) (use ne' in \<open>simp only: rev_is_Nil_conv not_False_eq_True\<close>)
  finally have "hd ?d = hd (rev (dropWhile p (rev ?d)))" .
  with \<open>\<not> p (hd ?d)\<close> show "\<not> p (hd (trim_matches p s))"
    by (simp add: trim_matches_def)
qed

lemma trim_matches_id: "s = [] \<or> (\<not> p (hd s) \<and> \<not> p (last s)) \<Longrightarrow> trim_matches p s = s"
proof -
  assume s: "s = [] \<or> (\<not> p (hd s) \<and> \<not> p (last s))"
  then have "dropWhile p s = s" by (auto simp: dropWhile_eq_self_iff)
  moreover from s have "dropWhile p (rev s) = rev s"
    by (auto simp: dropWhile_eq_self_iff hd_rev)
  ultimately show ?thesis by (simp add: trim_matches_def)
qed

lemma trim_matches_idem [simp]: "trim_matches p (trim_matches p s) = trim_matches p s"
  by (rule trim_matches_id) (use trim_matches_first in blast)

lemma trim_idem [simp]: "trim (trim s) = trim s"
  by (simp add: trim_def)

lemma split_ws_acc_no_ws:
  "\<forall>c\<in>set acc. \<not> is_whitespace c \<Longrightarrow> t \<in> set (split_ws_acc acc s) \<Longrightarrow>
     t \<noteq> [] \<and> (\<forall>c\<in>set t. \<not> is_whitespace c)"
proof (induction s arbitrary: acc)
  case Nil
  then show ?case by (simp split: if_splits)
next
  case (Cons c s)
  show ?case
  proof (cases "is_whitespace c")
    case True
    with Cons.prems have "(acc \<noteq> [] \<and> t = rev acc) \<or> t \<in> set (split_ws_acc [] s)"
      by (simp split: if_splits)
    with Cons.prems(1) Cons.IH [of "[]"] show ?thesis by auto
  next
    case False
    with Cons.prems have "t \<in> set (split_ws_acc (c # acc) s)" by simp
    with False Cons.prems(1) show ?thesis by (intro Cons.IH [of "c # acc"]) simp_all
  qed
qed

lemma split_whitespace_token:
  "t \<in> set (split_whitespace s) \<Longrightarrow> t \<noteq> [] \<and> (\<forall>c\<in>set t. \<not> is_whitespace c)"
  unfolding split_whitespace_def by (rule split_ws_acc_no_ws) auto

lemma split_char_nonempty [simp]: "split_char c s \<noteq> []"
  by (cases s) (auto split: list.splits)

lemma split_char_pieces: "p \<in> set (split_char c s) \<Longrightarrow> c \<notin> set p"
  by (induction s arbitrary: p) (auto split: if_splits list.splits)

lemma join_split_char: "join [c] (split_char c s) = s"
proof (induction s)
  case (Cons x s)
  then show ?case
    by (cases "split_char c s"; cases "tl (split_char c s)") auto
qed simp

lemma split_char_no_sep: "c \<notin> set p \<Longrightarrow> split_char c p = [p]"
  by (induction p) auto

lemma split_char_append: "c \<notin> set p \<Longrightarrow> split_char c (p @ c # s) = p # split_char c s"
  by (induction p) auto

text \<open>Splitting undoes joining when no piece holds the separator.\<close>

lemma split_char_join:
  "ps \<noteq> [] \<Longrightarrow> \<forall>p\<in>set ps. c \<notin> set p \<Longrightarrow> split_char c (join [c] ps) = ps"
  by (induction ps rule: induct_list012)
    (auto simp: split_char_no_sep split_char_append)

section \<open>Integer parsing\<close>

text \<open>
  \<open>str::parse::<i64>\<close>: an optional sign, then at least one digit; a value outside the
  64-bit range is an error.
\<close>

fun digits_val :: "int \<Rightarrow> ustr \<Rightarrow> int option" where
  "digits_val acc [] = Some acc"
| "digits_val acc (c # s) =
     (if is_ascii_digit c then digits_val (acc * 10 + (int c - 48)) s else None)"

definition in_i64 :: "int \<Rightarrow> bool" where
  "in_i64 i \<longleftrightarrow> - (2 ^ 63) \<le> i \<and> i < 2 ^ 63"

definition parse_i64 :: "ustr \<Rightarrow> int option" where
  "parse_i64 s =
     (case s of [] \<Rightarrow> None
      | c # t \<Rightarrow>
         (let neg = (c = 45); body = (if c = 45 \<or> c = 43 then t else s)
          in if body = [] then None
             else (case digits_val 0 body of None \<Rightarrow> None
                   | Some v \<Rightarrow> (let r = (if neg then - v else v)
                                in if in_i64 r then Some r else None))))"

lemma parse_i64_range: "parse_i64 s = Some i \<Longrightarrow> in_i64 i"
  by (auto simp: parse_i64_def Let_def split: list.splits option.splits if_splits)

text \<open>\<open>Display\<close> of an integer: decimal digits, a minus sign when negative.\<close>

fun show_nat :: "nat \<Rightarrow> ustr" where
  "show_nat n = (if n < 10 then [48 + n] else show_nat (n div 10) @ [48 + n mod 10])"

declare show_nat.simps [simp del]

definition show_int :: "int \<Rightarrow> ustr" where
  "show_int i = (if i < 0 then 45 # show_nat (nat (- i)) else show_nat (nat i))"

lemma digits_val_append:
  "digits_val acc (s @ t) =
     (case digits_val acc s of None \<Rightarrow> None | Some v \<Rightarrow> digits_val v t)"
  by (induction s arbitrary: acc) auto

lemma digits_val_show_nat: "digits_val 0 (show_nat n) = Some (int n)"
proof (induction n rule: show_nat.induct)
  case (1 n)
  show ?case
  proof (cases "n < 10")
    case True
    then show ?thesis by (subst show_nat.simps) (simp add: is_ascii_digit_def)
  next
    case False
    with 1 have "digits_val 0 (show_nat (n div 10)) = Some (int (n div 10))" by simp
    with False show ?thesis
      by (subst show_nat.simps)
        (simp add: digits_val_append is_ascii_digit_def zdiv_int zmod_int)
  qed
qed

lemma show_nat_first: "show_nat n \<noteq> [] \<and> (\<exists>d t. show_nat n = d # t \<and> 48 \<le> d \<and> d \<le> 57)"
proof (induction n rule: show_nat.induct)
  case (1 n)
  then show ?case
    by (cases "n < 10"; subst (1 2) show_nat.simps) (auto simp: append_eq_Cons_conv)
qed

lemma parse_show_int: "in_i64 i \<Longrightarrow> parse_i64 (show_int i) = Some i"
  using show_nat_first [of "nat i"] digits_val_show_nat [of "nat i"]
    digits_val_show_nat [of "nat (- i)"] show_nat_first [of "nat (- i)"]
  by (auto simp: parse_i64_def show_int_def Let_def)

end
