(* ===== verification/Posts.thy ===== *)
theory Posts
  imports Text_Ops
begin

text \<open>
  The data of \<open>parser-api/src/models/posts.rs\<close>: a post as e621 returns it, the tags that
  classify it, the interactions a client reports and the scored post of the feed.  Record
  fields keep the source's names; where a name is taken in HOL or shared by two structs it
  carries a prefix (\<open>p_id\<close>, \<open>sp_score\<close>).  An \<open>i64\<close> or \<open>i32\<close> field is an \<open>int\<close>, as no code
  modelled here does arithmetic on one that could leave its range; time stamps count
  nanoseconds since the epoch.
\<close>

section \<open>Posts\<close>

datatype Rating = S | Q | E

record Score =
  up :: int
  down :: int
  total :: int

record FileMeta =
  md5 :: "ustr option"
  ext :: "ustr option"
  file_size :: int
  duration :: "f64 option"
  has_sample :: bool

record FileOriginal =
  o_width :: int
  o_height :: int
  o_url :: "ustr option"

record FilePreview =
  pv_url :: "ustr option"
  pv_alt :: "ustr option"
  pv_width :: int
  pv_height :: int
  pv_jpg :: "ustr option"
  pv_webp :: "ustr option"

record FileSample =
  sm_url :: "ustr option"
  sm_alt :: "ustr option"
  sm_width :: int
  sm_height :: int
  sm_jpg :: "ustr option"
  sm_webp :: "ustr option"

record Files =
  f_meta :: FileMeta
  original :: FileOriginal
  preview :: FilePreview
  f_sample :: FileSample

record Stats =
  st_score :: Score
  fav_count :: int
  is_favorited :: bool
  st_vote :: int
  comment_count :: int

record Has =
  has_parent :: bool
  has_children :: bool
  active_children :: bool
  has_notes :: bool
  sample :: bool

record Relationships =
  parent_id :: "int option"
  children :: "int list"

record Tags =
  general :: "ustr list"
  artist :: "ustr list"
  copyright :: "ustr list"
  character :: "ustr list"
  species :: "ustr list"
  invalid :: "ustr list"
  meta :: "ustr list"
  lore :: "ustr list"
  contributor :: "ustr list"

record Flags =
  pending :: bool
  flagged :: bool
  note_locked :: bool
  status_locked :: bool
  rating_locked :: bool
  deleted :: bool

record Post =
  p_id :: int
  created_at :: int
  updated_at :: int
  files :: Files
  change_seq :: f64
  uploader_id :: int
  uploader_name :: "ustr option"
  approver_id :: "int option"
  stats :: Stats
  flags :: Flags
  has :: Has
  relationships :: Relationships
  pools :: "int list"
  rating :: Rating
  locked_tags :: "ustr list"
  sources :: "ustr list"
  description :: "ustr option"
  tags :: Tags

text \<open>\<open>Default\<close> of the structs: numbers 0, flags false, lists empty, options \<open>None\<close>.\<close>

definition Tags_default :: Tags where
  "Tags_default = \<lparr>general = [], artist = [], copyright = [], character = [], species = [],
     invalid = [], meta = [], lore = [], contributor = []\<rparr>"

definition Files_default :: Files where
  "Files_default =
     \<lparr>f_meta = \<lparr>md5 = None, ext = None, file_size = 0, duration = None, has_sample = False\<rparr>,
      original = \<lparr>o_width = 0, o_height = 0, o_url = None\<rparr>,
      preview = \<lparr>pv_url = None, pv_alt = None, pv_width = 0, pv_height = 0, pv_jpg = None,
        pv_webp = None\<rparr>,
      f_sample = \<lparr>sm_url = None, sm_alt = None, sm_width = 0, sm_height = 0, sm_jpg = None,
        sm_webp = None\<rparr>\<rparr>"

definition Stats_default :: Stats where
  "Stats_default = \<lparr>st_score = \<lparr>up = 0, down = 0, total = 0\<rparr>, fav_count = 0,
     is_favorited = False, st_vote = 0, comment_count = 0\<rparr>"

definition Flags_default :: Flags where
  "Flags_default = \<lparr>pending = False, flagged = False, note_locked = False,
     status_locked = False, rating_locked = False, deleted = False\<rparr>"

definition Has_default :: Has where
  "Has_default = \<lparr>has_parent = False, has_children = False, active_children = False,
     has_notes = False, sample = False\<rparr>"

text \<open>A post with every other field at its default, for the witnesses.\<close>

definition sample_post :: "int \<Rightarrow> int \<Rightarrow> ustr list \<Rightarrow> Post" where
  "sample_post i t artists = \<lparr>p_id = i, created_at = t, updated_at = t, files = Files_default,
     change_seq = 0, uploader_id = 0, uploader_name = None, approver_id = None,
     stats = Stats_default, flags = Flags_default, has = Has_default,
     relationships = \<lparr>parent_id = None, children = []\<rparr>, pools = [], rating = S,
     locked_tags = [], sources = [], description = None,
     tags = Tags_default\<lparr>artist := artists\<rparr>\<rparr>"

section \<open>Operations on posts\<close>

definition media_type :: "Post \<Rightarrow> ustr" where
  "media_type p =
     (let e = map_option to_ascii_lowercase (ext (f_meta (files p)))
      in if e = Some (lit ''webm'') \<or> e = Some (lit ''mp4'') then lit ''video''
         else if e = Some (lit ''gif'') then lit ''animated''
         else if (case duration (f_meta (files p)) of None \<Rightarrow> 0 | Some d \<Rightarrow> d) > 0
              then lit ''video'' else lit ''image'')"

definition is_animated :: "Post \<Rightarrow> bool" where
  "is_animated p \<longleftrightarrow> media_type p \<noteq> lit ''image''"

definition tag_groups :: "Post \<Rightarrow> Tags" where
  "tag_groups p = tags p"

text \<open>
  \<open>deserialize_tags\<close>: the JSON value is an object (its entries in document order, later
  entries overwriting earlier ones) or an array of strings.
\<close>

datatype tags_json = TagMap "(ustr \<times> ustr list) list" | TagSeq "ustr list"

definition set_tag_group :: "ustr \<Rightarrow> ustr list \<Rightarrow> Tags \<Rightarrow> Tags" where
  "set_tag_group key vals t =
     (if key = lit ''general'' then t\<lparr>general := vals\<rparr>
      else if key = lit ''artist'' then t\<lparr>artist := vals\<rparr>
      else if key = lit ''character'' then t\<lparr>character := vals\<rparr>
      else if key = lit ''copyright'' then t\<lparr>copyright := vals\<rparr>
      else if key = lit ''species'' then t\<lparr>species := vals\<rparr>
      else if key = lit ''lore'' then t\<lparr>lore := vals\<rparr>
      else if key = lit ''meta'' then t\<lparr>meta := vals\<rparr>
      else if key = lit ''invalid'' then t\<lparr>invalid := vals\<rparr>
      else if key = lit ''contributor'' then t\<lparr>contributor := vals\<rparr>
      else t)"

fun visit_map :: "Tags \<Rightarrow> (ustr \<times> ustr list) list \<Rightarrow> Tags" where
  "visit_map t [] = t"
| "visit_map t ((key, vals) # es) = visit_map (set_tag_group key vals t) es"

fun deserialize_tags :: "tags_json \<Rightarrow> Tags" where
  "deserialize_tags (TagMap es) = visit_map Tags_default es"
| "deserialize_tags (TagSeq vs) = Tags_default\<lparr>general := vs\<rparr>"

text \<open>The derived \<open>Serialize\<close> of \<open>Tags\<close>: one entry per field, in field order.\<close>

definition serialize_tags :: "Tags \<Rightarrow> tags_json" where
  "serialize_tags t = TagMap
     [(lit ''general'', general t), (lit ''artist'', artist t), (lit ''copyright'', copyright t),
      (lit ''character'', character t), (lit ''species'', species t),
      (lit ''invalid'', invalid t), (lit ''meta'', meta t), (lit ''lore'', lore t),
      (lit ''contributor'', contributor t)]"

lemma media_type_cases:
  "media_type p \<in> {lit ''video'', lit ''animated'', lit ''image''}"
  by (auto simp: media_type_def Let_def)

lemma tags_roundtrip: "deserialize_tags (serialize_tags t) = t"
  by (cases t) (simp add: serialize_tags_def set_tag_group_def Tags_default_def)

section \<open>Interactions\<close>

datatype FeedInteractionType = QualifiedImpression | Open | Unknown

record FeedInteractionRequest =
  fi_account_id :: int
  fi_post_id :: int
  event_type :: FeedInteractionType
  position :: int
  session_id :: ustr

record BatchInteractionRequest =
  interactions :: "FeedInteractionRequest list"

fun event_type_text :: "FeedInteractionType \<Rightarrow> ustr" where
  "event_type_text QualifiedImpression = lit ''qualified_impression''"
| "event_type_text Open = lit ''open''"
| "event_type_text Unknown = lit ''unknown''"

fun rating_text :: "Rating \<Rightarrow> ustr" where
  "rating_text S = lit ''s''"
| "rating_text Q = lit ''q''"
| "rating_text E = lit ''e''"

section \<open>Scored posts\<close>

record ScoreBreakdown =
  tag_similarity :: f32
  quality_fit :: f32
  recency_fit :: f32
  rating_fit :: f32
  media_fit :: f32
  popularity_fit :: f32
  tag_relation_fit :: f32
  uploader_fit :: f32
  exclusivity_fit :: f32
  novelty_fit :: f32
  artist_discovery_fit :: f32

record ScoredPost =
  sp_post :: Post
  sp_score :: f32
  breakdown :: "ScoreBreakdown option"
  reasons :: "ustr list"

definition sample_scored :: "Post \<Rightarrow> f32 \<Rightarrow> ScoredPost" where
  "sample_scored p s = \<lparr>sp_post = p, sp_score = s, breakdown = None, reasons = []\<rparr>"

section \<open>Time\<close>

text \<open>\<open>TimeDelta::num_seconds\<close> truncates towards zero; a delta counts nanoseconds.\<close>

definition num_seconds :: "int \<Rightarrow> int" where
  "num_seconds d = (if 0 \<le> d then d div 1000000000 else - ((- d) div 1000000000))"

definition num_milliseconds :: "int \<Rightarrow> int" where
  "num_milliseconds d = (if 0 \<le> d then d div 1000000 else - ((- d) div 1000000))"

lemma num_seconds_mono: "a \<le> b \<Longrightarrow> num_seconds a \<le> num_seconds b"
  by (auto simp: num_seconds_def intro: zdiv_mono1)
    (smt (verit) div_neg_pos_less0 zdiv_mono1 pos_imp_zdiv_nonneg_iff)+

end
