(* ===== verification/Composition.thy ===== *)
theory Composition
  imports Posts
begin

text \<open>
  The composition quota of the feed's head, \<open>parser-api/src/utils/composition.rs\<close>: two
  floors (recent and old posts) on the first band, a ceiling on old posts and a ceiling
  per artist on every band.  Each rule is a loop of swaps of the source; a rule is one
  definition, the loops are recursive functions with the source's guards.  The artist
  loop need not end (see \<open>artist_loop_diverges\<close>), so it is a partial function.
\<close>

section \<open>Targets and kinds\<close>

record CompositionTargets =
  window :: nat
  fresh_quota :: nat
  fresh_days :: f64
  old_quota :: nat
  old_cap :: nat
  old_days :: f64
  artist_cap :: nat

definition targets_default :: CompositionTargets where
  "targets_default = \<lparr>window = 20, fresh_quota = 0, fresh_days = 7, old_quota = 0,
     old_cap = 0, old_days = 365, artist_cap = 0\<rparr>"

record CompositionReport =
  fresh_in_window :: nat
  fresh_promoted :: nat
  old_in_window :: nat
  old_promoted :: nat
  old_demoted :: nat
  artists_demoted :: nat

definition report_default :: CompositionReport where
  "report_default = \<lparr>fresh_in_window = 0, fresh_promoted = 0, old_in_window = 0,
     old_promoted = 0, old_demoted = 0, artists_demoted = 0\<rparr>"

datatype Kind = Fresh | Old

definition age_days :: "ScoredPost \<Rightarrow> int \<Rightarrow> f64" where
  "age_days p now =
     real_of_int (max 0 (num_seconds (now - created_at (sp_post p)))) / 86400"

definition kind_matches :: "CompositionTargets \<Rightarrow> int \<Rightarrow> Kind \<Rightarrow> ScoredPost \<Rightarrow> bool" where
  "kind_matches t now kind p =
     (let age = age_days p now
      in case kind of Fresh \<Rightarrow> age < fresh_days t | Old \<Rightarrow> age > old_days t)"

definition quota :: "CompositionTargets \<Rightarrow> Kind \<Rightarrow> nat" where
  "quota t kind = (case kind of Fresh \<Rightarrow> fresh_quota t | Old \<Rightarrow> old_quota t)"

fun other :: "Kind \<Rightarrow> Kind" where
  "other Fresh = Old"
| "other Old = Fresh"

section \<open>The floors\<close>

text \<open>
  A post of the window may be evicted when it does not match the promoted kind and the
  other quota, as far as the window holds it now, survives its removal.
\<close>

definition victim_ok ::
  "CompositionTargets \<Rightarrow> int \<Rightarrow> Kind \<Rightarrow> nat \<Rightarrow> ScoredPost list \<Rightarrow> nat \<Rightarrow> bool" where
  "victim_ok t now kind w xs i =
     (if kind_matches t now kind (xs ! i) then False
      else
        let ok = other kind;
            other_quota = min (quota t ok) w;
            other_now = count_where (kind_matches t now ok) (slc 0 w xs);
            other_target = min other_quota other_now;
            removed = (if kind_matches t now ok (xs ! i) then 1 else 0)
        in other_now - removed \<ge> other_target)"

function promote_loop ::
  "CompositionTargets \<Rightarrow> int \<Rightarrow> Kind \<Rightarrow> nat \<Rightarrow> nat \<Rightarrow> ScoredPost list \<Rightarrow> nat \<Rightarrow> nat \<Rightarrow>
     ScoredPost list \<times> nat \<times> nat" where
  "promote_loop t now kind q w xs cnt promoted =
     (if cnt < q then
        (case find_up (\<lambda>i. kind_matches t now kind (xs ! i)) w (length xs) of
           None \<Rightarrow> (xs, cnt, promoted)
         | Some src \<Rightarrow>
            (case find_down (victim_ok t now kind w xs) 0 w of
               None \<Rightarrow> (xs, cnt, promoted)
             | Some dst \<Rightarrow>
                promote_loop t now kind q w (swap dst src xs) (cnt + 1) (promoted + 1)))
      else (xs, cnt, promoted))"
  by pat_completeness auto
termination
  by (relation "measure (\<lambda>(t, now, kind, q, w, xs, cnt, promoted). q - cnt)") auto

declare promote_loop.simps [simp del]

definition floor_pass ::
  "CompositionTargets \<Rightarrow> int \<Rightarrow> nat \<Rightarrow> Kind \<Rightarrow> ScoredPost list \<times> CompositionReport \<Rightarrow>
     ScoredPost list \<times> CompositionReport" where
  "floor_pass t now w kind = (\<lambda>(xs, r).
     let q = min (quota t kind) w
     in if q = 0 then (xs, r)
        else
          let cnt = count_where (kind_matches t now kind) (slc 0 w xs)
          in case kind of
               Fresh \<Rightarrow>
                 (case promote_loop t now kind q w xs cnt (fresh_promoted r) of
                    (xs', c, p) \<Rightarrow> (xs', r\<lparr>fresh_promoted := p, fresh_in_window := c\<rparr>))
             | Old \<Rightarrow>
                 (case promote_loop t now kind q w xs cnt (old_promoted r) of
                    (xs', c, p) \<Rightarrow> (xs', r\<lparr>old_promoted := p, old_in_window := c\<rparr>)))"

section \<open>The ceiling on old posts\<close>

function demote_loop ::
  "CompositionTargets \<Rightarrow> int \<Rightarrow> nat \<Rightarrow> nat \<Rightarrow> nat \<Rightarrow> ScoredPost list \<Rightarrow> nat \<Rightarrow> nat \<Rightarrow>
     ScoredPost list \<times> nat \<times> nat" where
  "demote_loop t now cap band_start band_end xs cnt demoted =
     (if cnt > cap then
        (case find_down (\<lambda>i. kind_matches t now Old (xs ! i)) band_start band_end of
           None \<Rightarrow> (xs, cnt, demoted)
         | Some dst \<Rightarrow>
            (case find_up (\<lambda>i. \<not> kind_matches t now Old (xs ! i)) band_end (length xs) of
               None \<Rightarrow> (xs, cnt, demoted)
             | Some src \<Rightarrow>
                demote_loop t now cap band_start band_end (swap dst src xs)
                  (cnt - 1) (demoted + 1)))
      else (xs, cnt, demoted))"
  by pat_completeness auto
termination
  by (relation "measure (\<lambda>(t, now, cap, bs, be, xs, cnt, demoted). cnt)") auto

declare demote_loop.simps [simp del]

lemma length_demote_loop [simp]:
  "length (fst (demote_loop t now cap bs be xs c d)) = length xs"
proof (induction t now cap bs be xs c d rule: demote_loop.induct)
  case (1 t now cap bs be xs c d)
  then show ?case
    by (subst demote_loop.simps) (auto split: option.splits)
qed

function old_bands ::
  "CompositionTargets \<Rightarrow> int \<Rightarrow> nat \<Rightarrow> nat \<Rightarrow> nat \<Rightarrow> ScoredPost list \<Rightarrow> CompositionReport \<Rightarrow>
     ScoredPost list \<times> CompositionReport" where
  "old_bands t now w cap band_start xs r =
     (if 0 < w \<and> band_start + w \<le> length xs then
        let band_end = band_start + w;
            cnt = count_where (kind_matches t now Old) (slc band_start band_end xs);
            res = demote_loop t now cap band_start band_end xs cnt (old_demoted r);
            r1 = r\<lparr>old_demoted := snd (snd res)\<rparr>;
            r2 = (if band_start = 0 then r1\<lparr>old_in_window := fst (snd res)\<rparr> else r1)
        in old_bands t now w cap band_end (fst res) r2
      else (xs, r))"
  by pat_completeness auto
termination
  by (relation "measure (\<lambda>(t, now, w, cap, bs, xs, r). length xs - bs)") auto

declare old_bands.simps [simp del]

definition old_ceiling_pass ::
  "CompositionTargets \<Rightarrow> int \<Rightarrow> nat \<Rightarrow> ScoredPost list \<times> CompositionReport \<Rightarrow>
     ScoredPost list \<times> CompositionReport" where
  "old_ceiling_pass t now w = (\<lambda>(xs, r).
     if old_cap t > 0
     then old_bands t now w (min (max (old_cap t) (old_quota t)) w) 0 xs r
     else (xs, r))"

section \<open>The ceiling per artist\<close>

definition artists_of :: "ScoredPost \<Rightarrow> ustr list" where
  "artists_of p = artist (tags (sp_post p))"

text \<open>The \<open>HashMap\<close> of the source, read with \<open>unwrap_or(0)\<close>: a count per name.\<close>

definition artist_counts :: "ScoredPost list \<Rightarrow> ustr \<Rightarrow> nat" where
  "artist_counts band =
     fold (\<lambda>a m. m(a := m a + 1)) (concat (map artists_of band)) (\<lambda>_. 0)"

definition first_over :: "nat \<Rightarrow> ScoredPost list \<Rightarrow> ustr option" where
  "first_over cap band =
     find (\<lambda>a. artist_counts band a > cap) (concat (map artists_of band))"

definition swap_keeps_age ::
  "CompositionTargets \<Rightarrow> bool \<Rightarrow> nat \<Rightarrow> nat \<Rightarrow> nat \<Rightarrow> ScoredPost \<Rightarrow> ScoredPost \<Rightarrow> int \<Rightarrow> bool" where
  "swap_keeps_age t head_band w fresh old victim src now =
     (let fresh_after = fresh - of_bool (kind_matches t now Fresh victim)
                        + of_bool (kind_matches t now Fresh src);
          old_after = old - of_bool (kind_matches t now Old victim)
                        + of_bool (kind_matches t now Old src);
          fresh_floor = (if head_band then min (min (fresh_quota t) w) fresh else 0);
          old_floor = (if head_band then min (min (old_quota t) w) old else 0);
          old_ceiling = (if old_cap t > 0 then min (max (old_cap t) (old_quota t)) w else w)
      in fresh_after \<ge> fresh_floor \<and> old_after \<ge> old_floor \<and> old_after \<le> old_ceiling)"

definition adds_ok :: "nat \<Rightarrow> ScoredPost list \<Rightarrow> ustr \<Rightarrow> ScoredPost \<Rightarrow> ScoredPost \<Rightarrow> bool" where
  "adds_ok cap band over victim candidate =
     list_all (\<lambda>a. if a = over then False
                   else artist_counts band a + 1 - of_bool (a \<in> set (artists_of victim)) \<le> cap)
       (artists_of candidate)"

text \<open>One turn of the loop: the swap it makes, or \<open>None\<close> where the source breaks.\<close>

definition artist_swap ::
  "CompositionTargets \<Rightarrow> int \<Rightarrow> nat \<Rightarrow> nat \<Rightarrow> nat \<Rightarrow> nat \<Rightarrow> ScoredPost list \<Rightarrow>
     (nat \<times> nat) option" where
  "artist_swap t now w cap bs be xs =
     (let band = slc bs be xs
      in case first_over cap band of
           None \<Rightarrow> None
         | Some over \<Rightarrow>
            (case find_down (\<lambda>i. over \<in> set (artists_of (xs ! i))) bs be of
               None \<Rightarrow> None
             | Some victim \<Rightarrow>
                (let fresh = count_where (kind_matches t now Fresh) band;
                     old = count_where (kind_matches t now Old) band
                 in case find_up (\<lambda>i. adds_ok cap band over (xs ! victim) (xs ! i) \<and>
                                     swap_keeps_age t (bs = 0) w fresh old
                                       (xs ! victim) (xs ! i) now) be (length xs) of
                      None \<Rightarrow> None
                    | Some src \<Rightarrow> Some (victim, src))))"

partial_function (option) artist_loop ::
  "CompositionTargets \<Rightarrow> int \<Rightarrow> nat \<Rightarrow> nat \<Rightarrow> nat \<Rightarrow> nat \<Rightarrow> ScoredPost list \<Rightarrow> nat \<Rightarrow>
     (ScoredPost list \<times> nat) option" where
  "artist_loop t now w cap bs be xs demoted =
     (case artist_swap t now w cap bs be xs of
        None \<Rightarrow> Some (xs, demoted)
      | Some vs \<Rightarrow> artist_loop t now w cap bs be (swap (fst vs) (snd vs) xs) (demoted + 1))"

lemma artist_loop_length:
  assumes "artist_loop t now w cap bs be xs d = Some r"
  shows "length (fst r) = length xs"
proof (rule artist_loop.raw_induct
    [where P = "\<lambda>t now w cap bs be xs d r. length (fst r) = length xs", OF _ assms])
  fix f t now w cap bs be xs d r
  assume IH: "\<And>t now w cap bs be xs d r.
      f t now w cap bs be xs d = Some r \<Longrightarrow> length (fst r) = length xs"
    and eq: "(case artist_swap t now w cap bs be xs of
        None \<Rightarrow> Some (xs, d)
      | Some vs \<Rightarrow> f t now w cap bs be (swap (fst vs) (snd vs) xs) (d + 1)) = Some r"
  then show "length (fst r) = length xs"
    by (auto split: option.splits dest!: IH)
qed

function artist_bands ::
  "CompositionTargets \<Rightarrow> int \<Rightarrow> nat \<Rightarrow> nat \<Rightarrow> nat \<Rightarrow> ScoredPost list \<Rightarrow> nat \<Rightarrow>
     (ScoredPost list \<times> nat) option" where
  "artist_bands t now w cap bs xs demoted =
     (if 0 < w \<and> bs + w \<le> length xs then
        (case artist_loop t now w cap bs (bs + w) xs demoted of
           None \<Rightarrow> None
         | Some (xs', demoted') \<Rightarrow> artist_bands t now w cap (bs + w) xs' demoted')
      else Some (xs, demoted))"
  by pat_completeness auto
termination
  by (relation "measure (\<lambda>(t, now, w, cap, bs, xs, d). length xs - bs)")
    (auto dest!: artist_loop_length)

declare artist_bands.simps [simp del]

definition artist_ceiling_pass ::
  "CompositionTargets \<Rightarrow> int \<Rightarrow> nat \<Rightarrow> ScoredPost list \<times> CompositionReport \<Rightarrow>
     (ScoredPost list \<times> CompositionReport) option" where
  "artist_ceiling_pass t now w = (\<lambda>(xs, r).
     if artist_cap t > 0
     then (case artist_bands t now w (max (artist_cap t) 1) 0 xs (artists_demoted r) of
             None \<Rightarrow> None
           | Some (xs', d) \<Rightarrow> Some (xs', r\<lparr>artists_demoted := d\<rparr>))
     else Some (xs, r))"

section \<open>The whole pass\<close>

definition fill_report ::
  "CompositionTargets \<Rightarrow> int \<Rightarrow> nat \<Rightarrow> ScoredPost list \<times> CompositionReport \<Rightarrow>
     ScoredPost list \<times> CompositionReport" where
  "fill_report t now w = (\<lambda>(xs, r).
     let r1 = (if fresh_quota t = 0
               then r\<lparr>fresh_in_window := count_where (kind_matches t now Fresh) (slc 0 w xs)\<rparr>
               else r);
         r2 = (if old_quota t = 0
               then r1\<lparr>old_in_window := count_where (kind_matches t now Old) (slc 0 w xs)\<rparr>
               else r1)
     in (xs, r2))"

definition apply_composition_quota ::
  "ScoredPost list \<Rightarrow> int \<Rightarrow> CompositionTargets \<Rightarrow>
     (ScoredPost list \<times> CompositionReport) option" where
  "apply_composition_quota scored now t =
     (let w = min (window t) (length scored)
      in if w = 0 then Some (scored, report_default)
         else map_option (fill_report t now w)
                (artist_ceiling_pass t now w
                  (old_ceiling_pass t now w
                    (floor_pass t now w Old
                      (floor_pass t now w Fresh (scored, report_default))))))"

end
