(* ===== verification/Composition_Floors.thy ===== *)
theory Composition_Floors
  imports Composition
begin

text \<open>
  The floors and the old ceiling of \<open>apply_composition_quota\<close>: what one swap does to the
  window's counts, what each loop keeps, and what holds when a loop stops.
\<close>

abbreviation in_head :: "CompositionTargets \<Rightarrow> int \<Rightarrow> nat \<Rightarrow> Kind \<Rightarrow> ScoredPost list \<Rightarrow> nat" where
  "in_head t now w k xs \<equiv> count_where (kind_matches t now k) (slc 0 w xs)"

abbreviation in_pool :: "CompositionTargets \<Rightarrow> int \<Rightarrow> Kind \<Rightarrow> ScoredPost list \<Rightarrow> nat" where
  "in_pool t now k xs \<equiv> count_where (kind_matches t now k) xs"

lemma other_other [simp]: "other (other k) = k"
  by (cases k) auto

lemma other_neq [simp]: "other k \<noteq> k" "k \<noteq> other k"
  by (cases k; simp)+

section \<open>One promotion\<close>

lemma promote_step:
  assumes w: "w \<le> length xs"
    and src: "find_up (\<lambda>i. kind_matches t now k (xs ! i)) w (length xs) = Some src"
    and dst: "find_down (victim_ok t now k w xs) 0 w = Some dst"
  shows "mset (swap dst src xs) = mset xs"
    and "in_head t now w k (swap dst src xs) = in_head t now w k xs + 1"
    and "min (quota t (other k)) w \<le> in_head t now w (other k) xs \<or>
         in_head t now w (other k) xs \<le> in_head t now w (other k) (swap dst src xs)"
    and "min (min (quota t (other k)) w) (in_head t now w (other k) xs)
           \<le> in_head t now w (other k) (swap dst src xs)"
proof -
  from find_up_Some [OF src] have s: "w \<le> src" "src < length xs" "kind_matches t now k (xs ! src)"
    by auto
  from find_down_Some [OF dst] have d: "dst < w" "victim_ok t now k w xs dst" by auto
  show "mset (swap dst src xs) = mset xs" using s d by simp
  have eq: "count_where P (slc 0 w (swap dst src xs)) + of_bool (P (xs ! dst)) =
      count_where P (slc 0 w xs) + of_bool (P (xs ! src))" for P
    using s d by (intro count_slc_swap) auto
  from d(2) have nm: "\<not> kind_matches t now k (xs ! dst)"
    by (auto simp: victim_ok_def split: if_splits)
  show "in_head t now w k (swap dst src xs) = in_head t now w k xs + 1"
    using eq [of "kind_matches t now k"] nm s(3) by simp
  let ?o = "other k" and ?N = "in_head t now w (other k) xs"
  from d(2) nm have ge: "?N - of_bool (kind_matches t now ?o (xs ! dst))
      \<ge> min (min (quota t ?o) w) ?N"
    by (simp add: victim_ok_def Let_def of_bool_def)
  have new: "?N - of_bool (kind_matches t now ?o (xs ! dst))
      \<le> in_head t now w ?o (swap dst src xs)"
    using eq [of "kind_matches t now ?o"] by linarith
  from ge new show "min (min (quota t ?o) w) ?N \<le> in_head t now w ?o (swap dst src xs)"
    by (rule order_trans)
  then show "min (quota t ?o) w \<le> ?N \<or> ?N \<le> in_head t now w ?o (swap dst src xs)"
    by linarith
qed

section \<open>The promotion loop\<close>

text \<open>
  Everything the loop keeps, in one relation between its start and its end, so that one
  computation induction serves every property of it.
\<close>

definition promoted_from ::
  "CompositionTargets \<Rightarrow> int \<Rightarrow> Kind \<Rightarrow> nat \<Rightarrow> nat \<Rightarrow> ScoredPost list \<Rightarrow> nat \<Rightarrow>
     ScoredPost list \<times> nat \<times> nat \<Rightarrow> bool" where
  "promoted_from t now k q w xs p r \<longleftrightarrow>
     (let xs' = fst r; c' = fst (snd r); p' = snd (snd r)
      in mset xs' = mset xs \<and> c' = in_head t now w k xs' \<and>
         in_head t now w k xs \<le> c' \<and> c' \<le> max q (in_head t now w k xs) \<and>
         p' + in_head t now w k xs = p + c' \<and>
         min (min (quota t (other k)) w) (in_head t now w (other k) xs)
           \<le> in_head t now w (other k) xs' \<and>
         (q \<le> c' \<or> in_pool t now k (drop w xs') = 0 \<or>
          (\<forall>i<w. \<not> victim_ok t now k w xs' i)))"

lemma promote_loop_promoted_from:
  "w \<le> length xs \<Longrightarrow> cnt = in_head t now w k xs \<Longrightarrow>
     promoted_from t now k q w xs p (promote_loop t now k q w xs cnt p)"
proof (induction t now k q w xs cnt p rule: promote_loop.induct)
  case (1 t now k q w xs cnt p)
  note w = "1.prems"(1) and cnt = "1.prems"(2)
  let ?src = "find_up (\<lambda>i. kind_matches t now k (xs ! i)) w (length xs)"
  let ?dst = "find_down (victim_ok t now k w xs) 0 w"
  show ?case
  proof (cases "cnt < q")
    case False
    with cnt show ?thesis
      by (subst promote_loop.simps) (simp add: promoted_from_def)
  next
    case lt: True
    show ?thesis
    proof (cases ?src)
      case None
      then have "in_pool t now k (drop w xs) = 0"
        by (simp add: find_up_None count_where_drop_zero)
      with None lt cnt show ?thesis
        by (subst promote_loop.simps) (simp add: promoted_from_def)
    next
      case (Some src)
      note src = this
      show ?thesis
      proof (cases ?dst)
        case None
        then have "\<forall>i<w. \<not> victim_ok t now k w xs i" by (simp add: find_down_None)
        with None src lt cnt show ?thesis
          by (subst promote_loop.simps) (simp add: promoted_from_def)
      next
        case (Some dst)
        note step = promote_step [OF w src Some]
        let ?ys = "swap dst src xs"
        from step(2) cnt have "promoted_from t now k q w ?ys (p + 1)
            (promote_loop t now k q w ?ys (cnt + 1) (p + 1))"
          using "1.IH" [OF lt src Some] w by simp
        moreover have "promote_loop t now k q w xs cnt p =
            promote_loop t now k q w ?ys (cnt + 1) (p + 1)"
          using lt src Some by (subst promote_loop.simps) simp
        ultimately show ?thesis
          using step lt cnt unfolding promoted_from_def Let_def by auto
      qed
    qed
  qed
qed

text \<open>
  When the two quotas fit the window together, the loop can only stop short when the pool
  has nothing left to promote.
\<close>

lemma victim_exists:
  assumes w: "w \<le> length xs"
    and fit: "q + min (quota t (other k)) w \<le> w"
    and short: "in_head t now w k xs < q"
  shows "\<exists>i<w. victim_ok t now k w xs i"
proof (rule ccontr)
  let ?o = "other k" and ?N = "in_head t now w (other k) xs"
  assume "\<not> (\<exists>i<w. victim_ok t now k w xs i)"
  then have none: "\<And>i. i < w \<Longrightarrow> \<not> victim_ok t now k w xs i" by blast
  let ?M = "kind_matches t now k" and ?O = "kind_matches t now ?o"
  have all: "?O (xs ! i) \<and> ?N - 1 < min (min (quota t ?o) w) ?N"
    if "i < w" "\<not> ?M (xs ! i)" for i
    using none [OF that(1)] that(2) by (auto simp: victim_ok_def Let_def split: if_splits)
  have sub: "x \<in> set (slc 0 w xs) \<Longrightarrow> \<not> ?M x \<Longrightarrow> ?O x" for x
    using all w by (auto simp: set_slc)
  have "length (filter (\<lambda>x. \<not> ?M x) (slc 0 w xs)) \<le> ?N"
  proof -
    have "filter (\<lambda>x. \<not> ?M x) (slc 0 w xs) = filter (\<lambda>x. \<not> ?M x) (filter ?O (slc 0 w xs))"
      using sub by (auto intro: filter_cong)
    then show ?thesis unfolding count_where_def by (metis length_filter_le)
  qed
  moreover have "in_head t now w k xs + length (filter (\<lambda>x. \<not> ?M x) (slc 0 w xs)) = w"
    using sum_length_filter_compl [of ?M "slc 0 w xs"] w by (simp add: count_where_def)
  moreover obtain i where "i < w" "\<not> ?M (xs ! i)"
  proof -
    have "in_head t now w k xs < w" using short fit by linarith
    then have "in_head t now w k xs < length (slc 0 w xs)" using w by simp
    then have "\<exists>x\<in>set (slc 0 w xs). \<not> ?M x"
      unfolding count_where_def by (metis filter_True less_irrefl_nat)
    then show thesis using that by (auto simp: set_slc)
  qed
  ultimately show False using all [of i] short fit by linarith
qed

lemma promoted_from_reaches:
  assumes r: "promoted_from t now k q w xs p r"
    and w: "w \<le> length xs" and fit: "q + min (quota t (other k)) w \<le> w"
  shows "min q (in_pool t now k xs) \<le> in_head t now w k (fst r)"
proof (rule ccontr)
  let ?ys = "fst r"
  assume not: "\<not> ?thesis"
  from r have ms: "mset ?ys = mset xs" and c: "fst (snd r) = in_head t now w k ?ys"
    and stop: "q \<le> fst (snd r) \<or> in_pool t now k (drop w ?ys) = 0 \<or>
      (\<forall>i<w. \<not> victim_ok t now k w ?ys i)"
    by (auto simp: promoted_from_def Let_def)
  from ms have len: "length ?ys = length xs" by (metis size_mset)
  from ms have pool: "in_pool t now k ?ys = in_pool t now k xs" by (rule count_where_mset)
  have split: "in_pool t now k ?ys = in_head t now w k ?ys + in_pool t now k (drop w ?ys)"
    using w len by (intro count_where_split) simp
  from not have short: "in_head t now w k ?ys < q" by simp
  with w len fit have "\<exists>i<w. victim_ok t now k w ?ys i"
    by (intro victim_exists) auto
  with stop c short have "in_pool t now k (drop w ?ys) = 0" by auto
  with split pool not show False by simp
qed

section \<open>Passes that leave a prefix alone\<close>

text \<open>
  The result is a permutation and its first \<open>n\<close> posts are the input's: what a later band's
  loop does to an earlier band.
\<close>

definition same_upto :: "nat \<Rightarrow> 'a list \<Rightarrow> 'a list \<Rightarrow> bool" where
  "same_upto n xs ys \<longleftrightarrow> mset ys = mset xs \<and> take n ys = take n xs"

lemma same_upto_refl [simp]: "same_upto n xs xs"
  by (simp add: same_upto_def)

lemma same_upto_trans: "same_upto n xs ys \<Longrightarrow> same_upto n ys zs \<Longrightarrow> same_upto n xs zs"
  by (simp add: same_upto_def)

lemma same_upto_le: "same_upto m xs ys \<Longrightarrow> n \<le> m \<Longrightarrow> same_upto n xs ys"
  unfolding same_upto_def by (metis min.absorb1 take_take)

lemma same_upto_length: "same_upto n xs ys \<Longrightarrow> length ys = length xs"
  unfolding same_upto_def by (metis size_mset)

lemma same_upto_swap:
  "n \<le> i \<Longrightarrow> n \<le> j \<Longrightarrow> i < length xs \<Longrightarrow> j < length xs \<Longrightarrow> same_upto n xs (swap i j xs)"
  by (simp add: same_upto_def swap_def mset_swap)

lemma same_upto_slc:
  assumes "same_upto n xs ys" "b \<le> n"
  shows "slc a b ys = slc a b xs"
proof -
  have "slc a b zs = drop a (take b zs)" for zs :: "'a list"
    by (simp add: slc_def drop_take)
  moreover have "take b ys = take b xs"
    using same_upto_le [OF assms] by (simp add: same_upto_def)
  ultimately show ?thesis by simp
qed

lemma same_upto_drop:
  assumes "same_upto n xs ys" "b \<le> n"
  shows "count_where p (drop b ys) = count_where p (drop b xs)"
proof -
  have "take b ys = take b xs" "mset ys = mset xs"
    using same_upto_le [OF assms] by (simp_all add: same_upto_def)
  then have "mset (drop b ys) = mset (drop b xs)"
    by (metis add_left_cancel append_take_drop_id mset_append)
  then show ?thesis by (rule count_where_mset)
qed

section \<open>The floors as passes\<close>

lemma promoted_from_grows:
  "promoted_from t now k q w xs p r \<Longrightarrow> in_head t now w k xs \<le> in_head t now w k (fst r)"
  by (simp add: promoted_from_def Let_def)

lemma floor_pass_eq:
  "floor_pass t now w k (xs, r) =
     (let q = min (quota t k) w
      in if q = 0 then (xs, r)
         else
           let res = promote_loop t now k q w xs (in_head t now w k xs)
                       (case k of Fresh \<Rightarrow> fresh_promoted r | Old \<Rightarrow> old_promoted r)
           in (fst res,
               case k of
                 Fresh \<Rightarrow> r\<lparr>fresh_promoted := snd (snd res), fresh_in_window := fst (snd res)\<rparr>
               | Old \<Rightarrow> r\<lparr>old_promoted := snd (snd res), old_in_window := fst (snd res)\<rparr>))"
  by (cases k) (auto simp: floor_pass_def Let_def case_prod_beta min_def)

lemma floor_pass_mset [keep_mset]:
  "w \<le> length xs \<Longrightarrow> mset (fst (floor_pass t now w k (xs, r))) = mset xs"
  using promote_loop_promoted_from [of w xs "in_head t now w k xs" t now k]
  by (simp add: floor_pass_eq Let_def promoted_from_def)

lemma floor_pass_length:
  "w \<le> length xs \<Longrightarrow> length (fst (floor_pass t now w k (xs, r))) = length xs"
  by (metis floor_pass_mset size_mset)

lemma floor_pass_grows:
  "w \<le> length xs \<Longrightarrow>
     in_head t now w k xs \<le> in_head t now w k (fst (floor_pass t now w k (xs, r)))"
  using promoted_from_grows [OF promote_loop_promoted_from [OF _ refl]]
  by (simp add: floor_pass_eq Let_def)

lemma floor_pass_spares_other:
  "w \<le> length xs \<Longrightarrow>
     min (min (quota t (other k)) w) (in_head t now w (other k) xs)
       \<le> in_head t now w (other k) (fst (floor_pass t now w k (xs, r)))"
  using promote_loop_promoted_from [of w xs "in_head t now w k xs" t now k]
  by (simp add: floor_pass_eq Let_def promoted_from_def)

lemma floor_pass_reaches:
  assumes w: "w \<le> length xs" and fit: "min (quota t k) w + min (quota t (other k)) w \<le> w"
  shows "min (min (quota t k) w) (in_pool t now k xs)
           \<le> in_head t now w k (fst (floor_pass t now w k (xs, r)))"
  using promoted_from_reaches [OF promote_loop_promoted_from [OF w refl] w fit]
  by (simp add: floor_pass_eq Let_def)

section \<open>The ceiling on old posts\<close>

definition band_ok :: "CompositionTargets \<Rightarrow> int \<Rightarrow> nat \<Rightarrow> nat \<Rightarrow> nat \<Rightarrow> ScoredPost list \<Rightarrow> bool" where
  "band_ok t now cap b e xs \<longleftrightarrow>
     count_where (kind_matches t now Old) (slc b e xs) \<le> cap \<or>
     count_where (\<lambda>p. \<not> kind_matches t now Old p) (drop e xs) = 0"

lemma band_ok_same: "same_upto n xs ys \<Longrightarrow> e \<le> n \<Longrightarrow> band_ok t now cap b e ys = band_ok t now cap b e xs"
  by (simp add: band_ok_def same_upto_slc same_upto_drop)

definition demoted_from ::
  "CompositionTargets \<Rightarrow> int \<Rightarrow> nat \<Rightarrow> nat \<Rightarrow> nat \<Rightarrow> ScoredPost list \<Rightarrow>
     ScoredPost list \<times> nat \<times> nat \<Rightarrow> bool" where
  "demoted_from t now cap bs be xs r \<longleftrightarrow>
     (let xs' = fst r; old = kind_matches t now Old
      in same_upto bs xs xs' \<and> fst (snd r) = count_where old (slc bs be xs') \<and>
         band_ok t now cap bs be xs' \<and>
         min cap (count_where old (slc bs be xs)) \<le> count_where old (slc bs be xs') \<and>
         (\<forall>P. (\<forall>x. P x \<longrightarrow> \<not> old x) \<longrightarrow>
            count_where P (slc bs be xs) \<le> count_where P (slc bs be xs')))"

lemma demote_loop_demoted_from:
  "bs \<le> be \<Longrightarrow> be \<le> length xs \<Longrightarrow> cnt = count_where (kind_matches t now Old) (slc bs be xs) \<Longrightarrow>
     demoted_from t now cap bs be xs (demote_loop t now cap bs be xs cnt d)"
proof (induction t now cap bs be xs cnt d rule: demote_loop.induct)
  case (1 t now cap bs be xs cnt d)
  note le = "1.prems"(1,2) and cnt = "1.prems"(3)
  let ?old = "kind_matches t now Old"
  let ?dst = "find_down (\<lambda>i. ?old (xs ! i)) bs be"
  let ?src = "find_up (\<lambda>i. \<not> ?old (xs ! i)) be (length xs)"
  show ?case
  proof (cases "cap < cnt")
    case False
    with cnt show ?thesis
      by (subst demote_loop.simps) (simp add: demoted_from_def band_ok_def)
  next
    case gt: True
    then obtain dst where dst: "?dst = Some dst"
      using cnt count_where_zero [of ?old "slc bs be xs"]
      by (cases ?dst) (auto simp: find_down_None set_slc)
    show ?thesis
    proof (cases ?src)
      case None
      then have "count_where (\<lambda>p. \<not> ?old p) (drop be xs) = 0"
        by (simp add: find_up_None count_where_drop_zero)
      with None gt dst cnt show ?thesis
        by (subst demote_loop.simps) (simp add: demoted_from_def band_ok_def)
    next
      case (Some src)
      from find_down_Some [OF dst] find_up_Some [OF Some]
      have idx: "bs \<le> dst" "dst < be" "?old (xs ! dst)" "be \<le> src" "src < length xs"
        "\<not> ?old (xs ! src)" by auto
      let ?ys = "swap dst src xs"
      have eq: "count_where P (slc bs be ?ys) + of_bool (P (xs ! dst)) =
          count_where P (slc bs be xs) + of_bool (P (xs ! src))" for P
        using idx by (intro count_slc_swap) auto
      have less: "Suc (count_where ?old (slc bs be ?ys)) = cnt"
        using eq [of ?old] idx cnt by simp
      have IH: "demoted_from t now cap bs be ?ys
          (demote_loop t now cap bs be ?ys (cnt - 1) (d + 1))"
        using less le by (intro "1.IH" [OF gt dst Some]) auto
      have up: "same_upto bs xs ?ys" using idx le by (intro same_upto_swap) auto
      have keep: "count_where P (slc bs be xs) \<le> count_where P (slc bs be ?ys)"
        if "\<forall>x. P x \<longrightarrow> \<not> ?old x" for P
      proof -
        from that idx have "\<not> P (xs ! dst)" by blast
        with eq [of P] show ?thesis by simp
      qed
      have "demote_loop t now cap bs be xs cnt d =
          demote_loop t now cap bs be ?ys (cnt - 1) (d + 1)"
        using gt dst Some by (subst demote_loop.simps) simp
      moreover have "min cap cnt \<le> min cap (count_where ?old (slc bs be ?ys))"
        using less gt by linarith
      ultimately show ?thesis
        using IH up keep cnt unfolding demoted_from_def Let_def
        by (auto intro: same_upto_trans order_trans)
    qed
  qed
qed

text \<open>Bands below \<open>bs\<close> are left alone, and every full band from \<open>bs\<close> on ends within the rule.\<close>

lemma old_bands_spec:
  "0 < w \<Longrightarrow> same_upto bs xs (fst (old_bands t now w cap bs xs r)) \<and>
     (\<forall>k. bs + k * w + w \<le> length xs \<longrightarrow>
        band_ok t now cap (bs + k * w) (bs + k * w + w) (fst (old_bands t now w cap bs xs r)))"
proof (induction t now w cap bs xs r rule: old_bands.induct)
  case (1 t now w cap bs xs r)
  show ?case
  proof (cases "bs + w \<le> length xs")
    case False
    then show ?thesis by (subst (1 2) old_bands.simps) simp
  next
    case True
    let ?cnt = "count_where (kind_matches t now Old) (slc bs (bs + w) xs)"
    let ?res = "demote_loop t now cap bs (bs + w) xs ?cnt (old_demoted r)"
    let ?r1 = "r\<lparr>old_demoted := snd (snd ?res)\<rparr>"
    let ?r2 = "if bs = 0 then ?r1\<lparr>old_in_window := fst (snd ?res)\<rparr> else ?r1"
    let ?out = "fst (old_bands t now w cap (bs + w) (fst ?res) ?r2)"
    have out: "fst (old_bands t now w cap bs xs r) = ?out"
      using True "1.prems" by (subst old_bands.simps) (simp add: Let_def)
    have dem: "demoted_from t now cap bs (bs + w) xs ?res"
      using True by (intro demote_loop_demoted_from) auto
    have IH: "same_upto (bs + w) (fst ?res) ?out \<and>
       (\<forall>k. bs + w + k * w + w \<le> length (fst ?res) \<longrightarrow>
          band_ok t now cap (bs + w + k * w) (bs + w + k * w + w) ?out)"
      using "1.IH" [of "bs + w" ?cnt ?res ?r1 ?r2] True "1.prems" by simp
    have first: "band_ok t now cap bs (bs + w) ?out"
      using dem band_ok_same [of "bs + w" "fst ?res" ?out "bs + w"] IH
      by (simp add: demoted_from_def Let_def)
    have "band_ok t now cap (bs + k * w) (bs + k * w + w) ?out"
      if "bs + k * w + w \<le> length xs" for k
    proof (cases k)
      case 0
      with first show ?thesis by simp
    next
      case (Suc j)
      with that IH show ?thesis by (simp add: algebra_simps)
    qed
    moreover have "same_upto bs xs ?out"
      using dem same_upto_le [of "bs + w" "fst ?res" ?out bs] IH
      by (auto simp: demoted_from_def Let_def intro: same_upto_trans)
    ultimately show ?thesis unfolding out by blast
  qed
qed

end
