(* ===== verification/Composition_Artists.thy ===== *)
theory Composition_Artists
  imports Composition_Floors
begin

text \<open>
  The artist ceiling of \<open>apply_composition_quota\<close>: what one swap keeps, when the loop ends
  (every post credits an artist at most once) and an input on which it never does.
\<close>

section \<open>Counts per artist\<close>

lemma fold_bump: "fold (\<lambda>a m. m(a := m a + 1)) as m b = m b + count_list as b" for m :: "'a \<Rightarrow> nat"
  by (induction as arbitrary: m) auto

lemma artist_counts_sum:
  "artist_counts band a = sum_list (map (\<lambda>p. count_list (artists_of p) a) band)"
proof -
  have "count_list (concat xss) a = sum_list (map (\<lambda>xs. count_list xs a) xss)" for xss
    by (induction xss) auto
  then show ?thesis
    using fold_bump [of "concat (map artists_of band)" "\<lambda>_. 0" a]
    by (simp add: artist_counts_def o_def)
qed

lemma artist_swap_SomeD:
  assumes "artist_swap t now w cap bs be xs = Some (v, s)"
  obtains over where "first_over cap (slc bs be xs) = Some over"
    "over \<in> set (artists_of (xs ! v))" "bs \<le> v" "v < be" "be \<le> s" "s < length xs"
    "adds_ok cap (slc bs be xs) over (xs ! v) (xs ! s)"
    "swap_keeps_age t (bs = 0) w (in_pool t now Fresh (slc bs be xs))
       (in_pool t now Old (slc bs be xs)) (xs ! v) (xs ! s) now"
  using assms
  by (auto simp: artist_swap_def Let_def split: option.splits dest!: find_dests)

section \<open>The loop's induction rule\<close>

lemma artist_loop_invariant:
  assumes ret: "artist_loop t now w cap bs be xs d = Some r"
    and start: "P xs"
    and step: "\<And>ys v s. P ys \<Longrightarrow> artist_swap t now w cap bs be ys = Some (v, s) \<Longrightarrow> P (swap v s ys)"
  shows "P (fst r) \<and> artist_swap t now w cap bs be (fst r) = None"
proof -
  let ?Q = "\<lambda>t' now' w' cap' bs' be' xs d r. t' = t \<longrightarrow> now' = now \<longrightarrow> w' = w \<longrightarrow> cap' = cap \<longrightarrow>
    bs' = bs \<longrightarrow> be' = be \<longrightarrow> P xs \<longrightarrow> P (fst r) \<and> artist_swap t now w cap bs be (fst r) = None"
  have "?Q t now w cap bs be xs d r"
  proof (rule artist_loop.raw_induct [where P = ?Q, OF _ ret])
    fix f t' now' w' cap' bs' be' xs d r
    assume IH: "\<And>t' now' w' cap' bs' be' xs d r.
        f t' now' w' cap' bs' be' xs d = Some r \<Longrightarrow> ?Q t' now' w' cap' bs' be' xs d r"
      and eq: "(case artist_swap t' now' w' cap' bs' be' xs of
          None \<Rightarrow> Some (xs, d)
        | Some vs \<Rightarrow> f t' now' w' cap' bs' be' (swap (fst vs) (snd vs) xs) (d + 1)) = Some r"
    show "?Q t' now' w' cap' bs' be' xs d r"
    proof (intro impI)
      assume same: "t' = t" "now' = now" "w' = w" "cap' = cap" "bs' = bs" "be' = be"
        and p: "P xs"
      show "P (fst r) \<and> artist_swap t now w cap bs be (fst r) = None"
      proof (cases "artist_swap t now w cap bs be xs")
        case None
        with eq same p show ?thesis by auto
      next
        case (Some vs)
        obtain v s where vs: "vs = (v, s)" by fastforce
        from Some vs p have "P (swap v s xs)" by (auto intro: step)
        moreover from eq same Some vs have
          "f t now w cap bs be (swap v s xs) (d + 1) = Some r" by simp
        ultimately show ?thesis using IH by blast
      qed
    qed
  qed
  with start show ?thesis by blast
qed

lemma artist_swap_same_upto:
  "artist_swap t now w cap bs be xs = Some (v, s) \<Longrightarrow> same_upto bs xs (swap v s xs)"
  by (erule artist_swap_SomeD) (intro same_upto_swap; simp)

lemma artist_loop_same_upto:
  "artist_loop t now w cap bs be xs d = Some r \<Longrightarrow> same_upto bs xs (fst r)"
  using artist_loop_invariant [of t now w cap bs be xs d r "same_upto bs xs"]
  by (auto intro: same_upto_trans artist_swap_same_upto)

lemma artist_bands_same_upto:
  "artist_bands t now w cap bs xs d = Some r \<Longrightarrow> same_upto bs xs (fst r)"
proof (induction t now w cap bs xs d arbitrary: r rule: artist_bands.induct)
  case (1 t now w cap bs xs d)
  show ?case
  proof (cases "0 < w \<and> bs + w \<le> length xs")
    case False
    with "1.prems" show ?thesis by (subst (asm) artist_bands.simps) auto
  next
    case True
    with "1.prems" obtain ys e where ys: "artist_loop t now w cap bs (bs + w) xs d = Some (ys, e)"
      and r: "artist_bands t now w cap (bs + w) ys e = Some r"
      by (subst (asm) artist_bands.simps) (auto split: option.splits)
    have "same_upto (bs + w) ys (fst r)" using "1.IH" [OF True ys refl r] .
    then have "same_upto bs ys (fst r)" by (rule same_upto_le) simp
    with artist_loop_same_upto [OF ys] show ?thesis by (auto intro: same_upto_trans)
  qed
qed

section \<open>What a swap keeps of the age rules\<close>

abbreviation ceiling_of :: "CompositionTargets \<Rightarrow> nat \<Rightarrow> nat" where
  "ceiling_of t w \<equiv> min (max (old_cap t) (old_quota t)) w"

definition age_kept ::
  "CompositionTargets \<Rightarrow> int \<Rightarrow> nat \<Rightarrow> ScoredPost list \<Rightarrow> ScoredPost list \<Rightarrow> bool" where
  "age_kept t now w xs ys \<longleftrightarrow> same_upto 0 xs ys \<and>
     min (min (fresh_quota t) w) (in_head t now w Fresh xs) \<le> in_head t now w Fresh ys \<and>
     min (min (old_quota t) w) (in_head t now w Old xs) \<le> in_head t now w Old ys \<and>
     (old_cap t > 0 \<longrightarrow> band_ok t now (ceiling_of t w) 0 w xs \<longrightarrow>
        band_ok t now (ceiling_of t w) 0 w ys)"

lemma head_swap_counts:
  assumes "artist_swap t now w cap 0 w ys = Some (v, s)"
  shows "in_head t now w k (swap v s ys) =
           in_head t now w k ys - of_bool (kind_matches t now k (ys ! v))
             + of_bool (kind_matches t now k (ys ! s))"
    and "of_bool (kind_matches t now k (ys ! v)) \<le> in_head t now w k ys"
proof -
  from assms have idx: "v < w" "w \<le> s" "s < length ys" by (auto elim!: artist_swap_SomeD)
  then have "ys ! v \<in> set (slc 0 w ys)" by (auto simp: set_slc)
  then show le: "of_bool (kind_matches t now k (ys ! v)) \<le> in_head t now w k ys"
    using count_where_pos [of "ys ! v" "slc 0 w ys" "kind_matches t now k"]
    by (simp add: of_bool_def Suc_le_eq)
  show "in_head t now w k (swap v s ys) =
      in_head t now w k ys - of_bool (kind_matches t now k (ys ! v))
        + of_bool (kind_matches t now k (ys ! s))"
    using count_slc_swap [of 0 v w s ys "kind_matches t now k"] idx le by simp
qed

lemma age_kept_step:
  assumes kept: "age_kept t now w xs ys" and sw: "artist_swap t now w cap 0 w ys = Some (v, s)"
  shows "age_kept t now w xs (swap v s ys)"
proof -
  let ?ys = "swap v s ys"
  from sw obtain over where
    age: "swap_keeps_age t True w (in_head t now w Fresh ys) (in_head t now w Old ys)
       (ys ! v) (ys ! s) now"
    by (auto elim!: artist_swap_SomeD)
  have new: "min (min (fresh_quota t) w) (in_head t now w Fresh ys) \<le> in_head t now w Fresh ?ys"
    "min (min (old_quota t) w) (in_head t now w Old ys) \<le> in_head t now w Old ?ys"
    "old_cap t > 0 \<longrightarrow> in_head t now w Old ?ys \<le> ceiling_of t w"
    using age head_swap_counts(1) [OF sw] by (auto simp: swap_keeps_age_def Let_def)
  have su: "same_upto 0 xs ?ys"
    using kept artist_swap_same_upto [OF sw] by (auto simp: age_kept_def intro: same_upto_trans)
  have "min (min (fresh_quota t) w) (in_head t now w Fresh xs) \<le> in_head t now w Fresh ?ys"
    using kept new(1) unfolding age_kept_def by linarith
  moreover have "min (min (old_quota t) w) (in_head t now w Old xs) \<le> in_head t now w Old ?ys"
    using kept new(2) unfolding age_kept_def by linarith
  ultimately show ?thesis using new(3) su by (simp add: age_kept_def band_ok_def)
qed

lemma artist_loop_head_kept:
  assumes "artist_loop t now w cap 0 w xs d = Some r"
  shows "age_kept t now w xs (fst r)"
proof -
  have "age_kept t now w xs xs" by (simp add: age_kept_def)
  then show ?thesis
    using artist_loop_invariant [OF assms, of "age_kept t now w xs"] age_kept_step by blast
qed

lemma artist_bands_head_kept:
  assumes ret: "artist_bands t now w cap 0 xs d = Some r" and w: "0 < w" "w \<le> length xs"
  shows "age_kept t now w xs (fst r)"
proof -
  from ret w obtain ys e where ys: "artist_loop t now w cap 0 w xs d = Some (ys, e)"
    and r: "artist_bands t now w cap w ys e = Some r"
    by (subst (asm) artist_bands.simps) (auto split: option.splits)
  have kept: "age_kept t now w xs ys" using artist_loop_head_kept [OF ys] by simp
  have su: "same_upto w ys (fst r)" using artist_bands_same_upto [OF r] .
  have head: "in_head t now w k (fst r) = in_head t now w k ys" for k
    using same_upto_slc [OF su] by simp
  show ?thesis
    using kept head band_ok_same [OF su, of w] same_upto_le [OF su, of 0]
    by (auto simp: age_kept_def intro: same_upto_trans)
qed

section \<open>The loop ends when no post credits an artist twice\<close>

text \<open>
  The excess of a band over the cap, summed over the artists that occur at all: each swap
  takes one from the artist over the cap and pushes nobody else over it.
\<close>

definition excess :: "nat \<Rightarrow> ustr set \<Rightarrow> ScoredPost list \<Rightarrow> nat" where
  "excess cap names band = (\<Sum>a\<in>names. artist_counts band a - cap)"

definition credited :: "ScoredPost list \<Rightarrow> ustr set" where
  "credited xs = (\<Union>p\<in>set xs. set (artists_of p))"

lemma finite_credited [simp]: "finite (credited xs)"
  by (simp add: credited_def)

lemma credited_mset: "mset ys = mset xs \<Longrightarrow> credited ys = credited xs"
  unfolding credited_def by (metis set_mset_mset)

lemma excess_decreases:
  assumes sw: "artist_swap t now w cap bs be xs = Some (v, s)"
    and dist: "\<forall>p\<in>set xs. distinct (artists_of p)"
  shows "excess cap (credited xs) (slc bs be (swap v s xs)) < excess cap (credited xs) (slc bs be xs)"
proof -
  from sw obtain over where over: "first_over cap (slc bs be xs) = Some over"
    and ov: "over \<in> set (artists_of (xs ! v))"
    and idx: "bs \<le> v" "v < be" "be \<le> s" "s < length xs"
    and adds: "adds_ok cap (slc bs be xs) over (xs ! v) (xs ! s)"
    by (rule artist_swap_SomeD)
  let ?C = "artist_counts (slc bs be xs)" and ?D = "artist_counts (slc bs be (swap v s xs))"
  let ?in = "\<lambda>i a. of_bool (a \<in> set (artists_of (xs ! i))) :: nat"
  have one: "count_list (artists_of (xs ! i)) a = ?in i a" if "i < length xs" for i a
    using that dist by (simp add: distinct_count_list)
  have eq: "?D a + ?in v a = ?C a + ?in s a" for a
    using sum_slc_swap [OF idx, of "\<lambda>p. count_list (artists_of p) a"] one [of v a] one [of s a] idx
    by (simp add: artist_counts_sum)
  have not: "over \<notin> set (artists_of (xs ! s))"
    using adds by (auto simp: adds_ok_def list_all_iff)
  have le: "?D a - cap \<le> ?C a - cap" for a
  proof (cases "a \<in> set (artists_of (xs ! s))")
    case True
    then have "?C a + 1 - ?in v a \<le> cap"
      using adds by (auto simp: adds_ok_def list_all_iff split: if_splits)
    with True eq [of a] show ?thesis by simp
  next
    case False
    with eq [of a] show ?thesis by simp
  qed
  have "?C over > cap" using over by (auto simp: first_over_def find_Some_iff)
  with eq [of over] not ov have lt: "?D over - cap < ?C over - cap" by simp
  have "over \<in> credited xs" using ov idx by (auto simp: credited_def)
  with lt le show ?thesis
    unfolding excess_def by (intro sum_strict_mono_ex1) auto
qed

lemma artist_loop_terminates:
  "\<forall>p\<in>set xs. distinct (artists_of p) \<Longrightarrow> \<exists>r. artist_loop t now w cap bs be xs d = Some r"
proof (induction "excess cap (credited xs) (slc bs be xs)" arbitrary: xs d rule: less_induct)
  case less
  show ?case
  proof (cases "artist_swap t now w cap bs be xs")
    case None
    then show ?thesis by (subst artist_loop.simps) simp
  next
    case (Some vs)
    obtain v s where vs: "vs = (v, s)" by fastforce
    note sw = Some [unfolded vs]
    have m: "mset (swap v s xs) = mset xs"
      using artist_swap_same_upto [OF sw] by (simp add: same_upto_def)
    then have "set (swap v s xs) = set xs" by (metis set_mset_mset)
    moreover have "excess cap (credited (swap v s xs)) (slc bs be (swap v s xs))
        < excess cap (credited xs) (slc bs be xs)"
      using excess_decreases [OF sw less.prems] credited_mset [OF m] by simp
    ultimately obtain r where "artist_loop t now w cap bs be (swap v s xs) (d + 1) = Some r"
      using less.hyps [of "swap v s xs" "d + 1"] less.prems by auto
    with sw show ?thesis by (subst artist_loop.simps) simp
  qed
qed

lemma artist_bands_terminates:
  "\<forall>p\<in>set xs. distinct (artists_of p) \<Longrightarrow> \<exists>r. artist_bands t now w cap bs xs d = Some r"
proof (induction t now w cap bs xs d rule: artist_bands.induct)
  case (1 t now w cap bs xs d)
  show ?case
  proof (cases "0 < w \<and> bs + w \<le> length xs")
    case False
    then show ?thesis by (subst artist_bands.simps) auto
  next
    case True
    obtain ys e where ys: "artist_loop t now w cap bs (bs + w) xs d = Some (ys, e)"
      using artist_loop_terminates [OF "1.prems"] by fastforce
    have "mset ys = mset xs" using artist_loop_same_upto [OF ys] by (simp add: same_upto_def)
    then have "set ys = set xs" by (metis set_mset_mset)
    with "1.IH" [OF True ys refl] "1.prems"
    obtain r where "artist_bands t now w cap (bs + w) ys e = Some r" by auto
    with True ys show ?thesis by (subst artist_bands.simps) simp
  qed
qed

section \<open>The loop stops on a band nobody dominates, or on one no swap can help\<close>

lemma artist_loop_stops:
  "artist_loop t now w cap bs be xs d = Some r \<Longrightarrow> artist_swap t now w cap bs be (fst r) = None"
  using artist_loop_invariant [of t now w cap bs be xs d r "\<lambda>_. True"] by blast

lemma first_over_None: "first_over cap band = None \<longleftrightarrow> (\<forall>a. artist_counts band a \<le> cap)"
proof -
  have "artist_counts band a = 0" if "a \<notin> set (concat (map artists_of band))" for a
    using that by (auto simp: artist_counts_sum)
  then show ?thesis by (fastforce simp: first_over_def find_None_iff not_less)
qed

end
