(* ===== verification/Composition_Props.thy ===== *)
theory Composition_Props
  imports Composition_Artists
begin

text \<open>
  The contract of \<open>apply_composition_quota\<close> as the feed sees it, assembled from the
  lemmas about its passes.
\<close>

section \<open>Assembling the passes\<close>

definition after_fresh :: "CompositionTargets \<Rightarrow> int \<Rightarrow> nat \<Rightarrow> ScoredPost list \<Rightarrow> ScoredPost list" where
  "after_fresh t now w xs = fst (floor_pass t now w Fresh (xs, report_default))"

definition after_floors :: "CompositionTargets \<Rightarrow> int \<Rightarrow> nat \<Rightarrow> ScoredPost list \<Rightarrow> ScoredPost list" where
  "after_floors t now w xs =
     fst (floor_pass t now w Old (floor_pass t now w Fresh (xs, report_default)))"

definition after_ceiling :: "CompositionTargets \<Rightarrow> int \<Rightarrow> nat \<Rightarrow> ScoredPost list \<Rightarrow> ScoredPost list" where
  "after_ceiling t now w xs = fst (old_ceiling_pass t now w
     (floor_pass t now w Old (floor_pass t now w Fresh (xs, report_default))))"

lemma after_floors_eq:
  "after_floors t now w xs = fst (floor_pass t now w Old (after_fresh t now w xs,
     snd (floor_pass t now w Fresh (xs, report_default))))"
  by (simp add: after_floors_def after_fresh_def)

lemma after_ceiling_eq:
  "after_ceiling t now w xs =
     (if old_cap t > 0
      then fst (old_bands t now w (ceiling_of t w) 0 (after_floors t now w xs)
             (snd (floor_pass t now w Old (floor_pass t now w Fresh (xs, report_default)))))
      else after_floors t now w xs)"
  by (simp add: after_ceiling_def after_floors_def old_ceiling_pass_def case_prod_beta)

lemma after_floors_mset: "w \<le> length xs \<Longrightarrow> mset (after_floors t now w xs) = mset xs"
  unfolding after_floors_eq
  by (subst floor_pass_mset) (simp_all only: after_fresh_def floor_pass_mset floor_pass_length)

lemma old_bands_first:
  assumes "0 < w" "w \<le> length xs"
  shows "same_upto 0 xs (fst (old_bands t now w cap 0 xs r))"
    and "band_ok t now cap 0 w (fst (old_bands t now w cap 0 xs r))"
    and "min cap (in_head t now w Old xs) \<le> in_head t now w Old (fst (old_bands t now w cap 0 xs r))"
    and "\<And>P. \<forall>x. P x \<longrightarrow> \<not> kind_matches t now Old x \<Longrightarrow>
      count_where P (slc 0 w xs) \<le> count_where P (slc 0 w (fst (old_bands t now w cap 0 xs r)))"
proof -
  let ?out = "fst (old_bands t now w cap 0 xs r)"
  show "same_upto 0 xs ?out" "band_ok t now cap 0 w ?out"
    using old_bands_spec [OF assms(1), of 0 xs t now cap r] assms by (auto dest: spec [where x = 0])
  let ?res = "demote_loop t now cap 0 w xs (in_head t now w Old xs) (old_demoted r)"
  have dem: "demoted_from t now cap 0 w xs ?res"
    using assms by (intro demote_loop_demoted_from) auto
  obtain r2 where r2: "old_bands t now w cap 0 xs r = old_bands t now w cap w (fst ?res) r2"
    using assms old_bands.simps [of t now w cap 0 xs r] by (simp add: Let_def)
  define ys where ys: "ys = fst ?res"
  have out: "?out = fst (old_bands t now w cap w ys r2)" by (simp add: r2 ys)
  have "same_upto w ys ?out" unfolding out using old_bands_spec [OF assms(1)] by blast
  then have head: "slc 0 w ?out = slc 0 w ys" by (rule same_upto_slc) simp
  show "min cap (in_head t now w Old xs) \<le> in_head t now w Old ?out"
    using dem unfolding head ys by (simp add: demoted_from_def Let_def)
  show "count_where P (slc 0 w xs) \<le> count_where P (slc 0 w ?out)"
    if "\<forall>x. P x \<longrightarrow> \<not> kind_matches t now Old x" for P
    using dem that unfolding head ys by (simp add: demoted_from_def Let_def)
qed

lemma apply_composition_quota_SomeD:
  assumes "apply_composition_quota scored now t = Some (out, r)"
  shows "out = scored \<or>
    (\<exists>w. w = min (window t) (length scored) \<and> 0 < w \<and>
       (out = after_ceiling t now w scored \<or>
        (\<exists>d d'. artist_bands t now w (max (artist_cap t) 1) 0 (after_ceiling t now w scored) d
                = Some (out, d'))))"
  using assms
  by (auto simp: apply_composition_quota_def artist_ceiling_pass_def fill_report_def Let_def
      after_ceiling_def case_prod_beta split: if_splits option.splits)

text \<open>The pass fails to return exactly when the artist loop of some band does.\<close>

lemma artist_ceiling_pass_None:
  "artist_ceiling_pass t now w st = None \<longleftrightarrow>
     0 < artist_cap t \<and>
     artist_bands t now w (max (artist_cap t) 1) 0 (fst st) (artists_demoted (snd st)) = None"
  by (cases st) (auto simp: artist_ceiling_pass_def split: option.split)

lemma apply_composition_quota_None:
  "apply_composition_quota scored now t = None \<Longrightarrow>
     \<exists>w d. w = min (window t) (length scored) \<and> 0 < w \<and>
       artist_bands t now w (max (artist_cap t) 1) 0 (after_ceiling t now w scored) d = None"
  by (auto simp: apply_composition_quota_def Let_def artist_ceiling_pass_None after_ceiling_def
      split: if_splits)

lemma after_ceiling_mset: "0 < w \<Longrightarrow> w \<le> length xs \<Longrightarrow> mset (after_ceiling t now w xs) = mset xs"
  using old_bands_first(1) [of w "after_floors t now w xs"] after_floors_mset [of w xs t now]
  by (simp add: after_ceiling_eq same_upto_def) (metis size_mset)

lemma fresh_not_old:
  "fresh_days t \<le> old_days t \<Longrightarrow> kind_matches t now Fresh x \<longrightarrow> \<not> kind_matches t now Old x"
  by (simp add: kind_matches_def Let_def)

lemma floors_hold:
  assumes w: "0 < w" "w \<le> length xs" and fit: "fresh_quota t + old_quota t \<le> w"
    and days: "fresh_days t \<le> old_days t"
  shows "min (fresh_quota t) (in_pool t now Fresh xs) \<le> in_head t now w Fresh (after_ceiling t now w xs)
       \<and> min (old_quota t) (in_pool t now Old xs) \<le> in_head t now w Old (after_ceiling t now w xs)"
proof -
  let ?f = "after_fresh t now w xs" and ?o = "after_floors t now w xs"
  have q: "quota t Fresh = fresh_quota t" "quota t Old = old_quota t"
    "min (fresh_quota t) w = fresh_quota t" "min (old_quota t) w = old_quota t"
    using fit by (auto simp: quota_def)
  have mf: "mset ?f = mset xs" using w by (simp add: after_fresh_def floor_pass_mset)
  then have lf: "w \<le> length ?f" using w by (metis size_mset)
  have f1: "min (fresh_quota t) (in_pool t now Fresh xs) \<le> in_head t now w Fresh ?f"
    using floor_pass_reaches [of w xs t Fresh now] w fit q by (simp add: after_fresh_def)
  have f2: "min (fresh_quota t) (in_head t now w Fresh ?f) \<le> in_head t now w Fresh ?o"
    using floor_pass_spares_other [OF lf, of t Old now] q by (simp add: after_floors_eq)
  have o2: "min (old_quota t) (in_pool t now Old xs) \<le> in_head t now w Old ?o"
    using floor_pass_reaches [OF lf, of t Old now] fit q count_where_mset [OF mf]
    by (simp add: after_floors_eq)
  have lo: "w \<le> length ?o" using after_floors_mset [OF w(2)] w by (metis size_mset)
  have "in_head t now w Fresh ?o \<le> in_head t now w Fresh (after_ceiling t now w xs)"
    using old_bands_first(4) [OF w(1) lo] fresh_not_old [OF days] by (simp add: after_ceiling_eq)
  moreover have "min (old_quota t) (in_head t now w Old ?o)
      \<le> in_head t now w Old (after_ceiling t now w xs)"
  proof -
    have "old_quota t \<le> ceiling_of t w" using fit by simp
    then have "min (old_quota t) n \<le> min (ceiling_of t w) n" for n by linarith
    then have "min (old_quota t) (in_head t now w Old ?o)
        \<le> in_head t now w Old (fst (old_bands t now w (ceiling_of t w) 0 ?o r))" for r
      by (rule order_trans) (rule old_bands_first(3) [OF w(1) lo])
    then show ?thesis by (simp add: after_ceiling_eq)
  qed
  ultimately show ?thesis using f1 f2 o2 by linarith
qed

section \<open>Properties\<close>

text \<open>
  C1. The floors hold on the page the reader gets.  When the two quotas fit the window
  together and no post is both fresh and old, the head of the returned feed holds the
  fresh quota and the old quota, or everything of that kind that the candidate pool has:
  neither the ceilings nor the artist swaps that run later take a floor back.
\<close>

theorem composition_head_floors:
  assumes ret: "apply_composition_quota scored now t = Some (out, r)"
    and w: "w = min (window t) (length scored)"
    and fit: "fresh_quota t + old_quota t \<le> w"
    and days: "fresh_days t \<le> old_days t"
  shows "min (fresh_quota t) (in_pool t now Fresh scored) \<le> in_head t now w Fresh out
       \<and> min (old_quota t) (in_pool t now Old scored) \<le> in_head t now w Old out"
proof (cases "w = 0")
  case True
  with fit show ?thesis by simp
next
  case False
  then have w0: "0 < w" and wl: "w \<le> length scored" using w by auto
  note floors = floors_hold [OF w0 wl fit days]
  from ret have cases: "out = after_ceiling t now w scored \<or>
      (\<exists>d d'. artist_bands t now w (max (artist_cap t) 1) 0 (after_ceiling t now w scored) d
         = Some (out, d'))"
    using w False
    by (auto simp: apply_composition_quota_def artist_ceiling_pass_def fill_report_def Let_def
        after_ceiling_def case_prod_beta split: if_splits option.splits)
  have "length (after_ceiling t now w scored) = length scored"
    using after_ceiling_mset [OF w0 wl] by (metis size_mset)
  with cases wl w0 have "out = after_ceiling t now w scored \<or>
      age_kept t now w (after_ceiling t now w scored) out"
    using artist_bands_head_kept by (metis fst_conv)
  with floors [of now] fit show ?thesis by (auto simp: age_kept_def)
qed

lemma age_days_sample [simp]:
  "age_days (sample_scored (sample_post i (now - d * 86400000000000) as) sc) now
     = real_of_int (max 0 d)"
proof -
  have "num_seconds (d * 86400000000000) = d * 86400"
    by (auto simp: num_seconds_def)
  then show ?thesis
    by (auto simp: age_days_def sample_scored_def sample_post_def max_def zero_le_mult_iff)
qed

text \<open>A post of a given age in days, by one artist each, for the witnesses.\<close>

definition aged :: "int \<Rightarrow> int \<Rightarrow> ustr list \<Rightarrow> ScoredPost" where
  "aged i d as = sample_scored (sample_post i (0 - d * 86400000000000) as) 1"

lemma aged_simps [simp]:
  "age_days (aged i d as) 0 = real_of_int (max 0 d)"
  "artists_of (aged i d as) = as"
  "aged i d as = aged i' d' as' \<longleftrightarrow> i = i' \<and> d = d' \<and> as = as'"
  by (simp_all only: aged_def age_days_sample)
    (auto simp: artists_of_def sample_scored_def sample_post_def Tags_default_def)

lemma kind_matches_aged [simp]:
  "kind_matches t 0 Fresh (aged i d as) \<longleftrightarrow> real_of_int (max 0 d) < fresh_days t"
  "kind_matches t 0 Old (aged i d as) \<longleftrightarrow> real_of_int (max 0 d) > old_days t"
  by (simp_all add: kind_matches_def)

lemmas eval_simps = find_up_def find_down_def slc_def swap_def count_where_def upt_rec
  victim_ok_def quota_def promote_loop.simps demote_loop.simps old_bands.simps
  floor_pass_eq old_ceiling_pass_def artist_ceiling_pass_def artist_bands.simps
  artist_loop.simps artist_swap_def first_over_def artist_counts_def adds_ok_def
  swap_keeps_age_def apply_composition_quota_def targets_default_def report_default_def
  fill_report_def

text \<open>A pool of four posts; both floors ask for one post the first two places lack.\<close>

definition demo_targets :: CompositionTargets where
  "demo_targets = targets_default\<lparr>window := 2, fresh_quota := 1, old_quota := 1\<rparr>"

definition demo_pool :: "ScoredPost list" where
  "demo_pool = [aged 1 30 [], aged 2 30 [], aged 3 400 [], aged 4 1 []]"

lemma demo_run:
  "map_option fst (apply_composition_quota demo_pool 0 demo_targets) =
     Some [aged 3 400 [], aged 4 1 [], aged 1 30 [], aged 2 30 []]"
  by (simp add: demo_pool_def demo_targets_def eval_simps Let_def)

theorem composition_head_floors_witness:
  "\<exists>out r. apply_composition_quota demo_pool 0 demo_targets = Some (out, r) \<and>
     1 \<le> in_head demo_targets 0 2 Fresh out \<and> 1 \<le> in_head demo_targets 0 2 Old out"
proof -
  obtain out r where run: "apply_composition_quota demo_pool 0 demo_targets = Some (out, r)"
    using demo_run by (cases "apply_composition_quota demo_pool 0 demo_targets") auto
  have "2 = min (window demo_targets) (length demo_pool)"
    and "fresh_quota demo_targets + old_quota demo_targets \<le> 2"
    and "fresh_days demo_targets \<le> old_days demo_targets"
    by (simp_all add: demo_targets_def targets_default_def demo_pool_def)
  from composition_head_floors [OF run this]
  have "1 \<le> in_head demo_targets 0 2 Fresh out \<and> 1 \<le> in_head demo_targets 0 2 Old out"
    by (simp add: demo_targets_def targets_default_def demo_pool_def)
  with run show ?thesis by blast
qed

text \<open>
  C2. The pass only swaps posts: whatever the targets, the feed it returns is a
  permutation of the feed it was given, so it neither drops nor duplicates a post.
\<close>

theorem composition_permutes:
  assumes ret: "apply_composition_quota scored now t = Some (out, r)"
  shows "mset out = mset scored"
proof -
  have "mset (after_ceiling t now w scored) = mset scored"
    if "0 < w" "w = min (window t) (length scored)" for w
    using that by (intro after_ceiling_mset) auto
  with apply_composition_quota_SomeD [OF ret] show ?thesis
    by (auto simp: same_upto_def dest!: artist_bands_same_upto)
qed

theorem composition_permutes_witness:
  "mset (fst (the (apply_composition_quota demo_pool 0 demo_targets))) = mset demo_pool"
proof -
  obtain out r where run: "apply_composition_quota demo_pool 0 demo_targets = Some (out, r)"
    using demo_run by (cases "apply_composition_quota demo_pool 0 demo_targets") auto
  from composition_permutes [OF run] run show ?thesis by simp
qed

text \<open>
  C3. The pass returns whenever no post credits an artist twice: every loop of it ends,
  the artist loop because each swap lowers the band's excess over the cap.
\<close>

theorem composition_terminates:
  assumes "\<forall>p\<in>set scored. distinct (artists_of p)"
  shows "\<exists>out r. apply_composition_quota scored now t = Some (out, r)"
proof -
  have "apply_composition_quota scored now t \<noteq> None"
  proof
    assume "apply_composition_quota scored now t = None"
    then obtain w d where w: "w = min (window t) (length scored)" "0 < w"
      and none: "artist_bands t now w (max (artist_cap t) 1) 0 (after_ceiling t now w scored) d = None"
      by (blast dest: apply_composition_quota_None)
    then have "mset (after_ceiling t now w scored) = mset scored"
      by (intro after_ceiling_mset) auto
    then have "set (after_ceiling t now w scored) = set scored" by (metis set_mset_mset)
    with assms have "\<forall>p\<in>set (after_ceiling t now w scored). distinct (artists_of p)" by simp
    from artist_bands_terminates [OF this] none show False by (metis option.distinct(1))
  qed
  then show ?thesis by (cases "apply_composition_quota scored now t") auto
qed

theorem composition_terminates_witness:
  "\<exists>out r. apply_composition_quota [aged 1 5 [lit ''a''], aged 2 6 [lit ''a'', lit ''b''], aged 3 7 []]
     0 (targets_default\<lparr>window := 2, artist_cap := 1\<rparr>) = Some (out, r)"
  by (rule composition_terminates) simp

definition twin_targets :: CompositionTargets where
  "twin_targets = targets_default\<lparr>window := 1, artist_cap := 1\<rparr>"

definition twin :: "nat \<Rightarrow> ScoredPost" where
  "twin c = aged (int c) 30 [[c], [c]]"

lemma twin_swap:
  "c \<noteq> d \<Longrightarrow>
     artist_swap twin_targets 0 (Suc 0) (Suc 0) 0 (Suc 0) [twin c, twin d] = Some (0, Suc 0)"
  by (simp add: eval_simps Let_def twin_def twin_targets_def)

lemma artist_loop_diverges:
  "artist_loop twin_targets 0 1 1 0 1 [twin 0, twin 1] n = None"
proof (rule ccontr)
  let ?P = "\<lambda>xs. xs = [twin 0, twin 1] \<or> xs = [twin 1, twin 0]"
  assume "artist_loop twin_targets 0 1 1 0 1 [twin 0, twin 1] n \<noteq> None"
  then obtain r where ret: "artist_loop twin_targets 0 1 1 0 1 [twin 0, twin 1] n = Some r"
    by blast
  have "?P (fst r) \<and> artist_swap twin_targets 0 1 1 0 1 (fst r) = None"
    by (rule artist_loop_invariant [OF ret])
      (auto simp: twin_swap, auto simp: swap_def)
  then show False by (auto simp: twin_swap)
qed

text \<open>
  A post that credits an artist twice can make the artist loop swap the same two posts
  back and forth for ever: on this pool of two posts the pass does not return.
\<close>

theorem composition_can_diverge:
  "apply_composition_quota [twin 0, twin 1] 0 twin_targets = None"
proof -
  have "artist_bands twin_targets 0 1 1 0 [twin 0, twin 1] 0 = None"
    using artist_loop_diverges [of 0] by (subst artist_bands.simps) simp
  then show ?thesis
    by (simp add: apply_composition_quota_def twin_targets_def targets_default_def Let_def
        floor_pass_eq quota_def old_ceiling_pass_def artist_ceiling_pass_def report_default_def)
qed

text \<open>
  C13. The ceiling on old posts holds on the returned head: at most \<open>max old_cap old_quota\<close>
  of its posts are old, unless every post below the head is old as well.
\<close>

theorem composition_head_old_ceiling:
  assumes ret: "apply_composition_quota scored now t = Some (out, r)"
    and w: "w = min (window t) (length scored)" "0 < w" and cap: "0 < old_cap t"
  shows "in_head t now w Old out \<le> min (max (old_cap t) (old_quota t)) w
       \<or> (\<forall>i. w \<le> i \<longrightarrow> i < length out \<longrightarrow> kind_matches t now Old (out ! i))"
proof -
  have wl: "w \<le> length scored" using w by simp
  let ?c = "after_ceiling t now w scored"
  have lo: "w \<le> length (after_floors t now w scored)"
    using after_floors_mset [OF wl] wl by (metis size_mset)
  have lc: "w \<le> length ?c" using after_ceiling_mset [OF w(2) wl] wl by (metis size_mset)
  have ok: "band_ok t now (ceiling_of t w) 0 w ?c"
    using cap old_bands_first(2) [OF w(2) lo] by (simp add: after_ceiling_eq)
  have "out = ?c \<or> age_kept t now w ?c out"
  proof -
    from ret w have "out = ?c \<or> (\<exists>d d'. artist_bands t now w (max (artist_cap t) 1) 0 ?c d
        = Some (out, d'))"
      by (auto simp: apply_composition_quota_def artist_ceiling_pass_def fill_report_def Let_def
          after_ceiling_def case_prod_beta split: if_splits option.splits)
    then show ?thesis using artist_bands_head_kept [OF _ w(2) lc] by (metis fst_conv)
  qed
  with ok cap have "band_ok t now (ceiling_of t w) 0 w out" by (auto simp: age_kept_def)
  then show ?thesis by (auto simp: band_ok_def count_where_drop_zero)
qed

definition cap_targets :: CompositionTargets where
  "cap_targets = targets_default\<lparr>window := 3, fresh_quota := 1, old_cap := 1\<rparr>"

definition cap_pool :: "ScoredPost list" where
  "cap_pool = [aged 1 400 [], aged 2 400 [], aged 3 400 [], aged 4 1 [], aged 5 2 [],
     aged 6 3 []]"

lemma cap_run:
  "apply_composition_quota cap_pool 0 cap_targets =
     Some ([aged 1 400 [], aged 5 2 [], aged 4 1 [], aged 3 400 [], aged 2 400 [],
        aged 6 3 []],
       report_default\<lparr>fresh_in_window := 1, fresh_promoted := 1, old_in_window := 1,
         old_demoted := 1\<rparr>)"
  by (simp add: cap_pool_def cap_targets_def eval_simps Let_def)

theorem composition_head_old_ceiling_witness:
  "in_head cap_targets 0 3 Old (fst (the (apply_composition_quota cap_pool 0 cap_targets))) \<le> 1"
proof -
  have "3 = min (window cap_targets) (length cap_pool)" "0 < (3::nat)" "0 < old_cap cap_targets"
    by (simp_all add: cap_targets_def targets_default_def cap_pool_def)
  note ceiling = composition_head_old_ceiling [OF cap_run this]
  have "min (max (old_cap cap_targets) (old_quota cap_targets)) 3 = 1"
    by (simp add: cap_targets_def targets_default_def)
  moreover have "\<not> kind_matches cap_targets 0 Old (aged 6 3 [])"
    by (simp add: cap_targets_def targets_default_def)
  moreover have "[aged 1 400 [], aged 5 2 [], aged 4 1 [], aged 3 400 [], aged 2 400 [],
      aged 6 3 []] ! 5 = aged 6 3 []" by simp
  ultimately show ?thesis
    using ceiling unfolding cap_run option.sel fst_conv
    by (elim disjE) (simp_all only:, auto dest: spec [where x = 5])
qed

text \<open>
  After the ceiling on old posts, and before the artist swaps, every full band of the
  feed obeys it, not only the head: at most \<open>max old_cap old_quota\<close> old posts, unless only
  old posts are left below the band.
\<close>

theorem old_ceiling_every_band:
  assumes "0 < old_cap t" and "0 < w" and "k * w + w \<le> length xs"
  shows "count_where (kind_matches t now Old)
           (slc (k * w) (k * w + w) (fst (old_ceiling_pass t now w (xs, r))))
         \<le> min (max (old_cap t) (old_quota t)) w
       \<or> count_where (\<lambda>p. \<not> kind_matches t now Old p)
           (drop (k * w + w) (fst (old_ceiling_pass t now w (xs, r)))) = 0"
  using old_bands_spec [OF assms(2), of 0 xs t now "ceiling_of t w" r] assms
  by (simp add: old_ceiling_pass_def band_ok_def)

theorem old_ceiling_every_band_witness:
  "count_where (kind_matches cap_targets 0 Old)
     (slc 2 4 (fst (old_ceiling_pass cap_targets 0 2 (cap_pool, report_default)))) \<le> 1"
proof -
  have "0 < old_cap cap_targets" "0 < (2::nat)" "1 * 2 + 2 \<le> length cap_pool"
    by (simp_all add: cap_targets_def targets_default_def cap_pool_def)
  note ceiling = old_ceiling_every_band [OF this, of 0 report_default]
  have "fst (old_ceiling_pass cap_targets 0 2 (cap_pool, report_default)) =
      [aged 1 400 [], aged 4 1 [], aged 3 400 [], aged 5 2 [], aged 2 400 [], aged 6 3 []]"
    by (simp add: cap_pool_def cap_targets_def eval_simps Let_def)
  with ceiling show ?thesis by (simp add: cap_targets_def targets_default_def)
qed

definition undo_targets :: CompositionTargets where
  "undo_targets = targets_default\<lparr>window := 2, old_cap := 1, artist_cap := 1\<rparr>"

definition undo_pool :: "ScoredPost list" where
  "undo_pool = [aged 1 1 [[7]], aged 2 400 [[7]], aged 3 1 [], aged 4 400 [], aged 5 1 []]"

text \<open>
  The artist ceiling can undo the old ceiling of a lower band: it moves an old post out
  of the head into a band whose own ceiling has already run.  Every band obeys the ceiling
  before the artist swaps; afterwards the second band holds two old posts, one more than
  the cap, although a recent post lies below it.
\<close>

theorem artist_pass_undoes_old_ceiling:
  "fst (old_ceiling_pass undo_targets 0 2 (undo_pool, report_default)) = undo_pool \<and>
   (\<exists>r. apply_composition_quota undo_pool 0 undo_targets =
      Some ([aged 1 1 [[7]], aged 3 1 [], aged 2 400 [[7]], aged 4 400 [], aged 5 1 []], r)) \<and>
   count_where (kind_matches undo_targets 0 Old)
     (slc 2 4 [aged 1 1 [[7]], aged 3 1 [], aged 2 400 [[7]], aged 4 400 [], aged 5 1 []]) = 2 \<and>
   min (max (old_cap undo_targets) (old_quota undo_targets)) 2 = 1 \<and>
   \<not> kind_matches undo_targets 0 Old (aged 5 1 [])"
  by (simp add: undo_pool_def undo_targets_def eval_simps Let_def)

text \<open>
  The report is taken while the pass runs, not when it has ended: here the ceiling on
  old posts brings a second fresh post into the head after the fresh posts were counted,
  so the report says 1 where the returned head holds 2.
\<close>

theorem composition_report_stale:
  "\<exists>out r. apply_composition_quota cap_pool 0 cap_targets = Some (out, r) \<and>
     fresh_in_window r = 1 \<and> in_head cap_targets 0 3 Fresh out = 2"
  unfolding cap_run
  by (simp add: cap_targets_def targets_default_def slc_def count_where_def report_default_def)

text \<open>
  When the artist loop of a band returns, no artist is credited more often than the cap
  in it, or no post below it may be swapped in for the last post of the first artist that
  is: the loop never stops while a swap the age rules allow is left.
\<close>

theorem artist_ceiling_exit:
  assumes "artist_loop t now w cap bs be xs d = Some (ys, e)"
  shows "(\<forall>a. artist_counts (slc bs be ys) a \<le> cap) \<or>
    (\<exists>over v. first_over cap (slc bs be ys) = Some over \<and>
       find_down (\<lambda>i. over \<in> set (artists_of (ys ! i))) bs be = Some v \<and>
       (\<forall>i. be \<le> i \<longrightarrow> i < length ys \<longrightarrow>
          \<not> (adds_ok cap (slc bs be ys) over (ys ! v) (ys ! i) \<and>
             swap_keeps_age t (bs = 0) w
               (count_where (kind_matches t now Fresh) (slc bs be ys))
               (count_where (kind_matches t now Old) (slc bs be ys)) (ys ! v) (ys ! i) now)))"
proof (cases "first_over cap (slc bs be ys)")
  case None
  then show ?thesis by (simp add: first_over_None)
next
  case (Some over)
  from artist_loop_stops [OF assms] have stop: "artist_swap t now w cap bs be ys = None" by simp
  have "over \<in> set (concat (map artists_of (slc bs be ys)))"
    using Some by (auto simp: first_over_def find_Some_iff in_set_conv_nth simp del: set_concat)
  then obtain i where "bs \<le> i" "i < be" "over \<in> set (artists_of (ys ! i))"
    by (auto simp: set_slc)
  then obtain v where v: "find_down (\<lambda>i. over \<in> set (artists_of (ys ! i))) bs be = Some v"
    by (cases "find_down (\<lambda>i. over \<in> set (artists_of (ys ! i))) bs be")
      (auto simp: find_down_None)
  with Some stop show ?thesis
    by (auto simp: artist_swap_def Let_def find_up_None split: option.splits)
qed

theorem artist_ceiling_exit_witness:
  "\<forall>a. artist_counts (slc 0 2 [aged 1 1 [[7]], aged 3 1 [], aged 2 400 [[7]]]) a \<le> 1"
proof -
  have "artist_loop undo_targets 0 2 1 0 2 [aged 1 1 [[7]], aged 2 400 [[7]], aged 3 1 []] 0 =
      Some ([aged 1 1 [[7]], aged 3 1 [], aged 2 400 [[7]]], 1)"
    by (simp add: undo_targets_def eval_simps Let_def)
  note exit = artist_ceiling_exit [OF this]
  have "first_over 1 (slc 0 2 [aged 1 1 [[7]], aged 3 1 [], aged 2 400 [[7]]]) = None"
    by (simp add: eval_simps)
  with exit show ?thesis by simp
qed

end
