(* ===== verification/Api_Errors.thy ===== *)
theory Api_Errors
  imports Text_Ops
begin

text \<open>
  The uniform error type of the HTTP routes, \<open>parser-api/src/errors.rs\<close>: the variants, their
  status codes, and the classification of an error string by the marker it carries.
\<close>

section \<open>Searching a string\<close>

text \<open>\<open>str::find\<close>: the index of the first occurrence, in scalar values.\<close>

fun find_str :: "ustr \<Rightarrow> ustr \<Rightarrow> nat option" where
  "find_str p [] = (if p = [] then Some 0 else None)"
| "find_str p (c # s) = (if starts_with p (c # s) then Some 0 else map_option Suc (find_str p s))"

lemma starts_with_append [simp]: "starts_with p (p @ s)"
  by (simp add: starts_with_def)

lemma starts_with_Nil [simp]: "starts_with p [] \<longleftrightarrow> p = []"
  by (auto simp: starts_with_def)

lemma find_str_Some: "find_str p s = Some i \<Longrightarrow> starts_with p (drop i s) \<and> i \<le> length s"
  by (induction s arbitrary: i) (auto split: if_splits)

lemma find_str_contains: "find_str p s \<noteq> None \<longleftrightarrow> contains_str p s"
  by (induction s) auto

lemma contains_append [simp]: "contains_str p (a @ p @ b)"
proof (induction a)
  case Nil
  then show ?case by (cases "p @ b") (auto, metis append_is_Nil_conv starts_with_append)
next
  case (Cons c a)
  then show ?case by simp
qed

section \<open>The error type\<close>

datatype ApiError =
    BadRequest ustr
  | Unauthorized ustr
  | NotFound ustr
  | Forbidden ustr
  | TooManyRequests ustr
  | Upstream ustr
  | Internal ustr

fun status :: "ApiError \<Rightarrow> nat" where
  "status (BadRequest _) = 400"
| "status (Unauthorized _) = 401"
| "status (NotFound _) = 404"
| "status (Forbidden _) = 403"
| "status (TooManyRequests _) = 429"
| "status (Upstream _) = 503"
| "status (Internal _) = 500"

fun message :: "ApiError \<Rightarrow> ustr" where
  "message (BadRequest m) = m"
| "message (Unauthorized m) = m"
| "message (NotFound m) = m"
| "message (Forbidden m) = m"
| "message (TooManyRequests m) = m"
| "message (Upstream m) = m"
| "message (Internal m) = m"

definition UPSTREAM_ERR_MARKER :: ustr where
  "UPSTREAM_ERR_MARKER = lit ''e621-upstream-unavailable: ''"

definition NOT_FOUND_ERR_MARKER :: ustr where
  "NOT_FOUND_ERR_MARKER = lit ''account-not-found: ''"

definition from_string :: "ustr \<Rightarrow> ApiError" where
  "from_string s =
     (case find_str UPSTREAM_ERR_MARKER s of
        Some idx \<Rightarrow> Upstream (trim (drop (idx + length UPSTREAM_ERR_MARKER) s))
      | None \<Rightarrow>
         (case find_str NOT_FOUND_ERR_MARKER s of
            Some idx \<Rightarrow> NotFound (trim (drop (idx + length NOT_FOUND_ERR_MARKER) s))
          | None \<Rightarrow> Internal s))"

definition upstream_error_is_not_found :: "ustr \<Rightarrow> bool" where
  "upstream_error_is_not_found err \<longleftrightarrow>
     contains_str UPSTREAM_ERR_MARKER err \<and> contains_str (lit ''returned 404'') err"

text \<open>\<open>ApiErrorBody\<close>: the JSON body of a response.\<close>

record ApiErrorBody =
  body_error :: ustr
  body_code :: nat

definition respond_to :: "ApiError \<Rightarrow> nat \<times> ApiErrorBody" where
  "respond_to e = (status e, \<lparr>body_error = message e, body_code = status e\<rparr>)"

section \<open>Lemmas\<close>

lemma status_documented: "status e \<in> {400, 401, 403, 404, 429, 500, 503}"
  by (cases e) auto

lemma from_string_status:
  "status (from_string s) =
     (if contains_str UPSTREAM_ERR_MARKER s then 503
      else if contains_str NOT_FOUND_ERR_MARKER s then 404 else 500)"
  using find_str_contains [of UPSTREAM_ERR_MARKER s] find_str_contains [of NOT_FOUND_ERR_MARKER s]
  by (auto simp: from_string_def split: option.splits)

text \<open>
  C24. Classification of an error string is independent of where the marker stands and
  total: a string carrying the upstream marker is a 503, otherwise one carrying the
  ownership marker is a 404, and everything else keeps its whole text and is a 500.  No
  other status can come from a string.
\<close>

theorem from_string_classifies:
  "status (from_string (pre @ UPSTREAM_ERR_MARKER @ post)) = 503 \<and>
   (\<not> contains_str UPSTREAM_ERR_MARKER s \<longrightarrow>
      (if contains_str NOT_FOUND_ERR_MARKER s then status (from_string s) = 404
       else from_string s = Internal s))"
proof
  show "status (from_string (pre @ UPSTREAM_ERR_MARKER @ post)) = 503"
    unfolding from_string_status by (simp only: contains_append if_True)
qed (use find_str_contains [of UPSTREAM_ERR_MARKER s] find_str_contains [of NOT_FOUND_ERR_MARKER s]
     in \<open>auto simp: from_string_def split: option.splits\<close>)

theorem from_string_classifies_witness:
  "from_string (lit ''pool timed out'') = Internal (lit ''pool timed out'')"
proof -
  have "\<not> contains_str UPSTREAM_ERR_MARKER (lit ''pool timed out'')"
    "\<not> contains_str NOT_FOUND_ERR_MARKER (lit ''pool timed out'')"
    by (simp_all add: UPSTREAM_ERR_MARKER_def NOT_FOUND_ERR_MARKER_def starts_with_def)
  with from_string_classifies [of "[]" "[]" "lit ''pool timed out''"] show ?thesis by simp
qed

end
