(* ===== verification/Timed_Table.thy ===== *)
theory Timed_Table
  imports Prelude
begin

text \<open>
  In-process tables whose entries carry a time stamp: a \<open>HashMap\<close> as an association list
  with distinct keys, the pruning the program applies to one (drop what a predicate
  rejects, drop the entries with the oldest stamps), and \<open>Instant\<close> arithmetic.
\<close>

section \<open>Instants\<close>

text \<open>\<open>Instant\<close>s count nanoseconds; \<open>duration_since\<close> saturates at zero.\<close>

definition duration_since :: "int \<Rightarrow> int \<Rightarrow> int" where
  "duration_since now earlier = max 0 (now - earlier)"

definition secs :: "int \<Rightarrow> int" where
  "secs n = n * 1000000000"

definition as_secs_f64 :: "int \<Rightarrow> f64" where
  "as_secs_f64 d = real_of_int d / 1000000000"

lemma duration_since_nonneg [simp]: "0 \<le> duration_since now t"
  by (simp add: duration_since_def)

lemma duration_since_mono: "now \<le> now' \<Longrightarrow> duration_since now t \<le> duration_since now' t"
  by (simp add: duration_since_def)

lemma duration_since_self [simp]: "duration_since now now = 0"
  by (simp add: duration_since_def)

section \<open>Tables\<close>

type_synonym ('k, 'e) table = "('k \<times> 'e) list"

abbreviation keys :: "('k, 'e) table \<Rightarrow> 'k list" where
  "keys m \<equiv> map fst m"

definition tbl_ok :: "('k, 'e) table \<Rightarrow> bool" where
  "tbl_ok m \<longleftrightarrow> distinct (keys m)"

definition tbl_get :: "('k, 'e) table \<Rightarrow> 'k \<Rightarrow> 'e option" where
  "tbl_get m k = map_of m k"

definition tbl_insert :: "'k \<Rightarrow> 'e \<Rightarrow> ('k, 'e) table \<Rightarrow> ('k, 'e) table" where
  "tbl_insert k e m = AList.update k e m"

definition tbl_remove :: "'k \<Rightarrow> ('k, 'e) table \<Rightarrow> ('k, 'e) table" where
  "tbl_remove k m = filter (\<lambda>p. fst p \<noteq> k) m"

definition tbl_retain :: "('k \<Rightarrow> 'e \<Rightarrow> bool) \<Rightarrow> ('k, 'e) table \<Rightarrow> ('k, 'e) table" where
  "tbl_retain p m = filter (\<lambda>(k, e). p k e) m"

lemma tbl_get_insert [simp]: "tbl_get (tbl_insert k e m) = (tbl_get m)(k \<mapsto> e)"
  by (simp add: tbl_get_def tbl_insert_def update_conv fun_eq_iff)

lemma tbl_ok_insert [simp]: "tbl_ok m \<Longrightarrow> tbl_ok (tbl_insert k e m)"
  by (simp add: tbl_ok_def tbl_insert_def distinct_update)

lemma tbl_ok_Nil [simp]: "tbl_ok []"
  by (simp add: tbl_ok_def)

lemma tbl_get_Nil [simp]: "tbl_get [] k = None"
  by (simp add: tbl_get_def)

lemma tbl_ok_filter [simp]: "tbl_ok m \<Longrightarrow> tbl_ok (filter p m)"
  by (simp add: tbl_ok_def distinct_map_filter)

lemma tbl_ok_remove [simp]: "tbl_ok m \<Longrightarrow> tbl_ok (tbl_remove k m)"
  by (simp add: tbl_remove_def)

lemma tbl_ok_retain [simp]: "tbl_ok m \<Longrightarrow> tbl_ok (tbl_retain p m)"
  by (simp add: tbl_retain_def)

lemma tbl_get_Some: "tbl_ok m \<Longrightarrow> tbl_get m k = Some e \<longleftrightarrow> (k, e) \<in> set m"
  by (simp add: tbl_get_def tbl_ok_def)

lemma tbl_get_filter:
  "tbl_ok m \<Longrightarrow> tbl_get (filter p m) k =
     (case tbl_get m k of None \<Rightarrow> None | Some e \<Rightarrow> if p (k, e) then Some e else None)"
  unfolding tbl_ok_def tbl_get_def
proof (induction m)
  case (Cons a m)
  then have "fst a = k \<Longrightarrow> map_of m k = None" by (auto simp: map_of_eq_None_iff)
  with Cons show ?case by (cases a) (auto split: option.splits)
qed simp

lemma tbl_get_remove [simp]: "tbl_ok m \<Longrightarrow> tbl_get (tbl_remove k m) = (tbl_get m)(k := None)"
  by (auto simp: tbl_remove_def tbl_get_filter fun_eq_iff split: option.splits)

lemma tbl_get_retain:
  "tbl_ok m \<Longrightarrow> tbl_get (tbl_retain p m) k =
     (case tbl_get m k of None \<Rightarrow> None | Some e \<Rightarrow> if p k e then Some e else None)"
  by (auto simp: tbl_retain_def tbl_get_filter split: option.splits)

lemma length_tbl_retain: "length (tbl_retain p m) \<le> length m"
  by (simp add: tbl_retain_def)

lemma length_tbl_insert: "length (tbl_insert k e m) \<le> Suc (length m)"
  by (induction m) (auto simp: tbl_insert_def)

lemma set_tbl_insert: "set (tbl_insert k e m) \<subseteq> insert (k, e) (set m)"
  unfolding tbl_insert_def by (induction m) (auto split: if_splits)

section \<open>Dropping the oldest entries\<close>

text \<open>
  Collect \<open>(key, stamp)\<close> in iteration order, sort by stamp (a stable sort), remove the
  first \<open>n\<close> keys.
\<close>

definition evict_oldest :: "('e \<Rightarrow> int) \<Rightarrow> nat \<Rightarrow> ('k, 'e) table \<Rightarrow> ('k, 'e) table" where
  "evict_oldest stamp n m =
     (let entries = sort_key snd (map (\<lambda>(k, e). (k, stamp e)) m);
          victims = map fst (take n entries)
      in filter (\<lambda>p. fst p \<notin> set victims) m)"

definition victims :: "('e \<Rightarrow> int) \<Rightarrow> nat \<Rightarrow> ('k, 'e) table \<Rightarrow> 'k list" where
  "victims stamp n m = map fst (take n (sort_key snd (map (\<lambda>(k, e). (k, stamp e)) m)))"

lemma evict_oldest_victims:
  "evict_oldest stamp n m = filter (\<lambda>p. fst p \<notin> set (victims stamp n m)) m"
  by (simp add: evict_oldest_def victims_def Let_def)

lemma tbl_ok_evict [simp]: "tbl_ok m \<Longrightarrow> tbl_ok (evict_oldest stamp n m)"
  by (simp add: evict_oldest_victims)

lemma keys_sorted_entries:
  "mset (map fst (sort_key snd (map (\<lambda>(k, e). (k, stamp e)) m))) = mset (keys m)"
  by (simp add: image_mset.compositionality o_def case_prod_beta)

lemma distinct_sorted_entries:
  "tbl_ok m \<Longrightarrow> distinct (map fst (sort_key snd (map (\<lambda>(k, e). (k, stamp e)) m)))"
  unfolding tbl_ok_def using keys_sorted_entries [of stamp m] by (metis mset_eq_imp_distinct_iff)

lemma distinct_victims: "tbl_ok m \<Longrightarrow> distinct (victims stamp n m)"
  unfolding victims_def take_map [symmetric] by (intro distinct_take distinct_sorted_entries)

lemma set_victims: "set (victims stamp n m) \<subseteq> set (keys m)"
proof -
  have "set (victims stamp n m) \<subseteq> set (map fst (sort_key snd (map (\<lambda>(k, e). (k, stamp e)) m)))"
    unfolding victims_def by (metis set_take_subset take_map)
  also have "\<dots> = set (keys m)" using keys_sorted_entries by (metis set_mset_mset)
  finally show ?thesis .
qed

lemma length_victims: "length (victims stamp n m) = min n (length m)"
  by (simp add: victims_def)

lemma length_evict_oldest:
  assumes ok: "tbl_ok m"
  shows "length (evict_oldest stamp n m) = length m - min n (length m)"
proof -
  let ?v = "set (victims stamp n m)"
  have "length (evict_oldest stamp n m) = length (filter (\<lambda>k. k \<notin> ?v) (keys m))"
    by (simp add: evict_oldest_victims filter_map o_def)
  also have "\<dots> = card (set (keys m) - ?v)"
    using ok by (subst distinct_card [symmetric])
      (auto simp: tbl_ok_def Diff_eq Int_def intro!: arg_cong [where f = card])
  also have "\<dots> = length m - min n (length m)"
    using set_victims [of stamp n m] ok distinct_victims [OF ok, of stamp n]
    by (simp add: card_Diff_subset distinct_card tbl_ok_def length_victims distinct_card
        del: set_map)
  finally show ?thesis .
qed

text \<open>What is dropped is older than what is kept.\<close>

lemma evict_oldest_order:
  assumes ok: "tbl_ok m" and kept: "(k, e) \<in> set (evict_oldest stamp n m)"
    and gone: "(k', e') \<in> set m" "(k', e') \<notin> set (evict_oldest stamp n m)"
  shows "stamp e' \<le> stamp e"
proof -
  let ?s = "sort_key snd (map (\<lambda>(k, e). (k, stamp e)) m)"
  have ds: "distinct (map fst ?s)" by (rule distinct_sorted_entries [OF ok])
  have km: "(k, e) \<in> set m" and kn: "k \<notin> set (victims stamp n m)"
    using kept by (auto simp: evict_oldest_victims)
  have kv: "k' \<in> set (victims stamp n m)" using gone by (auto simp: evict_oldest_victims)
  have "(k, stamp e) \<in> set ?s" using km by force
  moreover have "(k, stamp e) \<notin> set (take n ?s)" using kn by (force simp: victims_def)
  ultimately have late: "(k, stamp e) \<in> set (drop n ?s)"
    by (metis Un_iff append_take_drop_id set_append)
  from kv obtain t where t: "(k', t) \<in> set (take n ?s)" by (auto simp: victims_def)
  then have "(k', t) \<in> set ?s" by (auto dest: in_set_takeD)
  moreover have "(k', stamp e') \<in> set ?s" using gone(1) by force
  ultimately have "t = stamp e'" using ds by (metis eq_key_imp_eq_value)
  moreover have "sorted (map snd (take n ?s) @ map snd (drop n ?s))"
    by (metis append_take_drop_id map_append sorted_sort_key)
  ultimately show ?thesis using t late by (fastforce simp: sorted_append)
qed

end
