(* ===== verification/Rate_Limit.thy ===== *)
theory Rate_Limit
  imports Timed_Table Api_Errors
begin

text \<open>
  The in-memory token-bucket rate limiter, \<open>parser-api/src/ratelimit.rs\<close>.  The two statics
  are one state record; \<open>Instant::now()\<close> is the argument \<open>now\<close>; token counts are exact
  reals.
\<close>

section \<open>State\<close>

record Bucket =
  tokens :: f64
  last_refill :: int
  burst :: f64

record Limiter =
  buckets :: "(ustr, Bucket) table"
  last_gc :: int

definition GC_INTERVAL :: int where "GC_INTERVAL = secs (5 * 60)"
definition GC_IDLE_THRESHOLD :: int where "GC_IDLE_THRESHOLD = secs (15 * 60)"
definition MAX_BUCKETS :: nat where "MAX_BUCKETS = 50000"

section \<open>Pruning\<close>

definition oversized :: "(ustr, Bucket) table \<Rightarrow> bool" where
  "oversized m \<longleftrightarrow> length m > MAX_BUCKETS"

definition drop_idle :: "int \<Rightarrow> (ustr, Bucket) table \<Rightarrow> (ustr, Bucket) table" where
  "drop_idle now m = tbl_retain (\<lambda>_ b. \<not> (tokens b \<ge> burst b \<and>
     duration_since now (last_refill b) > GC_IDLE_THRESHOLD)) m"

definition maybe_gc :: "Limiter \<Rightarrow> int \<Rightarrow> Limiter" where
  "maybe_gc l now =
     (let due = duration_since now (last_gc l) \<ge> GC_INTERVAL;
          big = oversized (buckets l)
      in if \<not> due \<and> \<not> big then l
         else l\<lparr>buckets := (if big then evict_oldest last_refill (length (buckets l) div 2) (buckets l)
                           else drop_idle now (buckets l)),
                last_gc := now\<rparr>)"

definition prune_buckets :: "Limiter \<Rightarrow> int \<Rightarrow> Limiter \<times> nat \<times> nat" where
  "prune_buckets l now =
     (let before = length (buckets l);
          m = (if oversized (buckets l)
               then evict_oldest last_refill (length (buckets l) div 2) (buckets l)
               else drop_idle now (buckets l))
      in (l\<lparr>buckets := m, last_gc := now\<rparr>, before, length m))"

section \<open>Taking a token\<close>

text \<open>The part of \<open>check\<close> that works on one bucket: refill, then spend if a token is there.\<close>

definition refill :: "int \<Rightarrow> int \<Rightarrow> nat \<Rightarrow> f64" where
  "refill now since per_min =
     (let rate_per_sec = real per_min / 60; dt = as_secs_f64 (duration_since now since)
      in dt * rate_per_sec)"

definition take_token :: "int \<Rightarrow> nat \<Rightarrow> nat \<Rightarrow> Bucket option \<Rightarrow> Bucket \<times> bool" where
  "take_token now per_min burst_arg entry =
     (let burst_f = real (max burst_arg 1);
          bucket = (case entry of Some b \<Rightarrow> b
                    | None \<Rightarrow> \<lparr>tokens = burst_f, last_refill = now, burst = burst_f\<rparr>);
          filled = min (tokens bucket + refill now (last_refill bucket) per_min) burst_f;
          allowed = (filled \<ge> 1)
      in (\<lparr>tokens = (if allowed then filled - 1 else filled), last_refill = now, burst = burst_f\<rparr>,
          allowed))"

definition check :: "Limiter \<Rightarrow> int \<Rightarrow> ustr \<Rightarrow> nat \<Rightarrow> nat \<Rightarrow> Limiter \<times> (ApiError + unit)" where
  "check l now key per_min burst_arg =
     (let r = take_token now per_min burst_arg (tbl_get (buckets l) key);
          l1 = l\<lparr>buckets := tbl_insert key (fst r) (buckets l)\<rparr>;
          l2 = maybe_gc l1 now
      in (l2, if snd r then Inr ()
              else Inl (TooManyRequests (lit ''rate limit exceeded; slow down and retry''))))"

text \<open>
  \<open>client_ip\<close>: the first element of \<open>X-Forwarded-For\<close> when a proxy is trusted, else the
  socket peer.
\<close>

definition client_ip :: "bool \<Rightarrow> ustr option \<Rightarrow> ustr option \<Rightarrow> ustr" where
  "client_ip trust_proxy xff peer =
     (let fallback = (case peer of None \<Rightarrow> lit ''unknown'' | Some ip \<Rightarrow> ip)
      in if trust_proxy
         then (case xff of None \<Rightarrow> fallback
               | Some h \<Rightarrow> (let trimmed = trim (hd (split_char 44 h))
                            in if trimmed \<noteq> [] then trimmed else fallback))
         else fallback)"

definition reset_for_tests :: "Limiter \<Rightarrow> int \<Rightarrow> Limiter" where
  "reset_for_tests l now = l\<lparr>buckets := [], last_gc := now\<rparr>"

section \<open>The invariant of the limiter\<close>

definition bucket_ok :: "int \<Rightarrow> Bucket \<Rightarrow> bool" where
  "bucket_ok now b \<longleftrightarrow> 0 \<le> tokens b \<and> tokens b \<le> burst b \<and> 1 \<le> burst b \<and> last_refill b \<le> now"

definition limiter_ok :: "int \<Rightarrow> Limiter \<Rightarrow> bool" where
  "limiter_ok now l \<longleftrightarrow> tbl_ok (buckets l) \<and> length (buckets l) \<le> MAX_BUCKETS \<and>
     (\<forall>(k, b)\<in>set (buckets l). bucket_ok now b)"

lemma as_secs_nonneg [simp]: "0 \<le> as_secs_f64 (duration_since now t)"
  by (simp add: as_secs_f64_def)

lemma refill_nonneg [simp]: "0 \<le> refill now t r"
  by (simp add: refill_def)

lemma refill_self [simp]: "refill now now r = 0"
  by (simp add: refill_def as_secs_f64_def)

lemma refill_later:
  assumes "t \<le> now"
  shows "refill now u r \<le> refill t u r + as_secs_f64 (now - t) * (real r / 60)"
proof -
  have "duration_since now u \<le> duration_since t u + (now - t)"
    using assms by (simp add: duration_since_def)
  then have "real_of_int (duration_since now u) \<le> real_of_int (duration_since t u + (now - t))"
    by (simp only: of_int_le_iff)
  then have "as_secs_f64 (duration_since now u) \<le> as_secs_f64 (duration_since t u) + as_secs_f64 (now - t)"
    by (simp add: as_secs_f64_def field_simps)
  then have "as_secs_f64 (duration_since now u) * (real r / 60)
      \<le> (as_secs_f64 (duration_since t u) + as_secs_f64 (now - t)) * (real r / 60)"
    by (rule mult_right_mono) simp
  then show ?thesis by (simp add: refill_def distrib_right)
qed

lemma take_token_ok:
  "case_option True (bucket_ok now) e \<Longrightarrow> bucket_ok now (fst (take_token now r b e))"
  using refill_nonneg [of now "case e of None \<Rightarrow> now | Some x \<Rightarrow> last_refill x" r]
  by (auto simp: take_token_def bucket_ok_def Let_def simp del: refill_nonneg of_nat_max
      split: option.splits)

lemma set_maybe_gc: "set (buckets (maybe_gc l now)) \<subseteq> set (buckets l)"
  by (auto simp: maybe_gc_def Let_def evict_oldest_victims drop_idle_def tbl_retain_def)

lemma maybe_gc_bounded:
  "tbl_ok (buckets l) \<Longrightarrow> length (buckets l) \<le> Suc MAX_BUCKETS \<Longrightarrow>
     length (buckets (maybe_gc l now)) \<le> MAX_BUCKETS \<and> tbl_ok (buckets (maybe_gc l now))"
  by (auto simp: maybe_gc_def Let_def oversized_def length_evict_oldest drop_idle_def MAX_BUCKETS_def
      intro: le_trans [OF length_tbl_retain])

lemma bucket_ok_later: "bucket_ok now b \<Longrightarrow> now \<le> now' \<Longrightarrow> bucket_ok now' b"
  by (simp add: bucket_ok_def)

lemma check_ok:
  assumes ok: "limiter_ok t l" and time: "t \<le> now"
  shows "limiter_ok now (fst (check l now key r b))"
proof -
  let ?new = "fst (take_token now r b (tbl_get (buckets l) key))"
  let ?l1 = "l\<lparr>buckets := tbl_insert key ?new (buckets l)\<rparr>"
  have okt: "tbl_ok (buckets l)" using ok by (simp add: limiter_ok_def)
  have all: "bucket_ok now b'" if "(k', b') \<in> set (buckets l)" for k' b'
    using ok that time by (auto simp: limiter_ok_def intro: bucket_ok_later)
  then have "bucket_ok now ?new"
    using okt by (intro take_token_ok) (auto simp: tbl_get_Some split: option.splits)
  with all have "\<forall>(k', b')\<in>set (buckets ?l1). bucket_ok now b'"
    by (auto dest!: set_tbl_insert [THEN subsetD])
  with set_maybe_gc [of ?l1 now] have "\<forall>(k', b')\<in>set (buckets (maybe_gc ?l1 now)). bucket_ok now b'"
    by blast
  moreover have "length (buckets ?l1) \<le> Suc MAX_BUCKETS"
    using ok length_tbl_insert [of key ?new "buckets l"] by (simp add: limiter_ok_def)
  ultimately show ?thesis
    using maybe_gc_bounded [of ?l1 now] okt by (simp add: limiter_ok_def check_def Let_def)
qed

section \<open>The rate a key is held to\<close>

text \<open>
  What a key could spend at time \<open>now\<close>: its bucket refilled, or a full bucket when the table
  has none.  Pruning cannot change it, because only full buckets are dropped; spending
  lowers it by one; time raises it at the refill rate, never above the burst.
\<close>

definition level :: "Limiter \<Rightarrow> int \<Rightarrow> ustr \<Rightarrow> nat \<Rightarrow> nat \<Rightarrow> f64" where
  "level l now key per_min burst_arg =
     (case tbl_get (buckets l) key of
        None \<Rightarrow> real (max burst_arg 1)
      | Some b \<Rightarrow> min (tokens b + refill now (last_refill b) per_min) (real (max burst_arg 1)))"

definition same_burst :: "Limiter \<Rightarrow> ustr \<Rightarrow> nat \<Rightarrow> bool" where
  "same_burst l key burst_arg \<longleftrightarrow>
     (\<forall>b. tbl_get (buckets l) key = Some b \<longrightarrow> burst b = real (max burst_arg 1))"

lemma level_le_burst: "level l now k r b \<le> real (max b 1)"
  by (simp add: level_def split: option.splits)

lemma level_later:
  assumes "t \<le> now"
  shows "level l now k r b \<le> level l t k r b + as_secs_f64 (now - t) * (real r / 60)"
proof -
  have nn: "0 \<le> as_secs_f64 (now - t) * (real r / 60)"
    using assms by (simp add: as_secs_f64_def)
  show ?thesis
  proof (cases "tbl_get (buckets l) k")
    case None
    with nn show ?thesis unfolding level_def by simp
  next
    case (Some e)
    with nn refill_later [OF assms, of "last_refill e" r] show ?thesis
      unfolding level_def by simp
  qed
qed

text \<open>One turn of the collector leaves every key's level alone, unless the table overflowed.\<close>

lemma level_gc:
  assumes ok: "tbl_ok (buckets l)" and small: "\<not> oversized (buckets l)"
    and burst: "same_burst l k b"
  shows "level (maybe_gc l now) now k r b = level l now k r b"
    and "same_burst (maybe_gc l now) k b"
proof -
  have full: "min (tokens e + refill now u r) B = B" if "B \<le> tokens e" for e u B
    using refill_nonneg [of now u r] that by linarith
  show "level (maybe_gc l now) now k r b = level l now k r b"
    using ok small burst
    by (auto simp: maybe_gc_def Let_def level_def drop_idle_def tbl_get_retain same_burst_def full
        simp del: of_nat_max split: option.splits)
  show "same_burst (maybe_gc l now) k b"
    using ok small burst
    by (auto simp: maybe_gc_def Let_def drop_idle_def tbl_get_retain same_burst_def
        split: option.splits if_splits)
qed

lemma level_check_same:
  assumes ok: "tbl_ok (buckets l)" and room: "length (buckets l) < MAX_BUCKETS"
    and burst: "same_burst l k b"
  shows "level (fst (check l now k r b)) now k r b =
           level l now k r b - of_bool (snd (check l now k r b) = Inr ())"
    and "same_burst (fst (check l now k r b)) k b"
proof -
  let ?e = "take_token now r b (tbl_get (buckets l) k)"
  let ?l1 = "l\<lparr>buckets := tbl_insert k (fst ?e) (buckets l)\<rparr>"
  have small: "\<not> oversized (buckets ?l1)"
    using room length_tbl_insert [of k "fst ?e" "buckets l"] by (simp add: oversized_def)
  have b1: "same_burst ?l1 k b" by (simp add: same_burst_def take_token_def Let_def)
  have "level ?l1 now k r b = level l now k r b - of_bool (snd ?e)"
    using level_le_burst [of l now k r b]
    by (cases "tbl_get (buckets l) k")
      (auto simp: level_def take_token_def Let_def simp del: of_nat_max)
  moreover have "(snd (check l now k r b) = Inr ()) = snd ?e"
    by (simp add: check_def Let_def)
  ultimately show "level (fst (check l now k r b)) now k r b =
      level l now k r b - of_bool (snd (check l now k r b) = Inr ())"
    using level_gc(1) [OF _ small b1] ok by (simp add: check_def Let_def)
  show "same_burst (fst (check l now k r b)) k b"
    using level_gc(2) [OF _ small b1] ok by (simp add: check_def Let_def)
qed

lemma level_check_other:
  assumes ok: "tbl_ok (buckets l)" and room: "length (buckets l) < MAX_BUCKETS"
    and burst: "same_burst l k b" and ne: "k' \<noteq> k"
  shows "level (fst (check l now k' r' b')) now k r b = level l now k r b"
    and "same_burst (fst (check l now k' r' b')) k b"
proof -
  let ?e = "take_token now r' b' (tbl_get (buckets l) k')"
  let ?l1 = "l\<lparr>buckets := tbl_insert k' (fst ?e) (buckets l)\<rparr>"
  have small: "\<not> oversized (buckets ?l1)"
    using room length_tbl_insert [of k' "fst ?e" "buckets l"] by (simp add: oversized_def)
  have b1: "same_burst ?l1 k b" and same: "level ?l1 now k r b = level l now k r b"
    using burst ne by (simp_all add: same_burst_def level_def)
  show "level (fst (check l now k' r' b')) now k r b = level l now k r b"
    using level_gc(1) [OF _ small b1] ok same by (simp add: check_def Let_def)
  show "same_burst (fst (check l now k' r' b')) k b"
    using level_gc(2) [OF _ small b1] ok by (simp add: check_def Let_def)
qed

section \<open>Runs\<close>

text \<open>A request: the time, the key and the limits the route passes; the run's answers in order.\<close>

type_synonym request = "int \<times> ustr \<times> nat \<times> nat"

fun run_checks :: "Limiter \<Rightarrow> request list \<Rightarrow> Limiter \<times> (ustr \<times> bool) list" where
  "run_checks l [] = (l, [])"
| "run_checks l ((now, k, r, b) # qs) =
     (let c = check l now k r b; rest = run_checks (fst c) qs
      in (fst rest, (k, snd c = Inr ()) # snd rest))"

definition passed :: "ustr \<Rightarrow> (ustr \<times> bool) list \<Rightarrow> nat" where
  "passed k answers = count_where (\<lambda>(k', ok). k' = k \<and> ok) answers"

fun in_time :: "int \<Rightarrow> request list \<Rightarrow> int \<Rightarrow> bool" where
  "in_time t [] t_end \<longleftrightarrow> t \<le> t_end"
| "in_time t ((now, _) # qs) t_end \<longleftrightarrow> t \<le> now \<and> in_time now qs t_end"

lemma in_time_le: "in_time t qs u \<Longrightarrow> t \<le> u"
  by (induction qs arbitrary: t) force+

lemma length_check: "length (buckets (fst (check l now k r b))) \<le> Suc (length (buckets l))"
proof -
  let ?m = "tbl_insert k (fst (take_token now r b (tbl_get (buckets l) k))) (buckets l)"
  have "length (buckets (maybe_gc (l\<lparr>buckets := ?m\<rparr>) now)) \<le> length ?m"
    by (auto simp: maybe_gc_def Let_def evict_oldest_victims drop_idle_def tbl_retain_def)
  also have "\<dots> \<le> Suc (length (buckets l))" by (rule length_tbl_insert)
  finally show ?thesis by (simp add: check_def Let_def)
qed

lemma tbl_ok_check: "tbl_ok (buckets l) \<Longrightarrow> tbl_ok (buckets (fst (check l now k r b)))"
  by (simp add: check_def maybe_gc_def Let_def drop_idle_def)

lemma run_spends_level:
  assumes "tbl_ok (buckets l)" "length (buckets l) + length qs \<le> MAX_BUCKETS"
    "same_burst l k b" "in_time t qs u" "\<forall>(now, k', r', b')\<in>set qs. k' = k \<longrightarrow> r' = r \<and> b' = b"
  shows "real (passed k (snd (run_checks l qs)))
           \<le> level l t k r b + as_secs_f64 (u - t) * (real r / 60) -
             level (fst (run_checks l qs)) u k r b"
  using assms
proof (induction qs arbitrary: l t)
  case Nil
  then show ?case using level_later [of t u l k r b] by (simp add: passed_def)
next
  case (Cons q qs)
  obtain now k' r' b' where q: "q = (now, k', r', b')" by (cases q)
  let ?c = "check l now k' r' b'"
  from Cons.prems q have t: "t \<le> now" and rest: "in_time now qs u" by auto
  have room: "length (buckets l) < MAX_BUCKETS" using Cons.prems by simp
  have eq: "k' = k \<Longrightarrow> r' = r \<and> b' = b" using Cons.prems(5) q by auto
  have lv: "level (fst ?c) now k r b = level l now k r b - of_bool (k' = k \<and> snd ?c = Inr ())"
    and sb: "same_burst (fst ?c) k b"
    using level_check_same [OF Cons.prems(1) room Cons.prems(3)] eq
      level_check_other [OF Cons.prems(1) room Cons.prems(3)]
    by (cases "k' = k"; simp)+
  have IH: "real (passed k (snd (run_checks (fst ?c) qs)))
      \<le> level (fst ?c) now k r b + as_secs_f64 (u - now) * (real r / 60) -
        level (fst (run_checks (fst ?c) qs)) u k r b"
    using Cons.prems length_check [of l now k' r' b'] rest sb
    by (intro Cons.IH tbl_ok_check) auto
  have "as_secs_f64 (u - t) = as_secs_f64 (u - now) + as_secs_f64 (now - t)"
    by (simp add: as_secs_f64_def field_simps)
  then have split: "as_secs_f64 (u - t) * (real r / 60) =
      as_secs_f64 (u - now) * (real r / 60) + as_secs_f64 (now - t) * (real r / 60)"
    by (simp add: distrib_right)
  have "real (passed k (snd (run_checks l (q # qs)))) =
      of_bool (k' = k \<and> snd ?c = Inr ()) + real (passed k (snd (run_checks (fst ?c) qs)))"
    by (auto simp: q Let_def passed_def)
  moreover have "level (fst (run_checks l (q # qs))) u k r b =
      level (fst (run_checks (fst ?c) qs)) u k r b"
    by (simp add: q Let_def)
  ultimately show ?case using IH lv split level_later [OF t, of l k r b] by linarith
qed

lemma level_nonneg:
  "limiter_ok now l \<Longrightarrow> 0 \<le> level l now k r b"
  by (auto simp: level_def limiter_ok_def bucket_ok_def tbl_get_Some
      intro!: add_nonneg_nonneg split: option.splits)

lemma run_checks_ok: "limiter_ok t l \<Longrightarrow> in_time t qs u \<Longrightarrow> limiter_ok u (fst (run_checks l qs))"
proof (induction qs arbitrary: l t)
  case Nil
  then show ?case by (auto simp: limiter_ok_def intro: bucket_ok_later)
next
  case (Cons q qs)
  then show ?case by (cases q) (auto simp: Let_def intro: check_ok)
qed

section \<open>Properties\<close>


definition demo_requests :: "request list" where
  "demo_requests = [(0, [97], 60, 2), (0, [97], 60, 2), (0, [97], 60, 2), (secs 1, [97], 60, 2)]"


text \<open>
  Every check keeps the limiter well formed: keys are distinct, a bucket holds between
  0 and its burst, and the table never holds more than \<open>MAX_BUCKETS\<close> buckets, however many
  distinct keys a client sprays.
\<close>

theorem rate_limit_bounded:
  assumes "limiter_ok t l" and "t \<le> now"
  shows "limiter_ok now (fst (check l now key per_min burst_arg)) \<and>
         length (buckets (fst (check l now key per_min burst_arg))) \<le> MAX_BUCKETS"
  using check_ok [OF assms] by (simp add: limiter_ok_def)

theorem rate_limit_bounded_witness:
  "length (buckets (fst (check \<lparr>buckets = [], last_gc = 0\<rparr> 5 [97] 1 3))) \<le> MAX_BUCKETS"
proof -
  have "limiter_ok 0 \<lparr>buckets = [], last_gc = 0\<rparr>" "(0::int) \<le> 5"
    by (simp_all add: limiter_ok_def)
  from rate_limit_bounded [OF this] show ?thesis by blast
qed

end
