(* ===== verification/Hydrate_Cache.thy ===== *)
theory Hydrate_Cache
  imports Timed_Table
begin

text \<open>
  The short-lived per-account caches of \<open>parser-api/src/db/hydrate_cache.rs\<close>.  The four
  statics are the fields of one record.  An \<open>Arc\<close> is its content: nothing modelled here
  mutates a set through a second handle (\<open>Arc::make_mut\<close> copies a shared one).  A poisoned
  mutex, after which the code answers with a miss, is not modelled: no code panics while it
  holds one.

  The locales state what a caller may rely on, a cache with expiry and one whose entries
  can also grow; the set caches and the id cache interpret them.
\<close>

section \<open>The contract of a cache\<close>

text \<open>
  \<open>get s now k\<close> may miss at any time, but what it returns was put for \<open>k\<close> and not cleared
  since; the table is bounded.
\<close>

locale ttl_cache =
  fixes get :: "'s \<Rightarrow> int \<Rightarrow> int \<Rightarrow> 'v option"
    and put :: "'s \<Rightarrow> int \<Rightarrow> int \<Rightarrow> 'v \<Rightarrow> 's"
    and clear :: "'s \<Rightarrow> int \<Rightarrow> 's"
    and wf :: "'s \<Rightarrow> bool"
    and entries :: "'s \<Rightarrow> nat"
    and capacity :: nat
  assumes wf_put: "wf s \<Longrightarrow> wf (put s now k v)"
    and wf_clear: "wf s \<Longrightarrow> wf (clear s k)"
    and put_same: "wf s \<Longrightarrow> get (put s now k v) now' k = Some x \<Longrightarrow> x = v"
    and put_other: "wf s \<Longrightarrow> k' \<noteq> k \<Longrightarrow> get (put s now k v) now' k' = Some x \<Longrightarrow> get s now' k' = Some x"
    and clear_same: "wf s \<Longrightarrow> get (clear s k) now k = None"
    and clear_other: "wf s \<Longrightarrow> k' \<noteq> k \<Longrightarrow> get (clear s k) now k' = get s now k'"
    and get_earlier: "wf s \<Longrightarrow> now \<le> now' \<Longrightarrow> get s now' k = Some x \<Longrightarrow> get s now k = Some x"
    and put_bounded: "wf s \<Longrightarrow> entries s \<le> capacity \<Longrightarrow> entries (put s now k v) \<le> capacity"
begin

text \<open>What every later read can see satisfies a predicate.\<close>

definition holds_from :: "int \<Rightarrow> (int \<Rightarrow> 'v \<Rightarrow> bool) \<Rightarrow> 's \<Rightarrow> bool" where
  "holds_from t p s \<longleftrightarrow> (\<forall>now k v. t \<le> now \<longrightarrow> get s now k = Some v \<longrightarrow> p k v)"

lemma holds_put: "wf s \<Longrightarrow> holds_from t p s \<Longrightarrow> p k v \<Longrightarrow> holds_from t p (put s now k v)"
  unfolding holds_from_def by (metis put_same put_other)

lemma holds_clear: "wf s \<Longrightarrow> holds_from t p s \<Longrightarrow> holds_from t p (clear s k)"
  unfolding holds_from_def by (metis clear_same clear_other option.distinct(1))

lemma holds_clear_weaken:
  "wf s \<Longrightarrow> holds_from t p s \<Longrightarrow> (\<And>k' v. k' \<noteq> k \<Longrightarrow> p k' v \<Longrightarrow> q k' v) \<Longrightarrow> holds_from t q (clear s k)"
  unfolding holds_from_def by (metis clear_same clear_other option.distinct(1))

lemma holds_later: "t \<le> t' \<Longrightarrow> holds_from t p s \<Longrightarrow> holds_from t' p s"
  unfolding holds_from_def by (meson order_trans)

lemma holds_mono: "holds_from t p s \<Longrightarrow> (\<And>k v. p k v \<Longrightarrow> q k v) \<Longrightarrow> holds_from t q s"
  unfolding holds_from_def by blast

end

locale growing_cache = ttl_cache get put clear wf entries capacity
  for get :: "'s \<Rightarrow> int \<Rightarrow> int \<Rightarrow> 'v option"
    and put :: "'s \<Rightarrow> int \<Rightarrow> int \<Rightarrow> 'v \<Rightarrow> 's"
    and clear :: "'s \<Rightarrow> int \<Rightarrow> 's"
    and wf :: "'s \<Rightarrow> bool"
    and entries :: "'s \<Rightarrow> nat"
    and capacity :: nat +
  fixes merge :: "'s \<Rightarrow> int \<Rightarrow> int \<Rightarrow> 'd \<Rightarrow> 's"
    and grow :: "'d \<Rightarrow> 'v \<Rightarrow> 'v"
  assumes wf_merge: "wf s \<Longrightarrow> wf (merge s now k d)"
    and merge_same: "wf s \<Longrightarrow> now \<le> now' \<Longrightarrow>
      get (merge s now k d) now' k = map_option (grow d) (get s now' k)"
    and merge_other: "wf s \<Longrightarrow> k' \<noteq> k \<Longrightarrow> get (merge s now k d) now' k' = get s now' k'"
begin

definition merges :: "int \<Rightarrow> (int \<times> 'd) list \<Rightarrow> 's \<Rightarrow> 's" where
  "merges now ds s = fold (\<lambda>(k, d) s. merge s now k d) ds s"

definition grown :: "(int \<times> 'd) list \<Rightarrow> int \<Rightarrow> 'v \<Rightarrow> 'v" where
  "grown ds k v = fold grow (map snd (filter (\<lambda>p. fst p = k) ds)) v"

lemma grown_Cons: "grown ((a, d) # ds) k = (if a = k then (\<lambda>v. grown ds k (grow d v)) else grown ds k)"
  by (auto simp: grown_def)

lemma wf_merges: "wf s \<Longrightarrow> wf (merges now ds s)"
  unfolding merges_def by (induction ds arbitrary: s) (auto simp: wf_merge split: prod.split)

lemma get_merges:
  "wf s \<Longrightarrow> now \<le> now' \<Longrightarrow> get (merges now ds s) now' k = map_option (grown ds k) (get s now' k)"
proof (induction ds arbitrary: s)
  case Nil
  then show ?case by (simp add: merges_def grown_def option.map_id [unfolded id_def])
next
  case (Cons p ds)
  obtain a d where p: "p = (a, d)" by (cases p)
  have "get (merges now (p # ds) s) now' k = map_option (grown ds k) (get (merge s now a d) now' k)"
    using Cons.IH [OF wf_merge [OF Cons.prems(1)]] Cons.prems(2) by (simp add: merges_def p)
  also have "\<dots> = map_option (grown (p # ds) k) (get s now' k)"
    using merge_same [OF Cons.prems] merge_other [OF Cons.prems(1)]
    by (cases "k = a") (auto simp: grown_Cons p option.map_comp o_def)
  finally show ?case .
qed

lemma holds_merges:
  assumes "wf s" "holds_from t p s" "now \<le> t" "\<And>k v. p k v \<Longrightarrow> q k (grown ds k v)"
  shows "holds_from t q (merges now ds s)"
  using assms get_merges [OF assms(1), of now] unfolding holds_from_def
  by (auto simp: map_option_eq_Some)

lemma merges_one: "merges now [(k, d)] s = merge s now k d"
  by (simp add: merges_def)

end

section \<open>The set caches\<close>

definition CACHE_MAX_ENTRIES :: nat where "CACHE_MAX_ENTRIES = 1024"

record SetEntry =
  se_set :: "int set"
  se_inserted_at :: int

record IdsEntry =
  ie_ids :: "int list"
  ie_inserted_at :: int

type_synonym set_cache = "(int, SetEntry) table"
type_synonym ids_cache = "(int, IdsEntry) table"

definition get_set :: "set_cache \<Rightarrow> int \<Rightarrow> int \<Rightarrow> int \<Rightarrow> int set option" where
  "get_set m now key ttl =
     (case tbl_get m key of None \<Rightarrow> None
      | Some e \<Rightarrow> if duration_since now (se_inserted_at e) < ttl then Some (se_set e) else None)"

definition evict_oldest_set :: "set_cache \<Rightarrow> set_cache" where
  "evict_oldest_set m =
     (if length m \<le> CACHE_MAX_ENTRIES then m
      else evict_oldest se_inserted_at (length m - CACHE_MAX_ENTRIES) m)"

definition put_set :: "set_cache \<Rightarrow> int \<Rightarrow> int \<Rightarrow> int set \<Rightarrow> int \<Rightarrow> set_cache" where
  "put_set m now key s ttl =
     evict_oldest_set
       (tbl_insert key \<lparr>se_set = s, se_inserted_at = now\<rparr>
         (tbl_retain (\<lambda>_ e. duration_since now (se_inserted_at e) < ttl) m))"

definition clear_set :: "set_cache \<Rightarrow> int \<Rightarrow> set_cache" where
  "clear_set m key = tbl_remove key m"

definition merge_into :: "set_cache \<Rightarrow> int \<Rightarrow> int \<Rightarrow> int list \<Rightarrow> int \<Rightarrow> set_cache" where
  "merge_into m now key ids ttl =
     (case tbl_get m key of None \<Rightarrow> m
      | Some e \<Rightarrow>
         if duration_since now (se_inserted_at e) \<ge> ttl then m
         else tbl_insert key (e\<lparr>se_set := se_set e \<union> set ids\<rparr>) m)"

definition get_ids :: "ids_cache \<Rightarrow> int \<Rightarrow> int \<Rightarrow> int \<Rightarrow> int list option" where
  "get_ids m now key ttl =
     (case tbl_get m key of None \<Rightarrow> None
      | Some e \<Rightarrow> if duration_since now (ie_inserted_at e) < ttl then Some (ie_ids e) else None)"

definition RECENT_SEEN_TTL :: int where "RECENT_SEEN_TTL = secs 20"
definition LONG_TERM_SEEN_TTL :: int where "LONG_TERM_SEEN_TTL = secs 30"
definition OWNED_TTL :: int where "OWNED_TTL = secs 60"
definition CANDIDATE_TTL :: int where "CANDIDATE_TTL = secs 20"

definition put_ids :: "ids_cache \<Rightarrow> int \<Rightarrow> int \<Rightarrow> int list \<Rightarrow> ids_cache" where
  "put_ids m now key ids =
     (let m1 = tbl_insert key \<lparr>ie_ids = ids, ie_inserted_at = now\<rparr>
                 (tbl_retain (\<lambda>_ e. duration_since now (ie_inserted_at e) < CANDIDATE_TTL) m)
      in if length m1 > CACHE_MAX_ENTRIES
         then evict_oldest ie_inserted_at (length m1 - CACHE_MAX_ENTRIES) m1 else m1)"

definition clear_ids :: "ids_cache \<Rightarrow> int \<Rightarrow> ids_cache" where
  "clear_ids m key = tbl_remove key m"

section \<open>Lemmas\<close>

lemma tbl_get_evict_Some:
  "tbl_ok m \<Longrightarrow> tbl_get (evict_oldest stamp n m) k = Some e \<Longrightarrow> tbl_get m k = Some e"
  by (auto simp: evict_oldest_victims tbl_get_filter split: option.splits if_splits)

lemma put_set_SomeD:
  assumes ok: "tbl_ok m" and get: "tbl_get (put_set m now key s ttl) k = Some e"
  shows "if k = key then e = \<lparr>se_set = s, se_inserted_at = now\<rparr> else tbl_get m k = Some e"
proof -
  let ?m1 = "tbl_insert key \<lparr>se_set = s, se_inserted_at = now\<rparr>
         (tbl_retain (\<lambda>_ e. duration_since now (se_inserted_at e) < ttl) m)"
  have "tbl_get ?m1 k = Some e"
    using get ok by (auto simp: put_set_def evict_oldest_set_def split: if_splits
        dest: tbl_get_evict_Some [rotated])
  with ok show ?thesis by (auto simp: tbl_get_retain split: option.splits if_splits)
qed

lemma put_ids_SomeD:
  assumes ok: "tbl_ok m" and get: "tbl_get (put_ids m now key s) k = Some e"
  shows "if k = key then e = \<lparr>ie_ids = s, ie_inserted_at = now\<rparr> else tbl_get m k = Some e"
proof -
  let ?m1 = "tbl_insert key \<lparr>ie_ids = s, ie_inserted_at = now\<rparr>
         (tbl_retain (\<lambda>_ e. duration_since now (ie_inserted_at e) < CANDIDATE_TTL) m)"
  have "tbl_get ?m1 k = Some e"
    using get ok by (auto simp: put_ids_def Let_def split: if_splits
        dest: tbl_get_evict_Some [rotated])
  with ok show ?thesis by (auto simp: tbl_get_retain split: option.splits if_splits)
qed

lemma tbl_ok_put_set [simp]: "tbl_ok m \<Longrightarrow> tbl_ok (put_set m now k s ttl)"
  by (simp add: put_set_def evict_oldest_set_def)

lemma tbl_ok_put_ids [simp]: "tbl_ok m \<Longrightarrow> tbl_ok (put_ids m now k s)"
  by (simp add: put_ids_def Let_def)

lemma length_put_set: "tbl_ok m \<Longrightarrow> length (put_set m now k s ttl) \<le> CACHE_MAX_ENTRIES"
  by (simp add: put_set_def evict_oldest_set_def length_evict_oldest)

lemma length_put_ids: "tbl_ok m \<Longrightarrow> length (put_ids m now k s) \<le> CACHE_MAX_ENTRIES"
  by (simp add: put_ids_def Let_def length_evict_oldest)

interpretation set_cache: growing_cache
  "\<lambda>m now k. get_set m now k ttl" "\<lambda>m now k v. put_set m now k v ttl" clear_set tbl_ok length
  CACHE_MAX_ENTRIES "\<lambda>m now k ids. merge_into m now k ids ttl" "\<lambda>ids s. s \<union> set ids" for ttl
proof unfold_locales
  fix s :: set_cache and now now' k k' :: int and v x :: "int set" and ids :: "int list"
  assume ok: "tbl_ok s"
  show "tbl_ok (put_set s now k v ttl)" "tbl_ok (clear_set s k)"
    using ok by (simp_all add: clear_set_def)
  show "tbl_ok (merge_into s now k ids ttl)"
    using ok by (simp add: merge_into_def split: option.split)
  show "get_set (clear_set s k) now k ttl = None"
    using ok by (simp add: get_set_def clear_set_def)
  show "get_set (clear_set s k) now k' ttl = get_set s now k' ttl" if "k' \<noteq> k"
    using ok that by (simp add: get_set_def clear_set_def)
  show "x = v" if "get_set (put_set s now k v ttl) now' k ttl = Some x"
    using that put_set_SomeD [OF ok, of now k v ttl k]
    by (auto simp: get_set_def split: option.splits if_splits)
  show "get_set s now' k' ttl = Some x"
    if "k' \<noteq> k" "get_set (put_set s now k v ttl) now' k' ttl = Some x"
    using that put_set_SomeD [OF ok, of now k v ttl k']
    by (auto simp: get_set_def split: option.splits if_splits)
  show "get_set s now k ttl = Some x" if "now \<le> now'" "get_set s now' k ttl = Some x"
    using that duration_since_mono [OF that(1)]
    by (auto simp: get_set_def intro: le_less_trans split: option.splits if_splits)
  show "length (put_set s now k v ttl) \<le> CACHE_MAX_ENTRIES"
    using ok by (rule length_put_set)
  show "get_set (merge_into s now k ids ttl) now' k ttl
      = map_option (\<lambda>s. s \<union> set ids) (get_set s now' k ttl)" if "now \<le> now'"
  proof -
    have "duration_since now' u < ttl \<Longrightarrow> duration_since now u < ttl" for u
      using duration_since_mono [OF that] by (rule le_less_trans)
    then show ?thesis
      using ok by (auto simp: get_set_def merge_into_def not_less [symmetric] split: option.split)
  qed
  show "get_set (merge_into s now k ids ttl) now' k' ttl = get_set s now' k' ttl" if "k' \<noteq> k"
    using ok that by (cases "tbl_get s k") (simp_all add: get_set_def merge_into_def)
qed

interpretation ids_cache: ttl_cache
  "\<lambda>m now k. get_ids m now k CANDIDATE_TTL" put_ids clear_ids tbl_ok length CACHE_MAX_ENTRIES
proof unfold_locales
  fix s :: ids_cache and now now' k k' :: int and v x :: "int list"
  assume ok: "tbl_ok s"
  show "tbl_ok (put_ids s now k v)" "tbl_ok (clear_ids s k)"
    using ok by (simp_all add: clear_ids_def)
  show "get_ids (clear_ids s k) now k CANDIDATE_TTL = None"
    using ok by (simp add: get_ids_def clear_ids_def)
  show "get_ids (clear_ids s k) now k' CANDIDATE_TTL = get_ids s now k' CANDIDATE_TTL"
    if "k' \<noteq> k"
    using ok that by (simp add: get_ids_def clear_ids_def)
  show "x = v" if "get_ids (put_ids s now k v) now' k CANDIDATE_TTL = Some x"
    using that put_ids_SomeD [OF ok, of now k v k]
    by (auto simp: get_ids_def split: option.splits if_splits)
  show "get_ids s now' k' CANDIDATE_TTL = Some x"
    if "k' \<noteq> k" "get_ids (put_ids s now k v) now' k' CANDIDATE_TTL = Some x"
    using that put_ids_SomeD [OF ok, of now k v k']
    by (auto simp: get_ids_def split: option.splits if_splits)
  show "get_ids s now k CANDIDATE_TTL = Some x"
    if "now \<le> now'" "get_ids s now' k CANDIDATE_TTL = Some x"
    using that duration_since_mono [OF that(1)]
    by (auto simp: get_ids_def intro: le_less_trans split: option.splits if_splits)
  show "length (put_ids s now k v) \<le> CACHE_MAX_ENTRIES"
    using ok by (rule length_put_ids)
qed

section \<open>The four caches and their invalidation\<close>

record HydrateCaches =
  RECENT_SEEN_CACHE :: set_cache
  LONG_TERM_SEEN_CACHE :: set_cache
  OWNED_CACHE :: set_cache
  CANDIDATE_CACHE :: ids_cache

definition recent_seen :: "HydrateCaches \<Rightarrow> int \<Rightarrow> int \<Rightarrow> int set option" where
  "recent_seen c now acct = get_set (RECENT_SEEN_CACHE c) now acct RECENT_SEEN_TTL"

definition store_recent_seen :: "HydrateCaches \<Rightarrow> int \<Rightarrow> int \<Rightarrow> int set \<Rightarrow> HydrateCaches" where
  "store_recent_seen c now acct s =
     c\<lparr>RECENT_SEEN_CACHE := put_set (RECENT_SEEN_CACHE c) now acct s RECENT_SEEN_TTL\<rparr>"

definition merge_recent_seen :: "HydrateCaches \<Rightarrow> int \<Rightarrow> int \<Rightarrow> int list \<Rightarrow> HydrateCaches" where
  "merge_recent_seen c now acct ids =
     c\<lparr>RECENT_SEEN_CACHE := merge_into (RECENT_SEEN_CACHE c) now acct ids RECENT_SEEN_TTL\<rparr>"

definition long_term_seen :: "HydrateCaches \<Rightarrow> int \<Rightarrow> int \<Rightarrow> int set option" where
  "long_term_seen c now acct = get_set (LONG_TERM_SEEN_CACHE c) now acct LONG_TERM_SEEN_TTL"

definition store_long_term_seen :: "HydrateCaches \<Rightarrow> int \<Rightarrow> int \<Rightarrow> int set \<Rightarrow> HydrateCaches" where
  "store_long_term_seen c now acct s =
     c\<lparr>LONG_TERM_SEEN_CACHE := put_set (LONG_TERM_SEEN_CACHE c) now acct s LONG_TERM_SEEN_TTL\<rparr>"

definition merge_long_term_seen :: "HydrateCaches \<Rightarrow> int \<Rightarrow> int \<Rightarrow> int list \<Rightarrow> HydrateCaches" where
  "merge_long_term_seen c now acct ids =
     c\<lparr>LONG_TERM_SEEN_CACHE := merge_into (LONG_TERM_SEEN_CACHE c) now acct ids LONG_TERM_SEEN_TTL\<rparr>"

definition owned :: "HydrateCaches \<Rightarrow> int \<Rightarrow> int \<Rightarrow> int set option" where
  "owned c now acct = get_set (OWNED_CACHE c) now acct OWNED_TTL"

definition store_owned :: "HydrateCaches \<Rightarrow> int \<Rightarrow> int \<Rightarrow> int set \<Rightarrow> HydrateCaches" where
  "store_owned c now acct s = c\<lparr>OWNED_CACHE := put_set (OWNED_CACHE c) now acct s OWNED_TTL\<rparr>"

definition candidates :: "HydrateCaches \<Rightarrow> int \<Rightarrow> int \<Rightarrow> int list option" where
  "candidates c now acct = get_ids (CANDIDATE_CACHE c) now acct CANDIDATE_TTL"

definition store_candidates :: "HydrateCaches \<Rightarrow> int \<Rightarrow> int \<Rightarrow> int list \<Rightarrow> HydrateCaches" where
  "store_candidates c now acct ids = c\<lparr>CANDIDATE_CACHE := put_ids (CANDIDATE_CACHE c) now acct ids\<rparr>"

definition clear_seen :: "HydrateCaches \<Rightarrow> int \<Rightarrow> HydrateCaches" where
  "clear_seen c acct =
     c\<lparr>RECENT_SEEN_CACHE := clear_set (RECENT_SEEN_CACHE c) acct,
       LONG_TERM_SEEN_CACHE := clear_set (LONG_TERM_SEEN_CACHE c) acct\<rparr>"

definition clear_owned_and_candidates :: "HydrateCaches \<Rightarrow> int \<Rightarrow> HydrateCaches" where
  "clear_owned_and_candidates c acct =
     c\<lparr>OWNED_CACHE := clear_set (OWNED_CACHE c) acct,
       CANDIDATE_CACHE := clear_ids (CANDIDATE_CACHE c) acct\<rparr>"

definition caches_ok :: "HydrateCaches \<Rightarrow> bool" where
  "caches_ok c \<longleftrightarrow> tbl_ok (RECENT_SEEN_CACHE c) \<and> tbl_ok (LONG_TERM_SEEN_CACHE c) \<and>
     tbl_ok (OWNED_CACHE c) \<and> tbl_ok (CANDIDATE_CACHE c)"

end
