(* ===== verification/Validation.thy ===== *)
theory Validation
  imports Posts Api_Errors
begin

text \<open>
  The checks of \<open>parser-api/src/validation.rs\<close> on what a client sends.  A check returns the
  error or the value; each rejects with a \<open>BadRequest\<close>.  A 32 bit float is finite, infinite or
  NaN; the text of a weight in an error message is a parameter.  The interface of a check is a
  locale.
\<close>

section \<open>Floats that may not be numbers\<close>

datatype fnum = Fin f32 | Inf bool | NaN

fun is_finite :: "fnum \<Rightarrow> bool" where
  "is_finite (Fin x) = True"
| "is_finite _ = False"

text \<open>\<open>clamp\<close> with finite bounds.\<close>

fun fclamp :: "f32 \<Rightarrow> f32 \<Rightarrow> fnum \<Rightarrow> fnum" where
  "fclamp lo hi (Fin x) = Fin (max lo (min hi x))"
| "fclamp lo hi (Inf neg) = Fin (if neg then lo else hi)"
| "fclamp lo hi NaN = NaN"

fun in_range :: "f32 \<Rightarrow> f32 \<Rightarrow> fnum \<Rightarrow> bool" where
  "in_range lo hi (Fin x) \<longleftrightarrow> lo \<le> x \<and> x \<le> hi"
| "in_range lo hi _ \<longleftrightarrow> False"

section \<open>Limits and payloads\<close>

definition MAX_ACCOUNT_ID :: int where "MAX_ACCOUNT_ID = 100000000"
definition MAX_NAME_LEN :: nat where "MAX_NAME_LEN = 64"
definition MAX_BLACKLIST_LEN :: nat where "MAX_BLACKLIST_LEN = 16 * 1024"
definition MIN_OWNER_TOKEN_LEN :: nat where "MIN_OWNER_TOKEN_LEN = 16"
definition MAX_OWNER_TOKEN_LEN :: nat where "MAX_OWNER_TOKEN_LEN = 128"
definition MAX_SESSION_ID_LEN :: nat where "MAX_SESSION_ID_LEN = 128"
definition MAX_RECOMMENDATIONS_PAGE :: int where "MAX_RECOMMENDATIONS_PAGE = 750"
definition MAX_BLACKLIST_LINE_LEN :: nat where "MAX_BLACKLIST_LINE_LEN = 64"
definition MAX_PREFERRED_TAGS :: nat where "MAX_PREFERRED_TAGS = 50"
definition MAX_TAG_NAME_LEN :: nat where "MAX_TAG_NAME_LEN = 64"

lemmas limit_defs = MAX_ACCOUNT_ID_def MAX_NAME_LEN_def MAX_BLACKLIST_LEN_def MIN_OWNER_TOKEN_LEN_def
  MAX_OWNER_TOKEN_LEN_def MAX_SESSION_ID_LEN_def MAX_RECOMMENDATIONS_PAGE_def
  MAX_BLACKLIST_LINE_LEN_def MAX_PREFERRED_TAGS_def MAX_TAG_NAME_LEN_def

record DeviceScopedAccount =
  ds_id :: int
  ds_name :: ustr
  ds_blacklist :: "ustr option"
  ds_api_key :: "ustr option"

record BlacklistPayload =
  bp_blacklist :: "ustr option"

record PreferredTag =
  pt_tag :: ustr
  pt_group :: ustr
  pt_weight :: fnum

record PreferredTagPayload =
  preferred_tags :: "PreferredTag list"

type_synonym 'a checked = "ApiError + 'a"

definition reject :: "bool \<Rightarrow> ustr \<Rightarrow> unit checked" where
  "reject b msg = (if b then Inl (BadRequest msg) else Inr ())"

lemma reject_simps [simp]:
  "reject b msg = Inr () \<longleftrightarrow> \<not> b" "reject b msg = Inl e \<longleftrightarrow> b \<and> e = BadRequest msg"
  by (auto simp: reject_def)

section \<open>Accounts, tokens, names\<close>

definition validate_account_id :: "int \<Rightarrow> unit checked" where
  "validate_account_id i = reject (i \<le> 0 \<or> i > MAX_ACCOUNT_ID)
     (lit ''invalid account id '' @ show_int i @ lit '': must be in 1..='' @ show_int MAX_ACCOUNT_ID)"

definition token_char :: "nat \<Rightarrow> bool" where
  "token_char c \<longleftrightarrow> is_ascii_alphanumeric c \<or> c = 45 \<or> c = 95"

definition validate_owner_token :: "ustr \<Rightarrow> unit checked" where
  "validate_owner_token t =
     (let len = byte_len t
      in and_then
           (reject (\<not> (MIN_OWNER_TOKEN_LEN \<le> len \<and> len \<le> MAX_OWNER_TOKEN_LEN))
             (lit ''owner_token length '' @ show_nat len @ lit '' not in '' @
              show_nat MIN_OWNER_TOKEN_LEN @ lit ''..='' @ show_nat MAX_OWNER_TOKEN_LEN))
           (reject (\<not> list_all token_char t) (lit ''owner_token must contain only [A-Za-z0-9_-]'')))"

definition name_char :: "nat \<Rightarrow> bool" where
  "name_char c \<longleftrightarrow> is_ascii_alphanumeric c \<or> c \<in> set [95, 45, 46, 126, 32, 39, 40, 41, 33, 64]"

definition validate_account_name :: "ustr \<Rightarrow> unit checked" where
  "validate_account_name n =
     (let trimmed = trim n; char_len = length trimmed
      in and_then (reject (trimmed = []) (lit ''name must not be empty''))
        (and_then (reject (char_len > MAX_NAME_LEN)
            (lit ''name too long ('' @ show_nat char_len @ lit '' chars, max '' @ show_nat MAX_NAME_LEN @ lit '')''))
          (reject (\<not> list_all name_char trimmed) (lit ''name contains characters that are not allowed''))))"

section \<open>Blacklists\<close>

definition forbidden_substrings :: "ustr list" where
  "forbidden_substrings = [lit ''<script'', lit ''javascript:'', lit ''data:text/html'', lit ''vbscript:'']"

definition validate_blacklist_char :: "nat \<Rightarrow> unit checked" where
  "validate_blacklist_char c =
     and_then (reject (is_control c \<and> c \<noteq> 10 \<and> c \<noteq> 13 \<and> c \<noteq> 9)
                (lit ''blacklist must not contain control characters''))
       (reject (c = 60 \<or> c = 62) (lit ''blacklist must not contain '' @ [39, 60, 39] @ lit '' or '' @ [39, 62, 39]))"

definition validate_blacklist_line :: "nat \<times> ustr \<Rightarrow> unit checked" where
  "validate_blacklist_line = (\<lambda>(idx, line).
     reject (length (trim line) > MAX_BLACKLIST_LINE_LEN)
       (lit ''blacklist line '' @ show_nat (idx + 1) @ lit '' too long (max '' @
        show_nat MAX_BLACKLIST_LINE_LEN @ lit '' chars)''))"

definition validate_blacklist_text :: "ustr \<Rightarrow> unit checked" where
  "validate_blacklist_text bl =
     and_then (reject (byte_len bl > MAX_BLACKLIST_LEN)
         (lit ''blacklist too long ('' @ show_nat (byte_len bl) @ lit '' bytes, max '' @
          show_nat MAX_BLACKLIST_LEN @ lit '')''))
       (and_then (reject (0 \<in> set bl) (lit ''blacklist must not contain NUL bytes''))
         (and_then (check_all (\<lambda>needle. reject (contains_str needle (to_ascii_lowercase bl))
               (lit ''blacklist contains forbidden substring '' @ [39] @ needle @ [39])) forbidden_substrings)
           (and_then (check_all validate_blacklist_char bl)
             (check_all validate_blacklist_line (enumerate 0 (str_lines bl))))))"

text \<open>\<open>seen.insert\<close>: a line is kept when no kept line equals it up to ASCII case.\<close>

fun keep_new_lines :: "ustr list \<Rightarrow> ustr list \<Rightarrow> ustr list" where
  "keep_new_lines seen [] = []"
| "keep_new_lines seen (raw # rest) =
     (let trimmed = trim_matches is_whitespace raw
      in if trimmed = [] then keep_new_lines seen rest
         else if to_ascii_lowercase trimmed \<in> set seen then keep_new_lines seen rest
         else trimmed # keep_new_lines (to_ascii_lowercase trimmed # seen) rest)"

definition normalize_blacklist :: "ustr \<Rightarrow> ustr" where
  "normalize_blacklist bl = join [10] (keep_new_lines [] (split_char 10 bl))"

definition validate_e621_api_key :: "ustr \<Rightarrow> unit checked" where
  "validate_e621_api_key key =
     (let len = byte_len key
      in and_then (reject (\<not> (8 \<le> len \<and> len \<le> 128))
             (lit ''e621 API key length '' @ show_nat len @ lit '' not in 8..=128''))
        (and_then (reject (trim key \<noteq> key) (lit ''e621 API key must not have leading/trailing whitespace''))
          (reject (list_ex is_whitespace key) (lit ''e621 API key must not contain whitespace''))))"

definition validate_device_scoped_account :: "DeviceScopedAccount \<Rightarrow> unit checked" where
  "validate_device_scoped_account a =
     and_then (validate_account_id (ds_id a))
       (and_then (validate_account_name (ds_name a))
         (and_then (case ds_blacklist a of None \<Rightarrow> Inr () | Some bl \<Rightarrow> validate_blacklist_text bl)
           (case ds_api_key a of None \<Rightarrow> Inr ()
            | Some k \<Rightarrow> if trim k \<noteq> [] then validate_e621_api_key k else Inr ())))"

definition validate_blacklist_payload :: "BlacklistPayload \<Rightarrow> unit checked" where
  "validate_blacklist_payload p =
     (case bp_blacklist p of None \<Rightarrow> Inr () | Some bl \<Rightarrow> validate_blacklist_text bl)"

section \<open>Query parameters\<close>

definition validate_exploration :: "fnum option \<Rightarrow> fnum option checked" where
  "validate_exploration t =
     (case t of None \<Rightarrow> Inr None
      | Some x \<Rightarrow> and_then (reject (\<not> is_finite x) (lit ''exploration must be a finite number''))
                    (Inr (Some (fclamp 0 (1/2) x))))"

definition validate_recommendations_page :: "int option \<Rightarrow> unit checked" where
  "validate_recommendations_page page =
     (case page of None \<Rightarrow> Inr ()
      | Some p \<Rightarrow> reject (\<not> (1 \<le> p \<and> p \<le> MAX_RECOMMENDATIONS_PAGE))
          (lit ''page '' @ show_int p @ lit '' out of range [1, '' @ show_int MAX_RECOMMENDATIONS_PAGE @ lit '']''))"

definition validate_affinity_threshold :: "fnum option \<Rightarrow> fnum option checked" where
  "validate_affinity_threshold t =
     (case t of None \<Rightarrow> Inr None
      | Some x \<Rightarrow> and_then (reject (\<not> is_finite x) (lit ''affinity_threshold must be a finite number''))
                    (Inr (Some (fclamp 0 1 x))))"

definition validate_session_token :: "ustr \<Rightarrow> unit checked" where
  "validate_session_token t =
     (let len = byte_len t
      in and_then (reject (\<not> (8 \<le> len \<and> len \<le> 128))
             (lit ''session_token length '' @ show_nat len @ lit '' not in 8..=128''))
           (reject (\<not> list_all token_char t) (lit ''session_token must contain only [A-Za-z0-9_-]'')))"

text \<open>An optional integer with a default and a range.\<close>

definition ranged :: "int \<Rightarrow> int \<Rightarrow> int \<Rightarrow> ustr \<Rightarrow> int option \<Rightarrow> int checked" where
  "ranged dflt lo hi what v =
     (case v of None \<Rightarrow> Inr dflt
      | Some c \<Rightarrow> if lo \<le> c \<and> c \<le> hi then Inr c
          else Inl (BadRequest (what @ lit '' '' @ show_int c @ lit '' out of range ['' @ show_int lo @
                 lit '', '' @ show_int hi @ lit '']'')))"

definition validate_continue_count :: "int option \<Rightarrow> int checked" where
  "validate_continue_count = ranged 20 1 100 (lit ''count'')"

definition validate_similar_posts_limit :: "int option \<Rightarrow> int checked" where
  "validate_similar_posts_limit = ranged 20 1 100 (lit ''limit'')"

definition validate_similar_posts_min_overlap :: "int option \<Rightarrow> int checked" where
  "validate_similar_posts_min_overlap = ranged 2 1 20 (lit ''min_overlap'')"

definition validate_similar_posts_page :: "int option \<Rightarrow> int checked" where
  "validate_similar_posts_page = ranged 1 1 100 (lit ''page'')"

section \<open>Interactions and preferred tags\<close>

definition validate_feed_interaction :: "FeedInteractionRequest \<Rightarrow> unit checked" where
  "validate_feed_interaction r =
     and_then (validate_account_id (fi_account_id r))
       (reject (byte_len (session_id r) > MAX_SESSION_ID_LEN)
         (lit ''session_id too long ('' @ show_nat (byte_len (session_id r)) @ lit '' chars, max '' @
          show_nat MAX_SESSION_ID_LEN @ lit '')''))"

definition validate_batch_interaction :: "BatchInteractionRequest \<Rightarrow> unit checked" where
  "validate_batch_interaction b =
     and_then (reject (interactions b = []) (lit ''batch must contain at least 1 interaction''))
       (and_then (reject (length (interactions b) > 100) (lit ''batch max 100 interactions per request''))
         (check_all validate_feed_interaction (interactions b)))"

definition VALID_TAG_GROUPS :: "ustr list" where
  "VALID_TAG_GROUPS = [lit ''artist'', lit ''character'', lit ''copyright'', lit ''general'',
     lit ''lore'', lit ''meta'', lit ''species'']"

text \<open>The \<open>Debug\<close> text of a list of strings without escapes.\<close>

definition show_list :: "ustr list \<Rightarrow> ustr" where
  "show_list xs = [91] @ join [44, 32] (map (\<lambda>x. [34] @ x @ [34]) xs) @ [93]"

definition tag_char :: "nat \<Rightarrow> bool" where
  "tag_char c \<longleftrightarrow> is_ascii_lowercase c \<or> is_ascii_digit c \<or> c = 95"

definition preferred_key :: "PreferredTag \<Rightarrow> ustr \<times> ustr" where
  "preferred_key pt = (to_ascii_lowercase (trim (pt_tag pt)), to_ascii_lowercase (trim (pt_group pt)))"

definition validate_preferred_tag :: "(fnum \<Rightarrow> ustr) \<Rightarrow> (ustr \<times> ustr) list \<Rightarrow> PreferredTag \<Rightarrow> unit checked" where
  "validate_preferred_tag show_f32 seen pt =
     (let trimmed = trim (pt_tag pt); w = pt_weight pt; group = trim (pt_group pt)
      in and_then (reject (trimmed = []) (lit ''tag name must not be empty''))
        (and_then (reject (byte_len trimmed > MAX_TAG_NAME_LEN)
            (lit ''tag name too long (max '' @ show_nat MAX_TAG_NAME_LEN @ lit '' chars)''))
        (and_then (reject (\<not> list_all tag_char trimmed)
            (lit ''tag '' @ [39] @ trimmed @ [39] @ lit '' must be a plain lowercase tag name ''))
        (and_then (reject (\<not> is_finite w \<or> \<not> in_range (1/10) 10 w)
            (lit ''weight '' @ show_f32 w @ lit '' out of range [0.1, 10.0]''))
        (and_then (reject (group = []) (lit ''group must not be empty''))
        (and_then (reject (to_ascii_lowercase group \<notin> set VALID_TAG_GROUPS)
            (lit ''group '' @ [39] @ group @ [39] @ lit '' not one of '' @ show_list VALID_TAG_GROUPS))
          (reject (preferred_key pt \<in> set seen)
            (lit ''duplicate preferred tag: '' @ trimmed @ lit '' ('' @ group @ lit '')''))))))))"

fun validate_preferred_tags :: "(fnum \<Rightarrow> ustr) \<Rightarrow> (ustr \<times> ustr) list \<Rightarrow> PreferredTag list \<Rightarrow> unit checked" where
  "validate_preferred_tags sh seen [] = Inr ()"
| "validate_preferred_tags sh seen (pt # pts) =
     and_then (validate_preferred_tag sh seen pt) (validate_preferred_tags sh (preferred_key pt # seen) pts)"

definition validate_preferred_tag_payload :: "(fnum \<Rightarrow> ustr) \<Rightarrow> PreferredTagPayload \<Rightarrow> unit checked" where
  "validate_preferred_tag_payload sh p =
     and_then (reject (length (preferred_tags p) > MAX_PREFERRED_TAGS)
         (lit ''max '' @ show_nat MAX_PREFERRED_TAGS @ lit '' preferred tags per account''))
       (validate_preferred_tags sh [] (preferred_tags p))"

end
