(* ===== verification/Validation_Props.thy ===== *)
theory Validation_Props
  imports Validation
begin

text \<open>
  What a request has proved about itself once it is past the checks.  The locale is the
  contract of a check: it decides a predicate, and its error is answered with status 400.
\<close>

section \<open>The contract of a check\<close>

locale validator =
  fixes check :: "'a \<Rightarrow> unit checked" and good :: "'a \<Rightarrow> bool"
  assumes accepts: "check x = Inr () \<longleftrightarrow> good x"
    and rejects: "check x = Inl e \<Longrightarrow> \<exists>m. e = BadRequest m"
begin

lemma rejected_status: "\<not> good x \<Longrightarrow> \<exists>e. check x = Inl e \<and> status e = 400"
proof (cases "check x")
  case (Inl e)
  with rejects [OF Inl] show ?thesis by auto
next
  case (Inr u)
  moreover assume "\<not> good x"
  ultimately show ?thesis using accepts [of x] by simp
qed

lemma all_accepts: "check_all check xs = Inr () \<longleftrightarrow> list_all good xs"
  unfolding list_all_iff by (simp add: accepts)

lemma all_rejects: "check_all check xs = Inl e \<Longrightarrow> \<exists>m. e = BadRequest m"
  using check_all_Inl rejects by metis

end

definition good_id :: "int \<Rightarrow> bool" where
  "good_id i \<longleftrightarrow> 0 < i \<and> i \<le> MAX_ACCOUNT_ID"

interpretation account_ids: validator validate_account_id good_id
  by unfold_locales (auto simp: validate_account_id_def good_id_def)

definition good_token :: "nat \<Rightarrow> nat \<Rightarrow> ustr \<Rightarrow> bool" where
  "good_token lo hi t \<longleftrightarrow> lo \<le> length t \<and> length t \<le> hi \<and> list_all token_char t"

lemma token_char_ascii: "list_all token_char t \<Longrightarrow> byte_len t = length t"
  by (rule byte_len_ascii) (auto simp: list_all_iff token_char_def char_class_defs)

interpretation owner_tokens: validator validate_owner_token "good_token 16 128"
  by unfold_locales
    (auto simp: validate_owner_token_def good_token_def Let_def limit_defs token_char_ascii)

interpretation session_tokens: validator validate_session_token "good_token 8 128"
  by unfold_locales (auto simp: validate_session_token_def good_token_def Let_def token_char_ascii)

definition good_interaction :: "FeedInteractionRequest \<Rightarrow> bool" where
  "good_interaction r \<longleftrightarrow> good_id (fi_account_id r) \<and> byte_len (session_id r) \<le> MAX_SESSION_ID_LEN"

interpretation feed_interactions: validator validate_feed_interaction good_interaction
  by unfold_locales
    (auto simp: validate_feed_interaction_def good_interaction_def account_ids.accepts
      dest: account_ids.rejects)

definition good_batch :: "BatchInteractionRequest \<Rightarrow> bool" where
  "good_batch b \<longleftrightarrow> 0 < length (interactions b) \<and> length (interactions b) \<le> 100 \<and>
     list_all good_interaction (interactions b)"

interpretation batches: validator validate_batch_interaction good_batch
proof unfold_locales
  fix b e
  show "validate_batch_interaction b = Inr () \<longleftrightarrow> good_batch b"
    using feed_interactions.all_accepts [of "interactions b"]
    by (auto simp: validate_batch_interaction_def good_batch_def)
  show "validate_batch_interaction b = Inl e \<Longrightarrow> \<exists>m. e = BadRequest m"
    by (auto simp: validate_batch_interaction_def dest: feed_interactions.all_rejects)
qed

text \<open>A blacklist: size, no control characters but line ends and tabs, no markup, short lines.\<close>

definition good_blacklist :: "ustr \<Rightarrow> bool" where
  "good_blacklist bl \<longleftrightarrow> byte_len bl \<le> MAX_BLACKLIST_LEN \<and>
     (\<forall>c \<in> set bl. (is_control c \<longrightarrow> c = 10 \<or> c = 13 \<or> c = 9) \<and> c \<noteq> 60 \<and> c \<noteq> 62) \<and>
     (\<forall>needle \<in> set forbidden_substrings. \<not> contains_str needle (to_ascii_lowercase bl)) \<and>
     (\<forall>l \<in> set (str_lines bl). length (trim l) \<le> MAX_BLACKLIST_LINE_LEN)"

lemma enumerate_all: "(\<forall>x \<in> set (enumerate n xs). P (snd x)) \<longleftrightarrow> (\<forall>x \<in> set xs. P x)"
  by (induction xs arbitrary: n) auto

interpretation blacklists: validator validate_blacklist_text good_blacklist
proof unfold_locales
  fix bl e
  have nul: "0 \<notin> set bl" if "\<forall>c \<in> set bl. is_control c \<longrightarrow> c = 10 \<or> c = 13 \<or> c = 9"
    using that by (auto simp: is_control_def)
  have lines: "check_all validate_blacklist_line (enumerate 0 (str_lines bl)) = Inr () \<longleftrightarrow>
      (\<forall>l \<in> set (str_lines bl). length (trim l) \<le> MAX_BLACKLIST_LINE_LEN)"
    using enumerate_all [of 0 "str_lines bl" "\<lambda>l. length (trim l) \<le> MAX_BLACKLIST_LINE_LEN"]
    by (auto simp: validate_blacklist_line_def not_less)
  have "check_all validate_blacklist_char bl = Inr () \<longleftrightarrow>
      (\<forall>c \<in> set bl. (is_control c \<longrightarrow> c = 10 \<or> c = 13 \<or> c = 9) \<and> c \<noteq> 60 \<and> c \<noteq> 62)"
    by (auto simp: validate_blacklist_char_def)
  then show "validate_blacklist_text bl = Inr () \<longleftrightarrow> good_blacklist bl"
    using nul lines unfolding validate_blacklist_text_def good_blacklist_def
    by (simp add: not_less) blast
  show "validate_blacklist_text bl = Inl e \<Longrightarrow> \<exists>m. e = BadRequest m"
    by (auto simp: validate_blacklist_text_def validate_blacklist_char_def validate_blacklist_line_def
        dest!: check_all_Inl)
qed

text \<open>Preferred tags: plain tag names, known groups, weights in range, no pair twice.\<close>

definition good_preferred :: "PreferredTag \<Rightarrow> bool" where
  "good_preferred pt \<longleftrightarrow> trim (pt_tag pt) \<noteq> [] \<and> length (trim (pt_tag pt)) \<le> MAX_TAG_NAME_LEN \<and>
     list_all tag_char (trim (pt_tag pt)) \<and> in_range (1/10) 10 (pt_weight pt) \<and>
     to_ascii_lowercase (trim (pt_group pt)) \<in> set VALID_TAG_GROUPS"

lemma in_range_finite: "in_range lo hi w \<Longrightarrow> is_finite w"
  by (cases w) auto

lemma tag_char_ascii: "list_all tag_char t \<Longrightarrow> byte_len t = length t"
  by (rule byte_len_ascii) (auto simp: list_all_iff tag_char_def char_class_defs)

lemma no_empty_group: "[] \<notin> set VALID_TAG_GROUPS"
  by (simp add: VALID_TAG_GROUPS_def)

lemma to_lower_Nil [simp]: "to_ascii_lowercase s = [] \<longleftrightarrow> s = []"
  by (simp add: to_ascii_lowercase_def)

lemma validate_preferred_tag_accepts:
  "validate_preferred_tag sh seen pt = Inr () \<longleftrightarrow> good_preferred pt \<and> preferred_key pt \<notin> set seen"
  using no_empty_group in_range_finite [of "1/10" 10 "pt_weight pt"] tag_char_ascii [of "trim (pt_tag pt)"]
  by (auto simp: validate_preferred_tag_def good_preferred_def Let_def)

lemma validate_preferred_tags_accepts:
  "validate_preferred_tags sh seen pts = Inr () \<longleftrightarrow>
     list_all good_preferred pts \<and> distinct (map preferred_key pts) \<and>
     set (map preferred_key pts) \<inter> set seen = {}"
  by (induction pts arbitrary: seen) (auto simp: validate_preferred_tag_accepts)

lemma validate_preferred_tags_rejects:
  "validate_preferred_tags sh seen pts = Inl e \<Longrightarrow> \<exists>m. e = BadRequest m"
  by (induction pts arbitrary: seen) (auto simp: validate_preferred_tag_def Let_def)

definition good_payload :: "PreferredTagPayload \<Rightarrow> bool" where
  "good_payload p \<longleftrightarrow> length (preferred_tags p) \<le> 50 \<and> list_all good_preferred (preferred_tags p) \<and>
     distinct (map preferred_key (preferred_tags p))"

interpretation preferred: validator "validate_preferred_tag_payload sh" good_payload for sh
  by unfold_locales
    (auto simp: validate_preferred_tag_payload_def good_payload_def validate_preferred_tags_accepts
      MAX_PREFERRED_TAGS_def not_less dest: validate_preferred_tags_rejects)

section \<open>Properties\<close>

lemma tag_char_lower: "list_all tag_char t \<Longrightarrow> to_ascii_lowercase t = t"
  by (induction t) (auto simp: tag_char_def lower_char_def char_class_defs)

text \<open>What the preferred tags of a stored payload look like: at most fifty, each a plain
  lower case tag name that cannot carry a search operator, in a known group, with a weight in
  range, and no tag twice in one group.  Everything else is answered with status 400.\<close>

theorem preferred_tags_checked:
  "(case validate_preferred_tag_payload sh p of
      Inl e \<Rightarrow> status e = 400 \<and> \<not> good_payload p
    | Inr _ \<Rightarrow> length (preferred_tags p) \<le> 50 \<and>
        (\<forall>pt \<in> set (preferred_tags p).
           trim (pt_tag pt) \<noteq> [] \<and> list_all tag_char (trim (pt_tag pt)) \<and>
           (\<forall>op \<in> set [58, 32, 45, 42, 126]. op \<notin> set (trim (pt_tag pt))) \<and>
           in_range (1/10) 10 (pt_weight pt) \<and>
           to_ascii_lowercase (trim (pt_group pt)) \<in> set VALID_TAG_GROUPS) \<and>
        distinct (map (\<lambda>pt. (trim (pt_tag pt), to_ascii_lowercase (trim (pt_group pt)))) (preferred_tags p)))"
proof (cases "validate_preferred_tag_payload sh p")
  case (Inl e)
  then show ?thesis using preferred.accepts [of sh p] preferred.rejects [of sh p e] by auto
next
  case (Inr u)
  then have g: "good_payload p" using preferred.accepts [of sh p] by simp
  have key: "map preferred_key (preferred_tags p) =
      map (\<lambda>pt. (trim (pt_tag pt), to_ascii_lowercase (trim (pt_group pt)))) (preferred_tags p)"
    using g by (auto simp: good_payload_def list_all_iff good_preferred_def preferred_key_def
        intro!: tag_char_lower)
  have "\<forall>op \<in> set [58, 32, 45, 42, 126]. op \<notin> set t" if "list_all tag_char t" for t
    using that by (auto simp: list_all_iff tag_char_def char_class_defs)
  then show ?thesis using Inr g key
    by (auto simp: good_payload_def list_all_iff good_preferred_def)
qed

theorem preferred_tags_checked_witness:
  "validate_preferred_tag_payload (\<lambda>_. []) \<lparr>preferred_tags =
      [\<lparr>pt_tag = lit '' wolf'', pt_group = lit ''Species'', pt_weight = Fin 2\<rparr>]\<rparr> = Inr () \<and>
    to_ascii_lowercase (trim (lit ''Species'')) \<in> set VALID_TAG_GROUPS \<and>
    list_all tag_char (trim (lit '' wolf''))"
proof -
  let ?p = "\<lparr>preferred_tags = [\<lparr>pt_tag = lit '' wolf'', pt_group = lit ''Species'', pt_weight = Fin 2\<rparr>]\<rparr>"
  have "good_payload ?p"
    by (simp add: good_payload_def good_preferred_def trim_def trim_matches_def is_whitespace_def
        tag_char_def char_class_defs VALID_TAG_GROUPS_def MAX_TAG_NAME_LEN_def lower_char_def)
  then have "validate_preferred_tag_payload (\<lambda>_. []) ?p = Inr ()" by (simp add: preferred.accepts)
  then show ?thesis using preferred_tags_checked [where sh = "\<lambda>_. []" and p = ?p] by simp
qed

text \<open>An owner token that is accepted has sixteen to 128 letters, digits, dashes and
  underscores; a batch that is accepted has one to a hundred interactions of valid accounts;
  each rejection is a status 400.\<close>

theorem tokens_and_batches_checked:
  "(case validate_owner_token t of
      Inl e \<Rightarrow> status e = 400
    | Inr _ \<Rightarrow> 16 \<le> length t \<and> length t \<le> 128 \<and> list_all token_char t) \<and>
   (case validate_batch_interaction b of
      Inl e \<Rightarrow> status e = 400
    | Inr _ \<Rightarrow> 0 < length (interactions b) \<and> length (interactions b) \<le> 100 \<and>
        list_all (\<lambda>r. 0 < fi_account_id r \<and> fi_account_id r \<le> 100000000 \<and>
          byte_len (session_id r) \<le> 128) (interactions b))"
  using owner_tokens.accepts [of t] owner_tokens.rejects [of t] batches.accepts [of b] batches.rejects [of b]
  by (cases "validate_owner_token t"; cases "validate_batch_interaction b")
    (auto simp: good_token_def good_batch_def good_interaction_def good_id_def limit_defs list_all_iff)

end
