(* ===== verification/Access.thy ===== *)
theory Access
  imports Validation_Props
begin

text \<open>
  Who may do what: the instance claim and the scope derived from it
  (\<open>parser-api/src/db/instance.rs\<close>), and the request guards (\<open>parser-api/src/auth.rs\<close>).  Tables
  are lists of rows, the claim is the singleton row or nothing.  A release build is
  \<open>debug = False\<close>.
\<close>

section \<open>The claim on the instance\<close>

datatype ClaimMethod = Bootstrap | Secret

fun claim_method_text :: "ClaimMethod \<Rightarrow> ustr" where
  "claim_method_text Bootstrap = lit ''bootstrap''"
| "claim_method_text Secret = lit ''secret''"

datatype ClaimOutcome = Claimed | AlreadyOwned | Transferred | Refused

fun claim_outcome_text :: "ClaimOutcome \<Rightarrow> ustr" where
  "claim_outcome_text Claimed = lit ''claimed''"
| "claim_outcome_text AlreadyOwned = lit ''already-owned''"
| "claim_outcome_text Transferred = lit ''transferred''"
| "claim_outcome_text Refused = lit ''refused''"

record InstanceClaim =
  ic_owner_token :: ustr
  claimed_at :: int
  claim_method :: ustr

record DeviceLink =
  dl_token :: ustr
  dl_account :: int
  admin_granted_at :: "int option"
  admin_key_fingerprint :: "ustr option"

record Instance_DB =
  accounts :: "int list"
  account_device_links :: "DeviceLink list"
  instance_ownership :: "InstanceClaim option"

definition is_instance_owner :: "Instance_DB \<Rightarrow> ustr \<Rightarrow> bool" where
  "is_instance_owner d token =
     (case instance_ownership d of None \<Rightarrow> False | Some c \<Rightarrow> ic_owner_token c = token)"

text \<open>\<open>IS_INSTANCE_ADMIN_SQL\<close>; a missing fingerprint is \<open>NULL\<close> and equals nothing.\<close>

definition admin_grant_exists :: "Instance_DB \<Rightarrow> ustr \<Rightarrow> ustr \<Rightarrow> bool" where
  "admin_grant_exists d token fingerprint =
     list_ex (\<lambda>l. dl_token l = token \<and> admin_granted_at l \<noteq> None \<and>
        admin_key_fingerprint l = Some fingerprint) (account_device_links d)"

definition admin_tier_available :: "Instance_DB \<Rightarrow> ustr \<Rightarrow> bool" where
  "admin_tier_available d fingerprint =
     (\<not> list_ex (\<lambda>l. admin_granted_at l \<noteq> None \<and> admin_key_fingerprint l = Some fingerprint)
        (account_device_links d))"

definition claim_instance :: "ustr \<Rightarrow> ClaimMethod \<Rightarrow> int \<Rightarrow> Instance_DB \<Rightarrow> ClaimOutcome \<times> Instance_DB" where
  "claim_instance token how now d =
     (case instance_ownership d of
        None \<Rightarrow> (Claimed, d\<lparr>instance_ownership := Some \<lparr>ic_owner_token = token, claimed_at = now,
                   claim_method = claim_method_text how\<rparr>\<rparr>)
      | Some c \<Rightarrow>
          if ic_owner_token c = token then (AlreadyOwned, d)
          else (case how of
                  Bootstrap \<Rightarrow> (Refused, d)
                | Secret \<Rightarrow> (Transferred, d\<lparr>instance_ownership := Some \<lparr>ic_owner_token = token,
                    claimed_at = now, claim_method = claim_method_text Secret\<rparr>\<rparr>)))"

definition VISIBLE_ACCOUNTS_SQL :: "Instance_DB \<Rightarrow> ustr \<Rightarrow> int set" where
  "VISIBLE_ACCOUNTS_SQL d token =
     set (map dl_account (filter (\<lambda>l. dl_token l = token) (account_device_links d))) \<union>
     (if is_instance_owner d token then set (accounts d) else {})"

definition console_accounts_sql :: "Instance_DB \<Rightarrow> ustr \<Rightarrow> ustr \<Rightarrow> int set" where
  "console_accounts_sql d token fingerprint =
     VISIBLE_ACCOUNTS_SQL d token \<union> (if admin_grant_exists d token fingerprint then set (accounts d) else {})"

definition may_address :: "Instance_DB \<Rightarrow> ustr \<Rightarrow> int \<Rightarrow> bool" where
  "may_address d token account \<longleftrightarrow>
     list_ex (\<lambda>l. dl_token l = token \<and> dl_account l = account) (account_device_links d) \<or>
     is_instance_owner d token"

text \<open>\<open>require_instance_owner\<close>, \<open>_admin\<close>, \<open>_operator\<close>: the guards of the operator routes.\<close>

definition require :: "bool \<Rightarrow> ustr \<Rightarrow> unit checked" where
  "require b msg = (if b then Inr () else Inl (Forbidden msg))"

definition require_instance_owner :: "Instance_DB \<Rightarrow> ustr \<Rightarrow> unit checked" where
  "require_instance_owner d token = require (is_instance_owner d token)
     (lit ''this instance is owned by another browser: claim it with the [instance].owner_secret'')"

definition require_instance_admin :: "Instance_DB \<Rightarrow> ustr \<Rightarrow> ustr \<Rightarrow> unit checked" where
  "require_instance_admin d fingerprint token = require (admin_grant_exists d token fingerprint)
     (lit ''the administration surfaces take the [runtime].admin_user account, linked with its [runtime].admin_api key'')"

definition require_instance_operator :: "Instance_DB \<Rightarrow> ustr \<Rightarrow> ustr \<Rightarrow> unit checked" where
  "require_instance_operator d fingerprint token =
     require (if is_instance_owner d token then True else admin_grant_exists d token fingerprint)
     (lit ''starting work on this instance takes the instance claim or the [runtime].admin_user account linked with its [runtime].admin_api key'')"

section \<open>Secrets\<close>

text \<open>The comparison runs over the whole of both byte strings, or it has differing lengths.\<close>

definition secret_matches :: "8 word list \<Rightarrow> 8 word list \<Rightarrow> bool" where
  "secret_matches a b =
     (if length a \<noteq> length b then False
      else fold (\<lambda>(x, y) diff. or diff (xor x y)) (zip a b) 0 = 0)"

section \<open>Same origin\<close>

datatype Method = Get | Head | Options | Other_method

record Request =
  req_method :: Method
  sec_fetch_site :: "ustr option"
  origin :: "ustr option"
  host :: "ustr option"
  owner_cookie :: "ustr option"

definition debug_origins :: "ustr list" where
  "debug_origins = [lit ''http://localhost:8000'', lit ''http://127.0.0.1:8000'',
     lit ''http://localhost:8181'', lit ''http://127.0.0.1:8181'']"

definition origin_host :: "ustr \<Rightarrow> ustr option" where
  "origin_host og =
     (case (case strip_prefix (lit ''https://'') og of Some v \<Rightarrow> Some v
            | None \<Rightarrow> strip_prefix (lit ''http://'') og) of
        None \<Rightarrow> None
      | Some v \<Rightarrow> Some (hd (split_char 47 v)))"

definition csrf_origin_is_allowed :: "bool \<Rightarrow> Request \<Rightarrow> bool" where
  "csrf_origin_is_allowed debug req =
     (if (case sec_fetch_site req of None \<Rightarrow> False | Some s \<Rightarrow> eq_ignore_ascii_case s (lit ''cross-site''))
      then False
      else if req_method req \<in> {Get, Head, Options} then True
      else (case origin req of
              None \<Rightarrow> debug
            | Some og \<Rightarrow>
                if debug then og \<in> set debug_origins
                else (case origin_host og of None \<Rightarrow> False | Some h \<Rightarrow> host req = Some h)))"

section \<open>Revocation\<close>

definition OWNER_TOKEN_MAX_AGE_DAYS :: int where "OWNER_TOKEN_MAX_AGE_DAYS = 400"
definition REVOKED_TOKEN_RETENTION_SECS :: int where
  "REVOKED_TOKEN_RETENTION_SECS = (OWNER_TOKEN_MAX_AGE_DAYS + 10) * 86400"

record Revocations =
  revoked_tokens :: "(ustr \<times> int) list"
  revoked_set :: "ustr set"

definition revoke_token_in_db :: "ustr \<Rightarrow> int \<Rightarrow> Revocations \<Rightarrow> Revocations" where
  "revoke_token_in_db token now r =
     (if token \<in> fst ` set (revoked_tokens r) then r
      else r\<lparr>revoked_tokens := revoked_tokens r @ [(token, now)]\<rparr>)"

definition load_all_revoked_tokens :: "Revocations \<Rightarrow> ustr list" where
  "load_all_revoked_tokens r = map fst (revoked_tokens r)"

text \<open>A reload reads the table and then replaces the set; another request may run in between.\<close>

definition install_revocations :: "ustr list \<Rightarrow> Revocations \<Rightarrow> Revocations" where
  "install_revocations tokens r = r\<lparr>revoked_set := set tokens\<rparr>"

definition reload_revocation_set :: "Revocations \<Rightarrow> Revocations" where
  "reload_revocation_set r = install_revocations (load_all_revoked_tokens r) r"

definition revoke :: "ustr \<Rightarrow> int \<Rightarrow> Revocations \<Rightarrow> Revocations" where
  "revoke token now r = (let r1 = revoke_token_in_db token now r
     in r1\<lparr>revoked_set := insert token (revoked_set r1)\<rparr>)"

definition prune_revoked_tokens :: "int \<Rightarrow> int \<Rightarrow> Revocations \<Rightarrow> (nat \<times> nat) \<times> Revocations" where
  "prune_revoked_tokens retention_secs now r =
     (let cutoff = now - retention_secs; before = revoked_tokens r;
          kept = filter (\<lambda>(_, revoked_at). \<not> revoked_at < cutoff) before
      in ((length before, length kept), r\<lparr>revoked_tokens := kept\<rparr>))"

definition is_revoked :: "Revocations \<Rightarrow> ustr \<Rightarrow> bool" where
  "is_revoked r token \<longleftrightarrow> token \<in> revoked_set r"

section \<open>The owner token guard\<close>

datatype CookieChange = Keep_cookie | Clear_cookie | Refresh_cookie ustr

definition owner_guard :: "bool \<Rightarrow> Revocations \<Rightarrow> Request \<Rightarrow> ustr checked \<times> CookieChange" where
  "owner_guard debug r req =
     (case owner_cookie req of
        None \<Rightarrow> (Inl (Unauthorized (lit ''missing owner token'')), Keep_cookie)
      | Some token \<Rightarrow>
         (case validate_owner_token token of
            Inl e \<Rightarrow> (Inl e, Clear_cookie)
          | Inr _ \<Rightarrow>
              if \<not> csrf_origin_is_allowed debug req
              then (Inl (Forbidden (lit ''cross-origin state-changing request rejected'')), Keep_cookie)
              else if is_revoked r token
              then (Inl (Unauthorized (lit ''session revoked; please log in again'')), Clear_cookie)
              else (Inr token, Refresh_cookie token)))"

definition same_origin_guard :: "bool \<Rightarrow> Request \<Rightarrow> unit checked" where
  "same_origin_guard debug req =
     (if csrf_origin_is_allowed debug req then Inr ()
      else Inl (Forbidden (lit ''cross-origin state-changing request rejected'')))"

section \<open>Properties of the claim\<close>

fun claim_all :: "(ustr \<times> ClaimMethod \<times> int) list \<Rightarrow> Instance_DB \<Rightarrow> Instance_DB" where
  "claim_all [] d = d"
| "claim_all ((token, how, now) # cs) d = claim_all cs (snd (claim_instance token how now d))"

definition owner_of :: "Instance_DB \<Rightarrow> ustr option" where
  "owner_of d = map_option ic_owner_token (instance_ownership d)"

lemma owner_claim:
  "owner_of (snd (claim_instance token how now d)) =
     (if how = Secret \<or> owner_of d = None then Some token else owner_of d)"
  by (cases how) (auto simp: owner_of_def claim_instance_def split: option.split)

lemma claim_keeps:
  "accounts (snd (claim_instance token how now d)) = accounts d"
  "account_device_links (snd (claim_instance token how now d)) = account_device_links d"
  by (auto simp: claim_instance_def split: option.split ClaimMethod.split)

lemma claim_all_keeps:
  "accounts (claim_all cs d) = accounts d \<and> account_device_links (claim_all cs d) = account_device_links d"
  by (induction cs d rule: claim_all.induct) (simp_all add: claim_keeps)

text \<open>Who owns the instance after any sequence of claims: the last one to prove the secret;
  if nobody did, whoever owned it before, and otherwise the first to ask.  Claiming changes no
  account and no link.\<close>

theorem claims_decide_owner:
  "owner_of (claim_all cs d) =
     (case filter (\<lambda>(token, how, now). how = Secret) cs of
        [] \<Rightarrow> (case owner_of d of Some t \<Rightarrow> Some t
               | None \<Rightarrow> (case cs of [] \<Rightarrow> None | (token, how, now) # _ \<Rightarrow> Some token))
      | proofs \<Rightarrow> Some (fst (last proofs))) \<and>
   account_device_links (claim_all cs d) = account_device_links d \<and> accounts (claim_all cs d) = accounts d"
proof -
  have "owner_of (claim_all cs d) =
     (case filter (\<lambda>(token, how, now). how = Secret) cs of
        [] \<Rightarrow> (case owner_of d of Some t \<Rightarrow> Some t
               | None \<Rightarrow> (case cs of [] \<Rightarrow> None | (token, how, now) # _ \<Rightarrow> Some token))
      | proofs \<Rightarrow> Some (fst (last proofs)))"
  proof (induction cs d rule: claim_all.induct)
    case (2 token how now cs d)
    then show ?case by (cases how) (auto simp: owner_claim split: list.splits option.splits)
  qed (simp split: option.split)
  then show ?thesis using claim_all_keeps by blast
qed

text \<open>The three spellings of the scope agree: an account that exists may be addressed by a
  token exactly if it is among those visible to it; the console shows these and, with a grant
  under the current key, every account; and no grant survives a change of the key.\<close>

theorem scopes_agree:
  "(account \<in> set (accounts d) \<longrightarrow>
      (account \<in> VISIBLE_ACCOUNTS_SQL d token \<longleftrightarrow> may_address d token account)) \<and>
   VISIBLE_ACCOUNTS_SQL d token \<subseteq> console_accounts_sql d token key \<and>
   (admin_grant_exists d token key \<longrightarrow> \<not> admin_tier_available d key \<and>
      set (accounts d) \<subseteq> console_accounts_sql d token key) \<and>
   (admin_tier_available d key \<longrightarrow> require_instance_admin d key token \<noteq> Inr () \<and>
      console_accounts_sql d token key = VISIBLE_ACCOUNTS_SQL d token)"
  by (auto simp: VISIBLE_ACCOUNTS_SQL_def may_address_def console_accounts_sql_def list_ex_iff
      admin_grant_exists_def admin_tier_available_def require_instance_admin_def require_def)

definition demo_instance :: Instance_DB where
  "demo_instance = \<lparr>accounts = [1, 2],
     account_device_links = [\<lparr>dl_token = lit ''tok'', dl_account = 1, admin_granted_at = Some 3,
        admin_key_fingerprint = Some (lit ''k1'')\<rparr>],
     instance_ownership = None\<rparr>"

theorem scopes_agree_witness:
  "1 \<in> VISIBLE_ACCOUNTS_SQL demo_instance (lit ''tok'') \<and>
   2 \<in> console_accounts_sql demo_instance (lit ''tok'') (lit ''k1'') \<and>
   console_accounts_sql demo_instance (lit ''tok'') (lit ''k2'') = VISIBLE_ACCOUNTS_SQL demo_instance (lit ''tok'')"
proof -
  have "1 \<in> set (accounts demo_instance)" "2 \<in> set (accounts demo_instance)"
    "may_address demo_instance (lit ''tok'') 1"
    "admin_grant_exists demo_instance (lit ''tok'') (lit ''k1'')"
    "admin_tier_available demo_instance (lit ''k2'')"
    by (simp_all add: demo_instance_def may_address_def admin_grant_exists_def admin_tier_available_def)
  then show ?thesis
    using scopes_agree [of 1 demo_instance "lit ''tok''" "lit ''k1''"]
      scopes_agree [of 1 demo_instance "lit ''tok''" "lit ''k2''"] by blast
qed

section \<open>Properties of the guards\<close>

lemma or_zero_iff: "or a b = 0 \<longleftrightarrow> a = 0 \<and> b = 0" for a b :: "8 word"
  by (auto simp: bit_eq_iff bit_simps)

lemma xor_zero_iff: "xor a b = 0 \<longleftrightarrow> a = b" for a b :: "8 word"
  by (auto simp: bit_eq_iff bit_simps)

lemma fold_diff:
  "fold (\<lambda>(x, y) diff. or diff (xor x y)) ps d = 0 \<longleftrightarrow> d = 0 \<and> (\<forall>(x, y) \<in> set ps. x = y)"
  for d :: "8 word"
  by (induction ps arbitrary: d) (auto simp: or_zero_iff xor_zero_iff)

text \<open>The constant-time comparison of secrets decides equality.\<close>

theorem secret_matches_is_equality: "secret_matches a b \<longleftrightarrow> a = b"
proof (cases "length a = length b")
  case True
  have "(\<forall>(x, y) \<in> set (zip a b). x = y) \<longleftrightarrow> a = b"
    using True by (auto simp: list_eq_iff_nth_eq set_zip)
  then show ?thesis using True by (simp add: secret_matches_def fold_diff)
qed (auto simp: secret_matches_def)

text \<open>C18. A state-changing request that a release build lets through carries a well-formed owner
  token that is not revoked and comes from the page's own origin.\<close>

theorem guard_admits_first_party:
  assumes ok: "fst (owner_guard False r req) = Inr token" and unsafe: "req_method req = Other_method"
  shows "owner_cookie req = Some token \<and> good_token 16 128 token \<and> \<not> is_revoked r token \<and>
    (\<exists>og h. origin req = Some og \<and> origin_host og = Some h \<and> host req = Some h) \<and>
    snd (owner_guard False r req) = Refresh_cookie token"
  using ok unsafe owner_tokens.accepts [of token]
  by (auto simp: owner_guard_def csrf_origin_is_allowed_def split: option.splits sum.splits if_splits)

theorem guard_admits_first_party_witness:
  "good_token 16 128 (lit ''0123456789abcdef'')"
proof -
  let ?req = "\<lparr>req_method = Other_method, sec_fetch_site = None, origin = Some (lit ''https://a.b''),
     host = Some (lit ''a.b''), owner_cookie = Some (lit ''0123456789abcdef'')\<rparr>"
  let ?r = "\<lparr>revoked_tokens = [], revoked_set = {}\<rparr>"
  have "validate_owner_token (lit ''0123456789abcdef'') = Inr ()"
    by (simp add: validate_owner_token_def Let_def limit_defs utf8_width_def token_char_def char_class_defs)
  then have "fst (owner_guard False ?r ?req) = Inr (lit ''0123456789abcdef'')"
    by (simp add: owner_guard_def csrf_origin_is_allowed_def is_revoked_def origin_host_def
        strip_prefix_def starts_with_def)
  from guard_admits_first_party [OF this] show ?thesis by simp
qed

section \<open>Properties of the revocation list\<close>

text \<open>\<open>Prune_revocations\<close> is the step of the cache pruner: it reloads when rows went.\<close>

datatype RevocationOp = Revoke ustr | Reload_revocations | Prune_revocations

fun revocation_step :: "RevocationOp \<Rightarrow> int \<Rightarrow> Revocations \<Rightarrow> Revocations" where
  "revocation_step (Revoke token) now r = revoke token now r"
| "revocation_step Reload_revocations now r = reload_revocation_set r"
| "revocation_step Prune_revocations now r =
     (case prune_revoked_tokens REVOKED_TOKEN_RETENTION_SECS now r of
        ((before, after), r') \<Rightarrow> if before > after then reload_revocation_set r' else r')"

fun revocation_steps :: "(int \<times> RevocationOp) list \<Rightarrow> Revocations \<Rightarrow> Revocations" where
  "revocation_steps [] r = r"
| "revocation_steps ((now, op) # ops) r = revocation_steps ops (revocation_step op now r)"

definition denied_since :: "ustr \<Rightarrow> int \<Rightarrow> Revocations \<Rightarrow> bool" where
  "denied_since token t r \<longleftrightarrow> (token, t) \<in> set (revoked_tokens r) \<and> token \<in> revoked_set r"

lemma denied_since_step:
  assumes "denied_since token t r" "now \<le> t + REVOKED_TOKEN_RETENTION_SECS"
  shows "denied_since token t (revocation_step op now r)"
proof (cases op)
  case (Revoke x)
  then show ?thesis using assms by (auto simp: denied_since_def revoke_def revoke_token_in_db_def Let_def)
next
  case Reload_revocations
  then show ?thesis using assms
    by (auto simp: denied_since_def reload_revocation_set_def install_revocations_def
        load_all_revoked_tokens_def image_iff; force)
next
  case Prune_revocations
  then show ?thesis using assms
    by (auto simp: denied_since_def prune_revoked_tokens_def reload_revocation_set_def
        install_revocations_def load_all_revoked_tokens_def Let_def image_iff; force)
qed

lemma denied_since_steps:
  "denied_since token t r \<Longrightarrow> \<forall>(u, op) \<in> set ops. u \<le> t + REVOKED_TOKEN_RETENTION_SECS \<Longrightarrow>
     denied_since token t (revocation_steps ops r)"
  by (induction ops r rule: revocation_steps.induct) (auto intro: denied_since_step)

text \<open>A revoked token stays refused, through revocations, reloads and prunes, at least as
  long as any cookie that carries it can live.\<close>

theorem revoked_token_stays_refused:
  assumes new: "token \<notin> fst ` set (revoked_tokens r)"
    and ops: "\<forall>(u, op) \<in> set ops. u \<le> t + OWNER_TOKEN_MAX_AGE_DAYS * 86400"
  shows "fst (owner_guard debug (revocation_steps ops (revoke token t r))
      (req\<lparr>owner_cookie := Some token\<rparr>)) \<noteq> Inr token'"
proof -
  have "denied_since token t (revoke token t r)"
    using new by (simp add: denied_since_def revoke_def revoke_token_in_db_def Let_def)
  then have "denied_since token t (revocation_steps ops (revoke token t r))"
    using ops by (intro denied_since_steps)
      (auto simp: OWNER_TOKEN_MAX_AGE_DAYS_def REVOKED_TOKEN_RETENTION_SECS_def)
  then show ?thesis
    by (auto simp: owner_guard_def denied_since_def is_revoked_def split: sum.split)
qed

theorem revoked_token_stays_refused_witness:
  "fst (owner_guard True (revocation_steps [(10, Prune_revocations), (11, Revoke (lit ''u''))]
      (revoke (lit ''0123456789abcdef'') 5 \<lparr>revoked_tokens = [], revoked_set = {}\<rparr>))
      \<lparr>req_method = Get, sec_fetch_site = None, origin = None, host = None,
       owner_cookie = Some (lit ''0123456789abcdef'')\<rparr>) \<noteq> Inr (lit ''0123456789abcdef'')"
  using revoked_token_stays_refused [of "lit ''0123456789abcdef''" "\<lparr>revoked_tokens = [], revoked_set = {}\<rparr>"
      "[(10, Prune_revocations), (11, Revoke (lit ''u''))]" 5 True
      "\<lparr>req_method = Get, sec_fetch_site = None, origin = None, host = None, owner_cookie = None\<rparr>"]
  by (simp add: OWNER_TOKEN_MAX_AGE_DAYS_def)

text \<open>A reload reads the table before it locks the set: a token revoked in between is in the
  table and is accepted until the next reload.\<close>

theorem reload_can_forget_revocation:
  "let r = \<lparr>revoked_tokens = [], revoked_set = {}\<rparr>; tokens = load_all_revoked_tokens r;
       token = lit ''0123456789abcdef''; r' = install_revocations tokens (revoke token 5 r)
   in token \<in> fst ` set (revoked_tokens r') \<and>
      fst (owner_guard False r' \<lparr>req_method = Get, sec_fetch_site = None, origin = None, host = None,
        owner_cookie = Some token\<rparr>) = Inr token"
  by (simp add: load_all_revoked_tokens_def install_revocations_def revoke_def revoke_token_in_db_def
      owner_guard_def csrf_origin_is_allowed_def is_revoked_def validate_owner_token_def Let_def limit_defs
      utf8_width_def token_char_def char_class_defs and_then_def reject_def)

end
