(* ===== verification/Sessions.thy ===== *)
theory Sessions
  imports Timed_Table Text_Ops
begin

text \<open>
  Feed sessions, \<open>parser-api/src/db/sessions.rs\<close>: a session belongs to an account, expires
  after half an hour without use, and remembers which posts it was served.  Both tables have
  composite keys; stamps are instants in nanoseconds, stored by the code as text in one zone.
\<close>

record SessionRow =
  fs_created_at :: int
  last_accessed_at :: int

record SessionPostRow =
  sp_position :: int
  shown_at :: int

record Session_DB =
  feed_sessions :: "(ustr \<times> int, SessionRow) table"
  feed_session_posts :: "(int \<times> ustr \<times> int, SessionPostRow) table"

datatype FeedSessionState = Fresh_session | Active_session | Expired_session

definition FEED_SESSION_TTL_MIN :: int where "FEED_SESSION_TTL_MIN = 30"

text \<open>\<open>TimeDelta::num_minutes\<close> truncates towards zero.\<close>

definition num_minutes :: "int \<Rightarrow> int" where
  "num_minutes d = (if 0 \<le> d then d div (secs 60) else - ((- d) div (secs 60)))"

definition touch_or_create_feed_session :: "ustr \<Rightarrow> int \<Rightarrow> int \<Rightarrow> Session_DB \<Rightarrow> FeedSessionState \<times> Session_DB" where
  "touch_or_create_feed_session sid account now d =
     (case tbl_get (feed_sessions d) (sid, account) of
        None \<Rightarrow> (Fresh_session, d\<lparr>feed_sessions :=
            tbl_insert (sid, account) \<lparr>fs_created_at = now, last_accessed_at = now\<rparr> (feed_sessions d)\<rparr>)
      | Some r \<Rightarrow>
          if num_minutes (now - last_accessed_at r) > FEED_SESSION_TTL_MIN then (Expired_session, d)
          else (Active_session, d\<lparr>feed_sessions :=
            tbl_insert (sid, account) (r\<lparr>last_accessed_at := now\<rparr>) (feed_sessions d)\<rparr>))"

definition insert_session_post :: "ustr \<Rightarrow> int \<Rightarrow> int \<Rightarrow> int \<times> int \<Rightarrow> Session_DB \<Rightarrow> Session_DB" where
  "insert_session_post sid account now = (\<lambda>(post, pos) d.
     if tbl_get (feed_session_posts d) (account, sid, post) \<noteq> None then d
     else d\<lparr>feed_session_posts := tbl_insert (account, sid, post) \<lparr>sp_position = pos, shown_at = now\<rparr>
            (feed_session_posts d)\<rparr>)"

text \<open>The only error: the session is not this account's.\<close>

definition record_session_shown_posts ::
  "ustr \<Rightarrow> int \<Rightarrow> (int \<times> int) list \<Rightarrow> int \<Rightarrow> Session_DB \<Rightarrow> (ustr + unit) \<times> Session_DB" where
  "record_session_shown_posts sid account posts now d =
     (if posts = [] then (Inr (), d)
      else if tbl_get (feed_sessions d) (sid, account) = None
      then (Inl (lit ''session does not belong to this account''), d)
      else (Inr (), fold (insert_session_post sid account now) posts d))"

definition get_session_shown_post_ids :: "ustr \<Rightarrow> int \<Rightarrow> Session_DB \<Rightarrow> int set" where
  "get_session_shown_post_ids sid account d =
     set (map (\<lambda>((a, s, p), r). p) (filter (\<lambda>((a, s, p), r). a = account \<and> s = sid) (feed_session_posts d)))"

definition PRUNE_SESSION_POSTS_SQL :: "int \<Rightarrow> Session_DB \<Rightarrow> Session_DB" where
  "PRUNE_SESSION_POSTS_SQL cutoff d = d\<lparr>feed_session_posts :=
     filter (\<lambda>((a, s, p), r). case tbl_get (feed_sessions d) (s, a) of None \<Rightarrow> False
        | Some row \<Rightarrow> last_accessed_at row \<ge> cutoff) (feed_session_posts d)\<rparr>"

text \<open>Deleting a session cascades to its posts.\<close>

definition PRUNE_SESSIONS_SQL :: "int \<Rightarrow> Session_DB \<Rightarrow> nat \<times> Session_DB" where
  "PRUNE_SESSIONS_SQL cutoff d =
     (let kept = tbl_retain (\<lambda>_ row. \<not> last_accessed_at row < cutoff) (feed_sessions d)
      in (length (feed_sessions d) - length kept,
          d\<lparr>feed_sessions := kept,
            feed_session_posts := filter (\<lambda>((a, s, p), r).
              case tbl_get (feed_sessions d) (s, a) of None \<Rightarrow> True
              | Some row \<Rightarrow> \<not> last_accessed_at row < cutoff) (feed_session_posts d)\<rparr>))"

definition prune_expired_sessions :: "int \<Rightarrow> Session_DB \<Rightarrow> nat \<times> Session_DB" where
  "prune_expired_sessions now d =
     (let cutoff = now - secs (FEED_SESSION_TTL_MIN * 60)
      in PRUNE_SESSIONS_SQL cutoff (PRUNE_SESSION_POSTS_SQL cutoff d))"

section \<open>Lemmas\<close>

definition sessions_ok :: "Session_DB \<Rightarrow> bool" where
  "sessions_ok d \<longleftrightarrow> tbl_ok (feed_sessions d) \<and> tbl_ok (feed_session_posts d) \<and>
     (\<forall>((a, s, p), r) \<in> set (feed_session_posts d). tbl_get (feed_sessions d) (s, a) \<noteq> None)"

lemma shown_iff: "tbl_ok (feed_session_posts d) \<Longrightarrow>
    p \<in> get_session_shown_post_ids s a d \<longleftrightarrow> tbl_get (feed_session_posts d) (a, s, p) \<noteq> None"
  by (force simp: get_session_shown_post_ids_def tbl_get_Some image_iff)

lemma insert_post_get:
  "tbl_get (feed_session_posts (insert_session_post s a now (p, pos) d)) k =
     (if k = (a, s, p) \<and> tbl_get (feed_session_posts d) k = None then Some \<lparr>sp_position = pos, shown_at = now\<rparr>
      else tbl_get (feed_session_posts d) k)"
  by (auto simp: insert_session_post_def)

lemma insert_post_keeps [simp]:
  "feed_sessions (insert_session_post s a now x d) = feed_sessions d"
  "tbl_ok (feed_session_posts d) \<Longrightarrow> tbl_ok (feed_session_posts (insert_session_post s a now x d))"
  by (auto simp: insert_session_post_def split: prod.split)

lemma insert_posts_keeps [simp]:
  "feed_sessions (fold (insert_session_post s a now) xs d) = feed_sessions d"
  "tbl_ok (feed_session_posts d) \<Longrightarrow> tbl_ok (feed_session_posts (fold (insert_session_post s a now) xs d))"
  by (induction xs arbitrary: d) auto

lemma insert_posts_dom:
  "tbl_get (feed_session_posts (fold (insert_session_post s a now) xs d)) k \<noteq> None \<longleftrightarrow>
     tbl_get (feed_session_posts d) k \<noteq> None \<or> (\<exists>p \<in> fst ` set xs. k = (a, s, p))"
proof (induction xs arbitrary: d)
  case (Cons x xs)
  obtain p pos where x: "x = (p, pos)" by (cases x)
  show ?case unfolding fold.simps o_apply Cons.IH by (auto simp: x insert_post_get)
qed simp

lemma sessions_ok_touch: "sessions_ok d \<Longrightarrow> sessions_ok (snd (touch_or_create_feed_session s a now d))"
  by (auto simp: sessions_ok_def touch_or_create_feed_session_def split: option.split)

lemma sessions_ok_record: "sessions_ok d \<Longrightarrow> sessions_ok (snd (record_session_shown_posts s a ps now d))"
proof -
  assume ok: "sessions_ok d"
  have "sessions_ok (fold (insert_session_post s a now) ps d)" if "tbl_get (feed_sessions d) (s, a) \<noteq> None"
  proof -
    let ?d = "fold (insert_session_post s a now) ps d"
    have "tbl_get (feed_sessions d) (s', a') \<noteq> None" if "((a', s', p), r) \<in> set (feed_session_posts ?d)" for a' s' p r
    proof -
      have "tbl_get (feed_session_posts ?d) (a', s', p) \<noteq> None"
        using that ok by (auto simp: sessions_ok_def tbl_get_Some [symmetric])
      then consider "tbl_get (feed_session_posts d) (a', s', p) \<noteq> None" | "a' = a" "s' = s"
        unfolding insert_posts_dom by blast
      then show ?thesis
        using ok \<open>tbl_get (feed_sessions d) (s, a) \<noteq> None\<close>
        by cases (fastforce simp: sessions_ok_def tbl_get_Some)+
    qed
    then show ?thesis using ok by (fastforce simp: sessions_ok_def)
  qed
  then show ?thesis using ok by (simp add: record_session_shown_posts_def)
qed

lemma sessions_ok_prune: "sessions_ok d \<Longrightarrow> sessions_ok (snd (prune_expired_sessions now d))"
  by (fastforce simp: sessions_ok_def prune_expired_sessions_def PRUNE_SESSIONS_SQL_def
      PRUNE_SESSION_POSTS_SQL_def Let_def tbl_get_retain split: option.splits)

section \<open>Properties\<close>

definition idle_session :: Session_DB where
  "idle_session = snd (touch_or_create_feed_session (lit ''s'') 1 0 \<lparr>feed_sessions = [], feed_session_posts = []\<rparr>)"

lemma idle_session_ok: "sessions_ok idle_session"
  unfolding idle_session_def by (rule sessions_ok_touch) (simp add: sessions_ok_def)

lemma idle_session_row:
  "tbl_get (feed_sessions idle_session) (lit ''s'', 1) = Some \<lparr>fs_created_at = 0, last_accessed_at = 0\<rparr>"
  "get_session_shown_post_ids s a idle_session = {}"
  by (simp_all add: idle_session_def touch_or_create_feed_session_def get_session_shown_post_ids_def)

text \<open>What a session was served is kept per account: recording adds the posts to the set of
  that session of that account and touches no other, and a session that is not the account's is
  refused.\<close>

theorem session_posts_scoped:
  assumes ok: "sessions_ok d"
  shows "(case record_session_shown_posts s a posts now d of
      (Inl e, d') \<Rightarrow> d' = d \<and> tbl_get (feed_sessions d) (s, a) = None
    | (Inr _, d') \<Rightarrow>
        get_session_shown_post_ids s a d' = get_session_shown_post_ids s a d \<union> fst ` set posts \<and>
        (\<forall>s' a'. (s', a') \<noteq> (s, a) \<longrightarrow>
          get_session_shown_post_ids s' a' d' = get_session_shown_post_ids s' a' d))"
proof -
  let ?d = "fold (insert_session_post s a now) posts d"
  have t: "tbl_ok (feed_session_posts d)" "tbl_ok (feed_session_posts ?d)"
    using ok by (simp_all add: sessions_ok_def)
  have "p \<in> get_session_shown_post_ids s' a' ?d \<longleftrightarrow>
      p \<in> get_session_shown_post_ids s' a' d \<or> ((s', a') = (s, a) \<and> p \<in> fst ` set posts)" for p s' a'
    unfolding shown_iff [OF t(1)] shown_iff [OF t(2)] insert_posts_dom by auto
  then show ?thesis by (auto simp: record_session_shown_posts_def)
qed

theorem session_posts_scoped_witness:
  "let d' = snd (record_session_shown_posts (lit ''s'') 1 [(7, 0)] 5 idle_session)
   in get_session_shown_post_ids (lit ''s'') 1 d' = {7} \<and> get_session_shown_post_ids (lit ''s'') 2 d' = {}"
proof -
  have "fst (record_session_shown_posts (lit ''s'') 1 [(7, 0)] 5 idle_session) = Inr ()"
    by (simp only: record_session_shown_posts_def idle_session_row) simp
  then show ?thesis
    using session_posts_scoped [OF idle_session_ok, of "lit ''s''" 1 "[(7, 0)]" 5]
    by (auto simp: idle_session_row simp del: lit_simps split: prod.splits)
qed

lemma num_minutes_mono: "a \<le> b \<Longrightarrow> num_minutes a \<le> num_minutes b"
proof -
  assume le: "a \<le> b"
  have s: "0 < secs 60" by (simp add: secs_def)
  consider "0 \<le> a" | "a < 0" "0 \<le> b" | "b < 0" using le by linarith
  then show ?thesis
  proof cases
    case 1
    then show ?thesis using le s by (simp add: num_minutes_def zdiv_mono1)
  next
    case 2
    then have "0 \<le> (- a) div secs 60" "0 \<le> b div secs 60" using s by (simp_all add: pos_imp_zdiv_nonneg_iff)
    then show ?thesis using 2 by (simp add: num_minutes_def)
  next
    case 3
    then show ?thesis using le s by (simp add: num_minutes_def zdiv_mono1)
  qed
qed

text \<open>An expired session is not revived: a touch leaves it as it is, every later touch finds
  it expired, and once it is pruned the next touch starts afresh with nothing served.\<close>

theorem expired_session_stays_expired:
  assumes ok: "sessions_ok d" and exp: "touch_or_create_feed_session s a now d = (Expired_session, d')"
    and later: "now \<le> now'"
  shows "d' = d \<and> touch_or_create_feed_session s a now' d' = (Expired_session, d') \<and>
    (let pruned = snd (prune_expired_sessions now' d')
     in fst (touch_or_create_feed_session s a now' pruned) = Fresh_session \<and>
        get_session_shown_post_ids s a pruned = {})"
proof -
  obtain r where r: "tbl_get (feed_sessions d) (s, a) = Some r"
      and old: "num_minutes (now - last_accessed_at r) > 30" and d': "d' = d"
    using exp by (auto simp: touch_or_create_feed_session_def FEED_SESSION_TTL_MIN_def split: option.splits if_splits)
  have old': "num_minutes (now' - last_accessed_at r) > 30"
    using old num_minutes_mono [of "now - last_accessed_at r" "now' - last_accessed_at r"] later by linarith
  then have stale: "last_accessed_at r < now' - secs (FEED_SESSION_TTL_MIN * 60)"
    by (auto simp: num_minutes_def FEED_SESSION_TTL_MIN_def secs_def split: if_splits)
  have t: "tbl_ok (feed_sessions d)" using ok by (simp add: sessions_ok_def)
  have gone: "tbl_get (feed_sessions (snd (prune_expired_sessions now' d))) (s, a) = None"
    using stale r t by (simp add: prune_expired_sessions_def PRUNE_SESSIONS_SQL_def PRUNE_SESSION_POSTS_SQL_def
        Let_def tbl_get_retain)
  have "get_session_shown_post_ids s a (snd (prune_expired_sessions now' d)) = {}"
    using sessions_ok_prune [OF ok, of now'] gone
    by (fastforce simp: get_session_shown_post_ids_def sessions_ok_def)
  then show ?thesis using gone r old' d'
    by (simp add: touch_or_create_feed_session_def FEED_SESSION_TTL_MIN_def Let_def)
qed

theorem expired_session_stays_expired_witness:
  "fst (touch_or_create_feed_session (lit ''s'') 1 (secs 3600)
      (snd (prune_expired_sessions (secs 3600) idle_session))) = Fresh_session"
proof -
  have "touch_or_create_feed_session (lit ''s'') 1 (secs 3600) idle_session = (Expired_session, idle_session)"
    by (simp add: idle_session_def touch_or_create_feed_session_def num_minutes_def FEED_SESSION_TTL_MIN_def secs_def)
  from expired_session_stays_expired [OF idle_session_ok this, of "secs 3600"] show ?thesis by (simp add: Let_def)
qed

text \<open>The two readings of the half hour differ by up to a minute: a session idle for thirty
  and a half minutes is active for a request and expired for the prune, which drops what it was
  served.\<close>

theorem session_ttl_readings_differ:
  "fst (touch_or_create_feed_session (lit ''s'') 1 (secs 1830) idle_session) = Active_session \<and>
   fst (prune_expired_sessions (secs 1830) idle_session) = 1"
  by (simp add: idle_session_def touch_or_create_feed_session_def num_minutes_def FEED_SESSION_TTL_MIN_def
      secs_def prune_expired_sessions_def PRUNE_SESSIONS_SQL_def PRUNE_SESSION_POSTS_SQL_def Let_def
      tbl_insert_def tbl_retain_def tbl_get_def)

end
