(* ===== verification/Feed_Tables.thy ===== *)
theory Feed_Tables
  imports Posts Hydrate_Cache Access Sessions
begin

text \<open>
  The interaction tables and their statements, \<open>parser-api/src/db/feed.rs\<close>.  A table with a
  primary key is an association list with distinct keys; \<open>feed_interactions\<close>, whose key is an
  autoincremented id, is the list of its rows in the order of their ids.  The statements
  follow SQLite: \<open>INSERT OR IGNORE\<close> skips a row that breaks a \<open>CHECK\<close> or a \<open>UNIQUE\<close>
  constraint and reports a broken foreign key as an error.

  Stamps are instants in nanoseconds.  The code stores them with \<open>to_rfc3339\<close>, always in UTC,
  whose texts compare like the instants.  Disk and I/O errors are not modelled.
\<close>

section \<open>Rows and tables\<close>

record InteractionRow =
  ir_account :: int
  ir_post :: int
  ir_event :: ustr
  ir_position :: int
  ir_session :: ustr
  ir_created_at :: int

record ShownRow =
  first_shown_at :: int
  last_shown_at :: int
  shown_count :: int

record FeedbackRow =
  impression_count :: int
  positive_count :: int
  negative_count :: int
  last_interaction_at :: int
  last_decayed_at :: int

record Feed_DB =
  instance_db :: Instance_DB
  session_db :: Session_DB
  posts :: "int list"
  post_tags :: "int \<Rightarrow> (ustr \<times> ustr) list"
  accounts_post :: "(int \<times> int) list"
  feed_interactions :: "InteractionRow list"
  feed_shown_posts :: "(int \<times> int, ShownRow) table"
  account_tag_feedback :: "(int \<times> ustr \<times> ustr, FeedbackRow) table"

datatype FeedError =
    NotInScope
  | AccountNotInScope int
  | ForeignKeyFailed

section \<open>Statements\<close>

text \<open>The event types the \<open>CHECK\<close> of the table admits.\<close>

definition event_checked :: "ustr \<Rightarrow> bool" where
  "event_checked e \<longleftrightarrow> e \<in> set [lit ''qualified_impression'', lit ''open'', lit ''like'',
     lit ''strong_like'', lit ''hide'']"

abbreviation same_key :: "InteractionRow \<Rightarrow> InteractionRow \<Rightarrow> bool" where
  "same_key r q \<equiv> ir_account q = ir_account r \<and> ir_post q = ir_post r \<and>
     ir_event q = ir_event r \<and> ir_session q = ir_session r"

definition insert_interaction :: "InteractionRow \<Rightarrow> Feed_DB \<Rightarrow> FeedError + (bool \<times> Feed_DB)" where
  "insert_interaction r d =
     (if \<not> event_checked (ir_event r) \<or> list_ex (same_key r) (feed_interactions d)
      then Inr (False, d)
      else if \<not> (ir_account r \<in> set (accounts (instance_db d)) \<and> ir_post r \<in> set (posts d))
      then Inl ForeignKeyFailed
      else Inr (True, d\<lparr>feed_interactions := feed_interactions d @ [r]\<rparr>))"

fun event_deltas :: "FeedInteractionType \<Rightarrow> int \<times> int \<times> int" where
  "event_deltas QualifiedImpression = (1, 0, 0)"
| "event_deltas Open = (0, 1, 0)"
| "event_deltas Unknown = (0, 0, 0)"

text \<open>The upsert into \<open>account_tag_feedback\<close>, one row per tag of the post.\<close>

definition add_feedback ::
  "int \<Rightarrow> int \<times> int \<times> int \<Rightarrow> int \<Rightarrow> ustr \<times> ustr \<Rightarrow>
     (int \<times> ustr \<times> ustr, FeedbackRow) table \<Rightarrow> (int \<times> ustr \<times> ustr, FeedbackRow) table" where
  "add_feedback account deltas now tag t =
     (case deltas of (i, p, n) \<Rightarrow>
       (case tbl_get t (account, tag) of
          None \<Rightarrow> tbl_insert (account, tag)
            \<lparr>impression_count = i, positive_count = p, negative_count = n,
             last_interaction_at = now, last_decayed_at = now\<rparr> t
        | Some r \<Rightarrow> tbl_insert (account, tag)
            \<lparr>impression_count = impression_count r + i, positive_count = positive_count r + p,
             negative_count = negative_count r + n,
             last_interaction_at = now, last_decayed_at = now\<rparr> t))"

definition update_feedback :: "int \<Rightarrow> int \<times> int \<times> int \<Rightarrow> int \<Rightarrow> int \<Rightarrow> Feed_DB \<Rightarrow> Feed_DB" where
  "update_feedback account deltas now post d =
     d\<lparr>account_tag_feedback :=
        fold (add_feedback account deltas now) (post_tags d post) (account_tag_feedback d)\<rparr>"

text \<open>The reversal: by tag name alone, whatever the group.\<close>

definition reverse_feedback :: "int \<Rightarrow> int \<times> int \<times> int \<Rightarrow> int \<Rightarrow> int \<Rightarrow> Feed_DB \<Rightarrow> Feed_DB" where
  "reverse_feedback account deltas now post d =
     (case deltas of (i, p, n) \<Rightarrow>
       d\<lparr>account_tag_feedback :=
          map (\<lambda>((a, name, group), r).
                 ((a, name, group),
                  if a = account \<and> name \<in> fst ` set (post_tags d post)
                  then r\<lparr>impression_count := max 0 (impression_count r - i),
                         positive_count := max 0 (positive_count r - p),
                         negative_count := max 0 (negative_count r - n),
                         last_interaction_at := now\<rparr>
                  else r)) (account_tag_feedback d)\<rparr>)"

definition upsert_shown_post :: "int \<Rightarrow> int \<Rightarrow> int \<Rightarrow> Feed_DB \<Rightarrow> FeedError + Feed_DB" where
  "upsert_shown_post account now post d =
     (case tbl_get (feed_shown_posts d) (account, post) of
        Some r \<Rightarrow> Inr (d\<lparr>feed_shown_posts := tbl_insert (account, post)
           (r\<lparr>last_shown_at := now, shown_count := shown_count r + 1\<rparr>) (feed_shown_posts d)\<rparr>)
      | None \<Rightarrow>
          if account \<in> set (accounts (instance_db d))
          then Inr (d\<lparr>feed_shown_posts := tbl_insert (account, post)
             \<lparr>first_shown_at = now, last_shown_at = now, shown_count = 1\<rparr> (feed_shown_posts d)\<rparr>)
          else Inl ForeignKeyFailed)"

text \<open>Returns the number of rows written.\<close>

fun upsert_shown_posts :: "int \<Rightarrow> int list \<Rightarrow> int \<Rightarrow> Feed_DB \<Rightarrow> FeedError + (nat \<times> Feed_DB)" where
  "upsert_shown_posts account [] now d = Inr (0, d)"
| "upsert_shown_posts account (p # ps) now d =
     (case upsert_shown_post account now p d of
        Inl e \<Rightarrow> Inl e
      | Inr d1 \<Rightarrow>
          (case upsert_shown_posts account ps now d1 of
             Inl e \<Rightarrow> Inl e
           | Inr (n, d2) \<Rightarrow> Inr (Suc n, d2)))"

text \<open>\<open>SEEN_POST_IDS_SQL\<close>.\<close>

definition seen_event :: "ustr \<Rightarrow> bool" where
  "seen_event e \<longleftrightarrow> e \<in> set [lit ''qualified_impression'', lit ''hide'', lit ''open'']"

definition SEEN_POST_IDS_SQL :: "Feed_DB \<Rightarrow> int \<Rightarrow> int \<Rightarrow> int set" where
  "SEEN_POST_IDS_SQL d account cutoff =
     set (map ir_post (filter (\<lambda>r. ir_account r = account \<and> seen_event (ir_event r) \<and>
            ir_created_at r \<ge> cutoff) (feed_interactions d)))
     \<union> set (map (snd \<circ> fst) (filter (\<lambda>((a, p), r). a = account \<and> last_shown_at r \<ge> cutoff)
            (feed_shown_posts d)))"

definition days_ns :: "int \<Rightarrow> int" where
  "days_ns n = secs (n * 86400)"

definition LONG_TERM_DEDUP_DAYS :: int where "LONG_TERM_DEDUP_DAYS = 60"
definition SHOWN_RETENTION_DAYS :: int where "SHOWN_RETENTION_DAYS = 90"

definition seen_cutoff :: "int \<Rightarrow> int \<Rightarrow> int" where
  "seen_cutoff now days = now - days_ns (max days 1)"

section \<open>Lemmas on the statements\<close>

lemma seen_mono_cutoff: "c \<le> c' \<Longrightarrow> SEEN_POST_IDS_SQL d a c' \<subseteq> SEEN_POST_IDS_SQL d a c"
  by (force simp: SEEN_POST_IDS_SQL_def)

lemma seen_cutoff_mono: "now \<le> now' \<Longrightarrow> seen_cutoff now n \<le> seen_cutoff now' n"
  by (simp add: seen_cutoff_def)

lemma insert_interaction_new:
  "insert_interaction r d = Inr (True, d') \<longleftrightarrow>
     event_checked (ir_event r) \<and> \<not> list_ex (same_key r) (feed_interactions d) \<and>
     ir_account r \<in> set (accounts (instance_db d)) \<and> ir_post r \<in> set (posts d) \<and>
     d' = d\<lparr>feed_interactions := feed_interactions d @ [r]\<rparr>"
  by (auto simp: insert_interaction_def)

lemma insert_interaction_dup:
  "insert_interaction r d = Inr (False, d') \<longleftrightarrow>
     d' = d \<and> (\<not> event_checked (ir_event r) \<or> list_ex (same_key r) (feed_interactions d))"
  by (auto simp: insert_interaction_def)

lemma update_feedback_simps [simp]:
  "instance_db (update_feedback a \<delta> now p d) = instance_db d"
  "session_db (update_feedback a \<delta> now p d) = session_db d"
  "posts (update_feedback a \<delta> now p d) = posts d"
  "post_tags (update_feedback a \<delta> now p d) = post_tags d"
  "accounts_post (update_feedback a \<delta> now p d) = accounts_post d"
  "feed_interactions (update_feedback a \<delta> now p d) = feed_interactions d"
  "feed_shown_posts (update_feedback a \<delta> now p d) = feed_shown_posts d"
  by (simp_all add: update_feedback_def)

lemma reverse_feedback_simps [simp]:
  "instance_db (reverse_feedback a \<delta> now p d) = instance_db d"
  "posts (reverse_feedback a \<delta> now p d) = posts d"
  "post_tags (reverse_feedback a \<delta> now p d) = post_tags d"
  "feed_interactions (reverse_feedback a \<delta> now p d) = feed_interactions d"
  "feed_shown_posts (reverse_feedback a \<delta> now p d) = feed_shown_posts d"
  by (simp_all add: reverse_feedback_def split: prod.split)

lemma upsert_shown_post_keeps:
  assumes "upsert_shown_post a now p d = Inr d'"
  shows "\<exists>t. d' = d\<lparr>feed_shown_posts := t\<rparr>"
  using assms by (auto simp: upsert_shown_post_def split: option.splits if_splits)

lemma upsert_shown_posts_keeps:
  "upsert_shown_posts a ps now d = Inr (n, d') \<Longrightarrow> \<exists>t. d' = d\<lparr>feed_shown_posts := t\<rparr>"
proof (induction ps arbitrary: d n)
  case Nil
  then show ?case by (auto intro: exI [of _ "feed_shown_posts d"])
next
  case (Cons p ps)
  from Cons.prems obtain d1 n1 where
    "upsert_shown_post a now p d = Inr d1" "upsert_shown_posts a ps now d1 = Inr (n1, d')"
    by (auto split: sum.splits)
  then show ?case using Cons.IH upsert_shown_post_keeps by fastforce
qed

lemma tbl_ok_feedback: "tbl_ok t \<Longrightarrow> tbl_ok (add_feedback a \<delta> now g t)"
  by (simp add: add_feedback_def split: prod.split option.split)

text \<open>What the seen statement reads of the exposure registry.\<close>

definition shown_since :: "Feed_DB \<Rightarrow> int \<Rightarrow> int \<Rightarrow> int set" where
  "shown_since d a c = {p. \<exists>r. ((a, p), r) \<in> set (feed_shown_posts d) \<and> c \<le> last_shown_at r}"

definition interacted_since :: "Feed_DB \<Rightarrow> int \<Rightarrow> int \<Rightarrow> int set" where
  "interacted_since d a c = {p. \<exists>r \<in> set (feed_interactions d). ir_account r = a \<and> ir_post r = p \<and>
      seen_event (ir_event r) \<and> c \<le> ir_created_at r}"

lemma seen_iff: "SEEN_POST_IDS_SQL d a c = interacted_since d a c \<union> shown_since d a c"
  by (auto simp: SEEN_POST_IDS_SQL_def interacted_since_def shown_since_def image_iff; force)

lemma shown_upsert:
  assumes ok: "tbl_ok (feed_shown_posts d)" and up: "upsert_shown_post a now p d = Inr d'"
  shows "tbl_ok (feed_shown_posts d')"
    and "c \<le> now \<Longrightarrow> shown_since d' b c = (if b = a then insert p (shown_since d b c) else shown_since d b c)"
proof -
  obtain r where r: "feed_shown_posts d' = tbl_insert (a, p) r (feed_shown_posts d)"
      "last_shown_at r = now"
    using up by (auto simp: upsert_shown_post_def split: option.splits if_splits)
  show ok': "tbl_ok (feed_shown_posts d')" using r ok by simp
  show "shown_since d' b c = (if b = a then insert p (shown_since d b c) else shown_since d b c)"
    if "c \<le> now"
    using r that ok by (auto simp: shown_since_def tbl_get_Some [symmetric] split: if_splits)
qed

lemma shown_upserts:
  "tbl_ok (feed_shown_posts d) \<Longrightarrow> upsert_shown_posts a ps now d = Inr (n, d') \<Longrightarrow>
     tbl_ok (feed_shown_posts d') \<and>
     (c \<le> now \<longrightarrow> shown_since d' b c = (if b = a then set ps else {}) \<union> shown_since d b c)"
proof (induction ps arbitrary: d n)
  case (Cons p ps)
  from Cons.prems obtain d1 n1 where
    s: "upsert_shown_post a now p d = Inr d1" "upsert_shown_posts a ps now d1 = Inr (n1, d')"
    by (auto split: sum.splits)
  show ?case
    using Cons.IH [OF shown_upsert(1) [OF Cons.prems(1) s(1)] s(2)]
      shown_upsert(2) [OF Cons.prems(1) s(1)] by auto
qed auto

end
