(* ===== verification/Feed_Seen.thy ===== *)
theory Feed_Seen
  imports Feed_Tables
begin

text \<open>
  The operations of \<open>parser-api/src/db/feed.rs\<close> on the interaction tables and on the seen
  caches.  A write runs in one transaction: an error leaves the tables as they were, and the
  caches are touched only after the commit.  An operation takes the instant at which it runs;
  it is one step, as if no other request ran between its table access and its cache access.
\<close>

record FeedState =
  db :: Feed_DB
  caches :: HydrateCaches

definition row_of :: "FeedInteractionRequest \<Rightarrow> int \<Rightarrow> InteractionRow" where
  "row_of i now = \<lparr>ir_account = fi_account_id i, ir_post = fi_post_id i,
     ir_event = event_type_text (event_type i), ir_position = position i,
     ir_session = session_id i, ir_created_at = now\<rparr>"

definition merge_seen :: "int \<Rightarrow> int \<Rightarrow> int list \<Rightarrow> HydrateCaches \<Rightarrow> HydrateCaches" where
  "merge_seen now account ids c = merge_long_term_seen (merge_recent_seen c now account ids) now account ids"

definition record_tx :: "ustr \<Rightarrow> FeedInteractionRequest \<Rightarrow> int \<Rightarrow> Feed_DB \<Rightarrow> FeedError + (bool \<times> Feed_DB)" where
  "record_tx owner_token i now d =
     (if \<not> may_address (instance_db d) owner_token (fi_account_id i) then Inl NotInScope
      else (case insert_interaction (row_of i now) d of
              Inl e \<Rightarrow> Inl e
            | Inr (inserted, d1) \<Rightarrow>
                if inserted
                then (case upsert_shown_posts (fi_account_id i) [fi_post_id i] now d1 of
                        Inl e \<Rightarrow> Inl e
                      | Inr (_, d2) \<Rightarrow>
                          Inr (True, update_feedback (fi_account_id i) (event_deltas (event_type i))
                                 now (fi_post_id i) d2))
                else Inr (False, d1)))"

definition record_feed_interaction ::
  "ustr \<Rightarrow> FeedInteractionRequest \<Rightarrow> int \<Rightarrow> FeedState \<Rightarrow> (FeedError + unit) \<times> FeedState" where
  "record_feed_interaction owner_token i now s =
     (case record_tx owner_token i now (db s) of
        Inl e \<Rightarrow> (Inl e, s)
      | Inr (new_row, d) \<Rightarrow>
          (Inr (), s\<lparr>db := d,
             caches := if new_row then merge_seen now (fi_account_id i) [fi_post_id i] (caches s)
                       else caches s\<rparr>))"

definition remove_tx :: "ustr \<Rightarrow> FeedInteractionRequest \<Rightarrow> int \<Rightarrow> Feed_DB \<Rightarrow> FeedError + (bool \<times> Feed_DB)" where
  "remove_tx owner_token i now d =
     (if \<not> may_address (instance_db d) owner_token (fi_account_id i) then Inl NotInScope
      else let kept = filter (\<lambda>r. \<not> same_key (row_of i now) r) (feed_interactions d);
               n_deleted = length (feed_interactions d) - length kept
           in if n_deleted = 0 then Inr (False, d)
              else let d1 = reverse_feedback (fi_account_id i) (event_deltas (event_type i)) now
                              (fi_post_id i) (d\<lparr>feed_interactions := kept\<rparr>)
                   in Inr (True, d1\<lparr>feed_shown_posts :=
                        tbl_remove (fi_account_id i, fi_post_id i) (feed_shown_posts d1)\<rparr>))"

definition remove_feed_interaction ::
  "ustr \<Rightarrow> FeedInteractionRequest \<Rightarrow> int \<Rightarrow> FeedState \<Rightarrow> (FeedError + bool) \<times> FeedState" where
  "remove_feed_interaction owner_token i now s =
     (case remove_tx owner_token i now (db s) of
        Inl e \<Rightarrow> (Inl e, s)
      | Inr (removed, d) \<Rightarrow>
          (Inr removed, s\<lparr>db := d,
             caches := if removed then clear_seen (caches s) (fi_account_id i) else caches s\<rparr>))"

definition clear_sessions :: "int \<Rightarrow> Session_DB \<Rightarrow> Session_DB" where
  "clear_sessions account d =
     d\<lparr>feed_session_posts := filter (\<lambda>((a, _, _), _). a \<noteq> account) (feed_session_posts d),
       feed_sessions := filter (\<lambda>((_, a), _). a \<noteq> account) (feed_sessions d)\<rparr>"

definition clear_tx :: "ustr \<Rightarrow> int \<Rightarrow> Feed_DB \<Rightarrow> FeedError + (nat \<times> Feed_DB)" where
  "clear_tx owner_token account d =
     (if \<not> may_address (instance_db d) owner_token account then Inl NotInScope
      else let kept = filter (\<lambda>r. ir_account r \<noteq> account) (feed_interactions d)
           in Inr (length (feed_interactions d) - length kept,
                d\<lparr>feed_interactions := kept,
                  account_tag_feedback := tbl_retain (\<lambda>(a, _) _. a \<noteq> account) (account_tag_feedback d),
                  session_db := clear_sessions account (session_db d),
                  feed_shown_posts := tbl_retain (\<lambda>(a, _) _. a \<noteq> account) (feed_shown_posts d)\<rparr>))"

definition clear_feed_interactions :: "ustr \<Rightarrow> int \<Rightarrow> FeedState \<Rightarrow> (FeedError + nat) \<times> FeedState" where
  "clear_feed_interactions owner_token account s =
     (case clear_tx owner_token account (db s) of
        Inl e \<Rightarrow> (Inl e, s)
      | Inr (n_deleted, d) \<Rightarrow> (Inr n_deleted, s\<lparr>db := d, caches := clear_seen (caches s) account\<rparr>))"

section \<open>Batches\<close>

record RecordedBatch =
  recorded :: "ustr list"
  exposures :: nat

text \<open>
  \<open>newly_seen\<close>: the posts of the rows written, per account.  The code iterates this hash map
  in an order of its own; here accounts come in the order of their first row.
\<close>

type_synonym seen_by = "(int, int list) table"

definition push_seen :: "int \<Rightarrow> int \<Rightarrow> seen_by \<Rightarrow> seen_by" where
  "push_seen account post m =
     tbl_insert account ((case tbl_get m account of None \<Rightarrow> [] | Some ps \<Rightarrow> ps) @ [post]) m"

fun batch_rows ::
  "FeedInteractionRequest list \<Rightarrow> int \<Rightarrow> Feed_DB \<Rightarrow> ustr list \<Rightarrow> seen_by \<Rightarrow>
     FeedError + (ustr list \<times> seen_by \<times> Feed_DB)" where
  "batch_rows [] now d events seen = Inr (events, seen, d)"
| "batch_rows (i # is) now d events seen =
     (case insert_interaction (row_of i now) d of
        Inl e \<Rightarrow> Inl e
      | Inr (inserted, d1) \<Rightarrow>
          if inserted
          then batch_rows is now
                 (update_feedback (fi_account_id i) (event_deltas (event_type i)) now (fi_post_id i) d1)
                 (events @ [event_type_text (event_type i)])
                 (push_seen (fi_account_id i) (fi_post_id i) seen)
          else batch_rows is now d1 events seen)"

fun batch_exposures :: "seen_by \<Rightarrow> int \<Rightarrow> Feed_DB \<Rightarrow> nat \<Rightarrow> FeedError + (nat \<times> Feed_DB)" where
  "batch_exposures [] now d n = Inr (n, d)"
| "batch_exposures ((account, ps) # m) now d n =
     (case upsert_shown_posts account ps now d of
        Inl e \<Rightarrow> Inl e
      | Inr (k, d1) \<Rightarrow> batch_exposures m now d1 (n + k))"

definition batch_tx ::
  "ustr \<Rightarrow> FeedInteractionRequest list \<Rightarrow> int \<Rightarrow> Feed_DB \<Rightarrow>
     FeedError + (ustr list \<times> seen_by \<times> nat \<times> Feed_DB)" where
  "batch_tx owner_token is now d =
     (case List.find (\<lambda>a. \<not> may_address (instance_db d) owner_token a) (remdups (map fi_account_id is)) of
        Some a \<Rightarrow> Inl (AccountNotInScope a)
      | None \<Rightarrow>
          (case batch_rows is now d [] [] of
             Inl e \<Rightarrow> Inl e
           | Inr (events, seen, d1) \<Rightarrow>
               (case batch_exposures seen now d1 0 of
                  Inl e \<Rightarrow> Inl e
                | Inr (n, d2) \<Rightarrow> Inr (events, seen, n, d2))))"

definition record_feed_interactions_batch ::
  "ustr \<Rightarrow> FeedInteractionRequest list \<Rightarrow> int \<Rightarrow> FeedState \<Rightarrow> (FeedError + RecordedBatch) \<times> FeedState" where
  "record_feed_interactions_batch owner_token is now s =
     (if is = [] then (Inr \<lparr>recorded = [], exposures = 0\<rparr>, s)
      else (case batch_tx owner_token is now (db s) of
              Inl e \<Rightarrow> (Inl e, s)
            | Inr (events, seen, n, d) \<Rightarrow>
                (Inr \<lparr>recorded = events, exposures = n\<rparr>,
                 s\<lparr>db := d,
                   caches := fold (\<lambda>(account, ps). merge_seen now account ps) seen (caches s)\<rparr>)))"

section \<open>Restore, prune\<close>

definition INTERACTION_RESTORE_SESSION :: ustr where
  "INTERACTION_RESTORE_SESSION = lit ''import-restore''"

record InteractionHistoryItem =
  hi_post_id :: int
  hi_event_type :: FeedInteractionType
  hi_position :: int
  hi_created_at :: "int option"

definition restore_row :: "int \<Rightarrow> int \<Rightarrow> InteractionHistoryItem \<Rightarrow> InteractionRow" where
  "restore_row account now it = \<lparr>ir_account = account, ir_post = hi_post_id it,
     ir_event = event_type_text (hi_event_type it), ir_position = hi_position it,
     ir_session = INTERACTION_RESTORE_SESSION,
     ir_created_at = (case hi_created_at it of None \<Rightarrow> now | Some t \<Rightarrow> t)\<rparr>"

fun restore_rows :: "int \<Rightarrow> InteractionHistoryItem list \<Rightarrow> int \<Rightarrow> Feed_DB \<Rightarrow> nat \<Rightarrow> FeedError + (nat \<times> Feed_DB)" where
  "restore_rows account [] now d n = Inr (n, d)"
| "restore_rows account (it # items) now d n =
     (case insert_interaction (restore_row account now it) d of
        Inl e \<Rightarrow> Inl e
      | Inr (inserted, d1) \<Rightarrow> restore_rows account items now d1 (if inserted then n + 1 else n))"

text \<open>
  The aggregate over the account's history: a join with the tags of the posts, one row per tag.
\<close>

definition tag_rows :: "Feed_DB \<Rightarrow> int \<Rightarrow> ((ustr \<times> ustr) \<times> InteractionRow) list" where
  "tag_rows d account =
     concat (map (\<lambda>r. map (\<lambda>t. (t, r)) (post_tags d (ir_post r)))
       (filter (\<lambda>r. ir_account r = account) (feed_interactions d)))"

definition rebuilt_row :: "InteractionRow list \<Rightarrow> FeedbackRow" where
  "rebuilt_row rs =
     (let latest = (case rs of [] \<Rightarrow> 0 | r # rs' \<Rightarrow> fold max (map ir_created_at rs') (ir_created_at r))
      in \<lparr>impression_count = int (length (filter (\<lambda>r. ir_event r = lit ''qualified_impression'') rs)),
          positive_count = int (length (filter (\<lambda>r. ir_event r = lit ''open'') rs)),
          negative_count = 0, last_interaction_at = latest, last_decayed_at = latest\<rparr>)"

definition rebuild_account_tag_feedback :: "int \<Rightarrow> Feed_DB \<Rightarrow> Feed_DB" where
  "rebuild_account_tag_feedback account d =
     d\<lparr>account_tag_feedback :=
        tbl_retain (\<lambda>(a, _) _. a \<noteq> account) (account_tag_feedback d) @
        map (\<lambda>t. ((account, t), rebuilt_row (map snd (filter (\<lambda>p. fst p = t) (tag_rows d account)))))
          (remdups (map fst (tag_rows d account)))\<rparr>"

definition restore_feed_interactions ::
  "int \<Rightarrow> InteractionHistoryItem list \<Rightarrow> int \<Rightarrow> FeedState \<Rightarrow> (FeedError + (nat \<times> nat)) \<times> FeedState" where
  "restore_feed_interactions account items now s =
     (if items = [] then (Inr (0, 0), s)
      else (case restore_rows account items now (db s) 0 of
              Inl e \<Rightarrow> (Inl e, s)
            | Inr (n, d) \<Rightarrow> (Inr (n, length items), s\<lparr>db := rebuild_account_tag_feedback account d\<rparr>)))"

definition prune_shown_posts :: "int \<Rightarrow> int \<Rightarrow> FeedState \<Rightarrow> (nat \<times> nat) \<times> FeedState" where
  "prune_shown_posts retention_days now s =
     (let before = feed_shown_posts (db s);
          after = tbl_retain (\<lambda>_ r. \<not> last_shown_at r < seen_cutoff now retention_days) before
      in ((length before, length after), s\<lparr>db := (db s)\<lparr>feed_shown_posts := after\<rparr>\<rparr>))"

section \<open>Reads\<close>

definition get_recently_seen_post_ids :: "int \<Rightarrow> int \<Rightarrow> int \<Rightarrow> FeedState \<Rightarrow> int set \<times> FeedState" where
  "get_recently_seen_post_ids account days now s =
     (case recent_seen (caches s) now account of
        Some cached \<Rightarrow> (cached, s)
      | None \<Rightarrow>
          let ids = SEEN_POST_IDS_SQL (db s) account (seen_cutoff now days)
          in (ids, s\<lparr>caches := store_recent_seen (caches s) now account ids\<rparr>))"

definition get_long_term_seen_post_ids :: "int \<Rightarrow> int \<Rightarrow> int \<Rightarrow> FeedState \<Rightarrow> int set \<times> FeedState" where
  "get_long_term_seen_post_ids account long_days now s =
     (case long_term_seen (caches s) now account of
        Some cached \<Rightarrow> (cached, s)
      | None \<Rightarrow>
          let ids = SEEN_POST_IDS_SQL (db s) account (seen_cutoff now long_days)
          in (ids, s\<lparr>caches := store_long_term_seen (caches s) now account ids\<rparr>))"

definition get_owned_post_ids :: "int \<Rightarrow> int \<Rightarrow> FeedState \<Rightarrow> int set \<times> FeedState" where
  "get_owned_post_ids account now s =
     (case owned (caches s) now account of
        Some cached \<Rightarrow> (cached, s)
      | None \<Rightarrow>
          let ids = set (map snd (filter (\<lambda>(a, p). a = account) (accounts_post (db s))))
          in (ids, s\<lparr>caches := store_owned (caches s) now account ids\<rparr>))"

text \<open>\<open>get_account_interaction_history\<close>: newest first, filtered, at most \<open>limit\<close> rows.\<close>

definition clamp :: "int \<Rightarrow> int \<Rightarrow> int \<Rightarrow> int" where
  "clamp lo hi x = max lo (min hi x)"

definition event_of_text :: "ustr \<Rightarrow> FeedInteractionType" where
  "event_of_text e =
     (if e = lit ''qualified_impression'' then QualifiedImpression
      else if e = lit ''open'' then Open
      else Unknown)"

definition history_row_mapper :: "InteractionRow \<Rightarrow> InteractionHistoryItem" where
  "history_row_mapper r = \<lparr>hi_post_id = ir_post r, hi_event_type = event_of_text (ir_event r),
     hi_position = ir_position r, hi_created_at = Some (ir_created_at r)\<rparr>"

definition get_account_interaction_history ::
  "int \<Rightarrow> FeedInteractionType option \<Rightarrow> int \<Rightarrow> Feed_DB \<Rightarrow> InteractionHistoryItem list" where
  "get_account_interaction_history account event_filter limit d =
     map history_row_mapper
       (take (nat (clamp 1 500 limit))
         (rev (filter (\<lambda>r. ir_account r = account \<and>
                 (case event_filter of None \<Rightarrow> True | Some e \<Rightarrow> ir_event r = event_type_text e))
            (feed_interactions d))))"

definition get_account_interactions_for_export :: "int \<Rightarrow> int \<Rightarrow> Feed_DB \<Rightarrow> InteractionHistoryItem list" where
  "get_account_interactions_for_export account limit d =
     (let limit = clamp 0 100000 limit
      in if limit = 0 then []
         else map history_row_mapper
                (take (nat limit) (rev (filter (\<lambda>r. ir_account r = account) (feed_interactions d)))))"

end
