(* ===== verification/Feed_Runs.thy ===== *)
theory Feed_Runs
  imports Feed_Seen
begin

text \<open>
  Why a cached seen set never hides a sighting.  \<open>covers\<close> says that whatever a set cache
  returns from some instant on contains what the seen statement returns then; the lemmas show
  how a store, a merge and a clear keep it, from the laws of the cache interface.
  \<open>feed_run\<close> lists the operations on the tables and the caches as a step relation.
\<close>

section \<open>Coverage\<close>

definition covers :: "int \<Rightarrow> int \<Rightarrow> int \<Rightarrow> Feed_DB \<Rightarrow> set_cache \<Rightarrow> bool" where
  "covers ttl days t d m \<longleftrightarrow>
     set_cache.holds_from ttl t (\<lambda>k v. SEEN_POST_IDS_SQL d k (seen_cutoff t days) \<subseteq> v) m"

lemma coversD:
  "covers ttl days t d m \<Longrightarrow> t \<le> now \<Longrightarrow> get_set m now k ttl = Some v \<Longrightarrow>
     SEEN_POST_IDS_SQL d k (seen_cutoff now days) \<subseteq> v"
  unfolding covers_def set_cache.holds_from_def
  by (meson seen_cutoff_mono seen_mono_cutoff subset_trans)

lemma covers_later:
  assumes "t \<le> t'" "covers ttl days t d m" shows "covers ttl days t' d m"
proof -
  have "SEEN_POST_IDS_SQL d k (seen_cutoff t' days) \<subseteq> SEEN_POST_IDS_SQL d k (seen_cutoff t days)" for k
    by (intro seen_mono_cutoff seen_cutoff_mono assms(1))
  then show ?thesis using set_cache.holds_later [OF assms(1)] assms(2)
    unfolding covers_def by (blast intro: set_cache.holds_mono)
qed

lemma covers_shrink:
  "covers ttl days t d m \<Longrightarrow> (\<And>k c. SEEN_POST_IDS_SQL d' k c \<subseteq> SEEN_POST_IDS_SQL d k c) \<Longrightarrow>
     covers ttl days t d' m"
  unfolding covers_def by (rule set_cache.holds_mono) blast+

lemma covers_put:
  assumes "tbl_ok m" "covers ttl days t d m" "now \<le> t"
  shows "covers ttl days t d (put_set m now k (SEEN_POST_IDS_SQL d k (seen_cutoff now days)) ttl)"
  using assms unfolding covers_def
  by (intro set_cache.holds_put seen_mono_cutoff seen_cutoff_mono)

definition in_seen :: "(int \<times> int list) list \<Rightarrow> int \<Rightarrow> int set" where
  "in_seen ds a = (\<Union>(k, ids) \<in> set ds. if k = a then set ids else {})"

lemma in_seen_simps [simp]:
  "in_seen [] a = {}"
  "in_seen ((k, ids) # ds) a = (if k = a then set ids else {}) \<union> in_seen ds a"
  by (auto simp: in_seen_def)

lemma grown_seen: "set_cache.grown ds a v = v \<union> in_seen ds a"
proof -
  have "fold (\<lambda>ids s. s \<union> set ids) xs v = v \<union> \<Union> (set (map set xs))" for xs :: "int list list"
    by (induction xs arbitrary: v) auto
  then show ?thesis by (auto simp: set_cache.grown_def in_seen_def split: if_splits; force)
qed

lemma covers_merges:
  assumes "tbl_ok m" "covers ttl days t d m" "now \<le> t"
    and "\<And>k c. SEEN_POST_IDS_SQL d' k c \<subseteq> in_seen ds k \<union> SEEN_POST_IDS_SQL d k c"
  shows "covers ttl days t d' (set_cache.merges ttl now ds m)"
  using assms(1-3) unfolding covers_def
  by (rule set_cache.holds_merges) (use assms(4) in \<open>fastforce simp: grown_seen\<close>)

lemma covers_clear:
  assumes "tbl_ok m" "covers ttl days t d m"
    and "\<And>k c. k \<noteq> a \<Longrightarrow> SEEN_POST_IDS_SQL d' k c \<subseteq> SEEN_POST_IDS_SQL d k c"
  shows "covers ttl days t d' (clear_set m a)"
  using assms(1,2) unfolding covers_def
  by (rule set_cache.holds_clear_weaken) (use assms(3) in blast)

text \<open>No entry is from the future, so what is cached at \<open>now\<close> has expired at \<open>now + ttl\<close>.\<close>

definition stamped :: "int \<Rightarrow> set_cache \<Rightarrow> bool" where
  "stamped t m \<longleftrightarrow> (\<forall>(k, e) \<in> set m. se_inserted_at e \<le> t)"

lemma stampedD: "tbl_ok m \<Longrightarrow> stamped t m \<Longrightarrow> tbl_get m k = Some e \<Longrightarrow> se_inserted_at e \<le> t"
  by (auto simp: stamped_def tbl_get_Some)

lemma stampedI: "tbl_ok m \<Longrightarrow> (\<And>k e. tbl_get m k = Some e \<Longrightarrow> se_inserted_at e \<le> t) \<Longrightarrow> stamped t m"
  by (auto simp: stamped_def tbl_get_Some)

lemma stamped_later: "t \<le> t' \<Longrightarrow> stamped t m \<Longrightarrow> stamped t' m"
  by (force simp: stamped_def)

lemma stamped_put: "tbl_ok m \<Longrightarrow> stamped t m \<Longrightarrow> t \<le> now \<Longrightarrow> stamped now (put_set m now k v ttl)"
proof (rule stampedI)
  fix k' e
  assume a: "tbl_ok m" "stamped t m" "t \<le> now" "tbl_get (put_set m now k v ttl) k' = Some e"
  show "se_inserted_at e \<le> now"
    using put_set_SomeD [OF a(1,4)] stampedD [OF a(1,2), of k' e] a(3) by (auto split: if_splits)
qed simp

lemma stamped_clear: "stamped t m \<Longrightarrow> stamped t (clear_set m a)"
  by (auto simp: stamped_def clear_set_def tbl_remove_def)

lemma stamped_merge:
  assumes "tbl_ok m" "stamped t m" shows "stamped t (merge_into m now a ids ttl)"
proof (rule stampedI)
  show "tbl_ok (merge_into m now a ids ttl)" using assms by (rule_tac set_cache.wf_merge)
  show "se_inserted_at e \<le> t" if "tbl_get (merge_into m now a ids ttl) k = Some e" for k e
    using that stampedD [OF assms] by (auto simp: merge_into_def split: option.splits if_splits)
qed

lemma stamped_merges:
  "tbl_ok m \<Longrightarrow> stamped t m \<Longrightarrow> stamped t (set_cache.merges ttl now ds m)"
  unfolding set_cache.merges_def
  by (induction ds arbitrary: m) (auto simp: stamped_merge set_cache.wf_merge split: prod.split)

lemma covers_expired:
  assumes "tbl_ok m" "stamped now m" "now + ttl \<le> t" shows "covers ttl days t d m"
proof -
  have "get_set m u k ttl = None" if "t \<le> u" for u k
    using stampedD [OF assms(1,2), of k] that assms(3)
    by (force simp: get_set_def duration_since_def split: option.split)
  then show ?thesis by (auto simp: covers_def set_cache.holds_from_def)
qed

section \<open>The invariant\<close>

definition seen_ok :: "int \<Rightarrow> int \<Rightarrow> int \<Rightarrow> int \<Rightarrow> FeedState \<Rightarrow> bool" where
  "seen_ok days long_days now t s \<longleftrightarrow>
     now \<le> t \<and> caches_ok (caches s) \<and> tbl_ok (feed_shown_posts (db s)) \<and>
     stamped now (RECENT_SEEN_CACHE (caches s)) \<and> stamped now (LONG_TERM_SEEN_CACHE (caches s)) \<and>
     covers RECENT_SEEN_TTL days t (db s) (RECENT_SEEN_CACHE (caches s)) \<and>
     covers LONG_TERM_SEEN_TTL long_days t (db s) (LONG_TERM_SEEN_CACHE (caches s))"

lemmas seen_ok_defs = seen_ok_def caches_ok_def

lemma seen_ok_later:
  "seen_ok days ld now t s \<Longrightarrow> now \<le> now' \<Longrightarrow> seen_ok days ld now' (max t now') s"
  by (auto simp: seen_ok_def intro: stamped_later covers_later [rotated])

lemma seen_ok_db:
  assumes "seen_ok days ld now t s" "tbl_ok (feed_shown_posts d)"
    and "\<And>k c. SEEN_POST_IDS_SQL d k c \<subseteq> SEEN_POST_IDS_SQL (db s) k c"
  shows "seen_ok days ld now t (s\<lparr>db := d\<rparr>)"
  using assms by (auto simp: seen_ok_def intro: covers_shrink)

lemma merge_seen_fold:
  "RECENT_SEEN_CACHE (fold (\<lambda>(a, ids). merge_seen now a ids) ds c) =
     set_cache.merges RECENT_SEEN_TTL now ds (RECENT_SEEN_CACHE c)"
  "LONG_TERM_SEEN_CACHE (fold (\<lambda>(a, ids). merge_seen now a ids) ds c) =
     set_cache.merges LONG_TERM_SEEN_TTL now ds (LONG_TERM_SEEN_CACHE c)"
  "OWNED_CACHE (fold (\<lambda>(a, ids). merge_seen now a ids) ds c) = OWNED_CACHE c"
  "CANDIDATE_CACHE (fold (\<lambda>(a, ids). merge_seen now a ids) ds c) = CANDIDATE_CACHE c"
  unfolding set_cache.merges_def
  by (induction ds arbitrary: c)
    (auto simp: merge_seen_def merge_recent_seen_def merge_long_term_seen_def)

lemma seen_ok_merges:
  assumes ok: "seen_ok days ld now t s" and d: "tbl_ok (feed_shown_posts d)"
    and grow: "\<And>k c. SEEN_POST_IDS_SQL d k c \<subseteq> in_seen ds k \<union> SEEN_POST_IDS_SQL (db s) k c"
  shows "seen_ok days ld now t
    (s\<lparr>db := d, caches := fold (\<lambda>(a, ids). merge_seen now a ids) ds (caches s)\<rparr>)"
  using ok d covers_merges [OF _ _ _ grow]
  by (simp add: seen_ok_defs merge_seen_fold stamped_merges set_cache.wf_merges)

lemma seen_ok_merge:
  assumes ok: "seen_ok days ld now t s" and d: "tbl_ok (feed_shown_posts d)"
    and grow: "\<And>k c. SEEN_POST_IDS_SQL d k c \<subseteq> (if k = a then set ids else {}) \<union> SEEN_POST_IDS_SQL (db s) k c"
  shows "seen_ok days ld now t (s\<lparr>db := d, caches := merge_seen now a ids (caches s)\<rparr>)"
  using seen_ok_merges [OF ok d, of "[(a, ids)]"] grow by (fastforce split: if_splits)

lemma seen_ok_clear:
  assumes ok: "seen_ok days ld now t s" and d: "tbl_ok (feed_shown_posts d)"
    and rest: "\<And>k c. k \<noteq> a \<Longrightarrow> SEEN_POST_IDS_SQL d k c \<subseteq> SEEN_POST_IDS_SQL (db s) k c"
  shows "seen_ok days ld now t (s\<lparr>db := d, caches := clear_seen (caches s) a\<rparr>)"
  using ok d covers_clear [OF _ _ rest]
  by (simp add: seen_ok_defs clear_seen_def stamped_clear set_cache.wf_clear)

lemma seen_ok_expired:
  assumes ok: "seen_ok days ld now t s" and d: "tbl_ok (feed_shown_posts d)"
    and wait: "now + LONG_TERM_SEEN_TTL \<le> t'"
  shows "seen_ok days ld now t' (s\<lparr>db := d\<rparr>)"
proof -
  have "RECENT_SEEN_TTL \<le> LONG_TERM_SEEN_TTL" "0 \<le> LONG_TERM_SEEN_TTL"
    by (simp_all add: RECENT_SEEN_TTL_def LONG_TERM_SEEN_TTL_def secs_def)
  then show ?thesis using assms by (auto simp: seen_ok_defs intro!: covers_expired)
qed

end
