(* ===== verification/Feed_Props.thy ===== *)
theory Feed_Props
  imports Feed_Runs
begin

text \<open>
  What each write of \<open>parser-api/src/db/feed.rs\<close> does to the seen set of an account, the step
  relation of the whole component and its properties.
\<close>

section \<open>Effects on the seen set\<close>

text \<open>\<open>gained d d' g\<close>: an account \<open>a\<close> sees in \<open>d'\<close> at most what it saw in \<open>d\<close> and \<open>g a\<close>.\<close>

definition gained :: "Feed_DB \<Rightarrow> Feed_DB \<Rightarrow> (int \<Rightarrow> int set) \<Rightarrow> bool" where
  "gained d d' g \<longleftrightarrow>
     (\<forall>a c. SEEN_POST_IDS_SQL d' a c \<subseteq> g a \<union> SEEN_POST_IDS_SQL d a c) \<and>
     (tbl_ok (feed_shown_posts d) \<longrightarrow> tbl_ok (feed_shown_posts d'))"

lemma gained_refl [simp]: "gained d d g"
  by (auto simp: gained_def)

lemma gained_trans: "gained d d1 g \<Longrightarrow> gained d1 d2 h \<Longrightarrow> gained d d2 (\<lambda>a. g a \<union> h a)"
  unfolding gained_def by blast

lemma gained_mono: "gained d d' g \<Longrightarrow> (\<And>a. g a \<subseteq> h a) \<Longrightarrow> gained d d' h"
  unfolding gained_def by blast

lemma seen_append:
  "SEEN_POST_IDS_SQL (d\<lparr>feed_interactions := feed_interactions d @ [r]\<rparr>) a c =
     (if ir_account r = a \<and> seen_event (ir_event r) \<and> c \<le> ir_created_at r then {ir_post r} else {})
     \<union> SEEN_POST_IDS_SQL d a c"
  by (auto simp: SEEN_POST_IDS_SQL_def)

lemma seen_feedback [simp]: "SEEN_POST_IDS_SQL (update_feedback b \<delta> now p d) a c = SEEN_POST_IDS_SQL d a c"
  by (simp add: SEEN_POST_IDS_SQL_def)

lemma gained_feedback [simp]: "gained d (update_feedback b \<delta> now p d) g"
  by (auto simp: gained_def)

lemma gained_insert:
  "insert_interaction r d = Inr (new, d') \<Longrightarrow>
     gained d d' (\<lambda>a. if new \<and> a = ir_account r then {ir_post r} else {})"
  by (auto simp: gained_def insert_interaction_def seen_append split: if_splits)

lemma gained_upsert:
  assumes "upsert_shown_post b now p d = Inr d'"
  shows "gained d d' (\<lambda>a. if a = b then {p} else {})"
proof -
  obtain r where d': "d' = d\<lparr>feed_shown_posts := tbl_insert (b, p) r (feed_shown_posts d)\<rparr>"
    using assms by (auto simp: upsert_shown_post_def split: option.splits if_splits)
  show ?thesis unfolding d'
    using set_tbl_insert [of "(b, p)" r "feed_shown_posts d"]
    by (fastforce simp: gained_def seen_iff shown_since_def interacted_since_def)
qed

lemma gained_upserts:
  "upsert_shown_posts b ps now d = Inr (n, d') \<Longrightarrow> gained d d' (\<lambda>a. if a = b then set ps else {})"
proof (induction ps arbitrary: d n)
  case (Cons p ps)
  from Cons.prems obtain d1 n1 where
    s: "upsert_shown_post b now p d = Inr d1" "upsert_shown_posts b ps now d1 = Inr (n1, d')"
    by (auto split: sum.splits)
  show ?case by (rule gained_mono [OF gained_trans [OF gained_upsert [OF s(1)] Cons.IH [OF s(2)]]]) auto
qed simp

lemma gained_exposures:
  "batch_exposures m now d n = Inr (k, d') \<Longrightarrow> gained d d' (in_seen m)"
proof (induction m now d n rule: batch_exposures.induct)
  case (2 b ps m now d n)
  from 2(2) obtain i d1 where
    s: "upsert_shown_posts b ps now d = Inr (i, d1)" "batch_exposures m now d1 (n + i) = Inr (k, d')"
    by (auto split: sum.splits)
  show ?case
    by (rule gained_mono [OF gained_trans [OF gained_upserts [OF s(1)] 2(1) [OF s(1) refl s(2)]]]) auto
qed simp

lemma in_seen_push:
  assumes ok: "tbl_ok m" shows "in_seen (push_seen b p m) a = (if a = b then {p} else {}) \<union> in_seen m a"
proof -
  have eq: "in_seen t a = (case tbl_get t a of None \<Rightarrow> {} | Some ps \<Rightarrow> set ps)" if "tbl_ok t" for t
  proof -
    have "in_seen t a = (\<Union>ps \<in> {ps. tbl_get t a = Some ps}. set ps)"
      using tbl_get_Some [OF that] by (auto simp: in_seen_def split: if_splits)
    then show ?thesis by (auto split: option.split)
  qed
  show ?thesis using ok by (auto simp: eq push_seen_def split: option.split)
qed

lemma gained_rows:
  "tbl_ok seen \<Longrightarrow> batch_rows is now d ev seen = Inr (ev', seen', d') \<Longrightarrow>
     gained d d' (in_seen seen') \<and> tbl_ok seen' \<and> (\<forall>a. in_seen seen a \<subseteq> in_seen seen' a)"
proof (induction "is" now d ev seen rule: batch_rows.induct)
  case (2 i "is" now d ev seen)
  from 2(4) obtain new d1 where ins: "insert_interaction (row_of i now) d = Inr (new, d1)"
    by (auto split: sum.splits)
  note g = gained_insert [OF ins]
  have ps: "tbl_ok (push_seen (fi_account_id i) (fi_post_id i) seen)"
    using 2(3) by (simp add: push_seen_def)
  note app = in_seen_push [OF 2(3), of "fi_account_id i" "fi_post_id i"]
  show ?case
  proof (cases new)
    case True
    let ?d = "update_feedback (fi_account_id i) (event_deltas (event_type i)) now (fi_post_id i) d1"
    have IH: "gained ?d d' (in_seen seen') \<and> tbl_ok seen' \<and>
        (\<forall>a. in_seen (push_seen (fi_account_id i) (fi_post_id i) seen) a \<subseteq> in_seen seen' a)"
      using 2(1) [OF ins refl True ps] 2(4) ins True by simp
    have "gained d ?d (\<lambda>a. if new \<and> a = fi_account_id i then {fi_post_id i} else {})"
      using gained_trans [OF g gained_feedback [where g = "\<lambda>_. {}"]] by (simp add: row_of_def cong: if_cong)
    from gained_trans [OF this] IH have
      "gained d d' (\<lambda>a. (if new \<and> a = fi_account_id i then {fi_post_id i} else {}) \<union> in_seen seen' a)"
      by blast
    then show ?thesis using IH app by (auto elim!: gained_mono split: if_splits)
  next
    case False
    then show ?thesis using 2(2) [OF ins refl False 2(3)] 2(4) ins g
      by (auto dest: gained_trans elim!: gained_mono)
  qed
qed simp

lemma gained_record:
  assumes "record_tx tok i now d = Inr (new, d')"
  shows "gained d d' (\<lambda>a. if new \<and> a = fi_account_id i then {fi_post_id i} else {})"
proof -
  obtain d1 where ins: "insert_interaction (row_of i now) d = Inr (new, d1)"
    using assms by (auto simp: record_tx_def split: if_splits sum.splits)
  note g = gained_insert [OF ins]
  show ?thesis
  proof (cases new)
    case True
    with assms ins obtain n d2 where
      up: "upsert_shown_posts (fi_account_id i) [fi_post_id i] now d1 = Inr (n, d2)"
        and d': "d' = update_feedback (fi_account_id i) (event_deltas (event_type i)) now (fi_post_id i) d2"
      by (auto simp: record_tx_def simp del: upsert_shown_posts.simps split: if_splits sum.splits)
    show ?thesis unfolding d' using True
      by (intro gained_mono [OF gained_trans [OF gained_trans [OF g gained_upserts [OF up]] gained_feedback]])
        (auto simp: row_of_def)
  next
    case False
    then show ?thesis using assms ins g by (auto simp: record_tx_def split: if_splits)
  qed
qed

lemma gained_remove:
  "remove_tx tok i now d = Inr (b, d') \<Longrightarrow> gained d d' (\<lambda>_. {})"
  unfolding remove_tx_def gained_def SEEN_POST_IDS_SQL_def tbl_remove_def
  by (auto simp: Let_def split: if_splits)

lemma gained_clear:
  "clear_tx tok a d = Inr (n, d') \<Longrightarrow> gained d d' (\<lambda>_. {})"
  unfolding clear_tx_def gained_def SEEN_POST_IDS_SQL_def tbl_retain_def
  by (auto simp: Let_def split: if_splits)

lemma gained_shown_filter:
  "gained d (d\<lparr>feed_shown_posts := tbl_retain p (feed_shown_posts d)\<rparr>) (\<lambda>_. {})"
  unfolding gained_def SEEN_POST_IDS_SQL_def tbl_retain_def by auto

section \<open>The operations as a step relation\<close>

text \<open>
  \<open>Catalog\<close> stands for every write elsewhere that leaves the two tables alone: posts, tags,
  accounts, device links and ownership may change at will.
\<close>

datatype FeedOp =
    Record ustr FeedInteractionRequest
  | Record_batch ustr "FeedInteractionRequest list"
  | Remove ustr FeedInteractionRequest
  | Clear_all ustr int
  | Restore int "InteractionHistoryItem list"
  | Prune int
  | Read_recent int
  | Read_long_term int
  | Read_owned int
  | Catalog Feed_DB

fun run_op :: "int \<Rightarrow> int \<Rightarrow> FeedOp \<Rightarrow> int \<Rightarrow> FeedState \<Rightarrow> FeedState" where
  "run_op days ld (Record tok i) now s = snd (record_feed_interaction tok i now s)"
| "run_op days ld (Record_batch tok is) now s = snd (record_feed_interactions_batch tok is now s)"
| "run_op days ld (Remove tok i) now s = snd (remove_feed_interaction tok i now s)"
| "run_op days ld (Clear_all tok a) now s = snd (clear_feed_interactions tok a s)"
| "run_op days ld (Restore a items) now s = snd (restore_feed_interactions a items now s)"
| "run_op days ld (Prune n) now s = snd (prune_shown_posts n now s)"
| "run_op days ld (Read_recent a) now s = snd (get_recently_seen_post_ids a days now s)"
| "run_op days ld (Read_long_term a) now s = snd (get_long_term_seen_post_ids a ld now s)"
| "run_op days ld (Read_owned a) now s = snd (get_owned_post_ids a now s)"
| "run_op days ld (Catalog d) now s = s\<lparr>db := d\<lparr>feed_interactions := feed_interactions (db s),
     feed_shown_posts := feed_shown_posts (db s)\<rparr>\<rparr>"

text \<open>From when on the caches agree with the tables: a restore leaves them stale for their TTL.\<close>

fun settle :: "FeedOp \<Rightarrow> int \<Rightarrow> int \<Rightarrow> int" where
  "settle (Restore a items) now t = max t (now + LONG_TERM_SEEN_TTL)"
| "settle _ now t = max t now"

definition no_caches :: HydrateCaches where
  "no_caches = \<lparr>RECENT_SEEN_CACHE = [], LONG_TERM_SEEN_CACHE = [], OWNED_CACHE = [], CANDIDATE_CACHE = []\<rparr>"

inductive feed_run :: "int \<Rightarrow> int \<Rightarrow> int \<Rightarrow> int \<Rightarrow> FeedState \<Rightarrow> bool" for days ld where
  start: "tbl_ok (feed_shown_posts d) \<Longrightarrow> feed_run days ld now now \<lparr>db = d, caches = no_caches\<rparr>"
| step: "feed_run days ld now t s \<Longrightarrow> now \<le> now' \<Longrightarrow>
    feed_run days ld now' (settle op now' t) (run_op days ld op now' s)"

lemma covers_Nil: "covers ttl days t d []"
  unfolding covers_def set_cache.holds_from_def by (simp add: get_set_def)

lemma seen_ok_start: "tbl_ok (feed_shown_posts d) \<Longrightarrow> seen_ok days ld now now \<lparr>db = d, caches = no_caches\<rparr>"
  by (simp add: seen_ok_defs no_caches_def stamped_def covers_Nil)

lemma seen_ok_gained:
  "seen_ok days ld now t s \<Longrightarrow> gained (db s) d (\<lambda>_. {}) \<Longrightarrow> seen_ok days ld now t (s\<lparr>db := d\<rparr>)"
  by (rule seen_ok_db) (auto simp: gained_def seen_ok_def)

lemma seen_ok_record:
  assumes ok: "seen_ok days ld now t s"
  shows "seen_ok days ld now t (snd (record_feed_interaction tok i now s))"
proof (cases "record_tx tok i now (db s)")
  case (Inr p)
  then obtain new d where p: "record_tx tok i now (db s) = Inr (new, d)" by (cases p) auto
  note g = gained_record [OF p]
  have d: "tbl_ok (feed_shown_posts d)" using g ok by (simp add: gained_def seen_ok_def)
  show ?thesis
  proof (cases new)
    case True
    have "seen_ok days ld now t
        (s\<lparr>db := d, caches := merge_seen now (fi_account_id i) [fi_post_id i] (caches s)\<rparr>)"
      by (rule seen_ok_merge [OF ok d]) (use g True in \<open>auto simp: gained_def cong: if_cong\<close>)
    then show ?thesis using True p by (simp add: record_feed_interaction_def)
  next
    case False
    then show ?thesis using seen_ok_gained [OF ok, of d] g p
      by (simp add: record_feed_interaction_def)
  qed
qed (use ok in \<open>simp add: record_feed_interaction_def\<close>)

lemma seen_ok_batch:
  assumes ok: "seen_ok days ld now t s"
  shows "seen_ok days ld now t (snd (record_feed_interactions_batch tok is now s))"
proof (cases "is = [] \<or> (\<exists>e. batch_tx tok is now (db s) = Inl e)")
  case False
  then obtain ev seen n d where tx: "batch_tx tok is now (db s) = Inr (ev, seen, n, d)"
    by (metis old.sum.exhaust prod_cases4)
  then obtain d1 where rows: "batch_rows is now (db s) [] [] = Inr (ev, seen, d1)"
      and ex: "batch_exposures seen now d1 0 = Inr (n, d)"
    by (auto simp: batch_tx_def split: option.splits sum.splits)
  have g: "gained (db s) d (in_seen seen)"
    using gained_rows [OF tbl_ok_Nil rows] gained_exposures [OF ex] by (auto dest: gained_trans)
  have "seen_ok days ld now t (s\<lparr>db := d,
      caches := fold (\<lambda>(a, ids). merge_seen now a ids) seen (caches s)\<rparr>)"
    by (rule seen_ok_merges [OF ok]) (use g ok in \<open>auto simp: gained_def seen_ok_def\<close>)
  then show ?thesis using False tx by (simp add: record_feed_interactions_batch_def)
qed (use ok in \<open>auto simp: record_feed_interactions_batch_def\<close>)

lemma seen_ok_remove:
  assumes ok: "seen_ok days ld now t s"
  shows "seen_ok days ld now t (snd (remove_feed_interaction tok i now s))"
proof (cases "remove_tx tok i now (db s)")
  case (Inr p)
  then obtain b d where p: "remove_tx tok i now (db s) = Inr (b, d)" by (cases p) auto
  note g = gained_remove [OF p]
  have "seen_ok days ld now t (s\<lparr>db := d, caches := clear_seen (caches s) (fi_account_id i)\<rparr>)"
    by (rule seen_ok_clear [OF ok]) (use g ok in \<open>auto simp: gained_def seen_ok_def\<close>)
  then show ?thesis using seen_ok_gained [OF ok g] p by (simp add: remove_feed_interaction_def)
qed (use ok in \<open>simp add: remove_feed_interaction_def\<close>)

lemma seen_ok_clear_all:
  assumes ok: "seen_ok days ld now t s"
  shows "seen_ok days ld now t (snd (clear_feed_interactions tok a s))"
proof (cases "clear_tx tok a (db s)")
  case (Inr p)
  then obtain n d where p: "clear_tx tok a (db s) = Inr (n, d)" by (cases p) auto
  note g = gained_clear [OF p]
  have "seen_ok days ld now t (s\<lparr>db := d, caches := clear_seen (caches s) a\<rparr>)"
    by (rule seen_ok_clear [OF ok]) (use g ok in \<open>auto simp: gained_def seen_ok_def\<close>)
  then show ?thesis using p by (simp add: clear_feed_interactions_def)
qed (use ok in \<open>simp add: clear_feed_interactions_def\<close>)

lemma seen_ok_reads:
  assumes ok: "seen_ok days ld now t s"
  shows "seen_ok days ld now t (snd (get_recently_seen_post_ids a days now s))"
    and "seen_ok days ld now t (snd (get_long_term_seen_post_ids a ld now s))"
    and "seen_ok days ld now t (snd (get_owned_post_ids a now s))"
  using ok
  by (auto simp: seen_ok_defs get_recently_seen_post_ids_def get_long_term_seen_post_ids_def
      get_owned_post_ids_def store_recent_seen_def store_long_term_seen_def store_owned_def Let_def
      covers_put stamped_put split: option.split)

lemma restore_rows_shown:
  "restore_rows a items now d n = Inr (m, d') \<Longrightarrow>
     feed_shown_posts d' = feed_shown_posts d \<and> set (feed_interactions d) \<subseteq> set (feed_interactions d')"
proof (induction items arbitrary: d n)
  case (Cons it items)
  then obtain new d1 n1 where ins: "insert_interaction (restore_row a now it) d = Inr (new, d1)"
      and rest: "restore_rows a items now d1 n1 = Inr (m, d')"
    by (auto split: sum.splits)
  have "feed_shown_posts d1 = feed_shown_posts d \<and> set (feed_interactions d) \<subseteq> set (feed_interactions d1)"
    using ins by (auto simp: insert_interaction_def split: if_splits)
  then show ?case using Cons.IH [OF rest] by auto
qed simp

lemma restore_db:
  assumes "tbl_ok (feed_shown_posts (db s))"
  obtains d where "snd (restore_feed_interactions a items now s) = s\<lparr>db := d\<rparr>"
    "tbl_ok (feed_shown_posts d)" "set (feed_interactions (db s)) \<subseteq> set (feed_interactions d)"
proof (cases "items = [] \<or> (\<exists>e. restore_rows a items now (db s) 0 = Inl e)")
  case True
  then show ?thesis using assms that [of "db s"] by (auto simp: restore_feed_interactions_def)
next
  case False
  then obtain n d where "restore_rows a items now (db s) 0 = Inr (n, d)"
    by (metis old.sum.exhaust surj_pair)
  then show ?thesis
    using False assms restore_rows_shown that [of "rebuild_account_tag_feedback a d"]
    by (fastforce simp: restore_feed_interactions_def rebuild_account_tag_feedback_def)
qed

lemma seen_ok_step:
  assumes ok: "seen_ok days ld now t s" and le: "now \<le> now'"
  shows "seen_ok days ld now' (settle op now' t) (run_op days ld op now' s)"
proof -
  note ok' = seen_ok_later [OF ok le]
  show ?thesis
  proof (cases op)
    case (Restore a items)
    obtain d where "snd (restore_feed_interactions a items now' s) = s\<lparr>db := d\<rparr>"
        "tbl_ok (feed_shown_posts d)"
      using ok restore_db [of s a items now'] by (auto simp: seen_ok_def)
    then show ?thesis using Restore seen_ok_expired [OF ok'] by auto
  next
    case (Prune n)
    then show ?thesis using seen_ok_gained [OF ok' gained_shown_filter]
      by (simp add: prune_shown_posts_def Let_def)
  next
    case (Catalog d)
    then show ?thesis using ok' by (simp, intro seen_ok_db) (auto simp: seen_ok_def SEEN_POST_IDS_SQL_def)
  qed (use ok' in \<open>simp_all add: seen_ok_record seen_ok_batch seen_ok_remove seen_ok_clear_all seen_ok_reads\<close>)
qed

lemma feed_run_seen_ok: "feed_run days ld now t s \<Longrightarrow> seen_ok days ld now t s"
  by (induction rule: feed_run.induct) (auto intro: seen_ok_start seen_ok_step)

end
