(* ===== verification/Feed_Claims.thy ===== *)
theory Feed_Claims
  imports Feed_Props
begin

text \<open>The properties of the feed tables and the seen caches.\<close>

section \<open>A small database\<close>

definition demo_db :: Feed_DB where
  "demo_db = \<lparr>instance_db = demo_instance,
     session_db = \<lparr>feed_sessions = [], feed_session_posts = []\<rparr>,
     posts = [7, 8], post_tags = (\<lambda>p. [(lit ''wolf'', lit ''species'')]), accounts_post = [],
     feed_interactions = [], feed_shown_posts = [], account_tag_feedback = []\<rparr>"

definition demo_state :: FeedState where
  "demo_state = \<lparr>db = demo_db, caches = no_caches\<rparr>"

definition demo_request :: "int \<Rightarrow> FeedInteractionType \<Rightarrow> FeedInteractionRequest" where
  "demo_request p e = \<lparr>fi_account_id = 1, fi_post_id = p, event_type = e, position = 0,
     session_id = lit ''s1''\<rparr>"

lemmas demo_defs = demo_state_def demo_db_def demo_instance_def is_instance_owner_def demo_request_def no_caches_def may_address_def
  record_feed_interaction_def record_tx_def insert_interaction_def row_of_def event_checked_def
  upsert_shown_post_def update_feedback_def add_feedback_def tbl_insert_def tbl_get_def
  merge_seen_def merge_recent_seen_def merge_long_term_seen_def merge_into_def

lemma demo_start: "feed_run days ld now now demo_state"
  unfolding demo_state_def by (rule feed_run.start) (simp add: demo_db_def)

section \<open>Reads\<close>

lemma read_covers:
  assumes "seen_ok days ld now t s" "t \<le> now'"
  shows "SEEN_POST_IDS_SQL (db s) a (seen_cutoff now' days) \<subseteq> fst (get_recently_seen_post_ids a days now' s)"
    and "SEEN_POST_IDS_SQL (db s) a (seen_cutoff now' ld) \<subseteq> fst (get_long_term_seen_post_ids a ld now' s)"
  using assms
  by (auto simp: seen_ok_def get_recently_seen_post_ids_def get_long_term_seen_post_ids_def
      recent_seen_def long_term_seen_def Let_def split: option.split
      intro: coversD [OF _ assms(2), THEN subsetD])



section \<open>A recorded post stays out of the feed\<close>

fun run_ops :: "int \<Rightarrow> int \<Rightarrow> (int \<times> FeedOp) list \<Rightarrow> FeedState \<Rightarrow> FeedState" where
  "run_ops days ld [] s = s"
| "run_ops days ld ((now, op) # ops) s = run_ops days ld ops (run_op days ld op now s)"

text \<open>Operations that neither take back an account's interactions nor bypass its caches.\<close>

fun retains :: "int \<Rightarrow> FeedOp \<Rightarrow> bool" where
  "retains a (Remove tok i) \<longleftrightarrow> fi_account_id i \<noteq> a"
| "retains a (Clear_all tok b) \<longleftrightarrow> b \<noteq> a"
| "retains a (Restore b items) \<longleftrightarrow> False"
| "retains a _ \<longleftrightarrow> True"

lemma feed_run_ops:
  "feed_run days ld now t s \<Longrightarrow> sorted (now # map fst ops) \<Longrightarrow> \<forall>(u, op) \<in> set ops. retains a op \<Longrightarrow>
     \<exists>t'. feed_run days ld (last (now # map fst ops)) t' (run_ops days ld ops s) \<and>
       t' \<le> max t (last (now # map fst ops))"
proof (induction ops arbitrary: now t s)
  case Nil
  then show ?case by (auto intro: exI [of _ t])
next
  case (Cons x ops)
  obtain u op where x: "x = (u, op)" by (cases x)
  have "feed_run days ld u (settle op u t) (run_op days ld op u s)"
    using Cons.prems by (auto simp: x intro: feed_run.step)
  moreover have "settle op u t = max t u" using Cons.prems by (cases op) (auto simp: x)
  moreover have "u \<le> last (u # map fst ops)"
    using Cons.prems(2) sorted_head_le_last [of u "map fst ops"] by (simp add: x)
  ultimately show ?case
    using Cons.IH [of u "max t u" "run_op days ld op u s"] Cons.prems by (fastforce simp: x)
qed

lemma rows_kept_batch:
  "batch_rows is now d ev seen = Inr (ev', seen', d') \<Longrightarrow>
     set (feed_interactions d) \<subseteq> set (feed_interactions d')"
proof (induction "is" now d ev seen rule: batch_rows.induct)
  case (2 i "is" now d ev seen)
  from 2(3) obtain new d1 where ins: "insert_interaction (row_of i now) d = Inr (new, d1)"
    by (auto split: sum.splits)
  then have "set (feed_interactions d) \<subseteq> set (feed_interactions d1)"
    by (auto simp: insert_interaction_def split: if_splits)
  then show ?case using 2(1,2) [OF ins refl] 2(3) ins by (cases new) auto
qed simp

lemma exposures_keep:
  "batch_exposures m now d n = Inr (k, d') \<Longrightarrow> feed_interactions d' = feed_interactions d"
proof (induction m now d n rule: batch_exposures.induct)
  case (2 b ps m now d n)
  from 2(2) obtain i d1 where s: "upsert_shown_posts b ps now d = Inr (i, d1)"
    "batch_exposures m now d1 (n + i) = Inr (k, d')"
    by (auto split: sum.splits)
  show ?case using 2(1) [OF s(1) refl s(2)] upsert_shown_posts_keeps [OF s(1)] by auto
qed simp

lemma record_keeps:
  assumes "record_tx tok i now d = Inr (new, d')"
  shows "set (feed_interactions d) \<subseteq> set (feed_interactions d')"
proof -
  obtain d1 where ins: "insert_interaction (row_of i now) d = Inr (new, d1)"
    using assms by (auto simp: record_tx_def split: if_splits sum.splits)
  then have "set (feed_interactions d) \<subseteq> set (feed_interactions d1)"
    by (auto simp: insert_interaction_def split: if_splits)
  moreover have "feed_interactions d' = feed_interactions d1"
    using assms ins by (auto simp: record_tx_def simp del: upsert_shown_posts.simps
        dest!: upsert_shown_posts_keeps split: if_splits sum.splits)
  ultimately show ?thesis by simp
qed

lemma row_retained:
  assumes "retains (ir_account r) op" "r \<in> set (feed_interactions (db s))"
  shows "r \<in> set (feed_interactions (db (run_op days ld op now s)))"
proof (cases op)
  case (Record tok i)
  then show ?thesis using assms record_keeps [of tok i now "db s"]
    by (auto simp: record_feed_interaction_def split: sum.splits prod.splits)
next
  case (Record_batch tok "is")
  then show ?thesis using assms rows_kept_batch exposures_keep
    by (fastforce simp: record_feed_interactions_batch_def batch_tx_def
        split: sum.splits prod.splits option.splits)
next
  case (Remove tok i)
  then show ?thesis using assms
    by (auto simp: remove_feed_interaction_def remove_tx_def Let_def row_of_def
        split: sum.splits if_splits)
next
  case (Clear_all tok b)
  then show ?thesis using assms
    by (auto simp: clear_feed_interactions_def clear_tx_def Let_def split: sum.splits if_splits)
next
  case (Restore b items)
  then show ?thesis using assms by simp
qed (use assms in \<open>auto simp: prune_shown_posts_def get_recently_seen_post_ids_def
      get_long_term_seen_post_ids_def get_owned_post_ids_def Let_def split: option.split\<close>)

lemma row_retained_ops:
  "\<forall>(u, op) \<in> set ops. retains (ir_account r) op \<Longrightarrow> r \<in> set (feed_interactions (db s)) \<Longrightarrow>
     r \<in> set (feed_interactions (db (run_ops days ld ops s)))"
proof (induction ops arbitrary: s)
  case (Cons x ops)
  obtain u op where x: "x = (u, op)" by (cases x)
  then have "r \<in> set (feed_interactions (db (run_op days ld op u s)))"
    using Cons.prems row_retained [of r op s days ld u] by simp
  then show ?case using Cons.IH [of "run_op days ld op u s"] Cons.prems(1) by (simp add: x)
qed simp

lemma row_seen:
  "r \<in> set (feed_interactions d) \<Longrightarrow> seen_event (ir_event r) \<Longrightarrow> c \<le> ir_created_at r \<Longrightarrow>
     ir_post r \<in> SEEN_POST_IDS_SQL d (ir_account r) c"
  by (auto simp: SEEN_POST_IDS_SQL_def)

lemma record_row:
  assumes "record_feed_interaction tok i now s = (Inr (), s')" "event_type i \<noteq> Unknown"
    "\<not> list_ex (same_key (row_of i now)) (feed_interactions (db s))"
  shows "row_of i now \<in> set (feed_interactions (db s'))" "seen_event (ir_event (row_of i now))"
proof -
  show "seen_event (ir_event (row_of i now))"
    using assms(2) by (cases "event_type i") (simp_all add: row_of_def seen_event_def)
  have "event_checked (ir_event (row_of i now))"
    using assms(2) by (cases "event_type i") (simp_all add: row_of_def event_checked_def)
  then show "row_of i now \<in> set (feed_interactions (db s'))"
    using assms(1,3)
    by (auto simp: record_feed_interaction_def record_tx_def insert_interaction_def
        simp del: upsert_shown_posts.simps dest!: upsert_shown_posts_keeps
        split: if_splits sum.splits prod.splits)
qed



text \<open>A restore does not touch the cached seen sets: until they expire, a restored
  interaction is in the tables and missing from what the feed reads.\<close>

theorem restore_leaves_cache_stale:
  "\<exists>s items. feed_run 14 60 5 5 s \<and>
     (let s' = snd (restore_feed_interactions 1 items 6 s)
      in 7 \<in> SEEN_POST_IDS_SQL (db s') 1 (seen_cutoff 7 14) \<and>
         7 \<notin> fst (get_recently_seen_post_ids 1 14 7 s'))"
proof (intro exI conjI)
  show "feed_run 14 60 5 5 (run_op 14 60 (Read_recent 1) 5 demo_state)"
    using feed_run.step [OF demo_start [of 14 60 4], of 5 "Read_recent 1"] by simp
  show "let s' = snd (restore_feed_interactions 1 [\<lparr>hi_post_id = 7, hi_event_type = Open,
          hi_position = 0, hi_created_at = None\<rparr>] 6 (run_op 14 60 (Read_recent 1) 5 demo_state))
      in 7 \<in> SEEN_POST_IDS_SQL (db s') 1 (seen_cutoff 7 14) \<and>
         7 \<notin> fst (get_recently_seen_post_ids 1 14 7 s')"
    by (simp add: demo_defs get_recently_seen_post_ids_def recent_seen_def get_set_def put_set_def
        store_recent_seen_def tbl_retain_def evict_oldest_set_def CACHE_MAX_ENTRIES_def duration_since_def
        restore_feed_interactions_def restore_row_def RECENT_SEEN_TTL_def secs_def Let_def
        SEEN_POST_IDS_SQL_def seen_cutoff_def days_ns_def rebuild_account_tag_feedback_def seen_event_def image_iff)
qed

section \<open>Undo\<close>

text \<open>The three counts of a feedback row, zero where there is none.\<close>

definition counts :: "(int \<times> ustr \<times> ustr, FeedbackRow) table \<Rightarrow> int \<times> ustr \<times> ustr \<Rightarrow> int \<times> int \<times> int" where
  "counts t k = (case tbl_get t k of None \<Rightarrow> (0, 0, 0)
     | Some r \<Rightarrow> (impression_count r, positive_count r, negative_count r))"

fun add3 :: "int \<times> int \<times> int \<Rightarrow> int \<times> int \<times> int \<Rightarrow> int \<times> int \<times> int" where
  "add3 (a, b, c) (i, p, n) = (a + i, b + p, c + n)"

fun sub3 :: "int \<times> int \<times> int \<Rightarrow> int \<times> int \<times> int \<Rightarrow> int \<times> int \<times> int" where
  "sub3 (a, b, c) (i, p, n) = (max 0 (a - i), max 0 (b - p), max 0 (c - n))"

fun nonneg3 :: "int \<times> int \<times> int \<Rightarrow> bool" where
  "nonneg3 (a, b, c) \<longleftrightarrow> 0 \<le> a \<and> 0 \<le> b \<and> 0 \<le> c"

lemma counts_add: "counts (add_feedback a \<delta> now g t) k = (if k = (a, g) then add3 (counts t k) \<delta> else counts t k)"
  by (cases \<delta>) (auto simp: counts_def add_feedback_def split: option.split)

lemma counts_adds:
  "distinct gs \<Longrightarrow> counts (fold (add_feedback a \<delta> now) gs t) k =
     (if fst k = a \<and> snd k \<in> set gs then add3 (counts t k) \<delta> else counts t k)"
  by (induction gs arbitrary: t) (auto simp: counts_add, metis prod.collapse)

lemma adds_dom:
  "tbl_get (fold (add_feedback a \<delta> now) gs t) k \<noteq> None \<longleftrightarrow>
     tbl_get t k \<noteq> None \<or> (fst k = a \<and> snd k \<in> set gs)"
proof (induction gs arbitrary: t)
  case (Cons g gs)
  have "tbl_get (add_feedback a \<delta> now g t) k \<noteq> None \<longleftrightarrow> tbl_get t k \<noteq> None \<or> k = (a, g)"
    by (cases \<delta>) (auto simp: add_feedback_def split: option.split)
  then show ?case using Cons.IH [of "add_feedback a \<delta> now g t"] by (cases k) auto
qed simp

lemma tbl_get_map: "tbl_get (map (\<lambda>(k, r). (k, f k r)) t) k = map_option (f k) (tbl_get t k)"
  by (induction t) (auto simp: tbl_get_def)

lemma counts_reverse:
  assumes "nonneg3 \<delta>"
  shows "counts (account_tag_feedback (reverse_feedback a \<delta> now p d)) (b, name, g) =
     (if b = a \<and> name \<in> fst ` set (post_tags d p) \<and> tbl_get (account_tag_feedback d) (b, name, g) \<noteq> None
      then sub3 (counts (account_tag_feedback d) (b, name, g)) \<delta>
      else counts (account_tag_feedback d) (b, name, g))"
proof -
  obtain i q n where \<delta>: "\<delta> = (i, q, n)" by (cases \<delta>)
  let ?f = "\<lambda>(x, name, group) r. if x = a \<and> name \<in> fst ` set (post_tags d p)
      then r\<lparr>impression_count := max 0 (impression_count r - i), positive_count := max 0 (positive_count r - q),
             negative_count := max 0 (negative_count r - n), last_interaction_at := now\<rparr> else r"
  have "account_tag_feedback (reverse_feedback a \<delta> now p d) = map (\<lambda>(k, r). (k, ?f k r)) (account_tag_feedback d)"
    by (auto simp: reverse_feedback_def \<delta>)
  then show ?thesis
    by (cases "tbl_get (account_tag_feedback d) (b, name, g)") (auto simp: counts_def tbl_get_map \<delta>)
qed

lemma sub3_add3: "nonneg3 c \<Longrightarrow> sub3 (add3 c \<delta>) \<delta> = c"
  by (cases c; cases \<delta>) simp

lemma nonneg_deltas: "nonneg3 (event_deltas e)"
  by (cases e) simp_all

lemma upserts_one:
  "upsert_shown_posts a [p] now d = Inr (n, d') \<Longrightarrow>
     \<exists>r. d' = d\<lparr>feed_shown_posts := tbl_insert (a, p) r (feed_shown_posts d)\<rparr>"
  by (auto simp: upsert_shown_post_def split: option.splits sum.splits if_splits)

lemma record_tx_shape:
  assumes "record_tx tok i now d = Inr (True, d1)"
  obtains r where "may_address (instance_db d) tok (fi_account_id i)"
    "\<not> list_ex (same_key (row_of i now)) (feed_interactions d)"
    "d1 = update_feedback (fi_account_id i) (event_deltas (event_type i)) now (fi_post_id i)
       (d\<lparr>feed_interactions := feed_interactions d @ [row_of i now],
          feed_shown_posts := tbl_insert (fi_account_id i, fi_post_id i) r (feed_shown_posts d)\<rparr>)"
  using assms by (auto simp: record_tx_def insert_interaction_new simp del: upsert_shown_posts.simps
      dest!: upserts_one split: if_splits sum.splits prod.splits)

lemma undo_counts:
  assumes tags: "distinct (post_tags d p)"
    and groups: "\<And>g. tbl_get (account_tag_feedback d) (a, name, g) \<noteq> None \<Longrightarrow>
      name \<in> fst ` set (post_tags d p) \<Longrightarrow> (name, g) \<in> set (post_tags d p)"
    and nonneg: "\<And>k. nonneg3 (counts (account_tag_feedback d) k)"
    and same: "post_tags dx = post_tags d" "account_tag_feedback dx = account_tag_feedback d"
  shows "counts (account_tag_feedback (reverse_feedback a (event_deltas e) now' p
      ((update_feedback a (event_deltas e) now p dx)\<lparr>feed_interactions := fs\<rparr>))) (b, name, g) =
      counts (account_tag_feedback d) (b, name, g)"
proof -
  let ?d = "event_deltas e" and ?d1 = "update_feedback a (event_deltas e) now p dx"
  have up: "counts (account_tag_feedback ?d1) (b, name, g) =
      (if b = a \<and> (name, g) \<in> set (post_tags d p)
       then add3 (counts (account_tag_feedback d) (b, name, g)) ?d
       else counts (account_tag_feedback d) (b, name, g))"
    using counts_adds [OF tags] by (simp add: same update_feedback_def)
  have dom: "tbl_get (account_tag_feedback ?d1) (b, name, g) \<noteq> None \<longleftrightarrow>
      tbl_get (account_tag_feedback d) (b, name, g) \<noteq> None \<or> b = a \<and> (name, g) \<in> set (post_tags d p)"
    using adds_dom [of a ?d now "post_tags d p" "account_tag_feedback d" "(b, name, g)"]
    by (simp add: same update_feedback_def)
  have down: "counts (account_tag_feedback (reverse_feedback a ?d now' p (?d1\<lparr>feed_interactions := fs\<rparr>))) (b, name, g) =
      (if b = a \<and> name \<in> fst ` set (post_tags d p) \<and> tbl_get (account_tag_feedback ?d1) (b, name, g) \<noteq> None
       then sub3 (counts (account_tag_feedback ?d1) (b, name, g)) ?d
       else counts (account_tag_feedback ?d1) (b, name, g))"
    using counts_reverse [OF nonneg_deltas [of e], where b = b and name = name and g = g
        and a = a and p = p and now = now' and d = "?d1\<lparr>feed_interactions := fs\<rparr>"]
    by (simp add: same split del: if_split cong: if_cong)
  have "name \<in> fst ` set (post_tags d p)" if "(name, g) \<in> set (post_tags d p)"
    using that by (force simp: image_iff)
  then show ?thesis using down up dom groups [of g] sub3_add3 [OF nonneg]
    by (cases "b = a \<and> (name, g) \<in> set (post_tags d p)") auto
qed


lemma empty_counts: "counts [] k = (0, 0, 0)"
  by (simp add: counts_def)


text \<open>The reversal goes by the tag's name alone: taking back an interaction with a post
  tagged \<open>x\<close> in one group also lowers what the account's other interactions left for \<open>x\<close> in
  another group.\<close>

theorem undo_hits_other_group:
  "\<exists>d d1 d2 tok i k. record_tx tok i 6 d = Inr (True, d1) \<and> remove_tx tok i 7 d1 = Inr (True, d2) \<and>
     counts (account_tag_feedback d2) k \<noteq> counts (account_tag_feedback d) k"
proof -
  let ?d = "demo_db\<lparr>post_tags := (\<lambda>p. if p = 7 then [(lit ''fox'', lit ''species'')]
       else [(lit ''fox'', lit ''character'')]),
     account_tag_feedback := [((1, lit ''fox'', lit ''character''),
       \<lparr>impression_count = 0, positive_count = 1, negative_count = 0,
        last_interaction_at = 5, last_decayed_at = 5\<rparr>)]\<rparr>"
  have "case record_tx (lit ''tok'') (demo_request 7 Open) 6 ?d of Inl e \<Rightarrow> False
     | Inr (b, d1) \<Rightarrow> b \<and> (case remove_tx (lit ''tok'') (demo_request 7 Open) 7 d1 of Inl e \<Rightarrow> False
          | Inr (b, d2) \<Rightarrow> b \<and> counts (account_tag_feedback d2) (1, lit ''fox'', lit ''character'')
              \<noteq> counts (account_tag_feedback ?d) (1, lit ''fox'', lit ''character''))"
    by (simp add: demo_defs remove_tx_def reverse_feedback_def counts_def Let_def)
  from case_sum_pairD [OF this] obtain d1 where
    r: "record_tx (lit ''tok'') (demo_request 7 Open) 6 ?d = Inr (True, d1)" and
    c: "case remove_tx (lit ''tok'') (demo_request 7 Open) 7 d1 of Inl e \<Rightarrow> False
      | Inr (b, d2) \<Rightarrow> b \<and> counts (account_tag_feedback d2) (1, lit ''fox'', lit ''character'')
          \<noteq> counts (account_tag_feedback ?d) (1, lit ''fox'', lit ''character'')"
    by (elim exE conjE)
  from case_sum_pairD [OF c] obtain d2 where
    "remove_tx (lit ''tok'') (demo_request 7 Open) 7 d1 = Inr (True, d2)"
    "counts (account_tag_feedback d2) (1, lit ''fox'', lit ''character'')
       \<noteq> counts (account_tag_feedback ?d) (1, lit ''fox'', lit ''character'')"
    by (elim exE conjE)
  with r show ?thesis by (intro exI conjI)
qed

section \<open>Batches and errors\<close>

lemma batch_scope:
  "batch_rows is now d ev seen = Inr (ev', seen', d') \<Longrightarrow>
     instance_db d' = instance_db d"
proof (induction "is" now d ev seen rule: batch_rows.induct)
  case (2 i "is" now d ev seen)
  from 2(3) obtain new d1 where ins: "insert_interaction (row_of i now) d = Inr (new, d1)"
    by (auto split: sum.splits)
  then have "instance_db d1 = instance_db d"
    by (auto simp: insert_interaction_def split: if_splits)
  then show ?case using 2(1,2) [OF ins refl] 2(3) ins by (cases new) auto
qed simp

lemma exposures_scope:
  "batch_exposures m now d n = Inr (k, d') \<Longrightarrow>
     instance_db d' = instance_db d"
proof (induction m now d n rule: batch_exposures.induct)
  case (2 b ps m now d n)
  from 2(2) obtain i d1 where s: "upsert_shown_posts b ps now d = Inr (i, d1)"
    "batch_exposures m now d1 (n + i) = Inr (k, d')"
    by (auto split: sum.splits)
  show ?case using 2(1) [OF s(1) refl s(2)] upsert_shown_posts_keeps [OF s(1)] by auto
qed simp

lemma batch_rows_again:
  "batch_rows is now d ev seen = Inr (ev', seen', d') \<Longrightarrow>
     (\<forall>r. list_ex (same_key r) (feed_interactions d) \<longrightarrow> list_ex (same_key r) (feed_interactions d')) \<and>
     (\<forall>i \<in> set is. \<not> event_checked (event_type_text (event_type i)) \<or>
        list_ex (same_key (row_of i now2)) (feed_interactions d'))"
proof (induction "is" now d ev seen rule: batch_rows.induct)
  case (2 i "is" now d ev seen)
  from 2(3) obtain new d1 where ins: "insert_interaction (row_of i now) d = Inr (new, d1)"
    by (auto split: sum.splits)
  have d1: "list_ex (same_key r) (feed_interactions d) \<Longrightarrow> list_ex (same_key r) (feed_interactions d1)" for r
    using ins by (auto simp: insert_interaction_def split: if_splits)
  have i: "\<not> event_checked (event_type_text (event_type i)) \<or>
      list_ex (same_key (row_of i now2)) (feed_interactions d1)"
    using ins by (auto simp: insert_interaction_def list_ex_iff row_of_def split: if_splits)
  obtain ev1 seen1 d2 where "batch_rows is now d2 ev1 seen1 = Inr (ev', seen', d')"
    "feed_interactions d2 = feed_interactions d1"
    using 2(3) ins by (cases new) auto
  moreover have "(\<forall>r. list_ex (same_key r) (feed_interactions d2) \<longrightarrow> list_ex (same_key r) (feed_interactions d')) \<and>
     (\<forall>i \<in> set is. \<not> event_checked (event_type_text (event_type i)) \<or>
        list_ex (same_key (row_of i now2)) (feed_interactions d'))"
    if "feed_interactions d2 = feed_interactions d1"
    using 2(1,2) [OF ins refl] 2(3) ins that by (cases new) auto
  ultimately show ?case using d1 i by auto
qed simp

lemma batch_rows_dups:
  "\<forall>i \<in> set is. \<not> event_checked (event_type_text (event_type i)) \<or>
      list_ex (same_key (row_of i now)) (feed_interactions d) \<Longrightarrow>
     batch_rows is now d ev seen = Inr (ev, seen, d)"
  by (induction "is") (auto simp: insert_interaction_def row_of_def)

text \<open>A batch that is sent again after it was stored changes nothing: no row, no count,
  no exposure, no cache, and reports nothing recorded.\<close>

theorem batch_retry_is_idempotent:
  assumes first: "record_feed_interactions_batch tok is now s = (Inr b, s')"
  shows "record_feed_interactions_batch tok is now' s' = (Inr \<lparr>recorded = [], exposures = 0\<rparr>, s')"
proof (cases "is = []")
  case False
  then obtain ev seen n d where tx: "batch_tx tok is now (db s) = Inr (ev, seen, n, d)" and d: "db s' = d"
    using first by (auto simp: record_feed_interactions_batch_def split: sum.splits prod.splits)
  then obtain d1 where rows: "batch_rows is now (db s) [] [] = Inr (ev, seen, d1)"
      and ex: "batch_exposures seen now d1 0 = Inr (n, d)"
      and scope: "List.find (\<lambda>a. \<not> may_address (instance_db (db s)) tok a) (remdups (map fi_account_id is)) = None"
    by (auto simp: batch_tx_def split: option.splits sum.splits)
  have "may_address (instance_db d) tok = may_address (instance_db (db s)) tok"
    using batch_scope [OF rows] exposures_scope [OF ex] by (simp add: may_address_def fun_eq_iff)
  moreover have "batch_rows is now' d [] [] = Inr ([], [], d)"
    using batch_rows_again [OF rows, of now'] exposures_keep [OF ex] by (intro batch_rows_dups) auto
  ultimately have "batch_tx tok is now' d = Inr ([], [], 0, d)"
    using scope by (simp add: batch_tx_def)
  then show ?thesis using False d by (simp add: record_feed_interactions_batch_def)
qed (use first in \<open>simp add: record_feed_interactions_batch_def\<close>)

theorem batch_retry_is_idempotent_witness:
  "\<exists>s'. record_feed_interactions_batch (lit ''tok'') [demo_request 7 Open, demo_request 8 Open] 5 demo_state
      = (Inr \<lparr>recorded = [lit ''open'', lit ''open''], exposures = 2\<rparr>, s') \<and>
    record_feed_interactions_batch (lit ''tok'') [demo_request 7 Open, demo_request 8 Open] 9 s'
      = (Inr \<lparr>recorded = [], exposures = 0\<rparr>, s')"
proof -
  obtain s' where "record_feed_interactions_batch (lit ''tok'') [demo_request 7 Open, demo_request 8 Open] 5 demo_state
      = (Inr \<lparr>recorded = [lit ''open'', lit ''open''], exposures = 2\<rparr>, s')"
    by (simp add: demo_defs record_feed_interactions_batch_def batch_tx_def push_seen_def)
  then show ?thesis using batch_retry_is_idempotent by blast
qed

end
