(* ===== verification/Jobs.thy ===== *)
theory Jobs
  imports Timed_Table Posts
begin

text \<open>
  The registry of \<open>/process\<close> jobs, \<open>parser-api/src/jobs.rs\<close>: one entry per account, its
  phase and counters, and the two gauges that follow it.  The gauges are fields of the same
  state.  \<open>now\<close> is the instant of the call in nanoseconds; the code reads the clock more
  than once within a call, the model once.
\<close>

record JobPhaseRecord =
  name :: ustr
  elapsed_ms :: f64

datatype ProcessJobPhase = Running | Done | Failed

record ProcessJobState =
  account_id :: int
  phase :: ProcessJobPhase
  pages_total :: "32 word"
  pages_done :: "32 word"
  job_error :: "ustr option"
  started_at :: int
  finished_at :: "int option"
  phases :: "JobPhaseRecord list"
  elapsed_secs :: f64

datatype BeginResult = Started ProcessJobState | AlreadyRunning ProcessJobState

type_synonym job_table = "(int, ProcessJobState) table"

record JobRegistry =
  jobs :: job_table
  process_running_seconds :: int
  process_last_duration_seconds :: int

text \<open>\<open>values().filter(running).map(age).max().unwrap_or(0)\<close>.\<close>

definition running_ages :: "int \<Rightarrow> job_table \<Rightarrow> int list" where
  "running_ages now m =
     map (\<lambda>(_, s). max 0 (num_seconds (now - started_at s))) (filter (\<lambda>(_, s). phase s = Running) m)"

definition refresh_running_seconds :: "int \<Rightarrow> JobRegistry \<Rightarrow> JobRegistry" where
  "refresh_running_seconds now r =
     r\<lparr>process_running_seconds := (case running_ages now (jobs r) of [] \<Rightarrow> 0 | a # as \<Rightarrow> fold max as a)\<rparr>"

definition get_state :: "int \<Rightarrow> JobRegistry \<Rightarrow> ProcessJobState option" where
  "get_state account r = tbl_get (jobs r) account"

definition any_running :: "JobRegistry \<Rightarrow> bool" where
  "any_running r = list_ex (\<lambda>(_, s). phase s = Running) (jobs r)"

definition new_job :: "int \<Rightarrow> int \<Rightarrow> ProcessJobState" where
  "new_job account now = \<lparr>account_id = account, phase = Running, pages_total = 0, pages_done = 0,
     job_error = None, started_at = now, finished_at = None, phases = [], elapsed_secs = 0\<rparr>"

definition try_begin :: "int \<Rightarrow> int \<Rightarrow> JobRegistry \<Rightarrow> BeginResult \<times> JobRegistry" where
  "try_begin account now r =
     (case tbl_get (jobs r) account of
        Some existing \<Rightarrow>
          if phase existing = Running then (AlreadyRunning existing, r)
          else (Started (new_job account now),
                refresh_running_seconds now (r\<lparr>jobs := tbl_insert account (new_job account now) (jobs r)\<rparr>))
      | None \<Rightarrow>
          (Started (new_job account now),
           refresh_running_seconds now (r\<lparr>jobs := tbl_insert account (new_job account now) (jobs r)\<rparr>)))"

text \<open>\<open>get_mut\<close> and a change to the entry found.\<close>

definition change_job :: "int \<Rightarrow> (ProcessJobState \<Rightarrow> ProcessJobState) \<Rightarrow> JobRegistry \<Rightarrow> JobRegistry" where
  "change_job account f r =
     (case tbl_get (jobs r) account of
        None \<Rightarrow> r
      | Some s \<Rightarrow> r\<lparr>jobs := tbl_insert account (f s) (jobs r)\<rparr>)"

definition set_pages_total :: "int \<Rightarrow> 32 word \<Rightarrow> JobRegistry \<Rightarrow> JobRegistry" where
  "set_pages_total account n r = change_job account (\<lambda>s. s\<lparr>pages_total := n\<rparr>) r"

definition record_page_done :: "int \<Rightarrow> int \<Rightarrow> JobRegistry \<Rightarrow> JobRegistry" where
  "record_page_done account now r =
     refresh_running_seconds now (change_job account (\<lambda>s. s\<lparr>pages_done := pages_done s + 1\<rparr>) r)"

definition record_phase :: "int \<Rightarrow> ustr \<Rightarrow> f64 \<Rightarrow> int \<Rightarrow> JobRegistry \<Rightarrow> JobRegistry" where
  "record_phase account nm ms now r =
     refresh_running_seconds now
       (change_job account
          (\<lambda>s. if phase s = Running
               then s\<lparr>phases := phases s @ [\<lparr>name = nm, elapsed_ms = ms\<rparr>],
                      elapsed_secs := real_of_int (num_milliseconds (now - started_at s)) / 1000\<rparr>
               else s) r)"

definition finish_state :: "(ustr + unit) \<Rightarrow> int \<Rightarrow> ProcessJobState \<Rightarrow> ProcessJobState" where
  "finish_state result now s =
     (case result of
        Inr _ \<Rightarrow> s\<lparr>phase := Done, job_error := None, finished_at := Some now\<rparr>
      | Inl e \<Rightarrow> s\<lparr>phase := Failed, job_error := Some e, finished_at := Some now\<rparr>)"

definition finish :: "int \<Rightarrow> (ustr + unit) \<Rightarrow> int \<Rightarrow> JobRegistry \<Rightarrow> JobRegistry" where
  "finish account result now r =
     refresh_running_seconds now
       (case tbl_get (jobs r) account of
          None \<Rightarrow> r
        | Some s \<Rightarrow> r\<lparr>jobs := tbl_insert account (finish_state result now s) (jobs r),
                     process_last_duration_seconds := max 0 (num_seconds (now - started_at s))\<rparr>)"

record JobConfig =
  jobs_finished_retain_secs :: int
  jobs_running_timeout_secs :: int

definition keep_job :: "JobConfig \<Rightarrow> int \<Rightarrow> ProcessJobState \<Rightarrow> bool" where
  "keep_job cfg now s =
     (let cutoff = now - secs (max 0 (jobs_finished_retain_secs cfg));
          running_cutoff = now - secs (max 60 (jobs_running_timeout_secs cfg))
      in if phase s = Running then started_at s > running_cutoff
         else (case finished_at s of None \<Rightarrow> True | Some f \<Rightarrow> f > cutoff))"

definition prune_finished_jobs :: "JobConfig \<Rightarrow> int \<Rightarrow> JobRegistry \<Rightarrow> (nat \<times> nat) \<times> JobRegistry" where
  "prune_finished_jobs cfg now r =
     (let before = length (jobs r);
          kept = tbl_retain (\<lambda>_ s. keep_job cfg now s) (jobs r)
      in ((before, length kept), refresh_running_seconds now (r\<lparr>jobs := kept\<rparr>)))"

section \<open>Lemmas\<close>

lemma jobs_refresh [simp]: "jobs (refresh_running_seconds now r) = jobs r"
  by (simp add: refresh_running_seconds_def)

lemma get_state_refresh [simp]: "get_state a (refresh_running_seconds now r) = get_state a r"
  by (simp add: get_state_def)

lemma get_state_change:
  "get_state b (change_job a f r) = (if b = a then map_option f (get_state a r) else get_state b r)"
  by (simp add: get_state_def change_job_def split: option.split)

lemma get_state_finish:
  "get_state b (finish a res now r) =
     (if b = a then map_option (finish_state res now) (get_state a r) else get_state b r)"
  by (simp add: get_state_def finish_def split: option.split)

lemma phase_finish [simp]: "phase (finish_state res now s) \<noteq> Running"
  by (cases res) (simp_all add: finish_state_def)

lemma get_state_prune:
  "tbl_ok (jobs r) \<Longrightarrow> get_state a (snd (prune_finished_jobs cfg now r)) =
     (case get_state a r of None \<Rightarrow> None | Some s \<Rightarrow> if keep_job cfg now s then Some s else None)"
  by (simp add: get_state_def prune_finished_jobs_def Let_def tbl_get_retain)

lemma get_state_begin:
  "get_state b (snd (try_begin a now r)) =
     (if b = a \<and> \<not> (\<exists>s. get_state a r = Some s \<and> phase s = Running) then Some (new_job a now)
      else get_state b r)"
  by (auto simp: try_begin_def get_state_def split: option.split)

lemma begin_started:
  "(\<exists>s. fst (try_begin a now r) = Started s) \<longleftrightarrow> \<not> (\<exists>s. get_state a r = Some s \<and> phase s = Running)"
  by (auto simp: try_begin_def get_state_def split: option.split)

lemma tbl_ok_jobs [simp]:
  assumes "tbl_ok (jobs r)"
  shows "tbl_ok (jobs (snd (try_begin a now r)))" "tbl_ok (jobs (change_job a f r))"
    "tbl_ok (jobs (finish a res now r))" "tbl_ok (jobs (snd (prune_finished_jobs cfg now r)))"
  using assms by (simp_all add: try_begin_def change_job_def finish_def prune_finished_jobs_def Let_def
      split: option.split)

section \<open>Workers\<close>

text \<open>
  The task a route starts after \<open>Started\<close> reports to the registry and calls \<open>finish\<close> last.
  A step names the account the acting worker works for; \<open>workers\<close> holds those that run.
\<close>

datatype JobStep =
    Begin int
  | Pages_total int "32 word"
  | Page_done int
  | Phase_done int ustr f64
  | Finish int "ustr + unit"
  | Prune_jobs

fun job_step :: "JobConfig \<Rightarrow> JobStep \<Rightarrow> int \<Rightarrow> JobRegistry \<times> int multiset \<Rightarrow> JobRegistry \<times> int multiset" where
  "job_step cfg (Begin a) now (r, ws) =
     (case try_begin a now r of
        (Started _, r') \<Rightarrow> (r', add_mset a ws)
      | (AlreadyRunning _, r') \<Rightarrow> (r', ws))"
| "job_step cfg (Pages_total a n) now (r, ws) = (set_pages_total a n r, ws)"
| "job_step cfg (Page_done a) now (r, ws) = (record_page_done a now r, ws)"
| "job_step cfg (Phase_done a nm ms) now (r, ws) = (record_phase a nm ms now r, ws)"
| "job_step cfg (Finish a res) now (r, ws) = (finish a res now r, ws - {#a#})"
| "job_step cfg Prune_jobs now (r, ws) = (snd (prune_finished_jobs cfg now r), ws)"

text \<open>Only a running worker finishes; \<open>timely\<close>: no job is older than the timeout at a prune.\<close>

fun step_allowed :: "JobStep \<Rightarrow> int multiset \<Rightarrow> bool" where
  "step_allowed (Finish a res) ws \<longleftrightarrow> a \<in># ws"
| "step_allowed _ ws \<longleftrightarrow> True"

definition timely :: "JobConfig \<Rightarrow> JobStep \<Rightarrow> int \<Rightarrow> JobRegistry \<Rightarrow> bool" where
  "timely cfg st now r \<longleftrightarrow> st = Prune_jobs \<longrightarrow>
     list_all (\<lambda>(_, s). phase s = Running \<longrightarrow> keep_job cfg now s) (jobs r)"

inductive job_run :: "JobConfig \<Rightarrow> bool \<Rightarrow> JobRegistry \<Rightarrow> int multiset \<Rightarrow> bool" for cfg strict where
  empty: "job_run cfg strict \<lparr>jobs = [], process_running_seconds = 0, process_last_duration_seconds = 0\<rparr> {#}"
| step: "job_run cfg strict r ws \<Longrightarrow> step_allowed st ws \<Longrightarrow> (strict \<longrightarrow> timely cfg st now r) \<Longrightarrow>
    job_step cfg st now (r, ws) = (r', ws') \<Longrightarrow> job_run cfg strict r' ws'"

definition one_worker :: "JobRegistry \<Rightarrow> int multiset \<Rightarrow> bool" where
  "one_worker r ws \<longleftrightarrow> tbl_ok (jobs r) \<and>
     (\<forall>a. count ws a = (if \<exists>s. get_state a r = Some s \<and> phase s = Running then 1 else 0))"

lemma one_worker_change:
  assumes "one_worker r ws" "\<And>s. phase (f s) = phase s"
  shows "one_worker (change_job a f r) ws"
  using assms by (auto simp: one_worker_def get_state_change)

lemma one_worker_refresh [simp]: "one_worker (refresh_running_seconds now r) ws = one_worker r ws"
  by (simp add: one_worker_def)

lemma one_worker_begin:
  assumes ok: "one_worker r ws" and st: "job_step cfg (Begin a) now (r, ws) = (r', ws')"
  shows "one_worker r' ws'"
proof -
  obtain b where b: "try_begin a now r = (b, r')" and ws': "ws' = (case b of Started _ \<Rightarrow> add_mset a ws | _ \<Rightarrow> ws)"
    using st by (auto split: prod.splits BeginResult.splits)
  show ?thesis
  proof (cases b)
    case (Started s)
    then have "\<not> (\<exists>s. get_state a r = Some s \<and> phase s = Running)"
      using begin_started [of a now r] b by auto
    then show ?thesis
      using ok Started ws' get_state_begin [of _ a now r] tbl_ok_jobs(1) [of r a now] b
      by (auto simp: one_worker_def new_job_def)
  next
    case (AlreadyRunning s)
    then have "r' = r" using b by (auto simp: try_begin_def split: option.splits if_splits)
    then show ?thesis using ok AlreadyRunning ws' by simp
  qed
qed

lemma one_worker_finish:
  assumes ok: "one_worker r ws" and a: "a \<in># ws"
  shows "one_worker (finish a res now r) (ws - {#a#})"
proof -
  have c: "count ws b = (if \<exists>s. get_state b r = Some s \<and> phase s = Running then 1 else 0)" for b
    using ok by (simp add: one_worker_def)
  have "count ws a \<le> 1" using c [of a] by (simp split: if_splits)
  then have "count (ws - {#a#}) b =
      (if \<exists>s. get_state b (finish a res now r) = Some s \<and> phase s = Running then 1 else 0)" for b
    using c [of b] by (cases "b = a") (auto simp: get_state_finish)
  then show ?thesis using ok by (simp add: one_worker_def)
qed

lemma one_worker_step:
  assumes ok: "one_worker r ws" and allowed: "step_allowed st ws" and t: "timely cfg st now r"
    and st: "job_step cfg st now (r, ws) = (r', ws')"
  shows "one_worker r' ws'"
proof (cases st)
  case (Begin a)
  then show ?thesis using ok st one_worker_begin by blast
next
  case (Pages_total a n)
  then show ?thesis using st ok by (auto simp: set_pages_total_def intro: one_worker_change)
next
  case (Page_done a)
  then show ?thesis using st ok by (auto simp: record_page_done_def one_worker_change)
next
  case (Phase_done a nm ms)
  then show ?thesis using st ok by (auto simp: record_phase_def intro!: one_worker_change)
next
  case (Finish a res)
  then show ?thesis using st ok allowed one_worker_finish [of r ws a] by auto
next
  case Prune_jobs
  have "keep_job cfg now s" if "get_state a r = Some s" "phase s = Running" for a s
    using t Prune_jobs that ok
    by (fastforce simp: timely_def list_all_iff one_worker_def get_state_def tbl_get_Some)
  then show ?thesis using st ok Prune_jobs
    by (auto simp: one_worker_def get_state_prune split: option.splits if_splits)
qed

lemma job_run_one_worker: "job_run cfg strict r ws \<Longrightarrow> strict \<Longrightarrow> one_worker r ws"
proof (induction rule: job_run.induct)
  case empty
  then show ?case by (simp add: one_worker_def get_state_def)
next
  case (step r ws st now r' ws')
  then show ?case using one_worker_step by blast
qed

section \<open>Properties\<close>

text \<open>C10. As long as no job outlives the running timeout, an account never has two workers at
  once: however requests, progress reports, results and prunes interleave, the registry says
  that a job runs exactly while one does.\<close>

theorem one_job_per_account:
  assumes run: "job_run cfg True r ws"
  shows "count ws a \<le> 1 \<and> (a \<in># ws \<longleftrightarrow> (\<exists>s. get_state a r = Some s \<and> phase s = Running)) \<and>
    any_running r = (ws \<noteq> {#})"
proof -
  have ok: "one_worker r ws" using job_run_one_worker [OF run] by simp
  then have count: "count ws b = (if \<exists>s. get_state b r = Some s \<and> phase s = Running then 1 else 0)" for b
    by (simp add: one_worker_def)
  have "any_running r \<longleftrightarrow> (\<exists>b s. get_state b r = Some s \<and> phase s = Running)"
    using ok by (fastforce simp: any_running_def list_ex_iff get_state_def tbl_get_Some one_worker_def)
  also have "\<dots> \<longleftrightarrow> (\<exists>b. b \<in># ws)"
    using count by (metis count_greater_zero_iff less_numeral_extra(3) zero_less_one)
  finally show ?thesis using count [of a] by (auto simp flip: count_greater_zero_iff)
qed

definition demo_cfg :: JobConfig where
  "demo_cfg = \<lparr>jobs_finished_retain_secs = 60, jobs_running_timeout_secs = 3600\<rparr>"

abbreviation demo_registry :: JobRegistry where
  "demo_registry \<equiv> \<lparr>jobs = [], process_running_seconds = 0, process_last_duration_seconds = 0\<rparr>"

lemma demo_job_run:
  "job_run demo_cfg True (snd (try_begin 1 5 demo_registry)) {#1#}"
  by (rule job_run.step [OF job_run.empty, of "Begin 1" _ _ 5])
    (auto simp: timely_def try_begin_def split: option.split)

theorem one_job_per_account_witness:
  "count {#1 :: int#} 1 \<le> 1 \<and> any_running (snd (try_begin 1 5 demo_registry))"
  using one_job_per_account [OF demo_job_run, of 1] by simp

text \<open>The registry does not tell workers apart.  A worker that outlives the timeout is
  pruned, the account may start again, and when the first worker then finishes it ends the
  second one's job: a third may start, and two workers run for the same account.\<close>

theorem pruned_worker_frees_its_successor:
  "\<exists>r ws. job_run demo_cfg False r ws \<and> count ws 1 = 2"
proof -
  let ?late = "secs 3601"
  define r1 where "r1 = snd (try_begin 1 0 demo_registry)"
  define r2 where "r2 = snd (prune_finished_jobs demo_cfg ?late r1)"
  define r3 where "r3 = snd (try_begin 1 ?late r2)"
  define r4 where "r4 = finish 1 (Inr ()) ?late r3"
  define r5 where "r5 = snd (try_begin 1 ?late r4)"
  have none: "get_state 1 demo_registry = None" by (simp add: get_state_def)
  have 1: "job_step demo_cfg (Begin 1) 0 (demo_registry, {#}) = (r1, {#1#})"
    by (simp add: r1_def try_begin_def)
  have ok1: "tbl_ok (jobs r1)" by (simp add: r1_def)
  have s1: "get_state 1 r1 = Some (new_job 1 0)" by (simp add: r1_def get_state_begin none)
  have s2: "get_state 1 r2 = None"
    using get_state_prune [OF ok1, of 1 demo_cfg ?late] s1
    by (simp add: r2_def keep_job_def new_job_def demo_cfg_def secs_def)
  have 2: "job_step demo_cfg Prune_jobs ?late (r1, {#1#}) = (r2, {#1#})" by (simp add: r2_def)
  have 3: "job_step demo_cfg (Begin 1) ?late (r2, {#1#}) = (r3, {#1, 1#})"
    using s2 by (simp add: r3_def try_begin_def get_state_def)
  have s3: "get_state 1 r3 = Some (new_job 1 ?late)" by (simp add: r3_def get_state_begin s2)
  have 4: "job_step demo_cfg (Finish 1 (Inr ())) ?late (r3, {#1, 1#}) = (r4, {#1#})" by (simp add: r4_def)
  have s4: "get_state 1 r4 = Some (finish_state (Inr ()) ?late (new_job 1 ?late))"
    by (simp add: r4_def get_state_finish s3)
  have 5: "job_step demo_cfg (Begin 1) ?late (r4, {#1#}) = (r5, {#1, 1#})"
    using s4 by (simp add: r5_def try_begin_def get_state_def)
  have "job_run demo_cfg False r5 {#1, 1#}"
    by (rule job_run.step [OF job_run.step [OF job_run.step [OF job_run.step [OF job_run.step
        [OF job_run.empty _ _ 1] _ _ 2] _ _ 3] _ _ 4] _ _ 5]) simp_all
  moreover have "count {#1, 1 :: int#} 1 = 2" by simp
  ultimately show ?thesis by blast
qed

end
