(* ===== verification/Load_Monitor.thy ===== *)
theory Load_Monitor
  imports Timed_Table
begin

text \<open>
  The outbound rate gate, \<open>parser-api/src/load_monitor.rs\<close>: the estimate of the upstream
  budget, kept in 32 bit words, and the gate that spaces requests.  The atomics and the two
  mutexes are fields of one state.

  \<open>wait\<close> reads the monitor, then takes the gate's lock, then sleeps until the gate is free.
  A step of the model is one request from the time it holds the lock: the waiting tasks get the
  lock in the order they asked for it, and the monitor was read at most as late as that.
\<close>

section \<open>The monitor\<close>

datatype Priority = Live | Prefetch | Backfill

fun priority_rank :: "Priority \<Rightarrow> nat" where
  "priority_rank Live = 0"
| "priority_rank Prefetch = 1"
| "priority_rank Backfill = 2"

instantiation Priority :: linorder
begin

definition less_eq_Priority :: "Priority \<Rightarrow> Priority \<Rightarrow> bool" where
  "p \<le> q \<longleftrightarrow> priority_rank p \<le> priority_rank q"

definition less_Priority :: "Priority \<Rightarrow> Priority \<Rightarrow> bool" where
  "p < q \<longleftrightarrow> priority_rank p < priority_rank q"

instance
proof
  fix p q :: Priority
  show "p \<le> q \<Longrightarrow> q \<le> p \<Longrightarrow> p = q"
    by (cases p; cases q) (simp_all add: less_eq_Priority_def)
qed (auto simp: less_eq_Priority_def less_Priority_def)

end

record RuntimeDelays =
  live_rps_delay_ms :: u64
  prefetch_rps_delay_ms :: u64
  backfill_rps_delay_ms :: u64
  backfill_live_window_ms :: u64

fun base_delay_ms_from :: "Priority \<Rightarrow> RuntimeDelays \<Rightarrow> u64" where
  "base_delay_ms_from Live c = live_rps_delay_ms c"
| "base_delay_ms_from Prefetch c = prefetch_rps_delay_ms c"
| "base_delay_ms_from Backfill c = backfill_rps_delay_ms c"

record E621LoadMonitor =
  last_remaining :: u32
  reset_at :: u64
  sent_since_update :: u32
  last_live_pass :: int

definition UNKNOWN_REMAINING :: u32 where
  "UNKNOWN_REMAINING = 0xFFFFFFFF"

definition monitor_new :: "int \<Rightarrow> E621LoadMonitor" where
  "monitor_new now = \<lparr>last_remaining = UNKNOWN_REMAINING, reset_at = 0, sent_since_update = 0,
     last_live_pass = now\<rparr>"

definition observe_remaining :: "u32 \<Rightarrow> E621LoadMonitor \<Rightarrow> E621LoadMonitor" where
  "observe_remaining remaining m = m\<lparr>last_remaining := remaining, sent_since_update := 0\<rparr>"

definition observe_reset :: "u64 \<Rightarrow> E621LoadMonitor \<Rightarrow> E621LoadMonitor" where
  "observe_reset ts m = m\<lparr>reset_at := ts\<rparr>"

definition record_pass :: "Priority \<Rightarrow> int \<Rightarrow> E621LoadMonitor \<Rightarrow> E621LoadMonitor" where
  "record_pass p now m =
     (let m1 = (if p = Live then m\<lparr>last_live_pass := now\<rparr> else m)
      in m1\<lparr>sent_since_update := sent_since_update m1 + 1\<rparr>)"

definition saturating_sub :: "u32 \<Rightarrow> u32 \<Rightarrow> u32" where
  "saturating_sub a b = (if b \<le> a then a - b else 0)"

definition estimated_remaining :: "E621LoadMonitor \<Rightarrow> u32" where
  "estimated_remaining m =
     (if last_remaining m = UNKNOWN_REMAINING then UNKNOWN_REMAINING
      else saturating_sub (last_remaining m) (sent_since_update m))"

definition ms_since_last_live :: "int \<Rightarrow> E621LoadMonitor \<Rightarrow> u64" where
  "ms_since_last_live now m = word_of_int (duration_since now (last_live_pass m) div 1000000)"

definition budget_multiplier :: "u32 \<Rightarrow> u64" where
  "budget_multiplier remaining =
     (if remaining = UNKNOWN_REMAINING then 2
      else if remaining > 200 then 1
      else if remaining > 100 then 2
      else if remaining > 50 then 3
      else 5)"

section \<open>The gate\<close>

record Gate =
  monitor :: E621LoadMonitor
  next_available :: int

definition live_window_extra :: "RuntimeDelays \<Rightarrow> Priority \<Rightarrow> int \<Rightarrow> E621LoadMonitor \<Rightarrow> u64" where
  "live_window_extra c p now m =
     (if p > Live then
        (let ms_since_live = ms_since_last_live now m; live_window = backfill_live_window_ms c
         in if ms_since_live < live_window
            then max 50 (min 2000 (live_window - ms_since_live))
            else 0)
      else 0)"

definition effective_delay :: "RuntimeDelays \<Rightarrow> Priority \<Rightarrow> int \<Rightarrow> E621LoadMonitor \<Rightarrow> u64" where
  "effective_delay c p now m =
     base_delay_ms_from p c * budget_multiplier (estimated_remaining m) + live_window_extra c p now m"

definition millis :: "u64 \<Rightarrow> int" where
  "millis d = uint d * 1000000"

text \<open>
  \<open>asked\<close> is when the caller reads the monitor, \<open>locked\<close> when it gets the lock; the sleep may
  overrun by \<open>late\<close>.  The result is the instant the request passes.
\<close>

definition wait :: "RuntimeDelays \<Rightarrow> Priority \<Rightarrow> u64 \<Rightarrow> int \<Rightarrow> nat \<Rightarrow> Gate \<Rightarrow> int \<times> Gate" where
  "wait c p delay locked late g =
     (let passed = (if next_available g > locked then next_available g + int late else locked)
      in (passed, g\<lparr>next_available := passed + millis delay, monitor := record_pass p passed (monitor g)\<rparr>))"

record Arrival =
  prio :: Priority
  asked :: int
  locked :: int
  late :: nat

text \<open>Requests in lock order; the delay of each is taken from the monitor as it stood when it
  asked, which an arbitrary earlier state of the monitor stands for.\<close>

fun passes :: "RuntimeDelays \<Rightarrow> (Arrival \<times> E621LoadMonitor) list \<Rightarrow> Gate \<Rightarrow> (Priority \<times> u64 \<times> int) list" where
  "passes c [] g = []"
| "passes c ((a, m) # as) g =
     (let delay = effective_delay c (prio a) (asked a) m;
          (t, g') = wait c (prio a) delay (locked a) (late a) g
      in (prio a, delay, t) # passes c as g')"

section \<open>Lemmas\<close>

lemma millis_nonneg [simp]: "0 \<le> millis d"
  by (simp add: millis_def)

lemma wait_after: "fst (wait c p d l n g) \<ge> next_available g"
  by (simp add: wait_def Let_def)

lemma wait_next: "next_available (snd (wait c p d l n g)) = fst (wait c p d l n g) + millis d"
  by (simp add: wait_def Let_def)

lemma uint_saturating_sub: "uint (saturating_sub a b) = max 0 (uint a - uint b)"
  by (auto simp: saturating_sub_def word_le_def uint_sub_if')

lemma sent_record: "sent_since_update (record_pass p t m) = sent_since_update m + 1"
  "last_remaining (record_pass p t m) = last_remaining m"
  by (simp_all add: record_pass_def Let_def)

fun record_passes :: "(Priority \<times> int) list \<Rightarrow> E621LoadMonitor \<Rightarrow> E621LoadMonitor" where
  "record_passes [] m = m"
| "record_passes ((p, t) # ps) m = record_passes ps (record_pass p t m)"

lemma record_passes_sent:
  "sent_since_update (record_passes ps m) = sent_since_update m + of_nat (length ps)"
  "last_remaining (record_passes ps m) = last_remaining m"
  by (induction ps arbitrary: m) (auto simp: sent_record algebra_simps)

lemma first_pass_after: "passes c as g = (p, d, t) # rest \<Longrightarrow> next_available g \<le> t"
  using wait_after by (cases "as") (auto simp: Let_def split: prod.splits, metis fst_conv wait_after)

text \<open>The passes after the first come no earlier than its delay allows, whoever waits.\<close>

lemma passes_spaced:
  "sorted_wrt (\<lambda>(p, d, t) (p', d', t'). t + millis d \<le> t') (passes c as g) \<and>
     (\<forall>(p, d, t) \<in> set (passes c as g). next_available g \<le> t)"
proof (induction "as" arbitrary: g)
  case (Cons x as)
  obtain a m where x: "x = (a, m)" by (cases x)
  let ?d = "effective_delay c (prio a) (asked a) m"
  obtain t g' where w: "wait c (prio a) ?d (locked a) (late a) g = (t, g')" by fastforce
  have t: "next_available g \<le> t" "next_available g' = t + millis ?d"
    using wait_after [of g c "prio a" ?d "locked a" "late a"] wait_next [of c "prio a" ?d "locked a" "late a" g]
    by (simp_all add: w)
  have "next_available g \<le> u" if "next_available g' \<le> u" for u
    using t that millis_nonneg [of ?d] by linarith
  then show ?case using Cons.IH [of g'] t by (auto simp: x w Let_def)
qed simp

text \<open>The time between the first and the last pass.\<close>

definition total_delay :: "(Priority \<times> u64 \<times> int) list \<Rightarrow> int" where
  "total_delay ps = sum_list (map (\<lambda>(p, d, t). millis d) ps)"

lemma last_pass_late:
  "sorted_wrt (\<lambda>(p, d, t) (p', d', t'). t + millis d \<le> t') (ps @ [(p, d, t)]) \<Longrightarrow>
     \<forall>(p, d, u) \<in> set ps. t0 \<le> u \<Longrightarrow> t0 \<le> t \<Longrightarrow> t0 + total_delay ps \<le> t"
proof (induction ps arbitrary: t0)
  case (Cons x ps)
  obtain q e u where x: "x = (q, e, u)" by (cases x) auto
  have "\<forall>(p, d, v) \<in> set ps. u + millis e \<le> v" "u + millis e \<le> t"
    using Cons.prems(1) by (auto simp: x)
  then have "u + millis e + total_delay ps \<le> t" using Cons by (auto simp: x)
  moreover have "t0 \<le> u" using Cons.prems(2) by (auto simp: x)
  ultimately show ?case by (simp add: x total_delay_def)
qed (simp add: total_delay_def)

section \<open>Properties\<close>

text \<open>C22. The gate holds its rate whatever the callers do: before a request passes, the delays
  of all requests that passed before it have run out, each counted from the pass it belongs to.\<close>

theorem gate_spaces_requests:
  assumes run: "passes c as g = before @ (p, d, t) # rest"
  shows "next_available g + total_delay before \<le> t"
proof -
  let ?after = "\<lambda>(p, d, t) (p', d', t'). t + millis d \<le> t'"
  have s: "sorted_wrt ?after (before @ (p, d, t) # rest) \<and>
      (\<forall>(p, d, u) \<in> set (before @ (p, d, t) # rest). next_available g \<le> u)"
    using passes_spaced [of c "as" g] run by simp
  have "sorted_wrt ?after (before @ [(p, d, t)])" using s by (auto simp: sorted_wrt_append)
  moreover have "\<forall>(p, d, u) \<in> set before. next_available g \<le> u" "next_available g \<le> t" using s by auto
  ultimately show ?thesis by (rule last_pass_late)
qed

definition default_delays :: RuntimeDelays where
  "default_delays = \<lparr>live_rps_delay_ms = 250, prefetch_rps_delay_ms = 500,
     backfill_rps_delay_ms = 750, backfill_live_window_ms = 2000\<rparr>"

definition demo_gate :: Gate where
  "demo_gate = \<lparr>monitor = monitor_new 0, next_available = 0\<rparr>"

definition demo_arrivals :: "(Arrival \<times> E621LoadMonitor) list" where
  "demo_arrivals =
     [(\<lparr>prio = Backfill, asked = 0, locked = 0, late = 0\<rparr>,
       (monitor_new (- secs 60))\<lparr>last_remaining := 20\<rparr>),
      (\<lparr>prio = Live, asked = 0, locked = 0, late = 0\<rparr>, (monitor_new 0)\<lparr>last_remaining := 20\<rparr>)]"

lemmas gate_eval = demo_gate_def demo_arrivals_def default_delays_def monitor_new_def wait_def
  effective_delay_def live_window_extra_def budget_multiplier_def estimated_remaining_def
  UNKNOWN_REMAINING_def saturating_sub_def ms_since_last_live_def duration_since_def secs_def
  less_Priority_def millis_def

lemma demo_passes:
  "passes default_delays demo_arrivals demo_gate = [(Backfill, 3750, 0), (Live, 1250, 3750000000)]"
  by (simp add: gate_eval)

theorem gate_spaces_requests_witness: "total_delay [(Backfill, 3750, 0)] \<le> 3750000000"
  using gate_spaces_requests [of default_delays demo_arrivals demo_gate "[(Backfill, 3750, 0)]"]
    demo_passes by (simp add: demo_gate_def)

text \<open>The gate does not let a live request overtake: with a low budget, one that arrives
  right after a backfill request passed waits out the backfill's 3.75 seconds.\<close>

theorem live_waits_for_backfill:
  "\<exists>tb tl db dl. passes default_delays demo_arrivals demo_gate = [(Backfill, db, tb), (Live, dl, tl)] \<and>
     tl - tb = 3750000000"
  by (simp add: demo_passes)

text \<open>Between two answers of the upstream the estimate counts down from the budget it
  reported, by one per request, and stops at zero.\<close>

theorem estimate_counts_down:
  assumes known: "remaining \<noteq> UNKNOWN_REMAINING" and few: "length ps < 2 ^ 32"
  shows "uint (estimated_remaining (record_passes ps (observe_remaining remaining m))) =
    max 0 (uint remaining - int (length ps))"
proof -
  have "uint (of_nat (length ps) :: u32) = int (length ps)"
    using few by (simp add: unsigned_of_nat take_bit_nat_eq_self)
  then show ?thesis
    using known by (simp add: estimated_remaining_def record_passes_sent observe_remaining_def
        uint_saturating_sub)
qed

theorem estimate_counts_down_witness:
  "uint (estimated_remaining (record_passes [(Live, 1), (Backfill, 2)]
     (observe_remaining 5 (monitor_new 0)))) = 3"
  using estimate_counts_down [of 5 "[(Live, 1), (Backfill, 2)]" "monitor_new 0"]
  by (simp add: UNKNOWN_REMAINING_def)

end
