(* ===== verification/Interaction_Queue.thy ===== *)
theory Interaction_Queue
  imports Posts
begin

text \<open>
  The buffer of feed interactions in the browser, \<open>parser-web/src/interaction_queue.rs\<close>.  The
  two thread locals are \<open>task\<close> and \<open>timer_id\<close>; \<open>timers\<close> are the time-outs the browser holds
  and \<open>sent\<close> the batches handed to the network, oldest first.  \<open>set_timeout\<close> answers with a
  fresh positive handle or fails, and there may be no window: both are arguments.  Encoding a
  batch as JSON does not fail on these types.
\<close>

definition FLUSH_AT :: nat where "FLUSH_AT = 60"

record Pending =
  backend_url :: ustr
  pd_interactions :: "FeedInteractionRequest list"

record QueueState =
  task :: "Pending option"
  timer_id :: int
  timers :: "int set"
  sent :: "(ustr \<times> BatchInteractionRequest) list"

definition queue_new :: QueueState where
  "queue_new = \<lparr>task = None, timer_id = 0, timers = {}, sent = []\<rparr>"

definition clear_timer :: "bool \<Rightarrow> QueueState \<Rightarrow> QueueState" where
  "clear_timer win s =
     (let i = timer_id s; s1 = s\<lparr>timer_id := 0\<rparr>
      in if i \<noteq> 0 \<and> win then s1\<lparr>timers := timers s1 - {i}\<rparr> else s1)"

definition send_batch :: "ustr \<Rightarrow> BatchInteractionRequest \<Rightarrow> QueueState \<Rightarrow> QueueState" where
  "send_batch url payload s = s\<lparr>sent := sent s @ [(url, payload)]\<rparr>"

definition flush :: "bool \<Rightarrow> QueueState \<Rightarrow> QueueState" where
  "flush win s =
     (let s1 = clear_timer win s; pending = task s1; s2 = s1\<lparr>task := None\<rparr>
      in case pending of
           None \<Rightarrow> s2
         | Some p \<Rightarrow>
             if pd_interactions p \<noteq> [] then send_batch (backend_url p) \<lparr>interactions = pd_interactions p\<rparr> s2
             else s2)"

definition flush_keepalive :: "bool \<Rightarrow> QueueState \<Rightarrow> QueueState" where
  "flush_keepalive win s =
     (let s1 = clear_timer win s; pending = task s1; s2 = s1\<lparr>task := None\<rparr>
      in case pending of
           None \<Rightarrow> s2
         | Some p \<Rightarrow>
             if pd_interactions p = [] then s2
             else if \<not> win then s2
             else send_batch (backend_url p) \<lparr>interactions = pd_interactions p\<rparr> s2)"

definition schedule_debounce :: "bool \<Rightarrow> int option \<Rightarrow> QueueState \<Rightarrow> QueueState" where
  "schedule_debounce win timeout s =
     (if timer_id s \<noteq> 0 then s
      else if \<not> win then flush win s
      else case timeout of
             Some i \<Rightarrow> s\<lparr>timer_id := i, timers := insert i (timers s)\<rparr>
           | None \<Rightarrow> flush win s)"

definition push :: "bool \<Rightarrow> int option \<Rightarrow> ustr \<Rightarrow> FeedInteractionRequest \<Rightarrow> QueueState \<Rightarrow> QueueState" where
  "push win timeout url req s =
     (let explicit = (case event_type req of QualifiedImpression \<Rightarrow> False | _ \<Rightarrow> True);
          pending = (case task s of Some p \<Rightarrow> p | None \<Rightarrow> \<lparr>backend_url = url, pd_interactions = []\<rparr>);
          p1 = pending\<lparr>pd_interactions := pd_interactions pending @ [req]\<rparr>;
          s1 = s\<lparr>task := Some p1\<rparr>
      in if explicit \<or> length (pd_interactions p1) \<ge> FLUSH_AT then flush win s1
         else schedule_debounce win timeout s1)"

text \<open>The callback of a time-out; the browser drops the time-out as it fires.\<close>

definition timer_fires :: "bool \<Rightarrow> int \<Rightarrow> QueueState \<Rightarrow> QueueState" where
  "timer_fires win i s = flush win (s\<lparr>timers := timers s - {i}, timer_id := 0\<rparr>)"

section \<open>Runs\<close>

inductive queue_run :: "FeedInteractionRequest list \<Rightarrow> QueueState \<Rightarrow> bool" where
  start: "queue_run [] queue_new"
| push: "queue_run rs s \<Longrightarrow> (\<And>i. timeout = Some i \<Longrightarrow> 0 < i \<and> i \<notin> timers s) \<Longrightarrow>
    queue_run (rs @ [r]) (push True timeout url r s)"
| timer: "queue_run rs s \<Longrightarrow> i \<in> timers s \<Longrightarrow> queue_run rs (timer_fires True i s)"
| unload: "queue_run rs s \<Longrightarrow> queue_run rs (flush_keepalive True s)"

definition buffered :: "QueueState \<Rightarrow> FeedInteractionRequest list" where
  "buffered s = (case task s of None \<Rightarrow> [] | Some p \<Rightarrow> pd_interactions p)"

definition delivered :: "QueueState \<Rightarrow> FeedInteractionRequest list" where
  "delivered s = concat (map (interactions \<circ> snd) (sent s))"

definition queue_ok :: "QueueState \<Rightarrow> bool" where
  "queue_ok s \<longleftrightarrow>
     length (buffered s) < FLUSH_AT \<and>
     (\<forall>(url, b) \<in> set (sent s). 0 < length (interactions b) \<and> length (interactions b) \<le> FLUSH_AT) \<and>
     timers s = (if timer_id s = 0 then {} else {timer_id s}) \<and>
     (buffered s \<noteq> [] \<longrightarrow> timer_id s \<noteq> 0)"

lemma flush_spec:
  assumes "length (buffered s) \<le> FLUSH_AT"
    and "\<forall>(url, b) \<in> set (sent s). 0 < length (interactions b) \<and> length (interactions b) \<le> FLUSH_AT"
    and "timers s = (if timer_id s = 0 then {} else {timer_id s})"
  shows "queue_ok (flush True s) \<and> buffered (flush True s) = [] \<and>
    delivered (flush True s) = delivered s @ buffered s"
  using assms
  by (auto simp: flush_def clear_timer_def send_batch_def queue_ok_def buffered_def delivered_def
      FLUSH_AT_def Let_def split: option.splits)

lemma keepalive_flush: "flush_keepalive True s = flush True s"
  by (simp add: flush_keepalive_def flush_def Let_def split: option.split)

lemma push_spec:
  assumes ok: "queue_ok s" and fresh: "\<And>i. timeout = Some i \<Longrightarrow> 0 < i \<and> i \<notin> timers s"
  shows "queue_ok (push True timeout url r s) \<and>
    delivered (push True timeout url r s) @ buffered (push True timeout url r s)
      = delivered s @ buffered s @ [r]"
proof -
  define s1 where "s1 = s\<lparr>task := Some ((case task s of Some p \<Rightarrow> p | None \<Rightarrow> \<lparr>backend_url = url, pd_interactions = []\<rparr>)
      \<lparr>pd_interactions := buffered s @ [r]\<rparr>)\<rparr>"
  have s1: "buffered s1 = buffered s @ [r]" "delivered s1 = delivered s" "sent s1 = sent s"
    "timers s1 = timers s" "timer_id s1 = timer_id s"
    by (simp_all add: s1_def buffered_def delivered_def)
  have fl: "queue_ok (flush True s1) \<and> buffered (flush True s1) = [] \<and>
      delivered (flush True s1) = delivered s @ buffered s @ [r]"
    using flush_spec [of s1] ok s1 by (auto simp: queue_ok_def)
  let ?now = "event_type r \<noteq> QualifiedImpression \<or> length (buffered s @ [r]) \<ge> FLUSH_AT"
  have push: "push True timeout url r s = (if ?now then flush True s1 else schedule_debounce True timeout s1)"
    by (cases "event_type r"; cases "task s") (simp_all add: push_def s1_def buffered_def Let_def)
  show ?thesis
  proof (cases ?now)
    case True
    then show ?thesis using fl by (simp add: push)
  next
    case False
    let ?s = "schedule_debounce True timeout s1"
    have "?s = flush True s1 \<or> (queue_ok ?s \<and> buffered ?s = buffered s @ [r] \<and> delivered ?s = delivered s)"
      using False ok fresh s1
      by (auto simp: schedule_debounce_def queue_ok_def buffered_def delivered_def split: option.splits if_splits)
    then show ?thesis using fl False by (auto simp: push)
  qed
qed

lemma queue_run_ok: "queue_run rs s \<Longrightarrow> queue_ok s \<and> delivered s @ buffered s = rs"
proof (induction rule: queue_run.induct)
  case start
  then show ?case by (simp add: queue_new_def queue_ok_def buffered_def delivered_def FLUSH_AT_def)
next
  case (push rs s timeout r url)
  then show ?case using push_spec [of s timeout url r] by auto
next
  case (timer rs s i)
  let ?s = "s\<lparr>timers := timers s - {i}, timer_id := 0\<rparr>"
  have "timers s - {i} = {}" "buffered ?s = buffered s" "delivered ?s = delivered s"
    using timer by (auto simp: queue_ok_def buffered_def delivered_def split: if_splits)
  then show ?case
    using timer flush_spec [of ?s] by (auto simp: timer_fires_def queue_ok_def)
next
  case (unload rs s)
  then show ?case using flush_spec [of s] by (auto simp: keepalive_flush queue_ok_def)
qed

section \<open>Properties\<close>

text \<open>C12. No interaction is lost, duplicated or reordered in the browser: what was pushed is
  what was handed to the network followed by what waits, each batch holds between one and
  sixty of them, and something that waits has a timer running for it.\<close>

theorem queue_loses_nothing:
  assumes run: "queue_run rs s"
  shows "delivered s @ buffered s = rs \<and> length (buffered s) < 60 \<and>
    (\<forall>(url, b) \<in> set (sent s). 0 < length (interactions b) \<and> length (interactions b) \<le> 60) \<and>
    (buffered s \<noteq> [] \<longrightarrow> timer_id s \<in> timers s)"
  using queue_run_ok [OF run] by (auto simp: queue_ok_def FLUSH_AT_def)

theorem queue_loses_nothing_witness:
  "let r = \<lparr>fi_account_id = 1, fi_post_id = 7, event_type = QualifiedImpression, position = 0,
             session_id = []\<rparr>;
       s = push True (Some 4) [] (r\<lparr>fi_post_id := 8\<rparr>) (push True (Some 3) [] r queue_new)
   in delivered s @ buffered s = [r, r\<lparr>fi_post_id := 8\<rparr>] \<and> timer_id s = 3"
proof -
  let ?r = "\<lparr>fi_account_id = 1, fi_post_id = 7, event_type = QualifiedImpression, position = 0,
             session_id = []\<rparr>"
  have one: "queue_run ([] @ [?r]) (push True (Some 3) [] ?r queue_new)"
    by (rule queue_run.push [OF queue_run.start]) (simp add: queue_new_def)
  have "queue_run (([] @ [?r]) @ [?r\<lparr>fi_post_id := 8\<rparr>])
      (push True (Some 4) [] (?r\<lparr>fi_post_id := 8\<rparr>) (push True (Some 3) [] ?r queue_new))"
    by (rule queue_run.push [OF one])
      (simp add: push_def queue_new_def schedule_debounce_def FLUSH_AT_def)
  from queue_loses_nothing [OF this] show ?thesis
    by (simp add: push_def queue_new_def schedule_debounce_def FLUSH_AT_def buffered_def)
qed



end
