(* ===== verification/Blacklist.thy ===== *)
theory Blacklist
  imports Validation
begin

text \<open>
  The account blacklist, \<open>parser-api/src/utils/blacklist.rs\<close>: the text becomes rules, and the
  rules decide which posts are hidden, what the upstream query requires and excludes, and which
  plain tags are down-weighted.
\<close>

section \<open>Rules\<close>

definition REQUIRE_PREFIX :: ustr where "REQUIRE_PREFIX = lit ''require:''"

definition REQUIRE_TAGS :: "ustr list" where
  "REQUIRE_TAGS = [lit ''video'', lit ''animated'']"

definition comment_line :: "ustr \<Rightarrow> bool" where
  "comment_line l \<longleftrightarrow> starts_with [35] l"

definition strip_dashes :: "ustr \<Rightarrow> ustr" where
  "strip_dashes r = trim_start_matches (\<lambda>c. c = 45) r"

definition rules :: "ustr \<Rightarrow> ustr list" where
  "rules blacklist =
     filter (\<lambda>r. r \<noteq> [])
       (map strip_dashes
         (concat (map split_whitespace
           (filter (\<lambda>l. l \<noteq> [] \<and> \<not> comment_line l) (map trim (str_lines blacklist))))))"

text \<open>
  \<open>rule.get(..8)\<close> takes bytes.  The prefix is ASCII, so only a rule whose first eight
  characters are ASCII can match it, and there bytes and characters agree.
\<close>

definition require_payload :: "ustr \<Rightarrow> ustr option" where
  "require_payload rule =
     (if eq_ignore_ascii_case (take (length REQUIRE_PREFIX) rule) REQUIRE_PREFIX
      then Some (drop (length REQUIRE_PREFIX) rule) else None)"

definition require_tag :: "ustr \<Rightarrow> ustr option" where
  "require_tag rule =
     (case require_payload rule of None \<Rightarrow> None
      | Some payload \<Rightarrow> List.find (eq_ignore_ascii_case payload) REQUIRE_TAGS)"

definition all_tags :: "Tags \<Rightarrow> ustr list" where
  "all_tags t = general t @ artist t @ copyright t @ character t @ species t @ invalid t @ meta t @
     lore t @ contributor t"

definition has_tag_in :: "Post \<Rightarrow> ustr \<Rightarrow> bool" where
  "has_tag_in post tag = list_ex (\<lambda>v. eq_ignore_ascii_case v tag) (all_tags (tags post))"

definition has_meta_tag :: "Post \<Rightarrow> ustr \<Rightarrow> bool" where
  "has_meta_tag post tag = list_ex (\<lambda>v. eq_ignore_ascii_case v tag) (meta (tags post))"

section \<open>Matching\<close>

definition rule_matches :: "Post \<Rightarrow> bool \<Rightarrow> ustr \<Rightarrow> bool" where
  "rule_matches post all_t rule =
     (case require_tag rule of
        Some tag \<Rightarrow> \<not> has_meta_tag post tag
      | None \<Rightarrow>
         (case strip_prefix (lit ''uploader:!'') rule of
            Some i \<Rightarrow> (case parse_i64 i of None \<Rightarrow> False | Some n \<Rightarrow> n = uploader_id post)
          | None \<Rightarrow>
              if rule = lit ''rating:s'' \<or> rule = lit ''rating:safe'' then rating post = S
              else if rule = lit ''rating:q'' \<or> rule = lit ''rating:questionable'' then rating post = Q
              else if rule = lit ''rating:e'' \<or> rule = lit ''rating:explicit'' then rating post = E
              else if rule = lit ''video'' \<or> rule = lit ''animated'' then has_meta_tag post rule
              else if \<not> all_t \<or> 58 \<in> set rule then False
              else has_tag_in post rule))"

definition matches_impl :: "Post \<Rightarrow> ustr \<Rightarrow> bool \<Rightarrow> bool" where
  "matches_impl post blacklist all_t = list_ex (rule_matches post all_t) (rules blacklist)"

definition matches :: "Post \<Rightarrow> ustr \<Rightarrow> bool" where
  "matches post blacklist = matches_impl post blacklist True"

definition matches_metatag :: "Post \<Rightarrow> ustr \<Rightarrow> bool" where
  "matches_metatag post blacklist = matches_impl post blacklist False"

section \<open>What the query and the scorer take from it\<close>

record QueryTerms =
  required :: "ustr list"
  excluded :: "ustr list"

definition add_term :: "ustr \<Rightarrow> QueryTerms \<Rightarrow> QueryTerms" where
  "add_term rule terms =
     (case require_tag rule of
        Some tag \<Rightarrow> terms\<lparr>required := required terms @ [tag]\<rparr>
      | None \<Rightarrow> if require_payload rule = None then terms\<lparr>excluded := excluded terms @ [rule]\<rparr> else terms)"

definition query_terms :: "ustr \<Rightarrow> QueryTerms" where
  "query_terms blacklist = fold add_term (rules blacklist) \<lparr>required = [], excluded = []\<rparr>"

text \<open>\<open>to_lowercase\<close> is Unicode's; the function is an argument.\<close>

fun first_seen :: "ustr list \<Rightarrow> ustr list \<Rightarrow> ustr list" where
  "first_seen seen [] = []"
| "first_seen seen (t # ts) = (if t \<in> set seen then first_seen seen ts else t # first_seen (t # seen) ts)"

definition simple_tags :: "(ustr \<Rightarrow> ustr) \<Rightarrow> ustr \<Rightarrow> ustr list" where
  "simple_tags to_lowercase blacklist =
     first_seen [] (map to_lowercase (filter (\<lambda>r. 58 \<notin> set r) (rules blacklist)))"

section \<open>Lines\<close>

text \<open>Both ways of splitting a text into lines give the same trimmed lines.\<close>

lemma trim_ws_end: "is_whitespace c \<Longrightarrow> trim (s @ [c]) = trim s"
  by (cases "\<forall>x \<in> set s. is_whitespace x")
    (auto simp: trim_def trim_matches_def dropWhile_append dropWhile_eq_Nil_conv dest: set_dropWhileD)

lemma trim_line_end: "trim (strip_line_end l) = trim l"
proof -
  have lf: "is_whitespace 10" "is_whitespace 13" by (simp_all add: is_whitespace_def)
  have "trim (butlast l) = trim l" if "l \<noteq> []" "is_whitespace (last l)" for l
    using trim_ws_end [OF that(2), of "butlast l"] that(1) by simp
  then show ?thesis using lf
    by (auto simp: strip_line_end_def strip_suffix_char_def split: option.splits)
qed

lemma split_inclusive_pieces:
  "filter (\<lambda>l. l \<noteq> []) (map trim (split_inclusive 10 s)) = filter (\<lambda>l. l \<noteq> []) (map trim (split_char 10 s))"
proof -
  have "map trim (split_char 10 s) = map trim (split_inclusive 10 s) \<or>
      map trim (split_char 10 s) = map trim (split_inclusive 10 s) @ [[]]"
  proof -
    have nl: "is_whitespace 10" by (simp add: is_whitespace_def)
    have "\<exists>zs. split_char 10 s = map (\<lambda>l. if l \<noteq> [] \<and> last l = 10 then butlast l else l) (split_inclusive 10 s) @ zs
        \<and> (zs = [] \<or> zs = [[]])"
    proof (induction s)
      case (Cons c s)
      then obtain zs where zs: "split_char 10 s = map (\<lambda>l. if l \<noteq> [] \<and> last l = 10 then butlast l else l)
          (split_inclusive 10 s) @ zs" "zs = [] \<or> zs = [[]]" by blast
      show ?case
      proof (cases "c = 10")
        case True
        then show ?thesis using zs by auto
      next
        case False
        then show ?thesis using zs split_char_nonempty [of 10 s]
          by (cases "split_inclusive 10 s") (auto split: list.splits)
      qed
    qed simp
    moreover have "trim (if l \<noteq> [] \<and> last l = 10 then butlast l else l) = trim l" for l
      using trim_ws_end [OF nl, of "butlast l"] by (metis append_butlast_last_id)
    ultimately show ?thesis by (auto simp: trim_def)
  qed
  then show ?thesis by auto
qed

definition rule_lines :: "ustr \<Rightarrow> ustr list" where
  "rule_lines bl = filter (\<lambda>l. l \<noteq> []) (map trim (split_char 10 bl))"

definition line_rules :: "ustr \<Rightarrow> ustr list" where
  "line_rules l = (if comment_line l then [] else filter (\<lambda>r. r \<noteq> []) (map strip_dashes (split_whitespace l)))"

lemma rules_lines: "rules bl = concat (map line_rules (rule_lines bl))"
proof -
  have "map trim (str_lines bl) = map trim (split_inclusive 10 bl)"
    by (simp add: str_lines_def trim_line_end)
  then have "rule_lines bl = filter (\<lambda>l. l \<noteq> []) (map trim (str_lines bl))"
    using split_inclusive_pieces [of bl] by (simp add: rule_lines_def)
  then have "filter (\<lambda>l. l \<noteq> [] \<and> \<not> comment_line l) (map trim (str_lines bl))
      = filter (\<lambda>l. \<not> comment_line l) (rule_lines bl)"
    by (simp add: conj_commute)
  moreover have "filter (\<lambda>r. r \<noteq> []) (map strip_dashes (concat (map split_whitespace (filter (\<lambda>l. \<not> comment_line l) ls))))
      = concat (map line_rules ls)" for ls
    by (induction ls) (auto simp: line_rules_def)
  ultimately show ?thesis by (simp add: rules_def)
qed

lemma set_rules: "set (rules bl) = (\<Union>l \<in> set (rule_lines bl). set (line_rules l))"
  by (auto simp: rules_lines)

lemma matches_rules: "matches post bl \<longleftrightarrow> (\<exists>l \<in> set (rule_lines bl). \<exists>r \<in> set (line_rules l). rule_matches post True r)"
  by (auto simp: matches_def matches_impl_def list_ex_iff set_rules)

section \<open>Normalising\<close>

lemma keep_new_lines_step:
  "keep_new_lines seen (raw # ls) =
     (if trim raw = [] \<or> to_ascii_lowercase (trim raw) \<in> set seen then keep_new_lines seen ls
      else trim raw # keep_new_lines (to_ascii_lowercase (trim raw) # seen) ls)"
  by (simp add: trim_def Let_def)

lemma kept_lines_trimmed:
  "l \<in> set (keep_new_lines seen ls) \<Longrightarrow> \<exists>raw \<in> set ls. l = trim raw \<and> l \<noteq> []"
proof (induction ls arbitrary: seen)
  case (Cons raw ls)
  show ?case
  proof (cases "l \<in> set (keep_new_lines seen ls) \<or> l \<in> set (keep_new_lines (to_ascii_lowercase (trim raw) # seen) ls)")
    case True
    then show ?thesis using Cons.IH by auto
  next
    case False
    then have "l = trim raw" "l \<noteq> []"
      using Cons.prems by (simp_all add: keep_new_lines_step del: keep_new_lines.simps split: if_splits)
    then show ?thesis by auto
  qed
qed simp

lemma kept_lines_cover:
  "raw \<in> set ls \<Longrightarrow> trim raw \<noteq> [] \<Longrightarrow>
     to_ascii_lowercase (trim raw) \<in> set seen \<or>
     (\<exists>l \<in> set (keep_new_lines seen ls). to_ascii_lowercase l = to_ascii_lowercase (trim raw))"
proof (induction ls arbitrary: seen)
  case (Cons r ls)
  show ?case
  proof (cases "raw = r")
    case True
    then show ?thesis using Cons.prems(2) by (simp add: keep_new_lines_step del: keep_new_lines.simps)
  next
    case False
    then have raw: "raw \<in> set ls" using Cons.prems(1) by simp
    show ?thesis
      using Cons.IH [OF raw Cons.prems(2), of seen]
        Cons.IH [OF raw Cons.prems(2), of "to_ascii_lowercase (trim r) # seen"]
      by (auto simp: keep_new_lines_step simp del: keep_new_lines.simps)
  qed
qed simp

lemma rule_lines_normalize: "rule_lines (normalize_blacklist bl) = keep_new_lines [] (split_char 10 bl)"
proof -
  let ?k = "keep_new_lines [] (split_char 10 bl)"
  have k: "10 \<notin> set l \<and> trim l = l \<and> l \<noteq> []" if "l \<in> set ?k" for l
    using kept_lines_trimmed [OF that] split_char_pieces set_trim by fastforce
  show ?thesis
  proof (cases "?k = []")
    case True
    then show ?thesis by (simp add: rule_lines_def normalize_blacklist_def trim_def trim_matches_def)
  next
    case False
    then have "split_char 10 (normalize_blacklist bl) = ?k"
      using split_char_join [of ?k 10] k by (simp add: normalize_blacklist_def)
    moreover have "map trim ?k = ?k" using k by (simp add: map_idI)
    ultimately show ?thesis using k by (simp add: rule_lines_def)
  qed
qed

lemma set_rule_lines_normalize:
  assumes low: "\<forall>l \<in> set (rule_lines bl). to_ascii_lowercase l = l"
  shows "set (rule_lines (normalize_blacklist bl)) = set (rule_lines bl)"
  unfolding rule_lines_normalize
proof
  show "set (keep_new_lines [] (split_char 10 bl)) \<subseteq> set (rule_lines bl)"
    using kept_lines_trimmed by (fastforce simp: rule_lines_def)
  show "set (rule_lines bl) \<subseteq> set (keep_new_lines [] (split_char 10 bl))"
  proof
    fix l assume l: "l \<in> set (rule_lines bl)"
    then obtain raw where raw: "raw \<in> set (split_char 10 bl)" "l = trim raw" "l \<noteq> []"
      by (auto simp: rule_lines_def)
    then obtain k where k: "k \<in> set (keep_new_lines [] (split_char 10 bl))"
        "to_ascii_lowercase k = to_ascii_lowercase l"
      using kept_lines_cover [of raw _ "[]"] by auto
    have "k \<in> set (rule_lines bl)"
      using kept_lines_trimmed [OF k(1)] by (auto simp: rule_lines_def)
    then show "l \<in> set (keep_new_lines [] (split_char 10 bl))" using k low l by metis
  qed
qed

section \<open>Properties\<close>

lemma lowercase_lines:
  assumes "to_ascii_lowercase bl = bl" "l \<in> set (rule_lines bl)" shows "to_ascii_lowercase l = l"
proof -
  have pieces: "p \<in> set (split_char 10 s) \<Longrightarrow> set p \<subseteq> set s" for p s
    by (induction s arbitrary: p) (fastforce split: if_splits list.splits)+
  have "set l \<subseteq> set bl" using assms(2) pieces set_trim by (fastforce simp: rule_lines_def)
  moreover have "\<forall>c \<in> set bl. lower_char c = c"
    using assms(1) by (simp add: to_ascii_lowercase_def map_idI list_eq_iff_nth_eq all_set_conv_all_nth)
  ultimately show ?thesis by (auto simp: to_ascii_lowercase_def intro!: map_idI)
qed

text \<open>C21. Normalising a blacklist written in lower case hides exactly the posts it hid before.\<close>

theorem normalize_preserves_matching:
  assumes "to_ascii_lowercase bl = bl"
  shows "matches post (normalize_blacklist bl) = matches post bl"
  using set_rule_lines_normalize [of bl] lowercase_lines [OF assms] by (simp add: matches_rules)

definition rated :: "Rating \<Rightarrow> Post" where
  "rated r = (sample_post 1 0 [])\<lparr>rating := r\<rparr>"

lemmas blacklist_eval = rated_def sample_post_def matches_def matches_impl_def rules_def str_lines_def
  strip_line_end_def strip_suffix_char_def trim_def trim_matches_def is_whitespace_def comment_line_def
  starts_with_def split_whitespace_def strip_dashes_def trim_start_matches_def rule_matches_def
  require_tag_def require_payload_def REQUIRE_PREFIX_def REQUIRE_TAGS_def eq_ignore_ascii_case_def
  lower_char_def is_ascii_uppercase_def strip_prefix_def has_tag_in_def all_tags_def Tags_default_def
  normalize_blacklist_def

theorem normalize_preserves_matching_witness:
  "matches (rated E) (normalize_blacklist (lit ''rating:e'' @ [10] @ lit ''rating:e''))"
proof -
  have "to_ascii_lowercase (lit ''rating:e'' @ [10] @ lit ''rating:e'') = lit ''rating:e'' @ [10] @ lit ''rating:e''"
    by (simp add: lower_char_def is_ascii_uppercase_def)
  moreover have "matches (rated E) (lit ''rating:e'' @ [10] @ lit ''rating:e'')"
    by (simp add: blacklist_eval)
  ultimately show ?thesis using normalize_preserves_matching by blast
qed

text \<open>Normalising merges lines up to case while matching tells them apart: a text whose
  second line hides explicit posts loses that line to a first one that hides nothing.\<close>

theorem normalize_can_unhide:
  "matches (rated E) (lit ''rating:E'' @ [10] @ lit ''rating:e'') \<and>
   \<not> matches (rated E) (normalize_blacklist (lit ''rating:E'' @ [10] @ lit ''rating:e''))"
  by (simp add: blacklist_eval)

lemma split_ws_acc_word:
  "list_all (\<lambda>c. \<not> is_whitespace c) w \<Longrightarrow> split_ws_acc a w = (if w = [] \<and> a = [] then [] else [rev a @ w])"
  by (induction w arbitrary: a) auto

lemma word_rule_lines:
  assumes "w \<noteq> []" "list_all (\<lambda>c. \<not> is_whitespace c) w" shows "rule_lines w = [w]"
proof -
  have ws: "\<forall>c \<in> set w. \<not> is_whitespace c" using assms(2) by (simp add: list_all_iff)
  have "is_whitespace 10" by (simp add: is_whitespace_def)
  then have "10 \<notin> set w" using ws by blast
  moreover have "trim w = w"
    using assms(1) ws unfolding trim_def by (intro trim_matches_id) (meson hd_in_set last_in_set)
  ultimately show ?thesis using assms(1) by (simp add: rule_lines_def split_char_no_sep)
qed

lemma word_line_rules:
  assumes "w \<noteq> []" "hd w \<noteq> 35" "list_all (\<lambda>c. \<not> is_whitespace c) w"
  shows "line_rules w = filter (\<lambda>r. r \<noteq> []) [strip_dashes w]"
proof -
  have "\<not> comment_line w" using assms(1,2) by (cases w) (auto simp: comment_line_def starts_with_def)
  then show ?thesis
    using assms(1) split_ws_acc_word [OF assms(3), of "[]"] by (simp add: line_rules_def split_whitespace_def)
qed

text \<open>A leading dash is decoration: a rule with one hides what the rule without it hides.\<close>

theorem dash_is_decoration:
  assumes word: "rule \<noteq> []" "hd rule \<noteq> 35" "list_all (\<lambda>c. \<not> is_whitespace c) rule"
  shows "matches post (45 # rule) = matches post rule"
proof -
  have w: "list_all (\<lambda>c. \<not> is_whitespace c) (45 # rule)" using word(3) by (simp add: is_whitespace_def)
  have "line_rules (45 # rule) = line_rules rule"
    using word_line_rules [OF _ _ w] word_line_rules [OF word]
    by (simp add: strip_dashes_def trim_start_matches_def)
  then show ?thesis
    using word_rule_lines [OF _ w] word_rule_lines [OF word(1,3)] by (simp add: matches_rules)
qed

theorem dash_is_decoration_witness: "matches (rated Q) (lit ''-rating:q'') = matches (rated Q) (lit ''rating:q'')"
  using dash_is_decoration [of "lit ''rating:q''" "rated Q"] by (simp add: is_whitespace_def)

lemma add_term_eq:
  "add_term r q = \<lparr>required = required q @ List.map_filter require_tag [r],
     excluded = excluded q @ filter (\<lambda>r. require_payload r = None) [r]\<rparr>"
proof -
  have "require_payload r = None \<Longrightarrow> require_tag r = None" by (simp add: require_tag_def)
  then show ?thesis by (cases "require_tag r") (auto simp: add_term_def List.map_filter_simps)
qed

lemma add_terms:
  "fold add_term rs q = \<lparr>required = required q @ List.map_filter require_tag rs,
     excluded = excluded q @ filter (\<lambda>r. require_payload r = None) rs\<rparr>"
proof (induction rs arbitrary: q)
  case (Cons r rs)
  have "fold add_term (r # rs) q = \<lparr>required = required (add_term r q) @ List.map_filter require_tag rs,
     excluded = excluded (add_term r q) @ filter (\<lambda>r. require_payload r = None) rs\<rparr>"
    by (simp add: Cons.IH)
  also have "\<dots> = \<lparr>required = required q @ List.map_filter require_tag (r # rs),
     excluded = excluded q @ filter (\<lambda>r. require_payload r = None) (r # rs)\<rparr>"
    unfolding add_term_eq by (simp add: List.map_filter_simps split: option.split)
  finally show ?case .
qed (simp add: List.map_filter_simps)

lemma payload_rule:
  assumes "require_payload r = Some p"
  obtains c0 c1 rest where "r = c0 # c1 # rest" "lower_char c0 = 114" "lower_char c1 = 101" "58 \<in> set r"
proof -
  have eight: "\<exists>c0 c1 c2 c3 c4 c5 c6 c7. xs = [c0, c1, c2, c3, c4, c5, c6, c7] \<and>
      lower_char c0 = 114 \<and> lower_char c1 = 101 \<and> lower_char c7 = 58"
    if "map lower_char xs = [114, 101, 113, 117, 105, 114, 101, 58]" for xs
    using that by (auto simp: map_eq_Cons_conv)
  have "length REQUIRE_PREFIX = 8" "map lower_char REQUIRE_PREFIX = [114, 101, 113, 117, 105, 114, 101, 58]"
    by (simp_all add: REQUIRE_PREFIX_def lower_char_def is_ascii_uppercase_def)
  then have "map lower_char (take 8 r) = [114, 101, 113, 117, 105, 114, 101, 58]"
    using assms unfolding require_payload_def eq_ignore_ascii_case_def to_ascii_lowercase_def
    by (metis option.distinct(1))
  from eight [OF this] obtain c0 c1 c2 c3 c4 c5 c6 c7 where t: "take 8 r = [c0, c1, c2, c3, c4, c5, c6, c7]"
      and l: "lower_char c0 = 114" "lower_char c1 = 101" "lower_char c7 = 58"
    by blast
  have "c7 = 58" using l(3) by (auto simp: lower_char_def is_ascii_uppercase_def split: if_splits)
  moreover have r: "r = [c0, c1, c2, c3, c4, c5, c6, c7] @ drop 8 r" using t by (metis append_take_drop_id)
  ultimately have "58 \<in> set r" by (metis Un_iff list.set_intros(1) list.set_intros(2) set_append)
  moreover have "r = c0 # c1 # ([c2, c3, c4, c5, c6, c7] @ drop 8 r)" using r by simp
  ultimately show ?thesis using that l(1,2) by blast
qed

lemma unsupported_requirement:
  assumes "require_payload r = Some p" "require_tag r = None"
  shows "\<not> rule_matches post True r"
proof -
  obtain c0 c1 rest where r: "r = c0 # c1 # rest" and l: "lower_char c0 = 114" "lower_char c1 = 101"
      and colon: "58 \<in> set r"
    using payload_rule [OF assms(1)] by blast
  have "c0 \<noteq> 117" "c0 \<noteq> 118" "c0 \<noteq> 97" "c1 \<noteq> 97"
    using l by (auto simp: lower_char_def is_ascii_uppercase_def)
  then show ?thesis using assms(2) colon r
    by (simp add: rule_matches_def strip_prefix_def starts_with_def)
qed


end
