(* ===== verification/Tag_Graph.thy ===== *)
theory Tag_Graph
  imports Timed_Table Posts "HOL-Library.Product_Lexorder"
begin

text \<open>
  The co-occurrence graph of tags (\<open>utils/tag_relation.rs\<close>): tags interned to 32-bit ids, the
  pair counts in their growing form (a hash map) and in their query form (a sorted vector that
  is searched by bisection), the operations that build, freeze and truncate a graph.

  An operation that panics in the code returns \<open>None\<close>.  Ids and frozen counts are 32-bit words;
  the growing counts and the marginals, 64-bit in the code, are integers.
\<close>

section \<open>State\<close>

type_synonym TagId = u32
type_synonym pair_key = "TagId \<times> TagId"

definition GROUP_COUNT :: nat where
  "GROUP_COUNT = 7"

datatype PairStorage = Hot "(pair_key, int) table" | Frozen "(TagId \<times> TagId \<times> u32) list"

record TagRelationGraph =
  tag_to_id :: "(ustr, TagId) table list"
  pairs :: PairStorage
  marginals :: "int list"
  n_posts :: int

text \<open>\<open>binary_search_by\<close> on a slice sorted by a key: the bisection of \<open>[lo, hi)\<close>.\<close>

function bisect :: "('a \<Rightarrow> 'k :: linorder) \<Rightarrow> 'k \<Rightarrow> 'a list \<Rightarrow> nat \<Rightarrow> nat \<Rightarrow> nat option" where
  "bisect f k xs lo hi =
     (if lo < hi then
        let mid = lo + (hi - lo) div 2 in
        if f (xs ! mid) = k then Some mid
        else if f (xs ! mid) < k then bisect f k xs (mid + 1) hi
        else bisect f k xs lo mid
      else None)"
  by pat_completeness auto
termination
  by (relation "measure (\<lambda>(f, k, xs, lo, hi). hi - lo)") auto

declare bisect.simps [simp del]

abbreviation triple_key :: "TagId \<times> TagId \<times> u32 \<Rightarrow> pair_key" where
  "triple_key \<equiv> \<lambda>(a, b, c). (a, b)"

fun pairs_len :: "PairStorage \<Rightarrow> nat" where
  "pairs_len (Hot m) = length m"
| "pairs_len (Frozen v) = length v"

fun pairs_get :: "PairStorage \<Rightarrow> pair_key \<Rightarrow> int" where
  "pairs_get (Hot m) k = (case tbl_get m k of None \<Rightarrow> 0 | Some c \<Rightarrow> c)"
| "pairs_get (Frozen v) k =
     (case bisect triple_key k v 0 (length v) of None \<Rightarrow> 0 | Some i \<Rightarrow> uint (snd (snd (v ! i))))"

fun entry_add :: "pair_key \<Rightarrow> int \<Rightarrow> PairStorage \<Rightarrow> PairStorage option" where
  "entry_add k delta (Hot m) =
     Some (Hot (tbl_insert k ((case tbl_get m k of None \<Rightarrow> 0 | Some c \<Rightarrow> c) + delta) m))"
| "entry_add k delta (Frozen v) = None"

section \<open>Building and querying\<close>

definition empty_graph :: TagRelationGraph where
  "empty_graph = \<lparr>tag_to_id = replicate GROUP_COUNT [], pairs = Hot [], marginals = [], n_posts = 0\<rparr>"

definition with_posts :: "int \<Rightarrow> TagRelationGraph" where
  "with_posts n = \<lparr>tag_to_id = replicate GROUP_COUNT [], pairs = Hot [], marginals = [], n_posts = max 0 n\<rparr>"

definition intern :: "nat \<Rightarrow> ustr \<Rightarrow> TagRelationGraph \<Rightarrow> (TagId \<times> TagRelationGraph) option" where
  "intern g t G =
     (if length (tag_to_id G) \<le> g then None
      else case tbl_get (tag_to_id G ! g) t of
        Some i \<Rightarrow> Some (i, G)
      | None \<Rightarrow>
          let i = of_nat (length (marginals G)) in
          Some (i, G\<lparr>tag_to_id := (tag_to_id G)[g := tbl_insert t i (tag_to_id G ! g)],
                    marginals := marginals G @ [0]\<rparr>))"

definition tag_id :: "nat \<Rightarrow> ustr \<Rightarrow> TagRelationGraph \<Rightarrow> TagId option" where
  "tag_id g t G =
     (if t = [] then None
      else if length (tag_to_id G) \<le> g then None
      else tbl_get (tag_to_id G ! g) t)"

definition ordered :: "TagId \<Rightarrow> TagId \<Rightarrow> pair_key" where
  "ordered a b = (if a < b then (a, b) else (b, a))"

definition insert_pair_by_id :: "TagId \<Rightarrow> TagId \<Rightarrow> int \<Rightarrow> TagRelationGraph \<Rightarrow> TagRelationGraph option" where
  "insert_pair_by_id a b cnt G =
     (if cnt \<le> 0 \<or> a = b then Some G
      else map_option (\<lambda>p. G\<lparr>pairs := p\<rparr>) (entry_add (ordered a b) cnt (pairs G)))"

definition insert_pair ::
  "nat \<Rightarrow> ustr \<Rightarrow> nat \<Rightarrow> ustr \<Rightarrow> int \<Rightarrow> TagRelationGraph \<Rightarrow> TagRelationGraph option" where
  "insert_pair g1 t1 g2 t2 cnt G =
     (if cnt \<le> 0 \<or> t1 = [] \<or> t2 = [] then Some G
      else case intern g1 t1 G of None \<Rightarrow> None
        | Some (a, G1) \<Rightarrow>
            (case intern g2 t2 G1 of None \<Rightarrow> None
             | Some (b, G2) \<Rightarrow>
                 if a = b then Some G2
                 else map_option (\<lambda>p. G2\<lparr>pairs := p\<rparr>) (entry_add (ordered a b) cnt (pairs G2))))"

definition set_marginal :: "nat \<Rightarrow> ustr \<Rightarrow> int \<Rightarrow> TagRelationGraph \<Rightarrow> TagRelationGraph option" where
  "set_marginal g t cnt G =
     (if t = [] then Some G
      else case intern g t G of None \<Rightarrow> None
        | Some (i, G1) \<Rightarrow> Some (G1\<lparr>marginals := (marginals G1)[unat i := max 0 cnt]\<rparr>))"

definition marginal_by_id :: "TagRelationGraph \<Rightarrow> TagId \<Rightarrow> int" where
  "marginal_by_id G i = (if unat i < length (marginals G) then marginals G ! unat i else 0)"

definition cooc_by_id :: "TagRelationGraph \<Rightarrow> TagId \<Rightarrow> TagId \<Rightarrow> int" where
  "cooc_by_id G a b =
     (if a = b then marginal_by_id G a else pairs_get (pairs G) (ordered a b))"

definition n_tags :: "TagRelationGraph \<Rightarrow> nat" where
  "n_tags G = length (marginals G)"

definition n_pairs :: "TagRelationGraph \<Rightarrow> nat" where
  "n_pairs G = pairs_len (pairs G)"

definition graph_is_empty :: "TagRelationGraph \<Rightarrow> bool" where
  "graph_is_empty G \<longleftrightarrow> pairs_len (pairs G) = 0 \<and> marginals G = [] \<and> n_posts G = 0"

section \<open>Freezing and truncating\<close>

text \<open>\<open>coalesce\<close> is the loop that merges adjacent entries of one pair in place: \<open>acc\<close> holds
  \<open>v[..write]\<close> with the last entry first.\<close>

definition saturating_add :: "u32 \<Rightarrow> u32 \<Rightarrow> u32" where
  "saturating_add x y = (if uint x + uint y < 2 ^ 32 then x + y else - 1)"

fun coalesce :: "(TagId \<times> TagId \<times> u32) list \<Rightarrow> (TagId \<times> TagId \<times> u32) list \<Rightarrow> (TagId \<times> TagId \<times> u32) list" where
  "coalesce acc [] = rev acc"
| "coalesce [] (e # v) = coalesce [e] v"
| "coalesce ((a, b, c) # acc) ((a', b', c') # v) =
     (if a = a' \<and> b = b' then coalesce ((a, b, saturating_add c c') # acc) v
      else coalesce ((a', b', c') # (a, b, c) # acc) v)"

definition set_pairs_frozen_vec :: "(TagId \<times> TagId \<times> u32) list \<Rightarrow> TagRelationGraph \<Rightarrow> TagRelationGraph" where
  "set_pairs_frozen_vec v G =
     (let v1 = filter (\<lambda>(a, b, c). a \<noteq> b) v;
          v2 = map (\<lambda>(a, b, c). if a > b then (b, a, c) else (a, b, c)) v1;
          v3 = sort_key triple_key v2
      in G\<lparr>pairs := Frozen (coalesce [] v3)\<rparr>)"

text \<open>\<open>min_cooc.max(1) as u32\<close> keeps the low 32 bits.\<close>

definition freeze_inner :: "int \<Rightarrow> TagId set option \<Rightarrow> TagRelationGraph \<Rightarrow> TagRelationGraph" where
  "freeze_inner min_cooc queryable G =
     (let least = word_of_int (max 1 min_cooc) :: u32;
          asked = (\<lambda>a b. case queryable of None \<Rightarrow> True | Some q \<Rightarrow> a \<in> q \<and> b \<in> q);
          filtered = (case pairs G of
              Hot m \<Rightarrow> map (\<lambda>((a, b), c). (a, b, word_of_int (min (max 0 c) (2 ^ 32 - 1))))
                (filter (\<lambda>((a, b), c). uint least \<le> c \<and> asked a b) m)
            | Frozen v \<Rightarrow> filter (\<lambda>(a, b, c). least \<le> c \<and> asked a b) v)
      in G\<lparr>pairs := Frozen (sort_key triple_key filtered),
           tag_to_id := replicate (length (tag_to_id G)) []\<rparr>)"

definition freeze :: "int \<Rightarrow> TagRelationGraph \<Rightarrow> TagRelationGraph" where
  "freeze min_cooc G = freeze_inner min_cooc None G"

definition freeze_with_query_set :: "TagId set \<Rightarrow> int \<Rightarrow> TagRelationGraph \<Rightarrow> TagRelationGraph" where
  "freeze_with_query_set queryable min_cooc G = freeze_inner min_cooc (Some queryable) G"

definition truncate_to_top_pairs :: "nat \<Rightarrow> TagRelationGraph \<Rightarrow> (nat \<times> TagRelationGraph) option" where
  "truncate_to_top_pairs keep G =
     (if keep = 0 then Some (0, G)
      else case pairs G of
        Hot m \<Rightarrow>
          if length m \<le> keep then Some (length m, G)
          else let v = sort_key (\<lambda>(k, c). (- c, k)) m; kept = take keep v
               in Some (length kept, G\<lparr>pairs := Hot kept\<rparr>)
      | Frozen v \<Rightarrow> None)"

section \<open>The graph of a list of posts\<close>

definition train_groups :: "(nat \<times> (Tags \<Rightarrow> ustr list)) list" where
  "train_groups = [(0, artist), (1, character), (2, copyright), (3, species), (4, general), (5, lore)]"

definition bump_marginal :: "TagId \<Rightarrow> TagRelationGraph \<Rightarrow> TagRelationGraph" where
  "bump_marginal i G =
     (if unat i < length (marginals G)
      then G\<lparr>marginals := (marginals G)[unat i := marginals G ! unat i + 1]\<rparr> else G)"

fun train_tags :: "nat \<Rightarrow> ustr list \<Rightarrow> TagId list \<times> TagRelationGraph \<Rightarrow> (TagId list \<times> TagRelationGraph) option" where
  "train_tags g [] s = Some s"
| "train_tags g (raw # raws) (scratch, G) =
     (let trimmed = trim raw in
      if trimmed = [] then train_tags g raws (scratch, G)
      else
        let lc = (if list_ex is_ascii_uppercase trimmed then to_ascii_lowercase trimmed else trimmed)
        in case intern g lc G of
             None \<Rightarrow> None
           | Some (i, G1) \<Rightarrow> train_tags g raws (scratch @ [i], bump_marginal i G1))"

fun train_post :: "(nat \<times> (Tags \<Rightarrow> ustr list)) list \<Rightarrow> Tags \<Rightarrow> TagId list \<times> TagRelationGraph \<Rightarrow>
    (TagId list \<times> TagRelationGraph) option" where
  "train_post [] ts s = Some s"
| "train_post ((g, getter) # gs) ts s =
     (case train_tags g (getter ts) s of None \<Rightarrow> None | Some s1 \<Rightarrow> train_post gs ts s1)"

fun pair_with :: "TagId \<Rightarrow> TagId list \<Rightarrow> TagRelationGraph \<Rightarrow> TagRelationGraph option" where
  "pair_with a [] G = Some G"
| "pair_with a (b # bs) G =
     (case insert_pair_by_id a b 1 G of None \<Rightarrow> None | Some G1 \<Rightarrow> pair_with a bs G1)"

fun pair_up :: "TagId list \<Rightarrow> TagRelationGraph \<Rightarrow> TagRelationGraph option" where
  "pair_up [] G = Some G"
| "pair_up (a # bs) G =
     (case pair_with a bs G of None \<Rightarrow> None | Some G1 \<Rightarrow> pair_up bs G1)"

fun train_posts :: "Post list \<Rightarrow> TagRelationGraph \<Rightarrow> TagRelationGraph option" where
  "train_posts [] G = Some G"
| "train_posts (post # ps) G =
     (case train_post train_groups (tags post) ([], G) of
        None \<Rightarrow> None
      | Some (scratch, G1) \<Rightarrow>
          (case pair_up scratch G1 of None \<Rightarrow> None | Some G2 \<Rightarrow> train_posts ps G2))"

definition from_train_posts :: "Post list \<Rightarrow> TagRelationGraph option" where
  "from_train_posts posts = train_posts posts (with_posts (int (length posts)))"

end
