(* ===== verification/Tag_Graph_Store.thy ===== *)
theory Tag_Graph_Store
  imports Tag_Graph
begin

text \<open>
  What a pair store promises the graph, in both its forms: the lookup of a key is the count of
  its row, and zero without one.  Freezing, loading a vector and truncating are then facts about
  rows.
\<close>

section \<open>Bisection\<close>

lemma bisect_empty: "\<not> lo < hi \<Longrightarrow> bisect f k xs lo hi = None"
  by (subst bisect.simps) simp

lemma bisect_step:
  "lo < hi \<Longrightarrow> mid = lo + (hi - lo) div 2 \<Longrightarrow> bisect f k xs lo hi =
     (if f (xs ! mid) = k then Some mid
      else if f (xs ! mid) < k then bisect f k xs (mid + 1) hi else bisect f k xs lo mid)"
  by (subst bisect.simps) (simp add: Let_def)

text \<open>Induction over the bisected interval, with the middle as a variable of its own.\<close>

lemma bisect_induct [case_names empty middle]:
  fixes lo hi :: nat
  assumes "\<And>lo hi. \<not> lo < hi \<Longrightarrow> P lo hi"
    and "\<And>lo hi mid. lo \<le> mid \<Longrightarrow> mid < hi \<Longrightarrow> mid = lo + (hi - lo) div 2 \<Longrightarrow>
      P (mid + 1) hi \<Longrightarrow> P lo mid \<Longrightarrow> P lo hi"
  shows "P lo hi"
proof (induction "hi - lo" arbitrary: lo hi rule: less_induct)
  case less
  show ?case
  proof (cases "lo < hi")
    case True
    define mid where "mid = lo + (hi - lo) div 2"
    have "lo \<le> mid" "mid < hi" using True by (auto simp: mid_def)
    then show ?thesis by (intro assms(2) [OF _ _ mid_def] less) auto
  qed (rule assms(1))
qed

lemma bisect_Some:
  "bisect f k xs lo hi = Some i \<Longrightarrow> lo \<le> i \<and> i < hi \<and> f (xs ! i) = k"
proof (induction lo hi rule: bisect_induct)
  case (middle lo hi mid)
  then show ?case using bisect_step [of lo hi mid f k xs] by (auto split: if_splits)
qed (simp add: bisect_empty)

lemma bisect_None:
  assumes s: "sorted (map f xs)"
  shows "hi \<le> length xs \<Longrightarrow> bisect f k xs lo hi = None \<Longrightarrow> lo \<le> i \<Longrightarrow> i < hi \<Longrightarrow> f (xs ! i) \<noteq> k"
proof (induction lo hi rule: bisect_induct)
  case (middle lo hi mid)
  have le: "i \<le> j \<Longrightarrow> j < length xs \<Longrightarrow> f (xs ! i) \<le> f (xs ! j)" for i j
    using s by (simp add: sorted_iff_nth_mono)
  have step: "f (xs ! mid) \<noteq> k"
    "f (xs ! mid) < k \<Longrightarrow> bisect f k xs (mid + 1) hi = None" "\<not> f (xs ! mid) < k \<Longrightarrow> bisect f k xs lo mid = None"
    using middle bisect_step [of lo hi mid f k xs] by (auto split: if_splits)
  have "f (xs ! i) \<le> f (xs ! mid)" if "i \<le> mid" using le [OF that] middle by simp
  moreover have "f (xs ! mid) \<le> f (xs ! i)" if "mid \<le> i" using le [OF that] middle by simp
  ultimately show ?case
    using middle.IH(1) [OF _ step(2)] middle.IH(2) [OF _ step(3)] middle.prems middle.hyps step(1)
    by (metis Suc_eq_plus1 leD le_less_linear less_imp_le_nat not_less_eq_eq order.strict_trans2 order_antisym)
qed simp

section \<open>The two forms of a store\<close>

locale pair_lookup =
  fixes ok :: "'s \<Rightarrow> bool" and look :: "'s \<Rightarrow> pair_key \<Rightarrow> int" and rows :: "'s \<Rightarrow> (pair_key \<times> int) list"
  assumes one_row: "ok s \<Longrightarrow> distinct (map fst (rows s))"
    and look_row: "ok s \<Longrightarrow> (k, c) \<in> set (rows s) \<Longrightarrow> look s k = c"
    and look_none: "ok s \<Longrightarrow> k \<notin> fst ` set (rows s) \<Longrightarrow> look s k = 0"
begin

lemma look_map_of: "ok s \<Longrightarrow> look s k = (case map_of (rows s) k of None \<Rightarrow> 0 | Some c \<Rightarrow> c)"
proof (cases "map_of (rows s) k")
  case None
  assume "ok s"
  then have "look s k = 0" using None by (intro look_none) (simp_all add: map_of_eq_None_iff)
  then show ?thesis using None by simp
next
  case (Some c)
  assume "ok s"
  then have "look s k = c" using Some by (intro look_row map_of_SomeD)
  then show ?thesis using Some by simp
qed

lemma look_pos: "ok s \<Longrightarrow> look s k \<noteq> 0 \<Longrightarrow> (k, look s k) \<in> set (rows s)"
  by (auto simp: look_map_of split: option.splits dest: map_of_SomeD)

lemma look_sum: "ok s \<Longrightarrow> look s k = (\<Sum>(k', c) \<leftarrow> rows s. if k' = k then c else 0)"
proof -
  have "distinct (map fst rs) \<Longrightarrow> (\<Sum>(k', c) \<leftarrow> rs. if k' = k then c else 0) =
      (case map_of rs k of None \<Rightarrow> 0 | Some c \<Rightarrow> c)" for rs :: "(pair_key \<times> int) list"
  proof (induction rs)
    case (Cons r rs)
    then show ?case by (cases r) (auto simp: map_of_eq_None_iff [THEN iffD2])
  qed simp
  then show "ok s \<Longrightarrow> ?thesis" using one_row by (simp add: look_map_of)
qed

end

definition hot_ok :: "(pair_key, int) table \<Rightarrow> bool" where
  "hot_ok m \<longleftrightarrow> tbl_ok m \<and> (\<forall>(a, b) \<in> fst ` set m. a < b)"

definition frozen_ok :: "(TagId \<times> TagId \<times> u32) list \<Rightarrow> bool" where
  "frozen_ok v \<longleftrightarrow> sorted_wrt (<) (map triple_key v) \<and> (\<forall>(a, b, c) \<in> set v. a < b)"

definition frozen_rows :: "(TagId \<times> TagId \<times> u32) list \<Rightarrow> (pair_key \<times> int) list" where
  "frozen_rows v = map (\<lambda>(a, b, c). ((a, b), uint c)) v"

lemma frozen_keys: "map fst (frozen_rows v) = map triple_key v"
  by (simp add: frozen_rows_def case_prod_beta)

lemma frozen_distinct: "frozen_ok v \<Longrightarrow> distinct (map triple_key v)"
  by (simp add: frozen_ok_def strict_sorted_iff)

lemma frozen_look:
  assumes ok: "frozen_ok v"
  shows "(k, c) \<in> set (frozen_rows v) \<Longrightarrow> pairs_get (Frozen v) k = c"
    and "k \<notin> fst ` set (frozen_rows v) \<Longrightarrow> pairs_get (Frozen v) k = 0"
proof -
  let ?ks = "map triple_key v"
  have s: "sorted ?ks" and d: "distinct ?ks" using ok unfolding frozen_ok_def strict_sorted_iff by blast+
  show "pairs_get (Frozen v) k = c" if "(k, c) \<in> set (frozen_rows v)"
  proof -
    from that obtain x where "(fst k, snd k, x) \<in> set v" and c: "c = uint x" by (auto simp: frozen_rows_def)
    then obtain j where j: "j < length v" "v ! j = (fst k, snd k, x)" by (auto simp only: in_set_conv_nth)
    then have key: "?ks ! j = k" by simp
    obtain i where i: "bisect triple_key k v 0 (length v) = Some i"
    proof (cases "bisect triple_key k v 0 (length v)")
      case None
      from bisect_None [OF s le_refl None le0 j(1)] show thesis using j(2) by simp
    qed (rule that)
    then have "i < length v" "?ks ! i = k" using bisect_Some [OF i] by simp_all
    then have "i = j" using nth_eq_iff_index_eq [OF d, unfolded length_map] key j(1) by blast
    then show ?thesis using i j c by simp
  qed
  show "pairs_get (Frozen v) k = 0" if "k \<notin> fst ` set (frozen_rows v)"
  proof (cases "bisect triple_key k v 0 (length v)")
    case (Some i)
    from bisect_Some [OF this] have "i < length v" "?ks ! i = k" by simp_all
    then have "k \<in> set (map fst (frozen_rows v))" unfolding frozen_keys by (metis length_map nth_mem)
    with that show ?thesis by simp
  qed simp
qed

interpretation hot: pair_lookup hot_ok "\<lambda>m. pairs_get (Hot m)" "\<lambda>m. m"
  by unfold_locales
    (auto simp: hot_ok_def tbl_ok_def tbl_get_def map_of_eq_None_iff [THEN iffD2])

interpretation frozen: pair_lookup frozen_ok "\<lambda>v. pairs_get (Frozen v)" frozen_rows
  using frozen_look frozen_distinct by unfold_locales (simp_all only: frozen_keys)

definition store_ok :: "PairStorage \<Rightarrow> bool" where
  "store_ok p = (case p of Hot m \<Rightarrow> hot_ok m | Frozen v \<Rightarrow> frozen_ok v)"

definition store_rows :: "PairStorage \<Rightarrow> (pair_key \<times> int) list" where
  "store_rows p = (case p of Hot m \<Rightarrow> m | Frozen v \<Rightarrow> frozen_rows v)"

interpretation store: pair_lookup store_ok pairs_get store_rows
proof
  fix s k c
  assume "store_ok s"
  then show "distinct (map fst (store_rows s))"
    using hot.one_row frozen.one_row by (cases s) (simp_all add: store_ok_def store_rows_def)
next
  fix s k c
  assume "store_ok s" "(k, c) \<in> set (store_rows s)"
  then show "pairs_get s k = c"
    using hot.look_row frozen.look_row by (cases s) (simp_all only: store_ok_def store_rows_def PairStorage.simps)
next
  fix s k
  assume "store_ok s" "k \<notin> fst ` set (store_rows s)"
  then show "pairs_get s k = 0"
    using hot.look_none frozen.look_none by (cases s) (simp_all only: store_ok_def store_rows_def PairStorage.simps)
qed

section \<open>Freezing\<close>

lemma mem_frozen_rows: "((a, b), n) \<in> set (frozen_rows v) \<longleftrightarrow> (\<exists>c. (a, b, c) \<in> set v \<and> n = uint c)"
  unfolding frozen_rows_def set_map by (auto intro: rev_image_eqI)

lemma frozen_ok_sort:
  assumes "distinct (map triple_key v)" and "\<forall>(a, b, c) \<in> set v. a < b"
  shows "frozen_ok (sort_key triple_key v)"
proof -
  have "mset (map triple_key (sort_key triple_key v)) = mset (map triple_key v)" by simp
  then have "distinct (map triple_key (sort_key triple_key v))" using assms(1) mset_eq_imp_distinct_iff by blast
  then show ?thesis unfolding frozen_ok_def strict_sorted_iff using assms(2) by (simp only: sorted_sort_key set_sort simp_thms)
qed

definition thaw_filter :: "(pair_key \<Rightarrow> int \<Rightarrow> bool) \<Rightarrow> (pair_key \<times> int) list \<Rightarrow> (TagId \<times> TagId \<times> u32) list" where
  "thaw_filter keep rs = map (\<lambda>((a, b), c). (a, b, word_of_int (min (max 0 c) (2 ^ 32 - 1))))
     (filter (\<lambda>(k, c). keep k c) rs)"

lemma thaw_filter_keys: "map triple_key (thaw_filter keep rs) = map fst (filter (\<lambda>(k, c). keep k c) rs)"
  by (simp add: thaw_filter_def case_prod_beta)

lemma clamped: "uint (word_of_int (min (max 0 c) (2 ^ 32 - 1)) :: u32) = min (max 0 c) (2 ^ 32 - 1)"
  by (simp add: unsigned_of_int take_bit_int_eq_self_iff)

lemma mem_thaw_filter:
  "(a, b, c) \<in> set (thaw_filter keep rs) \<longleftrightarrow>
     (\<exists>n. ((a, b), n) \<in> set rs \<and> keep (a, b) n \<and> c = word_of_int (min (max 0 n) (2 ^ 32 - 1)))"
  unfolding thaw_filter_def by (induction rs) auto

text \<open>A store that holds what a filter keeps of another, in the query form.\<close>

lemma thawed_get:
  assumes "distinct (map fst rs)" and "\<forall>(a, b) \<in> fst ` set rs. a < b"
  shows "frozen_ok (sort_key triple_key (thaw_filter keep rs))"
    and "pairs_get (Frozen (sort_key triple_key (thaw_filter keep rs))) (a, b) =
      (case map_of rs (a, b) of None \<Rightarrow> 0
       | Some c \<Rightarrow> if keep (a, b) c then min (max 0 c) (2 ^ 32 - 1) else 0)"
proof -
  let ?v = "thaw_filter keep rs"
  have mem: "(a, b, c) \<in> set ?v \<longleftrightarrow>
      (\<exists>n. ((a, b), n) \<in> set rs \<and> keep (a, b) n \<and> c = word_of_int (min (max 0 n) (2 ^ 32 - 1)))" for a b c
    by (rule mem_thaw_filter)
  show ok: "frozen_ok (sort_key triple_key ?v)"
  proof (rule frozen_ok_sort)
    show "distinct (map triple_key ?v)" unfolding thaw_filter_keys using assms(1) by (simp add: distinct_map_filter)
    show "\<forall>(a, b, c) \<in> set ?v. a < b" using assms(2) by (fastforce simp: mem dest: bspec intro: rev_image_eqI)
  qed
  let ?g = "pairs_get (Frozen (sort_key triple_key ?v)) (a, b)"
  have rows: "((a, b), n) \<in> set (frozen_rows (sort_key triple_key ?v)) \<longleftrightarrow> (\<exists>c. (a, b, c) \<in> set ?v \<and> n = uint c)" for n
    unfolding mem_frozen_rows set_sort ..
  show "?g = (case map_of rs (a, b) of None \<Rightarrow> 0
       | Some c \<Rightarrow> if keep (a, b) c then min (max 0 c) (2 ^ 32 - 1) else 0)"
  proof (cases "\<exists>n. ((a, b), n) \<in> set rs \<and> keep (a, b) n")
    case True
    then obtain n where n: "((a, b), n) \<in> set rs" "keep (a, b) n" by blast
    then have "((a, b), uint (word_of_int (min (max 0 n) (2 ^ 32 - 1)) :: u32)) \<in>
        set (frozen_rows (sort_key triple_key ?v))"
      unfolding rows mem by blast
    then have "?g = min (max 0 n) (2 ^ 32 - 1)" unfolding clamped by (rule frozen.look_row [OF ok])
    then show ?thesis using n assms(1) by simp
  next
    case False
    then have "(a, b) \<notin> fst ` set (frozen_rows (sort_key triple_key ?v))"
      unfolding image_iff using rows mem by (simp only: Bex_def split_paired_Ex fst_conv) blast
    then have "?g = 0" by (rule frozen.look_none [OF ok])
    then show ?thesis using False by (auto split: option.split dest: map_of_SomeD)
  qed
qed

lemma freeze_Hot:
  "pairs G = Hot m \<Longrightarrow> pairs (freeze_inner least queryable G) =
     Frozen (sort_key triple_key (thaw_filter (\<lambda>(a, b) c. uint (word_of_int (max 1 least) :: u32) \<le> c \<and>
       (case queryable of None \<Rightarrow> True | Some q \<Rightarrow> a \<in> q \<and> b \<in> q)) m))"
  by (simp add: freeze_inner_def thaw_filter_def Let_def case_prod_unfold)

lemma freeze_Frozen:
  "pairs G = Frozen v \<Longrightarrow> pairs (freeze_inner least queryable G) =
     Frozen (sort_key triple_key (thaw_filter (\<lambda>(a, b) c. uint (word_of_int (max 1 least) :: u32) \<le> c \<and>
       (case queryable of None \<Rightarrow> True | Some q \<Rightarrow> a \<in> q \<and> b \<in> q)) (frozen_rows v)))"
proof -
  have small: "min (max 0 (uint c)) (2 ^ 32 - 1) = uint c" for c :: u32
    using uint_lt2p [of c] by simp
  have "filter (\<lambda>(a, b, c). l \<le> c \<and> p a b) v = thaw_filter (\<lambda>(a, b) c. uint l \<le> c \<and> p a b) (frozen_rows v)" for l p
    unfolding thaw_filter_def frozen_rows_def by (induction v) (auto simp: small [simplified] word_le_def)
  then show "pairs G = Frozen v \<Longrightarrow> ?thesis" by (simp add: freeze_inner_def Let_def)
qed

lemma store_ok_rows: "store_ok p \<Longrightarrow> \<forall>(a, b) \<in> fst ` set (store_rows p). a < b"
  by (cases p) (force simp: store_ok_def store_rows_def hot_ok_def frozen_ok_def frozen_rows_def)+

lemma pairs_get_freeze:
  assumes ok: "store_ok (pairs G)" and least: "least < 2 ^ 32"
  shows "store_ok (pairs (freeze_inner least queryable G))"
    and "pairs_get (pairs (freeze_inner least queryable G)) (a, b) =
      (let c = pairs_get (pairs G) (a, b)
       in if max 1 least \<le> c \<and> (case queryable of None \<Rightarrow> True | Some q \<Rightarrow> a \<in> q \<and> b \<in> q)
          then min c (2 ^ 32 - 1) else 0)"
proof -
  let ?keep = "\<lambda>(a, b) c. uint (word_of_int (max 1 least) :: u32) \<le> c \<and>
       (case queryable of None \<Rightarrow> True | Some q \<Rightarrow> a \<in> q \<and> b \<in> q)"
  let ?rs = "store_rows (pairs G)"
  have eq: "pairs (freeze_inner least queryable G) = Frozen (sort_key triple_key (thaw_filter ?keep ?rs))"
    by (cases "pairs G") (simp_all only: freeze_Hot freeze_Frozen store_rows_def PairStorage.simps)
  have u: "uint (word_of_int (max 1 least) :: u32) = max 1 least"
    using least by (simp add: unsigned_of_int take_bit_int_eq_self_iff)
  note get = thawed_get [OF store.one_row [OF ok] store_ok_rows [OF ok], where keep = ?keep]
  show "store_ok (pairs (freeze_inner least queryable G))" using get(1) by (simp add: eq store_ok_def)
  show "pairs_get (pairs (freeze_inner least queryable G)) (a, b) =
      (let c = pairs_get (pairs G) (a, b)
       in if max 1 least \<le> c \<and> (case queryable of None \<Rightarrow> True | Some q \<Rightarrow> a \<in> q \<and> b \<in> q)
          then min c (2 ^ 32 - 1) else 0)"
    unfolding eq get(2) store.look_map_of [OF ok] by (auto simp: Let_def u split: option.split)
qed

end
