(* ===== verification/Tag_Graph_Props.thy ===== *)
theory Tag_Graph_Props
  imports Tag_Graph_Store
begin

text \<open>
  What loading, freezing and truncating do to the counts a graph answers.
\<close>

section \<open>Loading a vector\<close>

definition sum_of :: "(TagId \<times> TagId \<times> u32) list \<Rightarrow> pair_key \<Rightarrow> int" where
  "sum_of v k = (\<Sum>(a, b, c) \<leftarrow> v. if (a, b) = k then uint c else 0)"

lemma sum_of_simps [simp]:
  "sum_of [] k = 0" "sum_of ((a, b, c) # v) k = (if (a, b) = k then uint c else 0) + sum_of v k"
  by (simp_all add: sum_of_def)

lemma sum_of_append [simp]: "sum_of (v @ w) k = sum_of v k + sum_of w k"
  by (simp add: sum_of_def)

lemma sum_of_rev [simp]: "sum_of (rev v) k = sum_of v k"
  by (induction v) auto

lemma sum_of_nonneg [simp]: "0 \<le> sum_of v k"
  by (induction v) auto

lemma sum_of_absent: "k \<notin> set (map triple_key v) \<Longrightarrow> sum_of v k = 0"
  by (induction v) auto

lemma uint_saturating_add: "uint (saturating_add x y) = min (2 ^ 32 - 1) (uint x + uint y)"
proof (cases "uint x + uint y < 2 ^ 32")
  case True
  then show ?thesis by (simp add: saturating_add_def uint_plus_if')
next
  case False
  then show ?thesis by (simp add: saturating_add_def unsigned_minus_1_eq_mask mask_eq_exp_minus_1)
qed

lemma sum_of_member:
  assumes "sorted_wrt (<) (map triple_key v)" and "(a, b, c) \<in> set v"
  shows "sum_of v (a, b) = uint c"
  using assms
proof (induction v)
  case (Cons e v)
  obtain x y z where e: "e = (x, y, z)" by (cases e)
  have tail: "sorted_wrt (<) (map triple_key v)" using Cons.prems(1) by simp
  have new: "(x, y) \<notin> set (map triple_key v)"
    using Cons.prems(1) unfolding e list.map sorted_wrt.simps by auto
  show ?case
  proof (cases "e = (a, b, c)")
    case True
    then show ?thesis using new e by (simp add: sum_of_absent del: set_map list.set_map)
  next
    case False
    then have v: "(a, b, c) \<in> set v" using Cons.prems by auto
    then have "(a, b) \<in> set (map triple_key v)" unfolding set_map by (intro rev_image_eqI) auto
    then have "(x, y) \<noteq> (a, b)" using new by metis
    then show ?thesis using Cons.IH [OF tail v] by (auto simp: e)
  qed
qed simp

lemma coalesce_spec:
  assumes "sorted_wrt (<) (map triple_key (rev acc))" and "sorted (map triple_key v)"
    and "\<And>k l. k \<in> set (map triple_key acc) \<Longrightarrow> l \<in> set (map triple_key v) \<Longrightarrow> k \<le> l"
  shows "sorted_wrt (<) (map triple_key (coalesce acc v)) \<and>
    set (map triple_key (coalesce acc v)) = set (map triple_key acc) \<union> set (map triple_key v) \<and>
    (\<forall>k. sum_of (coalesce acc v) k = min (2 ^ 32 - 1) (sum_of acc k + sum_of v k))"
  using assms
proof (induction acc v rule: coalesce.induct)
  case (1 acc)
  have small: "sum_of acc k \<le> 2 ^ 32 - 1" for k
  proof (cases "k \<in> set (map triple_key (rev acc))")
    case True
    then obtain c where "(fst k, snd k, c) \<in> set (rev acc)" by auto
    from sum_of_member [OF 1(1) this] show ?thesis using uint_lt2p [of c] by simp
  next
    case False
    then have "sum_of (rev acc) k = 0" by (rule sum_of_absent)
    then show ?thesis by simp
  qed
  show ?case using 1(1) small by (simp add: min_absorb2)
next
  case (2 e v)
  obtain a b c where e: "e = (a, b, c)" by (cases e)
  have "sorted_wrt (<) (map triple_key (coalesce [e] v)) \<and>
    set (map triple_key (coalesce [e] v)) = set (map triple_key [e]) \<union> set (map triple_key v) \<and>
    (\<forall>k. sum_of (coalesce [e] v) k = min (2 ^ 32 - 1) (sum_of [e] k + sum_of v k))"
    using 2(3) by (intro 2(1)) (auto simp: e)
  then show ?case using e by auto
next
  case (3 a b c acc a' b' c' v)
  show ?case
  proof (cases "a = a' \<and> b = b'")
    case True
    have "sorted_wrt (<) (map triple_key (rev ((a, b, saturating_add c c') # acc)))" using 3(3) by simp
    moreover have "sorted (map triple_key v)" using 3(4) by simp
    moreover have "k \<le> l" if "k \<in> set (map triple_key ((a, b, saturating_add c c') # acc))"
        "l \<in> set (map triple_key v)" for k l
      using that 3(5) [of k l] by simp
    ultimately have IH: "sorted_wrt (<) (map triple_key (coalesce ((a, b, saturating_add c c') # acc) v))"
      "set (map triple_key (coalesce ((a, b, saturating_add c c') # acc) v)) =
        insert (a, b) (set (map triple_key acc) \<union> set (map triple_key v))"
      "sum_of (coalesce ((a, b, saturating_add c c') # acc) v) k = min (2 ^ 32 - 1)
        ((if (a, b) = k then min (2 ^ 32 - 1) (uint c + uint c') else 0) + sum_of acc k + sum_of v k)" for k
      using 3(1) [OF True] by (simp_all add: uint_saturating_add del: split_paired_All)
    have "sum_of (coalesce ((a, b, saturating_add c c') # acc) v) k =
        min (2 ^ 32 - 1) (sum_of ((a, b, c) # acc) k + sum_of ((a', b', c') # v) k)" for k
      unfolding IH(3) using True sum_of_nonneg [of acc k] sum_of_nonneg [of v k]
      by (auto simp: min_def simp del: sum_of_nonneg)
    then show ?thesis using IH(1,2) True by auto
  next
    case False
    have lt: "(a, b) < (a', b')" using 3(5) [of "(a, b)" "(a', b')"] False by auto
    have "\<forall>k \<in> set (map triple_key acc). k < (a, b)" using 3(3) by (auto simp: sorted_wrt_append)
    then have "sorted_wrt (<) (map triple_key (rev ((a', b', c') # (a, b, c) # acc)))"
      using 3(3) lt by (auto simp: sorted_wrt_append intro: order.strict_trans)
    moreover have "sorted (map triple_key v)" using 3(4) by simp
    moreover have "k \<le> l" if "k \<in> set (map triple_key ((a', b', c') # (a, b, c) # acc))"
        "l \<in> set (map triple_key v)" for k l
    proof -
      have old: "k \<in> set (map triple_key ((a, b, c) # acc)) \<Longrightarrow> k \<le> l" using 3(5) [of k l] that(2) by simp
      have "\<forall>l \<in> set (map triple_key v). (a', b') \<le> l" using 3(4) by simp
      then have "k = (a', b') \<Longrightarrow> k \<le> l" using that(2) by blast
      then show ?thesis using old that(1) by (metis (no_types, lifting) case_prod_conv list.set_intros(1) list.simps(9) set_ConsD)
    qed
    ultimately show ?thesis using 3(2) [OF False] False by (simp add: algebra_simps) auto
  qed
qed

definition canonical :: "(TagId \<times> TagId \<times> u32) list \<Rightarrow> (TagId \<times> TagId \<times> u32) list" where
  "canonical v = map (\<lambda>(a, b, c). if a > b then (b, a, c) else (a, b, c)) (filter (\<lambda>(a, b, c). a \<noteq> b) v)"

lemma canonical_simps [simp]:
  "canonical [] = []"
  "canonical ((x, y, c) # v) = (if x = y then canonical v else if x > y then (y, x, c) # canonical v
     else (x, y, c) # canonical v)"
  by (simp_all add: canonical_def)

lemma canonical_keys: "\<forall>(a, b) \<in> set (map triple_key (canonical v)). a < b"
  by (induction v) (auto split: if_splits)

lemma sum_of_canonical:
  assumes "a < b"
  shows "sum_of (canonical v) (a, b) =
     (\<Sum>(x, y, c) \<leftarrow> v. if (x, y) = (a, b) \<or> (x, y) = (b, a) then uint c else 0)"
proof (induction v)
  case (Cons e v)
  obtain x y c where e: "e = (x, y, c)" by (cases e)
  have "sum_of (canonical (e # v)) (a, b) =
      (if (x, y) = (a, b) \<or> (x, y) = (b, a) then uint c else 0) + sum_of (canonical v) (a, b)"
  proof (cases rule: linorder_cases [of x y])
    case less
    then have "canonical (e # v) = (x, y, c) # canonical v" "\<not> (x = b \<and> y = a)" using assms by (auto simp: e)
    then show ?thesis by (simp only: sum_of_simps prod.inject simp_thms if_False if_True add_0)
  next
    case equal
    then have "canonical (e # v) = canonical v" "\<not> (x = b \<and> y = a)" "\<not> (x = a \<and> y = b)"
      using assms by (auto simp: e)
    then show ?thesis by (simp only: sum_of_simps prod.inject simp_thms if_False if_True add_0)
  next
    case greater
    then have "canonical (e # v) = (y, x, c) # canonical v" "\<not> (x = a \<and> y = b)" using assms by (auto simp: e)
    then show ?thesis by (simp only: sum_of_simps prod.inject simp_thms if_False conj_commute [of "y = a"])
  qed
  then show ?case using Cons.IH by (simp only: e list.map sum_list.Cons prod.case)
qed simp

lemma sum_of_sort: "sum_of (sort_key f v) k = sum_of v k"
proof -
  have "mset (map (\<lambda>(a, b, c). if (a, b) = k then uint c else 0) (sort_key f v)) =
      mset (map (\<lambda>(a, b, c). if (a, b) = k then uint c else 0) v)" by simp
  then show ?thesis unfolding sum_of_def by (metis sum_mset_sum_list)
qed

lemma frozen_get_sum_of:
  assumes "frozen_ok v"
  shows "pairs_get (Frozen v) k = sum_of v k"
proof (cases "k \<in> set (map triple_key v)")
  case True
  then obtain c where c: "(fst k, snd k, c) \<in> set v" by auto
  then have "((fst k, snd k), uint c) \<in> set (frozen_rows v)" unfolding mem_frozen_rows by blast
  with frozen.look_row [OF assms this] sum_of_member [OF _ c] assms show ?thesis by (simp add: frozen_ok_def)
next
  case False
  then have "k \<notin> fst ` set (frozen_rows v)" by (metis frozen_keys list.set_map)
  with frozen.look_none [OF assms] sum_of_absent [OF False] show ?thesis by simp
qed

lemma set_pairs_spec:
  "store_ok (pairs (set_pairs_frozen_vec v G))"
  "pairs_get (pairs (set_pairs_frozen_vec v G)) k = min (2 ^ 32 - 1) (sum_of (canonical v) k)"
proof -
  let ?s = "sort_key triple_key (canonical v)"
  have eq: "pairs (set_pairs_frozen_vec v G) = Frozen (coalesce [] ?s)"
    by (simp add: set_pairs_frozen_vec_def canonical_def Let_def)
  have r: "sorted_wrt (<) (map triple_key (coalesce [] ?s)) \<and>
      set (map triple_key (coalesce [] ?s)) = set (map triple_key []) \<union> set (map triple_key ?s) \<and>
      (\<forall>k. sum_of (coalesce [] ?s) k = min (2 ^ 32 - 1) (sum_of [] k + sum_of ?s k))"
    by (rule coalesce_spec) (simp_all only: sorted_sort_key list.map rev.simps sorted_wrt.simps list.set empty_iff)
  have keys: "set (map triple_key (coalesce [] ?s)) = set (map triple_key (canonical v))"
    using r unfolding set_map set_sort by simp
  have "\<forall>(a, b, c) \<in> set (coalesce [] ?s). a < b"
  proof (clarify)
    fix a b c assume "(a, b, c) \<in> set (coalesce [] ?s)"
    then have "(a, b) \<in> set (map triple_key (coalesce [] ?s))" unfolding set_map by (intro rev_image_eqI) auto
    then have "(a, b) \<in> set (map triple_key (canonical v))" unfolding keys .
    then show "a < b" using canonical_keys [of v] by blast
  qed
  then have ok: "frozen_ok (coalesce [] ?s)" using r by (simp add: frozen_ok_def)
  then show "store_ok (pairs (set_pairs_frozen_vec v G))" by (simp add: eq store_ok_def)
  show "pairs_get (pairs (set_pairs_frozen_vec v G)) k = min (2 ^ 32 - 1) (sum_of (canonical v) k)"
    unfolding eq frozen_get_sum_of [OF ok] using r by (simp add: sum_of_sort del: split_paired_All)
qed

section \<open>Properties\<close>

text \<open>Loading a vector of counts: in whatever order and orientation the rows come, and however
  often a pair occurs, the graph answers the sum of the pair's counts, up to the largest 32-bit
  number, for both orders of the pair.\<close>

theorem frozen_vec_counts:
  assumes "a \<noteq> b"
  shows "cooc_by_id (set_pairs_frozen_vec v G) a b =
      min (2 ^ 32 - 1) (\<Sum>(x, y, c) \<leftarrow> v. if (x, y) = (a, b) \<or> (x, y) = (b, a) then uint c else 0) \<and>
    cooc_by_id (set_pairs_frozen_vec v G) b a = cooc_by_id (set_pairs_frozen_vec v G) a b"
proof (cases "a < b")
  case True
  then show ?thesis using assms
    by (simp add: cooc_by_id_def ordered_def set_pairs_spec(2) sum_of_canonical order.asym)
next
  case False
  then have ba: "b < a" using assms by simp
  have swap: "(\<Sum>(x, y, c) \<leftarrow> v. if (x, y) = (b, a) \<or> (x, y) = (a, b) then uint c else 0) =
      (\<Sum>(x, y, c) \<leftarrow> v. if (x, y) = (a, b) \<or> (x, y) = (b, a) then uint c else 0)"
    by (simp add: disj_commute)
  show ?thesis using ba False assms
    by (simp only: cooc_by_id_def ordered_def set_pairs_spec(2) sum_of_canonical [OF ba] swap if_False if_True) simp
qed

theorem frozen_vec_counts_witness:
  "cooc_by_id (set_pairs_frozen_vec [(1, 0, 3), (0, 2, 4), (0, 1, 2), (5, 5, 9)] empty_graph) 0 1 = 5"
  using frozen_vec_counts [of 0 1 "[(1, 0, 3), (0, 2, 4), (0, 1, 2), (5, 5, 9)]" empty_graph] by simp

text \<open>C26. Freezing keeps the marginals and every count that is at least the minimum and whose tags
  may be asked for, narrowed to 32 bits; what it drops reads as zero, and the names are gone.\<close>

theorem freeze_keeps_counts:
  assumes "store_ok (pairs G)" and "least < 2 ^ 32"
  shows "cooc_by_id (freeze_inner least queryable G) a b =
      (if a = b then marginal_by_id G a
       else if max 1 least \<le> cooc_by_id G a b \<and>
          (case queryable of None \<Rightarrow> True | Some q \<Rightarrow> a \<in> q \<and> b \<in> q)
       then min (cooc_by_id G a b) (2 ^ 32 - 1) else 0) \<and>
    tag_id g t (freeze_inner least queryable G) = None"
proof -
  have "tag_id g t (freeze_inner least queryable G) = None"
    by (simp add: tag_id_def freeze_inner_def Let_def)
  moreover have "marginal_by_id (freeze_inner least queryable G) a = marginal_by_id G a"
    by (simp add: marginal_by_id_def freeze_inner_def Let_def)
  ultimately show ?thesis
    using pairs_get_freeze(2) [OF assms, of queryable a b] pairs_get_freeze(2) [OF assms, of queryable b a]
    unfolding cooc_by_id_def ordered_def Let_def
    by (cases "a < b") (auto simp del: pairs_get.simps split: option.split)
qed

theorem freeze_keeps_counts_witness:
  "cooc_by_id (freeze_inner 3 None (empty_graph\<lparr>pairs := Hot [((0, 1), 2), ((0, 2), 5)]\<rparr>)) 2 0 = 5"
proof -
  let ?G = "empty_graph\<lparr>pairs := Hot [((0, 1), 2), ((0, 2), 5)]\<rparr>"
  have "store_ok (pairs ?G)" by (simp add: store_ok_def hot_ok_def tbl_ok_def)
  from freeze_keeps_counts [OF this, of 3 None 2 0] show ?thesis
    by (simp add: cooc_by_id_def ordered_def tbl_get_def)
qed

section \<open>Truncating\<close>

lemma key_order: "(- c', k') \<le> (- c, k) \<longleftrightarrow> c < c' \<or> (c = c' \<and> k' \<le> k)" for c c' :: int and k k' :: pair_key
  by auto

lemma take_sorted_strongest:
  fixes m :: "(pair_key, int) table"
  defines "v \<equiv> sort_key (\<lambda>(k, c). (- c, k)) m"
  assumes kept: "(k, c) \<in> set (take n v)" and gone: "(k', c') \<in> set m" "(k', c') \<notin> set (take n v)"
  shows "c' \<le> c"
proof -
  have "(k', c') \<in> set v" using gone(1) by (simp add: v_def)
  then have "(k', c') \<in> set (drop n v)" using gone(2) by (metis Un_iff append_take_drop_id set_append)
  moreover have "sorted (map (\<lambda>(k, c). (- c, k)) (take n v) @ map (\<lambda>(k, c). (- c, k)) (drop n v))"
    by (metis append_take_drop_id map_append sorted_sort_key v_def)
  ultimately have "(- c, k) \<le> (- c', k')" using kept unfolding sorted_append by force
  then show ?thesis unfolding key_order by auto
qed

text \<open>Truncating keeps the strongest pairs with their counts and the marginals: no dropped pair
  occurs more often than a kept one.\<close>

theorem truncate_keeps_strongest:
  assumes hot: "pairs G = Hot m" "hot_ok m" and some: "0 < keep"
  shows "\<exists>kept. truncate_to_top_pairs keep G = Some (min keep (n_pairs G), G\<lparr>pairs := Hot kept\<rparr>) \<and>
    length kept = min keep (n_pairs G) \<and> hot_ok kept \<and> set kept \<subseteq> set m \<and>
    (\<forall>(k, c) \<in> set kept. \<forall>(k', c') \<in> set m - set kept. c' \<le> c)"
proof (cases "length m \<le> keep")
  case True
  moreover have "G\<lparr>pairs := Hot m\<rparr> = G" using hot(1) by simp
  ultimately have "truncate_to_top_pairs keep G = Some (min keep (n_pairs G), G\<lparr>pairs := Hot m\<rparr>) \<and>
      length m = min keep (n_pairs G)"
    using some hot by (simp add: truncate_to_top_pairs_def n_pairs_def min_absorb2)
  then show ?thesis using hot(2) by (intro exI [of _ m]) auto
next
  case False
  let ?v = "sort_key (\<lambda>(k, c). (- c, k)) m"
  let ?kept = "take keep ?v"
  have "truncate_to_top_pairs keep G = Some (min keep (n_pairs G), G\<lparr>pairs := Hot ?kept\<rparr>)"
    "length ?kept = min keep (n_pairs G)"
    using False some hot by (simp_all add: truncate_to_top_pairs_def n_pairs_def Let_def min_absorb1 min_absorb2)
  moreover have sub: "set ?kept \<subseteq> set m" using set_take_subset [of keep ?v] by simp
  moreover have "hot_ok ?kept"
  proof -
    have "mset (map fst ?v) = mset (map fst m)" by simp
    then have "distinct (map fst ?v)" using hot(2) mset_eq_imp_distinct_iff unfolding hot_ok_def tbl_ok_def by blast
    then have "distinct (map fst ?kept)" unfolding take_map [symmetric] by (rule distinct_take)
    then show ?thesis using hot(2) sub unfolding hot_ok_def tbl_ok_def by blast
  qed
  moreover have "\<forall>(k, c) \<in> set ?kept. \<forall>(k', c') \<in> set m - set ?kept. c' \<le> c"
    using take_sorted_strongest by blast
  ultimately show ?thesis by blast
qed

theorem truncate_keeps_strongest_witness:
  "\<exists>kept. truncate_to_top_pairs 1 (empty_graph\<lparr>pairs := Hot [((0, 1), 2), ((0, 2), 5)]\<rparr>) =
     Some (1, empty_graph\<lparr>pairs := Hot kept\<rparr>)"
proof -
  let ?m = "[((0, 1), 2), ((0, 2), 5)] :: (pair_key, int) table"
  have "hot_ok ?m" by (simp add: hot_ok_def tbl_ok_def)
  with truncate_keeps_strongest [of "empty_graph\<lparr>pairs := Hot ?m\<rparr>" ?m 1] show ?thesis
    by (auto simp: n_pairs_def)
qed

text \<open>Asked to keep nothing, the operation keeps everything and reports that nothing is left.\<close>

theorem truncate_zero_keeps_all:
  "truncate_to_top_pairs 0 G = Some (0, G)"
  by (simp add: truncate_to_top_pairs_def)

end
