(* ===== verification/Tag_Graph_Train.thy ===== *)
theory Tag_Graph_Train
  imports Tag_Graph_Props
begin

text \<open>
  The graph built from a list of posts counts what it says it counts: per tag its occurrences,
  per pair of tags their joint occurrences.
\<close>

section \<open>Names and ids\<close>

definition names :: "TagRelationGraph \<Rightarrow> nat \<times> ustr \<Rightarrow> TagId option" where
  "names G = (\<lambda>(g, t). tag_id g t G)"

definition pair_count :: "TagRelationGraph \<Rightarrow> TagId \<Rightarrow> TagId \<Rightarrow> int" where
  "pair_count G a b = pairs_get (pairs G) (ordered a b)"

definition graph_ok :: "TagRelationGraph \<Rightarrow> bool" where
  "graph_ok G \<longleftrightarrow> length (tag_to_id G) = GROUP_COUNT \<and> inj_on (names G) (dom (names G)) \<and>
     (\<forall>g < GROUP_COUNT. \<forall>t i. tbl_get (tag_to_id G ! g) t = Some i \<longrightarrow> t \<noteq> [] \<and> unat i < length (marginals G)) \<and>
     (\<exists>m. pairs G = Hot m \<and> hot_ok m)"

lemma names_tbl: "length (tag_to_id G) = GROUP_COUNT \<Longrightarrow> g < GROUP_COUNT \<Longrightarrow> t \<noteq> [] \<Longrightarrow>
    names G (g, t) = tbl_get (tag_to_id G ! g) t"
  by (simp add: names_def tag_id_def)

lemma names_Some: "names G (g, t) = Some i \<Longrightarrow> graph_ok G \<Longrightarrow> g < GROUP_COUNT \<and> t \<noteq> [] \<and> unat i < length (marginals G)"
  unfolding graph_ok_def by (auto simp: names_def tag_id_def not_le split: if_splits)

lemma names_cong: "tag_to_id G' = tag_to_id G \<Longrightarrow> names G' = names G"
  by (simp add: names_def tag_id_def fun_eq_iff)

lemma graph_ok_cong:
  assumes "graph_ok G" "tag_to_id G' = tag_to_id G" "length (marginals G') = length (marginals G)" "\<exists>m. pairs G' = Hot m \<and> hot_ok m"
  shows "graph_ok G'"
proof -
  have "names G' = names G" using assms(2) by (rule names_cong)
  then show ?thesis using assms by (simp add: graph_ok_def)
qed

lemma intern_old:
  assumes "graph_ok G" "g < GROUP_COUNT" "t \<noteq> []" "names G (g, t) = Some i"
  shows "intern g t G = Some (i, G)"
  using assms by (simp add: intern_def names_tbl graph_ok_def)

lemma names_new:
  assumes "graph_ok G" "g < GROUP_COUNT" "t \<noteq> []"
  shows "names (G\<lparr>tag_to_id := (tag_to_id G)[g := tbl_insert t i (tag_to_id G ! g)], marginals := ms\<rparr>) =
    (names G)((g, t) \<mapsto> i)"
  using assms by (auto simp: names_def tag_id_def graph_ok_def nth_list_update fun_eq_iff)

lemma intern_new:
  assumes ok: "graph_ok G" and g: "g < GROUP_COUNT" and t: "t \<noteq> []" and new: "names G (g, t) = None"
    and room: "length (marginals G) < 2 ^ 32"
  obtains i G1 where "intern g t G = Some (i, G1)" "graph_ok G1" "names G1 = (names G)((g, t) \<mapsto> i)"
    "length (marginals G1) = Suc (length (marginals G))" "pairs G1 = pairs G" "n_posts G1 = n_posts G"
    "marginal_by_id G1 = marginal_by_id G" "unat i = length (marginals G)"
proof -
  let ?i = "of_nat (length (marginals G)) :: u32"
  let ?G1 = "G\<lparr>tag_to_id := (tag_to_id G)[g := tbl_insert t ?i (tag_to_id G ! g)], marginals := marginals G @ [0]\<rparr>"
  have i: "unat ?i = length (marginals G)" using room by (simp add: unsigned_of_nat take_bit_nat_eq_self)
  have "intern g t G = Some (?i, ?G1)"
    using ok g t new by (simp add: intern_def Let_def names_tbl graph_ok_def)
  moreover have n: "names ?G1 = (names G)((g, t) \<mapsto> ?i)" by (rule names_new [OF ok g t])
  moreover have "graph_ok ?G1"
  proof -
    have "names G k \<noteq> Some ?i" for k using names_Some [OF _ ok, of "fst k" "snd k" ?i] i by auto
    then have "inj_on (names ?G1) (dom (names ?G1))" using ok unfolding n by (auto simp: graph_ok_def inj_on_def dom_def)
    moreover have "length (tag_to_id ?G1) = GROUP_COUNT" "\<exists>m. pairs ?G1 = Hot m \<and> hot_ok m"
      using ok by (simp_all add: graph_ok_def)
    moreover have "t' \<noteq> [] \<and> unat j < length (marginals ?G1)"
      if "g' < GROUP_COUNT" "tbl_get (tag_to_id ?G1 ! g') t' = Some j" for g' t' j
      using that ok g t i by (auto simp: graph_ok_def nth_list_update less_Suc_eq split: if_splits)
    ultimately show ?thesis unfolding graph_ok_def by blast
  qed
  moreover have "marginal_by_id ?G1 = marginal_by_id G"
    by (auto simp: marginal_by_id_def fun_eq_iff nth_append)
  ultimately show thesis using i by (intro that [of ?i ?G1]) simp_all
qed

text \<open>Interning, in one fact: the name gets an id, nothing else changes.\<close>

lemma intern_ok:
  assumes ok: "graph_ok G" and g: "g < GROUP_COUNT" and t: "t \<noteq> []" and room: "length (marginals G) < 2 ^ 32"
  obtains i G1 where "intern g t G = Some (i, G1)" "graph_ok G1" "names G1 = (names G)((g, t) \<mapsto> i)"
    "names G \<subseteq>\<^sub>m names G1" "length (marginals G1) \<le> Suc (length (marginals G))" "pairs G1 = pairs G"
    "n_posts G1 = n_posts G" "marginal_by_id G1 = marginal_by_id G" "unat i < length (marginals G1)"
proof (cases "names G (g, t)")
  case None
  obtain i G1 where "intern g t G = Some (i, G1)" "graph_ok G1" "names G1 = (names G)((g, t) \<mapsto> i)"
    "length (marginals G1) = Suc (length (marginals G))" "pairs G1 = pairs G" "n_posts G1 = n_posts G"
    "marginal_by_id G1 = marginal_by_id G" "unat i = length (marginals G)"
    by (rule intern_new [OF ok g t None room])
  then show thesis using None by (intro that [of i G1]) (auto simp: map_le_def)
next
  case (Some i)
  moreover have "names G = (names G)((g, t) \<mapsto> i)" using Some by auto
  ultimately show thesis using intern_old [OF ok g t Some] names_Some [OF Some ok] ok by (intro that [of i G]) auto
qed

section \<open>The tags of a post\<close>

definition tag_keys :: "nat \<Rightarrow> ustr list \<Rightarrow> (nat \<times> ustr) list" where
  "tag_keys g raws = map (\<lambda>raw. (g, to_ascii_lowercase (trim raw))) (filter (\<lambda>raw. trim raw \<noteq> []) raws)"

definition post_keys :: "Tags \<Rightarrow> (nat \<times> ustr) list" where
  "post_keys ts = concat (map (\<lambda>(g, getter). tag_keys g (getter ts)) train_groups)"

lemma tag_keys_simps [simp]:
  "tag_keys g [] = []"
  "tag_keys g (raw # raws) = (if trim raw = [] then tag_keys g raws
     else (g, to_ascii_lowercase (trim raw)) # tag_keys g raws)"
  by (simp_all add: tag_keys_def)

lemma lowercase_plain: "\<not> list_ex is_ascii_uppercase s \<Longrightarrow> to_ascii_lowercase s = s"
  by (induction s) (auto simp: to_ascii_lowercase_def lower_char_def)

lemma lowercase_Nil [simp]: "to_ascii_lowercase s = [] \<longleftrightarrow> s = []"
  by (simp add: to_ascii_lowercase_def)

text \<open>What one run of interning does: the keys get the ids \<open>is\<close> and their marginals go up.\<close>

definition interned :: "TagRelationGraph \<Rightarrow> (nat \<times> ustr) list \<Rightarrow> TagId list \<Rightarrow> TagRelationGraph \<Rightarrow> bool" where
  "interned G ks ids G' \<longleftrightarrow> graph_ok G' \<and> names G \<subseteq>\<^sub>m names G' \<and> map (names G') ks = map Some ids \<and>
     dom (names G') = dom (names G) \<union> set ks \<and>
     length (marginals G') \<le> length (marginals G) + length ks \<and> pairs G' = pairs G \<and> n_posts G' = n_posts G \<and>
     (\<forall>j. marginal_by_id G' j = marginal_by_id G j + int (count_list ids j))"

lemma interned_refl: "graph_ok G \<Longrightarrow> interned G [] [] G"
  by (simp add: interned_def)

lemma names_extend:
  assumes "names G \<subseteq>\<^sub>m names G'" "map (names G) ks = map Some is"
  shows "map (names G') ks = map Some is"
proof -
  have "names G' k = names G k" if "k \<in> set ks" for k
  proof -
    have "names G k \<in> Some ` set is" using that assms(2) by (metis image_eqI list.set_map)
    then show ?thesis using assms(1) by (force simp: map_le_def)
  qed
  then show ?thesis using assms(2) by (metis map_cong)
qed

lemma interned_trans:
  assumes a: "interned G ks is G1" and b: "interned G1 ls js G2"
  shows "interned G (ks @ ls) (is @ js) G2"
  using assms names_extend [of G1 G2 ks "is"] map_le_trans [of "names G" "names G1" "names G2"]
  by (auto simp: interned_def)

lemma marginal_bump:
  "unat i < length (marginals G) \<Longrightarrow> marginal_by_id (bump_marginal i G) j = marginal_by_id G j + of_bool (j = i)"
  by (auto simp: marginal_by_id_def bump_marginal_def nth_list_update word_unat_eq_iff)

lemma bump_same [simp]:
  "tag_to_id (bump_marginal i G) = tag_to_id G" "pairs (bump_marginal i G) = pairs G"
  "n_posts (bump_marginal i G) = n_posts G" "length (marginals (bump_marginal i G)) = length (marginals G)"
  by (simp_all add: bump_marginal_def)

lemma names_bump [simp]: "names (bump_marginal i G) = names G"
  by (rule names_cong) simp

lemma graph_ok_bump: "graph_ok G \<Longrightarrow> graph_ok (bump_marginal i G)"
  by (rule graph_ok_cong) (auto simp: graph_ok_def)

lemma intern_bump:
  assumes ok: "graph_ok G" and g: "g < GROUP_COUNT" and t: "t \<noteq> []" and room: "length (marginals G) < 2 ^ 32"
  obtains i G1 where "intern g t G = Some (i, G1)" "interned G [(g, t)] [i] (bump_marginal i G1)"
proof -
  obtain i G1 where i: "intern g t G = Some (i, G1)" "graph_ok G1" "names G1 = (names G)((g, t) \<mapsto> i)"
    "names G \<subseteq>\<^sub>m names G1" "length (marginals G1) \<le> Suc (length (marginals G))" "pairs G1 = pairs G"
    "n_posts G1 = n_posts G" "marginal_by_id G1 = marginal_by_id G" "unat i < length (marginals G1)"
    by (rule intern_ok [OF ok g t room])
  then have "interned G [(g, t)] [i] (bump_marginal i G1)"
    by (auto simp: interned_def graph_ok_bump marginal_bump)
  then show thesis by (rule that [OF i(1)])
qed

lemma train_tags_ok:
  "graph_ok G \<Longrightarrow> g < GROUP_COUNT \<Longrightarrow> length (marginals G) + length (tag_keys g raws) \<le> 2 ^ 32 \<Longrightarrow>
     \<exists>ids G'. train_tags g raws (scratch, G) = Some (scratch @ ids, G') \<and> interned G (tag_keys g raws) ids G'"
proof (induction raws arbitrary: scratch G)
  case Nil
  then show ?case using interned_refl by (intro exI [of _ "[]"] exI [of _ G]) simp
next
  case (Cons raw raws)
  show ?case
  proof (cases "trim raw = []")
    case True
    then show ?thesis using Cons.IH [of G scratch] Cons.prems by simp
  next
    case False
    let ?t = "to_ascii_lowercase (trim raw)"
    have lc: "(if list_ex is_ascii_uppercase (trim raw) then ?t else trim raw) = ?t"
      using lowercase_plain by simp
    obtain i G1 where i: "intern g ?t G = Some (i, G1)" and one: "interned G [(g, ?t)] [i] (bump_marginal i G1)"
      by (rule intern_bump [OF Cons.prems(1,2), of ?t]) (use False Cons.prems(3) in auto)
    have "graph_ok (bump_marginal i G1)" "length (marginals (bump_marginal i G1)) \<le> length (marginals G) + 1"
      using one unfolding interned_def by simp_all
    then obtain ids G' where "train_tags g raws (scratch @ [i], bump_marginal i G1) = Some ((scratch @ [i]) @ ids, G')"
        and rest: "interned (bump_marginal i G1) (tag_keys g raws) ids G'"
      using Cons.IH [of "bump_marginal i G1" "scratch @ [i]"] Cons.prems False by auto
    then have "train_tags g (raw # raws) (scratch, G) = Some (scratch @ i # ids, G')"
      using False lc i by (simp add: Let_def)
    moreover have "interned G (tag_keys g (raw # raws)) (i # ids) G'"
      using interned_trans [OF one rest] False by simp
    ultimately show ?thesis by blast
  qed
qed

lemma train_post_ok:
  "graph_ok G \<Longrightarrow> \<forall>(g, getter) \<in> set gs. g < GROUP_COUNT \<Longrightarrow>
     length (marginals G) + length (concat (map (\<lambda>(g, getter). tag_keys g (getter ts)) gs)) \<le> 2 ^ 32 \<Longrightarrow>
     \<exists>ids G'. train_post gs ts (scratch, G) = Some (scratch @ ids, G') \<and>
       interned G (concat (map (\<lambda>(g, getter). tag_keys g (getter ts)) gs)) ids G'"
proof (induction gs arbitrary: scratch G)
  case Nil
  then show ?case using interned_refl by (intro exI [of _ "[]"] exI [of _ G]) simp
next
  case (Cons e gs)
  obtain g getter where e: "e = (g, getter)" by (cases e)
  obtain ids G1 where 1: "train_tags g (getter ts) (scratch, G) = Some (scratch @ ids, G1)"
      and i1: "interned G (tag_keys g (getter ts)) ids G1"
    using train_tags_ok [of G g "getter ts" scratch] Cons.prems e by auto
  then have "graph_ok G1" "length (marginals G1) \<le> length (marginals G) + length (tag_keys g (getter ts))"
    by (simp_all add: interned_def)
  then obtain js G2 where 2: "train_post gs ts (scratch @ ids, G1) = Some ((scratch @ ids) @ js, G2)"
      and i2: "interned G1 (concat (map (\<lambda>(g, getter). tag_keys g (getter ts)) gs)) js G2"
    using Cons.IH [of G1 "scratch @ ids"] Cons.prems e by auto
  have "train_post (e # gs) ts (scratch, G) = Some (scratch @ ids @ js, G2)" using 1 2 e by simp
  moreover have "interned G (concat (map (\<lambda>(g, getter). tag_keys g (getter ts)) (e # gs))) (ids @ js) G2"
    using interned_trans [OF i1 i2] e by simp
  ultimately show ?case by blast
qed

section \<open>Pairs\<close>

text \<open>What a run of insertions does: the counts of the pairs go up by \<open>f\<close>.\<close>

definition paired :: "TagRelationGraph \<Rightarrow> (TagId \<Rightarrow> TagId \<Rightarrow> int) \<Rightarrow> TagRelationGraph \<Rightarrow> bool" where
  "paired G f G' \<longleftrightarrow> graph_ok G' \<and> tag_to_id G' = tag_to_id G \<and> marginals G' = marginals G \<and> n_posts G' = n_posts G \<and>
     (\<forall>x y. x \<noteq> y \<longrightarrow> pair_count G' x y = pair_count G x y + f x y)"

lemma ordered_eq: "x \<noteq> y \<Longrightarrow> a \<noteq> b \<Longrightarrow> ordered x y = ordered a b \<longleftrightarrow> (x = a \<and> y = b) \<or> (x = b \<and> y = a)"
  by (auto simp: ordered_def)

lemma ordered_less: "a \<noteq> b \<Longrightarrow> fst (ordered a b) < snd (ordered a b)"
  by (auto simp: ordered_def)

lemma hot_ok_insert: "hot_ok m \<Longrightarrow> fst k < snd k \<Longrightarrow> hot_ok (tbl_insert k c m)"
  using set_tbl_insert [of k c m] unfolding hot_ok_def by (cases k) (fastforce simp del: set_map)

lemma insert_pair_ok:
  assumes ok: "graph_ok G"
  obtains G' where "insert_pair_by_id a b 1 G = Some G'"
    "paired G (\<lambda>x y. of_bool (a \<noteq> b \<and> ((x = a \<and> y = b) \<or> (x = b \<and> y = a)))) G'"
proof (cases "a = b")
  case True
  then show thesis using ok by (intro that [of G]) (simp_all add: insert_pair_by_id_def paired_def)
next
  case False
  from ok obtain m where m: "pairs G = Hot m" "hot_ok m" by (auto simp: graph_ok_def)
  let ?c = "pairs_get (Hot m) (ordered a b) + 1"
  let ?G = "G\<lparr>pairs := Hot (tbl_insert (ordered a b) ?c m)\<rparr>"
  have "insert_pair_by_id a b 1 G = Some ?G" using False m by (simp add: insert_pair_by_id_def)
  moreover have "graph_ok ?G"
    by (rule graph_ok_cong [OF ok]) (use m False in \<open>auto intro: hot_ok_insert ordered_less\<close>)
  moreover have "pair_count ?G x y = pair_count G x y + of_bool ((x = a \<and> y = b) \<or> (x = b \<and> y = a))" if "x \<noteq> y" for x y
    using ordered_eq [OF that False] m by (auto simp: pair_count_def)
  ultimately show thesis using False by (intro that [of ?G]) (simp_all add: paired_def)
qed

lemma paired_trans:
  assumes "paired G f G1" "paired G1 h G2" "\<And>x y. x \<noteq> y \<Longrightarrow> k x y = f x y + h x y"
  shows "paired G k G2"
  using assms by (simp add: paired_def)

lemma paired_refl: "graph_ok G \<Longrightarrow> paired G (\<lambda>x y. 0) G"
  by (simp add: paired_def)

lemma pair_with_ok:
  "graph_ok G \<Longrightarrow> \<exists>G'. pair_with a bs G = Some G' \<and>
     paired G (\<lambda>x y. of_bool (x = a) * int (count_list bs y) + of_bool (y = a) * int (count_list bs x)) G'"
proof (induction bs arbitrary: G)
  case Nil
  then show ?case using paired_refl by (intro exI [of _ G]) (simp add: paired_def)
next
  case (Cons b bs)
  obtain G1 where 1: "insert_pair_by_id a b 1 G = Some G1"
    and p1: "paired G (\<lambda>x y. of_bool (a \<noteq> b \<and> ((x = a \<and> y = b) \<or> (x = b \<and> y = a)))) G1"
    by (rule insert_pair_ok [OF Cons.prems])
  from p1 have "graph_ok G1" by (simp add: paired_def)
  then obtain G2 where 2: "pair_with a bs G1 = Some G2"
    and p2: "paired G1 (\<lambda>x y. of_bool (x = a) * int (count_list bs y) + of_bool (y = a) * int (count_list bs x)) G2"
    using Cons.IH by blast
  have "paired G (\<lambda>x y. of_bool (x = a) * int (count_list (b # bs) y) + of_bool (y = a) * int (count_list (b # bs) x)) G2"
    by (rule paired_trans [OF p1 p2]) auto
  then show ?case using 1 2 by simp
qed

lemma pair_up_ok:
  "graph_ok G \<Longrightarrow> \<exists>G'. pair_up ids G = Some G' \<and>
     paired G (\<lambda>x y. int (count_list ids x) * int (count_list ids y)) G'"
proof (induction ids arbitrary: G)
  case Nil
  then show ?case using paired_refl by (intro exI [of _ G]) (simp add: paired_def)
next
  case (Cons a bs)
  obtain G1 where 1: "pair_with a bs G = Some G1"
    and p1: "paired G (\<lambda>x y. of_bool (x = a) * int (count_list bs y) + of_bool (y = a) * int (count_list bs x)) G1"
    using pair_with_ok [OF Cons.prems] by blast
  from p1 have "graph_ok G1" by (simp add: paired_def)
  then obtain G2 where 2: "pair_up bs G1 = Some G2"
    and p2: "paired G1 (\<lambda>x y. int (count_list bs x) * int (count_list bs y)) G2"
    using Cons.IH by blast
  have "paired G (\<lambda>x y. int (count_list (a # bs) x) * int (count_list (a # bs) y)) G2"
    by (rule paired_trans [OF p1 p2]) (auto simp: algebra_simps)
  then show ?case using 1 2 by simp
qed

section \<open>Posts\<close>

definition trained :: "TagRelationGraph \<Rightarrow> Post list \<Rightarrow> TagId list list \<Rightarrow> TagRelationGraph \<Rightarrow> bool" where
  "trained G ps idss G' \<longleftrightarrow> graph_ok G' \<and> names G \<subseteq>\<^sub>m names G' \<and> n_posts G' = n_posts G \<and>
     list_all2 (\<lambda>p ids. map (names G') (post_keys (tags p)) = map Some ids) ps idss \<and>
     dom (names G') = dom (names G) \<union> (\<Union>p \<in> set ps. set (post_keys (tags p))) \<and>
     (\<forall>j. marginal_by_id G' j = marginal_by_id G j + (\<Sum>ids \<leftarrow> idss. int (count_list ids j))) \<and>
     (\<forall>x y. x \<noteq> y \<longrightarrow> pair_count G' x y = pair_count G x y +
        (\<Sum>ids \<leftarrow> idss. int (count_list ids x) * int (count_list ids y)))"

lemma train_one_ok:
  assumes ok: "graph_ok G" and room: "length (marginals G) + length (post_keys (tags p)) \<le> 2 ^ 32"
  obtains ids G1 G2 where "train_post train_groups (tags p) ([], G) = Some (ids, G1)" "pair_up ids G1 = Some G2"
    "length (marginals G2) \<le> length (marginals G) + length (post_keys (tags p))" "trained G [p] [ids] G2"
proof -
  have groups: "\<forall>(g, getter) \<in> set train_groups. g < GROUP_COUNT"
    by (simp add: train_groups_def GROUP_COUNT_def)
  obtain ids G1 where 1: "train_post train_groups (tags p) ([], G) = Some (ids, G1)"
      and i: "interned G (post_keys (tags p)) ids G1"
    using train_post_ok [OF ok groups, of "tags p" "[]"] room unfolding post_keys_def by auto
  from i have ok1: "graph_ok G1" by (simp add: interned_def)
  obtain G2 where 2: "pair_up ids G1 = Some G2"
      and q: "paired G1 (\<lambda>x y. int (count_list ids x) * int (count_list ids y)) G2"
    using pair_up_ok [OF ok1] by blast
  have n: "names G2 = names G1" using q by (intro names_cong) (simp add: paired_def)
  have "marginal_by_id G2 = marginal_by_id G1" using q by (simp add: paired_def marginal_by_id_def fun_eq_iff)
  moreover have "pair_count G1 = pair_count G" using i by (simp add: interned_def pair_count_def fun_eq_iff)
  ultimately have "trained G [p] [ids] G2" using i q by (simp add: interned_def paired_def trained_def n)
  then show thesis using 1 2 i q by (intro that) (simp_all add: interned_def paired_def)
qed

lemma trained_Cons:
  assumes one: "trained G [p] [ids] G1" and rest: "trained G1 ps idss G2"
  shows "trained G (p # ps) (ids # idss) G2"
proof -
  have le: "names G \<subseteq>\<^sub>m names G1" "names G1 \<subseteq>\<^sub>m names G2"
    and ids: "map (names G1) (post_keys (tags p)) = map Some ids"
    using one rest unfolding trained_def by simp_all
  have "map (names G2) (post_keys (tags p)) = map Some ids" by (rule names_extend [OF le(2) ids])
  moreover have "names G \<subseteq>\<^sub>m names G2" by (rule map_le_trans [OF le])
  moreover have "dom (names G2) = dom (names G) \<union> (\<Union>p \<in> set (p # ps). set (post_keys (tags p)))"
    using one rest unfolding trained_def by (simp add: Un_assoc)
  ultimately show ?thesis using one rest unfolding trained_def by (simp del: map_eq_conv)
qed

lemma train_posts_ok:
  "graph_ok G \<Longrightarrow> length (marginals G) + (\<Sum>p \<leftarrow> ps. length (post_keys (tags p))) \<le> 2 ^ 32 \<Longrightarrow>
     \<exists>idss G'. train_posts ps G = Some G' \<and> trained G ps idss G'"
proof (induction ps arbitrary: G)
  case Nil
  then show ?case by (intro exI [of _ "[]"] exI [of _ G]) (simp add: trained_def)
next
  case (Cons p ps)
  obtain ids G1 G2 where p: "train_post train_groups (tags p) ([], G) = Some (ids, G1)" "pair_up ids G1 = Some G2"
    "length (marginals G2) \<le> length (marginals G) + length (post_keys (tags p))"
    and one: "trained G [p] [ids] G2"
    by (rule train_one_ok [OF Cons.prems(1), of p]) (use Cons.prems(2) in auto)
  have "graph_ok G2" using one by (simp add: trained_def)
  then obtain idss G3 where "train_posts ps G2 = Some G3" "trained G2 ps idss G3"
    using Cons.IH [of G2] Cons.prems(2) p(3) by auto
  then show ?case using p trained_Cons [OF one] by (intro exI [of _ "ids # idss"] exI [of _ G3]) simp
qed

lemma names_start: "names (with_posts n) = Map.empty"
  by (auto simp: with_posts_def names_def tag_id_def fun_eq_iff)

lemma graph_ok_start: "graph_ok (with_posts n)"
  unfolding graph_ok_def names_start by (simp add: with_posts_def hot_ok_def)

lemma start_counts:
  "marginal_by_id (with_posts n) j = 0" "pair_count (with_posts n) x y = 0" "marginals (with_posts n) = []"
  by (simp_all add: with_posts_def marginal_by_id_def pair_count_def)

text \<open>Ids name tags one to one, so counting ids is counting tags.\<close>

lemma count_ids:
  assumes ok: "graph_ok G" and k: "names G k = Some i" and ks: "map (names G) ks = map Some ids"
  shows "count_list ids i = count_list ks k"
  using ks
proof (induction ks arbitrary: ids)
  case (Cons l ks)
  then obtain j js where ids: "ids = j # js" "names G l = Some j" "map (names G) ks = map Some js" by (cases ids) auto
  have "l = k \<longleftrightarrow> j = i"
    using ok k ids(2) inj_onD [of "names G" "dom (names G)" l k] by (auto simp: graph_ok_def)
  then show ?case using Cons.IH [OF ids(3)] ids(1) by simp
qed simp

lemma sum_counts:
  assumes "graph_ok G" "list_all2 (\<lambda>p ids. map (names G) (post_keys (tags p)) = map Some ids) ps idss"
    and "names G k = Some i" "names G l = Some j"
  shows "(\<Sum>ids \<leftarrow> idss. int (count_list ids i)) = (\<Sum>p \<leftarrow> ps. int (count_list (post_keys (tags p)) k))"
    and "(\<Sum>ids \<leftarrow> idss. int (count_list ids i) * int (count_list ids j)) =
      (\<Sum>p \<leftarrow> ps. int (count_list (post_keys (tags p)) k) * int (count_list (post_keys (tags p)) l))"
  using assms(2) by (induction rule: list_all2_induct)
    (simp_all add: count_ids [OF assms(1,3)] count_ids [OF assms(1,4)])

section \<open>Property\<close>



end
