(* ===== verification/Rebuild.thy ===== *)
theory Rebuild
  imports "HOL-Library.Multiset"
begin

text \<open>
  The protocol of the two background rebuilds (\<open>utils/tag_relation.rs\<close>, \<open>utils/idf.rs\<close>): a flag
  says that the cached index is dirty, another that a worker exists.  Whoever marks the index
  dirty calls \<open>spawn_rebuild_if_needed\<close>; the worker swaps the dirty flag, reads the database,
  stores what it read, waits, gives up its flag and looks at the dirty flag once more.

  A thread is what it does next; the atomic operations of the threads interleave freely.  The
  flags are sequentially consistent here.
\<close>

section \<open>Flags and threads\<close>

record rebuild_flags =
  dirty :: bool
  rebuilding :: bool
  cold :: bool

text \<open>\<open>cold\<close> is not in the code: it says that nothing was stored since the start or the last
  eviction.\<close>

datatype 'a thread =
    Marking | Spawning | Checking | Loading | Storing 'a | Cooling | Waking | Releasing | Rechecking

fun advance :: "'a thread \<Rightarrow> rebuild_flags \<Rightarrow> rebuild_flags \<times> 'a thread option" where
  "advance Marking f = (f\<lparr>dirty := True\<rparr>, Some Spawning)"
| "advance Spawning f = (if rebuilding f then (f, None) else (f\<lparr>rebuilding := True\<rparr>, Some Checking))"
| "advance Checking f = (if dirty f then (f\<lparr>dirty := False\<rparr>, Some Loading) else (f, Some Cooling))"
| "advance Loading f = (f, Some Loading)"
| "advance (Storing x) f = (f, Some (Storing x))"
| "advance Cooling f = (f, Some Waking)"
| "advance Waking f = (f, Some (if dirty f then Checking else Releasing))"
| "advance Releasing f = (f\<lparr>rebuilding := False\<rparr>, Some Rechecking)"
| "advance Rechecking f = (f, if dirty f then Some Spawning else None)"

abbreviation threads_of :: "'a thread option \<Rightarrow> 'a thread multiset" where
  "threads_of t \<equiv> (case t of None \<Rightarrow> {#} | Some u \<Rightarrow> {#u#})"

inductive protocol :: "rebuild_flags \<Rightarrow> 'a thread multiset \<Rightarrow> bool" where
  start: "protocol \<lparr>dirty = True, rebuilding = False, cold = True\<rparr> {#}"
| mark: "protocol f ts \<Longrightarrow> protocol f (add_mset Marking ts)"
| read: "protocol f ts \<Longrightarrow> dirty f \<Longrightarrow> protocol f (add_mset Spawning ts)"
| evict: "protocol f ts \<Longrightarrow> protocol (f\<lparr>dirty := True, cold := True\<rparr>) ts"
| advance: "protocol f (add_mset t ts) \<Longrightarrow> advance t f = (f', u) \<Longrightarrow> protocol f' (threads_of u + ts)"
| loaded: "protocol f (add_mset Loading ts) \<Longrightarrow> protocol f (add_mset (Storing x) ts)"
| failed: "protocol f (add_mset Loading ts) \<Longrightarrow> protocol (f\<lparr>dirty := True\<rparr>) (add_mset Releasing ts)"
| proceed: "protocol f (add_mset (Storing x) ts) \<Longrightarrow> protocol f (add_mset (Storing y) ts)"
| gave_up: "protocol f (add_mset (Storing x) ts) \<Longrightarrow> protocol (f\<lparr>dirty := True\<rparr>) (add_mset Releasing ts)"
| stored: "protocol f (add_mset (Storing x) ts) \<Longrightarrow> protocol (f\<lparr>cold := False\<rparr>) (add_mset Checking ts)"
| refused: "protocol f (add_mset (Storing x) ts) \<Longrightarrow> protocol (f\<lparr>dirty := True\<rparr>) (add_mset Cooling ts)"

section \<open>One worker, and no mark without one\<close>

fun works :: "'a thread \<Rightarrow> bool" where
  "works Marking = False"
| "works Spawning = False"
| "works Rechecking = False"
| "works _ = True"

definition workers :: "'a thread multiset \<Rightarrow> nat" where
  "workers ts = size (filter_mset works ts)"

lemma workers_simps [simp]:
  "workers {#} = 0" "workers (add_mset t ts) = of_bool (works t) + workers ts"
  "workers (ts + us) = workers ts + workers us"
  by (simp_all add: workers_def)

lemma workers_pos: "0 < workers ts \<Longrightarrow> \<exists>t \<in># ts. works t"
  by (induction ts) auto

lemma workers_zero: "workers ts = 0 \<Longrightarrow> t \<in># ts \<Longrightarrow> \<not> works t"
  by (induction ts) auto

definition protocol_ok :: "rebuild_flags \<Rightarrow> 'a thread multiset \<Rightarrow> bool" where
  "protocol_ok f ts \<longleftrightarrow> workers ts = of_bool (rebuilding f) \<and>
     (dirty f \<longrightarrow> cold f \<or> (\<exists>t \<in># ts. t \<noteq> Marking))"

lemma works_not_Marking: "works t \<Longrightarrow> t \<noteq> Marking"
  by auto

lemma responsible: "0 < workers ts \<Longrightarrow> \<exists>t \<in># ts. t \<noteq> Marking"
  using workers_pos works_not_Marking by metis

lemma protocol_ok_advance:
  assumes ok: "protocol_ok f (add_mset t ts)"
  shows "protocol_ok (fst (advance t f)) (threads_of (snd (advance t f)) + ts)"
proof (cases t)
  case Spawning
  show ?thesis
  proof (cases "rebuilding f")
    case True
    then have "0 < workers ts" using ok Spawning by (simp add: protocol_ok_def)
    then have "\<exists>t \<in># ts. t \<noteq> Marking" by (rule responsible)
    then show ?thesis using ok Spawning True by (simp add: protocol_ok_def)
  next
    case False
    then show ?thesis using ok Spawning by (simp add: protocol_ok_def)
  qed
next
  case Rechecking
  then show ?thesis using ok by (cases "dirty f") (simp_all add: protocol_ok_def)
next
  case Releasing
  then show ?thesis using ok by (cases "rebuilding f") (auto simp: protocol_ok_def)
qed (use ok in \<open>auto simp: protocol_ok_def\<close>)

lemma protocol_invariant: "protocol f ts \<Longrightarrow> protocol_ok f ts"
proof (induction rule: protocol.induct)
  case (advance f t ts f' u)
  then show ?case using protocol_ok_advance [of f t ts] by simp
qed (auto simp: protocol_ok_def)

end
