(* ===== verification/Relation_Cache.thy ===== *)
theory Relation_Cache
  imports Rebuild Tag_Graph
begin

text \<open>
  The cached global co-occurrence graph and its rebuild worker (\<open>utils/tag_relation.rs\<close>).  The
  database the worker reads is \<open>db\<close>, and \<open>load\<close> is what \<open>db::load_global_tag_relation\<close> reads
  from it; a load may also fail.  A write changes the database and then marks the graph dirty.
\<close>

section \<open>State and operations\<close>

record 'd Relation_State =
  flags :: rebuild_flags
  threads :: "TagRelationGraph thread multiset"
  global_cache :: TagRelationGraph
  last_user_access :: int
  db :: 'd

definition relation_start :: "int \<Rightarrow> 'd \<Rightarrow> 'd Relation_State" where
  "relation_start now d = \<lparr>flags = \<lparr>dirty = True, rebuilding = False, cold = True\<rparr>, threads = {#},
     global_cache = empty_graph, last_user_access = now, db = d\<rparr>"

definition mark_global_relation_dirty :: "'d Relation_State \<Rightarrow> 'd Relation_State" where
  "mark_global_relation_dirty s = s\<lparr>threads := add_mset Marking (threads s)\<rparr>"

definition current_global_relation :: "int \<Rightarrow> 'd Relation_State \<Rightarrow> TagRelationGraph \<times> 'd Relation_State" where
  "current_global_relation now s =
     (let s1 = s\<lparr>last_user_access := now\<rparr>;
          s2 = (if dirty (flags s1) then s1\<lparr>threads := add_mset Spawning (threads s1)\<rparr> else s1)
      in (global_cache s2, s2))"

definition evict_if_idle :: "nat \<Rightarrow> int \<Rightarrow> 'd Relation_State \<Rightarrow> (nat \<times> nat) \<times> 'd Relation_State" where
  "evict_if_idle idle_secs now s =
     (if idle_secs = 0 then ((0, 0), s)
      else if duration_since now (last_user_access s) div 1000000000 < int idle_secs then ((0, 0), s)
      else if graph_is_empty (global_cache s) then ((0, 0), s)
      else ((n_pairs (global_cache s), n_tags (global_cache s)),
            s\<lparr>global_cache := empty_graph, flags := (flags s)\<lparr>dirty := True, cold := True\<rparr>,
              last_user_access := now\<rparr>))"

text \<open>The next atomic operation of one thread; \<open>ok\<close> tells whether a load succeeds.\<close>

fun run_thread :: "('d \<Rightarrow> TagRelationGraph) \<Rightarrow> bool \<Rightarrow> TagRelationGraph thread \<Rightarrow> 'd Relation_State \<Rightarrow> 'd Relation_State" where
  "run_thread load ok Loading s =
     (let ts = threads s - {#Loading#} in
      if ok then s\<lparr>threads := add_mset (Storing (load (db s))) ts\<rparr>
      else s\<lparr>flags := (flags s)\<lparr>dirty := True\<rparr>, threads := add_mset Releasing ts\<rparr>)"
| "run_thread load ok (Storing g) s =
     s\<lparr>global_cache := g, flags := (flags s)\<lparr>cold := False\<rparr>,
       threads := add_mset Checking (threads s - {#Storing g#})\<rparr>"
| "run_thread load ok t s =
     s\<lparr>flags := fst (advance t (flags s)),
       threads := threads_of (snd (advance t (flags s))) + (threads s - {#t#})\<rparr>"

inductive relation_run :: "('d \<Rightarrow> TagRelationGraph) \<Rightarrow> 'd Relation_State \<Rightarrow> bool" for load where
  start: "relation_run load (relation_start now d)"
| db_write: "relation_run load s \<Longrightarrow> relation_run load (mark_global_relation_dirty (s\<lparr>db := d\<rparr>))"
| read: "relation_run load s \<Longrightarrow> relation_run load (snd (current_global_relation now s))"
| evict: "relation_run load s \<Longrightarrow> relation_run load (snd (evict_if_idle idle now s))"
| thread: "relation_run load s \<Longrightarrow> t \<in># threads s \<Longrightarrow> relation_run load (run_thread load ok t s)"

section \<open>The machine keeps the protocol\<close>

lemma run_thread_other:
  "t \<noteq> Loading \<Longrightarrow> \<forall>g. t \<noteq> Storing g \<Longrightarrow> run_thread load ok t s =
     s\<lparr>flags := fst (advance t (flags s)), threads := threads_of (snd (advance t (flags s))) + (threads s - {#t#})\<rparr>"
  by (cases t) auto

lemma protocol_thread:
  assumes p: "protocol (flags s) (threads s)" and t: "t \<in># threads s"
  shows "protocol (flags (run_thread load ok t s)) (threads (run_thread load ok t s))"
proof -
  have p': "protocol (flags s) (add_mset t (threads s - {#t#}))" using p t by simp
  consider "t = Loading" | g where "t = Storing g" | "t \<noteq> Loading" "\<forall>g. t \<noteq> Storing g" by blast
  then show ?thesis
  proof cases
    case 1
    have "protocol (flags s) (add_mset (Storing (load (db s))) (threads s - {#Loading#}))"
      "protocol ((flags s)\<lparr>dirty := True\<rparr>) (add_mset Releasing (threads s - {#Loading#}))"
      by (rule protocol.loaded protocol.failed, rule p' [unfolded 1])+
    then show ?thesis using 1 by (simp add: Let_def)
  next
    case 2
    then show ?thesis using protocol.stored [of "flags s"] p' by simp
  next
    case 3
    then show ?thesis using protocol.advance [OF p'] by (simp add: run_thread_other)
  qed
qed

lemma relation_run_protocol: "relation_run load s \<Longrightarrow> protocol (flags s) (threads s)"
proof (induction rule: relation_run.induct)
  case (start now d)
  show ?case by (simp add: relation_start_def protocol.start)
next
  case (thread s t ok)
  then show ?case by (intro protocol_thread)
qed (auto simp: mark_global_relation_dirty_def current_global_relation_def evict_if_idle_def Let_def
    intro: protocol.mark protocol.read protocol.evict)

lemmas relation_run_ok = relation_run_protocol [THEN protocol_invariant]

section \<open>Freshness\<close>

definition busy :: "TagRelationGraph thread multiset \<Rightarrow> bool" where
  "busy ts \<longleftrightarrow> Loading \<in># ts \<or> (\<exists>g. Storing g \<in># ts)"

definition marked :: "'d Relation_State \<Rightarrow> bool" where
  "marked s \<longleftrightarrow> dirty (flags s) \<or> Marking \<in># threads s"

definition fresh_ok :: "('d \<Rightarrow> TagRelationGraph) \<Rightarrow> 'd Relation_State \<Rightarrow> bool" where
  "fresh_ok load s \<longleftrightarrow>
     (cold (flags s) \<longrightarrow> global_cache s = empty_graph \<and> (dirty (flags s) \<or> busy (threads s))) \<and>
     (global_cache s = load (db s) \<or> cold (flags s) \<or> marked s \<or> busy (threads s)) \<and>
     (\<forall>g. Storing g \<in># threads s \<longrightarrow> g = load (db s) \<or> marked s)"

text \<open>Only the one worker loads and stores, so a thread that works is the only one.\<close>

lemma sole_worker:
  assumes "protocol_ok (flags s) (threads s)" and "t \<in># threads s" "works t" and "u \<in># threads s - {#t#}"
  shows "\<not> works u"
proof -
  have "workers (threads s) = Suc (workers (threads s - {#t#}))"
    using assms(2,3) workers_simps(2) [of t "threads s - {#t#}"] by simp
  then have "workers (threads s - {#t#}) = 0" using assms(1) by (cases "rebuilding (flags s)") (simp_all add: protocol_ok_def)
  then show ?thesis using assms(4) workers_zero by blast
qed

lemma fresh_thread:
  assumes ok: "protocol_ok (flags s) (threads s)" and t: "t \<in># threads s" and fresh: "fresh_ok load s"
  shows "fresh_ok load (run_thread load ok' t s)"
proof -
  obtain ts where ts: "threads s = add_mset t ts" using t by (blast dest: multi_member_split)
  have sole: "works t \<Longrightarrow> u \<in># ts \<Longrightarrow> \<not> works u" for u using sole_worker [OF ok t] ts by simp
  have alone: "works t \<Longrightarrow> \<not> busy ts" using sole by (force simp: busy_def)
  show ?thesis
  proof (cases t)
    case Checking
    then show ?thesis using fresh ts alone by (auto simp: fresh_ok_def marked_def busy_def)
  qed (use fresh ts alone in \<open>auto simp: fresh_ok_def marked_def busy_def\<close>)
qed

lemma relation_run_fresh: "relation_run load s \<Longrightarrow> fresh_ok load s"
proof (induction rule: relation_run.induct)
  case (start now d)
  show ?case by (simp add: relation_start_def fresh_ok_def marked_def)
next
  case (thread s t ok)
  then show ?case using relation_run_ok by (intro fresh_thread)
qed (auto simp: mark_global_relation_dirty_def current_global_relation_def evict_if_idle_def Let_def
    fresh_ok_def marked_def busy_def)

section \<open>Properties\<close>


text \<open>One thread after the other, each named with whether a load succeeds.\<close>

fun run_threads :: "('d \<Rightarrow> TagRelationGraph) \<Rightarrow> (TagRelationGraph thread \<times> bool) list \<Rightarrow> 'd Relation_State \<Rightarrow> 'd Relation_State" where
  "run_threads load [] s = s"
| "run_threads load ((t, ok) # ts) s = run_threads load ts (run_thread load ok t s)"

lemma cold_start_reads:
  "snd (current_global_relation now (relation_start now0 d)) =
     \<lparr>flags = \<lparr>dirty = True, rebuilding = False, cold = True\<rparr>, threads = {#Spawning#},
       global_cache = empty_graph, last_user_access = now, db = d\<rparr>"
  by (simp add: current_global_relation_def relation_start_def Let_def)

fun enabled :: "('d \<Rightarrow> TagRelationGraph) \<Rightarrow> (TagRelationGraph thread \<times> bool) list \<Rightarrow> 'd Relation_State \<Rightarrow> bool" where
  "enabled load [] s = True"
| "enabled load ((t, ok) # ts) s = (t \<in># threads s \<and> enabled load ts (run_thread load ok t s))"

lemma relation_run_threads:
  "relation_run load s \<Longrightarrow> enabled load ts s \<Longrightarrow> relation_run load (run_threads load ts s)"
  by (induction load ts s rule: run_threads.induct) (auto intro: relation_run.thread)

abbreviation one_rebuild :: "TagRelationGraph \<Rightarrow> (TagRelationGraph thread \<times> bool) list" where
  "one_rebuild g \<equiv> [(Spawning, True), (Checking, True), (Loading, True), (Storing g, True), (Checking, True),
     (Cooling, True), (Waking, True), (Releasing, True), (Rechecking, True)]"

lemma demo_relation_run:
  "relation_run load (run_threads load (one_rebuild (load d)) (snd (current_global_relation 5 (relation_start 0 d))))"
proof (rule relation_run_threads)
  show "relation_run load (snd (current_global_relation 5 (relation_start 0 d)))"
    by (intro relation_run.read relation_run.start)
  show "enabled load (one_rebuild (load d)) (snd (current_global_relation 5 (relation_start 0 d)))"
    unfolding cold_start_reads by (simp add: relation_start_def Let_def)
qed

lemma demo_rebuilt:
  "run_threads load (one_rebuild (load d)) (snd (current_global_relation now (relation_start now0 d))) =
     \<lparr>flags = \<lparr>dirty = False, rebuilding = False, cold = False\<rparr>, threads = {#},
       global_cache = load d, last_user_access = now, db = d\<rparr>"
  unfolding cold_start_reads by (simp add: Let_def)


text \<open>A failing load is retried at once: the worker gives up its flag, finds the mark it set itself
  and spawns the next worker, without the pause that follows a load that succeeded.\<close>

theorem failing_load_spins:
  "let s = snd (current_global_relation 5 (relation_start 0 d))
   in run_threads load [(Spawning, False), (Checking, False), (Loading, False), (Releasing, False), (Rechecking, False)] s = s"
  unfolding cold_start_reads Let_def by (simp add: relation_start_def Let_def)

end
