(* ===== verification/Idf.thy ===== *)
theory Idf
  imports Timed_Table Text_Ops
begin

text \<open>
  The document-frequency index of tags (\<open>utils/idf.rs\<close>): the smoothed and capped inverse document
  frequency, the index built from the database's counts, its lookups and its incremental update.

  \<open>to_lowercase\<close>, the full Unicode case mapping of the standard library, is the argument
  \<open>lowercase\<close>; on text without letters to lower it is documented to change nothing.
\<close>

section \<open>The index\<close>

record IdfIndex =
  df :: "(ustr, int) table"
  idf_n_posts :: int

definition empty_index :: IdfIndex where
  "empty_index = \<lparr>df = [], idf_n_posts = 0\<rparr>"

definition compute_idf :: "int \<Rightarrow> int \<Rightarrow> f32 \<Rightarrow> f32 \<Rightarrow> f32 \<Rightarrow> f32" where
  "compute_idf df_raw n_posts df_floor idf_max rsj =
     (let n = real_of_int (max 1 n_posts);
          dfv = real_of_int (max 0 df_raw);
          dfp = dfv + df_floor;
          rsj = max rsj (1 / 1000)
      in max 0 (min idf_max (ln (1 + max 0 ((n - dfp + rsj) / (dfp + rsj))))))"

definition from_df :: "(ustr \<Rightarrow> ustr) \<Rightarrow> (ustr, int) table \<Rightarrow> int \<Rightarrow> IdfIndex" where
  "from_df lowercase counts n =
     \<lparr>df = fold (\<lambda>(tag, c) m. tbl_insert (lowercase tag) c m) counts [], idf_n_posts = n\<rparr>"

definition index_is_empty :: "IdfIndex \<Rightarrow> bool" where
  "index_is_empty x \<longleftrightarrow> df x = [] \<and> idf_n_posts x = 0"

definition index_n_tags :: "IdfIndex \<Rightarrow> nat" where
  "index_n_tags x = length (df x)"

definition lookup_df :: "IdfIndex \<Rightarrow> ustr \<Rightarrow> int" where
  "lookup_df x tag =
     (let v = (if list_ex is_ascii_uppercase tag then tbl_get (df x) (to_ascii_lowercase tag)
               else tbl_get (df x) tag)
      in case v of None \<Rightarrow> 0 | Some c \<Rightarrow> c)"

definition df_for :: "IdfIndex \<Rightarrow> ustr \<Rightarrow> int" where
  "df_for x tag = lookup_df x tag"

definition idf_tempered_from_df :: "IdfIndex \<Rightarrow> int \<Rightarrow> f32 \<Rightarrow> f32 \<Rightarrow> f32 \<Rightarrow> f32 \<Rightarrow> f32 \<Rightarrow> f32" where
  "idf_tempered_from_df x df_raw df_floor idf_max rsj lam alpha =
     (let raw = compute_idf df_raw (idf_n_posts x) df_floor idf_max rsj;
          blended = 1 + clamp01 lam * (raw - 1)
      in powf blended (clamp01 alpha))"

definition idf_raw :: "IdfIndex \<Rightarrow> ustr \<Rightarrow> f32 \<Rightarrow> f32 \<Rightarrow> f32 \<Rightarrow> f32" where
  "idf_raw x tag df_floor idf_max rsj = compute_idf (lookup_df x tag) (idf_n_posts x) df_floor idf_max rsj"

definition idf_tempered :: "IdfIndex \<Rightarrow> ustr \<Rightarrow> f32 \<Rightarrow> f32 \<Rightarrow> f32 \<Rightarrow> f32 \<Rightarrow> f32 \<Rightarrow> f32" where
  "idf_tempered x tag df_floor idf_max rsj lam alpha =
     (let raw = idf_raw x tag df_floor idf_max rsj;
          blended = 1 + clamp01 lam * (raw - 1)
      in powf blended (clamp01 alpha))"

definition bump_tag :: "ustr \<times> int \<Rightarrow> (ustr, int) table \<Rightarrow> (ustr, int) table" where
  "bump_tag = (\<lambda>(tag, delta) m.
     if delta = 0 then m
     else let lc = (if list_ex is_ascii_uppercase tag then to_ascii_lowercase tag else tag);
              entry = (case tbl_get m lc of None \<Rightarrow> 0 | Some c \<Rightarrow> c)
          in tbl_insert lc (max 0 (entry + delta)) m)"

definition bump :: "(ustr, int) table \<Rightarrow> int \<Rightarrow> IdfIndex \<Rightarrow> IdfIndex" where
  "bump delta n_delta x =
     (if delta = [] \<and> n_delta = 0 then x
      else x\<lparr>idf_n_posts := max 0 (idf_n_posts x + n_delta), df := fold bump_tag delta (df x)\<rparr>)"

section \<open>Lookups after an update\<close>

definition plain :: "ustr \<Rightarrow> bool" where
  "plain tag \<longleftrightarrow> \<not> list_ex is_ascii_uppercase tag"

lemma not_uppercase_lower: "\<not> is_ascii_uppercase (lower_char c)"
  by (auto simp: lower_char_def is_ascii_uppercase_def)

lemma plain_lowercase [simp]: "plain (to_ascii_lowercase tag)"
  by (auto simp: plain_def to_ascii_lowercase_def list_ex_iff not_uppercase_lower)

lemma lowercase_of_plain: "plain tag \<Longrightarrow> to_ascii_lowercase tag = tag"
  by (induction tag) (auto simp: plain_def to_ascii_lowercase_def lower_char_def)

lemma lookup_lowercase: "lookup_df x tag = (case tbl_get (df x) (to_ascii_lowercase tag) of None \<Rightarrow> 0 | Some c \<Rightarrow> c)"
  using lowercase_of_plain [of tag] by (auto simp: lookup_df_def Let_def plain_def)

lemma lookup_plain: "plain tag \<Longrightarrow> lookup_df x tag = (case tbl_get (df x) tag of None \<Rightarrow> 0 | Some c \<Rightarrow> c)"
  by (simp add: lookup_lowercase lowercase_of_plain)

definition delta_of :: "(ustr, int) table \<Rightarrow> ustr \<Rightarrow> int" where
  "delta_of delta tag = (\<Sum>(t, d) \<leftarrow> delta. if to_ascii_lowercase t = to_ascii_lowercase tag then d else 0)"

lemma delta_of_simps [simp]:
  "delta_of [] tag = 0"
  "delta_of ((t, d) # delta) tag =
     (if to_ascii_lowercase t = to_ascii_lowercase tag then d else 0) + delta_of delta tag"
  by (simp_all add: delta_of_def)

abbreviation entry_of :: "(ustr, int) table \<Rightarrow> ustr \<Rightarrow> int" where
  "entry_of m k \<equiv> (case tbl_get m k of None \<Rightarrow> 0 | Some c \<Rightarrow> c)"

lemma bump_tag_entry:
  "entry_of (bump_tag (t, d) m) k =
     (if k = to_ascii_lowercase t \<and> d \<noteq> 0 then max 0 (entry_of m k + d) else entry_of m k)"
proof -
  have "(if list_ex is_ascii_uppercase t then to_ascii_lowercase t else t) = to_ascii_lowercase t"
    using lowercase_of_plain [of t] by (simp add: plain_def)
  then show ?thesis by (auto simp: bump_tag_def Let_def)
qed

text \<open>An update never loses an increment, and loses none at all where no count falls below zero.\<close>

lemma bump_entry_ge: "entry_of m (to_ascii_lowercase k) + delta_of delta k \<le> entry_of (fold bump_tag delta m) (to_ascii_lowercase k)"
proof (induction delta arbitrary: m)
  case (Cons e delta)
  obtain t d where e: "e = (t, d)" by (cases e)
  have "entry_of m (to_ascii_lowercase k) + (if to_ascii_lowercase t = to_ascii_lowercase k then d else 0) \<le>
      entry_of (bump_tag e m) (to_ascii_lowercase k)"
    unfolding e bump_tag_entry by auto
  with Cons [of "bump_tag e m"] show ?case by (simp add: e)
qed simp

lemma bump_entry_eq:
  "distinct (map (to_ascii_lowercase \<circ> fst) delta) \<Longrightarrow>
     0 \<le> entry_of m (to_ascii_lowercase k) + delta_of delta k \<Longrightarrow>
     entry_of (fold bump_tag delta m) (to_ascii_lowercase k) = entry_of m (to_ascii_lowercase k) + delta_of delta k"
proof (induction delta arbitrary: m)
  case (Cons e delta)
  obtain t d where e: "e = (t, d)" by (cases e)
  have tail: "distinct (map (to_ascii_lowercase \<circ> fst) delta)" using Cons.prems(1) by (simp add: comp_def)
  show ?case
  proof (cases "to_ascii_lowercase t = to_ascii_lowercase k")
    case True
    have "to_ascii_lowercase k \<notin> (to_ascii_lowercase \<circ> fst) ` set delta"
      using Cons.prems(1) e True by simp
    then have "delta_of delta k = 0" by (induction delta) auto
    moreover have "entry_of (bump_tag (t, d) m) (to_ascii_lowercase k) = entry_of m (to_ascii_lowercase k) + d"
      using Cons.prems(2) \<open>delta_of delta k = 0\<close> True e unfolding bump_tag_entry by auto
    ultimately show ?thesis using Cons.IH [OF tail, of "bump_tag e m"] Cons.prems(2) True e by auto
  next
    case False
    then show ?thesis using Cons.IH [OF tail, of "bump_tag e m"] Cons.prems(2) e bump_tag_entry [of t d m "to_ascii_lowercase k"]
      by auto
  qed
qed simp

lemma lookup_bump_ge: "lookup_df x tag + delta_of delta tag \<le> lookup_df (bump delta n x) tag"
  using bump_entry_ge [of "df x" tag delta] by (auto simp: bump_def lookup_lowercase)

section \<open>Building the index\<close>

lemma from_df_get:
  assumes "distinct (map fst counts)" and "\<forall>k \<in> fst ` set counts. lowercase k = k"
  shows "tbl_get (df (from_df lowercase counts n)) = tbl_get counts"
proof -
  have "tbl_get (fold (\<lambda>(tag, c) m. tbl_insert (lowercase tag) c m) counts acc) k =
      (case map_of counts k of None \<Rightarrow> tbl_get acc k | Some c \<Rightarrow> Some c)" for acc k
    using assms
  proof (induction counts arbitrary: acc)
    case (Cons e counts)
    obtain t c where e: "e = (t, c)" by (cases e)
    have "map_of counts t = None" using Cons.prems(1) e by (simp add: map_of_eq_None_iff)
    then show ?case using Cons.IH [of "tbl_insert t c acc"] Cons.prems e by (auto split: option.split)
  qed simp
  then show ?thesis by (auto simp: from_df_def tbl_get_def fun_eq_iff split: option.split)
qed

section \<open>Properties\<close>

lemma ratio_antitone:
  fixes r :: real
  assumes "0 < r" "0 \<le> d1" "d1 \<le> d2" "0 < n"
  shows "(n - d2 + r) / (d2 + r) \<le> (n - d1 + r) / (d1 + r)"
proof -
  have eq: "(n - d + r) / (d + r) = (n + 2 * r) / (d + r) - 1" if "0 \<le> d" for d
    using assms(1) that by (simp add: field_simps)
  have "(n + 2 * r) / (d2 + r) \<le> (n + 2 * r) / (d1 + r)"
    using assms by (intro divide_left_mono) auto
  then show ?thesis using assms eq [of d1] eq [of d2] by simp
qed

lemma compute_idf_antitone:
  assumes "0 \<le> fl" "d1 \<le> d2"
  shows "compute_idf d2 n fl cap rsj \<le> compute_idf d1 n fl cap rsj"
proof -
  let ?n = "real_of_int (max 1 n)" and ?r = "max rsj (1 / 1000)"
  let ?q = "\<lambda>d. max 0 ((?n - (real_of_int (max 0 d) + fl) + ?r) / (real_of_int (max 0 d) + fl + ?r))"
  have "?q d2 \<le> ?q d1" using assms by (intro max.mono ratio_antitone) auto
  moreover have "0 < 1 + ?q d2" "0 < 1 + ?q d1" by (simp_all add: add_pos_nonneg)
  ultimately have "ln (1 + ?q d2) \<le> ln (1 + ?q d1)" by (simp only: ln_le_cancel_iff add_le_cancel_left)
  then show ?thesis unfolding compute_idf_def Let_def by (rule max.mono [OF order.refl min.mono [OF order.refl]])
qed

lemma compute_idf_range: "0 \<le> compute_idf d n fl cap rsj" "compute_idf d n fl cap rsj \<le> max 0 cap"
  unfolding compute_idf_def Let_def by (rule max.cobounded1, rule max.mono [OF order.refl min.cobounded1])

lemma tempered_mono:
  assumes "0 \<le> r1" "r1 \<le> r2"
  shows "powf (1 + clamp01 lam * (r1 - 1)) (clamp01 alpha) \<le> powf (1 + clamp01 lam * (r2 - 1)) (clamp01 alpha)"
    and "powf (1 + clamp01 lam * (r1 - 1)) (clamp01 alpha) \<le> max 1 r1"
proof -
  let ?l = "clamp01 lam"
  have base: "1 + ?l * (r - 1) = (1 - ?l) + ?l * r" for r by (simp add: algebra_simps)
  have nonneg: "0 \<le> 1 + ?l * (r1 - 1)" unfolding base using clamp01_range [of lam] assms by simp
  have "1 + ?l * (r1 - 1) \<le> 1 + ?l * (r2 - 1)" using clamp01_range [of lam] assms by (simp add: mult_left_mono)
  with nonneg show "powf (1 + ?l * (r1 - 1)) (clamp01 alpha) \<le> powf (1 + ?l * (r2 - 1)) (clamp01 alpha)"
    by (intro powf_mono clamp01_range)
  have "?l * (r1 - 1) \<le> max 0 (r1 - 1)"
  proof (cases "r1 \<le> 1")
    case True
    then show ?thesis using clamp01_range(1) [of lam] by (simp add: mult_nonneg_nonpos)
  next
    case False
    then show ?thesis using clamp01_range(2) [of lam] mult_right_mono [of ?l 1 "r1 - 1"] by simp
  qed
  then have "max 1 (1 + ?l * (r1 - 1)) \<le> max 1 r1" by auto
  with powf_le_max [OF clamp01_range nonneg] show "powf (1 + ?l * (r1 - 1)) (clamp01 alpha) \<le> max 1 r1"
    by (metis order.trans)
qed

text \<open>Whatever the tuning, the weight of a tag is not negative, at most one or the cap, and a
  tag that more posts carry never weighs more than a rarer one.\<close>

theorem idf_orders_rarity:
  assumes "0 \<le> fl" and "lookup_df x common \<ge> lookup_df x rare"
  shows "idf_tempered x common fl cap rsj lam alpha \<le> idf_tempered x rare fl cap rsj lam alpha \<and>
    0 \<le> idf_tempered x common fl cap rsj lam alpha \<and>
    idf_tempered x rare fl cap rsj lam alpha \<le> max 1 cap"
proof -
  have "idf_raw x common fl cap rsj \<le> idf_raw x rare fl cap rsj"
    using compute_idf_antitone [OF assms] by (simp add: idf_raw_def)
  moreover have r: "0 \<le> idf_raw x t fl cap rsj" "idf_raw x t fl cap rsj \<le> max 0 cap" for t
    using compute_idf_range by (simp_all add: idf_raw_def)
  ultimately have "idf_tempered x common fl cap rsj lam alpha \<le> idf_tempered x rare fl cap rsj lam alpha"
    unfolding idf_tempered_def Let_def by (intro tempered_mono(1))
  moreover have "idf_tempered x rare fl cap rsj lam alpha \<le> max 1 (idf_raw x rare fl cap rsj)"
    unfolding idf_tempered_def Let_def by (rule tempered_mono(2) [OF r(1) order.refl])
  ultimately show ?thesis using r(2) [of rare] powf_nonneg by (fastforce simp: idf_tempered_def Let_def)
qed

theorem idf_orders_rarity_witness:
  "idf_tempered \<lparr>df = [(lit ''solo'', 90), (lit ''otter'', 3)], idf_n_posts = 100\<rparr> (lit ''SOLO'') (2 / 5) 6 (7 / 20) 1 (1 / 2)
   \<le> idf_tempered \<lparr>df = [(lit ''solo'', 90), (lit ''otter'', 3)], idf_n_posts = 100\<rparr> (lit ''otter'') (2 / 5) 6 (7 / 20) 1 (1 / 2)"
  using idf_orders_rarity [of "2 / 5" "\<lparr>df = [(lit ''solo'', 90), (lit ''otter'', 3)], idf_n_posts = 100\<rparr>"
      "lit ''otter''" "lit ''SOLO''" 6 "7 / 20" 1 "1 / 2"]
  by (simp add: lookup_df_def tbl_get_def is_ascii_uppercase_def to_ascii_lowercase_def lower_char_def Let_def)

text \<open>Updating the index by what a batch of posts added gives the lookups of an index built anew
  from the counts after the batch.\<close>

theorem bump_equals_rebuild:
  assumes tables: "distinct (map fst counts)" "distinct (map fst counts')"
    and plain_keys: "\<forall>k \<in> fst ` set counts \<union> fst ` set counts'. plain k \<and> lowercase k = k"
    and added: "\<And>k. plain k \<Longrightarrow> entry_of counts' k = entry_of counts k + delta_of delta k"
    and delta: "distinct (map (to_ascii_lowercase \<circ> fst) delta)"
    and nonneg: "\<And>k. 0 \<le> entry_of counts' k" "0 \<le> n + k"
  shows "lookup_df (bump delta k (from_df lowercase counts n)) tag = lookup_df (from_df lowercase counts' (n + k)) tag \<and>
    idf_n_posts (bump delta k (from_df lowercase counts n)) = idf_n_posts (from_df lowercase counts' (n + k))"
proof -
  let ?t = "to_ascii_lowercase tag" and ?x = "from_df lowercase counts n"
  have get: "tbl_get (df ?x) = tbl_get counts" "tbl_get (df (from_df lowercase counts' (n + k))) = tbl_get counts'"
    using tables plain_keys by (auto intro!: from_df_get)
  have d: "delta_of delta ?t = delta_of delta tag" by (simp add: delta_of_def)
  have sum: "entry_of counts' ?t = entry_of counts ?t + delta_of delta tag"
    using added [of ?t] d by simp
  then have "entry_of (fold bump_tag delta (df ?x)) ?t = entry_of counts' ?t"
    using bump_entry_eq [OF delta, of "df ?x" tag] nonneg(1) [of ?t] get(1) by simp
  moreover have "delta = [] \<Longrightarrow> entry_of counts' ?t = entry_of counts ?t" using sum by simp
  ultimately show ?thesis using nonneg(2) get
    by (auto simp: bump_def lookup_lowercase from_df_def)
qed

theorem bump_equals_rebuild_witness:
  "lookup_df (bump [(lit ''otter'', 2)] 1 (from_df id [(lit ''solo'', 90)] 100)) (lit ''Otter'') =
   lookup_df (from_df id [(lit ''solo'', 90), (lit ''otter'', 2)] 101) (lit ''Otter'')"
proof -
  have l: "to_ascii_lowercase (lit ''otter'') = lit ''otter''" "plain (lit ''otter'')" "plain (lit ''solo'')"
    by (simp_all add: to_ascii_lowercase_def lower_char_def plain_def is_ascii_uppercase_def)
  have "entry_of [(lit ''solo'', 90), (lit ''otter'', 2)] k = entry_of [(lit ''solo'', 90)] k + delta_of [(lit ''otter'', 2)] k"
    if "plain k" for k
    using lowercase_of_plain [OF that] l by (auto simp: tbl_get_def)
  moreover have "0 \<le> entry_of [(lit ''solo'', 90 :: int), (lit ''otter'', 2)] k" for k by (simp add: tbl_get_def)
  ultimately show ?thesis
    using bump_equals_rebuild [of "[(lit ''solo'', 90)]" "[(lit ''solo'', 90), (lit ''otter'', 2)]" id
        "[(lit ''otter'', 2)]" 100 1 "lit ''Otter''"] l by (simp del: lit_simps) (simp add: id_def)
qed

end
