(* ===== verification/Idf_Cache.thy ===== *)
theory Idf_Cache
  imports Rebuild Idf
begin

text \<open>
  The cached index, its incremental updates and its rebuild worker (\<open>utils/idf.rs\<close>).  A batch
  commits to the database first and updates the cached index afterwards; in between it is
  pending.  The worker notes the update generation, reads the database without a lock and stores
  what it read only if no update came in the meantime.

  The database is \<open>idb\<close>, read by \<open>from_db\<close> (which may fail); a commit of a batch is known by what
  it does to the counts that are read.
\<close>

section \<open>State and operations\<close>

datatype Snapshot = Noted int | Held int IdfIndex

type_synonym batch = "(ustr, int) table \<times> int"

record 'd Idf_State =
  idf_flags :: rebuild_flags
  idf_threads :: "Snapshot thread multiset"
  idf_cache :: IdfIndex
  bump_generation :: int
  bump_drift_count :: int
  idf_user_access :: int
  pending_bumps :: "batch multiset"
  idb :: 'd

definition idf_start :: "int \<Rightarrow> 'd \<Rightarrow> 'd Idf_State" where
  "idf_start now d = \<lparr>idf_flags = \<lparr>dirty = True, rebuilding = False, cold = True\<rparr>, idf_threads = {#},
     idf_cache = empty_index, bump_generation = 0, bump_drift_count = 0, idf_user_access = now,
     pending_bumps = {#}, idb = d\<rparr>"

definition mark_idf_dirty :: "'d Idf_State \<Rightarrow> 'd Idf_State" where
  "mark_idf_dirty s = s\<lparr>idf_threads := add_mset Marking (idf_threads s)\<rparr>"

text \<open>\<open>bump_idf\<close> holds the update lock throughout; it is one step.\<close>

definition bump_idf :: "int \<Rightarrow> (ustr, int) table \<Rightarrow> int \<Rightarrow> 'd Idf_State \<Rightarrow> 'd Idf_State" where
  "bump_idf drift_threshold delta n_delta s =
     (if delta = [] \<and> n_delta = 0 then s
      else let s1 = s\<lparr>idf_cache := bump delta n_delta (idf_cache s), bump_generation := bump_generation s + 1\<rparr>;
               n = bump_drift_count s1 + 1
           in if n \<ge> max 1 drift_threshold
              then mark_idf_dirty (s1\<lparr>bump_drift_count := 0\<rparr>)
              else s1\<lparr>bump_drift_count := n\<rparr>)"

definition current_idf :: "int \<Rightarrow> 'd Idf_State \<Rightarrow> IdfIndex \<times> 'd Idf_State" where
  "current_idf now s =
     (let s1 = s\<lparr>idf_user_access := now\<rparr>;
          s2 = (if dirty (idf_flags s1) then s1\<lparr>idf_threads := add_mset Spawning (idf_threads s1)\<rparr> else s1)
      in (idf_cache s2, s2))"

definition evict_idf_if_idle :: "nat \<Rightarrow> int \<Rightarrow> 'd Idf_State \<Rightarrow> (nat \<times> int) \<times> 'd Idf_State" where
  "evict_idf_if_idle idle_secs now s =
     (if idle_secs = 0 then ((0, 0), s)
      else if duration_since now (idf_user_access s) div 1000000000 < int idle_secs then ((0, 0), s)
      else if index_is_empty (idf_cache s) then ((0, 0), s)
      else ((index_n_tags (idf_cache s), idf_n_posts (idf_cache s)),
            s\<lparr>idf_cache := empty_index, bump_drift_count := 0,
              idf_flags := (idf_flags s)\<lparr>dirty := True, cold := True\<rparr>, idf_user_access := now\<rparr>))"

fun idf_thread :: "('d \<Rightarrow> IdfIndex) \<Rightarrow> bool \<Rightarrow> Snapshot thread \<Rightarrow> 'd Idf_State \<Rightarrow> 'd Idf_State" where
  "idf_thread from_db ok Loading s =
     s\<lparr>idf_threads := add_mset (Storing (Noted (bump_generation s))) (idf_threads s - {#Loading#})\<rparr>"
| "idf_thread from_db ok (Storing (Noted g)) s =
     (let ts = idf_threads s - {#Storing (Noted g)#} in
      if ok then s\<lparr>idf_threads := add_mset (Storing (Held g (from_db (idb s)))) ts\<rparr>
      else s\<lparr>idf_flags := (idf_flags s)\<lparr>dirty := True\<rparr>, idf_threads := add_mset Releasing ts\<rparr>)"
| "idf_thread from_db ok (Storing (Held g x)) s =
     (let ts = idf_threads s - {#Storing (Held g x)#} in
      if bump_generation s = g
      then s\<lparr>idf_cache := x, bump_drift_count := 0, idf_flags := (idf_flags s)\<lparr>cold := False\<rparr>,
             idf_threads := add_mset Checking ts\<rparr>
      else s\<lparr>idf_flags := (idf_flags s)\<lparr>dirty := True\<rparr>, idf_threads := add_mset Cooling ts\<rparr>)"
| "idf_thread from_db ok t s =
     s\<lparr>idf_flags := fst (advance t (idf_flags s)),
       idf_threads := threads_of (snd (advance t (idf_flags s))) + (idf_threads s - {#t#})\<rparr>"

text \<open>A batch only adds posts; any other change of the database is followed by a mark.\<close>

definition adds :: "('d \<Rightarrow> IdfIndex) \<Rightarrow> 'd \<Rightarrow> batch \<Rightarrow> 'd \<Rightarrow> bool" where
  "adds from_db d b d' \<longleftrightarrow> (\<forall>t. 0 \<le> delta_of (fst b) t \<and>
     lookup_df (from_db d') t = lookup_df (from_db d) t + delta_of (fst b) t)"

inductive idf_run :: "('d \<Rightarrow> IdfIndex) \<Rightarrow> int \<Rightarrow> 'd Idf_State \<Rightarrow> bool" for from_db drift where
  start: "idf_run from_db drift (idf_start now d)"
| commit: "idf_run from_db drift s \<Longrightarrow> adds from_db (idb s) b d \<Longrightarrow>
    idf_run from_db drift (s\<lparr>idb := d, pending_bumps := add_mset b (pending_bumps s)\<rparr>)"
| bump: "idf_run from_db drift s \<Longrightarrow> b \<in># pending_bumps s \<Longrightarrow>
    idf_run from_db drift (bump_idf drift (fst b) (snd b) (s\<lparr>pending_bumps := pending_bumps s - {#b#}\<rparr>))"
| change: "idf_run from_db drift s \<Longrightarrow> idf_run from_db drift (mark_idf_dirty (s\<lparr>idb := d\<rparr>))"
| read: "idf_run from_db drift s \<Longrightarrow> idf_run from_db drift (snd (current_idf now s))"
| evict: "idf_run from_db drift s \<Longrightarrow> idf_run from_db drift (snd (evict_idf_if_idle idle now s))"
| thread: "idf_run from_db drift s \<Longrightarrow> t \<in># idf_threads s \<Longrightarrow> idf_run from_db drift (idf_thread from_db ok t s)"

section \<open>The machine keeps the protocol\<close>

lemma idf_thread_other:
  "t \<noteq> Loading \<Longrightarrow> \<forall>x. t \<noteq> Storing x \<Longrightarrow> idf_thread from_db ok t s =
     s\<lparr>idf_flags := fst (advance t (idf_flags s)),
       idf_threads := threads_of (snd (advance t (idf_flags s))) + (idf_threads s - {#t#})\<rparr>"
  by (cases t) auto

lemma protocol_idf_thread:
  assumes p: "protocol (idf_flags s) (idf_threads s)" and t: "t \<in># idf_threads s"
  shows "protocol (idf_flags (idf_thread from_db ok t s)) (idf_threads (idf_thread from_db ok t s))"
proof -
  let ?ts = "idf_threads s - {#t#}" and ?f = "idf_flags s"
  have p': "protocol ?f (add_mset t ?ts)" using p t by simp
  consider "t = Loading" | g where "t = Storing (Noted g)" | g x where "t = Storing (Held g x)"
    | "t \<noteq> Loading" "\<forall>x. t \<noteq> Storing x" by (metis Snapshot.exhaust)
  then show ?thesis
  proof cases
    case 1
    then show ?thesis using protocol.loaded [OF p' [unfolded 1]] by simp
  next
    case (2 g)
    then have "protocol ?f (add_mset (Storing (Noted g)) ?ts)" using p' by simp
    then have "protocol ?f (add_mset (Storing (Held g (from_db (idb s)))) ?ts)"
      "protocol (?f\<lparr>dirty := True\<rparr>) (add_mset Releasing ?ts)"
      by (rule protocol.proceed, rule protocol.gave_up)
    then show ?thesis using 2 by (simp add: Let_def)
  next
    case (3 g x)
    then have "protocol ?f (add_mset (Storing (Held g x)) ?ts)" using p' by simp
    then have "protocol (?f\<lparr>cold := False\<rparr>) (add_mset Checking ?ts)"
      "protocol (?f\<lparr>dirty := True\<rparr>) (add_mset Cooling ?ts)"
      by (rule protocol.stored, rule protocol.refused)
    then show ?thesis using 3 by (simp add: Let_def)
  next
    case 4
    then show ?thesis using protocol.advance [OF p'] by (simp add: idf_thread_other)
  qed
qed

lemma idf_run_protocol: "idf_run from_db drift s \<Longrightarrow> protocol (idf_flags s) (idf_threads s)"
proof (induction rule: idf_run.induct)
  case (start now d)
  show ?case by (simp add: idf_start_def protocol.start)
next
  case (thread s t ok)
  then show ?case by (intro protocol_idf_thread)
qed (auto simp: mark_idf_dirty_def bump_idf_def current_idf_def evict_idf_if_idle_def Let_def
    intro: protocol.mark protocol.read protocol.evict)

lemmas idf_run_ok = idf_run_protocol [THEN protocol_invariant]

section \<open>What the cache covers\<close>

definition pending_df :: "'d Idf_State \<Rightarrow> ustr \<Rightarrow> int" where
  "pending_df s t = (\<Sum>b \<in># pending_bumps s. delta_of (fst b) t)"

definition covers :: "('d \<Rightarrow> IdfIndex) \<Rightarrow> IdfIndex \<Rightarrow> 'd Idf_State \<Rightarrow> bool" where
  "covers from_db x s \<longleftrightarrow> (\<forall>t. lookup_df (from_db (idb s)) t \<le> lookup_df x t + pending_df s t)"

definition idf_marked :: "rebuild_flags \<Rightarrow> Snapshot thread multiset \<Rightarrow> bool" where
  "idf_marked f ts \<longleftrightarrow> dirty f \<or> Marking \<in># ts"

definition idf_busy :: "Snapshot thread multiset \<Rightarrow> bool" where
  "idf_busy ts \<longleftrightarrow> Loading \<in># ts \<or> (\<exists>x. Storing x \<in># ts)"

text \<open>The flags and threads, with the generation \<open>g\<close>, what counts as covering (\<open>C\<close>) and whether
  the cache covers (\<open>c\<close>).\<close>

definition cover_inv :: "rebuild_flags \<Rightarrow> Snapshot thread multiset \<Rightarrow> int \<Rightarrow> (IdfIndex \<Rightarrow> bool) \<Rightarrow> bool \<Rightarrow> bool" where
  "cover_inv f ts g C c \<longleftrightarrow>
     (cold f \<longrightarrow> dirty f \<or> idf_busy ts) \<and> (c \<or> cold f \<or> idf_marked f ts \<or> idf_busy ts) \<and>
     (\<forall>h. Storing (Noted h) \<in># ts \<longrightarrow> h \<le> g) \<and>
     (\<forall>h x. Storing (Held h x) \<in># ts \<longrightarrow> h \<le> g \<and> (h = g \<longrightarrow> C x \<or> idf_marked f ts))"

lemma cover_inv_mono:
  "cover_inv f ts g C c \<Longrightarrow> (\<And>x. C x \<Longrightarrow> C' x) \<Longrightarrow> (c \<Longrightarrow> c') \<Longrightarrow> cover_inv f ts g C' c'"
  unfolding cover_inv_def by blast

lemma cover_inv_next: "cover_inv f ts g C c \<Longrightarrow> (c \<Longrightarrow> c') \<Longrightarrow> cover_inv f ts (g + 1) C' c'"
  unfolding cover_inv_def by force

lemma cover_inv_mark: "cover_inv f ts g C c \<Longrightarrow> cover_inv f (add_mset Marking ts) g C' c'"
  unfolding cover_inv_def by (auto simp: idf_busy_def idf_marked_def)

lemma cover_inv_spawn: "cover_inv f ts g C c \<Longrightarrow> cover_inv f (add_mset Spawning ts) g C c"
  unfolding cover_inv_def by (auto simp: idf_busy_def idf_marked_def)

lemma cover_inv_evict: "cover_inv f ts g C c \<Longrightarrow> cover_inv (f\<lparr>dirty := True, cold := True\<rparr>) ts g C c'"
  unfolding cover_inv_def by (auto simp: idf_busy_def idf_marked_def)

definition cover_ok :: "('d \<Rightarrow> IdfIndex) \<Rightarrow> 'd Idf_State \<Rightarrow> bool" where
  "cover_ok from_db s \<longleftrightarrow>
     (\<forall>b \<in># pending_bumps s. \<forall>t. 0 \<le> delta_of (fst b) t) \<and>
     cover_inv (idf_flags s) (idf_threads s) (bump_generation s) (\<lambda>x. covers from_db x s)
       (covers from_db (idf_cache s) s)"

text \<open>Only the pending updates, the database and the index itself matter to what is covered.\<close>

lemma covers_cong:
  "idb s' = idb s \<Longrightarrow> pending_bumps s' = pending_bumps s \<Longrightarrow> covers from_db x s' = covers from_db x s"
  by (simp add: covers_def pending_df_def)

lemma covers_commit:
  assumes "adds from_db (idb s) b d" "covers from_db x s"
  shows "covers from_db x (s\<lparr>idb := d, pending_bumps := add_mset b (pending_bumps s)\<rparr>)"
  unfolding covers_def
proof
  fix t
  have "lookup_df (from_db (idb s)) t \<le> lookup_df x t + pending_df s t" using assms(2) by (simp add: covers_def)
  moreover have "lookup_df (from_db d) t = lookup_df (from_db (idb s)) t + delta_of (fst b) t"
    using assms(1) by (simp add: adds_def)
  ultimately show "lookup_df (from_db (idb (s\<lparr>idb := d, pending_bumps := add_mset b (pending_bumps s)\<rparr>))) t
      \<le> lookup_df x t + pending_df (s\<lparr>idb := d, pending_bumps := add_mset b (pending_bumps s)\<rparr>) t"
    by (simp add: pending_df_def)
qed

lemma pending_split: "b \<in># pending_bumps s \<Longrightarrow>
    pending_df s t = delta_of (fst b) t + pending_df (s\<lparr>pending_bumps := pending_bumps s - {#b#}\<rparr>) t"
  by (auto simp: pending_df_def dest!: multi_member_split)

lemma covers_bump:
  assumes b: "b \<in># pending_bumps s" and c: "covers from_db x s"
  shows "covers from_db (bump (fst b) n x) (s\<lparr>pending_bumps := pending_bumps s - {#b#}\<rparr>)"
  unfolding covers_def
proof
  fix t
  have "lookup_df (from_db (idb s)) t \<le> lookup_df x t + pending_df s t" using c by (simp add: covers_def)
  with pending_split [OF b, of t] lookup_bump_ge [of x t "fst b" n]
  show "lookup_df (from_db (idb (s\<lparr>pending_bumps := pending_bumps s - {#b#}\<rparr>))) t
      \<le> lookup_df (bump (fst b) n x) t + pending_df (s\<lparr>pending_bumps := pending_bumps s - {#b#}\<rparr>) t"
    by simp
qed

lemma sum_mset_nonneg': "\<forall>b \<in># M. 0 \<le> f b \<Longrightarrow> (0 :: int) \<le> (\<Sum>b \<in># M. f b)"
  by (induction M) auto

lemma covers_read:
  assumes "\<forall>b \<in># pending_bumps s. \<forall>t. 0 \<le> delta_of (fst b) t"
  shows "covers from_db (from_db (idb s)) s"
proof -
  have "0 \<le> pending_df s t" for t unfolding pending_df_def using assms by (intro sum_mset_nonneg') blast
  then show ?thesis by (simp add: covers_def)
qed

text \<open>An empty batch changes nothing.\<close>

lemma bump_nothing: "bump [] 0 x = x"
  by (simp add: bump_def)

lemma cover_ok_bump:
  assumes ok: "cover_ok from_db s" and b: "b \<in># pending_bumps s"
  shows "cover_ok from_db (bump_idf drift (fst b) (snd b) (s\<lparr>pending_bumps := pending_bumps s - {#b#}\<rparr>))"
proof -
  let ?s = "s\<lparr>pending_bumps := pending_bumps s - {#b#}\<rparr>" and ?x = "bump (fst b) (snd b) (idf_cache s)"
  have pend: "\<forall>b' \<in># pending_bumps s - {#b#}. \<forall>t. 0 \<le> delta_of (fst b') t"
    using ok by (auto simp: cover_ok_def dest: in_diffD)
  have inv: "cover_inv (idf_flags s) (idf_threads s) (bump_generation s) (\<lambda>x. covers from_db x s) (covers from_db (idf_cache s) s)"
    using ok by (simp add: cover_ok_def)
  note c = covers_bump [OF b, of from_db _ "snd b"]
  show ?thesis
  proof (cases "fst b = [] \<and> snd b = 0")
    case True
    then have h: "covers from_db x s \<Longrightarrow> covers from_db x ?s" for x using c [of x] by (simp add: bump_nothing)
    have "cover_inv (idf_flags s) (idf_threads s) (bump_generation s) (\<lambda>x. covers from_db x ?s) (covers from_db (idf_cache s) ?s)"
      by (rule cover_inv_mono [OF inv h h])
    then show ?thesis using True pend by (simp add: bump_idf_def cover_ok_def)
  next
    case False
    let ?t = "bump_idf drift (fst b) (snd b) ?s"
    have eq: "covers from_db x ?t = covers from_db x ?s" for x
      by (rule covers_cong) (simp_all add: bump_idf_def Let_def mark_idf_dirty_def)
    have "cover_inv (idf_flags s) (idf_threads s) (bump_generation s + 1) (\<lambda>x. covers from_db x ?s) (covers from_db ?x ?s)"
      by (rule cover_inv_next [OF inv c])
    moreover from this have "cover_inv (idf_flags s) (add_mset Marking (idf_threads s)) (bump_generation s + 1)
        (\<lambda>x. covers from_db x ?s) (covers from_db ?x ?s)" by (rule cover_inv_mark)
    ultimately show ?thesis using False pend unfolding cover_ok_def eq
      by (cases "fst b = []") (simp_all add: bump_idf_def Let_def mark_idf_dirty_def)
  qed
qed

text \<open>One step of a thread.\<close>

lemma cover_ok_thread:
  assumes p: "protocol_ok (idf_flags s) (idf_threads s)" and t: "t \<in># idf_threads s" and ok: "cover_ok from_db s"
  shows "cover_ok from_db (idf_thread from_db ok' t s)"
proof -
  obtain ts where ts: "idf_threads s = add_mset t ts" using t by (blast dest: multi_member_split)
  have alone: "works t \<Longrightarrow> \<not> idf_busy ts"
  proof
    assume "works t" "idf_busy ts"
    moreover have "workers ts = 0" using p ts \<open>works t\<close> by (cases "rebuilding (idf_flags s)") (simp_all add: protocol_ok_def)
    ultimately show False using workers_zero [of ts] by (force simp: idf_busy_def)
  qed
  have pend: "\<forall>b \<in># pending_bumps s. \<forall>t. 0 \<le> delta_of (fst b) t" using ok by (simp add: cover_ok_def)
  have inv: "cover_inv (idf_flags s) (add_mset t ts) (bump_generation s) (\<lambda>x. covers from_db x s) (covers from_db (idf_cache s) s)"
    using ok ts by (simp add: cover_ok_def)
  have eq: "covers from_db x (idf_thread from_db ok' t s) = covers from_db x s" for x
    by (rule covers_cong; cases "(from_db, ok', t, s)" rule: idf_thread.cases) (simp_all add: Let_def)
  have same: "pending_bumps (idf_thread from_db ok' t s) = pending_bumps s"
    by (cases "(from_db, ok', t, s)" rule: idf_thread.cases) (simp_all add: Let_def)
  have read: "covers from_db (from_db (idb s)) s" by (rule covers_read [OF pend])
  have "cover_inv (idf_flags (idf_thread from_db ok' t s)) (idf_threads (idf_thread from_db ok' t s))
      (bump_generation (idf_thread from_db ok' t s)) (\<lambda>x. covers from_db x s)
      (covers from_db (idf_cache (idf_thread from_db ok' t s)) s)"
    using inv alone read unfolding cover_inv_def idf_busy_def idf_marked_def
    by (cases "(from_db, ok', t, s)" rule: idf_thread.cases) (auto simp: ts Let_def)
  then show ?thesis using pend unfolding cover_ok_def eq same by blast
qed

lemma cover_ok_cong:
  assumes "cover_ok from_db s" and "pending_bumps s' = pending_bumps s" "idb s' = idb s"
    "bump_generation s' = bump_generation s" "idf_cache s' = idf_cache s"
    and "cover_inv (idf_flags s) (idf_threads s) (bump_generation s) (\<lambda>x. covers from_db x s) (covers from_db (idf_cache s) s) \<Longrightarrow>
      cover_inv (idf_flags s') (idf_threads s') (bump_generation s) (\<lambda>x. covers from_db x s) (covers from_db (idf_cache s) s)"
  shows "cover_ok from_db s'"
  using assms covers_cong [OF assms(3,2)] by (simp add: cover_ok_def)

lemma cover_ok_commit:
  assumes ok: "cover_ok from_db s" and b: "adds from_db (idb s) b d"
  shows "cover_ok from_db (s\<lparr>idb := d, pending_bumps := add_mset b (pending_bumps s)\<rparr>)"
proof -
  have "cover_inv (idf_flags s) (idf_threads s) (bump_generation s) (\<lambda>x. covers from_db x s) (covers from_db (idf_cache s) s)"
    using ok by (simp add: cover_ok_def)
  note inv = cover_inv_mono [OF this covers_commit [OF b] covers_commit [OF b]]
  then show ?thesis using ok b by (simp add: cover_ok_def adds_def)
qed

lemma cover_ok_evict: "cover_ok from_db s \<Longrightarrow> cover_ok from_db (snd (evict_idf_if_idle idle now s))"
proof -
  assume ok: "cover_ok from_db s"
  let ?s = "s\<lparr>idf_cache := empty_index, bump_drift_count := 0,
      idf_flags := (idf_flags s)\<lparr>dirty := True, cold := True\<rparr>, idf_user_access := now\<rparr>"
  have "covers from_db x ?s = covers from_db x s" for x by (rule covers_cong) simp_all
  then have "cover_ok from_db ?s" using ok by (simp add: cover_ok_def) (elim conjE cover_inv_evict)
  then show ?thesis using ok by (simp add: evict_idf_if_idle_def)
qed

lemma idf_run_covers: "idf_run from_db drift s \<Longrightarrow> cover_ok from_db s"
proof (induction rule: idf_run.induct)
  case (start now d)
  show ?case by (simp add: idf_start_def cover_ok_def cover_inv_def idf_marked_def)
next
  case (change s d)
  then show ?case by (simp add: cover_ok_def mark_idf_dirty_def) (elim conjE cover_inv_mark)
next
  case (read s now)
  show ?case
    by (rule cover_ok_cong [OF read.IH]) (auto simp: current_idf_def Let_def intro: cover_inv_spawn)
next
  case (thread s t ok)
  then show ?case using idf_run_ok by (intro cover_ok_thread)
qed (intro cover_ok_commit cover_ok_bump cover_ok_evict; assumption)+

section \<open>Properties\<close>


text \<open>A run of the demonstration: the worker notes the generation, a batch commits, the worker
  reads the database with it and stores; only then is the batch's update applied.\<close>

fun idf_threads_run :: "('d \<Rightarrow> IdfIndex) \<Rightarrow> Snapshot thread list \<Rightarrow> 'd Idf_State \<Rightarrow> 'd Idf_State" where
  "idf_threads_run from_db [] s = s"
| "idf_threads_run from_db (t # ts) s = idf_threads_run from_db ts (idf_thread from_db True t s)"

fun idf_enabled :: "('d \<Rightarrow> IdfIndex) \<Rightarrow> Snapshot thread list \<Rightarrow> 'd Idf_State \<Rightarrow> bool" where
  "idf_enabled from_db [] s = True"
| "idf_enabled from_db (t # ts) s = (t \<in># idf_threads s \<and> idf_enabled from_db ts (idf_thread from_db True t s))"

lemma idf_run_threads:
  "idf_run from_db drift s \<Longrightarrow> idf_enabled from_db ts s \<Longrightarrow> idf_run from_db drift (idf_threads_run from_db ts s)"
  by (induction from_db ts s rule: idf_threads_run.induct) (auto intro: idf_run.thread)

definition demo_db :: "int \<Rightarrow> IdfIndex" where
  "demo_db n = \<lparr>df = [(lit ''otter'', n)], idf_n_posts = n\<rparr>"

definition demo_batch :: batch where
  "demo_batch = ([(lit ''otter'', 1)], 1)"

lemma otter_lower: "to_ascii_lowercase (lit ''otter'') = lit ''otter''"
  by (simp add: to_ascii_lowercase_def lower_char_def is_ascii_uppercase_def)

lemma demo_adds: "adds demo_db 1 demo_batch 2"
  using otter_lower by (simp add: adds_def demo_batch_def demo_db_def lookup_lowercase tbl_get_def del: lit_simps)

definition demo_state :: "Snapshot thread multiset \<Rightarrow> bool \<times> bool \<times> bool \<Rightarrow> IdfIndex \<Rightarrow> batch multiset \<Rightarrow> int \<Rightarrow> int Idf_State" where
  "demo_state ts f x p d = (case f of (b, r, c) \<Rightarrow>
     \<lparr>idf_flags = \<lparr>dirty = b, rebuilding = r, cold = c\<rparr>, idf_threads = ts, idf_cache = x,
      bump_generation = 0, bump_drift_count = 0, idf_user_access = 5, pending_bumps = p, idb = d\<rparr>)"

lemma demo_noted: "idf_run demo_db 50 (demo_state {#Storing (Noted 0)#} (False, True, True) empty_index {#} 1)"
proof -
  have "snd (current_idf 5 (idf_start 0 1)) = demo_state {#Spawning#} (True, False, True) empty_index {#} 1"
    by (simp add: current_idf_def idf_start_def demo_state_def Let_def)
  then have "idf_run demo_db 50 (demo_state {#Spawning#} (True, False, True) empty_index {#} 1)"
    using idf_run.read [OF idf_run.start, of demo_db 50 5 0 1] by simp
  from idf_run_threads [OF this, of "[Spawning, Checking, Loading]"] show ?thesis by (simp add: demo_state_def)
qed

lemma demo_stored: "idf_run demo_db 50 (demo_state {#} (False, False, False) (demo_db 2) {#demo_batch#} 2)"
proof -
  have "idf_run demo_db 50 (demo_state {#Storing (Noted 0)#} (False, True, True) empty_index {#demo_batch#} 2)"
    using idf_run.commit [OF demo_noted, of demo_batch 2] demo_adds by (simp add: demo_state_def)
  from idf_run_threads [OF this, of "[Storing (Noted 0), Storing (Held 0 (demo_db 2)), Checking, Cooling, Waking, Releasing, Rechecking]"]
  show ?thesis by (simp add: demo_state_def Let_def)
qed


text \<open>A batch whose commit falls between the worker's two reads is counted twice: the rebuilt index
  has it already when its update arrives, and nothing marks the index dirty.\<close>

theorem rebuild_counts_twice:
  "\<exists>s t. idf_run demo_db 50 s \<and> idf_threads s = {#} \<and> pending_bumps s = {#} \<and> \<not> dirty (idf_flags s) \<and>
     lookup_df (idf_cache s) t = lookup_df (demo_db (idb s)) t + 1"
proof -
  let ?s0 = "demo_state {#} (False, False, False) (demo_db 2) {#demo_batch#} 2"
  let ?s = "bump_idf 50 (fst demo_batch) (snd demo_batch) (?s0\<lparr>pending_bumps := pending_bumps ?s0 - {#demo_batch#}\<rparr>)"
  have "idf_run demo_db 50 ?s" by (rule idf_run.bump [OF demo_stored]) (simp add: demo_state_def)
  moreover have "idf_threads ?s = {#}" "pending_bumps ?s = {#}" "\<not> dirty (idf_flags ?s)" "idb ?s = 2"
    by (simp_all add: demo_state_def demo_batch_def bump_idf_def Let_def)
  moreover have "lookup_df (idf_cache ?s) (lit ''otter'') = lookup_df (demo_db 2) (lit ''otter'') + 1"
    using otter_lower bump_tag_entry [of "lit ''otter''" 1 "[(lit ''otter'', 2)]" "lit ''otter''"]
    by (simp add: demo_state_def demo_batch_def bump_idf_def Let_def bump_def demo_db_def lookup_lowercase tbl_get_def del: lit_simps)
  ultimately show ?thesis by metis
qed

end
