(* ===== verification/Scorer_Priors.thy ===== *)
theory Scorer_Priors
  imports Text_Ops
begin

text \<open>
  The parameters of the scorer (\<open>utils/scorer/priors.rs\<close>) with their defaults.  The four fields whose
  NaN means \<open>as the parent\<close> are options here, \<open>None\<close> for NaN.
\<close>

record Priors =
  priors_now :: int
  recency_tau_days :: f32
  quality_a :: f32
  quality_b :: f32
  mix_sim :: f32
  mix_quality :: f32
  mix_recency :: f32
  mix_rating :: f32
  mix_media :: f32
  mix_popularity :: f32
  mix_tag_relation :: f32
  idf_lambda :: f32
  idf_alpha :: f32
  freq_alpha :: f32
  quality_w_absolute :: f32
  quality_w_relative_score :: f32
  quality_w_relative_comments :: f32
  popularity_w_fav :: f32
  popularity_w_duration :: f32
  recency_w_global :: f32
  recency_w_personal :: f32
  diversity_window :: nat
  diversity_w_artist :: f32
  diversity_w_character :: f32
  diversity_w_general :: f32
  quality_log_bias :: f32
  discrete_smoothing_alpha :: f32
  recency_personal_floor_frac :: f32
  tag_relation_w_global :: f32
  tag_relation_w_personal :: f32
  tag_relation_pmi_scale :: f32
  tag_relation_min_cooc :: int
  tag_relation_user_min_cooc :: int
  tag_relation_cooc_ref :: f32
  tag_relation_user_cooc_ref :: f32
  recency_log_personal :: bool
  feedback_decay_half_life_days :: f32
  coldstart_n0 :: f32
  discrete_pref_floor :: f32
  diversity_max_penalty :: f32
  df_floor :: f32
  idf_max :: f32
  bm25_k :: f32
  one_sided_ratio_exp :: f32
  coldstart_smoothing_boost :: f32
  idf_rsj_smoothing :: f32
  group_w_artist :: f32
  group_w_character :: f32
  group_w_copyright :: f32
  group_w_species :: f32
  group_w_general :: f32
  group_w_lore :: f32
  score_temperature :: f32
  confidence_steepness :: f32
  mmr_redundancy_exp :: f32
  tag_sim_jaccard_blend :: f32
  idf_lambda_meta :: "f32 option"
  tag_relation_pmi_scale_user :: "f32 option"
  recency_tau_recent :: "f32 option"
  recency_split_age_days :: f32
  tag_relation_pair_aggregator :: ustr
  quality_c :: f32
  recency_tau_hot :: "f32 option"
  recency_split_age_hours :: f32
  diversity_w_copyright :: f32
  diversity_w_species :: f32
  exploration_epsilon :: f32
  tag_relation_max_tags :: nat
  mix_uploader :: f32
  uploader_n0 :: f32
  uploader_w_avg_score :: f32
  uploader_w_avg_fav :: f32
  mix_exclusivity :: f32
  min_exclusivity_cooc :: int
  exclusivity_scale :: f32
  exclusivity_max_tags :: nat
  exclusivity_cross_group_weight :: f32
  mix_novelty :: f32
  novelty_n0 :: f32
  novelty_use_feedback :: bool
  mix_artist_discovery :: f32
  artist_discovery_n0 :: f32
  artist_discovery_novelty_bonus :: f32
  diversity_semantic_blend :: f32
  diversity_pmi_threshold :: f32
  diversity_semantic_max_tags :: nat
  diversity_user_pmi_weight :: f32
  diversity_head_limit :: nat

definition priors_default :: "int \<Rightarrow> Priors" where
  "priors_default now = \<lparr>
     priors_now = now, recency_tau_days = 10, quality_a = 5 / 10, quality_b = 2 / 10, mix_sim = 72 / 100,
     mix_quality = 2 / 100, mix_recency = 2 / 100, mix_rating = 4 / 100, mix_media = 5 / 100,
     mix_popularity = 2 / 100, mix_tag_relation = 8 / 100, idf_lambda = 1, idf_alpha = 105 / 100,
     freq_alpha = 95 / 100, quality_w_absolute = 55 / 100, quality_w_relative_score = 3 / 10,
     quality_w_relative_comments = 15 / 100, popularity_w_fav = 8 / 10, popularity_w_duration = 2 / 10,
     recency_w_global = 4 / 10, recency_w_personal = 6 / 10, diversity_window = 32,
     diversity_w_artist = 22 / 100, diversity_w_character = 16 / 100, diversity_w_general = 8 / 100,
     quality_log_bias = - 3, discrete_smoothing_alpha = 1, recency_personal_floor_frac = 1,
     tag_relation_w_global = 4 / 10, tag_relation_w_personal = 6 / 10, tag_relation_pmi_scale = 35 / 10,
     tag_relation_min_cooc = 2, tag_relation_user_min_cooc = 1, tag_relation_cooc_ref = 16,
     tag_relation_user_cooc_ref = 5, recency_log_personal = True, feedback_decay_half_life_days = 90,
     coldstart_n0 = 25, discrete_pref_floor = 5 / 100, diversity_max_penalty = 45 / 100, df_floor = 4 / 10,
     idf_max = 100, bm25_k = 225 / 100, one_sided_ratio_exp = 5 / 10, coldstart_smoothing_boost = 2,
     idf_rsj_smoothing = 35 / 100, group_w_artist = 24 / 10, group_w_character = 2,
     group_w_copyright = 145 / 100, group_w_species = 13 / 10, group_w_general = 7 / 10,
     group_w_lore = 4 / 10, score_temperature = 0, confidence_steepness = 1, mmr_redundancy_exp = 1,
     tag_sim_jaccard_blend = 0, idf_lambda_meta = None, tag_relation_pmi_scale_user = None,
     recency_tau_recent = None, recency_split_age_days = 30, tag_relation_pair_aggregator = lit ''mean'',
     quality_c = 3 / 10, recency_tau_hot = None, recency_split_age_hours = 24,
     diversity_w_copyright = 18 / 10, diversity_w_species = 15 / 10, exploration_epsilon = 0,
     tag_relation_max_tags = 20, mix_uploader = 5 / 100, uploader_n0 = 5, uploader_w_avg_score = 6 / 10,
     uploader_w_avg_fav = 4 / 10, mix_exclusivity = 0, min_exclusivity_cooc = 2, exclusivity_scale = 5 / 10,
     exclusivity_max_tags = 15, exclusivity_cross_group_weight = 5 / 10, mix_novelty = 0, novelty_n0 = 3,
     novelty_use_feedback = True, mix_artist_discovery = 0, artist_discovery_n0 = 3,
     artist_discovery_novelty_bonus = 2 / 10, diversity_semantic_blend = 0, diversity_pmi_threshold = 0,
     diversity_semantic_max_tags = 10, diversity_user_pmi_weight = 1, diversity_head_limit = 0\<rparr>"

end
