(* ===== verification/Scorer_Util.thy ===== *)
theory Scorer_Util
  imports Scorer_Priors Posts
begin

text \<open>
  The pure helpers of the scorer (\<open>utils/scorer/util.rs\<close>) and the tag groups
  (\<open>utils/scorer/mod.rs\<close>): ratios, smoothing, blends, and the final blend of the eleven channels.
  Floats are reals; a division by zero is excluded by the hypotheses of the lemmas.
\<close>

section \<open>Tag groups\<close>

datatype Group = Artist | Character | Copyright | Species | General | Lore | Meta

fun group_index :: "Group \<Rightarrow> nat" where
  "group_index Artist = 0"
| "group_index Character = 1"
| "group_index Copyright = 2"
| "group_index Species = 3"
| "group_index General = 4"
| "group_index Lore = 5"
| "group_index Meta = 6"

definition GROUP_NAMES :: "(Group \<times> ustr) list" where
  "GROUP_NAMES =
     [(Artist, lit ''artist''), (Character, lit ''character''), (Copyright, lit ''copyright''), (Species, lit ''species''),
      (General, lit ''general''), (Lore, lit ''lore''), (Meta, lit ''meta'')]"

definition group_name :: "Group \<Rightarrow> ustr" where
  "group_name g = snd (GROUP_NAMES ! group_index g)"

definition group_of_str :: "ustr \<Rightarrow> Group option" where
  "group_of_str s = map_option fst (find (\<lambda>(g, n). n = s) GROUP_NAMES)"

definition is_scoring :: "Group \<Rightarrow> bool" where
  "is_scoring g \<longleftrightarrow> g \<noteq> Meta"

lemma group_of_name [simp]: "group_of_str (group_name g) = Some g"
  by (cases g) (simp_all add: group_of_str_def group_name_def GROUP_NAMES_def)

section \<open>Shapes\<close>

definition FEEDBACK_NEUTRAL :: f32 where
  "FEEDBACK_NEUTRAL = 1 / 2"

definition sigmoid :: "f32 \<Rightarrow> f32" where
  "sigmoid x = 1 / (1 + exp (- x))"

definition normalize_tag :: "ustr \<Rightarrow> ustr" where
  "normalize_tag t =
     (let trimmed = trim t in if list_ex is_ascii_uppercase trimmed then to_ascii_lowercase trimmed else trimmed)"

definition one_sided_ratio :: "f32 \<Rightarrow> f32 \<Rightarrow> f32 \<Rightarrow> f32" where
  "one_sided_ratio v baseline e =
     (if baseline \<le> 1 / 1000000 then (if v > 0 then 1 else FEEDBACK_NEUTRAL)
      else let r = max 0 v / baseline; e' = max (1 / 1000) e in clamp01 (powf (min 1 r) e'))"

definition smoothed_one_sided_ratio :: "f32 \<Rightarrow> f32 \<Rightarrow> f32 \<Rightarrow> f32 \<Rightarrow> f32" where
  "smoothed_one_sided_ratio v baseline e k =
     (let v' = max 0 v in
      if baseline \<le> 1 / 1000000 then (if v' > 0 then 1 else FEEDBACK_NEUTRAL)
      else let k' = max 0 k; r = (v' + k') / (baseline + k'); e' = max (1 / 1000) e in clamp01 (powf (min 1 r) e'))"

definition discrete_preference_smooth :: "int \<Rightarrow> int \<Rightarrow> nat \<Rightarrow> f32 \<Rightarrow> f32 \<Rightarrow> f32" where
  "discrete_preference_smooth tot matched k alpha floor_frac =
     (if tot \<le> 0 then FEEDBACK_NEUTRAL
      else let k' = real (max k 1); a = max 0 alpha; num = real_of_int (max 0 matched) + a; den = real_of_int tot + a * k'
           in clamp floor_frac 1 (sqrt (num / den)))"

definition blend2 :: "f32 \<Rightarrow> f32 \<Rightarrow> f32 \<Rightarrow> f32 \<Rightarrow> f32" where
  "blend2 a wa b wb =
     (let sum = wa + wb in if sum \<le> 0 then 0 else clamp01 ((wa * a + wb * b) / sum))"

definition blend3 :: "f32 \<Rightarrow> f32 \<Rightarrow> f32 \<Rightarrow> f32 \<Rightarrow> f32 \<Rightarrow> f32 \<Rightarrow> f32" where
  "blend3 a wa b wb c wc =
     (let sum = wa + wb + wc in if sum \<le> 0 then 0 else clamp01 ((wa * a + wb * b + wc * c) / sum))"

definition confidence :: "f32 \<Rightarrow> f32 \<Rightarrow> f32 \<Rightarrow> f32" where
  "confidence n n0 p =
     (let nn = max 0 n; nn0 = max (1 / 1000) n0 in
      if \<bar>p - 1\<bar> < 1 / 1000 then nn / (nn + nn0)
      else let p' = clamp (1 / 10) 5 p; np = powf nn p'; n0p = powf nn0 p' in np / (np + n0p))"

datatype PairAggregator = Mean | Max | GeoMean

definition pair_aggregator_of_str :: "ustr \<Rightarrow> PairAggregator" where
  "pair_aggregator_of_str s =
     (let t = to_ascii_lowercase (trim s) in
      if t = lit ''max'' then Max
      else if t = lit ''geomean'' \<or> t = lit ''geo_mean'' then GeoMean else Mean)"

section \<open>The final blend\<close>

definition BLEND_CHANNEL_COUNT :: nat where
  "BLEND_CHANNEL_COUNT = 11"

definition blend_score :: "f32 list \<Rightarrow> f32 list \<Rightarrow> f32 \<Rightarrow> f32" where
  "blend_score w channels score_temp =
     (let raw = foldl (\<lambda>r (wc, sc). r + wc * sc) 0 (zip w channels);
          score = clamp01 raw;
          score' = (if score_temp > 1 / 1000 then clamp01 (sigmoid ((score - 1 / 2) * score_temp)) else score)
      in clamp01 score')"

record MixWeights =
  mw_sim :: f32
  mw_quality :: f32
  mw_recency :: f32
  mw_rating :: f32
  mw_media :: f32
  mw_popularity :: f32
  mw_tag_relation :: f32
  mw_uploader :: f32
  mw_exclusivity :: f32
  mw_novelty :: f32
  mw_artist_discovery :: f32

definition raw_mix :: "Priors \<Rightarrow> f32 list" where
  "raw_mix p =
     [mix_sim p, mix_quality p, mix_recency p, mix_rating p, mix_media p, mix_popularity p, mix_tag_relation p,
      mix_uploader p, mix_exclusivity p, mix_novelty p, mix_artist_discovery p]"

definition sim_only :: MixWeights where
  "sim_only = \<lparr>mw_sim = 1, mw_quality = 0, mw_recency = 0, mw_rating = 0, mw_media = 0, mw_popularity = 0,
     mw_tag_relation = 0, mw_uploader = 0, mw_exclusivity = 0, mw_novelty = 0, mw_artist_discovery = 0\<rparr>"

definition from_priors :: "Priors \<Rightarrow> MixWeights" where
  "from_priors p =
     (let raw = raw_mix p; sum = sum_list (map abs raw) in
      if sum \<le> f32_EPSILON then sim_only
      else \<lparr>mw_sim = raw ! 0 / sum, mw_quality = raw ! 1 / sum, mw_recency = raw ! 2 / sum, mw_rating = raw ! 3 / sum,
        mw_media = raw ! 4 / sum, mw_popularity = raw ! 5 / sum, mw_tag_relation = raw ! 6 / sum,
        mw_uploader = raw ! 7 / sum, mw_exclusivity = raw ! 8 / sum, mw_novelty = raw ! 9 / sum,
        mw_artist_discovery = raw ! 10 / sum\<rparr>)"

definition as_array :: "MixWeights \<Rightarrow> f32 list" where
  "as_array m =
     [mw_sim m, mw_quality m, mw_recency m, mw_rating m, mw_media m, mw_popularity m, mw_tag_relation m,
      mw_uploader m, mw_exclusivity m, mw_novelty m, mw_artist_discovery m]"

definition normalised_mix_weights :: "Priors \<Rightarrow> f32 list" where
  "normalised_mix_weights p = as_array (from_priors p)"

end
