(* ===== verification/Diversify.thy ===== *)
theory Diversify
  imports Tag_Graph Scorer_Util
begin

text \<open>
  The diversification of a scored list (\<open>utils/scorer/diversify.rs\<close>): per-post fingerprints, the
  similarity of two posts from their tags (exact and by co-occurrence), the greedy re-ranking of
  the head of the list against a window of what was already picked, and the quota of distinct
  artists and characters in the first twenty.

  The tag hash (\<open>DefaultHasher\<close>, not under the repository's control) is the argument \<open>hash\<close>.
  Scores are reals, so that comparisons are total.
\<close>

section \<open>Fingerprints\<close>

type_synonym feature = "(u64 \<times> TagId option) list"

record DiversityFeatures =
  ft_artist :: feature
  ft_character :: feature
  ft_copyright :: feature
  ft_species :: feature
  ft_general :: feature

definition hash_tag :: "(ustr \<Rightarrow> u64) \<Rightarrow> ustr \<Rightarrow> u64" where
  "hash_tag hash t = hash (normalize_tag t)"

fun dedup_by_hash :: "feature \<Rightarrow> feature" where
  "dedup_by_hash [] = []"
| "dedup_by_hash [x] = [x]"
| "dedup_by_hash (x # y # zs) = (if fst y = fst x then dedup_by_hash (x # zs) else x # dedup_by_hash (y # zs))"

definition hashed_tag_set :: "(ustr \<Rightarrow> u64) \<Rightarrow> ustr list \<Rightarrow> nat \<Rightarrow> TagRelationGraph \<Rightarrow> feature" where
  "hashed_tag_set hash ts grp G =
     (let out = map (\<lambda>t. let trimmed = trim t in (hash_tag hash trimmed, tag_id grp trimmed G))
            (filter (\<lambda>t. trim t \<noteq> []) ts)
      in dedup_by_hash (sort_key fst out))"

definition from_post :: "(ustr \<Rightarrow> u64) \<Rightarrow> Post \<Rightarrow> TagRelationGraph \<Rightarrow> DiversityFeatures" where
  "from_post hash p G =
     \<lparr>ft_artist = hashed_tag_set hash (artist (tags p)) 0 G,
      ft_character = hashed_tag_set hash (character (tags p)) 1 G,
      ft_copyright = hashed_tag_set hash (copyright (tags p)) 2 G,
      ft_species = hashed_tag_set hash (species (tags p)) 3 G,
      ft_general = hashed_tag_set hash (general (tags p)) 4 G\<rparr>"

section \<open>Similarity\<close>

text \<open>\<open>intersection\<close> is the merge loop over the two sorted slices.\<close>

fun intersection :: "feature \<Rightarrow> feature \<Rightarrow> nat" where
  "intersection (x # xs) (y # ys) =
     (if fst x = fst y then 1 + intersection xs ys
      else if fst x < fst y then intersection xs (y # ys)
      else intersection (x # xs) ys)"
| "intersection xs ys = 0"

definition jaccard_hashes :: "feature \<Rightarrow> feature \<Rightarrow> f32" where
  "jaccard_hashes a b =
     (if a = [] \<or> b = [] then 0
      else let inter = intersection a b; un = length a + length b - inter
           in if un = 0 then 0 else real inter / real un)"

text \<open>The counts \<open>(matches, total)\<close> after one row and after all rows of the pair loop.\<close>

definition pmi_pair :: "TagRelationGraph \<Rightarrow> f32 \<Rightarrow> TagId \<Rightarrow> TagId \<Rightarrow> nat \<times> nat \<Rightarrow> nat \<times> nat" where
  "pmi_pair G threshold ta tb = (\<lambda>(matched, tot).
     if ta = tb then (matched + 1, tot + 1)
     else let cooc = cooc_by_id G ta tb; ma = marginal_by_id G ta; mb = marginal_by_id G tb in
       if cooc \<le> 0 then (matched, tot + 1)
       else if mb \<le> 0 then (matched, tot + 1)
       else if ln (real_of_int cooc * real_of_int (n_posts G) / (real_of_int ma * real_of_int mb)) > threshold
            then (matched + 1, tot + 1) else (matched, tot + 1))"

definition pmi_row :: "TagRelationGraph \<Rightarrow> f32 \<Rightarrow> TagId list \<Rightarrow> TagId \<Rightarrow> nat \<times> nat \<Rightarrow> nat \<times> nat" where
  "pmi_row G threshold bs ta mt =
     (if marginal_by_id G ta \<le> 0 then mt else fold (pmi_pair G threshold ta) bs mt)"

definition pmi_group_similarity :: "feature \<Rightarrow> feature \<Rightarrow> TagRelationGraph \<Rightarrow> f32 \<Rightarrow> nat \<Rightarrow> f32" where
  "pmi_group_similarity a b G threshold max_tags =
     (let a_tids = take max_tags (List.map_filter snd a); b_tids = take max_tags (List.map_filter snd b) in
      if a_tids = [] \<or> b_tids = [] then 0
      else if n_posts G \<le> 0 then 0
      else let (matched, tot) = fold (pmi_row G threshold b_tids) a_tids (0, 0)
           in if tot = 0 then 0 else real matched / real tot)"

definition uses_user_graph :: "TagRelationGraph option \<Rightarrow> f32 \<Rightarrow> bool" where
  "uses_user_graph user_graph weight \<longleftrightarrow> user_graph \<noteq> None \<and> weight > 1 / 10000"

definition group_similarity ::
  "feature \<Rightarrow> feature \<Rightarrow> TagRelationGraph \<Rightarrow> TagRelationGraph option \<Rightarrow> f32 \<Rightarrow> f32 \<Rightarrow> f32 \<Rightarrow> nat \<Rightarrow> f32" where
  "group_similarity a b G user_graph blend pmi_threshold user_pmi_weight max_tags =
     (if blend \<le> 0 then jaccard_hashes a b
      else let jac = jaccard_hashes a b;
               graph_for_pmi = (if uses_user_graph user_graph user_pmi_weight
                  then (case user_graph of Some u \<Rightarrow> u | None \<Rightarrow> G) else G);
               pmi = pmi_group_similarity a b graph_for_pmi pmi_threshold max_tags;
               pmi_boost = (if uses_user_graph user_graph user_pmi_weight then user_pmi_weight else 1)
           in (1 - blend) * jac + blend * pmi * pmi_boost)"

definition pair_redundancy ::
  "DiversityFeatures \<Rightarrow> DiversityFeatures \<Rightarrow> TagRelationGraph \<Rightarrow> TagRelationGraph option \<Rightarrow> Priors \<Rightarrow> f32" where
  "pair_redundancy a b G user_graph p =
     (let blend = clamp01 (diversity_semantic_blend p) in
      if blend \<le> 0 then
        jaccard_hashes (ft_artist a) (ft_artist b) * diversity_w_artist p
        + jaccard_hashes (ft_character a) (ft_character b) * diversity_w_character p
        + jaccard_hashes (ft_copyright a) (ft_copyright b) * diversity_w_copyright p
        + jaccard_hashes (ft_species a) (ft_species b) * diversity_w_species p
        + jaccard_hashes (ft_general a) (ft_general b) * diversity_w_general p
      else
        let sim = (\<lambda>f. group_similarity (f a) (f b) G user_graph blend (diversity_pmi_threshold p)
              (diversity_user_pmi_weight p) (max 1 (diversity_semantic_max_tags p)))
        in sim ft_artist * diversity_w_artist p
           + sim ft_character * diversity_w_character p
           + sim ft_copyright * diversity_w_copyright p
           + sim ft_species * diversity_w_species p
           + sim ft_general * diversity_w_general p)"

section \<open>The greedy re-ranking\<close>

definition f32_MIN :: f32 where
  "f32_MIN = - (2 ^ 128 - 2 ^ 104)"

definition i64_MAX :: int where
  "i64_MAX = 2 ^ 63 - 1"

definition swap_remove :: "nat \<Rightarrow> 'a list \<Rightarrow> 'a \<times> 'a list" where
  "swap_remove i xs = (xs ! i, butlast (xs[i := last xs]))"

text \<open>Positions in the head by index; an index outside keeps the length of the head.\<close>

definition positions :: "nat \<Rightarrow> nat list \<Rightarrow> nat list" where
  "positions n head_ids =
     fold (\<lambda>(pos, actual) ps. ps[actual := pos]) (enumerate 0 head_ids) (replicate n (length head_ids))"

definition similarity_matrix ::
  "DiversityFeatures list \<Rightarrow> nat list \<Rightarrow> TagRelationGraph \<Rightarrow> TagRelationGraph option \<Rightarrow> Priors \<Rightarrow> f32 list list" where
  "similarity_matrix features head_ids G user_graph p =
     map (\<lambda>pa. map (\<lambda>pb. if pa = pb then 0
         else pair_redundancy (features ! (head_ids ! pa)) (features ! (head_ids ! pb)) G user_graph p)
       [0..<length head_ids]) [0..<length head_ids]"

definition max_similarity :: "f32 list list \<Rightarrow> nat list \<Rightarrow> nat \<Rightarrow> nat list \<Rightarrow> nat \<Rightarrow> f32" where
  "max_similarity pair_sim pos_of window selected i =
     foldl (\<lambda>m sel. let v = pair_sim ! (pos_of ! i) ! (pos_of ! sel) in if v > m then v else m) 0
       (take window (rev selected))"

definition relevance_scale :: "(f32 \<times> int) list \<Rightarrow> nat list \<Rightarrow> f32" where
  "relevance_scale entries head_ids =
     (let scale = foldl max 0 (map (\<lambda>i. \<bar>fst (entries ! i)\<bar>) head_ids)
      in if scale > f32_EPSILON then scale else 1)"

definition weight_norm :: "Priors \<Rightarrow> f32" where
  "weight_norm p = max f32_EPSILON (\<bar>diversity_w_artist p\<bar> + \<bar>diversity_w_character p\<bar> +
     \<bar>diversity_w_copyright p\<bar> + \<bar>diversity_w_species p\<bar> + \<bar>diversity_w_general p\<bar>)"

definition shaped :: "f32 \<Rightarrow> f32 \<Rightarrow> f32" where
  "shaped e r = (if \<bar>e - 1\<bar> < 1 / 1000 then r else powf r (clamp (1 / 10) 5 e))"

definition adjusted ::
  "(f32 \<times> int) list \<Rightarrow> f32 list list \<Rightarrow> nat list \<Rightarrow> f32 \<Rightarrow> Priors \<Rightarrow> nat list \<Rightarrow> nat \<Rightarrow> f32" where
  "adjusted entries pair_sim pos_of scale p selected i =
     (let r = clamp01 (max_similarity pair_sim pos_of (max 1 (diversity_window p)) selected i / weight_norm p);
          redundancy = shaped (mmr_redundancy_exp p) r;
          relevance = fst (entries ! i) / scale
      in relevance - redundancy * clamp01 (diversity_max_penalty p))"

text \<open>One scan of the available indices: position, value and tie-break of the best so far.\<close>

fun best_of :: "(nat \<Rightarrow> f32) \<Rightarrow> (nat \<Rightarrow> int) \<Rightarrow> nat \<Rightarrow> nat list \<Rightarrow> nat \<times> f32 \<times> int \<Rightarrow> nat" where
  "best_of adj tid pos [] (best_pos, best_value, best_tiebreak) = best_pos"
| "best_of adj tid pos (i # is) (best_pos, best_value, best_tiebreak) =
     (if adj i > best_value \<or> (adj i = best_value \<and> tid i < best_tiebreak)
      then best_of adj tid (pos + 1) is (pos, adj i, tid i)
      else best_of adj tid (pos + 1) is (best_pos, best_value, best_tiebreak))"

function mmr_loop :: "(nat list \<Rightarrow> nat \<Rightarrow> f32) \<Rightarrow> (nat \<Rightarrow> int) \<Rightarrow> nat list \<Rightarrow> nat list \<Rightarrow> nat list" where
  "mmr_loop adj tid available selected =
     (if available = [] then selected
      else let best_pos = best_of (adj selected) tid 0 available (0, f32_MIN, i64_MAX);
               (chosen, available') = swap_remove best_pos available
           in mmr_loop adj tid available' (selected @ [chosen]))"
  by pat_completeness auto
termination
  by (relation "measure (\<lambda>(adj, tid, available, selected). length available)") (auto simp: swap_remove_def)

declare mmr_loop.simps [simp del]

definition diversify_indices ::
  "(f32 \<times> int) list \<Rightarrow> DiversityFeatures list \<Rightarrow> TagRelationGraph \<Rightarrow> TagRelationGraph option \<Rightarrow> Priors \<Rightarrow> nat \<Rightarrow> nat list" where
  "diversify_indices entries features G user_graph p head_limit =
     (let n = length entries in
      if n = 0 then []
      else let idx_by_score = sort_key (\<lambda>i. - fst (entries ! i)) [0..<n]; head_n = min head_limit n in
        if head_n \<le> 1 then idx_by_score
        else let head_ids = take head_n idx_by_score;
                 pair_sim = similarity_matrix features head_ids G user_graph p;
                 pos_of = positions n head_ids;
                 scale = relevance_scale entries head_ids
             in mmr_loop (adjusted entries pair_sim pos_of scale p) (\<lambda>i. snd (entries ! i)) head_ids []
                @ drop head_n idx_by_score)"

section \<open>The quota of distinct keys\<close>

text \<open>The keys seen in the window, in order, and the redundant slots with the last one first.\<close>

fun scan_window :: "(ScoredPost \<Rightarrow> ustr option) \<Rightarrow> nat \<Rightarrow> ScoredPost list \<Rightarrow> ustr list \<Rightarrow> nat list \<Rightarrow> ustr list \<times> nat list" where
  "scan_window key i [] seen redundant = (seen, redundant)"
| "scan_window key i (sp # sps) seen redundant =
     (case key sp of
        Some k \<Rightarrow> if k \<notin> set seen then scan_window key (i + 1) sps (seen @ [k]) redundant
                  else scan_window key (i + 1) sps seen (i # redundant)
      | None \<Rightarrow> scan_window key (i + 1) sps seen (i # redundant))"

function promote_keys ::
  "(ScoredPost \<Rightarrow> ustr option) \<Rightarrow> nat \<Rightarrow> ScoredPost list \<Rightarrow> ustr list \<Rightarrow> nat list \<Rightarrow> nat \<Rightarrow> ScoredPost list" where
  "promote_keys key min_distinct scored seen redundant next_below =
     (if length seen < min_distinct then
        (case find_up (\<lambda>j. case key (scored ! j) of None \<Rightarrow> False | Some k \<Rightarrow> k \<notin> set seen) next_below (length scored) of
           None \<Rightarrow> scored
         | Some j \<Rightarrow>
             (case redundant of
                [] \<Rightarrow> scored
              | slot # rest \<Rightarrow>
                  let scored' = swap slot j scored;
                      seen' = (case key (scored' ! slot) of None \<Rightarrow> seen | Some k \<Rightarrow> seen @ [k])
                  in promote_keys key min_distinct scored' seen' rest (j + 1)))
      else scored)"
  by pat_completeness auto
termination
  by (relation "measure (\<lambda>(key, m, scored, seen, redundant, nb). length redundant)") auto

declare promote_keys.simps [simp del]

definition enforce_group_quota :: "nat \<Rightarrow> nat \<Rightarrow> (ScoredPost \<Rightarrow> ustr option) \<Rightarrow> ScoredPost list \<Rightarrow> ScoredPost list" where
  "enforce_group_quota top_k min_distinct key scored =
     (let (seen, redundant) = scan_window key 0 (take top_k scored) [] [] in
      if length seen \<ge> min_distinct then scored
      else promote_keys key min_distinct scored seen redundant top_k)"

definition first_key :: "(Tags \<Rightarrow> ustr list) \<Rightarrow> ScoredPost \<Rightarrow> ustr option" where
  "first_key grp sp = (case grp (tags (sp_post sp)) of [] \<Rightarrow> None | t # _ \<Rightarrow> Some (to_ascii_lowercase t))"

definition MIN_ARTISTS :: nat where "MIN_ARTISTS = 2"
definition MIN_CHARACTERS :: nat where "MIN_CHARACTERS = 3"

definition enforce_diversity_quota :: "ScoredPost list \<Rightarrow> ScoredPost list" where
  "enforce_diversity_quota scored =
     (let top_k = min 20 (length scored) in
      if top_k < 4 then scored
      else enforce_group_quota top_k MIN_CHARACTERS (first_key character)
             (enforce_group_quota top_k MIN_ARTISTS (first_key artist) scored))"

section \<open>The re-rank of the recommendations\<close>

text \<open>Taking the posts out of their slots in the order of the indices; a slot is taken once.\<close>

fun take_slots :: "nat list \<Rightarrow> ScoredPost option list \<Rightarrow> ScoredPost list" where
  "take_slots [] slots = []"
| "take_slots (i # is) slots =
     (case slots ! i of None \<Rightarrow> take_slots is slots
      | Some sp \<Rightarrow> sp # take_slots is (slots[i := None]))"

definition diversify_scored_posts ::
  "(ustr \<Rightarrow> u64) \<Rightarrow> ScoredPost list \<Rightarrow> TagRelationGraph \<Rightarrow> TagRelationGraph option \<Rightarrow> Priors \<Rightarrow> ScoredPost list" where
  "diversify_scored_posts hash posts G user_graph p =
     (if posts = [] then posts
      else let feature_graph = (if uses_user_graph user_graph (diversity_user_pmi_weight p)
                 then (case user_graph of Some u \<Rightarrow> u | None \<Rightarrow> G) else G);
               features = map (\<lambda>sp. from_post hash (sp_post sp) feature_graph) posts;
               entries = map (\<lambda>sp. (sp_score sp, p_id (sp_post sp))) posts;
               head_limit = (if diversity_head_limit p = 0 then length posts else diversity_head_limit p);
               order = diversify_indices entries features G user_graph p head_limit
           in enforce_diversity_quota (take_slots order (map Some posts)))"

end
