(* ===== verification/Diversify_Rank.thy ===== *)
theory Diversify_Rank
  imports Diversify
begin

text \<open>
  What the similarity and the greedy re-ranking compute: the exact similarity is the Jaccard
  index of the tag sets, the re-ranking is a permutation that takes the best remaining post at
  each step, and only the relative size of the weights matters.
\<close>

section \<open>The exact similarity\<close>

lemma intersection_card:
  "sorted_wrt (<) (map fst xs) \<Longrightarrow> sorted_wrt (<) (map fst ys) \<Longrightarrow>
     intersection xs ys = card (fst ` set xs \<inter> fst ` set ys)"
proof (induction xs ys rule: intersection.induct)
  case (1 x xs y ys)
  have sx: "\<forall>z \<in> fst ` set xs. fst x < z" "sorted_wrt (<) (map fst xs)"
    and sy: "\<forall>z \<in> fst ` set ys. fst y < z" "sorted_wrt (<) (map fst ys)"
    using "1.prems" by auto
  consider "fst x = fst y" | "fst x < fst y" | "fst y < fst x" by (rule linorder_cases)
  then show ?case
  proof cases
    case 1
    have "fst ` set (x # xs) \<inter> fst ` set (y # ys) = insert (fst x) (fst ` set xs \<inter> fst ` set ys)"
      using 1 sx sy by auto
    moreover have "fst x \<notin> fst ` set xs \<inter> fst ` set ys" using sx by auto
    ultimately show ?thesis using 1 "1.IH"(1) [OF 1 sx(2) sy(2)] by simp
  next
    case 2
    have "fst x \<notin> fst ` set (y # ys)" using 2 sy by auto
    then have "fst ` set (x # xs) \<inter> fst ` set (y # ys) = fst ` set xs \<inter> fst ` set (y # ys)" by auto
    moreover have "intersection (x # xs) (y # ys) = intersection xs (y # ys)" using 2 by auto
    ultimately show ?thesis using "1.IH"(2) [OF less_imp_neq [OF 2] 2 sx(2) "1.prems"(2)] by (simp only:)
  next
    case 3
    have "fst y \<notin> fst ` set (x # xs)" using 3 sx by auto
    then have "fst ` set (x # xs) \<inter> fst ` set (y # ys) = fst ` set (x # xs) \<inter> fst ` set ys" by auto
    moreover have "intersection (x # xs) (y # ys) = intersection (x # xs) ys" using 3 by auto
    moreover have "fst x \<noteq> fst y" "\<not> fst x < fst y" using 3 by auto
    ultimately show ?thesis using "1.IH"(3) [OF _ _ "1.prems"(1) sy(2)] by (simp only: simp_thms)
  qed
qed simp_all

lemma dedup_by_hash_keys:
  "sorted (map fst xs) \<Longrightarrow> sorted_wrt (<) (map fst (dedup_by_hash xs)) \<and> fst ` set (dedup_by_hash xs) = fst ` set xs"
proof (induction xs rule: dedup_by_hash.induct)
  case (3 x y zs)
  show ?case
  proof (cases "fst y = fst x")
    case True
    then show ?thesis using 3 by simp
  next
    case False
    then have IH: "sorted_wrt (<) (map fst (dedup_by_hash (y # zs)))"
        "fst ` set (dedup_by_hash (y # zs)) = fst ` set (y # zs)" using 3 by simp_all
    have "fst x < fst y" "\<forall>z \<in> set zs. fst y \<le> fst z" using "3.prems" False by auto
    then have "\<forall>k \<in> fst ` set (y # zs). fst x < k" by auto
    then show ?thesis using False IH by (metis (no_types, lifting) dedup_by_hash.simps(3) image_insert list.simps(15) list.simps(9) set_map sorted_wrt.simps(2))
  qed
qed simp_all

definition tag_names :: "ustr list \<Rightarrow> ustr set" where
  "tag_names ts = normalize_tag ` {t \<in> set ts. trim t \<noteq> []}"

lemma normalize_trim [simp]: "normalize_tag (trim t) = normalize_tag t"
  by (simp add: normalize_tag_def)

lemma hashed_tag_set_keys:
  "sorted_wrt (<) (map fst (hashed_tag_set hash ts grp G))"
  "fst ` set (hashed_tag_set hash ts grp G) = hash ` tag_names ts"
proof -
  let ?out = "map (\<lambda>t. let trimmed = trim t in (hash_tag hash trimmed, tag_id grp trimmed G)) (filter (\<lambda>t. trim t \<noteq> []) ts)"
  have eq: "hashed_tag_set hash ts grp G = dedup_by_hash (sort_key fst ?out)" by (simp add: hashed_tag_set_def)
  have "sorted (map fst (sort_key fst ?out))" by (rule sorted_sort_key)
  note d = dedup_by_hash_keys [OF this]
  show "sorted_wrt (<) (map fst (hashed_tag_set hash ts grp G))" unfolding eq using d by blast
  have "fst ` set ?out = hash ` tag_names ts" by (force simp: tag_names_def hash_tag_def Let_def image_iff)
  then show "fst ` set (hashed_tag_set hash ts grp G) = hash ` tag_names ts" unfolding eq using d by simp
qed

lemma card_hashed:
  assumes "inj_on hash N" "tag_names ts \<subseteq> N"
  shows "length (hashed_tag_set hash ts grp G) = card (tag_names ts)"
proof -
  have "distinct (map fst (hashed_tag_set hash ts grp G))"
    using hashed_tag_set_keys(1) strict_sorted_iff by blast
  then have "length (hashed_tag_set hash ts grp G) = card (set (map fst (hashed_tag_set hash ts grp G)))"
    using distinct_card by (metis length_map)
  also have "\<dots> = card (hash ` tag_names ts)" using hashed_tag_set_keys(2) [of hash ts grp G] by simp
  also have "\<dots> = card (tag_names ts)" using assms by (intro card_image) (blast intro: inj_on_subset)
  finally show ?thesis .
qed

text \<open>Where the hash tells the tags apart, the exact similarity of two groups of tags is the Jaccard
  index of the sets of trimmed lower-case names, whatever order, case and repetitions they come in;
  it is symmetric and between zero and one.\<close>

theorem jaccard_of_tag_sets:
  assumes inj: "inj_on hash (tag_names as \<union> tag_names bs)"
  shows "jaccard_hashes (hashed_tag_set hash as grp G) (hashed_tag_set hash bs grp' G') =
      (if tag_names as = {} \<or> tag_names bs = {} then 0
       else real (card (tag_names as \<inter> tag_names bs)) / real (card (tag_names as \<union> tag_names bs))) \<and>
    0 \<le> jaccard_hashes (hashed_tag_set hash as grp G) (hashed_tag_set hash bs grp' G') \<and>
    jaccard_hashes (hashed_tag_set hash as grp G) (hashed_tag_set hash bs grp' G') \<le> 1"
proof -
  let ?a = "hashed_tag_set hash as grp G" and ?b = "hashed_tag_set hash bs grp' G'"
  let ?A = "tag_names as" and ?B = "tag_names bs"
  have fin: "finite ?A" "finite ?B" by (simp_all add: tag_names_def)
  have len: "length ?a = card ?A" "length ?b = card ?B" using card_hashed [OF inj] by simp_all
  have "intersection ?a ?b = card (hash ` ?A \<inter> hash ` ?B)"
    using intersection_card [OF hashed_tag_set_keys(1) hashed_tag_set_keys(1)] hashed_tag_set_keys(2) by metis
  also have "hash ` ?A \<inter> hash ` ?B = hash ` (?A \<inter> ?B)" using inj by (intro inj_on_image_Int [symmetric]) auto
  also have "card \<dots> = card (?A \<inter> ?B)" using inj by (intro card_image) (auto intro: inj_on_subset)
  finally have inter: "intersection ?a ?b = card (?A \<inter> ?B)" .
  have un: "length ?a + length ?b - intersection ?a ?b = card (?A \<union> ?B)"
    using card_Un_Int [OF fin] by (simp add: len inter)
  have empty: "?a = [] \<longleftrightarrow> ?A = {}" "?b = [] \<longleftrightarrow> ?B = {}" using len fin by (metis card_0_eq length_0_conv)+
  have pos: "?A \<noteq> {} \<Longrightarrow> card (?A \<union> ?B) \<noteq> 0" using fin by simp
  have "card (?A \<inter> ?B) \<le> card (?A \<union> ?B)" using fin by (intro card_mono) auto
  then show ?thesis unfolding jaccard_hashes_def Let_def un unfolding inter empty using pos by (auto simp: divide_le_eq_1)
qed

theorem jaccard_of_tag_sets_witness:
  "jaccard_hashes (hashed_tag_set (\<lambda>t. of_nat (sum_list t)) [lit ''b'', lit '' A'', lit ''a''] 0 empty_graph)
     (hashed_tag_set (\<lambda>t. of_nat (sum_list t)) [lit ''a''] 0 empty_graph) = 1 / 2"
proof -
  have tr: "trim [98] = [98]" "trim [32, 65] = [65]" "trim [97] = [97]"
    by (simp_all add: trim_def trim_matches_def is_whitespace_def)
  have norm: "normalize_tag [98] = [98]" "normalize_tag [32, 65] = [97]" "normalize_tag [97] = [97]"
    unfolding normalize_tag_def tr by (simp_all add: to_ascii_lowercase_def lower_char_def is_ascii_uppercase_def)
  have names: "tag_names [lit ''b'', lit '' A'', lit ''a''] = {lit ''a'', lit ''b''}" "tag_names [lit ''a''] = {lit ''a''}"
    unfolding tag_names_def using norm tr by force+
  have "inj_on (\<lambda>t. of_nat (sum_list t) :: u64) ({lit ''a'', lit ''b''} \<union> {lit ''a''})" by (simp add: inj_on_def)
  from jaccard_of_tag_sets [of "\<lambda>t. of_nat (sum_list t)" "[lit ''b'', lit '' A'', lit ''a'']" "[lit ''a'']"
      0 empty_graph 0 empty_graph, unfolded names, OF this]
  show ?thesis by (simp add: card_insert_if)
qed

text \<open>The similarity by co-occurrence depends on the order of the two posts when a tag of one has no
  marginal count: its row is skipped, its column is not.\<close>

theorem pmi_similarity_not_symmetric:
  "\<exists>G a b. pmi_group_similarity a b G t 4 = 1 \<and> pmi_group_similarity b a G t 4 = 1 / 2"
proof -
  let ?G = "empty_graph\<lparr>marginals := [0, 5], n_posts := 10\<rparr>"
  have "pmi_group_similarity [(1, Some 0), (2, Some 1)] [(2, Some 1)] ?G t 4 = 1 \<and>
      pmi_group_similarity [(2, Some 1)] [(1, Some 0), (2, Some 1)] ?G t 4 = 1 / 2"
    by (simp add: pmi_group_similarity_def pmi_row_def pmi_pair_def marginal_by_id_def cooc_by_id_def
        empty_graph_def ordered_def Let_def List.map_filter_simps)
  then show ?thesis by blast
qed

section \<open>The greedy choice\<close>

definition rank_key :: "(nat \<Rightarrow> f32) \<Rightarrow> (nat \<Rightarrow> int) \<Rightarrow> nat \<Rightarrow> f32 \<times> int" where
  "rank_key adj tid i = (adj i, - tid i)"

lemma best_of_spec:
  fixes adj tid
  defines "key \<equiv> rank_key adj tid"
  shows "best_of adj tid pos is (bp, bv, bt) = bp \<and> (\<forall>i \<in> set is. key i \<le> (bv, - bt)) \<or>
    (\<exists>k < length is. best_of adj tid pos is (bp, bv, bt) = pos + k \<and> (bv, - bt) < key (is ! k) \<and>
       (\<forall>i \<in> set is. key i \<le> key (is ! k)))"
proof (induction "is" arbitrary: pos bp bv bt)
  case (Cons i "is")
  have better: "(adj i > bv \<or> (adj i = bv \<and> tid i < bt)) \<longleftrightarrow> (bv, - bt) < key i"
    by (auto simp: key_def rank_key_def)
  show ?case
  proof (cases "(bv, - bt) < key i")
    case True
    have step: "best_of adj tid pos (i # is) (bp, bv, bt) = best_of adj tid (pos + 1) is (pos, adj i, tid i)"
      using True unfolding better [symmetric] by (simp only: best_of.simps if_True)
    have ki: "(adj i, - tid i) = key i" by (simp add: key_def rank_key_def)
    from Cons.IH [of "pos + 1" pos "adj i" "tid i", unfolded ki] show ?thesis
    proof (elim disjE exE conjE)
      assume "best_of adj tid (pos + 1) is (pos, adj i, tid i) = pos" "\<forall>j \<in> set is. key j \<le> key i"
      then show ?thesis using step True by (intro disjI2 exI [of _ 0]) auto
    next
      fix k assume "k < length is" "best_of adj tid (pos + 1) is (pos, adj i, tid i) = pos + 1 + k"
        "key i < key (is ! k)" "\<forall>j \<in> set is. key j \<le> key (is ! k)"
      then show ?thesis using step True
        by (intro disjI2 exI [of _ "Suc k"]) (auto intro: order.strict_trans simp del: less_prod_simp less_eq_prod_simp)
    qed
  next
    case False
    have step: "best_of adj tid pos (i # is) (bp, bv, bt) = best_of adj tid (pos + 1) is (bp, bv, bt)"
      using False unfolding better [symmetric] by (simp only: best_of.simps if_False)
    have ki: "key i \<le> (bv, - bt)" using False by (rule leI)
    from Cons.IH [of "pos + 1" bp bv bt] show ?thesis
    proof (elim disjE exE conjE)
      assume "best_of adj tid (pos + 1) is (bp, bv, bt) = bp" "\<forall>j \<in> set is. key j \<le> (bv, - bt)"
      then show ?thesis using step ki by (intro disjI1) auto
    next
      fix k assume "k < length is" "best_of adj tid (pos + 1) is (bp, bv, bt) = pos + 1 + k"
        "(bv, - bt) < key (is ! k)" "\<forall>j \<in> set is. key j \<le> key (is ! k)"
      then show ?thesis using step ki
        by (intro disjI2 exI [of _ "Suc k"]) (auto intro: order.trans less_imp_le simp del: less_prod_simp less_eq_prod_simp)
    qed
  qed
qed simp

lemma best_of_first:
  assumes "available \<noteq> []"
  shows "best_of adj tid 0 available (0, lo, hi) < length available"
    and "\<forall>i \<in> set available. lo < adj i \<Longrightarrow>
      \<forall>i \<in> set available. rank_key adj tid i \<le> rank_key adj tid (available ! best_of adj tid 0 available (0, lo, hi))"
proof -
  show "best_of adj tid 0 available (0, lo, hi) < length available"
    using best_of_spec [of adj tid 0 available 0 lo hi] assms by (auto simp del: less_prod_simp less_eq_prod_simp)
  assume lo: "\<forall>i \<in> set available. lo < adj i"
  have "\<not> rank_key adj tid (hd available) \<le> (lo, - hi)"
    using lo hd_in_set [OF assms] by (force simp: rank_key_def)
  then show "\<forall>i \<in> set available. rank_key adj tid i \<le> rank_key adj tid (available ! best_of adj tid 0 available (0, lo, hi))"
    using best_of_spec [of adj tid 0 available 0 lo hi] hd_in_set [OF assms] by (metis add_0)
qed

lemma mset_swap_remove:
  assumes "i < length xs"
  shows "mset xs = {#xs ! i#} + mset (butlast (xs[i := last xs]))"
proof -
  let ?n = "length xs - 1"
  have n: "?n < length xs" using assms by simp
  let ?ys = "swap i ?n xs"
  have "xs \<noteq> []" using assms by auto
  have last: "last xs = xs ! ?n" using \<open>xs \<noteq> []\<close> by (rule last_conv_nth)
  have "?ys \<noteq> []" using \<open>xs \<noteq> []\<close> by (metis length_0_conv length_swap)
  have "mset xs = mset ?ys" using assms n by simp
  also have "?ys = butlast ?ys @ [last ?ys]" using \<open>?ys \<noteq> []\<close> by simp
  also have "last ?ys = xs ! i" using \<open>?ys \<noteq> []\<close> assms by (simp add: last_conv_nth swap_def nth_list_update)
  also have "butlast ?ys = butlast (xs[i := last xs])" by (simp add: swap_def last butlast_list_update)
  finally show ?thesis by simp
qed

text \<open>What the loop promises of the indices it appends to \<open>sel\<close>: each is the best of those left.\<close>

definition greedy :: "(nat list \<Rightarrow> nat \<Rightarrow> f32) \<Rightarrow> (nat \<Rightarrow> int) \<Rightarrow> nat list \<Rightarrow> nat list \<Rightarrow> bool" where
  "greedy adj tid sel out \<longleftrightarrow>
     (\<forall>k m. k \<le> m \<longrightarrow> m < length out \<longrightarrow>
        rank_key (adj (sel @ take k out)) tid (out ! m) \<le> rank_key (adj (sel @ take k out)) tid (out ! k))"

lemma greedy_Cons:
  assumes "\<forall>i \<in> set (x # out). rank_key (adj sel) tid i \<le> rank_key (adj sel) tid x" and "greedy adj tid (sel @ [x]) out"
  shows "greedy adj tid sel (x # out)"
  unfolding greedy_def
proof (intro allI impI)
  fix k m assume "k \<le> m" "m < length (x # out)"
  then show "rank_key (adj (sel @ take k (x # out))) tid ((x # out) ! m) \<le> rank_key (adj (sel @ take k (x # out))) tid ((x # out) ! k)"
    using assms nth_mem [of m "x # out"] unfolding greedy_def
    by (cases k; cases m) (simp_all del: less_eq_prod_simp)
qed

lemma mmr_loop_spec:
  assumes "\<forall>sel. \<forall>i \<in> set available. f32_MIN < adj sel i"
  shows "\<exists>out. mmr_loop adj tid available selected = selected @ out \<and> mset out = mset available \<and> greedy adj tid selected out"
  using assms
proof (induction "length available" arbitrary: available selected)
  case 0
  then show ?case by (simp add: mmr_loop.simps greedy_def)
next
  case (Suc n)
  then have ne: "available \<noteq> []" by auto
  let ?b = "best_of (adj selected) tid 0 available (0, f32_MIN, i64_MAX)"
  let ?x = "available ! ?b" and ?rest = "butlast (available[?b := last available])"
  note b = best_of_first(1) [OF ne, of "adj selected" tid f32_MIN i64_MAX]
  have ms: "mset available = {#?x#} + mset ?rest" by (rule mset_swap_remove [OF b])
  then have sub: "set ?rest \<subseteq> set available" "set available = set (?x # ?rest)"
    by (metis mset.simps(2) add_mset_add_single mset_subset_eq_add_right set_mset_mono set_mset_mset union_commute)
      (metis add_mset_add_single mset.simps(2) set_mset_mset union_commute ms)
  have len: "n = length ?rest" using Suc(2) by simp
  obtain out where out: "mmr_loop adj tid ?rest (selected @ [?x]) = (selected @ [?x]) @ out" "mset out = mset ?rest"
      "greedy adj tid (selected @ [?x]) out"
    using Suc(1) [OF len, of "selected @ [?x]"] Suc(3) sub(1) by blast
  have "mmr_loop adj tid available selected = selected @ (?x # out)"
    using out(1) ne by (subst mmr_loop.simps) (simp add: swap_remove_def Let_def)
  moreover have "mset (?x # out) = mset available" using ms out(2) by simp
  moreover have "greedy adj tid selected (?x # out)"
  proof (rule greedy_Cons [OF _ out(3)])
    have "set (?x # out) = set available" using \<open>mset (?x # out) = mset available\<close> by (metis set_mset_mset)
    then show "\<forall>i \<in> set (?x # out). rank_key (adj selected) tid i \<le> rank_key (adj selected) tid ?x"
      using best_of_first(2) [OF ne, of f32_MIN "adj selected" tid i64_MAX] Suc(3) by blast
  qed
  ultimately show ?case by blast
qed

end
