(* ===== verification/Diversify_Mmr.thy ===== *)
theory Diversify_Mmr
  imports Diversify_Rank
begin

text \<open>
  The whole re-ranking: the cached matrix and positions give the same value as the redundancy of
  the posts themselves, the result is a permutation whose head is greedy for that value, and what
  follows from it for a zero penalty, for the first post and for the scale of the weights.
\<close>

section \<open>The value of a candidate, from the posts themselves\<close>

definition redundancy_seen ::
  "DiversityFeatures list \<Rightarrow> TagRelationGraph \<Rightarrow> TagRelationGraph option \<Rightarrow> Priors \<Rightarrow> nat list \<Rightarrow> nat \<Rightarrow> f32" where
  "redundancy_seen features G user_graph p selected i =
     foldl max 0 (map (\<lambda>s. pair_redundancy (features ! i) (features ! s) G user_graph p)
       (take (max 1 (diversity_window p)) (rev selected)))"

definition mmr_value ::
  "(f32 \<times> int) list \<Rightarrow> DiversityFeatures list \<Rightarrow> TagRelationGraph \<Rightarrow> TagRelationGraph option \<Rightarrow> Priors \<Rightarrow> f32 \<Rightarrow>
     nat list \<Rightarrow> nat \<Rightarrow> f32" where
  "mmr_value entries features G user_graph p scale selected i =
     fst (entries ! i) / scale
     - shaped (mmr_redundancy_exp p) (clamp01 (redundancy_seen features G user_graph p selected i / weight_norm p))
       * clamp01 (diversity_max_penalty p)"

lemma positions_nth:
  assumes "distinct ids" "set ids \<subseteq> {..<n}" "k < length ids"
  shows "positions n ids ! (ids ! k) = k"
proof -
  have "length (fold (\<lambda>(pos, actual) ps. ps[actual := pos]) (enumerate off ids) ps) = length ps" for off ids ps
    by (induction ids arbitrary: off ps) auto
  moreover have "distinct ids \<Longrightarrow> set ids \<subseteq> {..<length ps} \<Longrightarrow>
      (\<forall>k < length ids. fold (\<lambda>(pos, actual) ps. ps[actual := pos]) (enumerate off ids) ps ! (ids ! k) = off + k) \<and>
      (\<forall>i. i \<notin> set ids \<longrightarrow> fold (\<lambda>(pos, actual) ps. ps[actual := pos]) (enumerate off ids) ps ! i = ps ! i)"
    for off :: nat and ids ps
  proof (induction ids arbitrary: off ps)
    case (Cons i ids)
    have d: "distinct ids" "set ids \<subseteq> {..<length (ps[i := off])}" "i \<notin> set ids" "i < length ps" using Cons.prems by auto
    note IH = Cons.IH [OF d(1,2), of "Suc off"]
    show ?case
    proof (intro conjI allI impI)
      fix k assume "k < length (i # ids)"
      then show "fold (\<lambda>(pos, actual) ps. ps[actual := pos]) (enumerate off (i # ids)) ps ! ((i # ids) ! k) = off + k"
        using IH d(3,4) by (cases k) simp_all
    next
      fix j assume "j \<notin> set (i # ids)"
      then show "fold (\<lambda>(pos, actual) ps. ps[actual := pos]) (enumerate off (i # ids)) ps ! j = ps ! j"
        using IH by simp
    qed
  qed simp
  ultimately show ?thesis using assms by (simp add: positions_def)
qed

lemma max_similarity_direct:
  assumes d: "distinct ids" "set ids \<subseteq> {..<n}" and i: "i \<in> set ids" and sel: "set selected \<subseteq> set ids - {i}"
  shows "max_similarity (similarity_matrix features ids G user_graph p) (positions n ids) (max 1 (diversity_window p)) selected i =
    redundancy_seen features G user_graph p selected i"
proof -
  let ?S = "similarity_matrix features ids G user_graph p" and ?P = "positions n ids"
  have cell: "?S ! (?P ! i) ! (?P ! s) = pair_redundancy (features ! i) (features ! s) G user_graph p" if "s \<in> set ids - {i}" for s
  proof -
    obtain k where k: "k < length ids" "ids ! k = i" using i unfolding in_set_conv_nth by blast
    have s: "s \<in> set ids" using that by blast
    obtain l where l: "l < length ids" "ids ! l = s" using s unfolding in_set_conv_nth by blast
    note kl = k l
    then have "?P ! i = k" "?P ! s = l" using positions_nth [OF d] by auto
    moreover have "k \<noteq> l" using kl that by auto
    ultimately show ?thesis using kl by (simp add: similarity_matrix_def)
  qed
  have "set xs \<subseteq> set ids - {i} \<Longrightarrow>
      foldl (\<lambda>m s. let v = ?S ! (?P ! i) ! (?P ! s) in if v > m then v else m) m xs =
      foldl max m (map (\<lambda>s. pair_redundancy (features ! i) (features ! s) G user_graph p) xs)" for m xs
    by (induction xs arbitrary: m) (auto simp: cell max_def Let_def)
  moreover have "set (take (max 1 (diversity_window p)) (rev selected)) \<subseteq> set ids - {i}"
    using sel set_take_subset by fastforce
  ultimately show ?thesis unfolding max_similarity_def redundancy_seen_def by blast
qed

lemma adjusted_direct:
  assumes "distinct ids" "set ids \<subseteq> {..<n}" "i \<in> set ids" "set selected \<subseteq> set ids - {i}"
  shows "adjusted entries (similarity_matrix features ids G user_graph p) (positions n ids) scale p selected i =
    mmr_value entries features G user_graph p scale selected i"
  unfolding adjusted_def mmr_value_def Let_def max_similarity_direct [OF assms] ..

section \<open>The values stay in range\<close>

lemma relevance_scale_bounds:
  "0 < relevance_scale entries ids"
  "i \<in> set ids \<Longrightarrow> - 1 \<le> fst (entries ! i) / relevance_scale entries ids"
proof -
  have le: "m \<le> foldl max m xs \<and> (\<forall>x \<in> set xs. x \<le> foldl max m xs)" for m and xs :: "f32 list"
  proof (induction xs arbitrary: m)
    case (Cons x xs)
    show ?case using Cons.IH [of "max m x"] by auto
  qed simp
  let ?s = "foldl max 0 (map (\<lambda>i. \<bar>fst (entries ! i)\<bar>) ids)"
  show pos: "0 < relevance_scale entries ids"
    by (auto simp: relevance_scale_def Let_def f32_EPSILON_def)
  assume "i \<in> set ids"
  then have "\<bar>fst (entries ! i)\<bar> \<le> ?s" using le [of 0 "map (\<lambda>i. \<bar>fst (entries ! i)\<bar>) ids"] by auto
  moreover have "?s \<le> relevance_scale entries ids"
    by (auto simp: relevance_scale_def Let_def f32_EPSILON_def)
  ultimately have "- relevance_scale entries ids \<le> fst (entries ! i)" by linarith
  then show "- 1 \<le> fst (entries ! i) / relevance_scale entries ids" using pos by (simp add: pos_le_divide_eq)
qed

lemma shaped_range:
  assumes "0 \<le> r" "r \<le> 1"
  shows "0 \<le> shaped e r" "shaped e r \<le> 1"
proof -
  have e: "0 < clamp (1 / 10) 5 e" by (simp add: clamp_def max_def)
  show "0 \<le> shaped e r" using assms by (simp add: shaped_def powf_nonneg)
  have "powf r (clamp (1 / 10) 5 e) \<le> powf 1 (clamp (1 / 10) 5 e)" using assms e by (intro powf_mono) auto
  also have "\<dots> = 1" by (simp add: powf_def)
  finally show "shaped e r \<le> 1" using assms by (simp add: shaped_def)
qed

lemma shaped_zero [simp]: "shaped e 0 = 0"
  by (auto simp: shaped_def powf_def clamp_def max_def)

lemma adjusted_above_min:
  assumes "i \<in> set ids"
  shows "f32_MIN < adjusted entries sim pos (relevance_scale entries ids) p selected i"
proof -
  let ?r = "clamp01 (max_similarity sim pos (max 1 (diversity_window p)) selected i / weight_norm p)"
  have "shaped (mmr_redundancy_exp p) ?r * clamp01 (diversity_max_penalty p) \<le> 1 * 1"
    by (intro mult_mono shaped_range clamp01_range) simp
  then have "- 2 \<le> adjusted entries sim pos (relevance_scale entries ids) p selected i"
    using relevance_scale_bounds(2) [OF assms, of entries] by (simp add: adjusted_def Let_def)
  then show ?thesis by (simp add: f32_MIN_def)
qed

section \<open>The greedy permutation\<close>

abbreviation by_score :: "(f32 \<times> int) list \<Rightarrow> nat list" where
  "by_score entries \<equiv> sort_key (\<lambda>i. - fst (entries ! i)) [0..<length entries]"

abbreviation head_size :: "(f32 \<times> int) list \<Rightarrow> nat \<Rightarrow> nat" where
  "head_size entries head_limit \<equiv> min head_limit (length entries)"

abbreviation head_value ::
  "(f32 \<times> int) list \<Rightarrow> DiversityFeatures list \<Rightarrow> TagRelationGraph \<Rightarrow> TagRelationGraph option \<Rightarrow> Priors \<Rightarrow> nat \<Rightarrow>
     nat list \<Rightarrow> nat \<Rightarrow> f32" where
  "head_value entries features G user_graph p head_limit \<equiv>
     mmr_value entries features G user_graph p
       (relevance_scale entries (take (head_size entries head_limit) (by_score entries)))"

lemma by_score_facts:
  "distinct (by_score entries)" "set (by_score entries) = {..<length entries}" "length (by_score entries) = length entries"
  "sorted (map (\<lambda>i. - fst (entries ! i)) (by_score entries))"
  by auto

lemma greedy_short: "length out \<le> 1 \<Longrightarrow> greedy adj tid sel out"
  by (auto simp: greedy_def le_Suc_eq less_Suc_eq_le simp del: less_eq_prod_simp)

lemma greedy_transfer:
  assumes "greedy adj tid [] out" "distinct out"
    and "\<And>sel i. i \<in> set out \<Longrightarrow> set sel \<subseteq> set out - {i} \<Longrightarrow> adj sel i = adj' sel i"
  shows "greedy adj' tid [] out"
  unfolding greedy_def
proof (intro allI impI)
  fix k m assume km: "k \<le> m" "m < length out"
  have fresh: "set (take k out) \<subseteq> set out - {out ! j}" if "k \<le> j" "j < length out" for j
    using that assms(2) set_take_subset [of k out] by (auto simp: in_set_conv_nth nth_eq_iff_index_eq)
  have "adj (take k out) (out ! m) = adj' (take k out) (out ! m)" "adj (take k out) (out ! k) = adj' (take k out) (out ! k)"
    using km fresh by (intro assms(3); simp)+
  then show "rank_key (adj' ([] @ take k out)) tid (out ! m) \<le> rank_key (adj' ([] @ take k out)) tid (out ! k)"
    using assms(1) [unfolded greedy_def, rule_format, OF km] by (simp only: rank_key_def append_Nil)
qed

lemma diversify_indices_shape:
  "\<exists>out. diversify_indices entries features G user_graph p head_limit =
      out @ drop (head_size entries head_limit) (by_score entries) \<and>
    mset out = mset (take (head_size entries head_limit) (by_score entries)) \<and>
    greedy (head_value entries features G user_graph p head_limit) (\<lambda>i. snd (entries ! i)) [] out"
proof (cases "head_size entries head_limit \<le> 1")
  case True
  then show ?thesis
    by (intro exI [of _ "take (head_size entries head_limit) (by_score entries)"]) (auto simp: diversify_indices_def Let_def intro: greedy_short)
next
  case False
  let ?h = "head_size entries head_limit" and ?n = "length entries" and ?tid = "\<lambda>i. snd (entries ! i)"
  let ?ids = "take ?h (by_score entries)"
  let ?scale = "relevance_scale entries ?ids"
  let ?adj = "adjusted entries (similarity_matrix features ?ids G user_graph p) (positions ?n ?ids) ?scale p"
  have d: "distinct ?ids" "set ?ids \<subseteq> {..<?n}"
    using by_score_facts(1,2) [of entries] set_take_subset [of ?h "by_score entries"] by (auto intro: distinct_take)
  obtain out where out: "mmr_loop ?adj ?tid ?ids [] = [] @ out" "mset out = mset ?ids" "greedy ?adj ?tid [] out"
    using mmr_loop_spec [of ?ids ?adj ?tid "[]"] adjusted_above_min by blast
  have "set out = set ?ids" "distinct out" using out(2) d(1) by (metis set_mset_mset, metis mset_eq_imp_distinct_iff)
  then have "greedy (head_value entries features G user_graph p head_limit) ?tid [] out"
    using adjusted_direct [OF d] by (intro greedy_transfer [OF out(3)]) auto
  moreover have "diversify_indices entries features G user_graph p head_limit = out @ drop ?h (by_score entries)"
    using False out(1) by (auto simp: diversify_indices_def Let_def)
  ultimately show ?thesis using out(2) by blast
qed

lemma diversify_indices_mset: "mset (diversify_indices entries features G user_graph p head_limit) = mset [0..<length entries]"
proof -
  let ?h = "head_size entries head_limit"
  obtain out where out: "diversify_indices entries features G user_graph p head_limit = out @ drop ?h (by_score entries)"
      "mset out = mset (take ?h (by_score entries))"
    using diversify_indices_shape by blast
  have "mset (out @ drop ?h (by_score entries)) = mset (take ?h (by_score entries) @ drop ?h (by_score entries))"
    using out(2) by (simp only: mset_append)
  then show ?thesis by (simp add: out(1))
qed

definition sample_priors :: Priors where
  "sample_priors = (priors_default 0)\<lparr>diversity_w_artist := 1, diversity_max_penalty := 1 / 2\<rparr>"

definition sample_features :: "DiversityFeatures list" where
  "sample_features = map (\<lambda>k. \<lparr>ft_artist = [(k, None)], ft_character = [], ft_copyright = [], ft_species = [], ft_general = []\<rparr>) [7, 7, 8]"

definition sample_entries :: "(f32 \<times> int) list" where
  "sample_entries = [(29 / 10, 1), (3, 2), (28 / 10, 3)]"

text \<open>C29. The re-ranking is a permutation of the indices: the posts past the head limit keep their score
  order, the head holds the best scored ones, and at every step the post taken has the largest
  value (relevance less penalised redundancy against the window of posts taken before it) among
  those left, ties going to the lower post id. The value is that of the posts themselves: the
  cached matrix and positions do not show.\<close>

theorem diversify_is_greedy:
  "mset (diversify_indices entries features G user_graph p head_limit) = mset [0..<length entries] \<and>
   drop (head_size entries head_limit) (diversify_indices entries features G user_graph p head_limit) =
     drop (head_size entries head_limit) (by_score entries) \<and>
   greedy (head_value entries features G user_graph p head_limit) (\<lambda>i. snd (entries ! i)) []
     (take (head_size entries head_limit) (diversify_indices entries features G user_graph p head_limit))"
proof -
  let ?h = "head_size entries head_limit"
  obtain out where out: "diversify_indices entries features G user_graph p head_limit = out @ drop ?h (by_score entries)"
      "mset out = mset (take ?h (by_score entries))"
      "greedy (head_value entries features G user_graph p head_limit) (\<lambda>i. snd (entries ! i)) [] out"
    using diversify_indices_shape by blast
  have len: "length out = ?h" using mset_eq_length [OF out(2)] by simp
  show ?thesis by (intro conjI diversify_indices_mset) (simp_all add: out(1,3) len)
qed

text \<open>With no penalty configured the re-ranking leaves the whole list in descending score order.\<close>

lemma head_before_tail:
  assumes "i \<in> set (take h (by_score entries))" "j \<in> set (drop h (by_score entries))"
  shows "fst (entries ! j) \<le> fst (entries ! i)"
proof -
  have "sorted (map (\<lambda>i. - fst (entries ! i)) (take h (by_score entries) @ drop h (by_score entries)))"
    using by_score_facts(4) [of entries] by simp
  then show ?thesis using assms unfolding map_append sorted_append by fastforce
qed

lemma value_order:
  assumes "redundancy_seen features G user_graph p sel i = 0 \<or> diversity_max_penalty p \<le> 0"
    and "redundancy_seen features G user_graph p sel j = 0 \<or> diversity_max_penalty p \<le> 0"
    and "rank_key (head_value entries features G user_graph p head_limit sel) tid i
      \<le> rank_key (head_value entries features G user_graph p head_limit sel) tid j"
  shows "fst (entries ! i) \<le> fst (entries ! j)"
proof -
  let ?v = "head_value entries features G user_graph p head_limit sel"
  let ?s = "relevance_scale entries (take (head_size entries head_limit) (by_score entries))"
  have "?v x = fst (entries ! x) / ?s" if "redundancy_seen features G user_graph p sel x = 0 \<or> diversity_max_penalty p \<le> 0" for x
    using that by (auto simp: mmr_value_def clamp01_def)
  then have "fst (entries ! i) / ?s \<le> fst (entries ! j) / ?s" using assms by (auto simp: rank_key_def)
  then show ?thesis using relevance_scale_bounds(1) by (simp add: divide_le_cancel not_less_iff_gr_or_eq)
qed

theorem no_penalty_keeps_score_order:
  assumes "diversity_max_penalty p \<le> 0"
  shows "sorted_wrt (\<ge>) (map (\<lambda>i. fst (entries ! i)) (diversify_indices entries features G user_graph p head_limit))"
proof -
  let ?h = "head_size entries head_limit" and ?f = "\<lambda>i. fst (entries ! i)"
  obtain out where out: "diversify_indices entries features G user_graph p head_limit = out @ drop ?h (by_score entries)"
      "mset out = mset (take ?h (by_score entries))"
      "greedy (head_value entries features G user_graph p head_limit) (\<lambda>i. snd (entries ! i)) [] out"
    using diversify_indices_shape by blast
  have "?f (out ! m) \<le> ?f (out ! k)" if "k \<le> m" "m < length out" for k m
    using out(3) [unfolded greedy_def, rule_format, OF that] by (rule value_order [OF disjI2 [OF assms] disjI2 [OF assms]])
  then have head: "sorted_wrt (\<ge>) (map ?f out)" by (simp add: sorted_wrt_iff_nth_less)
  have tail: "sorted_wrt (\<ge>) (map ?f (drop ?h (by_score entries)))"
    using sorted_wrt_drop [OF by_score_facts(4) [of entries], of ?h] by (simp add: sorted_wrt_map drop_map)
  have "set out = set (take ?h (by_score entries))" using out(2) by (metis set_mset_mset)
  then have "\<forall>i \<in> set out. \<forall>j \<in> set (drop ?h (by_score entries)). ?f j \<le> ?f i"
    by (metis head_before_tail)
  then show ?thesis unfolding out(1) map_append sorted_wrt_append using head tail by auto
qed

theorem no_penalty_keeps_score_order_witness:
  "diversity_max_penalty (sample_priors\<lparr>diversity_max_penalty := 0\<rparr>) = 0 \<and>
   sorted_wrt (\<ge>) (map (\<lambda>i. fst (sample_entries ! i))
     (diversify_indices sample_entries sample_features empty_graph None (sample_priors\<lparr>diversity_max_penalty := 0\<rparr>) 3))"
  by (intro conjI no_penalty_keeps_score_order) simp_all

text \<open>Whatever the penalty, the post with the best score stays first.\<close>

theorem best_post_stays_first:
  assumes "i < length entries"
  shows "fst (entries ! i) \<le> fst (entries ! hd (diversify_indices entries features G user_graph p head_limit))"
proof -
  let ?h = "head_size entries head_limit" and ?f = "\<lambda>i. fst (entries ! i)"
  obtain out where out: "diversify_indices entries features G user_graph p head_limit = out @ drop ?h (by_score entries)"
      "mset out = mset (take ?h (by_score entries))"
      "greedy (head_value entries features G user_graph p head_limit) (\<lambda>i. snd (entries ! i)) [] out"
    using diversify_indices_shape by blast
  have so: "set out = set (take ?h (by_score entries))" using out(2) by (metis set_mset_mset)
  have i: "i \<in> set (take ?h (by_score entries)) \<or> i \<in> set (drop ?h (by_score entries))"
    using assms by (metis Un_iff append_take_drop_id by_score_facts(2) lessThan_iff set_append)
  show ?thesis
  proof (cases "out = []")
    case True
    then have "?h = 0" using mset_eq_length [OF out(2)] assms by auto
    have "by_score entries \<noteq> []" using i by auto
    then have "hd (by_score entries) # tl (by_score entries) = by_score entries" by (rule list.collapse)
    then have "\<forall>j \<in> set (by_score entries). ?f j \<le> ?f (hd (by_score entries))"
      using by_score_facts(4) [of entries] by (metis (no_types, lifting) list.simps(9) neg_le_iff_le order_refl set_ConsD sorted_simps(2) image_eqI list.set_map)
    then show ?thesis using i \<open>?h = 0\<close> True by (simp add: out(1))
  next
    case False
    have seen: "redundancy_seen features G user_graph p [] x = 0" for x by (simp add: redundancy_seen_def)
    have "?f (out ! m) \<le> ?f (out ! 0)" if "m < length out" for m
      using out(3) [unfolded greedy_def, rule_format, OF le0 that]
      by (intro value_order [OF disjI1 [OF seen] disjI1 [OF seen]]) simp
    then have best: "\<forall>j \<in> set out. ?f j \<le> ?f (hd out)" using False by (metis hd_conv_nth in_set_conv_nth)
    have "hd out \<in> set (take ?h (by_score entries))" using False so by (metis hd_in_set)
    then have "?f i \<le> ?f (hd out)" using i best so head_before_tail by metis
    then show ?thesis using False by (simp add: out(1))
  qed
qed

theorem best_post_stays_first_witness:
  "fst (sample_entries ! 1) \<le>
     fst (sample_entries ! hd (diversify_indices sample_entries sample_features empty_graph None sample_priors 3))"
  by (rule best_post_stays_first) (simp add: sample_entries_def)

section \<open>The weights count by their ratio\<close>

abbreviation weight_sum :: "Priors \<Rightarrow> f32" where
  "weight_sum p \<equiv> \<bar>diversity_w_artist p\<bar> + \<bar>diversity_w_character p\<bar> + \<bar>diversity_w_copyright p\<bar>
     + \<bar>diversity_w_species p\<bar> + \<bar>diversity_w_general p\<bar>"

definition scale_weights :: "f32 \<Rightarrow> Priors \<Rightarrow> Priors" where
  "scale_weights c p = p\<lparr>diversity_w_artist := c * diversity_w_artist p, diversity_w_character := c * diversity_w_character p,
     diversity_w_copyright := c * diversity_w_copyright p, diversity_w_species := c * diversity_w_species p,
     diversity_w_general := c * diversity_w_general p\<rparr>"

lemma pair_redundancy_scaled: "pair_redundancy a b G user_graph (scale_weights c p) = c * pair_redundancy a b G user_graph p"
  by (simp add: pair_redundancy_def scale_weights_def Let_def algebra_simps)

lemma redundancy_seen_scaled:
  assumes "0 < c"
  shows "redundancy_seen features G user_graph (scale_weights c p) selected i = c * redundancy_seen features G user_graph p selected i"
proof -
  have "foldl max (c * m) (map (\<lambda>s. c * f s) xs) = c * foldl max m (map f xs)" for m f and xs :: "nat list"
  proof (induction xs arbitrary: m)
    case (Cons x xs)
    have "max (c * m) (c * f x) = c * max m (f x)" using assms by (auto simp: max_def)
    then show ?case using Cons.IH [of "max m (f x)"] by simp
  qed simp
  from this [of 0] show ?thesis
    by (simp add: redundancy_seen_def pair_redundancy_scaled) (simp add: scale_weights_def)
qed

lemma weight_norm_scaled:
  assumes "0 < c" "f32_EPSILON \<le> weight_sum p" "f32_EPSILON \<le> c * weight_sum p"
  shows "weight_norm (scale_weights c p) = c * weight_norm p"
proof -
  have "weight_sum (scale_weights c p) = c * weight_sum p"
    using assms(1) by (simp add: scale_weights_def abs_mult algebra_simps)
  then show ?thesis using assms(2,3) by (simp add: weight_norm_def max_def)
qed

lemma mmr_value_scaled:
  assumes "0 < c" "f32_EPSILON \<le> weight_sum p" "f32_EPSILON \<le> c * weight_sum p"
  shows "mmr_value entries features G user_graph (scale_weights c p) scale = mmr_value entries features G user_graph p scale"
  using assms(1)
  by (intro ext)
    (simp add: mmr_value_def redundancy_seen_scaled weight_norm_scaled [OF assms], simp add: scale_weights_def)

lemma best_of_cong:
  "(\<And>i. i \<in> set is \<Longrightarrow> adj i = adj' i) \<Longrightarrow> best_of adj tid pos is b = best_of adj' tid pos is b"
  by (induction adj tid pos "is" b rule: best_of.induct) simp_all

lemma mmr_loop_cong:
  assumes "\<And>sel i. i \<in> U \<Longrightarrow> set sel \<subseteq> U - {i} \<Longrightarrow> adj sel i = adj' sel i"
    and "distinct (selected @ available)" "set (selected @ available) \<subseteq> U"
  shows "mmr_loop adj tid available selected = mmr_loop adj' tid available selected"
  using assms(2,3)
proof (induction "length available" arbitrary: available selected)
  case 0
  then show ?case by (simp add: mmr_loop.simps)
next
  case (Suc n)
  then have ne: "available \<noteq> []" by auto
  have eq: "adj selected i = adj' selected i" if "i \<in> set available" for i
    using that Suc.prems by (intro assms(1)) auto
  let ?b = "\<lambda>f. best_of f tid 0 available (0, f32_MIN, i64_MAX)"
  have same: "?b (adj selected) = ?b (adj' selected)" using eq by (rule best_of_cong)
  let ?x = "available ! ?b (adj' selected)" and ?rest = "butlast (available[?b (adj' selected) := last available])"
  have "mset available = {#?x#} + mset ?rest" by (rule mset_swap_remove [OF best_of_first(1) [OF ne]])
  then have ms: "mset ((selected @ [?x]) @ ?rest) = mset (selected @ available)" by simp
  have "distinct ((selected @ [?x]) @ ?rest)" "set ((selected @ [?x]) @ ?rest) \<subseteq> U"
    using mset_eq_imp_distinct_iff [OF ms] mset_eq_setD [OF ms] Suc.prems by (blast, metis)
  moreover have "n = length ?rest" using Suc(2) by simp
  ultimately have "mmr_loop adj tid ?rest (selected @ [?x]) = mmr_loop adj' tid ?rest (selected @ [?x])"
    using Suc(1) by blast
  then show ?case using ne by (subst (1 2) mmr_loop.simps) (simp add: swap_remove_def Let_def same)
qed

text \<open>Multiplying all five weights by a positive number changes no result, as long as their sum stays
  above the floor of the norm.\<close>

theorem weights_count_by_ratio:
  assumes "0 < c" "f32_EPSILON \<le> weight_sum p" "f32_EPSILON \<le> c * weight_sum p"
  shows "diversify_indices entries features G user_graph (scale_weights c p) head_limit =
    diversify_indices entries features G user_graph p head_limit"
proof (cases "head_size entries head_limit \<le> 1")
  case True
  then show ?thesis by (auto simp: diversify_indices_def Let_def)
next
  case False
  let ?n = "length entries" and ?ids = "take (head_size entries head_limit) (by_score entries)"
  let ?adj = "\<lambda>q. adjusted entries (similarity_matrix features ?ids G user_graph q) (positions ?n ?ids) (relevance_scale entries ?ids) q"
  have d: "distinct ?ids" "set ?ids \<subseteq> {..<?n}"
    using by_score_facts(1,2) [of entries] set_take_subset [of "head_size entries head_limit" "by_score entries"]
    by (auto intro: distinct_take)
  have "mmr_loop (?adj (scale_weights c p)) (\<lambda>i. snd (entries ! i)) ?ids [] = mmr_loop (?adj p) (\<lambda>i. snd (entries ! i)) ?ids []"
    using adjusted_direct [OF d] mmr_value_scaled [OF assms] d(1) by (intro mmr_loop_cong [of "set ?ids"]) auto
  then show ?thesis using False by (auto simp: diversify_indices_def Let_def)
qed

theorem weights_count_by_ratio_witness:
  "diversify_indices sample_entries sample_features empty_graph None (scale_weights 2 sample_priors) 3 =
     diversify_indices sample_entries sample_features empty_graph None sample_priors 3"
  by (rule weights_count_by_ratio) (simp_all add: sample_priors_def priors_default_def f32_EPSILON_def)

end
