(* ===== verification/Diversify_Quota.thy ===== *)
theory Diversify_Quota
  imports Diversify_Mmr
begin

text \<open>
  The quota of distinct artists and characters: one pass permutes the list, keeps every key of the
  window and reaches the quota whenever the list holds enough keys; the second pass may undo what
  the first one reached. The whole re-rank of the recommendations loses no post.
\<close>

section \<open>One pass\<close>

definition keys_at :: "(ScoredPost \<Rightarrow> ustr option) \<Rightarrow> ScoredPost list \<Rightarrow> nat set \<Rightarrow> ustr set" where
  "keys_at key xs I = {k. \<exists>i \<in> I. key (xs ! i) = Some k}"

abbreviation window_keys :: "(ScoredPost \<Rightarrow> ustr option) \<Rightarrow> nat \<Rightarrow> ScoredPost list \<Rightarrow> ustr set" where
  "window_keys key n xs \<equiv> keys_at key xs {..<n}"

lemma keys_at_simps [simp]:
  "keys_at key xs {} = {}"
  "keys_at key xs (insert i I) = (case key (xs ! i) of None \<Rightarrow> keys_at key xs I | Some k \<Rightarrow> insert k (keys_at key xs I))"
  "keys_at key xs (I \<union> J) = keys_at key xs I \<union> keys_at key xs J"
  by (auto simp: keys_at_def split: option.splits)

lemma keys_at_cong: "(\<And>i. i \<in> I \<Longrightarrow> xs ! i = ys ! i) \<Longrightarrow> keys_at key xs I = keys_at key ys I"
  by (auto simp: keys_at_def)

lemma finite_keys_at: "finite I \<Longrightarrow> finite (keys_at key xs I)"
  by (induction I rule: finite_induct) (auto split: option.splits)

lemma keys_at_all: "keys_at key xs {..<length xs} = {k. \<exists>x \<in> set xs. key x = Some k}"
  unfolding keys_at_def by (metis (no_types, lifting) in_set_conv_nth lessThan_iff)

text \<open>The keys collected and the redundant slots of the first \<open>n\<close> positions.\<close>

definition scanned :: "(ScoredPost \<Rightarrow> ustr option) \<Rightarrow> nat \<Rightarrow> ScoredPost list \<Rightarrow> ustr list \<Rightarrow> nat list \<Rightarrow> bool" where
  "scanned key n xs seen redundant \<longleftrightarrow>
     distinct seen \<and> distinct redundant \<and> set redundant \<subseteq> {..<n} \<and> length seen + length redundant = n \<and>
     set seen = keys_at key xs ({..<n} - set redundant) \<and> keys_at key xs (set redundant) \<subseteq> set seen"

lemma scanned_keys:
  assumes "scanned key n xs seen redundant"
  shows "set seen = window_keys key n xs" "length seen = card (window_keys key n xs)"
proof -
  have "{..<n} = ({..<n} - set redundant) \<union> set redundant" using assms by (auto simp: scanned_def)
  then have "window_keys key n xs = keys_at key xs (({..<n} - set redundant) \<union> set redundant)" by (rule arg_cong)
  then show "set seen = window_keys key n xs" using assms unfolding scanned_def keys_at_simps by blast
  then show "length seen = card (window_keys key n xs)" using assms distinct_card unfolding scanned_def by metis
qed

lemma scanned_step:
  assumes "scanned key n xs seen redundant"
  shows "key (xs ! n) = Some k \<Longrightarrow> k \<notin> set seen \<Longrightarrow> scanned key (Suc n) xs (seen @ [k]) redundant"
    and "(\<forall>k. key (xs ! n) = Some k \<longrightarrow> k \<in> set seen) \<Longrightarrow> scanned key (Suc n) xs seen (n # redundant)"
proof -
  have n: "n \<notin> set redundant" using assms by (auto simp: scanned_def)
  have eq: "{..<Suc n} - set redundant = insert n ({..<n} - set redundant)"
    "{..<Suc n} - set (n # redundant) = {..<n} - set redundant" using n by auto
  show "scanned key (Suc n) xs (seen @ [k]) redundant" if "key (xs ! n) = Some k" "k \<notin> set seen"
    using assms that unfolding scanned_def eq by auto
  show "scanned key (Suc n) xs seen (n # redundant)" if "\<forall>k. key (xs ! n) = Some k \<longrightarrow> k \<in> set seen"
    using assms that n unfolding scanned_def eq by (auto split: option.splits)
qed

lemma scan_window_scanned:
  assumes "scanned key n xs seen redundant" "n + m \<le> length xs"
  shows "case scan_window key n (take m (drop n xs)) seen redundant of (seen', redundant') \<Rightarrow>
    scanned key (n + m) xs seen' redundant'"
  using assms
proof (induction m arbitrary: n seen redundant)
  case (Suc m)
  have eq: "take (Suc m) (drop n xs) = xs ! n # take m (drop (Suc n) xs)"
    using Suc.prems(2) by (simp add: Cons_nth_drop_Suc [symmetric])
  show ?case
  proof (cases "\<exists>k. key (xs ! n) = Some k \<and> k \<notin> set seen")
    case True
    then obtain k where k: "key (xs ! n) = Some k" "k \<notin> set seen" by blast
    show ?thesis using Suc.IH [OF scanned_step(1) [OF Suc.prems(1) k]] Suc.prems(2) k by (simp add: eq)
  next
    case False
    then have "scan_window key n (take (Suc m) (drop n xs)) seen redundant =
        scan_window key (Suc n) (take m (drop (Suc n) xs)) seen (n # redundant)"
      by (auto simp: eq split: option.splits)
    then show ?thesis using Suc.IH [OF scanned_step(2) [OF Suc.prems(1)]] Suc.prems(2) False by simp
  qed
qed simp

lemma scanned_swap:
  assumes sc: "scanned key n xs seen (slot # rest)" and j: "n \<le> j" "j < length xs" and k: "key (xs ! j) = Some k" "k \<notin> set seen"
  shows "scanned key n (swap slot j xs) (seen @ [k]) rest"
proof -
  have slot: "slot < n" "slot \<notin> set rest" and rest: "set rest \<subseteq> {..<n}" using sc by (auto simp: scanned_def)
  have same: "swap slot j xs ! i = xs ! i" if "i < n" "i \<noteq> slot" for i
    using that j slot by (simp add: swap_def)
  have new: "swap slot j xs ! slot = xs ! j" using j slot by (simp add: swap_def nth_list_update)
  have "{..<n} - set rest = insert slot ({..<n} - set (slot # rest))" using slot by auto
  then have "keys_at key (swap slot j xs) ({..<n} - set rest) =
      insert k (keys_at key (swap slot j xs) ({..<n} - set (slot # rest)))" by (simp add: new k)
  also have "keys_at key (swap slot j xs) ({..<n} - set (slot # rest)) = keys_at key xs ({..<n} - set (slot # rest))"
    using same by (intro keys_at_cong) auto
  finally have fresh: "set (seen @ [k]) = keys_at key (swap slot j xs) ({..<n} - set rest)" using sc by (auto simp: scanned_def)
  have "keys_at key (swap slot j xs) (set rest) = keys_at key xs (set rest)" using same slot rest by (intro keys_at_cong) auto
  moreover have "keys_at key xs (set rest) \<subseteq> set seen" using sc by (auto simp: scanned_def split: option.splits)
  ultimately show ?thesis using sc k(2) fresh unfolding scanned_def by auto
qed

text \<open>What the promotions have reached: \<open>out\<close> holds the same posts, keeps every key of the window and
  has as many keys there as were asked for, or as the window or the list can hold.\<close>

definition reaches :: "(ScoredPost \<Rightarrow> ustr option) \<Rightarrow> nat \<Rightarrow> nat \<Rightarrow> ScoredPost list \<Rightarrow> ScoredPost list \<Rightarrow> bool" where
  "reaches key n m xs out \<longleftrightarrow>
     mset out = mset xs \<and> window_keys key n xs \<subseteq> window_keys key n out \<and>
     min m (min n (card (keys_at key xs {..<length xs}))) \<le> card (window_keys key n out)"

lemma reaches_same:
  assumes "m \<le> card (window_keys key n xs) \<or> n \<le> card (window_keys key n xs) \<or>
    keys_at key xs {..<length xs} \<subseteq> window_keys key n xs"
  shows "reaches key n m xs xs"
  using assms card_mono [OF finite_keys_at [of "{..<n}" key xs], of "keys_at key xs {..<length xs}"]
  by (auto simp: reaches_def)

lemma find_up_first:
  assumes "find_up p a b = Some i" "a \<le> j" "j < i"
  shows "\<not> p j"
proof -
  obtain k where k: "k < b - a" "i = a + k" "\<forall>l < k. \<not> p ([a..<b] ! l)"
    using assms(1) by (auto simp: find_up_def find_Some_iff)
  have "j - a < k" using k(2) assms by linarith
  with k(3) have "\<not> p ([a..<b] ! (j - a))" by blast
  then show ?thesis using k(1,2) assms by simp
qed

lemma promote_keys_reaches:
  assumes "scanned key n xs seen redundant" "n \<le> nb" "nb \<le> length xs" "keys_at key xs {n..<nb} \<subseteq> set seen"
  shows "reaches key n m xs (promote_keys key m xs seen redundant nb)"
  using assms
proof (induction redundant arbitrary: xs seen nb)
  case Nil
  have "length seen = n" using Nil.prems(1) by (simp add: scanned_def)
  then have "n \<le> card (window_keys key n xs)" using scanned_keys(2) [OF Nil.prems(1)] by simp
  moreover have "promote_keys key m xs seen [] nb = xs" by (subst promote_keys.simps) (simp split: option.splits)
  ultimately show ?case by (simp add: reaches_same)
next
  case (Cons slot rest)
  note keys = scanned_keys [OF Cons.prems(1)]
  let ?p = "\<lambda>j. case key (xs ! j) of None \<Rightarrow> False | Some k \<Rightarrow> k \<notin> set seen"
  show ?case
  proof (cases "length seen < m \<and> find_up ?p nb (length xs) \<noteq> None")
    case False
    then have pk: "promote_keys key m xs seen (slot # rest) nb = xs" by (subst promote_keys.simps) auto
    have "keys_at key xs {..<length xs} \<subseteq> window_keys key n xs" if "find_up ?p nb (length xs) = None"
    proof -
      have "keys_at key xs {nb..<length xs} \<subseteq> set seen"
      proof
        fix k assume "k \<in> keys_at key xs {nb..<length xs}"
        then obtain i where i: "nb \<le> i" "i < length xs" "key (xs ! i) = Some k" by (auto simp: keys_at_def)
        then show "k \<in> set seen" using that [unfolded find_up_None, rule_format, OF i(1,2)] by simp
      qed
      moreover have "{..<length xs} = ({..<n} \<union> {n..<nb}) \<union> {nb..<length xs}" using Cons.prems(2,3) by auto
      then have "keys_at key xs {..<length xs} = (window_keys key n xs \<union> keys_at key xs {n..<nb}) \<union> keys_at key xs {nb..<length xs}"
        by (simp only: keys_at_simps(3))
      ultimately show ?thesis using Cons.prems(4) keys(1) by blast
    qed
    moreover have "m \<le> card (window_keys key n xs) \<or> find_up ?p nb (length xs) = None"
      using False keys(2) by (metis not_less)
    ultimately have "m \<le> card (window_keys key n xs) \<or> keys_at key xs {..<length xs} \<subseteq> window_keys key n xs"
      by (elim disj_forward)
    then have "reaches key n m xs xs" by (intro reaches_same) (elim disj_forward disjI2)
    then show ?thesis unfolding pk .
  next
    case True
    then obtain j where j: "find_up ?p nb (length xs) = Some j" by auto
    then have jr: "nb \<le> j" "j < length xs" "n \<le> j" using find_up_Some [OF j] Cons.prems(2) by auto
    obtain k where k: "key (xs ! j) = Some k" "k \<notin> set seen" using find_up_Some [OF j] by (auto split: option.splits)
    have slot: "slot < n" "slot < length xs" using Cons.prems(1) jr by (auto simp: scanned_def)
    let ?ys = "swap slot j xs"
    have new: "?ys ! slot = xs ! j" using jr slot by (simp add: swap_def nth_list_update)
    have eq: "promote_keys key m xs seen (slot # rest) nb = promote_keys key m ?ys (seen @ [k]) rest (j + 1)"
      using True j k by (subst promote_keys.simps) (simp add: new Let_def)
    have sc: "scanned key n ?ys (seen @ [k]) rest" using scanned_swap [OF Cons.prems(1) jr(3,2) k] .
    have "keys_at key ?ys {n..<j} = keys_at key xs {n..<j}" using slot jr by (intro keys_at_cong) (auto simp: swap_def)
    moreover have "keys_at key xs {nb..<j} \<subseteq> set seen"
    proof
      fix k' assume "k' \<in> keys_at key xs {nb..<j}"
      then obtain i where i: "nb \<le> i" "i < j" "key (xs ! i) = Some k'" by (auto simp: keys_at_def)
      then show "k' \<in> set seen" using find_up_first [OF j i(1,2)] by simp
    qed
    moreover have "{n..<j} = {n..<nb} \<union> {nb..<j}" using jr Cons.prems(2) by auto
    ultimately have below: "keys_at key ?ys {n..<j} \<subseteq> set seen" using Cons.prems(4) by (simp only: keys_at_simps(3) Un_least)
    have "?ys ! j = xs ! slot" using jr slot by (simp add: swap_def)
    then have "keys_at key ?ys {j} \<subseteq> set seen" using Cons.prems(1) by (auto simp: scanned_def split: option.splits)
    moreover have "{n..<j + 1} = {n..<j} \<union> {j}" using jr by auto
    ultimately have "keys_at key ?ys {n..<j + 1} \<subseteq> set (seen @ [k])" using below by (simp only: keys_at_simps(3)) auto
    then have ih: "reaches key n m ?ys (promote_keys key m ?ys (seen @ [k]) rest (j + 1))"
      using jr by (intro Cons.IH [OF sc]) auto
    have ms: "mset ?ys = mset xs" using slot jr by simp
    have all: "keys_at key ?ys {..<length ?ys} = keys_at key xs {..<length xs}"
      unfolding keys_at_all using mset_eq_setD [OF ms] by simp
    have grow: "window_keys key n xs \<subseteq> window_keys key n ?ys" using scanned_keys(1) [OF sc] keys(1) by auto
    show ?thesis using ih grow unfolding eq reaches_def ms all by blast
  qed
qed

lemma enforce_group_quota_reaches:
  assumes "n \<le> length xs"
  shows "reaches key n m xs (enforce_group_quota n m key xs)"
proof -
  obtain seen redundant where sw: "scan_window key 0 (take n xs) [] [] = (seen, redundant)" by (cases "scan_window key 0 (take n xs) [] []")
  have "scanned key 0 xs [] []" by (simp add: scanned_def)
  from scan_window_scanned [OF this, of n] have sc: "scanned key n xs seen redundant" using assms sw by simp
  show ?thesis
  proof (cases "m \<le> length seen")
    case True
    then show ?thesis using sw scanned_keys(2) [OF sc] by (simp add: enforce_group_quota_def reaches_same)
  next
    case False
    then show ?thesis using sw promote_keys_reaches [OF sc le_refl assms] by (simp add: enforce_group_quota_def)
  qed
qed

text \<open>One pass of the quota only permutes the list, never loses a key from the window, and leaves
  there as many distinct keys as were asked for whenever the whole list and the window can hold
  that many; a window that meets the quota is left alone.\<close>

theorem quota_reached:
  assumes "n \<le> length xs"
  shows "mset (enforce_group_quota n m key xs) = mset xs \<and>
    window_keys key n xs \<subseteq> window_keys key n (enforce_group_quota n m key xs) \<and>
    min m (min n (card {k. \<exists>x \<in> set xs. key x = Some k})) \<le> card (window_keys key n (enforce_group_quota n m key xs)) \<and>
    (m \<le> card (window_keys key n xs) \<longrightarrow> enforce_group_quota n m key xs = xs)"
proof -
  obtain seen redundant where sw: "scan_window key 0 (take n xs) [] [] = (seen, redundant)" by (cases "scan_window key 0 (take n xs) [] []")
  have "scanned key 0 xs [] []" by (simp add: scanned_def)
  from scan_window_scanned [OF this, of n] have sc: "scanned key n xs seen redundant" using assms sw by simp
  have "m \<le> card (window_keys key n xs) \<longrightarrow> enforce_group_quota n m key xs = xs"
    using sw scanned_keys(2) [OF sc] by (simp add: enforce_group_quota_def)
  then show ?thesis using enforce_group_quota_reaches [OF assms, of key m] unfolding reaches_def keys_at_all by blast
qed

definition quota_post :: "int \<Rightarrow> ustr list \<Rightarrow> ustr list \<Rightarrow> ScoredPost" where
  "quota_post i as cs = sample_scored ((sample_post i 0 as)\<lparr>tags := Tags_default\<lparr>artist := as, character := cs\<rparr>\<rparr>) 0"

lemma first_key_quota_post [simp]:
  "first_key artist (quota_post i as cs) = (case as of [] \<Rightarrow> None | t # _ \<Rightarrow> Some (to_ascii_lowercase t))"
  "first_key character (quota_post i as cs) = (case cs of [] \<Rightarrow> None | t # _ \<Rightarrow> Some (to_ascii_lowercase t))"
  by (simp_all add: first_key_def quota_post_def sample_scored_def split: list.splits)

theorem quota_reached_witness:
  "window_keys (first_key artist) 2
     (enforce_group_quota 2 2 (first_key artist) [quota_post 1 [[97]] [], quota_post 2 [[65]] [], quota_post 3 [[98]] []]) = {[97], [98]}"
proof -
  let ?xs = "[quota_post 1 [[97]] [], quota_post 2 [[65]] [], quota_post 3 [[98]] []]"
  let ?W = "\<lambda>xs. window_keys (first_key artist) 2 xs"
  have lower: "to_ascii_lowercase [97] = [97]" "to_ascii_lowercase [65] = [97]" "to_ascii_lowercase [98] = [98]"
    by (simp_all add: to_ascii_lowercase_def lower_char_def is_ascii_uppercase_def)
  have all: "{k. \<exists>x \<in> set ?xs. first_key artist x = Some k} = {[97], [98]}" using lower by auto
  have q: "mset (enforce_group_quota 2 2 (first_key artist) ?xs) = mset ?xs"
    "2 \<le> card (?W (enforce_group_quota 2 2 (first_key artist) ?xs))"
    using quota_reached [of 2 ?xs 2 "first_key artist", unfolded all] by simp_all
  have "?W (enforce_group_quota 2 2 (first_key artist) ?xs) \<subseteq>
      {k. \<exists>x \<in> set (enforce_group_quota 2 2 (first_key artist) ?xs). first_key artist x = Some k}"
    using mset_eq_length [OF q(1)] unfolding keys_at_all [symmetric] by (auto simp: keys_at_def)
  then have "?W (enforce_group_quota 2 2 (first_key artist) ?xs) \<subseteq> {[97], [98]}"
    unfolding mset_eq_setD [OF q(1)] all .
  then show ?thesis using q(2) by (intro card_seteq) simp_all
qed

section \<open>Both passes\<close>

text \<open>The character pass treats the slot the artist pass has just filled as its first victim: on a
  list with two artists the window ends with one, though both quotas could be met.\<close>

definition one_artist_demo :: "ScoredPost list" where
  "one_artist_demo = replicate 20 (quota_post 1 [[97]] []) @ [quota_post 2 [[98]] [], quota_post 3 [[97]] [[99]]]"

lemma scan_window_replicate:
  assumes "key x = None \<or> (\<exists>k. key x = Some k \<and> k \<in> set seen)"
  shows "scan_window key i (replicate n x @ ys) seen red = scan_window key (i + n) ys seen (rev [i..<i + n] @ red)"
proof (induction n arbitrary: i red)
  case (Suc n)
  have "[i..<i + Suc n] = i # [Suc i..<Suc i + n]" by (simp add: upt_conv_Cons)
  then show ?case using Suc [of "Suc i" "i # red"] assms by (auto split: option.splits)
qed simp

theorem character_pass_undoes_artists:
  "window_keys (first_key artist) 20 (enforce_group_quota 20 MIN_ARTISTS (first_key artist) one_artist_demo) = {[97], [98]} \<and>
   window_keys (first_key artist) 20 (enforce_diversity_quota one_artist_demo) = {[97]}"
proof -
  let ?a = "quota_post 1 [[97]] []" and ?b = "quota_post 2 [[98]] []" and ?c = "quota_post 3 [[97]] [[99]]"
  have lower: "lower_char 97 = 97" "lower_char 99 = 99" "lower_char 98 = 98"
    by (simp_all add: lower_char_def is_ascii_uppercase_def)
  note scan_same = scan_window_replicate
  let ?after = "replicate 19 ?a @ [?b, ?a, ?c]"
  have demo: "one_artist_demo = ?a # replicate 19 ?a @ [?b, ?c]" by (simp add: one_artist_demo_def numeral_eq_Suc)
  have "scan_window (first_key artist) 0 (take 20 one_artist_demo) [] [] = ([[97]], rev [1..<20])"
    using scan_same [of "first_key artist" ?a "[[97]]" 1 19 "[]" "[]"] by (simp add: demo lower)
  moreover have "rev [1..<20::nat] = 19 # rev [1..<19]" by (simp add: numeral_eq_Suc)
  moreover have "find_up (\<lambda>j. case first_key artist (one_artist_demo ! j) of None \<Rightarrow> False | Some k \<Rightarrow> k \<notin> set [[97]]) 20 22 = Some 20"
    by (simp add: find_up_def one_artist_demo_def upt_rec nth_append lower)
  moreover have "swap 19 20 one_artist_demo = ?after"
    by (simp add: swap_def one_artist_demo_def numeral_eq_Suc)
  ultimately have first: "enforce_group_quota 20 MIN_ARTISTS (first_key artist) one_artist_demo = ?after"
    by (simp add: enforce_group_quota_def MIN_ARTISTS_def promote_keys.simps one_artist_demo_def nth_append lower)
  have "scan_window (first_key character) 0 (take 20 ?after) [] [] = ([], rev [0..<20])"
    using scan_same [of "first_key character" ?a "[]" 0 19 "[?b]" "[]"] by (simp add: numeral_eq_Suc)
  moreover have "rev [0..<20::nat] = 19 # rev [0..<19]" by (simp add: numeral_eq_Suc)
  moreover have "find_up (\<lambda>j. case first_key character (?after ! j) of None \<Rightarrow> False | Some k \<Rightarrow> k \<notin> set []) 20 22 = Some 21"
    by (simp add: find_up_def upt_rec nth_append lower)
  moreover have "swap 19 21 ?after = replicate 19 ?a @ [?c, ?a, ?b]" by (simp add: swap_def numeral_eq_Suc)
  moreover have "find_up p 22 22 = None" for p by (simp add: find_up_def)
  ultimately have second: "enforce_group_quota 20 MIN_CHARACTERS (first_key character) ?after = replicate 19 ?a @ [?c, ?a, ?b]"
    by (simp add: enforce_group_quota_def MIN_CHARACTERS_def promote_keys.simps nth_append lower)
  have twenty: "{..<20::nat} = insert 19 {..<19}" by auto
  have "enforce_diversity_quota one_artist_demo = replicate 19 ?a @ [?c, ?a, ?b]"
    using first second by (simp add: enforce_diversity_quota_def one_artist_demo_def)
  moreover have "keys_at (first_key artist) (replicate 19 ?a @ ys) {..<19} = {[97]}" for ys
    by (auto simp: keys_at_def nth_append lower intro: exI [of _ "0::nat"])
  ultimately show ?thesis unfolding first twenty by (auto simp: nth_append lower)
qed

section \<open>The whole re-rank\<close>

lemma take_slots_map:
  "distinct order \<Longrightarrow> (\<And>i. i \<in> set order \<Longrightarrow> i < length slots \<and> slots ! i = Some (f i)) \<Longrightarrow> take_slots order slots = map f order"
proof (induction order arbitrary: slots)
  case (Cons i order)
  have "take_slots order (slots[i := None]) = map f order"
    using Cons.prems by (intro Cons.IH) (auto simp: nth_list_update)
  then show ?case using Cons.prems(2) [of i] by simp
qed simp

lemma enforce_diversity_quota_mset: "mset (enforce_diversity_quota xs) = mset xs"
proof -
  let ?n = "min 20 (length xs)"
  have a: "mset (enforce_group_quota ?n MIN_ARTISTS (first_key artist) xs) = mset xs"
    using enforce_group_quota_reaches [of ?n xs] by (simp add: reaches_def)
  have "mset (enforce_group_quota ?n MIN_CHARACTERS (first_key character) ys) = mset ys" if "length ys = length xs" for ys
    using enforce_group_quota_reaches [of ?n ys] that by (simp add: reaches_def)
  then show ?thesis using a mset_eq_length [OF a] by (simp add: enforce_diversity_quota_def Let_def)
qed

text \<open>Diversifying the recommendations permutes them: no post is lost, none is duplicated.\<close>

theorem diversify_permutes:
  "mset (diversify_scored_posts hash posts G user_graph p) = mset posts"
proof (cases "posts = []")
  case False
  let ?entries = "map (\<lambda>sp. (sp_score sp, p_id (sp_post sp))) posts"
  let ?L = "if diversity_head_limit p = 0 then length posts else diversity_head_limit p"
  have "take_slots order (map Some posts) = map ((!) posts) order" and "mset (map ((!) posts) order) = mset posts"
    if "mset order = mset [0..<length posts]" for order
  proof -
    have "distinct order" "set order = {..<length posts}"
      using mset_eq_imp_distinct_iff [OF that] mset_eq_setD [OF that] by (simp_all add: atLeast0LessThan)
    then show "take_slots order (map Some posts) = map ((!) posts) order" by (intro take_slots_map) auto
    have "mset (map ((!) posts) order) = mset (map ((!) posts) [0..<length posts])" using that by (simp only: mset_map)
    then show "mset (map ((!) posts) order) = mset posts" by (simp only: map_nth)
  qed
  note taken = this [OF diversify_indices_mset [of ?entries, unfolded length_map]]
  show ?thesis
    unfolding diversify_scored_posts_def Let_def
    using False by (simp only: if_False enforce_diversity_quota_mset taken)
qed (simp add: diversify_scored_posts_def)

end
