(* ===== verification/Scorer_Context.thy ===== *)
theory Scorer_Context
  imports Scorer_Util Tag_Graph Idf
begin

text \<open>
  The per-account state of the scorer (\<open>utils/scorer/context.rs\<close>) and the profile it is built from
  (\<open>models/tags_info.rs\<close>): the weighted tag vector of the account with its norm, the part of it that
  the calibration caches under a fingerprint, and the correction for blacklisted tags.

  An array indexed by the tag group is a function of the group; \<open>f32::to_bits\<close> is the argument
  \<open>to_bits\<close>.
\<close>

section \<open>The profile\<close>

record TagCount =
  tc_name :: ustr
  tc_group_type :: ustr
  tc_count :: int

record AccountRatingStat =
  rs_rating :: ustr
  rs_count :: int

record AccountMediaStat =
  ms_media_type :: ustr
  ms_count :: int

record AccountTagFeedback =
  tf_tag_name :: ustr
  tf_group_type :: ustr
  tf_impression_count :: int
  tf_positive_count :: int
  tf_negative_count :: int
  tf_last_interaction_at :: ustr

record AccountQualityProfile =
  avg_score_total :: f32
  avg_fav_count :: f32
  avg_comment_count :: f32
  avg_duration :: f32

record AccountRecencyProfile =
  avg_age_days :: f32
  avg_abs_dev_days :: f32

record AccountUploaderStat =
  us_uploader_id :: int
  us_post_count :: int
  us_avg_score :: f32
  us_avg_fav :: f32

record WeightedTag =
  wt_tag :: ustr
  wt_group :: ustr
  wt_weight :: f32

record AccountPreferenceProfile =
  pf_rating :: "AccountRatingStat list"
  pf_media :: "AccountMediaStat list"
  pf_feedback :: "AccountTagFeedback list"
  pf_quality :: AccountQualityProfile
  pf_recency :: AccountRecencyProfile
  pf_uploaders :: "AccountUploaderStat list"
  pf_last_refreshed_at :: "int option"
  pf_preferred_tags :: "WeightedTag list"

section \<open>The cached base\<close>

type_synonym tag_weights = "Group \<Rightarrow> (ustr, f32) table"

record CompactFeedback =
  impressions :: int

record ContextBase =
  cb_user :: tag_weights
  cb_user_tag_count :: nat
  cb_u_norm :: f32
  cb_feedback :: "Group \<Rightarrow> (ustr, CompactFeedback) table"
  cb_rating_total :: int
  cb_media_total :: int
  cb_personal_confidence :: f32
  cb_fingerprint :: u64
  cb_uploader_map :: "(int, AccountUploaderStat) table"

definition mix_bits :: "u64 \<Rightarrow> u32 \<Rightarrow> u64" where
  "mix_bits h v = xor (h * 0x9E3779B97F4A7C15) (ucast v)"

definition fingerprint_fields :: "Priors \<Rightarrow> f32 list" where
  "fingerprint_fields p =
     [idf_lambda p, idf_alpha p, (case idf_lambda_meta p of None \<Rightarrow> idf_lambda p | Some v \<Rightarrow> v),
      df_floor p, idf_max p, idf_rsj_smoothing p, bm25_k p, freq_alpha p,
      group_w_artist p, group_w_character p, group_w_copyright p, group_w_species p, group_w_general p, group_w_lore p,
      coldstart_n0 p, confidence_steepness p, coldstart_smoothing_boost p]"

definition context_fingerprint :: "(f32 \<Rightarrow> u32) \<Rightarrow> Priors \<Rightarrow> u64" where
  "context_fingerprint to_bits p = foldl (\<lambda>h v. mix_bits h (to_bits v)) 0 (fingerprint_fields p)"

fun group_wt :: "Priors \<Rightarrow> Group \<Rightarrow> f32" where
  "group_wt p Artist = group_w_artist p"
| "group_wt p Character = group_w_character p"
| "group_wt p Copyright = group_w_copyright p"
| "group_wt p Species = group_w_species p"
| "group_wt p General = group_w_general p"
| "group_wt p Lore = group_w_lore p"
| "group_wt p Meta = 0"

definition all_groups :: "Group list" where
  "all_groups = [Artist, Character, Copyright, Species, General, Lore, Meta]"

definition tag_weight :: "IdfIndex \<Rightarrow> Priors \<Rightarrow> ustr \<Rightarrow> f32 \<Rightarrow> f32 \<Rightarrow> f32" where
  "tag_weight idf p tlc tf g =
     (let idf_w = idf_tempered idf tlc (df_floor p) (idf_max p) (idf_rsj_smoothing p) (idf_lambda p) (idf_alpha p);
          k = max (1 / 1000) (bm25_k p);
          saturated = (tf * (k + 1)) / (tf + k)
      in powf saturated (freq_alpha p) * g * idf_w)"

definition entry_weight :: "(ustr, f32) table \<Rightarrow> ustr \<Rightarrow> f32" where
  "entry_weight m t = (case tbl_get m t of None \<Rightarrow> 0 | Some w \<Rightarrow> w)"

definition add_weight :: "Group \<Rightarrow> ustr \<Rightarrow> f32 \<Rightarrow> tag_weights \<Rightarrow> tag_weights" where
  "add_weight grp t w user = user(grp := tbl_insert t (entry_weight (user grp) t + w) (user grp))"

definition add_tag_count :: "IdfIndex \<Rightarrow> Priors \<Rightarrow> TagCount \<Rightarrow> tag_weights \<Rightarrow> tag_weights" where
  "add_tag_count idf p t user =
     (if tc_count t \<le> 0 then user
      else case group_of_str (tc_group_type t) of None \<Rightarrow> user
      | Some grp \<Rightarrow>
          let g = group_wt p grp in
          if g \<le> 0 then user
          else let tlc = normalize_tag (tc_name t); w = tag_weight idf p tlc (max 0 (real_of_int (tc_count t))) g
               in if w > 0 then add_weight grp tlc w user else user)"

definition tag_vector :: "TagCount list \<Rightarrow> IdfIndex \<Rightarrow> Priors \<Rightarrow> tag_weights" where
  "tag_vector counts idf p = fold (add_tag_count idf p) counts (\<lambda>_. [])"

definition sq_norm :: "tag_weights \<Rightarrow> f32" where
  "sq_norm user = sum_list (map (\<lambda>g. sum_list (map (\<lambda>(t, w). w * w) (user g))) all_groups)"

definition n_entries :: "tag_weights \<Rightarrow> nat" where
  "n_entries user = sum_list (map (\<lambda>g. length (user g)) all_groups)"

definition feedback_map :: "AccountTagFeedback list \<Rightarrow> Group \<Rightarrow> (ustr, CompactFeedback) table" where
  "feedback_map fbs =
     fold (\<lambda>fb m. case group_of_str (tf_group_type fb) of None \<Rightarrow> m
       | Some g \<Rightarrow> m(g := tbl_insert (normalize_tag (tf_tag_name fb)) \<lparr>impressions = tf_impression_count fb\<rparr> (m g))) fbs (\<lambda>_. [])"

definition add_preferred ::
  "IdfIndex \<Rightarrow> Priors \<Rightarrow> WeightedTag \<Rightarrow> tag_weights \<times> f32 \<times> nat \<Rightarrow> tag_weights \<times> f32 \<times> nat" where
  "add_preferred idf p pt = (\<lambda>(user, norm_sq, n).
     let tlc = normalize_tag (wt_tag pt) in
     case group_of_str (wt_group pt) of None \<Rightarrow> (user, norm_sq, n)
     | Some grp \<Rightarrow>
         let g = group_wt p grp in
         if g \<le> 0 then (user, norm_sq, n)
         else if tbl_get (user grp) tlc \<noteq> None then (user, norm_sq, n)
         else let w = tag_weight idf p tlc (max (1 / 10) (coldstart_smoothing_boost p)) g * wt_weight pt
              in if w > 0 then (add_weight grp tlc w user, norm_sq + w * w, n + 1) else (user, norm_sq, n))"

definition context_base_new ::
  "(f32 \<Rightarrow> u32) \<Rightarrow> TagCount list \<Rightarrow> Priors \<Rightarrow> IdfIndex \<Rightarrow> AccountPreferenceProfile \<Rightarrow> ContextBase" where
  "context_base_new to_bits counts p idf profile =
     (let user0 = tag_vector counts idf p;
          rating_total = sum_list (map (\<lambda>r. max 0 (rs_count r)) (pf_rating profile));
          media_total = sum_list (map (\<lambda>m. max 0 (ms_count m)) (pf_media profile));
          n_favorites = real_of_int (max 0 (max rating_total media_total));
          (user, norm_sq, n) = fold (add_preferred idf p) (pf_preferred_tags profile) (user0, sq_norm user0, n_entries user0)
      in \<lparr>cb_user = user, cb_user_tag_count = n, cb_u_norm = sqrt norm_sq,
          cb_feedback = feedback_map (pf_feedback profile), cb_rating_total = rating_total, cb_media_total = media_total,
          cb_personal_confidence = confidence n_favorites (max 1 (coldstart_n0 p)) (confidence_steepness p),
          cb_fingerprint = context_fingerprint to_bits p,
          cb_uploader_map = fold (\<lambda>u m. tbl_insert (us_uploader_id u) u m) (pf_uploaders profile) []\<rparr>)"

section \<open>The context\<close>

record ScoringContext =
  sc_priors :: Priors
  sc_profile :: AccountPreferenceProfile
  sc_idf :: IdfIndex
  sc_global_relation :: TagRelationGraph
  sc_user_relation :: TagRelationGraph
  sc_group_wts :: "Group \<Rightarrow> f32"
  sc_user :: tag_weights
  sc_user_tag_count :: nat
  sc_pair_aggregator :: PairAggregator
  sc_u_norm :: f32
  sc_feedback :: "Group \<Rightarrow> (ustr, CompactFeedback) table"
  sc_rating_total :: int
  sc_media_total :: int
  sc_personal_confidence :: f32
  sc_mix :: MixWeights
  sc_uploader_map :: "(int, AccountUploaderStat) table"
  sc_blacklisted_tags :: "ustr set"

definition from_base ::
  "ContextBase \<Rightarrow> Priors \<Rightarrow> IdfIndex \<Rightarrow> AccountPreferenceProfile \<Rightarrow> TagRelationGraph \<Rightarrow> TagRelationGraph \<Rightarrow> ScoringContext" where
  "from_base base p idf profile global_relation user_relation =
     \<lparr>sc_priors = p, sc_profile = profile, sc_idf = idf, sc_global_relation = global_relation,
      sc_user_relation = user_relation, sc_group_wts = group_wt p, sc_user = cb_user base,
      sc_user_tag_count = cb_user_tag_count base,
      sc_pair_aggregator = pair_aggregator_of_str (tag_relation_pair_aggregator p),
      sc_u_norm = cb_u_norm base, sc_feedback = cb_feedback base, sc_rating_total = cb_rating_total base,
      sc_media_total = cb_media_total base, sc_personal_confidence = cb_personal_confidence base,
      sc_mix = from_priors p, sc_uploader_map = cb_uploader_map base, sc_blacklisted_tags = {}\<rparr>"

definition blacklisted_entries :: "ustr set \<Rightarrow> tag_weights \<Rightarrow> tag_weights" where
  "blacklisted_entries B user = (\<lambda>g. filter (\<lambda>(t, w). t \<in> B) (user g))"

definition new_with_blacklist ::
  "(f32 \<Rightarrow> u32) \<Rightarrow> TagCount list \<Rightarrow> Priors \<Rightarrow> IdfIndex \<Rightarrow> AccountPreferenceProfile \<Rightarrow> TagRelationGraph \<Rightarrow>
     TagRelationGraph \<Rightarrow> ustr set \<Rightarrow> ScoringContext" where
  "new_with_blacklist to_bits counts p idf profile global_relation user_relation B =
     (let base = context_base_new to_bits counts p idf profile;
          ctx = (from_base base p idf profile global_relation user_relation)\<lparr>sc_blacklisted_tags := B\<rparr>
      in if B = {} then ctx
         else let norm_sq = sc_u_norm ctx * sc_u_norm ctx - sq_norm (blacklisted_entries B (sc_user ctx));
                  removed = n_entries (blacklisted_entries B (sc_user ctx))
              in ctx\<lparr>sc_u_norm := sqrt (max 0 norm_sq), sc_user_tag_count := sc_user_tag_count ctx - removed\<rparr>)"

definition context_new ::
  "(f32 \<Rightarrow> u32) \<Rightarrow> TagCount list \<Rightarrow> Priors \<Rightarrow> IdfIndex \<Rightarrow> AccountPreferenceProfile \<Rightarrow> TagRelationGraph \<Rightarrow>
     TagRelationGraph \<Rightarrow> ScoringContext" where
  "context_new to_bits counts p idf profile global_relation user_relation =
     new_with_blacklist to_bits counts p idf profile global_relation user_relation {}"

end
