(* ===== verification/Scorer_Channels.thy ===== *)
theory Scorer_Channels
  imports Scorer_Context
begin

text \<open>
  The eleven channels of the scorer on a post (\<open>utils/scorer/channels.rs\<close>) and their blend
  (\<open>ScoringContext::score\<close> in \<open>utils/scorer/context.rs\<close>).  Sums are exact, so their order does not
  show; counters do not overflow.
\<close>

section \<open>Tag similarity\<close>

definition lambda_of :: "Priors \<Rightarrow> Group \<Rightarrow> f32" where
  "lambda_of p g =
     (if g = Meta then (case idf_lambda_meta p of None \<Rightarrow> idf_lambda p | Some v \<Rightarrow> v) else idf_lambda p)"

definition similarity_groups :: "Post \<Rightarrow> (Group \<times> ustr list) list" where
  "similarity_groups post =
     [(Artist, artist (tags post)), (Character, character (tags post)), (Copyright, copyright (tags post)),
      (General, general (tags post)), (Lore, lore (tags post)), (Meta, meta (tags post)), (Species, species (tags post))]"

text \<open>The loop state: dot product, squared norm of the post, overlap and number of tags.\<close>

type_synonym sim_state = "f32 \<times> f32 \<times> nat \<times> nat"

definition add_to_similarity :: "f32 option \<Rightarrow> f32 \<Rightarrow> sim_state \<Rightarrow> sim_state" where
  "add_to_similarity uw pw = (\<lambda>(dot, p_norm_sq, overlap, post_tag_count).
     case uw of
       None \<Rightarrow> (dot, p_norm_sq + pw * pw, overlap, post_tag_count + 1)
     | Some u \<Rightarrow> (dot + u * pw, p_norm_sq + pw * pw, overlap + 1, post_tag_count + 1))"

definition similarity_tag :: "ScoringContext \<Rightarrow> Group \<Rightarrow> ustr \<Rightarrow> sim_state \<Rightarrow> sim_state" where
  "similarity_tag c g t st =
     (let p = sc_priors c in
      if t = [] then st
      else let tlc = normalize_tag t in
        if tlc \<in> sc_blacklisted_tags c then st
        else let idf_w = idf_tempered (sc_idf c) tlc (df_floor p) (idf_max p) (idf_rsj_smoothing p) (lambda_of p g) (idf_alpha p)
             in add_to_similarity (tbl_get (sc_user c g) tlc) (sc_group_wts c g * idf_w) st)"

definition similarity_loop :: "ScoringContext \<Rightarrow> (Group \<times> ustr list) list \<Rightarrow> sim_state" where
  "similarity_loop c groups =
     fold (\<lambda>(g, ts) st. if sc_group_wts c g \<le> 0 then st else fold (similarity_tag c g) ts st) groups (0, 0, 0, 0)"

definition cosine :: "ScoringContext \<Rightarrow> f32 \<Rightarrow> f32 \<Rightarrow> f32" where
  "cosine c dot p_norm_sq =
     (if sc_u_norm c \<le> 0 \<or> p_norm_sq \<le> 0 then 0 else clamp01 (dot / (sc_u_norm c * sqrt p_norm_sq)))"

definition blend_jaccard :: "ScoringContext \<Rightarrow> sim_state \<Rightarrow> f32" where
  "blend_jaccard c = (\<lambda>(dot, p_norm_sq, overlap, post_tag_count).
     let cos = cosine c dot p_norm_sq; blend = clamp01 (tag_sim_jaccard_blend (sc_priors c)) in
     if blend \<le> 1 / 1000 \<or> post_tag_count = 0 then cos
     else let un = (sc_user_tag_count c + post_tag_count) - overlap;
              jaccard = (if un = 0 then 0 else real overlap / real un)
          in clamp01 ((1 - blend) * cos + blend * jaccard))"

definition similarity_channel :: "ScoringContext \<Rightarrow> Post \<Rightarrow> f32" where
  "similarity_channel c post = blend_jaccard c (similarity_loop c (similarity_groups post))"

section \<open>Quality, popularity, rating, media\<close>

definition ln_1p :: "f32 \<Rightarrow> f32" where
  "ln_1p x = ln (1 + x)"

definition quality_of :: "ScoringContext \<Rightarrow> int \<Rightarrow> int \<Rightarrow> int \<Rightarrow> int \<Rightarrow> int \<Rightarrow> f32" where
  "quality_of c score_total favs comments ups downs =
     (let p = sc_priors c; e = one_sided_ratio_exp p;
          absolute = sigmoid (quality_a p * ln_1p (real_of_int (max 0 score_total))
            + quality_b p * ln_1p (real_of_int (max 0 favs)) + quality_log_bias p);
          rel_score = one_sided_ratio (real_of_int (max 0 score_total)) (avg_score_total (pf_quality (sc_profile c))) e;
          rel_comments = smoothed_one_sided_ratio (real_of_int (max 0 comments))
            (avg_comment_count (pf_quality (sc_profile c))) e 1;
          score = blend3 absolute (quality_w_absolute p) rel_score (quality_w_relative_score p)
            rel_comments (quality_w_relative_comments p)
      in if quality_c p > 1 / 1000 then
           let u = real_of_int (max 0 ups); d = real_of_int (max 0 downs);
               upvote_ratio = (if u + d > 0 then u / (u + d) else 1 / 2);
               w_sum = quality_w_absolute p + quality_w_relative_score p + quality_w_relative_comments p
           in if w_sum > 0 then (score * w_sum + upvote_ratio * quality_c p) / (w_sum + quality_c p) else upvote_ratio
         else score)"

definition quality_channel :: "ScoringContext \<Rightarrow> Post \<Rightarrow> f32" where
  "quality_channel c post =
     (let s = stats post in
      quality_of c (total (st_score s)) (fav_count s) (comment_count s) (up (st_score s)) (down (st_score s)))"

definition popularity_of :: "ScoringContext \<Rightarrow> int \<Rightarrow> f32 \<Rightarrow> f32" where
  "popularity_of c favs dur_val =
     (let p = sc_priors c; e = one_sided_ratio_exp p; q = pf_quality (sc_profile c);
          fav_fit = one_sided_ratio (real_of_int (max 0 favs)) (avg_fav_count q) e;
          dur_base = avg_duration q;
          duration_fit = (if dur_val > 0 then one_sided_ratio dur_val dur_base e
            else if dur_base > 0 then FEEDBACK_NEUTRAL else 1)
      in blend2 fav_fit (popularity_w_fav p) duration_fit (popularity_w_duration p))"

definition post_duration :: "Post \<Rightarrow> f32" where
  "post_duration post = (case duration (f_meta (files post)) of None \<Rightarrow> 0 | Some d \<Rightarrow> d)"

definition popularity_channel :: "ScoringContext \<Rightarrow> Post \<Rightarrow> f32" where
  "popularity_channel c post = popularity_of c (fav_count (stats post)) (post_duration post)"

definition smoothing_alpha :: "ScoringContext \<Rightarrow> f32" where
  "smoothing_alpha c =
     (let boost = max 0 (coldstart_smoothing_boost (sc_priors c))
      in discrete_smoothing_alpha (sc_priors c) * (1 + (1 - sc_personal_confidence c) * boost))"

definition rating_of :: "ScoringContext \<Rightarrow> Rating \<Rightarrow> f32" where
  "rating_of c r =
     (let matched = (case find (\<lambda>s. rs_rating s = rating_text r) (pf_rating (sc_profile c)) of
            None \<Rightarrow> 0 | Some s \<Rightarrow> max 0 (rs_count s));
          tot = max 1 (sc_rating_total c);
          k = max 3 (length (pf_rating (sc_profile c)));
          alpha = smoothing_alpha c;
          smoothed = discrete_preference_smooth tot matched k alpha (discrete_pref_floor (sc_priors c));
          conf = sqrt (real_of_int matched / (real_of_int matched + alpha));
          raw = real_of_int matched / real_of_int tot
      in clamp01 (smoothed * (1 - conf) + raw * conf))"

definition rating_channel :: "ScoringContext \<Rightarrow> Post \<Rightarrow> f32" where
  "rating_channel c post = rating_of c (rating post)"

definition media_of :: "ScoringContext \<Rightarrow> ustr \<Rightarrow> f32" where
  "media_of c m =
     (let matched = (case find (\<lambda>s. ms_media_type s = m) (pf_media (sc_profile c)) of
            None \<Rightarrow> 0 | Some s \<Rightarrow> max 0 (ms_count s));
          k = max 3 (length (pf_media (sc_profile c)))
      in discrete_preference_smooth (sc_media_total c) matched k (smoothing_alpha c) (discrete_pref_floor (sc_priors c)))"

definition media_channel :: "ScoringContext \<Rightarrow> Post \<Rightarrow> f32" where
  "media_channel c post = media_of c (media_type post)"

section \<open>Tag relations\<close>

type_synonym relation_entry = "f32 \<times> TagId option \<times> TagId option"

definition relation_groups :: "Post \<Rightarrow> (Group \<times> ustr list) list" where
  "relation_groups post =
     [(Artist, artist (tags post)), (Character, character (tags post)), (Copyright, copyright (tags post)),
      (Species, species (tags post)), (General, general (tags post)), (Lore, lore (tags post))]"

definition relation_entries :: "ScoringContext \<Rightarrow> Post \<Rightarrow> relation_entry list" where
  "relation_entries c post =
     concat (map (\<lambda>(g, ts).
       if sc_group_wts c g \<le> 0 then []
       else map (\<lambda>t. let tlc = normalize_tag t in
           (sc_group_wts c g, tag_id (group_index g) tlc (sc_global_relation c), tag_id (group_index g) tlc (sc_user_relation c)))
         (filter (\<lambda>t. t \<noteq> []) ts)) (relation_groups post))"

definition marginal_of :: "TagRelationGraph \<Rightarrow> TagId option \<Rightarrow> f32" where
  "marginal_of G i = (case i of None \<Rightarrow> 0 | Some t \<Rightarrow> real_of_int (max 0 (marginal_by_id G t)))"

text \<open>One side of a pair: the score and whether there is a signal.\<close>

definition global_pair :: "ScoringContext \<Rightarrow> TagId option \<Rightarrow> TagId option \<Rightarrow> f32 \<times> bool" where
  "global_pair c a b =
     (let p = sc_priors c; G = sc_global_relation c; ng = real_of_int (max 1 (n_posts G)) in
      case (a, b) of
        (Some i, Some j) \<Rightarrow>
          let n = cooc_by_id G i j; di = marginal_of G a; dj = marginal_of G b in
          if n \<ge> max 1 (tag_relation_min_cooc p) \<and> di > 0 \<and> dj > 0 then
            let denom = di * dj / ng in
            if denom > 0 then
              let lift = real_of_int n / denom;
                  raw_pmi = clamp01 (ln (max (1 / 1000000) lift) / max (1 / 1000) (tag_relation_pmi_scale p));
                  conf_pmi = clamp01 (ln (real_of_int n + 1)
                    / max (1 / 1000) (ln (max 1 (tag_relation_cooc_ref p) + 1)))
              in (raw_pmi * conf_pmi, True)
            else (0, False)
          else (0, False)
      | _ \<Rightarrow> (0, False))"

definition user_pair :: "ScoringContext \<Rightarrow> TagId option \<Rightarrow> TagId option \<Rightarrow> f32 \<times> bool" where
  "user_pair c a b =
     (let p = sc_priors c; G = sc_user_relation c; nu = real_of_int (max 0 (n_posts G));
          scale = (case tag_relation_pmi_scale_user p of
            None \<Rightarrow> max (1 / 1000) (tag_relation_pmi_scale p) | Some s \<Rightarrow> max (1 / 1000) s) in
      case (a, b) of
        (Some i, Some j) \<Rightarrow>
          if nu > 0 then
            let n = cooc_by_id G i j; di = marginal_of G a; dj = marginal_of G b in
            if n \<ge> max 1 (tag_relation_user_min_cooc p) \<and> di > 0 \<and> dj > 0 then
              let denom = di * dj / nu in
              if denom > 0 then
                let lift = real_of_int n / denom;
                    signed_pmi = clamp (- 1) 1 (ln (max (1 / 1000000) lift) / scale);
                    conf_user = clamp01 (ln (real_of_int n + 1)
                      / max (1 / 1000) (ln (max 1 (tag_relation_user_cooc_ref p) + 1)));
                    mapped = (signed_pmi * conf_user + 1) * (1 / 2)
                in (clamp01 mapped, True)
              else (0, False)
            else (0, False)
          else (0, False)
      | _ \<Rightarrow> (0, False))"

definition pair_score :: "PairAggregator \<Rightarrow> f32 \<Rightarrow> f32 \<Rightarrow> f32 \<times> bool \<Rightarrow> f32 \<times> bool \<Rightarrow> f32 option" where
  "pair_score agg w_g w_u = (\<lambda>(global_score, global_has_signal) (user_score, user_has_signal).
     let active_g = (if global_has_signal then w_g else 0);
         active_u = (if user_has_signal then w_u else 0);
         active_sum = active_g + active_u in
     if active_sum \<le> 0 then None
     else Some (case agg of
         Mean \<Rightarrow> (active_g * global_score + active_u * user_score) / active_sum
       | Max \<Rightarrow> max global_score user_score
       | GeoMean \<Rightarrow>
           let g = (if global_has_signal then global_score else 1 / 2);
               u = (if user_has_signal then user_score else 1 / 2)
           in sqrt (max 0 g * max 0 u)))"

fun relation_pairs ::
  "ScoringContext \<Rightarrow> f32 \<Rightarrow> f32 \<Rightarrow> relation_entry list \<Rightarrow> f32 \<times> f32 \<Rightarrow> f32 \<times> f32" where
  "relation_pairs c w_g w_u [] nd = nd"
| "relation_pairs c w_g w_u ((wi, gi, ui) # rest) nd =
     relation_pairs c w_g w_u rest
       (fold (\<lambda>(wj, gj, uj) (num, den).
          let pair_w = sqrt (wi * wj) in
          if pair_w \<le> 0 then (num, den)
          else case pair_score (sc_pair_aggregator c) w_g w_u (global_pair c gi gj) (user_pair c ui uj) of
            None \<Rightarrow> (num, den)
          | Some s \<Rightarrow> (num + pair_w * s, den + pair_w)) rest nd)"

definition relation_of :: "ScoringContext \<Rightarrow> relation_entry list \<Rightarrow> f32" where
  "relation_of c es =
     (let p = sc_priors c; w_g_cfg = max 0 (tag_relation_w_global p); w_u_cfg = max 0 (tag_relation_w_personal p) in
      if w_g_cfg + w_u_cfg \<le> 0 then FEEDBACK_NEUTRAL
      else let conf = sc_personal_confidence c; w_u = w_u_cfg * conf; w_g = w_g_cfg + w_u_cfg * (1 - conf) in
        if length es < 2 then FEEDBACK_NEUTRAL
        else let max_tags = tag_relation_max_tags p;
                 kept = (if max_tags > 0 \<and> length es > max_tags then take max_tags (sort_key (\<lambda>e. - fst e) es) else es);
                 (num, den) = relation_pairs c w_g w_u kept (0, 0)
             in if den \<le> 0 then FEEDBACK_NEUTRAL else clamp01 (num / den))"

definition relation_channel :: "ScoringContext \<Rightarrow> Post \<Rightarrow> f32" where
  "relation_channel c post = relation_of c (relation_entries c post)"

section \<open>Uploader and recency\<close>

definition uploader_of :: "ScoringContext \<Rightarrow> int \<Rightarrow> f32" where
  "uploader_of c uid =
     (case tbl_get (sc_uploader_map c) uid of
        None \<Rightarrow> FEEDBACK_NEUTRAL
      | Some st \<Rightarrow>
          let p = sc_priors c; q = pf_quality (sc_profile c);
              conf = confidence (real_of_int (us_post_count st)) (max 1 (uploader_n0 p)) (confidence_steepness p)
          in if conf \<le> 1 / 1000000 then FEEDBACK_NEUTRAL
             else let score_fit = one_sided_ratio (us_avg_score st) (avg_score_total q) (one_sided_ratio_exp p);
                      fav_fit = one_sided_ratio (us_avg_fav st) (avg_fav_count q) (one_sided_ratio_exp p);
                      raw = blend2 score_fit (uploader_w_avg_score p) fav_fit (uploader_w_avg_fav p)
                  in FEEDBACK_NEUTRAL * (1 - conf) + raw * conf)"

definition uploader_channel :: "ScoringContext \<Rightarrow> Post \<Rightarrow> f32" where
  "uploader_channel c post = uploader_of c (uploader_id post)"

definition recency_tau :: "Priors \<Rightarrow> f32 \<Rightarrow> f32" where
  "recency_tau p age =
     (let age_hours = age * 24;
          base = max (1 / 1000) (recency_tau_days p);
          recent = (case recency_tau_recent p of
            Some t \<Rightarrow> if age \<le> max 0 (recency_split_age_days p) then max (1 / 1000) t else base
          | None \<Rightarrow> base)
      in case recency_tau_hot p of
           Some t \<Rightarrow> if age_hours \<le> max 0 (recency_split_age_hours p) then max (1 / 1000) t else recent
         | None \<Rightarrow> recent)"

definition recency_channel :: "ScoringContext \<Rightarrow> f32 \<Rightarrow> f32" where
  "recency_channel c age =
     (let p = sc_priors c; tau = recency_tau p age;
          glob = clamp01 (exp (- max 0 age / tau));
          avg_age = avg_age_days (pf_recency (sc_profile c))
      in if avg_age \<le> 0 then glob
         else let least = tau * max 0 (recency_personal_floor_frac p);
                  spread = max 1 (max least (avg_abs_dev_days (pf_recency (sc_profile c))));
                  personal = (if recency_log_personal p then
                      let log_age = ln_1p (max 0 age); log_avg = ln_1p (max 0 avg_age);
                          log_spread = max (5 / 100) (spread / max 1 avg_age)
                      in clamp01 (exp (- \<bar>log_age - log_avg\<bar> / log_spread))
                    else clamp01 (exp (- \<bar>age - avg_age\<bar> / spread)));
                  conf = sc_personal_confidence c;
                  w_p = recency_w_personal p * conf;
                  w_g = recency_w_global p + recency_w_personal p * (1 - conf)
              in blend2 glob w_g personal w_p)"

end
