(* ===== verification/Scorer_Score.thy ===== *)
theory Scorer_Score
  imports Scorer_Channels
begin

text \<open>
  The remaining channels (exclusivity, novelty, artist discovery), the score of a post, and the
  similarity of two posts (\<open>utils/scorer/channels.rs\<close>, \<open>ScoringContext::score\<close>).
\<close>

section \<open>Exclusivity\<close>

definition group_tags :: "Post \<Rightarrow> Group \<Rightarrow> ustr list" where
  "group_tags post g =
     (case g of Artist \<Rightarrow> artist (tags post) | Character \<Rightarrow> character (tags post) | Copyright \<Rightarrow> copyright (tags post)
      | Species \<Rightarrow> species (tags post) | General \<Rightarrow> general (tags post) | Lore \<Rightarrow> lore (tags post) | Meta \<Rightarrow> meta (tags post))"

definition exclusivity_weight :: "ScoringContext \<Rightarrow> Group \<Rightarrow> ustr \<Rightarrow> f32" where
  "exclusivity_weight c g lc =
     (let p = sc_priors c in
      sc_group_wts c g * idf_tempered (sc_idf c) lc (df_floor p) (idf_max p) (idf_rsj_smoothing p) (idf_lambda p) (idf_alpha p))"

text \<open>The entries of one group: weight, name, group and id of the tags the global graph knows.\<close>

definition exclusivity_entries :: "ScoringContext \<Rightarrow> Post \<Rightarrow> Group \<Rightarrow> (f32 \<times> ustr \<times> nat \<times> TagId) list" where
  "exclusivity_entries c post g =
     (if sc_group_wts c g \<le> 0 then []
      else List.map_filter (\<lambda>t.
          let lc = normalize_tag t in
          case tag_id (group_index g) lc (sc_global_relation c) of
            None \<Rightarrow> None
          | Some i \<Rightarrow> Some (exclusivity_weight c g lc, lc, group_index g, i))
        (filter (\<lambda>t. t \<noteq> []) (group_tags post g)))"

definition top_entries :: "nat \<Rightarrow> ('a \<Rightarrow> f32) \<Rightarrow> 'a list \<Rightarrow> 'a list" where
  "top_entries max_tags wt es = (if max_tags > 0 then take max_tags (sort_key (\<lambda>e. - wt e) es) else es)"

definition count_pair :: "TagRelationGraph \<Rightarrow> TagId \<Rightarrow> TagId \<Rightarrow> int \<times> nat \<Rightarrow> int \<times> nat" where
  "count_pair G a b = (\<lambda>(tot, n). (tot + max 0 (cooc_by_id G a b), n + 1))"

fun within_pairs :: "TagRelationGraph \<Rightarrow> TagId list \<Rightarrow> int \<times> nat \<Rightarrow> int \<times> nat" where
  "within_pairs G [] st = st"
| "within_pairs G (a # rest) st = within_pairs G rest (fold (count_pair G a) rest st)"

fun cross_pairs :: "TagRelationGraph \<Rightarrow> TagId list list \<Rightarrow> int \<times> nat \<Rightarrow> int \<times> nat" where
  "cross_pairs G [] st = st"
| "cross_pairs G (as # rest) st =
     cross_pairs G rest (fold (\<lambda>bs st. if as = [] \<or> bs = [] then st else fold (\<lambda>a. fold (count_pair G a) bs) as st) rest st)"

definition exclusivity_of :: "ScoringContext \<Rightarrow> TagId list list \<Rightarrow> f32" where
  "exclusivity_of c groups =
     (let p = sc_priors c; G = sc_global_relation c;
          min_cooc = real_of_int (max 1 (min_exclusivity_cooc p));
          scale = max (1 / 100) (exclusivity_scale p);
          (total_in, pairs_in) = fold (within_pairs G) groups (0, 0);
          (total_cross, pairs_cross) = cross_pairs G groups (0, 0)
      in if pairs_in + pairs_cross = 0 then 0
         else let cw = exclusivity_cross_group_weight p;
                  weighted_pairs = real pairs_in + real pairs_cross * cw;
                  avg_cooc = (real_of_int total_in + real_of_int total_cross * cw) / weighted_pairs
              in 1 - sigmoid (avg_cooc / scale - min_cooc))"

definition exclusivity_channel :: "ScoringContext \<Rightarrow> Post \<Rightarrow> f32" where
  "exclusivity_channel c post =
     exclusivity_of c (map (\<lambda>g. map (\<lambda>(w, lc, gi, i). i)
       (top_entries (exclusivity_max_tags (sc_priors c)) fst (exclusivity_entries c post g))) all_groups)"

section \<open>Artist discovery\<close>

definition content_groups :: "Post \<Rightarrow> (Group \<times> ustr list) list" where
  "content_groups post =
     [(Character, character (tags post)), (Copyright, copyright (tags post)), (General, general (tags post)),
      (Lore, lore (tags post)), (Meta, meta (tags post)), (Species, species (tags post))]"

definition new_artists :: "ScoringContext \<Rightarrow> ustr list \<Rightarrow> nat" where
  "new_artists c names = length (filter (\<lambda>n. tbl_get (sc_user c Artist) n = None) names)"

definition discovery_of :: "ScoringContext \<Rightarrow> nat \<Rightarrow> sim_state \<Rightarrow> f32" where
  "discovery_of c new_count = (\<lambda>(dot, p_norm_sq, _, _).
     let p = sc_priors c; profile_sim = cosine c dot p_norm_sq;
         n0 = max (1 / 2) (artist_discovery_n0 p);
         conf = real new_count / (real new_count + n0);
         bonus = 1 + artist_discovery_novelty_bonus p * (1 - conf)
     in clamp01 (profile_sim * conf * bonus))"

definition discovery_channel :: "ScoringContext \<Rightarrow> Post \<Rightarrow> f32" where
  "discovery_channel c post =
     (if artist (tags post) = [] then 0
      else let new_count = new_artists c (map normalize_tag (filter (\<lambda>t. t \<noteq> []) (artist (tags post)))) in
        if new_count = 0 then 0 else discovery_of c new_count (similarity_loop c (content_groups post)))"

section \<open>Novelty\<close>

text \<open>How novel one tag is, once its group counts.\<close>

definition tag_novelty :: "ScoringContext \<Rightarrow> Group \<Rightarrow> ustr \<Rightarrow> f32" where
  "tag_novelty c g tlc =
     (let p = sc_priors c; n0 = max (1 / 2) (novelty_n0 p) in
      if tbl_get (sc_user c g) tlc \<noteq> None then 0
      else case (if novelty_use_feedback p then tbl_get (sc_feedback c g) tlc else None) of
        Some fb \<Rightarrow> if impressions fb > 0 then 1 - confidence (real_of_int (impressions fb)) n0 1 else 1
      | None \<Rightarrow> 1)"

definition add_novelty :: "ScoringContext \<Rightarrow> Group \<Rightarrow> ustr \<Rightarrow> nat \<times> f32 \<Rightarrow> nat \<times> f32" where
  "add_novelty c g tlc = (\<lambda>(tot, novel_weight). (tot + 1, novel_weight + tag_novelty c g tlc))"

definition novelty_result :: "nat \<times> f32 \<Rightarrow> f32" where
  "novelty_result = (\<lambda>(tot, novel_weight). if tot = 0 then 0 else clamp01 (novel_weight / real tot))"

definition novelty_channel :: "ScoringContext \<Rightarrow> Post \<Rightarrow> f32" where
  "novelty_channel c post =
     novelty_result (fold (\<lambda>g st. if sc_group_wts c g \<le> 0 then st
       else fold (\<lambda>t st. if t = [] then st else add_novelty c g (normalize_tag t) st) (group_tags post g) st) all_groups (0, 0))"

section \<open>The score\<close>

definition final_blend :: "ScoringContext \<Rightarrow> ScoreBreakdown \<Rightarrow> f32" where
  "final_blend c b =
     blend_score (as_array (sc_mix c))
       [tag_similarity b, quality_fit b, recency_fit b, rating_fit b, media_fit b, popularity_fit b, tag_relation_fit b,
        uploader_fit b, exclusivity_fit b, novelty_fit b, artist_discovery_fit b]
       (score_temperature (sc_priors c))"

definition age_in_days :: "Priors \<Rightarrow> int \<Rightarrow> f32" where
  "age_in_days p created = real_of_int (num_seconds (priors_now p - created)) / 86400"

definition score :: "ScoringContext \<Rightarrow> Post \<Rightarrow> f32 \<times> ScoreBreakdown" where
  "score c post =
     (let b = \<lparr>tag_similarity = similarity_channel c post, quality_fit = quality_channel c post,
            recency_fit = recency_channel c (age_in_days (sc_priors c) (created_at post)),
            rating_fit = rating_channel c post, media_fit = media_channel c post,
            popularity_fit = popularity_channel c post, tag_relation_fit = relation_channel c post,
            uploader_fit = uploader_channel c post, exclusivity_fit = exclusivity_channel c post,
            novelty_fit = novelty_channel c post, artist_discovery_fit = discovery_channel c post\<rparr>
      in (final_blend c b, b))"

section \<open>The similarity of two posts\<close>

definition weighted_tags :: "Post \<Rightarrow> IdfIndex \<Rightarrow> Priors \<Rightarrow> (Group \<times> f32) list" where
  "weighted_tags post idf p =
     concat (map (\<lambda>(g, ts).
       if \<not> is_scoring g then []
       else if group_wt p g \<le> 0 then []
       else List.map_filter (\<lambda>t.
           let w = group_wt p g * idf_tempered idf (normalize_tag t) (df_floor p) (idf_max p) (idf_rsj_smoothing p)
                 (lambda_of p g) (idf_lambda p)
           in if w > 0 then Some (g, w) else None) (filter (\<lambda>t. t \<noteq> []) ts)) (similarity_groups post))"

definition post_pair_similarity :: "Post \<Rightarrow> Post \<Rightarrow> IdfIndex \<Rightarrow> Priors \<Rightarrow> f32" where
  "post_pair_similarity a b idf p =
     (let vec_a = weighted_tags a idf p; vec_b = weighted_tags b idf p;
          (dot, norm_a_sq) = fold (\<lambda>(g, w_a) (dot, na).
            (fold (\<lambda>(_, w_b) d. d + w_a * w_b) (filter (\<lambda>(g', _). g' = g) vec_b) dot, na + w_a * w_a)) vec_a (0, 0);
          norm_b_sq = fold (\<lambda>(_, w_b) nb. nb + w_b * w_b) vec_b 0
      in if norm_a_sq \<le> 0 \<or> norm_b_sq \<le> 0 then 0 else clamp01 (dot / (sqrt norm_a_sq * sqrt norm_b_sq)))"

definition post_tag_vector :: "Post \<Rightarrow> IdfIndex \<Rightarrow> Priors \<Rightarrow> (nat \<times> f32) list" where
  "post_tag_vector post idf p = map (\<lambda>(g, w). (group_index g, w)) (weighted_tags post idf p)"

end
