(* ===== verification/Scorer_Cached.thy ===== *)
theory Scorer_Cached
  imports Scorer_Score
begin

text \<open>
  The features of a post resolved once (\<open>utils/scorer/cached.rs\<close>) and the channels that read them
  (\<open>utils/scorer/channels_cached.rs\<close>, \<open>ScoringContext::score_cached\<close>).  Where the two versions of a
  channel repeat the same text after the tags are resolved, that text is one definition of
  \<open>Scorer_Channels\<close> or \<open>Scorer_Score\<close>; what each version reads is its own.
\<close>

section \<open>Features\<close>

record CachedTag =
  ct_group :: Group
  ct_lc :: ustr
  ct_df_raw :: int
  ct_global_tid :: "TagId option"
  ct_user_tid :: "TagId option"

record CachedPostFeatures =
  cf_id :: int
  cf_uploader_id :: int
  cf_created_at :: int
  cf_score_total :: int
  cf_score_up :: int
  cf_score_down :: int
  cf_fav_count :: int
  cf_comment_count :: int
  cf_duration :: f32
  cf_rating :: Rating
  cf_media_type :: ustr
  cf_tags :: "CachedTag list"

definition resolve_tag :: "IdfIndex \<Rightarrow> TagRelationGraph \<Rightarrow> TagRelationGraph option \<Rightarrow> Group \<Rightarrow> ustr \<Rightarrow> CachedTag option" where
  "resolve_tag idf G U g raw =
     (let trimmed = trim raw in
      if trimmed = [] then None
      else let lc = (if list_ex is_ascii_uppercase trimmed then to_ascii_lowercase trimmed else trimmed)
           in Some \<lparr>ct_group = g, ct_lc = lc, ct_df_raw = df_for idf lc, ct_global_tid = tag_id (group_index g) lc G,
                ct_user_tid = (case U of None \<Rightarrow> None | Some u \<Rightarrow> tag_id (group_index g) lc u)\<rparr>)"

definition from_post_with_user ::
  "Post \<Rightarrow> IdfIndex \<Rightarrow> TagRelationGraph \<Rightarrow> TagRelationGraph option \<Rightarrow> CachedPostFeatures" where
  "from_post_with_user post idf G U =
     \<lparr>cf_id = p_id post, cf_uploader_id = uploader_id post, cf_created_at = created_at post,
      cf_score_total = total (st_score (stats post)), cf_score_up = up (st_score (stats post)),
      cf_score_down = down (st_score (stats post)), cf_fav_count = fav_count (stats post),
      cf_comment_count = comment_count (stats post), cf_duration = post_duration post, cf_rating = rating post,
      cf_media_type = media_type post,
      cf_tags = concat (map (\<lambda>g. List.map_filter (resolve_tag idf G U g) (group_tags post g)) all_groups)\<rparr>"

section \<open>Channels\<close>

definition similarity_cached_tag :: "ScoringContext \<Rightarrow> CachedTag \<Rightarrow> sim_state \<Rightarrow> sim_state" where
  "similarity_cached_tag c ct st =
     (let p = sc_priors c; g = ct_group ct in
      if sc_group_wts c g \<le> 0 then st
      else if ct_lc ct \<in> sc_blacklisted_tags c then st
      else let idf_w = idf_tempered_from_df (sc_idf c) (ct_df_raw ct) (df_floor p) (idf_max p) (idf_rsj_smoothing p)
                 (lambda_of p g) (idf_alpha p)
           in add_to_similarity (tbl_get (sc_user c g) (ct_lc ct)) (sc_group_wts c g * idf_w) st)"

definition similarity_cached :: "ScoringContext \<Rightarrow> CachedPostFeatures \<Rightarrow> f32" where
  "similarity_cached c post = blend_jaccard c (fold (similarity_cached_tag c) (cf_tags post) (0, 0, 0, 0))"

definition quality_cached :: "ScoringContext \<Rightarrow> CachedPostFeatures \<Rightarrow> f32" where
  "quality_cached c post =
     quality_of c (cf_score_total post) (cf_fav_count post) (cf_comment_count post) (cf_score_up post) (cf_score_down post)"

definition popularity_cached :: "ScoringContext \<Rightarrow> CachedPostFeatures \<Rightarrow> f32" where
  "popularity_cached c post = popularity_of c (cf_fav_count post) (cf_duration post)"

definition rating_cached :: "ScoringContext \<Rightarrow> CachedPostFeatures \<Rightarrow> f32" where
  "rating_cached c post = rating_of c (cf_rating post)"

definition media_cached :: "ScoringContext \<Rightarrow> CachedPostFeatures \<Rightarrow> f32" where
  "media_cached c post = media_of c (cf_media_type post)"

definition relation_cached_entries :: "ScoringContext \<Rightarrow> CachedPostFeatures \<Rightarrow> relation_entry list" where
  "relation_cached_entries c post =
     List.map_filter (\<lambda>ct.
       if ct_group ct = Meta then None
       else if sc_group_wts c (ct_group ct) \<le> 0 then None
       else Some (sc_group_wts c (ct_group ct), ct_global_tid ct, ct_user_tid ct)) (cf_tags post)"

definition relation_cached :: "ScoringContext \<Rightarrow> CachedPostFeatures \<Rightarrow> f32" where
  "relation_cached c post = relation_of c (relation_cached_entries c post)"

definition uploader_cached :: "ScoringContext \<Rightarrow> CachedPostFeatures \<Rightarrow> f32" where
  "uploader_cached c post = uploader_of c (cf_uploader_id post)"

definition exclusivity_cached_entries :: "ScoringContext \<Rightarrow> CachedPostFeatures \<Rightarrow> Group \<Rightarrow> (f32 \<times> TagId) list" where
  "exclusivity_cached_entries c post g =
     List.map_filter (\<lambda>ct.
       if sc_group_wts c (ct_group ct) \<le> 0 then None
       else let p = sc_priors c;
                weight = sc_group_wts c (ct_group ct) * idf_tempered_from_df (sc_idf c) (ct_df_raw ct) (df_floor p) (idf_max p)
                  (idf_rsj_smoothing p) (idf_lambda p) (idf_alpha p)
            in map_option (\<lambda>i. (weight, i)) (ct_global_tid ct))
       (filter (\<lambda>ct. ct_group ct = g) (cf_tags post))"

definition exclusivity_cached :: "ScoringContext \<Rightarrow> CachedPostFeatures \<Rightarrow> f32" where
  "exclusivity_cached c post =
     exclusivity_of c (map (\<lambda>g. map snd (top_entries (exclusivity_max_tags (sc_priors c)) fst (exclusivity_cached_entries c post g)))
       all_groups)"

definition discovery_cached :: "ScoringContext \<Rightarrow> CachedPostFeatures \<Rightarrow> f32" where
  "discovery_cached c post =
     (let artist_tags = filter (\<lambda>ct. ct_group ct = Artist) (cf_tags post) in
      if artist_tags = [] then 0
      else let new_count = new_artists c (map ct_lc artist_tags) in
        if new_count = 0 then 0
        else discovery_of c new_count
          (fold (\<lambda>ct st. if ct_group ct = Artist \<or> ct_group ct = Meta then st else similarity_cached_tag c ct st) (cf_tags post) (0, 0, 0, 0)))"

definition novelty_cached :: "ScoringContext \<Rightarrow> CachedPostFeatures \<Rightarrow> f32" where
  "novelty_cached c post =
     novelty_result (fold (\<lambda>ct st. if sc_group_wts c (ct_group ct) \<le> 0 then st else add_novelty c (ct_group ct) (ct_lc ct) st)
       (cf_tags post) (0, 0))"

definition score_cached :: "ScoringContext \<Rightarrow> CachedPostFeatures \<Rightarrow> f32 \<times> ScoreBreakdown" where
  "score_cached c post =
     (let b = \<lparr>tag_similarity = similarity_cached c post, quality_fit = quality_cached c post,
            recency_fit = recency_channel c (age_in_days (sc_priors c) (cf_created_at post)),
            rating_fit = rating_cached c post, media_fit = media_cached c post,
            popularity_fit = popularity_cached c post, tag_relation_fit = relation_cached c post,
            uploader_fit = uploader_cached c post, exclusivity_fit = exclusivity_cached c post,
            novelty_fit = novelty_cached c post, artist_discovery_fit = discovery_cached c post\<rparr>
      in (final_blend c b, b))"

end
