(* ===== verification/Scorer_Equal.thy ===== *)
theory Scorer_Equal
  imports Scorer_Cached "HOL-Library.Multiset"
begin

text \<open>
  The score from resolved features is the score of the post: the calibration evaluates the same
  function as the feed, for every context and every post whose tags are not blank.
\<close>

section \<open>The tags of a post as one list\<close>

definition no_blank_tags :: "Post \<Rightarrow> bool" where
  "no_blank_tags post \<longleftrightarrow> (\<forall>g. \<forall>t \<in> set (group_tags post g). trim t = [] \<longrightarrow> t = [])"

definition named :: "Post \<Rightarrow> Group list \<Rightarrow> (Group \<times> ustr) list" where
  "named post gs = concat (map (\<lambda>g. map (Pair g) (filter (\<lambda>t. t \<noteq> []) (group_tags post g))) gs)"

definition resolved :: "IdfIndex \<Rightarrow> TagRelationGraph \<Rightarrow> TagRelationGraph \<Rightarrow> Group \<times> ustr \<Rightarrow> CachedTag" where
  "resolved idf G U = (\<lambda>(g, t). \<lparr>ct_group = g, ct_lc = normalize_tag t, ct_df_raw = lookup_df idf (normalize_tag t),
     ct_global_tid = tag_id (group_index g) (normalize_tag t) G, ct_user_tid = tag_id (group_index g) (normalize_tag t) U\<rparr>)"

lemma named_simps [simp]:
  "named post [] = []"
  "named post (g # gs) = map (Pair g) (filter (\<lambda>t. t \<noteq> []) (group_tags post g)) @ named post gs"
  by (simp_all add: named_def)

lemma named_append [simp]: "named post (gs @ hs) = named post gs @ named post hs"
  by (simp add: named_def)

lemma named_nonempty: "(g, t) \<in> set (named post gs) \<Longrightarrow> t \<noteq> []"
  by (auto simp: named_def)

lemma mset_named: "mset gs = mset hs \<Longrightarrow> mset (named post gs) = mset (named post hs)"
proof -
  have "mset (named post gs) = (\<Sum>g \<in># mset gs. mset (map (Pair g) (filter (\<lambda>t. t \<noteq> []) (group_tags post g))))" for gs
    by (induction gs) simp_all
  then show "mset gs = mset hs \<Longrightarrow> ?thesis" by simp
qed

lemma trim_Nil [simp]: "trim [] = []"
  by (simp add: trim_def trim_matches_def)

lemma resolve_tag_plain:
  assumes "trim t = [] \<longrightarrow> t = []"
  shows "resolve_tag idf G (Some U) g t = (if t = [] then None else Some (resolved idf G U (g, t)))"
  using assms by (auto simp: resolve_tag_def resolved_def normalize_tag_def df_for_def Let_def)

lemma cached_tags:
  assumes "no_blank_tags post"
  shows "cf_tags (from_post_with_user post idf G (Some U)) = map (resolved idf G U) (named post all_groups)"
proof -
  have "List.map_filter (resolve_tag idf G (Some U) g) ts = map (resolved idf G U) (map (Pair g) (filter (\<lambda>t. t \<noteq> []) ts))"
    if "set ts \<subseteq> set (group_tags post g)" for g ts
    using that
  proof (induction ts)
    case (Cons t ts)
    have "trim t = [] \<longrightarrow> t = []" using Cons.prems assms unfolding no_blank_tags_def by (meson list.set_intros(1) subsetD)
    then show ?case using Cons by (simp add: List.map_filter_simps resolve_tag_plain)
  qed (simp add: List.map_filter_simps)
  then show ?thesis by (simp add: from_post_with_user_def named_def map_concat o_def)
qed

section \<open>Similarity\<close>

definition similarity_step :: "ScoringContext \<Rightarrow> Group \<times> ustr \<Rightarrow> sim_state \<Rightarrow> sim_state" where
  "similarity_step c = (\<lambda>(g, t) st. if sc_group_wts c g \<le> 0 then st else similarity_tag c g t st)"

lemma tempered_from_df: "idf_tempered_from_df x (lookup_df x t) a b r l al = idf_tempered x t a b r l al"
  by (simp add: idf_tempered_from_df_def idf_tempered_def idf_raw_def)

lemma similarity_loop_named:
  "similarity_loop c (map (\<lambda>g. (g, group_tags post g)) gs) = fold (similarity_step c) (named post gs) (0, 0, 0, 0)"
proof -
  have inner: "fold (similarity_tag c g) ts st = fold (similarity_step c) (map (Pair g) (filter (\<lambda>t. t \<noteq> []) ts)) st"
    if "\<not> sc_group_wts c g \<le> 0" for g ts st
    using that by (induction ts arbitrary: st) (auto simp: similarity_step_def similarity_tag_def Let_def)
  have skip: "fold (similarity_step c) (map (Pair g) ts) st = st" if "sc_group_wts c g \<le> 0" for g ts st
    using that by (induction ts) (simp_all add: similarity_step_def)
  have "fold (\<lambda>(g, ts) st. if sc_group_wts c g \<le> 0 then st else fold (similarity_tag c g) ts st)
      (map (\<lambda>g. (g, group_tags post g)) gs) st = fold (similarity_step c) (named post gs) st" for st
    by (induction gs arbitrary: st) (auto simp: inner skip)
  then show ?thesis by (simp add: similarity_loop_def)
qed

lemma add_to_similarity_commute: "add_to_similarity u a (add_to_similarity v b st) = add_to_similarity v b (add_to_similarity u a st)"
  by (cases st; cases u; cases v) (simp_all add: add_to_similarity_def)

lemma similarity_step_commute: "similarity_step c x \<circ> similarity_step c y = similarity_step c y \<circ> similarity_step c x"
  by (cases x; cases y) (auto simp: fun_eq_iff similarity_step_def similarity_tag_def Let_def add_to_similarity_commute)

lemma similarity_fold_perm:
  "mset xs = mset ys \<Longrightarrow> fold (similarity_step c) xs st = fold (similarity_step c) ys st"
  using fold_multiset_equiv [of xs "similarity_step c" ys] similarity_step_commute by metis

lemma similarity_cached_step:
  assumes "x \<in> set (named post gs)" "idf = sc_idf c"
  shows "similarity_cached_tag c (resolved idf G U x) = similarity_step c x"
proof -
  obtain g t where x: "x = (g, t)" by fastforce
  then have "t \<noteq> []" using assms(1) named_nonempty by blast
  then show ?thesis
    by (simp add: x assms(2) fun_eq_iff similarity_cached_tag_def similarity_step_def similarity_tag_def resolved_def
        tempered_from_df Let_def)
qed

lemma similarity_cached_fold:
  assumes "set xs \<subseteq> set (named post gs)" "idf = sc_idf c"
  shows "fold (similarity_cached_tag c) (map (resolved idf G U) xs) st = fold (similarity_step c) xs st"
  using assms(1) by (induction xs arbitrary: st) (simp_all add: similarity_cached_step [where post = post and gs = gs, OF _ assms(2)])

lemma similarity_agrees:
  assumes plain: "no_blank_tags post" and idf: "idf = sc_idf c"
  shows "similarity_cached c (from_post_with_user post idf G (Some U)) = similarity_channel c post"
proof -
  let ?order = "[Artist, Character, Copyright, General, Lore, Meta, Species]"
  have "similarity_groups post = map (\<lambda>g. (g, group_tags post g)) ?order" by (simp add: similarity_groups_def group_tags_def)
  then have direct: "similarity_channel c post = blend_jaccard c (fold (similarity_step c) (named post ?order) (0, 0, 0, 0))"
    unfolding similarity_channel_def by (simp only: similarity_loop_named)
  have perm: "mset (named post all_groups) = mset (named post ?order)"
    by (rule mset_named) (simp add: all_groups_def add_mset_commute)
  show ?thesis
    unfolding similarity_cached_def cached_tags [OF plain] similarity_cached_fold [OF subset_refl idf] direct
      similarity_fold_perm [OF perm] ..
qed

lemma filter_named: "filter (\<lambda>x. P (fst x)) (named post gs) = named post (filter P gs)"
  by (induction gs) (simp_all add: filter_map o_def)

lemma ct_group_resolved [simp]: "ct_group (resolved idf G U x) = fst x"
  by (cases x) (simp add: resolved_def)

lemma ct_lc_resolved [simp]: "ct_lc (resolved idf G U x) = normalize_tag (snd x)"
  by (cases x) (simp add: resolved_def)

lemma content_cached_fold:
  assumes "set xs \<subseteq> set (named post gs)" "idf = sc_idf c"
  shows "fold (\<lambda>ct st. if ct_group ct = Artist \<or> ct_group ct = Meta then st else similarity_cached_tag c ct st)
      (map (resolved idf G U) xs) st =
    fold (similarity_step c) (filter (\<lambda>x. fst x \<noteq> Artist \<and> fst x \<noteq> Meta) xs) st"
  using assms(1)
  by (induction xs arbitrary: st) (simp_all add: similarity_cached_step [where post = post and gs = gs, OF _ assms(2)])

lemma content_agrees:
  assumes idf: "idf = sc_idf c" and meta: "sc_group_wts c Meta \<le> 0"
  shows "fold (\<lambda>ct st. if ct_group ct = Artist \<or> ct_group ct = Meta then st else similarity_cached_tag c ct st)
      (map (resolved idf G U) (named post all_groups)) (0, 0, 0, 0) = similarity_loop c (content_groups post)"
proof -
  let ?rest = "[Character, Copyright, Species, General, Lore]" and ?order = "[Character, Copyright, General, Lore, Meta, Species]"
  have "content_groups post = map (\<lambda>g. (g, group_tags post g)) ?order" by (simp add: content_groups_def group_tags_def)
  then have "similarity_loop c (content_groups post) = fold (similarity_step c) (named post ?order) (0, 0, 0, 0)"
    by (simp only: similarity_loop_named)
  also have "\<dots> = fold (similarity_step c) (named post (?rest @ [Meta])) (0, 0, 0, 0)"
    by (rule similarity_fold_perm, rule mset_named) (simp add: add_mset_commute)
  also have "\<dots> = fold (similarity_step c) (named post [Meta]) (fold (similarity_step c) (named post ?rest) (0, 0, 0, 0))"
    unfolding named_append fold_append o_def ..
  also have "\<dots> = fold (similarity_step c) (named post ?rest) (0, 0, 0, 0)"
  proof -
    have "fold (similarity_step c) (map (Pair Meta) ts) st = st" for ts st
      using meta by (induction ts) (simp_all add: similarity_step_def)
    then show ?thesis by simp
  qed
  finally have direct: "similarity_loop c (content_groups post) = fold (similarity_step c) (named post ?rest) (0, 0, 0, 0)" .
  have "filter (\<lambda>x. fst x \<noteq> Artist \<and> fst x \<noteq> Meta) (named post all_groups) = named post ?rest"
    using filter_named [of "\<lambda>g. g \<noteq> Artist \<and> g \<noteq> Meta" post all_groups] by (simp add: all_groups_def)
  then show ?thesis unfolding content_cached_fold [OF subset_refl idf] direct by (rule arg_cong)
qed

lemma discovery_agrees:
  assumes plain: "no_blank_tags post" and idf: "idf = sc_idf c" and meta: "sc_group_wts c Meta \<le> 0"
  shows "discovery_cached c (from_post_with_user post idf G (Some U)) = discovery_channel c post"
proof -
  let ?r = "resolved idf G U"
  let ?names = "filter (\<lambda>t. t \<noteq> []) (artist (tags post))"
  have tags: "filter (\<lambda>ct. ct_group ct = Artist) (map ?r (named post all_groups)) = map ?r (named post [Artist])"
    using filter_named [of "\<lambda>g. g = Artist" post all_groups] by (simp add: filter_map o_def all_groups_def)
  have lc: "map ct_lc (map ?r (named post [Artist])) = map normalize_tag ?names" by (simp add: group_tags_def)
  have cached: "discovery_cached c (from_post_with_user post idf G (Some U)) =
      (if ?names = [] then 0 else if new_artists c (map normalize_tag ?names) = 0 then 0
       else discovery_of c (new_artists c (map normalize_tag ?names)) (similarity_loop c (content_groups post)))"
    unfolding discovery_cached_def cached_tags [OF plain] Let_def content_agrees [OF idf meta] tags lc
    by (simp add: group_tags_def)
  show ?thesis
  proof (cases "?names = []")
    case True
    then show ?thesis unfolding cached discovery_channel_def by (simp add: new_artists_def)
  next
    case False
    then have "artist (tags post) \<noteq> []" by auto
    then show ?thesis using False unfolding cached discovery_channel_def by (simp add: Let_def)
  qed
qed

section \<open>Relations, exclusivity, novelty\<close>

lemma relation_agrees:
  assumes plain: "no_blank_tags post" and G: "G = sc_global_relation c" and U: "U = sc_user_relation c"
  shows "relation_cached c (from_post_with_user post idf G (Some U)) = relation_channel c post"
proof -
  let ?f = "\<lambda>ct. if ct_group ct = Meta then None else if sc_group_wts c (ct_group ct) \<le> 0 then None
       else Some (sc_group_wts c (ct_group ct), ct_global_tid ct, ct_user_tid ct)"
  let ?e = "\<lambda>g t. let tlc = normalize_tag t in (sc_group_wts c g, tag_id (group_index g) tlc (sc_global_relation c),
      tag_id (group_index g) tlc (sc_user_relation c))"
  have one: "List.map_filter ?f (map (resolved idf G U) (map (Pair g) ts)) =
      (if g = Meta \<or> sc_group_wts c g \<le> 0 then [] else map (?e g) ts)" for g ts
    by (cases "g = Meta \<or> sc_group_wts c g \<le> 0"; induction ts) (auto simp: List.map_filter_simps resolved_def G U Let_def)
  have app: "List.map_filter h (xs @ ys) = List.map_filter h xs @ List.map_filter h ys" for h :: "CachedTag \<Rightarrow> relation_entry option" and xs ys
    by (induction xs) (auto simp: List.map_filter_simps split: option.splits)
  have "List.map_filter ?f (map (resolved idf G U) (named post gs)) =
      concat (map (\<lambda>g. if g = Meta \<or> sc_group_wts c g \<le> 0 then [] else map (?e g) (filter (\<lambda>t. t \<noteq> []) (group_tags post g))) gs)" for gs
    by (induction gs) (simp_all only: named_simps map_append app one list.map concat.simps List.map_filter_simps)
  note cached = this
  have "relation_entries c post = concat (map (\<lambda>g. if g = Meta \<or> sc_group_wts c g \<le> 0 then []
      else map (?e g) (filter (\<lambda>t. t \<noteq> []) (group_tags post g))) all_groups)"
    by (simp add: relation_entries_def relation_groups_def all_groups_def group_tags_def)
  then have "relation_cached_entries c (from_post_with_user post idf G (Some U)) = relation_entries c post"
    unfolding relation_cached_entries_def cached_tags [OF plain] cached by simp
  then show ?thesis by (simp add: relation_cached_def relation_channel_def)
qed

lemma sort_key_map: "map f (sort_key (\<lambda>x. k (f x)) xs) = sort_key k (map f xs)"
proof (induction xs)
  case (Cons x xs)
  have "map f (insort_key (\<lambda>x. k (f x)) x ys) = insort_key k (f x) (map f ys)" for x ys
    by (induction ys) auto
  then show ?case using Cons by simp
qed simp

lemma top_entries_map: "map f (top_entries n (\<lambda>x. w (f x)) xs) = top_entries n w (map f xs)"
  using sort_key_map [of f "\<lambda>e. - w e" xs] by (simp add: top_entries_def take_map [symmetric])

lemma exclusivity_agrees:
  assumes plain: "no_blank_tags post" and idf: "idf = sc_idf c" and G: "G = sc_global_relation c"
  shows "exclusivity_cached c (from_post_with_user post idf G (Some U)) = exclusivity_channel c post"
proof -
  let ?r = "resolved idf G U" and ?pair = "\<lambda>(w, lc, gi, i). (w, i)"
  have entries: "exclusivity_cached_entries c (from_post_with_user post idf G (Some U)) g =
      map ?pair (exclusivity_entries c post g)" for g
  proof -
    let ?ts = "filter (\<lambda>t. t \<noteq> []) (group_tags post g)"
    have "filter (\<lambda>ct. ct_group ct = g) (map ?r (named post all_groups)) = map ?r (named post [g])"
      using filter_named [of "\<lambda>h. h = g" post all_groups] by (cases g) (simp_all add: filter_map o_def all_groups_def)
    then have sel: "filter (\<lambda>ct. ct_group ct = g) (cf_tags (from_post_with_user post idf G (Some U))) = map ?r (map (Pair g) ?ts)"
      by (simp add: cached_tags [OF plain])
    let ?h = "\<lambda>ct. if sc_group_wts c (ct_group ct) \<le> 0 then None
       else let p = sc_priors c;
                weight = sc_group_wts c (ct_group ct) * idf_tempered_from_df (sc_idf c) (ct_df_raw ct) (df_floor p) (idf_max p)
                  (idf_rsj_smoothing p) (idf_lambda p) (idf_alpha p)
            in map_option (\<lambda>i. (weight, i)) (ct_global_tid ct)"
    have "List.map_filter ?h (map ?r (map (Pair g) ts)) =
        (if sc_group_wts c g \<le> 0 then []
         else map ?pair (List.map_filter (\<lambda>t. let lc = normalize_tag t in
           case tag_id (group_index g) lc (sc_global_relation c) of
             None \<Rightarrow> None | Some i \<Rightarrow> Some (exclusivity_weight c g lc, lc, group_index g, i)) ts))" for ts
      by (induction ts)
        (simp_all add: List.map_filter_simps resolved_def G idf tempered_from_df exclusivity_weight_def Let_def split: option.splits)
    then show ?thesis unfolding exclusivity_cached_entries_def exclusivity_entries_def sel by simp
  qed
  have "map snd (top_entries n fst (map ?pair es)) = map (\<lambda>(w, lc, gi, i). i) (top_entries n fst es)"
    for n and es :: "(f32 \<times> ustr \<times> nat \<times> TagId) list"
  proof -
    have "top_entries n fst (map ?pair es) = map ?pair (top_entries n fst es)"
      using top_entries_map [of ?pair n fst es] by (simp add: case_prod_unfold)
    then show ?thesis by (simp add: case_prod_unfold)
  qed
  then show ?thesis unfolding exclusivity_cached_def exclusivity_channel_def entries by simp
qed

lemma novelty_agrees:
  assumes plain: "no_blank_tags post"
  shows "novelty_cached c (from_post_with_user post idf G (Some U)) = novelty_channel c post"
proof -
  let ?cached = "\<lambda>ct st. if sc_group_wts c (ct_group ct) \<le> 0 then st else add_novelty c (ct_group ct) (ct_lc ct) st"
  let ?tag = "\<lambda>g t st. if t = [] then st else add_novelty c g (normalize_tag t) st"
  have one: "fold ?cached (map (resolved idf G U) (map (Pair g) (filter (\<lambda>t. t \<noteq> []) ts))) st =
      (if sc_group_wts c g \<le> 0 then st else fold (?tag g) ts st)" for g ts st
    by (induction ts arbitrary: st) auto
  have "fold ?cached (map (resolved idf G U) (named post gs)) st =
      fold (\<lambda>g st. if sc_group_wts c g \<le> 0 then st else fold (?tag g) (group_tags post g) st) gs st" for gs st
    by (induction gs arbitrary: st) (simp_all only: named_simps map_append fold_append o_def one list.map fold_simps)
  then show ?thesis by (simp only: novelty_cached_def novelty_channel_def cached_tags [OF plain])
qed

section \<open>The score\<close>

lemma context_fields:
  "sc_idf (new_with_blacklist to_bits counts p idf profile G U B) = idf"
  "sc_global_relation (new_with_blacklist to_bits counts p idf profile G U B) = G"
  "sc_user_relation (new_with_blacklist to_bits counts p idf profile G U B) = U"
  "sc_group_wts (new_with_blacklist to_bits counts p idf profile G U B) = group_wt p"
  "sc_priors (new_with_blacklist to_bits counts p idf profile G U B) = p"
  by (simp_all add: new_with_blacklist_def from_base_def Let_def)

text \<open>C30. The calibration scores a post from the features it resolved once; on every post without a
  blank tag that gives the score and all eleven channels of the feed's own scorer, whatever the
  account, its blacklist and the parameters.\<close>

theorem cached_score_agrees:
  assumes "no_blank_tags post"
  shows "score_cached (new_with_blacklist to_bits counts p idf profile G U B) (from_post_with_user post idf G (Some U)) =
    score (new_with_blacklist to_bits counts p idf profile G U B) post"
proof -
  let ?c = "new_with_blacklist to_bits counts p idf profile G U B" and ?f = "from_post_with_user post idf G (Some U)"
  note fields = context_fields [of to_bits counts p idf profile G U B]
  have "sc_group_wts ?c Meta \<le> 0" by (simp add: fields)
  note channels = similarity_agrees [OF assms fields(1) [symmetric]] discovery_agrees [OF assms fields(1) [symmetric] this]
    relation_agrees [OF assms fields(2) [symmetric] fields(3) [symmetric]]
    exclusivity_agrees [OF assms fields(1) [symmetric] fields(2) [symmetric]] novelty_agrees [OF assms]
  have "quality_cached ?c ?f = quality_channel ?c post" "popularity_cached ?c ?f = popularity_channel ?c post"
    "rating_cached ?c ?f = rating_channel ?c post" "media_cached ?c ?f = media_channel ?c post"
    "uploader_cached ?c ?f = uploader_channel ?c post" "cf_created_at ?f = created_at post"
    by (simp_all add: quality_cached_def quality_channel_def popularity_cached_def popularity_channel_def rating_cached_def
        rating_channel_def media_cached_def media_channel_def uploader_cached_def uploader_channel_def
        from_post_with_user_def Let_def)
  then show ?thesis unfolding score_cached_def score_def Let_def by (simp only: channels)
qed

definition empty_profile :: AccountPreferenceProfile where
  "empty_profile = \<lparr>pf_rating = [], pf_media = [], pf_feedback = [],
     pf_quality = \<lparr>avg_score_total = 0, avg_fav_count = 0, avg_comment_count = 0, avg_duration = 0\<rparr>,
     pf_recency = \<lparr>avg_age_days = 0, avg_abs_dev_days = 0\<rparr>, pf_uploaders = [], pf_last_refreshed_at = None,
     pf_preferred_tags = []\<rparr>"

definition demo_context :: ScoringContext where
  "demo_context = new_with_blacklist (\<lambda>_. 0) [\<lparr>tc_name = lit ''otter'', tc_group_type = lit ''species'', tc_count = 3\<rparr>]
     (priors_default 0) empty_index empty_profile empty_graph empty_graph {lit ''gore''}"

theorem cached_score_agrees_witness:
  "score_cached demo_context (from_post_with_user (sample_post 1 0 [[97]]) empty_index empty_graph (Some empty_graph)) =
   score demo_context (sample_post 1 0 [[97]])"
  unfolding demo_context_def
proof (rule cached_score_agrees)
  have "trim [97] = [97]" by (simp add: trim_def trim_matches_def is_whitespace_def)
  then show "no_blank_tags (sample_post 1 0 [[97]])"
    by (simp add: no_blank_tags_def group_tags_def sample_post_def Tags_default_def split: Group.split)
qed

text \<open>A tag of blanks is where the two part: the feed counts it as a novel tag, the resolved features
  have no such tag.\<close>

definition new_account :: ScoringContext where
  "new_account = context_new (\<lambda>_. 0) [] (priors_default 0) empty_index empty_profile empty_graph empty_graph"

theorem blank_tag_splits_scores:
  "novelty_channel new_account (sample_post 1 0 [[32]]) = 1 \<and>
   novelty_cached new_account (from_post_with_user (sample_post 1 0 [[32]]) empty_index empty_graph (Some empty_graph)) = 0"
proof -
  have blank: "trim [32] = []" "normalize_tag [32] = []"
    by (simp_all add: normalize_tag_def trim_def trim_matches_def is_whitespace_def)
  have none: "sc_user new_account g = []" "sc_feedback new_account g = []" for g
    by (simp_all add: new_account_def context_new_def new_with_blacklist_def from_base_def context_base_new_def tag_vector_def
        feedback_map_def empty_profile_def Let_def)
  have w: "sc_group_wts new_account = group_wt (priors_default 0)" "sc_priors new_account = priors_default 0"
    by (simp_all add: new_account_def context_new_def context_fields)
  show ?thesis
    by (simp add: novelty_channel_def novelty_cached_def from_post_with_user_def all_groups_def group_tags_def sample_post_def
        Tags_default_def resolve_tag_def List.map_filter_simps blank novelty_result_def w priors_default_def add_novelty_def
        tag_novelty_def none clamp01_def)
qed

end
