(* ===== verification/Scorer_Bounds.thy ===== *)
theory Scorer_Bounds
  imports Scorer_Equal
begin

text \<open>
  What the score promises whatever the parameters: every channel and the score lie between zero and
  one, the weights are shares of their absolute sum, the blend grows with each channel, and only the
  ratio of the weights counts.
\<close>

section \<open>Ranges of the shapes\<close>

abbreviation unit_range :: "f32 \<Rightarrow> bool" where
  "unit_range v \<equiv> 0 \<le> v \<and> v \<le> 1"

named_theorems unit_ranges

lemma unit_clamp01 [unit_ranges]: "unit_range (clamp01 v)"
  using clamp01_range by blast

lemma unit_neutral [unit_ranges]: "unit_range FEEDBACK_NEUTRAL"
  by (simp add: FEEDBACK_NEUTRAL_def)

lemma unit_sigmoid [unit_ranges]: "unit_range (sigmoid x)" "unit_range (1 - sigmoid x)"
proof -
  have "0 < 1 / (1 + exp (- x))" "1 / (1 + exp (- x)) \<le> 1" by (simp_all add: add_pos_pos)
  then show "unit_range (sigmoid x)" "unit_range (1 - sigmoid x)" by (simp_all add: sigmoid_def)
qed

lemma unit_blend [unit_ranges]: "unit_range (blend2 a wa b wb)" "unit_range (blend3 a wa b wb c wc)"
  by (simp_all add: blend2_def blend3_def Let_def unit_clamp01)

lemma unit_ratio [unit_ranges]: "unit_range (one_sided_ratio v b e)" "unit_range (smoothed_one_sided_ratio v b e k)"
  by (simp_all add: one_sided_ratio_def smoothed_one_sided_ratio_def Let_def unit_clamp01 unit_neutral)

lemma unit_share: "0 \<le> x \<Longrightarrow> 0 \<le> y \<Longrightarrow> unit_range (x / (x + y))"
  by (cases "x + y = 0") (auto simp: divide_simps)

lemma unit_confidence [unit_ranges]: "unit_range (confidence n n0 p)"
  using unit_share [of "max 0 n" "max (1 / 1000) n0"] unit_share [OF powf_nonneg powf_nonneg]
  by (simp add: confidence_def Let_def le_max_iff_disj)

lemma unit_convex: "unit_range a \<Longrightarrow> unit_range b \<Longrightarrow> unit_range t \<Longrightarrow> unit_range (a * (1 - t) + b * t)"
proof
  assume u: "unit_range a" "unit_range b" "unit_range t"
  then show "0 \<le> a * (1 - t) + b * t" by simp
  have "a * (1 - t) \<le> 1 * (1 - t)" "b * t \<le> 1 * t" using u by (intro mult_right_mono; simp)+
  then show "a * (1 - t) + b * t \<le> 1" by simp
qed

lemma unit_mean:
  assumes "unit_range a" "unit_range b" "0 < x" "0 \<le> y"
  shows "unit_range ((a * x + b * y) / (x + y))"
proof -
  have "a * x \<le> 1 * x" "b * y \<le> 1 * y" using assms by (intro mult_right_mono; simp)+
  then have "a * x + b * y \<le> x + y" by linarith
  moreover have "0 \<le> a * x + b * y" using assms by simp
  ultimately show ?thesis using assms(3,4) by simp
qed

lemma unit_discrete:
  assumes "lo \<le> 1"
  shows "unit_range (discrete_preference_smooth tot matched k alpha lo)"
  using assms by (auto simp: discrete_preference_smooth_def Let_def unit_neutral clamp_def le_max_iff_disj)

section \<open>Ranges of the channels\<close>

lemma unit_cosine [unit_ranges]: "unit_range (cosine c d n)"
  by (simp add: cosine_def unit_clamp01)

lemma unit_similarity [unit_ranges]: "unit_range (similarity_channel c post)"
  by (simp add: similarity_channel_def blend_jaccard_def Let_def unit_clamp01 unit_cosine split: prod.split)

lemma unit_quality [unit_ranges]: "unit_range (quality_channel c post)"
proof -
  have ratio: "unit_range (if u + d > 0 then u / (u + d) else 1 / 2)" if "0 \<le> u" "0 \<le> d" for u d :: f32
    using unit_share [OF that] by simp
  show ?thesis
    unfolding quality_channel_def quality_of_def Let_def
    using unit_mean [OF unit_blend(2) ratio] ratio by (auto simp: unit_ranges)
qed

lemma unit_popularity [unit_ranges]: "unit_range (popularity_channel c post)"
  by (simp add: popularity_channel_def popularity_of_def Let_def unit_blend)

lemma unit_rating [unit_ranges]: "unit_range (rating_channel c post)"
  by (simp add: rating_channel_def rating_of_def Let_def unit_clamp01)

lemma unit_relation [unit_ranges]: "unit_range (relation_channel c post)"
  by (simp add: relation_channel_def relation_of_def Let_def unit_clamp01 unit_neutral split: prod.split)

lemma unit_uploader [unit_ranges]: "unit_range (uploader_channel c post)"
  using unit_convex [OF unit_neutral unit_blend(1) unit_confidence]
  by (simp add: uploader_channel_def uploader_of_def Let_def unit_neutral split: option.split)

lemma unit_recency [unit_ranges]: "unit_range (recency_channel c age)"
  by (simp add: recency_channel_def Let_def unit_clamp01 unit_blend)

lemma unit_exclusivity [unit_ranges]: "unit_range (exclusivity_channel c post)"
  by (simp add: exclusivity_channel_def exclusivity_of_def Let_def unit_sigmoid split: prod.split)

lemma unit_discovery [unit_ranges]: "unit_range (discovery_channel c post)"
  by (simp add: discovery_channel_def discovery_of_def Let_def unit_clamp01 split: prod.split)

lemma unit_novelty [unit_ranges]: "unit_range (novelty_channel c post)"
  by (simp add: novelty_channel_def novelty_result_def unit_clamp01 split: prod.split)

lemma unit_blend_score [unit_ranges]: "unit_range (blend_score w chs t)"
  by (simp add: blend_score_def Let_def unit_clamp01)

text \<open>The eleven channels in the order of the blend.\<close>

definition channel_values :: "ScoreBreakdown \<Rightarrow> f32 list" where
  "channel_values b =
     [tag_similarity b, quality_fit b, recency_fit b, rating_fit b, media_fit b, popularity_fit b, tag_relation_fit b,
      uploader_fit b, exclusivity_fit b, novelty_fit b, artist_discovery_fit b]"



section \<open>The weights\<close>

lemma raw_mix_from_priors:
  "\<not> sum_list (map abs (raw_mix p)) \<le> f32_EPSILON \<Longrightarrow>
     as_array (from_priors p) = map (\<lambda>x. x / sum_list (map abs (raw_mix p))) (raw_mix p)"
  by (simp add: from_priors_def as_array_def raw_mix_def Let_def)

lemma final_blend_alt: "final_blend c b = blend_score (as_array (sc_mix c)) (channel_values b) (score_temperature (sc_priors c))"
  by (simp add: final_blend_def channel_values_def)

lemma blend_raw: "foldl (\<lambda>r (wc, sc). r + wc * sc) r0 (zip w chs) = r0 + sum_list (map2 (*) w chs)"
proof (induction w arbitrary: r0 chs)
  case (Cons x w)
  then show ?case by (cases chs) (simp_all add: add.assoc)
qed simp

text \<open>The weights of the blend are shares: their absolute values add up to one, for every
  configuration, the all-zero one included.\<close>

theorem mix_weights_are_shares:
  "sum_list (map abs (normalised_mix_weights p)) = 1 \<and> length (normalised_mix_weights p) = BLEND_CHANNEL_COUNT"
proof (cases "sum_list (map abs (raw_mix p)) \<le> f32_EPSILON")
  case True
  then show ?thesis
    by (simp add: normalised_mix_weights_def from_priors_def Let_def sim_only_def as_array_def BLEND_CHANNEL_COUNT_def)
next
  case False
  let ?s = "sum_list (map abs (raw_mix p))"
  have pos: "0 < ?s" using False by (simp add: f32_EPSILON_def)
  have "sum_list (map (\<lambda>x. \<bar>x / ?s\<bar>) xs) = sum_list (map abs xs) / ?s" for xs
    using pos by (induction xs) (simp_all add: add_divide_distrib)
  then have "sum_list (map abs (map (\<lambda>x. x / ?s) (raw_mix p))) = 1" using pos by (simp add: o_def)
  then show ?thesis using False
    by (simp add: normalised_mix_weights_def raw_mix_from_priors) (simp add: raw_mix_def BLEND_CHANNEL_COUNT_def)
qed

text \<open>Only the ratio of the weights counts.\<close>

definition scale_mix :: "f32 \<Rightarrow> Priors \<Rightarrow> Priors" where
  "scale_mix k p = p\<lparr>mix_sim := k * mix_sim p, mix_quality := k * mix_quality p, mix_recency := k * mix_recency p,
     mix_rating := k * mix_rating p, mix_media := k * mix_media p, mix_popularity := k * mix_popularity p,
     mix_tag_relation := k * mix_tag_relation p, mix_uploader := k * mix_uploader p,
     mix_exclusivity := k * mix_exclusivity p, mix_novelty := k * mix_novelty p,
     mix_artist_discovery := k * mix_artist_discovery p\<rparr>"

theorem mix_counts_by_ratio:
  assumes "0 < k" "f32_EPSILON < sum_list (map abs (raw_mix p))" "f32_EPSILON < k * sum_list (map abs (raw_mix p))"
  shows "normalised_mix_weights (scale_mix k p) = normalised_mix_weights p"
proof -
  have raw: "raw_mix (scale_mix k p) = map ((*) k) (raw_mix p)" by (simp add: raw_mix_def scale_mix_def)
  have "sum_list (map abs (map ((*) k) xs)) = k * sum_list (map abs xs)" for xs
    using assms(1) by (induction xs) (simp_all add: abs_mult distrib_left)
  note sum = this [of "raw_mix p"]
  have "\<not> sum_list (map abs (raw_mix (scale_mix k p))) \<le> f32_EPSILON" using assms(3) unfolding raw sum by simp
  note scaled = raw_mix_from_priors [OF this, unfolded raw sum]
  have "\<not> sum_list (map abs (raw_mix p)) \<le> f32_EPSILON" using assms(2) by simp
  note plain = raw_mix_from_priors [OF this]
  show ?thesis unfolding normalised_mix_weights_def scaled plain using assms(1) by simp
qed

theorem mix_counts_by_ratio_witness:
  "normalised_mix_weights (scale_mix 2 (priors_default 0)) = normalised_mix_weights (priors_default 0)"
  by (rule mix_counts_by_ratio) (simp_all add: raw_mix_def priors_default_def f32_EPSILON_def)

section \<open>The blend\<close>

lemma sigmoid_mono: "x \<le> y \<Longrightarrow> sigmoid x \<le> sigmoid y"
  by (simp add: sigmoid_def frac_le add_pos_pos)

lemma clamp01_mono: "x \<le> y \<Longrightarrow> clamp01 x \<le> clamp01 y"
  by (auto simp: clamp01_def)

lemma weighted_sum_mono:
  fixes w xs ys :: "f32 list"
  assumes "list_all2 (\<le>) xs ys" "list_all (\<lambda>x. 0 \<le> x) w"
  shows "sum_list (map2 (*) w xs) \<le> sum_list (map2 (*) w ys)"
  using assms
proof (induction arbitrary: w rule: list_all2_induct)
  case (Cons x xs y ys)
  then show ?case by (cases w) (auto intro: add_mono mult_left_mono)
qed simp

text \<open>With weights that are not negative a post that does at least as well in every channel scores at
  least as high, with or without the sigmoid sharpening.\<close>

theorem blend_is_monotone:
  assumes "list_all2 (\<le>) (channel_values a) (channel_values b)" and "list_all (\<lambda>x. 0 \<le> x) (as_array (sc_mix c))"
  shows "final_blend c a \<le> final_blend c b"
proof -
  have "sum_list (map2 (*) (as_array (sc_mix c)) (channel_values a)) \<le> sum_list (map2 (*) (as_array (sc_mix c)) (channel_values b))"
    by (rule weighted_sum_mono [OF assms])
  then have raw: "clamp01 (sum_list (map2 (*) (as_array (sc_mix c)) (channel_values a)))
      \<le> clamp01 (sum_list (map2 (*) (as_array (sc_mix c)) (channel_values b)))" by (rule clamp01_mono)
  then have "sigmoid ((clamp01 (sum_list (map2 (*) (as_array (sc_mix c)) (channel_values a))) - 1 / 2) * t)
      \<le> sigmoid ((clamp01 (sum_list (map2 (*) (as_array (sc_mix c)) (channel_values b))) - 1 / 2) * t)" if "0 \<le> t" for t
    using that by (intro sigmoid_mono mult_right_mono) simp_all
  with raw show ?thesis
    by (auto simp: final_blend_alt blend_score_def blend_raw Let_def intro!: clamp01_mono)
qed

theorem blend_is_monotone_witness:
  "final_blend demo_context ((snd (score demo_context (sample_post 1 0 [])))\<lparr>novelty_fit := 0\<rparr>)
   \<le> final_blend demo_context (snd (score demo_context (sample_post 1 0 [])))"
proof (rule blend_is_monotone)
  have "0 \<le> novelty_channel demo_context (sample_post 1 0 [])" using unit_novelty by blast
  then show "list_all2 (\<le>) (channel_values ((snd (score demo_context (sample_post 1 0 [])))\<lparr>novelty_fit := 0\<rparr>))
      (channel_values (snd (score demo_context (sample_post 1 0 []))))"
    by (simp add: channel_values_def score_def Let_def)
  show "list_all (\<lambda>x. 0 \<le> x) (as_array (sc_mix demo_context))"
  proof -
    have "sc_mix demo_context = from_priors (priors_default 0)"
      by (simp add: demo_context_def new_with_blacklist_def from_base_def Let_def)
    moreover have "\<not> sum_list (map abs (raw_mix (priors_default 0))) \<le> f32_EPSILON"
      by (simp add: raw_mix_def priors_default_def f32_EPSILON_def)
    ultimately show ?thesis by (simp add: raw_mix_from_priors) (simp add: raw_mix_def priors_default_def)
  qed
qed

end
