(* ===== verification/Scorer_Profile.thy ===== *)
theory Scorer_Profile
  imports Scorer_Bounds
begin

text \<open>
  The account's side of the score: the cached norm and count are those of the tag vector, a
  blacklisted tag counts as if it had never been favourited, and the cached base depends on nothing
  but the parameters its fingerprint is made of.
\<close>

section \<open>The tag vector and its norm\<close>

definition kept_entries :: "ustr set \<Rightarrow> tag_weights \<Rightarrow> tag_weights" where
  "kept_entries B user = (\<lambda>g. filter (\<lambda>(t, w). t \<notin> B) (user g))"

lemma insert_fresh: "tbl_get m k = None \<Longrightarrow> tbl_insert k v m = m @ [(k, v)]"
  unfolding tbl_get_def tbl_insert_def by (induction m) (auto split: if_splits)

lemma filter_insert: "filter (\<lambda>(t, w). t \<notin> B) (tbl_insert k v m) =
    (if k \<in> B then filter (\<lambda>(t, w). t \<notin> B) m else tbl_insert k v (filter (\<lambda>(t, w). t \<notin> B) m))"
  unfolding tbl_insert_def by (induction m) auto

lemma get_kept: "t \<notin> B \<Longrightarrow> tbl_get (kept_entries B user g) t = tbl_get (user g) t"
proof -
  assume "t \<notin> B"
  then have "map_of (filter (\<lambda>(t, w). t \<notin> B) m) t = map_of m t" for m :: "(ustr, f32) table" by (induction m) auto
  then show ?thesis by (simp add: tbl_get_def kept_entries_def)
qed

lemma sq_norm_add_fresh:
  "tbl_get (user grp) t = None \<Longrightarrow> sq_norm (add_weight grp t w user) = sq_norm user + w * w"
  "tbl_get (user grp) t = None \<Longrightarrow> n_entries (add_weight grp t w user) = n_entries user + 1"
  by (cases grp; simp add: sq_norm_def n_entries_def add_weight_def entry_weight_def insert_fresh all_groups_def)+

lemma add_preferred_norm:
  "add_preferred idf p pt (user, norm_sq, n) = (user', norm_sq', n') \<Longrightarrow>
     norm_sq = sq_norm user \<Longrightarrow> n = n_entries user \<Longrightarrow> norm_sq' = sq_norm user' \<and> n' = n_entries user'"
  by (auto simp: add_preferred_def Let_def sq_norm_add_fresh split: option.splits if_splits)

lemma preferred_norm:
  "fold (add_preferred idf p) pts (user, sq_norm user, n_entries user) = (user', norm_sq', n') \<Longrightarrow>
     norm_sq' = sq_norm user' \<and> n' = n_entries user'"
proof (induction pts arbitrary: user)
  case (Cons pt pts)
  obtain u s n where step: "add_preferred idf p pt (user, sq_norm user, n_entries user) = (u, s, n)" by (metis prod_cases3)
  then show ?case using Cons add_preferred_norm [OF step refl refl] by simp
qed simp

text \<open>The account's vector, from the counts and the preferred tags.\<close>

definition account_vector :: "TagCount list \<Rightarrow> Priors \<Rightarrow> IdfIndex \<Rightarrow> AccountPreferenceProfile \<Rightarrow> tag_weights" where
  "account_vector counts p idf profile = cb_user (context_base_new (\<lambda>_. 0) counts p idf profile)"

lemma account_vector_eq:
  "account_vector counts p idf profile = fst (fold (add_preferred idf p) (pf_preferred_tags profile)
     (tag_vector counts idf p, sq_norm (tag_vector counts idf p), n_entries (tag_vector counts idf p)))"
  by (simp add: account_vector_def context_base_new_def Let_def split: prod.split)

lemma base_fields:
  "cb_user (context_base_new to_bits counts p idf profile) = account_vector counts p idf profile"
  "cb_u_norm (context_base_new to_bits counts p idf profile) = sqrt (sq_norm (account_vector counts p idf profile))"
  "cb_user_tag_count (context_base_new to_bits counts p idf profile) = n_entries (account_vector counts p idf profile)"
proof -
  obtain user s n where f: "fold (add_preferred idf p) (pf_preferred_tags profile)
      (tag_vector counts idf p, sq_norm (tag_vector counts idf p), n_entries (tag_vector counts idf p)) = (user, s, n)"
    by (metis prod_cases3)
  note norm = preferred_norm [OF f]
  have vec: "account_vector counts p idf profile = user" by (simp add: account_vector_eq f)
  show "cb_user (context_base_new to_bits counts p idf profile) = account_vector counts p idf profile"
    "cb_u_norm (context_base_new to_bits counts p idf profile) = sqrt (sq_norm (account_vector counts p idf profile))"
    "cb_user_tag_count (context_base_new to_bits counts p idf profile) = n_entries (account_vector counts p idf profile)"
    unfolding vec context_base_new_def Let_def f using norm by simp_all
qed

lemma norm_split: "sq_norm user = sq_norm (kept_entries B user) + sq_norm (blacklisted_entries B user)"
  "n_entries user = n_entries (kept_entries B user) + n_entries (blacklisted_entries B user)"
proof -
  have "sum_list (map (\<lambda>(t, w). w * w) m) = sum_list (map (\<lambda>(t, w). w * w) (filter (\<lambda>(t, w). t \<notin> B) m))
      + sum_list (map (\<lambda>(t, w). w * w) (filter (\<lambda>(t, w). t \<in> B) m))"
    "length m = length (filter (\<lambda>(t, w). t \<notin> B) m) + length (filter (\<lambda>(t, w). t \<in> B) m)" for m :: "(ustr, f32) table"
  proof (induction m)
    case (Cons e m)
    { case 1 show ?case using Cons by (cases e) simp }
    { case 2 show ?case using Cons by (cases e) simp }
  qed simp_all
  note split = this
  note at = split [of "user Artist"] split [of "user Character"] split [of "user Copyright"] split [of "user Species"]
    split [of "user General"] split [of "user Lore"] split [of "user Meta"]
  show "sq_norm user = sq_norm (kept_entries B user) + sq_norm (blacklisted_entries B user)"
    "n_entries user = n_entries (kept_entries B user) + n_entries (blacklisted_entries B user)"
    unfolding sq_norm_def n_entries_def kept_entries_def blacklisted_entries_def all_groups_def
    using at by simp_all
qed

lemma sq_norm_nonneg [simp]: "0 \<le> sq_norm user"
proof -
  have "0 \<le> sum_list (map (\<lambda>(t, w). w * w) m)" for m :: "(ustr, f32) table" by (induction m) auto
  then show ?thesis by (simp add: sq_norm_def all_groups_def)
qed

lemma kept_nothing [simp]: "kept_entries {} user = user"
  by (simp add: kept_entries_def)

lemma context_norm:
  "sc_user (new_with_blacklist to_bits counts p idf profile G U B) = account_vector counts p idf profile"
  "sc_u_norm (new_with_blacklist to_bits counts p idf profile G U B) = sqrt (sq_norm (kept_entries B (account_vector counts p idf profile)))"
  "sc_user_tag_count (new_with_blacklist to_bits counts p idf profile G U B) = n_entries (kept_entries B (account_vector counts p idf profile))"
  "sc_blacklisted_tags (new_with_blacklist to_bits counts p idf profile G U B) = B"
proof -
  let ?v = "account_vector counts p idf profile" and ?c = "new_with_blacklist to_bits counts p idf profile G U B"
  have norm: "sqrt (max 0 (sq_norm ?v - sq_norm (blacklisted_entries B ?v))) = sqrt (sq_norm (kept_entries B ?v))"
    "n_entries ?v - n_entries (blacklisted_entries B ?v) = n_entries (kept_entries B ?v)"
    unfolding norm_split [of ?v B] by simp_all
  show "sc_user ?c = ?v" "sc_blacklisted_tags ?c = B"
    unfolding new_with_blacklist_def from_base_def Let_def by (simp_all add: base_fields)
  show "sc_u_norm ?c = sqrt (sq_norm (kept_entries B ?v))" "sc_user_tag_count ?c = n_entries (kept_entries B ?v)"
    unfolding new_with_blacklist_def from_base_def Let_def
    by (cases "B = {}"; simp add: base_fields norm)+
qed

section \<open>Blacklisted tags leave the profile\<close>

lemma kept_add: "kept_entries B (add_weight g t w user) = (if t \<in> B then kept_entries B user else add_weight g t w (kept_entries B user))"
  using get_kept [of t B user g]
  by (auto simp: kept_entries_def add_weight_def filter_insert entry_weight_def fun_eq_iff)

definition unlisted :: "ustr set \<Rightarrow> TagCount list \<Rightarrow> TagCount list" where
  "unlisted B counts = filter (\<lambda>t. normalize_tag (tc_name t) \<notin> B) counts"

lemma kept_tag_vector: "kept_entries B (tag_vector counts idf p) = tag_vector (unlisted B counts) idf p"
proof -
  have step: "kept_entries B (add_tag_count idf p t user) =
      (if normalize_tag (tc_name t) \<in> B then kept_entries B user else add_tag_count idf p t (kept_entries B user))" for t user
    by (auto simp: add_tag_count_def Let_def kept_add split: option.splits)
  have "kept_entries B (fold (add_tag_count idf p) counts user) = fold (add_tag_count idf p) (unlisted B counts) (kept_entries B user)" for user
    by (induction counts arbitrary: user) (simp_all add: unlisted_def step)
  then show ?thesis by (simp add: tag_vector_def kept_entries_def)
qed

lemma kept_preferred:
  assumes "kept_entries B user = kept_entries B user'"
  shows "kept_entries B (fst (fold (add_preferred idf p) pts (user, s, n))) = kept_entries B (fst (fold (add_preferred idf p) pts (user', s', n')))"
  using assms
proof (induction pts arbitrary: user user' s s' n n')
  case (Cons pt pts)
  obtain u r m u' r' m' where step: "add_preferred idf p pt (user, s, n) = (u, r, m)" "add_preferred idf p pt (user', s', n') = (u', r', m')"
    by (metis prod_cases3)
  have "kept_entries B u = kept_entries B u'"
  proof (cases "normalize_tag (wt_tag pt) \<in> B")
    case True
    then have "kept_entries B u = kept_entries B user" "kept_entries B u' = kept_entries B user'"
      using step by (auto simp: add_preferred_def Let_def kept_add split: option.splits if_splits)
    then show ?thesis using Cons.prems by simp
  next
    case False
    then have "tbl_get (user g) (normalize_tag (wt_tag pt)) = tbl_get (user' g) (normalize_tag (wt_tag pt))" for g
      using get_kept [OF False] Cons.prems by metis
    then show ?thesis using False step Cons.prems
      by (auto simp: add_preferred_def Let_def kept_add split: option.splits if_splits)
  qed
  then show ?case using Cons.IH step by simp
qed simp

lemma kept_account_vector:
  "kept_entries B (account_vector (unlisted B counts) p idf profile) = kept_entries B (account_vector counts p idf profile)"
proof -
  have "kept_entries B (tag_vector (unlisted B counts) idf p) = kept_entries B (tag_vector counts idf p)"
    unfolding kept_tag_vector by (simp add: unlisted_def)
  then show ?thesis unfolding account_vector_eq by (rule kept_preferred)
qed

text \<open>Blacklisting a tag has the effect on every similarity that removing it from the favourites
  would have: the vector, its norm and the counts of the Jaccard blend lose it alike.\<close>

theorem blacklisted_as_never_favourited:
  "similarity_channel (new_with_blacklist to_bits counts p idf profile G U B) post =
   similarity_channel (new_with_blacklist to_bits (unlisted B counts) p idf profile G U B) post"
proof -
  let ?c = "new_with_blacklist to_bits counts p idf profile G U B"
    and ?d = "new_with_blacklist to_bits (unlisted B counts) p idf profile G U B"
  have get: "tbl_get (sc_user ?c g) t = tbl_get (sc_user ?d g) t" if "t \<notin> B" for g t
    using get_kept [OF that] kept_account_vector unfolding context_norm by metis
  then have "similarity_tag ?c g t st = similarity_tag ?d g t st" for g t st
    by (auto simp: similarity_tag_def context_fields context_norm(4) Let_def)
  then have tag: "similarity_tag ?c = similarity_tag ?d" by blast
  have loop: "similarity_loop ?c groups = similarity_loop ?d groups" for groups
    unfolding similarity_loop_def tag by (simp add: context_fields)
  show ?thesis
    unfolding similarity_channel_def loop blend_jaccard_def cosine_def context_fields context_norm kept_account_vector ..
qed

section \<open>The fingerprint of the base\<close>

lemma fingerprint_fields_eq:
  assumes "fingerprint_fields p = fingerprint_fields q"
  shows "tag_weight idf p = tag_weight idf q" "group_wt p = group_wt q"
    "coldstart_n0 p = coldstart_n0 q" "confidence_steepness p = confidence_steepness q"
    "coldstart_smoothing_boost p = coldstart_smoothing_boost q"
proof -
  show "tag_weight idf p = tag_weight idf q" using assms by (simp add: fingerprint_fields_def fun_eq_iff tag_weight_def)
  have "group_wt p g = group_wt q g" for g using assms by (cases g) (simp_all add: fingerprint_fields_def)
  then show "group_wt p = group_wt q" by blast
  show "coldstart_n0 p = coldstart_n0 q" "confidence_steepness p = confidence_steepness q"
    "coldstart_smoothing_boost p = coldstart_smoothing_boost q"
    using assms by (simp_all add: fingerprint_fields_def)
qed

lemma base_same_fields:
  assumes "fingerprint_fields p = fingerprint_fields q"
  shows "context_base_new to_bits counts p idf profile = context_base_new to_bits counts q idf profile"
proof -
  note eq = fingerprint_fields_eq [OF assms]
  have "add_tag_count idf p = add_tag_count idf q" "add_preferred idf p = add_preferred idf q"
    unfolding fun_eq_iff add_tag_count_def add_preferred_def eq by simp_all
  then show ?thesis unfolding context_base_new_def tag_vector_def context_fingerprint_def assms eq by simp
qed

text \<open>The base the calibration caches may be reused for any parameters that agree on the fields of the
  fingerprint: no other parameter enters it.\<close>

theorem base_depends_on_fingerprint:
  assumes "fingerprint_fields p = fingerprint_fields q"
  shows "context_base_new to_bits counts p idf profile = context_base_new to_bits counts q idf profile"
  using assms by (rule base_same_fields)

theorem base_depends_on_fingerprint_witness:
  "context_base_new (\<lambda>_. 0) [] ((priors_default 0)\<lparr>mix_sim := 0\<rparr>) empty_index empty_profile =
   context_base_new (\<lambda>_. 0) [] (priors_default 0) empty_index empty_profile"
  by (rule base_depends_on_fingerprint) (simp add: fingerprint_fields_def priors_default_def)

section \<open>The similarity of two posts\<close>

text \<open>The product runs over all pairs of tags of the same group, whether or not the tags are the same:
  two posts without a tag in common have the full similarity.\<close>

lemma weighted_artist:
  assumes "x \<noteq> []" "lookup_df idf (normalize_tag x) = 0" "0 < group_w_artist p"
    and w: "w = group_w_artist p * idf_tempered_from_df idf 0 (df_floor p) (idf_max p) (idf_rsj_smoothing p) (idf_lambda p) (idf_lambda p)"
    and "0 < w"
  shows "weighted_tags (sample_post i t [x]) idf p = [(Artist, w)]"
proof -
  have "group_wt p Artist * idf_tempered idf (normalize_tag x) (df_floor p) (idf_max p) (idf_rsj_smoothing p)
      (lambda_of p Artist) (idf_lambda p) = w"
    using tempered_from_df [of idf "normalize_tag x"] assms(2) by (simp add: w lambda_of_def)
  then show ?thesis using assms(1,3,5)
    by (simp add: weighted_tags_def similarity_groups_def is_scoring_def sample_post_def Tags_default_def
        List.map_filter_simps Let_def)
qed

theorem disjoint_posts_fully_similar:
  "post_pair_similarity (sample_post 1 0 [lit ''a'']) (sample_post 2 0 [lit ''b'']) empty_index (priors_default 0) = 1"
proof -
  let ?p = "priors_default 0"
  let ?w = "group_w_artist ?p * idf_tempered_from_df empty_index 0 (df_floor ?p) (idf_max ?p) (idf_rsj_smoothing ?p) (idf_lambda ?p) (idf_lambda ?p)"
  have ln: "0 < ln (34 / 15 :: f32)" "ln (34 / 15 :: f32) \<le> 100"
    using ln_le_minus_one [of "34 / 15 :: f32"] by simp_all
  have pos: "0 < ?w" using ln by (simp add: priors_default_def idf_tempered_from_df_def compute_idf_def empty_index_def Let_def clamp01_def powf_def)
  have none: "lookup_df empty_index t = 0" for t by (simp add: lookup_df_def empty_index_def)
  have g: "0 < group_w_artist ?p" by (simp add: priors_default_def)
  have vec: "weighted_tags (sample_post i 0 [x]) empty_index ?p = [(Artist, ?w)]" if "x \<noteq> []" for i x
    using weighted_artist [OF that none g refl pos] .
  obtain w where w: "0 < w" "weighted_tags (sample_post i 0 [x]) empty_index ?p = [(Artist, w)]" if "x \<noteq> []" for i x
    using pos vec by blast
  from w(2) have "weighted_tags (sample_post 1 0 [lit ''a'']) empty_index ?p = [(Artist, w)]"
    "weighted_tags (sample_post 2 0 [lit ''b'']) empty_index ?p = [(Artist, w)]" "0 < w" "\<not> w * w \<le> 0" using w(1) [of "[0]"] mult_pos_pos [of w w] by (simp_all add: not_le)
  then show ?thesis by (simp add: post_pair_similarity_def clamp01_def Let_def)
qed

lemma fold_add: "fold (\<lambda>x d. d + f x) xs d = d + sum_list (map f xs)" for d :: f32
  by (induction xs arbitrary: d) simp_all

definition group_products :: "(Group \<times> f32) list \<Rightarrow> (Group \<times> f32) list \<Rightarrow> f32" where
  "group_products xs ys = sum_list (map (\<lambda>(g, a). sum_list (map (\<lambda>(h, b). if h = g then a * b else 0) ys)) xs)"

lemma group_products_sym: "group_products xs ys = group_products ys xs"
proof -
  have "sum_list (map (\<lambda>x. sum_list (map (f x) ys)) xs) = sum_list (map (\<lambda>y. sum_list (map (\<lambda>x. f x y) xs)) ys)"
    for f :: "Group \<times> f32 \<Rightarrow> Group \<times> f32 \<Rightarrow> f32"
    by (induction xs) (simp_all add: sum_list_addf)
  note swapped = this
  let ?F = "\<lambda>x y :: Group \<times> f32. if fst y = fst x then snd x * snd y else 0"
  have gp: "group_products us vs = sum_list (map (\<lambda>x. sum_list (map (?F x) vs)) us)" for us vs
    by (simp add: group_products_def case_prod_unfold)
  have turn: "?F y = (\<lambda>x. ?F x y)" for y by (auto simp: fun_eq_iff)
  have "sum_list (map (\<lambda>y. sum_list (map (?F y) xs)) ys) = sum_list (map (\<lambda>y. sum_list (map (\<lambda>x. ?F x y) xs)) ys)"
    by (rule arg_cong [where f = sum_list], rule map_cong, rule refl, subst turn, rule refl)
  then show ?thesis unfolding gp swapped [of ?F] by (rule sym)
qed

lemma post_pair_alt:
  "post_pair_similarity a b idf p =
     (let va = weighted_tags a idf p; vb = weighted_tags b idf p;
          na = sum_list (map (\<lambda>(g, w). w * w) va); nb = sum_list (map (\<lambda>(g, w). w * w) vb)
      in if na \<le> 0 \<or> nb \<le> 0 then 0 else clamp01 (group_products va vb / (sqrt na * sqrt nb)))"
proof -
  have inner: "fold (\<lambda>(h, wb) d. d + wa * wb) (filter (\<lambda>(h, _). h = g) ys) d =
      d + sum_list (map (\<lambda>(h, wb). if h = g then wa * wb else 0) ys)" for g :: Group and wa d :: f32 and ys
    by (induction ys arbitrary: d) auto
  have "fold (\<lambda>(g, wa) (dot, na). (fold (\<lambda>(h, wb) d. d + wa * wb) (filter (\<lambda>(h, _). h = g) ys) dot, na + wa * wa)) xs (d, n) =
      (d + group_products xs ys, n + sum_list (map (\<lambda>(g, w). w * w) xs))" for xs ys :: "(Group \<times> f32) list" and d n :: f32
    by (induction xs arbitrary: d n) (auto simp: inner group_products_def)
  moreover have "fold (\<lambda>(g, wb) nb. nb + wb * wb) ys n = n + sum_list (map (\<lambda>(g, w). w * w) ys)" for ys :: "(Group \<times> f32) list" and n :: f32
    by (induction ys arbitrary: n) auto
  ultimately show ?thesis by (simp add: post_pair_similarity_def Let_def)
qed

text \<open>The similarity of two posts does not depend on their order and lies between zero and one.\<close>

theorem pair_similarity_symmetric:
  "post_pair_similarity a b idf p = post_pair_similarity b a idf p \<and> unit_range (post_pair_similarity a b idf p)"
  by (simp add: post_pair_alt Let_def group_products_sym [of "weighted_tags a idf p"] mult.commute unit_clamp01 disj_commute)

end
