(* ===== verification/Exploration.thy ===== *)
theory Exploration
  imports Scorer_Bounds
begin

text \<open>
  The exploration bonus (\<open>utils/scorer/mod.rs\<close>): a novelty bonus drawn from a deterministic random
  stream (\<open>xorshift64\<close>), applied before diversification.  The hash of the seed (\<open>DefaultHasher\<close>) is an
  argument.
\<close>

section \<open>The bonus\<close>

definition exploration_adjusted_score :: "f32 \<Rightarrow> f32 \<Rightarrow> f32 \<Rightarrow> f32 \<Rightarrow> f32" where
  "exploration_adjusted_score sc similarity eps draw =
     (if eps \<le> 1 / 10000 then sc
      else clamp01 (sc + clamp 0 (1 / 2) eps * (1 - similarity) * clamp01 draw))"

definition exploration_seed :: "(int \<times> ustr \<times> nat \<Rightarrow> u64) \<Rightarrow> int \<Rightarrow> ustr option \<Rightarrow> nat \<Rightarrow> u64" where
  "exploration_seed hash account_id session depth =
     hash (account_id, (case session of None \<Rightarrow> [] | Some s \<Rightarrow> s), depth)"

definition exploration_decay :: "nat \<Rightarrow> f32" where
  "exploration_decay depth = 1 / (1 + real depth / 100)"

section \<open>The stream\<close>

definition JITTER_MIX :: u64 where
  "JITTER_MIX = 0x9E3779B97F4A7C15"

definition jitter_new :: "u64 \<Rightarrow> u64" where
  "jitter_new seed = xor seed JITTER_MIX"

definition jitter_step :: "u64 \<Rightarrow> u64" where
  "jitter_step s =
     (let a = xor s (push_bit 13 s); b = xor a (drop_bit 7 a) in xor b (push_bit 17 b))"

definition next_unit :: "u64 \<Rightarrow> f32 \<times> u64" where
  "next_unit s = (let s' = jitter_step s in (real (unat (drop_bit 40 s')) / 2 ^ 24, s'))"

fun explore_posts :: "f32 \<Rightarrow> u64 \<Rightarrow> ScoredPost list \<Rightarrow> ScoredPost list" where
  "explore_posts eps rng [] = []"
| "explore_posts eps rng (sp # sps) =
     (let sim = (case breakdown sp of None \<Rightarrow> 0 | Some b \<Rightarrow> tag_similarity b);
          (draw, rng') = next_unit rng
      in sp\<lparr>sp_score := exploration_adjusted_score (sp_score sp) sim eps draw\<rparr> # explore_posts eps rng' sps)"

definition apply_exploration_bonus :: "ScoredPost list \<Rightarrow> f32 \<Rightarrow> u64 \<Rightarrow> ScoredPost list" where
  "apply_exploration_bonus scored eps seed =
     (if eps \<le> 1 / 10000 then scored else explore_posts eps (jitter_new seed) scored)"

section \<open>What a draw is\<close>

lemma next_unit_range: "0 \<le> fst (next_unit s) \<and> fst (next_unit s) < 1"
proof -
  have "unat (drop_bit 40 (jitter_step s)) < 2 ^ 24"
  proof -
    have "unat (jitter_step s) < 2 ^ 64" using unsigned_less [of "jitter_step s"] by simp
    moreover have "unat (drop_bit 40 (jitter_step s)) = unat (jitter_step s) div 2 ^ 40"
      by (subst unat_drop_bit_eq) (rule drop_bit_eq_div)
    ultimately show ?thesis by (simp only:) (rule less_mult_imp_div_less, simp)
  qed
  then have "real (unat (drop_bit 40 (jitter_step s))) < 2 ^ 24"
    by (metis of_nat_less_iff of_nat_numeral of_nat_power)
  then have "real (unat (drop_bit 40 (jitter_step s))) / 2 ^ 24 < 1" by simp
  moreover have "0 \<le> real (unat (drop_bit 40 (jitter_step s))) / 2 ^ 24"
    by (intro divide_nonneg_nonneg of_nat_0_le_iff) simp
  ultimately show ?thesis unfolding next_unit_def Let_def fst_conv by blast
qed

lemma xor_push_zero:
  fixes x :: u64
  assumes "0 < n" "xor x (push_bit n x) = 0"
  shows "x = 0"
proof -
  have same: "bit x k = bit (push_bit n x) k" for k
  proof -
    have "\<not> bit (xor x (push_bit n x)) k" unfolding assms(2) by simp
    then show ?thesis unfolding bit_xor_iff by blast
  qed
  have "\<not> bit x k" for k
  proof (induction k rule: less_induct)
    case (less k)
    show ?case
    proof
      assume "bit x k"
      then have "bit (push_bit n x) k" using same by blast
      then have "n \<le> k" "bit x (k - n)" by (simp_all add: bit_push_bit_iff)
      then show False using less [of "k - n"] assms(1) by simp
    qed
  qed
  then show ?thesis by (simp add: bit_eq_iff)
qed

lemma xor_drop_zero:
  fixes x :: u64
  assumes "0 < n" "xor x (drop_bit n x) = 0"
  shows "x = 0"
proof -
  have same: "bit x k = bit x (k + n)" for k
  proof -
    have "\<not> bit (xor x (drop_bit n x)) k" unfolding assms(2) by simp
    then show ?thesis unfolding bit_xor_iff bit_drop_bit_eq by (simp add: add.commute)
  qed
  have "\<not> bit x k" if "64 \<le> k + m" for k m
    using that
  proof (induction m arbitrary: k)
    case 0
    then show ?case by (simp add: bit_word.rep_eq)
  next
    case (Suc m)
    then show ?case using Suc.IH [of "k + n"] assms(1) same [of k] by simp
  qed
  from this [of _ 64] show ?thesis by (simp add: bit_eq_iff)
qed

lemma jitter_step_zero: "jitter_step s = 0 \<longleftrightarrow> s = 0"
proof
  assume z: "jitter_step s = 0"
  let ?a = "xor s (push_bit 13 s)" let ?b = "xor ?a (drop_bit 7 ?a)"
  have "?b = 0" using z xor_push_zero [of 17 ?b] by (simp add: jitter_step_def Let_def)
  then have "?a = 0" using xor_drop_zero [of 7 ?a] by simp
  then show "s = 0" using xor_push_zero [of 13 s] by simp
qed (simp add: jitter_step_def)

text \<open>Every draw lies in the half-open unit interval, and a stream that starts at any other state than
  zero never reaches it.  One seed, the mixing constant itself, starts at zero and draws zero for
  ever.\<close>

theorem draws_stay_alive:
  "(\<forall>s. 0 \<le> fst (next_unit s) \<and> fst (next_unit s) < 1) \<and>
   (\<forall>seed k. ((snd \<circ> next_unit) ^^ k) (jitter_new seed) = 0 \<longleftrightarrow> seed = JITTER_MIX)"
proof -
  have "(snd \<circ> next_unit) s = jitter_step s" for s by (simp add: next_unit_def Let_def)
  then have "((snd \<circ> next_unit) ^^ k) s = 0 \<longleftrightarrow> s = 0" for k s
    by (induction k arbitrary: s) (simp_all add: jitter_step_zero)
  moreover have "jitter_new seed = 0 \<longleftrightarrow> seed = JITTER_MIX" for seed
  proof
    assume z: "jitter_new seed = 0"
    have "bit seed k = bit JITTER_MIX k" for k
    proof -
      have "\<not> bit (xor seed JITTER_MIX) k" using z unfolding jitter_new_def by simp
      then show ?thesis unfolding bit_xor_iff by blast
    qed
    then show "seed = JITTER_MIX" by (simp add: bit_eq_iff)
  qed (simp add: jitter_new_def)
  ultimately show ?thesis using next_unit_range by simp
qed

lemma draws_of_dead_seed: "next_unit (jitter_new JITTER_MIX) = (0, 0)"
  by (simp add: next_unit_def jitter_new_def jitter_step_def Let_def)

section \<open>What the bonus does\<close>

lemma bonus_range:
  assumes "unit_range sc" "unit_range similarity"
  shows "sc \<le> exploration_adjusted_score sc similarity eps draw"
    and "exploration_adjusted_score sc similarity eps draw \<le> min 1 (sc + min (max 0 eps) (1 / 2) * (1 - similarity))"
proof -
  let ?b = "clamp 0 (1 / 2) eps * (1 - similarity) * clamp01 draw"
  have eps: "0 \<le> clamp 0 (1 / 2) eps" "clamp 0 (1 / 2) eps = min (max 0 eps) (1 / 2)" by (auto simp: clamp_def)
  have draw: "0 \<le> clamp01 draw" "clamp01 draw \<le> 1" by (rule clamp01_range)+
  have room: "0 \<le> clamp 0 (1 / 2) eps * (1 - similarity)" using eps(1) assms(2) by simp
  have b: "0 \<le> ?b" "?b \<le> clamp 0 (1 / 2) eps * (1 - similarity)"
    using mult_nonneg_nonneg [OF room draw(1)] mult_left_mono [OF draw(2) room] by simp_all
  show "sc \<le> exploration_adjusted_score sc similarity eps draw"
    using b(1) assms(1) by (auto simp: exploration_adjusted_score_def clamp01_def)
  have "clamp01 (sc + ?b) \<le> min 1 (sc + ?b)" using b(1) assms(1) by (simp add: clamp01_def)
  also have "\<dots> \<le> min 1 (sc + clamp 0 (1 / 2) eps * (1 - similarity))"
    by (intro min.mono order_refl add_left_mono b(2))
  finally have bonus: "clamp01 (sc + ?b) \<le> min 1 (sc + clamp 0 (1 / 2) eps * (1 - similarity))" .
  have none: "sc \<le> min 1 (sc + clamp 0 (1 / 2) eps * (1 - similarity))" using room assms(1) by simp
  show "exploration_adjusted_score sc similarity eps draw \<le> min 1 (sc + min (max 0 eps) (1 / 2) * (1 - similarity))"
    unfolding exploration_adjusted_score_def eps(2) [symmetric] using bonus none by simp
qed

definition explored :: "f32 \<Rightarrow> ScoredPost \<Rightarrow> ScoredPost \<Rightarrow> bool" where
  "explored eps sp sp' \<longleftrightarrow>
     sp_post sp' = sp_post sp \<and> breakdown sp' = breakdown sp \<and> reasons sp' = reasons sp \<and>
     sp_score sp \<le> sp_score sp' \<and> sp_score sp' \<le> min 1 (sp_score sp + min (max 0 eps) (1 / 2))"

definition scores_in_range :: "ScoredPost list \<Rightarrow> bool" where
  "scores_in_range sps \<longleftrightarrow>
     (\<forall>sp \<in> set sps. unit_range (sp_score sp) \<and> (\<forall>b. breakdown sp = Some b \<longrightarrow> unit_range (tag_similarity b)))"

text \<open>C32. The bonus keeps the posts and their order, never lowers a score, and adds at most \<open>\<epsilon>\<close>, capped at
  one half; a score stays at most one.\<close>

theorem exploration_is_bounded:
  assumes "scores_in_range sps"
  shows "list_all2 (explored eps) sps (apply_exploration_bonus sps eps seed)"
proof -
  have "list_all2 (explored eps) sps (explore_posts eps rng sps)" for rng
    using assms
  proof (induction sps arbitrary: rng)
    case (Cons sp sps)
    let ?sim = "case breakdown sp of None \<Rightarrow> 0 | Some b \<Rightarrow> tag_similarity b"
    have sc: "unit_range (sp_score sp)" and sim: "unit_range ?sim"
      using Cons.prems by (auto simp: scores_in_range_def split: option.split)
    let ?cap = "min (max 0 eps) (1 / 2)"
    have cap: "?cap * (1 - ?sim) \<le> ?cap" using sim by (intro mult_left_le) auto
    have "exploration_adjusted_score (sp_score sp) ?sim eps d \<le> min 1 (sp_score sp + ?cap)" for d
      by (rule order_trans [OF bonus_range(2) [OF sc sim]]) (intro min.mono order_refl add_left_mono cap)
    then have "explored eps sp (sp\<lparr>sp_score := exploration_adjusted_score (sp_score sp) ?sim eps d\<rparr>)" for d
      using bonus_range(1) [OF sc sim, of eps d] by (simp add: explored_def)
    moreover have "scores_in_range sps" using Cons.prems by (simp add: scores_in_range_def)
    ultimately show ?case using Cons.IH by (simp add: Let_def split: prod.split)
  qed simp
  moreover have "list_all2 (explored eps) sps sps"
    using assms by (auto simp: explored_def scores_in_range_def list_all2_same)
  ultimately show ?thesis by (simp add: apply_exploration_bonus_def)
qed

theorem exploration_is_bounded_witness:
  "list_all2 (explored (1 / 5)) [sample_scored (sample_post 1 0 []) (1 / 2)]
     (apply_exploration_bonus [sample_scored (sample_post 1 0 []) (1 / 2)] (1 / 5) 42)"
  by (rule exploration_is_bounded) (simp add: scores_in_range_def sample_scored_def)

text \<open>The strength of the exploration halves at a depth of a hundred posts and never reaches zero.\<close>

lemma decay_positive: "0 < exploration_decay depth \<and> exploration_decay depth \<le> 1 \<and> exploration_decay 100 = 1 / 2"
  by (simp add: exploration_decay_def)

end
