(* ===== verification/Taste_Nodes.thy ===== *)
theory Taste_Nodes
  imports Scorer_Context "HOL-Library.List_Lexorder"
begin

text \<open>
  The first two steps of the taste themes (\<open>utils/taste_themes.rs\<close>): the most frequent tags that are
  neither format tags nor generic, and the edges between them, weighted by how much more often two
  tags meet than chance would have it, in the account's posts and in the catalog.  Strings are
  compared by their code points, which is the order of their UTF-8 bytes.
\<close>

section \<open>Constants\<close>

definition META_TAGS :: "ustr list" where
  "META_TAGS = map lit
     [''hi_res'', ''absurd_res'', ''text'', ''dialogue'', ''speech_bubble'', ''comic'', ''gif'', ''webm'',
      ''flash'', ''animated'', ''video'', ''monochrome'', ''colored'', ''greyscale'', ''traditional_media'',
      ''digital_media'', ''sketch'', ''lineart'', ''full_color'', ''watercolor_(medium)'', ''pixel_art'',
      ''3d_(artwork)'', ''traditional_media_(artwork)'', ''outside'', ''inside'', ''day'', ''night'', ''sunset'',
      ''urban'', ''nature'', ''outdoors'', ''indoors'', ''portrait'', ''landscape'', ''screenshot'',
      ''photo_(image)'', ''scan'', ''wide_image'', ''tall_image'', ''absurd_res'', ''high_resolution'',
      ''signature'', ''watermark'', ''signed'', ''artist_name'', ''commission'', ''transparent_background'',
      ''simple_background'', ''white_background'', ''gradient_background'', ''simple_watermark'', ''blue_eyes'',
      ''brown_eyes'', ''green_eyes'', ''red_eyes'', ''yellow_eyes'', ''heterochromia'', ''closed_eyes'',
      ''open_eyes'', ''wide_eyes'', ''half-closed_eyes'', ''looking_at_viewer'', ''looking_away'',
      ''looking_at_another'', ''standing'', ''sitting'', ''lying'', ''kneeling'', ''crouching'', ''prone'',
      ''spread_legs'', ''legs_up'', ''on_back'', ''on_stomach'', ''on_side'', ''hand_on_own_penis'',
      ''hand_on_own_chest'', ''hand_on_own_face'', ''open_mouth'', ''closed_mouth'', ''smile'', ''frown'',
      ''grin'', ''eyebrows'', ''tongue_out'', ''tongue'', ''border'', ''around_the_world'', ''country_human'',
      ''multi_image'', ''collage'', ''sequence'', ''story_arc'', ''english_text'', ''japanese_text'']"

definition HARDCODED_GENERIC :: "ustr list" where
  "HARDCODED_GENERIC = map lit
     [''male'', ''female'', ''penis'', ''genitals'', ''balls'', ''sex'', ''nude'', ''anthro'', ''feral'', ''fur'',
      ''scalie'', ''human'', ''male_anthro'', ''female_anthro'', ''male_human'', ''female_human'', ''both'',
      ''intersex'', ''herm'', ''gynomorph'', ''andromorph'', ''anthro_on_anthro'', ''male/female'', ''male/male'',
      ''female/female'', ''group_sex'', ''masturbation'', ''solo'', ''solo_focus'', ''vaginal_penetration'',
      ''anal_penetration'', ''oral_penetration'', ''penetration'', ''sexual_activity'', ''sexual'', ''clothing'',
      ''nude'', ''bottomwear'', ''topwear'', ''footwear'', ''accessories'', ''jewelry'', ''fashion'', ''lingerie'',
      ''embarrassed'', ''angry'', ''sad'', ''happy'', ''surprised'', ''blush'', ''sweat'', ''tears'', ''drool'',
      ''blood'', ''gore'', ''vomit'', ''scat'', ''urine'', ''young'', ''old'', ''baby'', ''child'', ''teen'', ''adult'',
      ''elder'', ''detailed_background'', ''simple_background'']"

definition PMI_SCALE :: f32 where "PMI_SCALE = 5"
definition W_PERSONAL :: f32 where "W_PERSONAL = 1"
definition W_GLOBAL :: f32 where "W_GLOBAL = 3 / 10"
definition MIN_EDGE_WEIGHT :: f32 where "MIN_EDGE_WEIGHT = 1 / 20"

section \<open>Nodes\<close>

record TagNode =
  tn_id :: nat
  tn_name :: ustr
  tn_group :: ustr
  tn_count :: int

record TagEdge =
  source :: nat
  target :: nat
  weight :: f32

text \<open>The generic tags: listed ones, tags whose only implication is the tag itself, and tags that at
  least three implications lead to.\<close>

definition build_generic_set :: "(ustr, ustr list) table \<Rightarrow> ustr set" where
  "build_generic_set impls =
     (let children = concat (map snd impls) in
      set HARDCODED_GENERIC \<union>
      set (List.map_filter (\<lambda>(key, cs). if cs = [key] then Some (to_ascii_lowercase key) else None) impls) \<union>
      Set.filter (\<lambda>t. 3 \<le> count_list children t) (set children))"

definition content_group :: "ustr \<Rightarrow> bool" where
  "content_group g \<longleftrightarrow> g = lit ''general'' \<or> g = lit ''lore'' \<or> g = lit ''species''"

fun collect_nodes ::
  "ustr set \<Rightarrow> nat \<Rightarrow> TagCount list \<Rightarrow> TagNode list \<times> (ustr \<times> ustr, nat) table \<Rightarrow> TagNode list \<times> (ustr \<times> ustr, nat) table" where
  "collect_nodes generic k [] st = st"
| "collect_nodes generic k (tc # tcs) (nodes, idx) =
     (let name_lc = to_ascii_lowercase (tc_name tc) in
      if name_lc \<in> set META_TAGS then collect_nodes generic k tcs (nodes, idx)
      else if name_lc \<in> generic then collect_nodes generic k tcs (nodes, idx)
      else if \<not> content_group (tc_group_type tc) then collect_nodes generic k tcs (nodes, idx)
      else if k \<le> length nodes then (nodes, idx)
      else collect_nodes generic k tcs
        (nodes @ [\<lparr>tn_id = length nodes, tn_name = name_lc, tn_group = tc_group_type tc, tn_count = tc_count tc\<rparr>],
         tbl_insert (name_lc, tc_group_type tc) (length nodes) idx))"

definition build_non_generic_nodes ::
  "TagCount list \<Rightarrow> ustr set \<Rightarrow> nat \<Rightarrow> TagNode list \<times> (ustr \<times> ustr, nat) table" where
  "build_non_generic_nodes counts generic k =
     collect_nodes generic k (sort_key (\<lambda>t. (- tc_count t, tc_name t)) counts) ([], [])"

section \<open>Edges\<close>

definition canonical_pair_key :: "ustr \<Rightarrow> ustr \<Rightarrow> ustr" where
  "canonical_pair_key a b = (if a < b then a @ lit ''||'' @ b else b @ lit ''||'' @ a)"

definition group_key :: "ustr \<Rightarrow> nat" where
  "group_key g =
     (if g = lit ''artist'' then 0 else if g = lit ''character'' then 1 else if g = lit ''copyright'' then 2
      else if g = lit ''species'' then 3 else if g = lit ''general'' then 4 else if g = lit ''lore'' then 5 else 6)"

definition user_pmi :: "int \<Rightarrow> int \<Rightarrow> int \<Rightarrow> int \<Rightarrow> f32" where
  "user_pmi user_cooc mi mj n_user_posts =
     (let nup = max 1 (real_of_int n_user_posts);
          expected_user = real_of_int mi * real_of_int mj / nup;
          lift_user = (if expected_user > 0 then real_of_int user_cooc / expected_user else 0);
          raw_user = clamp01 (ln lift_user / PMI_SCALE);
          conf_user = clamp01 (ln (real_of_int user_cooc + 1) / ln 6)
      in raw_user * conf_user)"

definition global_pmi :: "int \<times> int \<times> int \<Rightarrow> int \<Rightarrow> f32" where
  "global_pmi = (\<lambda>(global_cooc, df1, df2) n_catalog_posts.
     let n_catalog = max 1 (real_of_int n_catalog_posts);
         expected_global = real_of_int (max 1 df1) * real_of_int (max 1 df2) / n_catalog;
         lift_global = (if expected_global > 0 then real_of_int global_cooc / expected_global else 0);
         raw_global = (if global_cooc > 0 then clamp01 (ln lift_global / PMI_SCALE) else 0);
         conf_global = (if global_cooc > 0 then clamp01 (ln (real_of_int global_cooc + 1) / ln 6) else 0)
     in raw_global * conf_global)"

definition pmi_edge ::
  "TagNode list \<Rightarrow> TagRelationGraph \<Rightarrow> int \<Rightarrow> (ustr, int \<times> int \<times> int) table \<Rightarrow> int \<Rightarrow> int \<Rightarrow> nat \<Rightarrow> nat \<Rightarrow> TagEdge option" where
  "pmi_edge nodes G n_user_posts global_cooc n_catalog min_cooc i j =
     (let user_id = (\<lambda>v. tag_id (group_key (tn_group (nodes ! v))) (tn_name (nodes ! v)) G) in
      case (user_id i, user_id j) of
        (Some a, Some b) \<Rightarrow>
          let mi = max 1 (marginal_by_id G a); mj = max 1 (marginal_by_id G b); user_cooc = cooc_by_id G a b in
          if user_cooc < min_cooc then None
          else let pmi_user = user_pmi user_cooc mi mj n_user_posts;
                   data = (case tbl_get global_cooc (canonical_pair_key (tn_name (nodes ! i)) (tn_name (nodes ! j))) of
                     None \<Rightarrow> (0, 1, 1) | Some d \<Rightarrow> d);
                   w = (W_PERSONAL * pmi_user + W_GLOBAL * global_pmi data n_catalog) / (W_PERSONAL + W_GLOBAL)
               in if w \<ge> MIN_EDGE_WEIGHT then Some \<lparr>source = i, target = j, weight = w\<rparr> else None
      | _ \<Rightarrow> None)"

definition build_pmi_edges ::
  "TagNode list \<Rightarrow> TagRelationGraph \<Rightarrow> int \<Rightarrow> (ustr, int \<times> int \<times> int) table \<Rightarrow> int \<Rightarrow> int \<Rightarrow> TagEdge list" where
  "build_pmi_edges nodes G n_user_posts global_cooc n_catalog min_cooc =
     (let n = length nodes in
      concat (map (\<lambda>i. List.map_filter (pmi_edge nodes G n_user_posts global_cooc n_catalog min_cooc i) [i + 1..<n]) [0..<n]))"

section \<open>What the nodes are\<close>

definition candidate :: "ustr set \<Rightarrow> TagCount \<Rightarrow> bool" where
  "candidate generic tc \<longleftrightarrow>
     to_ascii_lowercase (tc_name tc) \<notin> set META_TAGS \<and> to_ascii_lowercase (tc_name tc) \<notin> generic \<and>
     content_group (tc_group_type tc)"

definition node_of :: "TagCount \<Rightarrow> nat \<Rightarrow> TagNode" where
  "node_of tc i =
     \<lparr>tn_id = i, tn_name = to_ascii_lowercase (tc_name tc), tn_group = tc_group_type tc, tn_count = tc_count tc\<rparr>"

lemma collect_nodes_take:
  assumes "length nodes \<le> k"
  shows "fst (collect_nodes generic k tcs (nodes, idx)) =
    nodes @ map2 node_of (take (k - length nodes) (filter (candidate generic) tcs)) [length nodes..<k]"
  using assms
proof (induction tcs arbitrary: nodes idx)
  case (Cons tc tcs)
  show ?case
  proof (cases "candidate generic tc \<and> length nodes < k")
    case True
    then have "[length nodes..<k] = length nodes # [Suc (length nodes)..<k]" "k - length nodes = Suc (k - Suc (length nodes))"
      by (auto simp: upt_rec)
    then show ?thesis using True Cons.IH [of "nodes @ [node_of tc (length nodes)]"]
      by (simp add: candidate_def node_of_def Let_def)
  next
    case False
    then show ?thesis using Cons by (auto simp: candidate_def Let_def)
  qed
qed simp

text \<open>The nodes are the tags that count most among those that are neither format tags nor generic and
  belong to a content group, at most \<open>k\<close> of them, numbered in that order.\<close>

theorem nodes_are_most_frequent:
  "fst (build_non_generic_nodes counts generic k) =
     map2 node_of (take k (sort_key (\<lambda>t. (- tc_count t, tc_name t)) (filter (candidate generic) counts))) [0..<k]"
  by (simp add: build_non_generic_nodes_def collect_nodes_take filter_sort)

lemma length_nodes: "length (fst (build_non_generic_nodes counts generic k)) = min k (length (filter (candidate generic) counts))"
  by (simp add: nodes_are_most_frequent)

section \<open>What the edges are\<close>

definition edges_ok :: "nat \<Rightarrow> TagEdge list \<Rightarrow> bool" where
  "edges_ok n es \<longleftrightarrow> (\<forall>e \<in> set es. source e < target e \<and> target e < n) \<and> distinct (map (\<lambda>e. (source e, target e)) es)"

lemma unit_pmi: "user_pmi c a b n \<le> 1" "global_pmi d m \<le> 1"
proof -
  have le: "clamp01 x * clamp01 y \<le> 1" for x y using mult_le_one [of "clamp01 x" "clamp01 y"] clamp01_range by simp
  then show "user_pmi c a b n \<le> 1" by (simp add: user_pmi_def Let_def)
  show "global_pmi d m \<le> 1" by (cases d) (simp add: global_pmi_def Let_def le)
qed

lemma pmi_edge_Some:
  assumes "pmi_edge nodes G nu gc nc mc i j = Some e"
  shows "source e = i \<and> target e = j \<and> MIN_EDGE_WEIGHT \<le> weight e \<and> weight e \<le> 1"
proof -
  have "(W_PERSONAL * user_pmi c a b n + W_GLOBAL * global_pmi d m) / (W_PERSONAL + W_GLOBAL) \<le> 1" for a b c d n m
    using unit_pmi(1) [of c a b n] unit_pmi(2) [of d m] by (simp add: W_PERSONAL_def W_GLOBAL_def)
  then show ?thesis using assms by (auto simp: pmi_edge_def Let_def split: option.splits if_splits)
qed

lemma distinct_pairs_from:
  assumes "\<And>i j e. f i j = Some e \<Longrightarrow> source e = i \<and> target e = (j :: nat)"
  shows "distinct (map (\<lambda>e. (source e, target e)) (concat (map (\<lambda>i. List.map_filter (f i) [i + 1..<n]) [m..<n'])))"
proof (induction n')
  case (Suc n')
  have row: "map (\<lambda>e. (source e, target e)) (List.map_filter (f i) js) = map (Pair i) (filter (\<lambda>j. f i j \<noteq> None) js)" for i js
    using assms by (induction js) (auto simp: List.map_filter_simps split: option.split)
  show ?case
  proof (cases "m \<le> n'")
    case True
    let ?rows = "concat (map (\<lambda>i. List.map_filter (f i) [i + 1..<n]) [m..<n'])"
    have old: "fst x \<noteq> n'" if x: "x \<in> set (map (\<lambda>e. (source e, target e)) ?rows)" for x
    proof -
      obtain i e where "i < n'" "x = (source e, target e)" "e \<in> set (List.map_filter (f i) [i + 1..<n])"
        using x by auto
      then show ?thesis using assms [of i _ e] by (auto simp: List.map_filter_def)
    qed
    have new: "distinct (map (Pair n') (filter (\<lambda>j. f n' j \<noteq> None) [n' + 1..<n]))" by (simp add: distinct_map inj_on_def)
    have "set (map (\<lambda>e. (source e, target e)) ?rows) \<inter> set (map (Pair n') (filter (\<lambda>j. f n' j \<noteq> None) [n' + 1..<n])) = {}"
      using old by fastforce
    then show ?thesis using Suc.IH True new by (simp only: upt_Suc if_True map_append concat_append list.map concat.simps append_Nil2 row distinct_append)
  qed simp
qed simp

lemma edges_ok_pmi: "edges_ok (length nodes) (build_pmi_edges nodes G nu gc nc mc)"
  unfolding edges_ok_def
proof
  show "\<forall>e \<in> set (build_pmi_edges nodes G nu gc nc mc). source e < target e \<and> target e < length nodes"
    using pmi_edge_Some by (fastforce simp: build_pmi_edges_def Let_def List.map_filter_def)
  show "distinct (map (\<lambda>e. (source e, target e)) (build_pmi_edges nodes G nu gc nc mc))"
    unfolding build_pmi_edges_def Let_def by (rule distinct_pairs_from) (use pmi_edge_Some in blast)
qed

lemma pmi_weights: "e \<in> set (build_pmi_edges nodes G nu gc nc mc) \<Longrightarrow> 1 / 20 \<le> weight e \<and> weight e \<le> 1"
  using pmi_edge_Some by (fastforce simp: build_pmi_edges_def Let_def List.map_filter_def MIN_EDGE_WEIGHT_def)

end
