(* ===== verification/Taste_Backbone.thy ===== *)
theory Taste_Backbone
  imports Taste_Nodes
begin

text \<open>
  The backbone of the tag graph (\<open>build_backbone\<close> in \<open>utils/taste_themes.rs\<close>): a spanning forest found
  with a union-find that compresses its paths, and the two strongest edges of each node.  The search
  for a root recurs along the parents; on a forest it returns, and the forest stays one.
\<close>

section \<open>The union-find\<close>

partial_function (option) uf_find :: "nat list \<Rightarrow> nat \<Rightarrow> (nat \<times> nat list) option" where
  "uf_find p x =
     (if p ! x \<noteq> x then Option.bind (uf_find p (p ! x)) (\<lambda>(r, p'). Some (r, p'[x := r])) else Some (p ! x, p))"

definition uf_union :: "nat list \<Rightarrow> nat \<Rightarrow> nat \<Rightarrow> nat list option" where
  "uf_union p x y =
     Option.bind (uf_find p x) (\<lambda>(rx, p1).
     Option.bind (uf_find p1 y) (\<lambda>(ry, p2). Some (if rx \<noteq> ry then p2[ry := rx] else p2)))"

section \<open>The spanning forest and the backbone\<close>

fun mst_loop :: "TagEdge list \<Rightarrow> nat list \<times> (nat \<times> nat) list \<Rightarrow> (nat list \<times> (nat \<times> nat) list) option" where
  "mst_loop [] st = Some st"
| "mst_loop (e # es) (p, B) =
     Option.bind (uf_find p (source e)) (\<lambda>(ra, p1).
     Option.bind (uf_find p1 (target e)) (\<lambda>(rb, p2).
       if ra \<noteq> rb then Option.bind (uf_union p2 (source e) (target e)) (\<lambda>p3. mst_loop es (p3, (source e, target e) # B))
       else mst_loop es (p2, B)))"

definition neighbours :: "TagEdge list \<Rightarrow> nat \<Rightarrow> (nat \<times> f32) list" where
  "neighbours edges v =
     concat (map (\<lambda>e. (if source e = v then [(target e, weight e)] else []) @
       (if target e = v then [(source e, weight e)] else [])) edges)"

definition top_two :: "TagEdge list \<Rightarrow> nat \<Rightarrow> nat list" where
  "top_two edges v = map fst (take 2 (sort_key (\<lambda>(t, w). - w) (neighbours edges v)))"

definition top_pairs :: "nat \<Rightarrow> TagEdge list \<Rightarrow> (nat \<times> nat) list" where
  "top_pairs n edges =
     concat (map (\<lambda>a. List.map_filter (\<lambda>b. if a < b then Some (a, b) else if b < a then Some (b, a) else None)
       (top_two edges a)) [0..<n])"

definition edge_key :: "TagEdge \<Rightarrow> nat \<times> nat" where
  "edge_key e = (if source e < target e then (source e, target e) else (target e, source e))"

definition build_backbone :: "nat \<Rightarrow> TagEdge list \<Rightarrow> TagEdge list option" where
  "build_backbone n edges =
     (if edges = [] \<or> n = 0 then Some []
      else map_option (\<lambda>(p, B). filter (\<lambda>e. edge_key e \<in> set B \<union> set (top_pairs n edges)) edges)
        (mst_loop (sort_key (\<lambda>e. - weight e) edges) ([0..<n], [])))"

section \<open>Roots\<close>

inductive root_of :: "nat list \<Rightarrow> nat \<Rightarrow> nat \<Rightarrow> bool" for p where
  root_self: "p ! r = r \<Longrightarrow> root_of p r r"
| root_step: "p ! x \<noteq> x \<Longrightarrow> root_of p (p ! x) r \<Longrightarrow> root_of p x r"

inductive_cases root_ofE: "root_of p x r"

definition forest :: "nat \<Rightarrow> nat list \<Rightarrow> bool" where
  "forest n p \<longleftrightarrow> length p = n \<and> (\<forall>x < n. p ! x < n \<and> (\<exists>r. root_of p x r))"

lemma root_unique: "root_of p x r \<Longrightarrow> root_of p x r' \<Longrightarrow> r = r'"
proof (induction arbitrary: r' rule: root_of.induct)
  case (root_self r)
  then show ?case by (metis root_ofE)
next
  case (root_step x r)
  from root_step.prems root_step.hyps(1) have "root_of p (p ! x) r'" by (metis root_ofE)
  then show ?case by (rule root_step.IH)
qed

lemma root_fixed: "root_of p x r \<Longrightarrow> p ! r = r"
  by (induction rule: root_of.induct)

lemma root_less: "root_of p x r \<Longrightarrow> \<forall>y < length p. p ! y < length p \<Longrightarrow> x < length p \<Longrightarrow> r < length p"
  by (induction rule: root_of.induct) auto

text \<open>Pointing a node at its root keeps all roots.\<close>

lemma root_compress:
  assumes "root_of p x r" "x < length p" "root_of p y s"
  shows "root_of (p[x := r]) y s"
  using assms(3)
proof (induction rule: root_of.induct)
  case (root_self s)
  have "p[x := r] ! s = s"
    by (metis assms(1) nth_list_update_eq nth_list_update_neq root_of.root_self root_self root_unique assms(2))
  then show ?case by (rule root_of.root_self)
next
  case (root_step y s)
  show ?case
  proof (cases "y = x")
    case True
    have "s = r" using root_unique [OF assms(1)] root_of.root_step [OF root_step.hyps] True by blast
    moreover have "r \<noteq> x" using root_fixed [OF assms(1)] root_step.hyps(1) True by auto
    moreover have "root_of (p[x := r]) r r" using root_fixed [OF assms(1)] \<open>r \<noteq> x\<close> by (intro root_of.root_self) simp
    moreover have "p[x := r] ! x = r" using assms(2) by simp
    ultimately show ?thesis using True root_of.root_step [of "p[x := r]" x r] by simp
  next
    case False
    then have "p[x := r] ! y = p ! y" by simp
    then show ?thesis using root_step.hyps(1) root_step.IH root_of.root_step [of "p[x := r]" y s] by simp
  qed
qed

lemma find_returns:
  assumes "root_of p x r" "forest n p" "x < n"
  shows "\<exists>p'. uf_find p x = Some (r, p') \<and> forest n p' \<and> (\<forall>y s. root_of p y s \<longrightarrow> root_of p' y s)"
  using assms
proof (induction rule: root_of.induct)
  case (root_self r)
  then show ?case by (subst uf_find.simps) auto
next
  case (root_step x r)
  then have "p ! x < n" by (auto simp: forest_def)
  from root_step.IH [OF root_step.prems(1) this] obtain p' where p':
    "uf_find p (p ! x) = Some (r, p')" "forest n p'" "\<forall>y s. root_of p y s \<longrightarrow> root_of p' y s" by blast
  have x: "root_of p' x r" using p'(3) root_of.root_step [OF root_step.hyps] by blast
  have len: "length p' = n" "r < n" using p'(2) root_less [OF x] root_step.prems(2) by (auto simp: forest_def)
  have keep: "root_of p y s \<Longrightarrow> root_of (p'[x := r]) y s" for y s
    using root_compress [OF x] len root_step.prems(2) p'(3) by auto
  have "\<exists>s. root_of (p'[x := r]) y s" if y: "y < n" for y
  proof -
    obtain s where "root_of p' y s" using p'(2) y by (auto simp: forest_def)
    then show ?thesis using root_compress [OF x] len(1) root_step.prems(2) by blast
  qed
  then have "forest n (p'[x := r])"
    using p'(2) len(2) root_step.prems(2) by (simp add: forest_def) (metis nth_list_update_eq nth_list_update_neq)
  then show ?case using p'(1) keep root_step.hyps(1) by (subst uf_find.simps) auto
qed

definition root :: "nat list \<Rightarrow> nat \<Rightarrow> nat" where
  "root p x = (THE r. root_of p x r)"

lemma root_eq: "root_of p x r \<Longrightarrow> root p x = r"
  unfolding root_def using root_unique by blast

lemma forest_root: "forest n p \<Longrightarrow> x < n \<Longrightarrow> root_of p x (root p x)"
  using root_eq by (fastforce simp: forest_def)

lemma root_below: "forest n p \<Longrightarrow> x < n \<Longrightarrow> root p x < n"
  using root_less [OF forest_root] by (auto simp: forest_def)

lemma uf_find_root:
  assumes "forest n p" "x < n"
  obtains p' where "uf_find p x = Some (root p x, p')" "forest n p'" "\<And>y. y < n \<Longrightarrow> root p' y = root p y"
  using find_returns [OF forest_root [OF assms] assms] forest_root [OF assms(1)] root_eq by metis

lemma root_link:
  assumes "forest n p" "rx < n" "ry < n" "p ! rx = rx" "p ! ry = ry" "rx \<noteq> ry"
  shows "forest n (p[ry := rx]) \<and> (\<forall>y < n. root (p[ry := rx]) y = (if root p y = ry then rx else root p y))"
proof -
  let ?q = "p[ry := rx]"
  have len: "length p = n" using assms(1) by (simp add: forest_def)
  have rx: "root_of ?q rx rx" using assms(4,6) by (intro root_self) simp
  have step: "root_of ?q y (if s = ry then rx else s)" if "root_of p y s" for y s
    using that
  proof (induction rule: root_of.induct)
    case (root_self s)
    then show ?case using rx assms(3,6) len root_of.root_step [of ?q ry rx] root_of.root_self [of ?q s] by (cases "s = ry") auto
  next
    case (root_step y s)
    then have "y \<noteq> ry" using assms(5) by auto
    then show ?case using root_step root_of.root_step [of ?q y] by auto
  qed
  have "\<exists>s. root_of ?q y s" if y: "y < n" for y
  proof -
    obtain s where "root_of p y s" using assms(1) y by (auto simp: forest_def)
    then show ?thesis using step by blast
  qed
  then have "forest n ?q" using assms(1,2) by (simp add: forest_def) (metis nth_list_update_eq nth_list_update_neq)
  then show ?thesis using step [OF forest_root [OF assms(1)]] root_eq by blast
qed

lemma root_of_root: "forest n p \<Longrightarrow> x < n \<Longrightarrow> p ! root p x = root p x"
  using root_fixed [OF forest_root] by blast

lemma uf_union_root:
  assumes "forest n p" "x < n" "y < n"
  obtains p' where "uf_union p x y = Some p'" "forest n p'"
    "\<And>z. z < n \<Longrightarrow> root p' z = (if root p z = root p y then root p x else root p z)"
proof -
  obtain p1 where p1: "uf_find p x = Some (root p x, p1)" "forest n p1" "\<And>y. y < n \<Longrightarrow> root p1 y = root p y"
    using uf_find_root [OF assms(1,2)] by blast
  obtain p2 where p2: "uf_find p1 y = Some (root p1 y, p2)" "forest n p2" "\<And>y. y < n \<Longrightarrow> root p2 y = root p1 y"
    using uf_find_root [OF p1(2) assms(3)] by blast
  have roots: "p2 ! root p x = root p x" "p2 ! root p y = root p y" "root p x < n" "root p y < n"
    using root_of_root [OF p2(2)] p1(3) p2(3) assms root_below by metis+
  show ?thesis
  proof (cases "root p x = root p y")
    case True
    then show ?thesis using that [of p2] p1 p2 assms by (simp add: uf_union_def)
  next
    case False
    then show ?thesis using that [of "p2[root p y := root p x]"] root_link [OF p2(2) roots(3,4,1,2)] p1 p2 assms
      by (simp add: uf_union_def)
  qed
qed

section \<open>Connectedness\<close>

definition conn :: "(nat \<times> nat) set \<Rightarrow> (nat \<times> nat) set" where
  "conn R = (R \<union> R\<inverse>)\<^sup>*"

lemma conn_refl [simp]: "(x, x) \<in> conn R"
  by (simp add: conn_def)

lemma conn_sym: "(x, y) \<in> conn R \<Longrightarrow> (y, x) \<in> conn R"
proof -
  assume "(x, y) \<in> conn R"
  then have "(y, x) \<in> ((R \<union> R\<inverse>)\<inverse>)\<^sup>*" unfolding conn_def by (simp add: rtrancl_converse)
  then show ?thesis unfolding conn_def by (simp add: converse_Un sup_commute)
qed

lemma conn_trans: "(x, y) \<in> conn R \<Longrightarrow> (y, z) \<in> conn R \<Longrightarrow> (x, z) \<in> conn R"
  unfolding conn_def by (rule rtrancl_trans)

lemma conn_mono: "R \<subseteq> F \<Longrightarrow> conn R \<subseteq> conn F"
  unfolding conn_def by (intro rtrancl_mono) blast

lemma conn_edge: "(a, b) \<in> R \<Longrightarrow> (a, b) \<in> conn R"
  unfolding conn_def by blast

lemma conn_sub: "R \<subseteq> conn F \<Longrightarrow> conn R \<subseteq> conn F"
proof -
  assume "R \<subseteq> conn F"
  then have "R \<union> R\<inverse> \<subseteq> conn F" using conn_sym by auto
  then show ?thesis unfolding conn_def by (rule rtrancl_subset_rtrancl)
qed

lemma conn_insert:
  "(x, y) \<in> conn (insert (a, b) R) \<longleftrightarrow>
     (x, y) \<in> conn R \<or> (x, a) \<in> conn R \<and> (b, y) \<in> conn R \<or> (x, b) \<in> conn R \<and> (a, y) \<in> conn R" (is "?L = ?R")
proof
  have ab: "(a, b) \<in> conn (insert (a, b) R)" and ba: "(b, a) \<in> conn (insert (a, b) R)"
    using conn_edge conn_sym by blast+
  have R: "conn R \<subseteq> conn (insert (a, b) R)" by (rule conn_mono) blast
  show "?R \<Longrightarrow> ?L" using R ab ba conn_trans by (meson subsetD)
  assume ?L
  then show ?R unfolding conn_def [of "insert (a, b) R"]
  proof (induction rule: rtrancl_induct)
    case (step y z)
    then consider "(y, z) \<in> R \<union> R\<inverse>" | "y = a \<and> z = b" | "y = b \<and> z = a" by auto
    then show ?case
    proof cases
      case 1
      then have "(y, z) \<in> conn R" unfolding conn_def by blast
      then show ?thesis using step.IH conn_trans by blast
    next
      case 2
      then show ?thesis using step.IH conn_trans by auto
    next
      case 3
      then show ?thesis using step.IH conn_trans by auto
    qed
  qed simp
qed

section \<open>What the forest spans\<close>

definition spans :: "nat \<Rightarrow> nat list \<Rightarrow> (nat \<times> nat) set \<Rightarrow> bool" where
  "spans n p R \<longleftrightarrow> forest n p \<and> (\<forall>x < n. \<forall>y < n. root p x = root p y \<longleftrightarrow> (x, y) \<in> conn R)"

lemma spans_insert:
  assumes "spans n p R" "a < n" "b < n" "forest n p'"
    "\<And>z. z < n \<Longrightarrow> root p' z = (if root p z = root p b then root p a else root p z)"
  shows "spans n p' (insert (a, b) R)"
proof -
  have R: "root p x = root p y \<longleftrightarrow> (x, y) \<in> conn R" if "x < n" "y < n" for x y
    using assms(1) that by (simp add: spans_def)
  have "root p' x = root p' y \<longleftrightarrow> (x, y) \<in> conn (insert (a, b) R)" if "x < n" "y < n" for x y
    unfolding conn_insert using that assms(2,3) by (simp add: assms(5) flip: R)
  then show ?thesis using assms(4) by (simp add: spans_def)
qed

lemma spans_redundant: "spans n p R \<Longrightarrow> (a, b) \<in> conn R \<Longrightarrow> spans n p (insert (a, b) R)"
proof -
  assume s: "spans n p R" and ab: "(a, b) \<in> conn R"
  have "conn (insert (a, b) R) = conn R"
  proof
    show "conn (insert (a, b) R) \<subseteq> conn R" using ab conn_edge by (intro conn_sub) auto
  qed (intro conn_mono subset_insertI)
  then show ?thesis using s by (simp add: spans_def)
qed

lemma spans_roots: "spans n p R \<Longrightarrow> forest n p' \<Longrightarrow> (\<And>z. z < n \<Longrightarrow> root p' z = root p z) \<Longrightarrow> spans n p' R"
  by (simp add: spans_def)

lemma spans_conn_eq: "spans n p R \<Longrightarrow> conn R = conn F \<Longrightarrow> spans n p F"
  by (simp add: spans_def)

definition roots :: "nat \<Rightarrow> nat list \<Rightarrow> nat set" where
  "roots n p = {x. x < n \<and> root p x = x}"

lemma roots_eq: "(\<And>z. z < n \<Longrightarrow> root p' z = root p z) \<Longrightarrow> roots n p' = roots n p"
  by (auto simp: roots_def)

lemma root_root: "forest n p \<Longrightarrow> x < n \<Longrightarrow> root p (root p x) = root p x"
  using root_of_root root_eq root_self by blast

lemma roots_link:
  assumes "forest n p" "a < n" "b < n" "root p a \<noteq> root p b"
    "\<And>z. z < n \<Longrightarrow> root p' z = (if root p z = root p b then root p a else root p z)"
  shows "Suc (card (roots n p')) = card (roots n p)"
proof -
  have "roots n p' = roots n p - {root p b}"
    using assms root_root by (fastforce simp: roots_def split: if_splits)
  moreover have "root p b \<in> roots n p" using assms(1,3) root_root root_below by (simp add: roots_def)
  moreover have "finite (roots n p)" by (simp add: roots_def)
  ultimately show ?thesis by (metis card_Suc_Diff1)
qed

text \<open>The loop keeps: its set connects what the edges so far connect.\<close>

lemma mst_loop_spans:
  assumes "spans n p (set B)" "\<forall>e \<in> set es. source e < n \<and> target e < n"
  shows "\<exists>p' B'. mst_loop es (p, B) = Some (p', B' @ B) \<and> spans n p' (set (B' @ B)) \<and>
    conn (set (B' @ B)) = conn (set B \<union> (\<lambda>e. (source e, target e)) ` set es) \<and>
    set B' \<subseteq> (\<lambda>e. (source e, target e)) ` set es \<and> length B' + card (roots n p') = card (roots n p)"
  using assms
proof (induction es arbitrary: p B)
  case Nil
  then show ?case by (intro exI [of _ p] exI [of _ "[]"]) simp
next
  case (Cons e es)
  let ?a = "source e" let ?b = "target e"
  have ab: "?a < n" "?b < n" using Cons.prems(2) by simp_all
  have es: "\<forall>e \<in> set es. source e < n \<and> target e < n" using Cons.prems(2) by simp
  have f: "forest n p" using Cons.prems(1) by (simp add: spans_def)
  obtain p1 where p1: "uf_find p ?a = Some (root p ?a, p1)" "forest n p1" "\<And>y. y < n \<Longrightarrow> root p1 y = root p y"
    using uf_find_root [OF f ab(1)] by blast
  obtain p2 where p2: "uf_find p1 ?b = Some (root p1 ?b, p2)" "forest n p2" "\<And>y. y < n \<Longrightarrow> root p2 y = root p1 y"
    using uf_find_root [OF p1(2) ab(2)] by blast
  have s2: "spans n p2 (set B)" using spans_roots [OF Cons.prems(1) p2(2)] p1(3) p2(3) by simp
  have c2: "roots n p2 = roots n p" using p1(3) p2(3) by (intro roots_eq) simp
  show ?case
  proof (cases "root p ?a = root p ?b")
    case True
    then have link: "(?a, ?b) \<in> conn (set B)" using Cons.prems(1) ab by (simp add: spans_def)
    obtain p' B' where r: "mst_loop es (p2, B) = Some (p', B' @ B)" "spans n p' (set (B' @ B))"
      "conn (set (B' @ B)) = conn (set B \<union> (\<lambda>e. (source e, target e)) ` set es)"
      "set B' \<subseteq> (\<lambda>e. (source e, target e)) ` set es" "length B' + card (roots n p') = card (roots n p2)"
      using Cons.IH [OF s2 es] by blast
    let ?R = "set B \<union> (\<lambda>e. (source e, target e)) ` set es"
    have "conn (insert (?a, ?b) ?R) = conn ?R"
    proof
      have "(?a, ?b) \<in> conn ?R" using link conn_mono [of "set B" ?R] by blast
      then show "conn (insert (?a, ?b) ?R) \<subseteq> conn ?R" using conn_edge by (intro conn_sub) auto
    qed (intro conn_mono subset_insertI)
    then show ?thesis using True p1 p2 ab r c2 by (intro exI [of _ p'] exI [of _ B']) auto
  next
    case False
    obtain p3 where p3: "uf_union p2 ?a ?b = Some p3" "forest n p3"
      "\<And>z. z < n \<Longrightarrow> root p3 z = (if root p2 z = root p2 ?b then root p2 ?a else root p2 z)"
      using uf_union_root [OF p2(2) ab] by blast
    have "spans n p3 (set ((?a, ?b) # B))" using spans_insert [OF s2 ab p3(2)] p3(3) by simp
    from Cons.IH [OF this es] obtain p' B' where r:
      "mst_loop es (p3, (?a, ?b) # B) = Some (p', B' @ (?a, ?b) # B)" "spans n p' (set (B' @ (?a, ?b) # B))"
      "conn (set (B' @ (?a, ?b) # B)) = conn (set ((?a, ?b) # B) \<union> (\<lambda>e. (source e, target e)) ` set es)"
      "set B' \<subseteq> (\<lambda>e. (source e, target e)) ` set es" "length B' + card (roots n p') = card (roots n p3)"
      by blast
    have "Suc (card (roots n p3)) = card (roots n p)"
      unfolding c2 [symmetric] using False p1(3) p2(3) ab p3(3) by (intro roots_link [OF p2(2) ab]) simp_all
    then show ?thesis using False p1 p2 p3(1) ab r by (intro exI [of _ p'] exI [of _ "B' @ [(?a, ?b)]"]) auto
  qed
qed

lemma mst_loop_append: "mst_loop (xs @ ys) st = Option.bind (mst_loop xs st) (mst_loop ys)"
  by (induction xs st rule: mst_loop.induct) (auto split: Option.bind_splits)

lemma root_start: "x < n \<Longrightarrow> root [0..<n] x = x"
  by (intro root_eq root_self) simp

lemma spans_start: "spans n [0..<n] {}"
proof -
  have "conn {} = Id" by (simp add: conn_def)
  moreover have "root_of [0..<n] x x" if "x < n" for x using that by (intro root_self) simp
  then have "forest n [0..<n]" unfolding forest_def by auto
  ultimately show ?thesis by (simp add: spans_def root_start)
qed

section \<open>What the backbone keeps\<close>

text \<open>The edges of at least a given weight.\<close>

definition links_over :: "f32 \<Rightarrow> TagEdge list \<Rightarrow> (nat \<times> nat) set" where
  "links_over \<theta> es = (\<lambda>e. (source e, target e)) ` {e \<in> set es. \<theta> \<le> weight e}"

lemma sort_key_split:
  fixes w :: "'a \<Rightarrow> real"
  shows "\<exists>hi lo. sort_key (\<lambda>e. - w e) es = hi @ lo \<and> set hi = {e \<in> set es. \<theta> \<le> w e}"
proof -
  have part: "\<exists>hi lo. xs = hi @ lo \<and> set hi = {e \<in> set xs. \<theta> \<le> w e}" if "sorted (map (\<lambda>e. - w e) xs)" for xs
    using that
  proof (induction xs)
    case (Cons x xs)
    show ?case
    proof (cases "\<theta> \<le> w x")
      case True
      have "sorted (map (\<lambda>e. - w e) xs)" using Cons.prems by simp
      from Cons.IH [OF this] obtain hi lo where hl: "xs = hi @ lo" "set hi = {e \<in> set xs. \<theta> \<le> w e}" by blast
      have "set (x # hi) = {e \<in> set (x # xs). \<theta> \<le> w e}" unfolding list.set hl(2) using True by blast
      then show ?thesis using hl(1) by (intro exI [of _ "x # hi"] exI [of _ lo]) (simp only: append_Cons)
    next
      case False
      moreover have "\<forall>y \<in> set xs. w y \<le> w x" using Cons.prems by simp
      ultimately have "{e \<in> set (x # xs). \<theta> \<le> w e} = {}" by force
      then show ?thesis by (intro exI [of _ "[]"] exI [of _ "x # xs"]) simp
    qed
  qed simp
  then show ?thesis using part [OF sorted_sort_key [of "\<lambda>e. - w e" es]] by simp
qed

lemma mst_of_strong:
  assumes "\<forall>e \<in> set es. source e < n \<and> target e < n"
  shows "\<exists>p B. mst_loop (sort_key (\<lambda>e. - weight e) es) ([0..<n], []) = Some (p, B) \<and> length B \<le> n \<and>
    (\<forall>\<theta>. \<exists>H. H \<subseteq> set B \<and> H \<subseteq> links_over \<theta> es \<and> conn H = conn (links_over \<theta> es))"
proof -
  have "roots n [0..<n] = {..<n}" by (auto simp: roots_def root_start)
  then have start: "card (roots n [0..<n]) = n" by simp
  have sorted: "\<forall>e \<in> set (sort_key (\<lambda>e. - weight e) es). source e < n \<and> target e < n" using assms by simp
  from mst_loop_spans [OF _ this, of "[0..<n]" "[]"] spans_start obtain p B where pB:
    "mst_loop (sort_key (\<lambda>e. - weight e) es) ([0..<n], []) = Some (p, B)" "spans n p (set B)" "length B + card (roots n p) = n"
    by (auto simp: start)
  have "\<exists>H. H \<subseteq> set B \<and> H \<subseteq> links_over \<theta> es \<and> conn H = conn (links_over \<theta> es)" for \<theta>
  proof -
    obtain hi lo where hl: "sort_key (\<lambda>e. - weight e) es = hi @ lo" "set hi = {e \<in> set es. \<theta> \<le> weight e}"
      using sort_key_split [of weight es \<theta>] by blast
    have bounds: "\<forall>e \<in> set hi. source e < n \<and> target e < n" "\<forall>e \<in> set lo. source e < n \<and> target e < n"
      using sorted by (simp_all add: hl(1))
    obtain p1 H where H: "mst_loop hi ([0..<n], []) = Some (p1, H)" "spans n p1 (set H)"
      "conn (set H) = conn ((\<lambda>e. (source e, target e)) ` set hi)" "set H \<subseteq> (\<lambda>e. (source e, target e)) ` set hi"
      using mst_loop_spans [OF _ bounds(1), of "[0..<n]" "[]"] spans_start by auto
    obtain p2 B2 where "mst_loop lo (p1, H) = Some (p2, B2 @ H)" using mst_loop_spans [OF H(2) bounds(2)] by blast
    then have "set H \<subseteq> set B" using pB(1) H(1) by (auto simp: hl(1) mst_loop_append)
    then show ?thesis using H(3,4) hl(2) by (intro exI [of _ "set H"]) (simp add: links_over_def)
  qed
  then show ?thesis using pB(1,3) by (intro exI [of _ p] exI [of _ B]) simp
qed

lemma length_top_pairs: "length (top_pairs n es) \<le> 2 * n"
proof -
  have two: "length (List.map_filter f (top_two es a)) \<le> 2" for f :: "nat \<Rightarrow> (nat \<times> nat) option" and a
  proof -
    have "length (top_two es a) \<le> 2" by (simp add: top_two_def)
    moreover have "length (List.map_filter f (top_two es a)) \<le> length (top_two es a)"
      by (simp only: List.map_filter_def length_map length_filter_le)
    ultimately show ?thesis by linarith
  qed
  have "sum_list (map (\<lambda>a. length (List.map_filter (f a) (top_two es a))) [0..<k]) \<le> 2 * k"
    for f :: "nat \<Rightarrow> nat \<Rightarrow> (nat \<times> nat) option" and k
  proof (induction k)
    case (Suc k)
    then show ?case using two [of "f k" k] by simp
  qed simp
  then show ?thesis by (simp add: top_pairs_def length_concat comp_def)
qed

lemma build_backbone_returns:
  assumes "edges_ok n es"
  shows "\<exists>bb. build_backbone n es = Some bb"
proof -
  have "\<forall>e \<in> set es. source e < n \<and> target e < n" using assms by (auto simp: edges_ok_def)
  from mst_of_strong [OF this] show ?thesis by (auto simp: build_backbone_def)
qed

text \<open>C33. The backbone keeps, at every threshold, what the edges over the threshold connect: two tags
  that strong edges link, directly or through others, are linked by edges of the backbone that are no
  weaker.  It is a part of the graph with fewer than three edges for each node.\<close>

theorem backbone_keeps_strong_links:
  assumes "edges_ok n es"
  shows "\<exists>bb. build_backbone n es = Some bb \<and> set bb \<subseteq> set es \<and> length bb \<le> 3 * n \<and>
    (\<forall>\<theta>. conn (links_over \<theta> bb) = conn (links_over \<theta> es))"
proof (cases "es = [] \<or> n = 0")
  case True
  then have "es = []" using assms by (cases es) (auto simp: edges_ok_def)
  then show ?thesis by (simp add: build_backbone_def)
next
  case False
  have bounds: "\<forall>e \<in> set es. source e < n \<and> target e < n" and key: "\<And>e. e \<in> set es \<Longrightarrow> edge_key e = (source e, target e)"
    using assms by (auto simp: edges_ok_def edge_key_def)
  obtain p B where pB: "mst_loop (sort_key (\<lambda>e. - weight e) es) ([0..<n], []) = Some (p, B) \<and> length B \<le> n \<and>
    (\<forall>\<theta>. \<exists>H. H \<subseteq> set B \<and> H \<subseteq> links_over \<theta> es \<and> conn H = conn (links_over \<theta> es))"
    using mst_of_strong [OF bounds] by blast
  define bb where "bb = filter (\<lambda>e. edge_key e \<in> set B \<union> set (top_pairs n es)) es"
  have "conn (links_over \<theta> bb) = conn (links_over \<theta> es)" for \<theta>
  proof
    show "conn (links_over \<theta> bb) \<subseteq> conn (links_over \<theta> es)" by (intro conn_mono) (auto simp: links_over_def bb_def)
    obtain H where H: "H \<subseteq> set B" "H \<subseteq> links_over \<theta> es" "conn H = conn (links_over \<theta> es)" using pB by blast
    have "H \<subseteq> links_over \<theta> bb" 
    proof
      fix l assume "l \<in> H"
      then obtain e where e: "e \<in> set es" "\<theta> \<le> weight e" "l = (source e, target e)" "l \<in> set B"
        using H(1,2) by (auto simp: links_over_def)
      then have "e \<in> set bb" using key by (simp add: bb_def)
      then show "l \<in> links_over \<theta> bb" using e by (auto simp: links_over_def)
    qed
    then show "conn (links_over \<theta> es) \<subseteq> conn (links_over \<theta> bb)" using conn_mono H(3) by metis
  qed
  moreover have "length bb \<le> 3 * n"
  proof -
    have "distinct (map edge_key bb)" using assms key by (simp add: bb_def edges_ok_def distinct_map_filter cong: map_cong)
    then have "length bb = card (set (map edge_key bb))" using distinct_card by fastforce
    also have "\<dots> \<le> card (set (B @ top_pairs n es))" by (intro card_mono) (auto simp: bb_def)
    also have "\<dots> \<le> length B + length (top_pairs n es)" using card_length by (metis length_append)
    also have "length (top_pairs n es) \<le> 2 * n" by (rule length_top_pairs)
    finally show ?thesis using pB by simp
  qed
  ultimately show ?thesis using False pB by (auto simp: build_backbone_def bb_def)
qed

theorem backbone_keeps_strong_links_witness:
  "\<exists>bb. build_backbone 3 [\<lparr>source = 0, target = 1, weight = 1 / 2\<rparr>, \<lparr>source = 1, target = 2, weight = 1 / 3\<rparr>] = Some bb \<and>
     length bb \<le> 9"
proof -
  have "edges_ok 3 [\<lparr>source = 0, target = 1, weight = 1 / 2\<rparr>, \<lparr>source = 1, target = 2, weight = 1 / 3\<rparr>]"
    by (simp add: edges_ok_def)
  from backbone_keeps_strong_links [OF this] show ?thesis by fastforce
qed

end
