(* ===== verification/Taste_Communities.thy ===== *)
theory Taste_Communities
  imports Taste_Backbone
begin

text \<open>
  The communities and the centrality of the taste themes (\<open>louvain_communities\<close> and
  \<open>page_rank_full\<close> in \<open>utils/taste_themes.rs\<close>).  In spite of its name the first is a synchronous label
  propagation: every node takes the heaviest label among its neighbours, all at once, fifty times at
  most.  The second is a power iteration that writes the next ranks in place.
\<close>

section \<open>Label propagation\<close>

definition LOUVAIN_MAX_ITER :: nat where "LOUVAIN_MAX_ITER = 50"

definition add_label :: "nat \<Rightarrow> f32 \<Rightarrow> (nat, f32) table \<Rightarrow> (nat, f32) table" where
  "add_label l w m = tbl_insert l ((case tbl_get m l of None \<Rightarrow> 0 | Some v \<Rightarrow> v) + w) m"

definition label_weights :: "nat list \<Rightarrow> (nat \<times> f32) list \<Rightarrow> (nat, f32) table" where
  "label_weights prev adj = fold (\<lambda>(neigh, w). add_label (prev ! neigh) w) adj []"

text \<open>\<open>max_by\<close>: a later entry wins unless the earlier one is greater; the smaller label counts as
  greater.\<close>

definition heavier :: "(nat \<times> f32) option \<Rightarrow> nat \<times> f32 \<Rightarrow> (nat \<times> f32) option" where
  "heavier best = (\<lambda>(l, w). case best of
     None \<Rightarrow> Some (l, w)
   | Some (l', w') \<Rightarrow> if w < w' \<or> w = w' \<and> l' < l then Some (l', w') else Some (l, w))"

definition best_label :: "nat list \<Rightarrow> (nat \<times> f32) list \<Rightarrow> nat \<Rightarrow> nat" where
  "best_label prev adj own =
     (case foldl heavier None (add_label own (1 / 100) (label_weights prev adj)) of None \<Rightarrow> own | Some (l, w) \<Rightarrow> l)"

definition next_labels :: "nat \<Rightarrow> TagEdge list \<Rightarrow> nat list \<Rightarrow> nat list" where
  "next_labels n edges prev =
     map (\<lambda>v. if neighbours edges v = [] then prev ! v else best_label prev (neighbours edges v) (prev ! v)) [0..<n]"

fun propagate :: "nat \<Rightarrow> nat \<Rightarrow> TagEdge list \<Rightarrow> nat list \<Rightarrow> nat list" where
  "propagate n 0 edges labels = labels"
| "propagate n (Suc k) edges labels =
     (let next = next_labels n edges labels in if next \<noteq> labels then propagate n k edges next else labels)"

definition normalise_ids :: "nat list \<Rightarrow> nat list" where
  "normalise_ids labels =
     (let unique = remdups_adj (sort labels) in map (\<lambda>l. length (takeWhile (\<lambda>u. u \<noteq> l) unique)) labels)"

definition louvain_communities :: "nat \<Rightarrow> TagEdge list \<Rightarrow> nat list" where
  "louvain_communities n edges =
     (if n = 0 then [] else normalise_ids (propagate n LOUVAIN_MAX_ITER edges [0..<n]))"

section \<open>Page rank\<close>

definition PAGERANK_D :: f32 where "PAGERANK_D = 85 / 100"
definition PAGERANK_MAX_ITER :: nat where "PAGERANK_MAX_ITER = 100"
definition PAGERANK_TOL :: f32 where "PAGERANK_TOL = 1 / 1000000"

definition adj_out :: "TagEdge list \<Rightarrow> nat \<Rightarrow> (nat \<times> f32) list" where
  "adj_out edges v = map (\<lambda>(t, w). (t, max (1 / 1000) w)) (neighbours edges v)"

definition out_degree :: "TagEdge list \<Rightarrow> nat \<Rightarrow> f32" where
  "out_degree edges v = sum_list (map snd (adj_out edges v))"

definition base_rank :: "nat \<Rightarrow> TagEdge list \<Rightarrow> f32 list \<Rightarrow> f32" where
  "base_rank n edges rank =
     (let dangling_sum = sum_list (map (\<lambda>i. rank ! i) (filter (\<lambda>i. out_degree edges i = 0) [0..<n]))
      in dangling_sum * (PAGERANK_D / real n) + (1 - PAGERANK_D) / real n)"

definition give_rank :: "f32 \<Rightarrow> f32 \<Rightarrow> nat \<times> f32 \<Rightarrow> f32 list \<Rightarrow> f32 list" where
  "give_rank r deg = (\<lambda>(j, w) nx. nx[j := nx ! j + PAGERANK_D * r * w / deg])"

definition rank_node :: "nat \<Rightarrow> TagEdge list \<Rightarrow> f32 list \<Rightarrow> nat \<Rightarrow> f32 list \<Rightarrow> f32 list" where
  "rank_node n edges rank i nx =
     (let nx1 = nx[i := base_rank n edges rank] in
      if out_degree edges i > 0 then fold (give_rank (rank ! i) (out_degree edges i)) (adj_out edges i) nx1 else nx1)"

definition rank_step :: "nat \<Rightarrow> TagEdge list \<Rightarrow> f32 list \<Rightarrow> f32 list" where
  "rank_step n edges rank = fold (rank_node n edges rank) [0..<n] (replicate n 0)"

fun rank_loop :: "nat \<Rightarrow> nat \<Rightarrow> TagEdge list \<Rightarrow> f32 list \<Rightarrow> f32 list" where
  "rank_loop n 0 edges rank = rank"
| "rank_loop n (Suc k) edges rank =
     (let rank_next = rank_step n edges rank;
          diff = sum_list (map2 (\<lambda>a b. \<bar>a - b\<bar>) rank rank_next)
      in if diff < PAGERANK_TOL then rank_next else rank_loop n k edges rank_next)"

definition page_rank_full :: "nat \<Rightarrow> TagEdge list \<Rightarrow> f32 list" where
  "page_rank_full n edges =
     (if n = 0 then [] else rank_loop n PAGERANK_MAX_ITER edges (replicate n (1 / real n)))"

section \<open>Communities lie in components\<close>

lemma keys_add_label: "fst ` set (add_label l w m) \<subseteq> insert l (fst ` set m)"
  using set_tbl_insert unfolding add_label_def by fastforce

lemma keys_label_weights: "fst ` set (label_weights prev adj) \<subseteq> (\<lambda>(v, w). prev ! v) ` set adj"
proof -
  have "fst ` set (fold (\<lambda>(v, w). add_label (prev ! v) w) adj m) \<subseteq> fst ` set m \<union> (\<lambda>(v, w). prev ! v) ` set adj" for m
  proof (induction adj arbitrary: m)
    case (Cons a adj)
    obtain v w where a: "a = (v, w)" by fastforce
    show ?case using Cons.IH [of "add_label (prev ! v) w m"] keys_add_label [of "prev ! v" w m] by (auto simp: a)
  qed simp
  from this [of "[]"] show ?thesis by (simp add: label_weights_def)
qed

lemma heavier_member: "foldl heavier best m = Some x \<Longrightarrow> x \<in> set m \<or> best = Some x"
proof (induction m arbitrary: best)
  case (Cons a m)
  have "heavier best a = Some a \<or> heavier best a = best"
    by (cases a) (simp add: heavier_def split: option.split)
  then show ?case using Cons by (metis foldl_Cons list.set_intros option.inject)
qed simp

lemma best_label_origin: "best_label prev adj own = own \<or> (\<exists>(v, w) \<in> set adj. best_label prev adj own = prev ! v)"
proof (cases "foldl heavier None (add_label own (1 / 100) (label_weights prev adj))")
  case (Some x)
  obtain l w where x: "x = (l, w)" by fastforce
  have "(l, w) \<in> set (add_label own (1 / 100) (label_weights prev adj))" using heavier_member Some x by blast
  then have "l = own \<or> l \<in> (\<lambda>(v, w). prev ! v) ` set adj"
    using keys_add_label [of own "1 / 100" "label_weights prev adj"] keys_label_weights [of prev adj] by force
  then show ?thesis using Some x by (auto simp: best_label_def)
qed (simp add: best_label_def)

lemma neighbours_conn: "(v, w) \<in> set (neighbours edges u) \<Longrightarrow> (u, v) \<in> conn (links_over w edges)"
proof -
  assume "(v, w) \<in> set (neighbours edges u)"
  then obtain e where "e \<in> set edges" "w = weight e" "(source e = u \<and> target e = v) \<or> (target e = u \<and> source e = v)"
    by (auto simp: neighbours_def split: if_splits)
  then show ?thesis using conn_edge [of "source e" "target e" "links_over w edges"] conn_sym by (auto simp: links_over_def)
qed

definition edge_links :: "TagEdge list \<Rightarrow> (nat \<times> nat) set" where
  "edge_links es = (\<lambda>e. (source e, target e)) ` set es"

lemma neighbours_linked: "(v, w) \<in> set (neighbours edges u) \<Longrightarrow> (u, v) \<in> conn (edge_links edges)"
proof -
  assume "(v, w) \<in> set (neighbours edges u)"
  moreover have "links_over w edges \<subseteq> edge_links edges" by (auto simp: links_over_def edge_links_def)
  ultimately show ?thesis using neighbours_conn conn_mono by blast
qed

lemma neighbours_below: "edges_ok n edges \<Longrightarrow> (v, w) \<in> set (neighbours edges u) \<Longrightarrow> v < n \<and> v \<noteq> u"
  by (auto simp: neighbours_def edges_ok_def split: if_splits)

text \<open>The label of a node is always a node it is linked with.\<close>

definition labels_ok :: "nat \<Rightarrow> TagEdge list \<Rightarrow> nat list \<Rightarrow> bool" where
  "labels_ok n edges labels \<longleftrightarrow> length labels = n \<and> (\<forall>v < n. labels ! v < n \<and> (v, labels ! v) \<in> conn (edge_links edges))"

lemma labels_ok_next:
  assumes "edges_ok n edges" "labels_ok n edges labels"
  shows "labels_ok n edges (next_labels n edges labels)"
  unfolding labels_ok_def
proof (intro conjI allI impI)
  fix v assume v: "v < n"
  let ?l = "next_labels n edges labels ! v"
  have "?l = labels ! v \<or> (\<exists>(u, w) \<in> set (neighbours edges v). ?l = labels ! u)"
    using best_label_origin [of labels "neighbours edges v" "labels ! v"] v by (simp add: next_labels_def)
  then consider "?l = labels ! v" | u w where "(u, w) \<in> set (neighbours edges v)" "?l = labels ! u" by blast
  then have "?l < n \<and> (v, ?l) \<in> conn (edge_links edges)"
  proof cases
    case 1
    then show ?thesis using assms(2) v by (simp add: labels_ok_def)
  next
    case 2
    then have "u < n" using neighbours_below [OF assms(1)] by blast
    then show ?thesis using 2 assms(2) neighbours_linked conn_trans by (metis labels_ok_def)
  qed
  then show "?l < n" "(v, ?l) \<in> conn (edge_links edges)" by blast+
qed (simp add: next_labels_def)

lemma labels_ok_propagate: "edges_ok n edges \<Longrightarrow> labels_ok n edges labels \<Longrightarrow> labels_ok n edges (propagate n k edges labels)"
  by (induction k arbitrary: labels) (simp_all add: Let_def labels_ok_next)

lemma index_of_eq:
  "a \<in> set u \<Longrightarrow> b \<in> set u \<Longrightarrow> length (takeWhile (\<lambda>x. x \<noteq> a) u) = length (takeWhile (\<lambda>x. x \<noteq> b) u) \<Longrightarrow> a = b"
  by (induction u) (auto split: if_splits)

lemma index_less: "a \<in> set u \<Longrightarrow> length (takeWhile (\<lambda>x. x \<noteq> a) u) < length u"
  by (induction u) auto

lemma index_nth: "distinct u \<Longrightarrow> i < length u \<Longrightarrow> length (takeWhile (\<lambda>x. x \<noteq> u ! i) u) = i"
proof (induction u arbitrary: i)
  case (Cons x u)
  then show ?case by (cases i) auto
qed simp

lemma normalise_same: "v < length ls \<Longrightarrow> w < length ls \<Longrightarrow> normalise_ids ls ! v = normalise_ids ls ! w \<longleftrightarrow> ls ! v = ls ! w"
  using index_of_eq [of "ls ! v" "remdups_adj (sort ls)" "ls ! w"] by (auto simp: normalise_ids_def Let_def)

lemma distinct_remdups_sorted: "sorted (xs :: nat list) \<Longrightarrow> distinct (remdups_adj xs)"
  by (induction xs rule: remdups_adj.induct) auto

lemma normalise_dense: "set (normalise_ids ls) = {..<card (set ls)}"
proof -
  let ?u = "remdups_adj (sort ls)"
  have d: "distinct ?u" "set ?u = set ls" by (simp_all add: distinct_remdups_sorted)
  have len: "length ?u = card (set ls)" using distinct_card [OF d(1)] d(2) by simp
  have "set (normalise_ids ls) = (\<lambda>l. length (takeWhile (\<lambda>x. x \<noteq> l) ?u)) ` set ?u" by (simp add: normalise_ids_def Let_def)
  also have "\<dots> = {..<length ?u}"
  proof
    show "{..<length ?u} \<subseteq> (\<lambda>l. length (takeWhile (\<lambda>x. x \<noteq> l) ?u)) ` set ?u"
    proof
      fix i assume "i \<in> {..<length ?u}"
      then have i: "i < length ?u" by simp
      show "i \<in> (\<lambda>l. length (takeWhile (\<lambda>x. x \<noteq> l) ?u)) ` set ?u"
        using index_nth [OF d(1) i] nth_mem [OF i] by (intro image_eqI [of _ _ "?u ! i"]) simp_all
    qed
    show "(\<lambda>l. length (takeWhile (\<lambda>x. x \<noteq> l) ?u)) ` set ?u \<subseteq> {..<length ?u}"
    proof
      fix i assume "i \<in> (\<lambda>l. length (takeWhile (\<lambda>x. x \<noteq> l) ?u)) ` set ?u"
      then obtain l where "l \<in> set ?u" "i = length (takeWhile (\<lambda>x. x \<noteq> l) ?u)" by blast
      then show "i \<in> {..<length ?u}" using index_less [of l ?u] by simp
    qed
  qed
  finally show ?thesis using len by simp
qed

text \<open>C34. Two tags of one community are linked through edges of the backbone, and the communities are
  numbered from zero without a gap.\<close>

theorem communities_are_linked:
  assumes "edges_ok n edges" "v < n" "w < n" "louvain_communities n edges ! v = louvain_communities n edges ! w"
  shows "(v, w) \<in> conn (edge_links edges) \<and>
    (\<exists>k. set (louvain_communities n edges) = {..<k} \<and> length (louvain_communities n edges) = n)"
proof -
  let ?ls = "propagate n LOUVAIN_MAX_ITER edges [0..<n]"
  have ok: "labels_ok n edges ?ls" using assms(1) by (intro labels_ok_propagate) (simp_all add: labels_ok_def)
  have lc: "louvain_communities n edges = normalise_ids ?ls" using assms(2) by (simp add: louvain_communities_def)
  then have "?ls ! v = ?ls ! w" using assms normalise_same ok by (simp add: labels_ok_def)
  then have "(v, w) \<in> conn (edge_links edges)" using ok assms(2,3) conn_sym conn_trans by (metis labels_ok_def)
  moreover have "length (normalise_ids ?ls) = n" using ok by (simp add: normalise_ids_def labels_ok_def Let_def)
  ultimately show ?thesis using normalise_dense lc by metis
qed

theorem communities_are_linked_witness:
  "louvain_communities 3 [\<lparr>source = 0, target = 1, weight = 1 / 2\<rparr>, \<lparr>source = 0, target = 2, weight = 1 / 2\<rparr>,
     \<lparr>source = 1, target = 2, weight = 1 / 2\<rparr>] = [0, 0, 0] \<and>
   (0, 2) \<in> conn (edge_links [\<lparr>source = 0, target = 1, weight = 1 / 2\<rparr>, \<lparr>source = 0, target = 2, weight = 1 / 2\<rparr>,
     \<lparr>source = 1, target = 2, weight = 1 / 2\<rparr>])"
proof -
  let ?es = "[\<lparr>source = 0, target = 1, weight = 1 / 2\<rparr>, \<lparr>source = 0, target = 2, weight = 1 / 2\<rparr>,
     \<lparr>source = 1, target = 2, weight = 1 / 2\<rparr>]"
  have run: "louvain_communities 3 ?es = [0, 0, 0]" by code_simp
  then have "louvain_communities 3 ?es ! 0 = louvain_communities 3 ?es ! 2" by simp
  moreover have "edges_ok 3 ?es" by (simp add: edges_ok_def)
  ultimately have "(0, 2) \<in> conn (edge_links ?es)" using communities_are_linked [of 3 ?es 0 2] by simp
  then show ?thesis using run by blast
qed

section \<open>A pair alone\<close>

text \<open>Two tags that have only each other for a neighbour exchange their labels in every round, so they
  never end in one community, however strong their link is.\<close>

lemma best_of_one:
  assumes "1 / 100 < w" "prev ! y \<noteq> own"
  shows "best_label prev [(y, w)] own = prev ! y"
  using assms by (simp add: best_label_def label_weights_def add_label_def tbl_insert_def heavier_def tbl_get_def)

theorem lone_pair_never_joins:
  assumes "x < n" "y < n" "x \<noteq> y" "1 / 100 < w" "neighbours edges x = [(y, w)]" "neighbours edges y = [(x, w)]"
  shows "louvain_communities n edges ! x \<noteq> louvain_communities n edges ! y"
proof -
  have step: "next_labels n edges ls ! x = ls ! y \<and> next_labels n edges ls ! y = ls ! x" if "ls ! x \<noteq> ls ! y" for ls
    using assms that best_of_one [of w ls y "ls ! x"] best_of_one [of w ls x "ls ! y"] by (simp add: next_labels_def)
  have "propagate n k edges ls ! x \<noteq> propagate n k edges ls ! y" if "ls ! x \<noteq> ls ! y" for k ls
    using that
  proof (induction k arbitrary: ls)
    case (Suc k)
    then have "next_labels n edges ls ! x \<noteq> next_labels n edges ls ! y" using step by metis
    then show ?case using Suc by (simp add: Let_def)
  qed simp
  moreover have "length (propagate n k edges ls) = n" if "length ls = n" for k ls
    using that by (induction k arbitrary: ls) (simp_all add: Let_def next_labels_def)
  ultimately show ?thesis using assms(1-3) normalise_same by (simp add: louvain_communities_def)
qed

theorem lone_pair_never_joins_witness:
  "louvain_communities 2 [\<lparr>source = 0, target = 1, weight = 1\<rparr>] ! 0 \<noteq>
   louvain_communities 2 [\<lparr>source = 0, target = 1, weight = 1\<rparr>] ! 1"
  by (rule lone_pair_never_joins [where w = 1]) (simp_all add: neighbours_def)

section \<open>Ranks\<close>

definition rank_ok :: "nat \<Rightarrow> f32 list \<Rightarrow> bool" where
  "rank_ok n rank \<longleftrightarrow> length rank = n \<and> (\<forall>i < n. 0 \<le> rank ! i) \<and> sum_list rank \<le> 1"

lemma sum_list_update: "i < length xs \<Longrightarrow> sum_list (xs[i := v]) = sum_list xs - xs ! i + (v :: real)"
proof (induction xs arbitrary: i)
  case (Cons x xs)
  then show ?case by (cases i) auto
qed simp

lemma give_all:
  assumes "0 \<le> r" "0 < deg" "\<forall>(j, w) \<in> set adj. j < length nx \<and> 0 \<le> w"
  shows "length (fold (give_rank r deg) adj nx) = length nx \<and>
    sum_list (fold (give_rank r deg) adj nx) = sum_list nx + PAGERANK_D * r * (sum_list (map snd adj) / deg) \<and>
    (\<forall>i < length nx. nx ! i \<le> fold (give_rank r deg) adj nx ! i)"
  using assms(3)
proof (induction adj arbitrary: nx)
  case (Cons a adj)
  obtain j w where a: "a = (j, w)" by fastforce
  let ?nx = "give_rank r deg a nx"
  have one: "length ?nx = length nx" "sum_list ?nx = sum_list nx + PAGERANK_D * r * w / deg"
    using Cons.prems by (simp_all add: give_rank_def a sum_list_update)
  have up: "nx ! i \<le> ?nx ! i" if "i < length nx" for i
    using that Cons.prems assms(1,2) by (cases "i = j") (simp_all add: give_rank_def a PAGERANK_D_def)
  have "\<forall>(j, w) \<in> set adj. j < length ?nx \<and> 0 \<le> w" using Cons.prems one(1) by auto
  note IH = Cons.IH [OF this]
  have "nx ! i \<le> fold (give_rank r deg) adj ?nx ! i" if "i < length nx" for i
    using that order_trans [OF up] IH one(1) by simp
  then show ?case using one IH by (simp add: a add_divide_distrib algebra_simps)
qed simp

lemma adj_out_below: "edges_ok n edges \<Longrightarrow> (j, w) \<in> set (adj_out edges v) \<Longrightarrow> j < n \<and> 0 \<le> w"
  using neighbours_below by (auto simp: adj_out_def)

lemma out_degree_nonneg: "0 \<le> out_degree edges v"
  unfolding out_degree_def adj_out_def by (intro sum_list_nonneg) auto

text \<open>The rank the dangling nodes and the random jumps give to every node.\<close>

lemma base_rank_bounds:
  assumes "0 < n" "rank_ok n rank"
  shows "(1 - PAGERANK_D) / n \<le> base_rank n edges rank"
    and "n * base_rank n edges rank = PAGERANK_D * sum_list (map (\<lambda>i. rank ! i) (filter (\<lambda>i. out_degree edges i = 0) [0..<n])) + (1 - PAGERANK_D)"
proof -
  have "0 \<le> sum_list (map (\<lambda>i. rank ! i) (filter (\<lambda>i. out_degree edges i = 0) [0..<n]))"
    using assms(2) by (intro sum_list_nonneg) (auto simp: rank_ok_def)
  then show "(1 - PAGERANK_D) / n \<le> base_rank n edges rank" by (simp add: base_rank_def Let_def PAGERANK_D_def)
  show "n * base_rank n edges rank = PAGERANK_D * sum_list (map (\<lambda>i. rank ! i) (filter (\<lambda>i. out_degree edges i = 0) [0..<n])) + (1 - PAGERANK_D)"
    using assms(1) by (simp add: base_rank_def Let_def field_simps)
qed

lemma rank_nodes:
  assumes "edges_ok n edges" "0 < n" "rank_ok n rank" "k \<le> n"
  defines "nx \<equiv> fold (rank_node n edges rank) [0..<k] (replicate n 0)"
  shows "length nx = n \<and> (\<forall>i < n. 0 \<le> nx ! i) \<and> (\<forall>i < k. base_rank n edges rank \<le> nx ! i) \<and>
    sum_list nx \<le> k * base_rank n edges rank + PAGERANK_D * sum_list (map (\<lambda>i. rank ! i) (filter (\<lambda>i. out_degree edges i > 0) [0..<k]))"
  using assms(4) unfolding nx_def
proof (induction k)
  case 0
  then show ?case by (simp add: sum_list_replicate)
next
  case (Suc k)
  let ?b = "base_rank n edges rank" let ?nx = "fold (rank_node n edges rank) [0..<k] (replicate n 0)"
  let ?nx1 = "?nx[k := ?b]" let ?deg = "out_degree edges k"
  have IH: "length ?nx = n" "\<forall>i < n. 0 \<le> ?nx ! i" "\<forall>i < k. ?b \<le> ?nx ! i"
    "sum_list ?nx \<le> k * ?b + PAGERANK_D * sum_list (map (\<lambda>i. rank ! i) (filter (\<lambda>i. out_degree edges i > 0) [0..<k]))"
    using Suc by simp_all
  have b: "0 \<le> ?b" using base_rank_bounds(1) [OF assms(2,3), of edges] by (simp add: PAGERANK_D_def) (smt (verit) divide_nonneg_nonneg of_nat_0_le_iff)
  have one: "length ?nx1 = n" "\<forall>i < n. 0 \<le> ?nx1 ! i" "\<forall>i < Suc k. ?b \<le> ?nx1 ! i"
    using IH(1-3) b Suc.prems by (auto simp: nth_list_update less_Suc_eq)
  have s: "sum_list ?nx1 \<le> sum_list ?nx + ?b" using IH(1,2) Suc.prems by (simp add: sum_list_update)
  have node: "fold (rank_node n edges rank) [0..<Suc k] (replicate n 0) = rank_node n edges rank k ?nx" by simp
  show ?case
  proof (cases "?deg > 0")
    case False
    then have "rank_node n edges rank k ?nx = ?nx1" by (simp add: rank_node_def Let_def)
    then show ?thesis unfolding node using False one s IH(4) by (simp add: algebra_simps)
  next
    case True
    have rk: "0 \<le> rank ! k" using assms(3) Suc.prems by (simp add: rank_ok_def)
    have below: "\<forall>(j, w) \<in> set (adj_out edges k). j < length ?nx1 \<and> 0 \<le> w" using adj_out_below [OF assms(1)] one(1) by auto
    have share: "sum_list (map snd (adj_out edges k)) / ?deg = 1" using True by (simp add: out_degree_def)
    note g = give_all [OF rk True below]
    let ?r = "fold (give_rank (rank ! k) ?deg) (adj_out edges k) ?nx1"
    have "length ?r = n" "sum_list ?r = sum_list ?nx1 + PAGERANK_D * rank ! k" using g one(1) share by simp_all
    moreover have "\<forall>i < n. 0 \<le> ?r ! i" "\<forall>i < Suc k. ?b \<le> ?r ! i"
    proof -
      have up: "?nx1 ! i \<le> ?r ! i" if "i < n" for i using g one(1) that by simp
      show "\<forall>i < n. 0 \<le> ?r ! i" using one(2) order_trans [OF _ up] by blast
      show "\<forall>i < Suc k. ?b \<le> ?r ! i"
        using one(3) order_trans [OF _ up] Suc.prems by (metis order_less_le_trans)
    qed
    moreover have "rank_node n edges rank k ?nx = ?r" using True by (simp add: rank_node_def Let_def)
    ultimately show ?thesis unfolding node using True s IH(4) by (simp add: algebra_simps)
  qed
qed

lemma rank_ok_step:
  assumes "edges_ok n edges" "0 < n" "rank_ok n rank"
  shows "rank_ok n (rank_step n edges rank) \<and> (\<forall>i < n. (1 - PAGERANK_D) / n \<le> rank_step n edges rank ! i)"
proof -
  let ?z = "filter (\<lambda>i. out_degree edges i = 0) [0..<n]" let ?p = "filter (\<lambda>i. out_degree edges i > 0) [0..<n]"
  have split: "sum_list (map (\<lambda>i. rank ! i) (filter (\<lambda>i. out_degree edges i = 0) js)) +
      sum_list (map (\<lambda>i. rank ! i) (filter (\<lambda>i. out_degree edges i > 0) js)) = sum_list (map (\<lambda>i. rank ! i) js)" for js
  proof (induction js)
    case (Cons i js)
    then show ?case using out_degree_nonneg [of edges i] by auto
  qed simp
  have all: "sum_list (map (\<lambda>i. rank ! i) ?z) + sum_list (map (\<lambda>i. rank ! i) ?p) = sum_list rank"
    unfolding split using assms(3) by (metis map_nth rank_ok_def)
  note r = rank_nodes [OF assms order_refl]
  have "sum_list (rank_step n edges rank) \<le> n * base_rank n edges rank + PAGERANK_D * sum_list (map (\<lambda>i. rank ! i) ?p)"
    using r by (simp add: rank_step_def)
  also have "\<dots> = PAGERANK_D * sum_list rank + (1 - PAGERANK_D)"
    unfolding base_rank_bounds(2) [OF assms(2,3)] all [symmetric] by (simp add: algebra_simps)
  also have "\<dots> \<le> 1" using assms(3) by (simp add: rank_ok_def PAGERANK_D_def)
  finally have "sum_list (rank_step n edges rank) \<le> 1" .
  moreover have "(1 - PAGERANK_D) / n \<le> rank_step n edges rank ! i" if "i < n" for i
    using r that by (intro order_trans [OF base_rank_bounds(1) [OF assms(2,3), of edges]]) (simp add: rank_step_def)
  ultimately show ?thesis using r by (simp add: rank_ok_def rank_step_def)
qed

lemma rank_loop_invariant:
  assumes "\<And>r. P r \<Longrightarrow> P (rank_step n edges r) \<and> P2 (rank_step n edges r)" "P rank" "0 < k"
  shows "P (rank_loop n k edges rank) \<and> P2 (rank_loop n k edges rank)"
  using assms(2,3)
proof (induction k arbitrary: rank)
  case (Suc k)
  then show ?case using assms(1) by (cases k) (auto simp: Let_def)
qed simp

text \<open>The ranks are positive, at least the share of a random jump, and add up to at most one.\<close>

theorem ranks_are_shares:
  assumes "edges_ok n edges" "0 < n"
  shows "length (page_rank_full n edges) = n \<and> sum_list (page_rank_full n edges) \<le> 1 \<and>
    (\<forall>i < n. (1 - PAGERANK_D) / n \<le> page_rank_full n edges ! i)"
proof -
  have "rank_ok n (replicate n (1 / n))" using assms(2) by (simp add: rank_ok_def sum_list_replicate)
  from rank_loop_invariant [of "rank_ok n" n edges "\<lambda>r. \<forall>i < n. (1 - PAGERANK_D) / n \<le> r ! i", OF rank_ok_step [OF assms] this]
  show ?thesis using assms(2) by (simp add: page_rank_full_def PAGERANK_MAX_ITER_def rank_ok_def)
qed

theorem ranks_are_shares_witness:
  "sum_list (page_rank_full 2 [\<lparr>source = 0, target = 1, weight = 1\<rparr>]) \<le> 1"
proof -
  have "edges_ok 2 [\<lparr>source = 0, target = 1, weight = 1\<rparr>]" by (simp add: edges_ok_def)
  from ranks_are_shares [OF this] show ?thesis by simp
qed

text \<open>The entry of a node is set when its turn comes, over what the nodes before it have given: the
  last node keeps the base rank only, however many strong links lead to it.\<close>

lemma give_other: "n \<notin> fst ` set adj \<Longrightarrow> fold (give_rank r deg) adj nx ! n = nx ! n"
proof (induction adj arbitrary: nx)
  case (Cons a adj)
  then show ?case by (cases a) (auto simp: give_rank_def)
qed simp

lemma give_length: "length (fold (give_rank r deg) adj nx) = length nx"
  by (induction adj arbitrary: nx) (auto simp: give_rank_def split: prod.split)

theorem last_node_gets_nothing:
  assumes "edges_ok (Suc n) edges"
  shows "rank_step (Suc n) edges rank ! n = base_rank (Suc n) edges rank"
proof -
  have len: "length (fold (rank_node (Suc n) edges rank) js nx) = length nx" for js nx
    by (induction js arbitrary: nx) (simp_all add: rank_node_def Let_def give_length)
  have "n \<notin> fst ` set (adj_out edges n)" using neighbours_below [OF assms, of n _ n] by (auto simp: adj_out_def)
  then show ?thesis by (simp add: rank_step_def rank_node_def Let_def give_other give_length len)
qed

theorem last_node_gets_nothing_witness:
  "rank_step 2 [\<lparr>source = 0, target = 1, weight = 1\<rparr>] [1 / 2, 1 / 2] ! 1 = 3 / 40"
proof -
  have "edges_ok (Suc 1) [\<lparr>source = 0, target = 1, weight = 1\<rparr>]" by (simp add: edges_ok_def)
  from last_node_gets_nothing [OF this, of "[1 / 2, 1 / 2]"] show ?thesis
    by (simp add: base_rank_def out_degree_def adj_out_def neighbours_def PAGERANK_D_def numeral_2_eq_2)
qed

end
