(* ===== verification/Taste_Themes.thy ===== *)
theory Taste_Themes
  imports Taste_Communities
begin

text \<open>
  From communities to themes (\<open>build_themes\<close>, \<open>resolve_alias\<close> and \<open>compute_taste_themes\<close> in
  \<open>utils/taste_themes.rs\<close>): members under their canonical names, split by centrality into core and
  kink, named and weighed.  The order in which the hash map of the second deduplication is drained is
  the argument \<open>drain\<close>.  Counts of tags are not negative.
\<close>

section \<open>Aliases\<close>

function resolve_loop :: "(ustr, ustr) table \<Rightarrow> ustr set \<Rightarrow> ustr \<Rightarrow> ustr" where
  "resolve_loop aliases seen current =
     (case tbl_get aliases current of
        None \<Rightarrow> current
      | Some next \<Rightarrow>
          if current \<in> seen \<or> next = current then current
          else resolve_loop aliases (insert current seen) next)"
  by pat_completeness auto
termination
proof (relation "measure (\<lambda>(aliases, seen, current). card (fst ` set aliases - seen))", simp, clarsimp)
  fix aliases :: "(ustr, ustr) table" and seen :: "ustr set" and current "next" :: ustr
  assume "tbl_get aliases current = Some next" and new: "current \<notin> seen"
  then have "current \<in> fst ` set aliases - seen" by (metis DiffI domI dom_map_of_conv_image_fst tbl_get_def)
  moreover have "fst ` set aliases - insert current seen = (fst ` set aliases - seen) - {current}" by blast
  moreover have "finite (fst ` set aliases - seen)" by simp
  ultimately show "card (fst ` set aliases - insert current seen) < card (fst ` set aliases - seen)"
    using card_Diff1_less by metis
qed

declare resolve_loop.simps [simp del]

definition resolve_alias :: "ustr \<Rightarrow> (ustr, ustr) table \<Rightarrow> ustr" where
  "resolve_alias name aliases = resolve_loop aliases {} name"

section \<open>Members of a community\<close>

type_synonym member = "nat \<times> ustr \<times> int \<times> f32"

abbreviation mb_name :: "member \<Rightarrow> ustr" where "mb_name m \<equiv> fst (snd m)"
abbreviation mb_count :: "member \<Rightarrow> int" where "mb_count m \<equiv> fst (snd (snd m))"
abbreviation mb_cent :: "member \<Rightarrow> f32" where "mb_cent m \<equiv> snd (snd (snd m))"

record ThemeTag =
  tt_name :: ustr
  tt_count :: int
  tt_centrality :: f32

record TasteTheme =
  th_name :: ustr
  core :: "ThemeTag list"
  kink :: "ThemeTag list"
  importance :: f32
  th_size :: nat

definition MIN_CORE_COUNT :: int where "MIN_CORE_COUNT = 40"

definition count_map :: "TagCount list \<Rightarrow> (ustr \<times> ustr, int) table" where
  "count_map counts = fold (\<lambda>t. tbl_insert (to_ascii_lowercase (tc_name t), tc_group_type t) (tc_count t)) counts []"

definition node_count_map :: "(ustr \<times> ustr, nat) table \<Rightarrow> TagCount list \<Rightarrow> (nat, int) table" where
  "node_count_map idx counts =
     fold (\<lambda>(k, i). tbl_insert i (case tbl_get (count_map counts) k of None \<Rightarrow> 0 | Some c \<Rightarrow> c)) idx []"

definition get_nth :: "'a list \<Rightarrow> nat \<Rightarrow> 'a option" where
  "get_nth xs i = (if i < length xs then Some (xs ! i) else None)"

definition add_strength :: "nat list \<Rightarrow> TagEdge \<Rightarrow> f32 list \<Rightarrow> f32 list" where
  "add_strength communities e ls =
     (if get_nth communities (source e) = get_nth communities (target e) then
        let ls1 = ls[source e := ls ! source e + weight e] in ls1[target e := ls1 ! target e + weight e]
      else ls)"

definition local_strength :: "nat \<Rightarrow> nat list \<Rightarrow> TagEdge list \<Rightarrow> f32 list" where
  "local_strength n communities edges = fold (add_strength communities) edges (replicate n 0)"

definition peak :: "f32 list \<Rightarrow> f32" where
  "peak xs = max (1 / 1000000) (foldl max 0 xs)"

definition effective_centrality :: "nat \<Rightarrow> nat list \<Rightarrow> f32 list \<Rightarrow> TagEdge list \<Rightarrow> f32 list" where
  "effective_centrality n communities centrality edges =
     (let ls = local_strength n communities edges in
      map (\<lambda>i. 7 / 10 * (ls ! i / peak ls) +
        3 / 10 * ((case get_nth centrality i of None \<Rightarrow> 0 | Some c \<Rightarrow> c) / peak centrality)) [0..<n])"

text \<open>One member more: under a name that is there already only the larger count stays.\<close>

definition add_member :: "member \<Rightarrow> member list \<times> (ustr, nat) table \<Rightarrow> member list \<times> (ustr, nat) table" where
  "add_member m = (\<lambda>(raw, positions). case tbl_get positions (mb_name m) of
     Some i \<Rightarrow> (if mb_count m > mb_count (raw ! i) then raw[i := m] else raw, positions)
   | None \<Rightarrow> (raw @ [m], tbl_insert (mb_name m) (length raw) positions))"

definition gather :: "member list \<Rightarrow> member list" where
  "gather ms = fst (fold add_member ms ([], []))"

definition sorted_members :: "member list \<Rightarrow> member list" where
  "sorted_members ms = sort_key mb_cent ms"

section \<open>Core and kink\<close>

definition excluded :: "ustr set \<Rightarrow> ustr \<Rightarrow> bool" where
  "excluded generic name \<longleftrightarrow> name \<in> generic \<or> name \<in> set HARDCODED_GENERIC \<or> name \<in> set META_TAGS"

definition p50 :: "member list \<Rightarrow> f32" where
  "p50 ms = mb_cent (ms ! (length ms div 2))"

definition p25 :: "member list \<Rightarrow> f32" where
  "p25 ms = (if length ms \<ge> 4 then mb_cent (ms ! (length ms div 4)) else mb_cent (ms ! 0))"

definition cores_raw :: "ustr set \<Rightarrow> member list \<Rightarrow> member list" where
  "cores_raw generic ms =
     (let cs = filter (\<lambda>m. \<not> excluded generic (mb_name m) \<and> mb_cent m \<ge> p50 ms) ms in
      if cs = [] then (case find (\<lambda>m. \<not> excluded generic (mb_name m)) (rev ms) of None \<Rightarrow> [] | Some m \<Rightarrow> [m]) else cs)"

definition kinks_raw :: "ustr set \<Rightarrow> member list \<Rightarrow> member list" where
  "kinks_raw generic ms =
     filter (\<lambda>m. \<not> excluded generic (mb_name m) \<and> \<not> mb_cent m \<ge> p50 ms \<and> mb_cent m \<le> p25 ms) ms"

text \<open>\<open>max_by_key\<close> returns the last of the greatest elements.\<close>

fun last_max :: "('a \<Rightarrow> 'k :: linorder) \<Rightarrow> 'a \<Rightarrow> 'a list \<Rightarrow> 'a" where
  "last_max f b [] = b"
| "last_max f b (x # xs) = last_max f (if f x < f b then b else x) xs"

definition add_group :: "(ustr, ustr) table \<Rightarrow> member \<Rightarrow> (ustr, member list) table \<Rightarrow> (ustr, member list) table" where
  "add_group aliases m g =
     (let canonical = resolve_alias (mb_name m) aliases in
      tbl_insert canonical ((case tbl_get g canonical of None \<Rightarrow> [] | Some ms \<Rightarrow> ms) @ [m]) g)"

definition dedup ::
  "(member list list \<Rightarrow> member list list) \<Rightarrow> (ustr, ustr) table \<Rightarrow> member list \<Rightarrow> member list" where
  "dedup drain aliases items =
     (if length items \<le> 1 then items
      else sort_key (\<lambda>m. - mb_cent m)
        (map (\<lambda>g. last_max (\<lambda>m. (mb_count m, mb_name m)) (hd g) (tl g)) (drain (map snd (fold (add_group aliases) items [])))))"

section \<open>Themes\<close>

definition log_count :: "(ustr, int) table \<Rightarrow> int \<Rightarrow> member \<Rightarrow> f32" where
  "log_count tag_df n_catalog m =
     (let df = (case tbl_get tag_df (mb_name m) of None \<Rightarrow> n_catalog | Some d \<Rightarrow> d);
          idf = max 0 (ln (real_of_int (max 1 n_catalog + 1) / real_of_int (max 0 df + 1)))
      in ln (real_of_int (mb_count m + 1)) * (1 + idf))"

definition importance_of ::
  "ustr set \<Rightarrow> (ustr, int) table \<Rightarrow> int \<Rightarrow> member list \<Rightarrow> member list \<Rightarrow> member list \<Rightarrow> f32" where
  "importance_of generic tag_df n_catalog ms cores kinks =
     (let sizes = length ms;
          generic_count = length (filter (\<lambda>m. excluded generic (mb_name m)) ms);
          non_gen_ratio = real sizes / real (max 1 (sizes + generic_count));
          logs = map (log_count tag_df n_catalog) (cores @ kinks);
          tfidf = (if logs = [] then 0 else sum_list logs / real (length logs));
          kink_sum = sum_list (map mb_count kinks)
      in real sizes * non_gen_ratio * (tfidf + 1) * sqrt (1 + real_of_int kink_sum / max 1 (real sizes)))"

definition theme_tag :: "member \<Rightarrow> ThemeTag" where
  "theme_tag m = \<lparr>tt_name = mb_name m, tt_count = mb_count m, tt_centrality = mb_cent m\<rparr>"

definition theme_of ::
  "(member list list \<Rightarrow> member list list) \<Rightarrow> ustr set \<Rightarrow> (ustr, ustr) table \<Rightarrow> (ustr, int) table \<Rightarrow> int \<Rightarrow> int \<Rightarrow>
     member list \<Rightarrow> TasteTheme option" where
  "theme_of drain generic aliases tag_df n_catalog n_user_posts ms =
     (if length ms < 2 then None
      else let cores = dedup drain aliases (cores_raw generic ms); kinks = dedup drain aliases (kinks_raw generic ms);
               min_core_count = max MIN_CORE_COUNT (max 20 (n_user_posts div 500));
               max_core_count = (case cores of [] \<Rightarrow> 0 | m # cs \<Rightarrow> foldl max (mb_count m) (map mb_count cs))
           in if max_core_count < min_core_count then None
              else Some \<lparr>th_name = mb_name (last_max mb_count (hd ms) (tl ms)),
                core = map theme_tag cores, kink = map theme_tag kinks,
                importance = importance_of generic tag_df n_catalog ms cores kinks, th_size = length ms\<rparr>)"

definition community_members ::
  "TagNode list \<Rightarrow> (ustr, ustr) table \<Rightarrow> (nat, int) table \<Rightarrow> f32 list \<Rightarrow> nat list \<Rightarrow> member list" where
  "community_members nodes aliases node_counts cent ids =
     sorted_members (gather (map (\<lambda>i.
       (i, resolve_alias (tn_name (nodes ! i)) aliases, (case tbl_get node_counts i of None \<Rightarrow> 0 | Some c \<Rightarrow> c),
        (case get_nth cent i of None \<Rightarrow> 0 | Some c \<Rightarrow> c))) ids))"

definition build_themes ::
  "(member list list \<Rightarrow> member list list) \<Rightarrow> TagNode list \<Rightarrow> nat list \<Rightarrow> f32 list \<Rightarrow> TagCount list \<Rightarrow> (ustr \<times> ustr, nat) table \<Rightarrow>
     (ustr, ustr) table \<Rightarrow> (ustr, ustr list) table \<Rightarrow> (ustr, int) table \<Rightarrow> int \<Rightarrow> int \<Rightarrow> TagEdge list \<Rightarrow> TasteTheme list" where
  "build_themes drain nodes communities centrality counts idx aliases impls tag_df n_catalog n_user_posts edges =
     (if communities = [] then []
      else let comm_nodes = map (\<lambda>c. filter (\<lambda>i. communities ! i = c) [0..<length communities]) [0..<foldl max 0 communities + 1];
               node_counts = node_count_map idx counts;
               cent = effective_centrality (length nodes) communities centrality edges;
               generic = build_generic_set impls
           in sort_key (\<lambda>t. - importance t) (List.map_filter (\<lambda>ids.
                if length ids < 2 then None
                else theme_of drain generic aliases tag_df n_catalog n_user_posts
                  (community_members nodes aliases node_counts cent ids)) comm_nodes))"

definition compute_taste_themes ::
  "(member list list \<Rightarrow> member list list) \<Rightarrow> TagCount list \<Rightarrow> TagRelationGraph \<Rightarrow> int \<Rightarrow> (ustr, int \<times> int \<times> int) table \<Rightarrow> int \<Rightarrow>
     (ustr, ustr list) table \<Rightarrow> (ustr, ustr) table \<Rightarrow> (ustr, int) table \<Rightarrow> nat \<Rightarrow> int \<Rightarrow> TasteTheme list option" where
  "compute_taste_themes drain counts user_graph n_user_posts global_cooc n_catalog impls aliases tag_df k min_cooc =
     (let generic = build_generic_set impls;
          (nodes, idx) = build_non_generic_nodes counts generic (max 5 (min 1000 k)); n = length nodes
      in if n < 5 then Some []
         else let all_edges = build_pmi_edges nodes user_graph n_user_posts global_cooc n_catalog (max 1 min_cooc)
              in map_option (\<lambda>backbone.
                   build_themes drain nodes (louvain_communities n backbone) (page_rank_full n all_edges) counts idx aliases
                     impls tag_df n_catalog n_user_posts all_edges)
                 (build_backbone n all_edges))"

section \<open>Canonical names\<close>

definition alias_step :: "(ustr, ustr) table \<Rightarrow> ustr rel" where
  "alias_step aliases = {(a, b). tbl_get aliases a = Some b \<and> b \<noteq> a}"

lemma resolve_end:
  assumes "\<forall>s \<in> seen. (s, c) \<in> (alias_step al)\<^sup>+"
  shows "resolve_loop al seen c \<notin> Domain (alias_step al) \<or> (resolve_loop al seen c, resolve_loop al seen c) \<in> (alias_step al)\<^sup>+"
  using assms
proof (induction al seen c rule: resolve_loop.induct)
  case (1 al seen c)
  show ?case
  proof (cases "tbl_get al c")
    case None
    then have "resolve_loop al seen c = c" by (subst resolve_loop.simps) simp
    moreover have "c \<notin> Domain (alias_step al)" using None by (simp add: alias_step_def Domain_iff)
    ultimately show ?thesis by simp
  next
    case (Some d)
    show ?thesis
    proof (cases "c \<in> seen \<or> d = c")
      case True
      then have "resolve_loop al seen c = c" using Some by (subst resolve_loop.simps) simp
      moreover have "c \<in> seen \<or> c \<notin> Domain (alias_step al)" using Some True by (simp add: alias_step_def Domain_iff)
      ultimately show ?thesis using 1(2) by auto
    next
      case False
      then have "(c, d) \<in> alias_step al" using Some by (simp add: alias_step_def)
      then have "\<forall>s \<in> insert c seen. (s, d) \<in> (alias_step al)\<^sup>+" using 1(2) by (auto intro: trancl.trancl_into_trancl)
      moreover have "resolve_loop al seen c = resolve_loop al (insert c seen) d"
        using Some False by (subst resolve_loop.simps) simp
      ultimately show ?thesis using 1(1) [OF Some False] by simp
    qed
  qed
qed

lemma alias_power: "(a, b) \<in> alias_step al ^^ k \<Longrightarrow>
   b = ((\<lambda>x. the (tbl_get al x)) ^^ k) a \<and>
   (\<forall>i < k. (((\<lambda>x. the (tbl_get al x)) ^^ i) a, ((\<lambda>x. the (tbl_get al x)) ^^ Suc i) a) \<in> alias_step al)"
proof (induction k arbitrary: b)
  case (Suc k)
  then obtain c where c: "(a, c) \<in> alias_step al ^^ k" "(c, b) \<in> alias_step al" by auto
  then have "b = the (tbl_get al c)" by (simp add: alias_step_def)
  then show ?case using Suc.IH [OF c(1)] c(2) by (auto simp: less_Suc_eq)
qed simp

lemma resolve_walk:
  "(c, d) \<in> alias_step al \<Longrightarrow> c \<notin> seen \<Longrightarrow> resolve_loop al seen c = resolve_loop al (insert c seen) d"
  by (subst resolve_loop.simps) (simp add: alias_step_def)

lemma resolve_cycle:
  assumes "(r, r) \<in> (alias_step al)\<^sup>+"
  shows "resolve_loop al {} r = r"
proof -
  let ?f = "\<lambda>x. the (tbl_get al x)"
  let ?P = "\<lambda>k. 0 < k \<and> (r, r) \<in> alias_step al ^^ k"
  have "\<exists>k. ?P k" using assms by (simp add: trancl_power)
  then have least: "?P (LEAST k. ?P k)" by (rule LeastI_ex)
  define m where "m = (LEAST k. ?P k)"
  have m: "0 < m" "(r, r) \<in> alias_step al ^^ m" "\<And>k. 0 < k \<Longrightarrow> (r, r) \<in> alias_step al ^^ k \<Longrightarrow> m \<le> k"
    using least Least_le [of ?P] unfolding m_def by blast+
  have walk: "r = (?f ^^ m) r" "\<And>i. i < m \<Longrightarrow> ((?f ^^ i) r, (?f ^^ Suc i) r) \<in> alias_step al"
    using alias_power [OF m(2)] by blast+
  have rel: "(r, (?f ^^ i) r) \<in> alias_step al ^^ i" if "i \<le> m" for i
    using that
  proof (induction i)
    case (Suc i)
    then show ?case using walk(2) [of i] by auto
  qed simp
  have new: "(?f ^^ k) r \<notin> (\<lambda>i. (?f ^^ i) r) ` {..<k}" if k: "k < m" for k
  proof
    assume "(?f ^^ k) r \<in> (\<lambda>i. (?f ^^ i) r) ` {..<k}"
    then obtain i where i: "i < k" "(?f ^^ k) r = (?f ^^ i) r" by auto
    have "(?f ^^ (m - k + i)) r = (?f ^^ (m - k)) ((?f ^^ k) r)" unfolding i(2) by (simp add: funpow_add)
    also have "\<dots> = (?f ^^ (m - k + k)) r" by (simp only: funpow_add comp_apply)
    also have "\<dots> = r" using k by (simp add: walk(1) [symmetric])
    finally have "(?f ^^ (m - k + i)) r = r" .
    then have "(r, r) \<in> alias_step al ^^ (m - k + i)" using rel [of "m - k + i"] i(1) k by simp
    then show False using m(3) [of "m - k + i"] i(1) k by simp
  qed
  have "resolve_loop al ((\<lambda>i. (?f ^^ i) r) ` {..<k}) ((?f ^^ k) r) = r" if "k \<le> m" for k
    using that
  proof (induction "m - k" arbitrary: k)
    case 0
    then have "k = m" by simp
    moreover have "r \<in> (\<lambda>i. (?f ^^ i) r) ` {..<m}" using m(1) by (intro image_eqI [of _ _ 0]) auto
    moreover have "resolve_loop al S r = r" if "r \<in> S" for S
      using that by (subst resolve_loop.simps) (simp split: option.split)
    ultimately show ?case by (simp add: walk(1) [symmetric])
  next
    case (Suc d)
    then have k: "k < m" by simp
    have ins: "insert ((?f ^^ k) r) ((\<lambda>i. (?f ^^ i) r) ` {..<k}) = (\<lambda>i. (?f ^^ i) r) ` {..<Suc k}"
      by (simp only: lessThan_Suc image_insert)
    have "d = m - Suc k" "Suc k \<le> m" using Suc.hyps(2) k by linarith+
    then show ?case unfolding resolve_walk [OF walk(2) [OF k] new [OF k]] ins by (rule Suc.hyps(1))
  qed
  from this [of 0] show ?thesis by simp
qed

lemma resolve_again: "resolve_alias (resolve_alias name aliases) aliases = resolve_alias name aliases"
proof -
  let ?r = "resolve_loop aliases {} name"
  consider "?r \<notin> Domain (alias_step aliases)" | "(?r, ?r) \<in> (alias_step aliases)\<^sup>+" using resolve_end [of "{}" name aliases] by auto
  then show ?thesis
  proof cases
    case 1
    then show ?thesis unfolding resolve_alias_def by (subst resolve_loop.simps) (auto simp: alias_step_def split: option.split)
  next
    case 2
    then show ?thesis unfolding resolve_alias_def by (rule resolve_cycle)
  qed
qed

text \<open>Resolving an alias is resolving it once: the name it ends at resolves to itself, on a cycle of
  aliases too.\<close>

theorem resolve_alias_idempotent: "resolve_alias (resolve_alias name aliases) aliases = resolve_alias name aliases"
  by (rule resolve_again)

section \<open>Members\<close>

definition positions_ok :: "member list \<Rightarrow> (ustr, nat) table \<Rightarrow> bool" where
  "positions_ok raw pos \<longleftrightarrow> (\<forall>k i. tbl_get pos k = Some i \<longleftrightarrow> i < length raw \<and> mb_name (raw ! i) = k)"

lemma add_member_ok:
  assumes "positions_ok raw pos"
  shows "case add_member m (raw, pos) of (raw', pos') \<Rightarrow>
    positions_ok raw' pos' \<and> mb_name ` set raw' \<subseteq> insert (mb_name m) (mb_name ` set raw)"
proof (cases "tbl_get pos (mb_name m)")
  case None
  then have new: "\<not> (i < length raw \<and> mb_name (raw ! i) = mb_name m)" for i using assms by (metis option.discI positions_ok_def)
  have "tbl_get (tbl_insert (mb_name m) (length raw) pos) k = Some i \<longleftrightarrow>
      i < length (raw @ [m]) \<and> mb_name ((raw @ [m]) ! i) = k" for k i
    using assms new by (auto simp: positions_ok_def nth_append less_Suc_eq)
  then show ?thesis using None by (auto simp: add_member_def positions_ok_def)
next
  case (Some j)
  then have j: "j < length raw" "mb_name (raw ! j) = mb_name m" using assms by (simp_all add: positions_ok_def)
  define raw' where "raw' = (if mb_count m > mb_count (raw ! j) then raw[j := m] else raw)"
  have "mb_name (raw[j := m] ! i) = mb_name (raw ! i)" if "i < length raw" for i
    using that j by (cases "i = j") simp_all
  then have "positions_ok raw' pos" using assms by (simp add: raw'_def positions_ok_def cong: conj_cong)
  moreover have "mb_name ` set raw' \<subseteq> insert (mb_name m) (mb_name ` set raw)"
    using image_mono [OF set_update_subset_insert [of raw j m], of mb_name] by (auto simp only: raw'_def image_insert split: if_splits)
  moreover have "add_member m (raw, pos) = (raw', pos)" using Some by (simp add: add_member_def raw'_def)
  ultimately show ?thesis by simp
qed

lemma gather_ok: "distinct (map mb_name (gather ms)) \<and> mb_name ` set (gather ms) \<subseteq> mb_name ` set ms"
proof -
  have inv: "case fold add_member ms (raw, pos) of (raw', pos') \<Rightarrow>
      positions_ok raw' pos' \<and> mb_name ` set raw' \<subseteq> mb_name ` set raw \<union> mb_name ` set ms"
    if "positions_ok raw pos" for raw pos
    using that
  proof (induction ms arbitrary: raw pos)
    case (Cons m ms)
    obtain raw1 pos1 where one: "add_member m (raw, pos) = (raw1, pos1)" by fastforce
    then have "positions_ok raw1 pos1" "mb_name ` set raw1 \<subseteq> insert (mb_name m) (mb_name ` set raw)"
      using add_member_ok [OF Cons.prems, of m] by simp_all
    moreover obtain raw2 pos2 where two: "fold add_member ms (raw1, pos1) = (raw2, pos2)" by fastforce
    ultimately show ?case using Cons.IH [of raw1 pos1] one by (simp add: two del: image_insert) blast
  qed simp
  obtain raw pos where run: "fold add_member ms ([], []) = (raw, pos)" by fastforce
  have ok: "positions_ok raw pos" "mb_name ` set raw \<subseteq> mb_name ` set ms"
    using inv [of "[]" "[]"] run by (simp_all add: positions_ok_def)
  have "distinct (map mb_name raw)"
    unfolding distinct_conv_nth using ok(1) by (simp add: positions_ok_def) (metis option.inject)
  then show ?thesis using ok(2) run by (simp add: gather_def)
qed

section \<open>The second deduplication\<close>

definition canonical :: "(ustr, ustr) table \<Rightarrow> member list \<Rightarrow> bool" where
  "canonical aliases ms \<longleftrightarrow> distinct (map mb_name ms) \<and> (\<forall>m \<in> set ms. resolve_alias (mb_name m) aliases = mb_name m)"

lemma update_new: "k \<notin> fst ` set m \<Longrightarrow> AList.update k v m = m @ [(k, v)]"
  by (induction m) auto

text \<open>Members that are canonical form groups of their own: the second deduplication only sorts.\<close>

lemma groups_single:
  "canonical aliases ms \<Longrightarrow> fold (add_group aliases) ms [] = map (\<lambda>m. (mb_name m, [m])) ms"
proof (induction ms rule: rev_induct)
  case (snoc m ms)
  then have IH: "fold (add_group aliases) ms [] = map (\<lambda>m. (mb_name m, [m])) ms"
    and m: "resolve_alias (mb_name m) aliases = mb_name m" "mb_name m \<notin> mb_name ` set ms"
    by (auto simp: canonical_def)
  have none: "map_of (map (\<lambda>m. (mb_name m, [m])) ms) (mb_name m) = None" using m(2) by (simp add: map_of_eq_None_iff image_image)
  have new: "mb_name m \<notin> fst ` set (map (\<lambda>m. (mb_name m, [m])) ms)" using m(2) by (simp add: image_image)
  have "fold (add_group aliases) (ms @ [m]) [] = add_group aliases m (map (\<lambda>m. (mb_name m, [m])) ms)" by (simp add: IH)
  also have "\<dots> = map (\<lambda>m. (mb_name m, [m])) (ms @ [m])"
    by (simp add: add_group_def Let_def m(1) tbl_get_def tbl_insert_def update_new [OF new] none)
  finally show ?case .
qed simp

lemma dedup_sorts:
  assumes "\<And>xs. mset (drain xs) = mset xs" "canonical aliases ms"
  shows "mset (dedup drain aliases ms) = mset ms" "sorted (map (\<lambda>m. - mb_cent m) (dedup drain aliases ms))"
proof -
  let ?pick = "\<lambda>g. last_max (\<lambda>m. (mb_count m, mb_name m)) (hd g) (tl g)"
  have "map snd (map (\<lambda>m. (mb_name m, [m])) ms) = map (\<lambda>m. [m]) ms" by (simp add: comp_def)
  moreover have "mset (map ?pick (drain (map (\<lambda>m. [m]) ms))) = mset ms"
    using assms(1) [of "map (\<lambda>m. [m]) ms"] by (simp only: mset_map) (simp add: multiset.map_comp comp_def)
  ultimately show "mset (dedup drain aliases ms) = mset ms"
    by (simp add: dedup_def groups_single [OF assms(2)] comp_def del: mset_map)
  show "sorted (map (\<lambda>m. - mb_cent m) (dedup drain aliases ms))"
  proof (cases "length ms \<le> 1")
    case True
    then show ?thesis by (cases ms) (auto simp: dedup_def)
  next
    case False
    then show ?thesis by (simp add: dedup_def)
  qed
qed

lemma canonical_subset: "canonical aliases ms \<Longrightarrow> canonical aliases (filter p ms)"
  by (simp add: canonical_def distinct_map_filter)

lemma cores_cases:
  obtains "cores_raw generic ms = filter (\<lambda>m. \<not> excluded generic (mb_name m) \<and> mb_cent m \<ge> p50 ms) ms"
  | m where "cores_raw generic ms = [m]" "m \<in> set ms" "\<not> excluded generic (mb_name m)"
proof (cases "filter (\<lambda>m. \<not> excluded generic (mb_name m) \<and> mb_cent m \<ge> p50 ms) ms = [] \<and>
    find (\<lambda>m. \<not> excluded generic (mb_name m)) (rev ms) \<noteq> None")
  case True
  then obtain m where m: "find (\<lambda>m. \<not> excluded generic (mb_name m)) (rev ms) = Some m" by blast
  then obtain i where "i < length (rev ms)" "m = rev ms ! i" "\<not> excluded generic (mb_name m)" unfolding find_Some_iff by auto
  then have "m \<in> set (rev ms)" "\<not> excluded generic (mb_name m)" using nth_mem by blast+
  then show ?thesis using that(2) [of m] True m by (simp add: cores_raw_def)
next
  case False
  then show ?thesis using that(1) unfolding cores_raw_def Let_def by (cases "find (\<lambda>m. \<not> excluded generic (mb_name m)) (rev ms)") simp_all
qed

lemma canonical_cores: "canonical aliases ms \<Longrightarrow> canonical aliases (cores_raw generic ms)"
  by (rule cores_cases [of generic ms]) (simp_all add: canonical_subset, simp add: canonical_def)

lemma canonical_kinks: "canonical aliases ms \<Longrightarrow> canonical aliases (kinks_raw generic ms)"
  by (simp add: kinks_raw_def canonical_subset)

lemma cores_plain: "m \<in> set (cores_raw generic ms) \<Longrightarrow> \<not> excluded generic (mb_name m)"
  by (rule cores_cases [of generic ms]) auto

lemma cores_kinks_apart:
  assumes "canonical aliases ms"
  shows "mb_name ` set (cores_raw generic ms) \<inter> mb_name ` set (kinks_raw generic ms) = {} \<or> length (cores_raw generic ms) = 1"
proof (rule cores_cases [of generic ms])
  assume c: "cores_raw generic ms = filter (\<lambda>m. \<not> excluded generic (mb_name m) \<and> mb_cent m \<ge> p50 ms) ms"
  have inj: "inj_on mb_name (set ms)" using assms by (simp add: canonical_def distinct_map)
  have "set (cores_raw generic ms) \<inter> set (kinks_raw generic ms) = {}"
    "set (cores_raw generic ms) \<subseteq> set ms" "set (kinks_raw generic ms) \<subseteq> set ms"
    by (auto simp: c kinks_raw_def)
  then show ?thesis using inj_on_image_Int [OF inj, of "set (cores_raw generic ms)" "set (kinks_raw generic ms)"] by simp
qed simp

section \<open>What a theme is\<close>

definition theme_ok :: "ustr set \<Rightarrow> TasteTheme \<Rightarrow> bool" where
  "theme_ok generic th \<longleftrightarrow>
     2 \<le> th_size th \<and> (\<exists>t \<in> set (core th). MIN_CORE_COUNT \<le> tt_count t) \<and>
     distinct (map tt_name (core th)) \<and> distinct (map tt_name (kink th)) \<and>
     (\<forall>t \<in> set (core th) \<union> set (kink th). \<not> excluded generic (tt_name t)) \<and>
     sorted (map (\<lambda>t. - tt_centrality t) (core th)) \<and> sorted (map (\<lambda>t. - tt_centrality t) (kink th)) \<and>
     (tt_name ` set (core th) \<inter> tt_name ` set (kink th) = {} \<or> length (core th) = 1)"

lemma foldl_max_reaches: "k \<le> foldl max (f m) (map f cs) \<Longrightarrow> \<exists>x \<in> set (m # cs). k \<le> (f x :: int)"
proof (induction cs arbitrary: m)
  case (Cons c cs)
  show ?case
  proof (cases "f m \<le> f c")
    case True
    then show ?thesis using Cons.IH [of c] Cons.prems by (simp add: max_def)
  next
    case False
    then show ?thesis using Cons.IH [of m] Cons.prems by (simp add: max_def) blast
  qed
qed simp

lemma canonical_mset: "mset xs = mset ys \<Longrightarrow> canonical aliases ys \<Longrightarrow> canonical aliases xs"
  unfolding canonical_def by (metis mset_eq_imp_distinct_iff mset_eq_setD mset_map)

lemma theme_okI:
  assumes "2 \<le> th_size th" "\<exists>m \<in> set cs. MIN_CORE_COUNT \<le> mb_count m" "canonical aliases cs" "canonical aliases ks"
    "\<forall>m \<in> set cs. \<not> excluded generic (mb_name m)" "\<forall>m \<in> set ks. \<not> excluded generic (mb_name m)"
    "sorted (map (\<lambda>m. - mb_cent m) cs)" "sorted (map (\<lambda>m. - mb_cent m) ks)"
    "mb_name ` set cs \<inter> mb_name ` set ks = {} \<or> length cs = 1" "core th = map theme_tag cs" "kink th = map theme_tag ks"
  shows "theme_ok generic th"
  using assms by (simp add: theme_ok_def theme_tag_def canonical_def comp_def image_image ball_Un)

lemma theme_of_ok:
  assumes drain: "\<And>xs. mset (drain xs) = mset xs" and ms: "canonical aliases ms"
    and th: "theme_of drain generic aliases tag_df nc nu ms = Some th"
  shows "theme_ok generic th"
proof -
  let ?cr = "cores_raw generic ms" let ?kr = "kinks_raw generic ms"
  let ?cs = "dedup drain aliases ?cr" let ?ks = "dedup drain aliases ?kr"
  note cc = canonical_cores [OF ms, of generic] and ck = canonical_kinks [OF ms, of generic]
  note c = dedup_sorts [OF drain cc] and k = dedup_sorts [OF drain ck]
  have sets: "set ?cs = set ?cr" "set ?ks = set ?kr" "length ?cs = length ?cr"
    using c(1) k(1) mset_eq_setD mset_eq_length by blast+
  have th_eq: "core th = map theme_tag ?cs" "kink th = map theme_tag ?ks" "2 \<le> th_size th"
    and big: "MIN_CORE_COUNT \<le> (case ?cs of [] \<Rightarrow> 0 | m # cs \<Rightarrow> foldl max (mb_count m) (map mb_count cs))"
    using th by (auto simp: theme_of_def Let_def split: if_splits)
  have "\<exists>m \<in> set ?cs. MIN_CORE_COUNT \<le> mb_count m"
  proof (cases ?cs)
    case Nil
    then show ?thesis using big by (simp add: MIN_CORE_COUNT_def)
  next
    case (Cons m cs)
    then show ?thesis using big foldl_max_reaches [of MIN_CORE_COUNT mb_count m cs] by simp
  qed
  moreover have "\<forall>m \<in> set ?ks. \<not> excluded generic (mb_name m)" unfolding sets by (simp add: kinks_raw_def)
  moreover have "\<forall>m \<in> set ?cs. \<not> excluded generic (mb_name m)" unfolding sets using cores_plain by blast
  ultimately show ?thesis
    using cores_kinks_apart [OF ms, of generic] th_eq
    by (intro theme_okI [OF _ _ canonical_mset [OF c(1) cc] canonical_mset [OF k(1) ck] _ _ c(2) k(2)]) (simp_all only: sets)
qed

lemma canonical_members: "canonical aliases (community_members nodes aliases counts cent ids)"
proof -
  let ?item = "\<lambda>i. (i, resolve_alias (tn_name (nodes ! i)) aliases, (case tbl_get counts i of None \<Rightarrow> 0 | Some c \<Rightarrow> c),
        (case get_nth cent i of None \<Rightarrow> 0 | Some c \<Rightarrow> c))"
  have g: "distinct (map mb_name (gather (map ?item ids)))" "mb_name ` set (gather (map ?item ids)) \<subseteq> mb_name ` set (map ?item ids)"
    using gather_ok by blast+
  have "distinct (map mb_name (sorted_members (gather (map ?item ids))))" "set (sorted_members (gather (map ?item ids))) = set (gather (map ?item ids))"
    using g(1) by (simp_all add: sorted_members_def distinct_map)
  moreover have "resolve_alias n aliases = n" if n: "n \<in> mb_name ` set (map ?item ids)" for n
  proof -
    obtain i where "n = resolve_alias (tn_name (nodes ! i)) aliases" using n by (simp add: image_image) blast
    then show ?thesis by (simp only: resolve_again)
  qed
  ultimately show ?thesis using g(2) unfolding canonical_def community_members_def by blast
qed



text \<open>The fallback core can be a kink as well: its centrality was below the median.\<close>

lemma fallback_core_is_kink:
  assumes "\<not> excluded generic a" "excluded generic b" "x < y"
  shows "cores_raw generic [(i, a, c, x), (j, b, d, y)] = [(i, a, c, x)] \<and>
    kinks_raw generic [(i, a, c, x), (j, b, d, y)] = [(i, a, c, x)]"
  using assms by (simp add: cores_raw_def kinks_raw_def p50_def p25_def)

end
