(* ===== verification/Explain.thy ===== *)
theory Explain
  imports Scorer_Bounds
begin

text \<open>
  Why a post was recommended (\<open>utils/explain.rs\<close>): the channels in the order of what they contribute
  to the blend, at most three sentences, and the tag that carries the similarity.  Unicode lower case
  is the argument \<open>lower\<close>.
\<close>

section \<open>Signals\<close>

datatype Signal =
  ArtistDiscovery | Taste | Uploader | Novelty | Exclusivity | TagRelation | Recency | Popularity | Quality

definition contributions :: "MixWeights \<Rightarrow> ScoreBreakdown \<Rightarrow> (f32 \<times> Signal) list" where
  "contributions w b =
     [(mw_artist_discovery w * artist_discovery_fit b, ArtistDiscovery), (mw_sim w * tag_similarity b, Taste),
      (mw_uploader w * uploader_fit b, Uploader), (mw_novelty w * novelty_fit b, Novelty),
      (mw_exclusivity w * exclusivity_fit b, Exclusivity), (mw_tag_relation w * tag_relation_fit b, TagRelation),
      (mw_recency w * recency_fit b, Recency), (mw_popularity w * popularity_fit b, Popularity),
      (mw_quality w * quality_fit b, Quality)]"

section \<open>The tag that carries the match\<close>

definition shared_groups :: "Post \<Rightarrow> Priors \<Rightarrow> (ustr list \<times> f32 \<times> bool) list" where
  "shared_groups post p =
     [(character (tags post), group_w_character p, False), (species (tags post), group_w_species p, False),
      (general (tags post), group_w_general p, False), (copyright (tags post), group_w_copyright p, False),
      (lore (tags post), group_w_lore p, False), (artist (tags post), group_w_artist p, True)]"

definition shared_weight ::
  "(ustr \<Rightarrow> ustr) \<Rightarrow> (ustr, f32) table \<Rightarrow> Priors \<Rightarrow> IdfIndex \<Rightarrow> f32 \<Rightarrow> ustr \<Rightarrow> f32 option" where
  "shared_weight lower user_tags p idf group_weight t =
     (let lc = lower (trim t) in
      case tbl_get user_tags lc of
        None \<Rightarrow> None
      | Some c \<Rightarrow>
          let idf_weight = idf_tempered idf lc (df_floor p) (idf_max p) (idf_rsj_smoothing p) (idf_lambda p) (idf_alpha p);
              k = max (1 / 1000) (bm25_k p);
              tf = max 0 c;
              saturated = (tf * (k + 1)) / (tf + k)
          in Some (powf saturated (freq_alpha p) * group_weight * idf_weight))"

definition better_tag :: "(f32 \<times> ustr \<times> bool) option \<Rightarrow> f32 \<times> ustr \<times> bool \<Rightarrow> (f32 \<times> ustr \<times> bool) option" where
  "better_tag best c = (case best of None \<Rightarrow> Some c | Some b \<Rightarrow> if fst c > fst b then Some c else best)"

definition shared_candidates ::
  "(ustr \<Rightarrow> ustr) \<Rightarrow> Post \<Rightarrow> (ustr, f32) table \<Rightarrow> Priors \<Rightarrow> IdfIndex \<Rightarrow> (f32 \<times> ustr \<times> bool) list" where
  "shared_candidates lower post user_tags p idf =
     concat (map (\<lambda>(ts, gw, is_artist).
       if gw \<le> 0 then []
       else List.map_filter (\<lambda>t. map_option (\<lambda>w. (w, t, is_artist)) (shared_weight lower user_tags p idf gw t)) ts)
     (shared_groups post p))"

definition best_shared_tag ::
  "(ustr \<Rightarrow> ustr) \<Rightarrow> Post \<Rightarrow> (ustr, f32) table \<Rightarrow> Priors \<Rightarrow> IdfIndex \<Rightarrow> (ustr \<times> bool) option" where
  "best_shared_tag lower post user_tags p idf =
     map_option snd (foldl better_tag None (shared_candidates lower post user_tags p idf))"

section \<open>Sentences\<close>

definition dash :: ustr where "dash = [32, 8212, 32]"

definition reason_text ::
  "(ustr \<Rightarrow> ustr) \<Rightarrow> Signal \<Rightarrow> Post \<Rightarrow> (ustr, f32) table \<Rightarrow> Priors \<Rightarrow> IdfIndex \<Rightarrow> bool \<Rightarrow> ustr option" where
  "reason_text lower s post user_tags p idf exploration_active =
     (case s of
        ArtistDiscovery \<Rightarrow>
          (case artist (tags post) of [] \<Rightarrow> None
           | a # _ \<Rightarrow> if a = [] then None else Some (lit ''New artist near your tastes: '' @ a))
      | Taste \<Rightarrow> map_option (\<lambda>(t, is_artist).
          if is_artist then lit ''From '' @ t @ dash @ lit ''an artist you favourite''
          else lit ''Matches your '' @ [8220] @ t @ [8221] @ lit '' taste'') (best_shared_tag lower post user_tags p idf)
      | Uploader \<Rightarrow>
          (case uploader_name post of None \<Rightarrow> None
           | Some name \<Rightarrow> if name = [] then None else Some (lit ''From '' @ name @ dash @ lit ''an uploader you tend to favourite''))
      | Novelty \<Rightarrow> Some (if exploration_active then lit ''Exploration pick'' @ dash @ lit ''stepping outside your usual picks''
          else lit ''Tags you have not saved before'')
      | Exclusivity \<Rightarrow> Some (lit ''Unusual tag combination'')
      | TagRelation \<Rightarrow> Some (lit ''Related to tags you like'')
      | Recency \<Rightarrow> Some (lit ''Freshly posted'')
      | Popularity \<Rightarrow> Some (lit ''Popular with others right now'')
      | Quality \<Rightarrow> Some (lit ''High-quality post''))"

fun pick_reasons :: "(Signal \<Rightarrow> ustr option) \<Rightarrow> f32 \<Rightarrow> (f32 \<times> Signal) list \<Rightarrow> ustr list \<Rightarrow> ustr list" where
  "pick_reasons tx fl [] rs = rs"
| "pick_reasons tx fl ((c, s) # ranked) rs =
     (if length rs = 3 \<or> c \<le> fl then rs
      else case tx s of
        None \<Rightarrow> pick_reasons tx fl ranked rs
      | Some t \<Rightarrow> if t \<in> set rs then pick_reasons tx fl ranked rs else pick_reasons tx fl ranked (rs @ [t]))"

definition ranked_contributions :: "MixWeights \<Rightarrow> ScoreBreakdown \<Rightarrow> (f32 \<times> Signal) list" where
  "ranked_contributions w b = sort_key (\<lambda>x. - fst x) (contributions w b)"

definition reason_floor :: "MixWeights \<Rightarrow> ScoreBreakdown \<Rightarrow> f32" where
  "reason_floor w b = max (1 / 100000) (max 0 (fst (ranked_contributions w b ! 0)) * (1 / 100))"

definition explain_one ::
  "(ustr \<Rightarrow> ustr) \<Rightarrow> Post \<Rightarrow> ScoreBreakdown option \<Rightarrow> (ustr, f32) table \<Rightarrow> MixWeights \<Rightarrow> Priors \<Rightarrow> IdfIndex \<Rightarrow> bool \<Rightarrow> ustr list" where
  "explain_one lower post bd user_tags w p idf exploration_active =
     (case bd of None \<Rightarrow> []
      | Some b \<Rightarrow> pick_reasons (\<lambda>s. reason_text lower s post user_tags p idf exploration_active)
          (reason_floor w b) (ranked_contributions w b) [])"

definition explain_scored_posts ::
  "(ustr \<Rightarrow> ustr) \<Rightarrow> ScoredPost list \<Rightarrow> (ustr, f32) table \<Rightarrow> Priors \<Rightarrow> IdfIndex \<Rightarrow> bool \<Rightarrow> ScoredPost list" where
  "explain_scored_posts lower scored user_tags p idf exploration_active =
     (let w = from_priors p in
      map (\<lambda>sp. sp\<lparr>reasons := explain_one lower (sp_post sp) (breakdown sp) user_tags w p idf exploration_active\<rparr>) scored)"

section \<open>What a reason is\<close>

text \<open>The distinct elements of a list in the order of their first occurrence.\<close>

definition first_occurrences :: "'a list \<Rightarrow> 'a list" where
  "first_occurrences xs = rev (remdups (rev xs))"

lemma first_occurrences_simps:
  "first_occurrences [] = []"
  "first_occurrences (xs @ [x]) = (if x \<in> set xs then first_occurrences xs else first_occurrences xs @ [x])"
  by (simp_all add: first_occurrences_def)

lemma set_first_occurrences: "set (first_occurrences xs) = set xs" "distinct (first_occurrences xs)"
  by (simp_all add: first_occurrences_def)

lemma first_occurrences_prefix: "\<exists>zs. first_occurrences (xs @ ys) = first_occurrences xs @ zs"
proof (induction ys rule: rev_induct)
  case (snoc y ys)
  then obtain zs where zs: "first_occurrences (xs @ ys) = first_occurrences xs @ zs" by blast
  have "first_occurrences (xs @ (ys @ [y])) =
      first_occurrences xs @ (if y \<in> set (xs @ ys) then zs else zs @ [y])"
    using first_occurrences_simps(2) [of "xs @ ys" y] by (simp add: zs)
  then show ?case by blast
qed simp

text \<open>What the channels above a floor have to say, strongest first.\<close>

definition sentences_above :: "(Signal \<Rightarrow> ustr option) \<Rightarrow> f32 \<Rightarrow> (f32 \<times> Signal) list \<Rightarrow> ustr list" where
  "sentences_above tx fl ranked = List.map_filter (\<lambda>(c, s). tx s) (filter (\<lambda>(c, s). c > fl) ranked)"

lemma pick_reasons_take:
  assumes "sorted (map (\<lambda>x. - fst x) ranked)" "rs = first_occurrences said" "length rs \<le> 3"
  shows "pick_reasons tx fl ranked rs = take 3 (first_occurrences (said @ sentences_above tx fl ranked))"
  using assms
proof (induction tx fl ranked rs arbitrary: said rule: pick_reasons.induct)
  case (1 tx fl rs)
  then show ?case by (simp add: sentences_above_def List.map_filter_simps)
next
  case (2 tx fl c s ranked rs)
  have tail: "sorted (map (\<lambda>x. - fst x) ranked)" "\<forall>x \<in> set ranked. fst x \<le> c" using 2(4) by auto
  consider (full) "length rs = 3" | (weak) "length rs \<noteq> 3" "c \<le> fl" | (more) "length rs \<noteq> 3" "\<not> c \<le> fl" by blast
  then show ?case
  proof cases
    case full
    obtain zs where "first_occurrences (said @ sentences_above tx fl ((c, s) # ranked)) = rs @ zs"
      using first_occurrences_prefix 2(5) by blast
    then show ?thesis using full by simp
  next
    case weak
    then have "filter (\<lambda>(c, s). c > fl) ((c, s) # ranked) = []" using tail(2) by (fastforce simp: filter_empty_conv)
    then show ?thesis using weak 2(5,6) by (simp add: sentences_above_def List.map_filter_simps)
  next
    case more
    show ?thesis
    proof (cases "tx s")
      case None
      then have "sentences_above tx fl ((c, s) # ranked) = sentences_above tx fl ranked"
        using more by (simp add: sentences_above_def List.map_filter_simps)
      then show ?thesis using more None 2(1) [OF _ None tail(1) 2(5,6)] by simp
    next
      case (Some t)
      then have above: "said @ sentences_above tx fl ((c, s) # ranked) = (said @ [t]) @ sentences_above tx fl ranked"
        using more by (simp add: sentences_above_def List.map_filter_simps)
      have known: "t \<in> set rs \<longleftrightarrow> t \<in> set said" using 2(5) by (simp add: set_first_occurrences)
      show ?thesis
      proof (cases "t \<in> set rs")
        case True
        then have "rs = first_occurrences (said @ [t])" using 2(5) known by (simp add: first_occurrences_simps)
        from 2(2) [OF _ Some True tail(1) this 2(6)] show ?thesis using more Some True unfolding above by simp
      next
        case False
        then have "rs @ [t] = first_occurrences (said @ [t])" using 2(5) known by (simp add: first_occurrences_simps)
        moreover have "length (rs @ [t]) \<le> 3" using 2(6) more by simp
        ultimately show ?thesis using 2(3) [OF _ Some False tail(1)] more Some False unfolding above by simp
      qed
    qed
  qed
qed

text \<open>A post is explained by the first three distinct sentences of the channels that contribute more
  than a hundredth of the strongest one, in the order of their contribution.\<close>

theorem explain_names_strongest:
  "explain_one lower post (Some b) user_tags w p idf ex =
     take 3 (first_occurrences (sentences_above (\<lambda>s. reason_text lower s post user_tags p idf ex)
       (reason_floor w b) (ranked_contributions w b)))"
proof -
  have "sorted (map (\<lambda>x. - fst x) (ranked_contributions w b))" by (simp add: ranked_contributions_def)
  from pick_reasons_take [OF this, of "[]" "[]"] show ?thesis by (simp add: explain_one_def first_occurrences_simps)
qed

text \<open>The tag a post is said to match carries the most weight of the shared ones.\<close>

lemma better_tag_fold:
  "(foldl better_tag None cs = None \<longrightarrow> cs = []) \<and>
   (\<forall>b. foldl better_tag None cs = Some b \<longrightarrow> b \<in> set cs \<and> (\<forall>c \<in> set cs. fst c \<le> fst b))"
proof (induction cs rule: rev_induct)
  case (snoc c cs)
  show ?case
  proof (cases "foldl better_tag None cs")
    case None
    then have "cs = []" using snoc by blast
    then show ?thesis by (simp add: better_tag_def)
  next
    case (Some b)
    then have b: "b \<in> set cs" "\<And>x. x \<in> set cs \<Longrightarrow> fst x \<le> fst b" using snoc by blast+
    have step: "foldl better_tag None (cs @ [c]) = (if fst c > fst b then Some c else Some b)"
      by (simp add: Some better_tag_def)
    show ?thesis
    proof (cases "fst c > fst b")
      case True
      then have "\<forall>x \<in> set (cs @ [c]). fst x \<le> fst c" using b(2) by fastforce
      then show ?thesis using True unfolding step by (simp del: split_paired_All split_paired_Ex)
    next
      case False
      then have "\<forall>x \<in> set (cs @ [c]). fst x \<le> fst b" using b(2) by fastforce
      then show ?thesis using False b(1) unfolding step by (simp del: split_paired_All split_paired_Ex)
    qed
  qed
qed simp

theorem best_shared_tag_heaviest:
  assumes "best_shared_tag lower post user_tags p idf = Some (t, is_artist)"
  shows "\<exists>w. (w, t, is_artist) \<in> set (shared_candidates lower post user_tags p idf) \<and>
     (\<forall>c \<in> set (shared_candidates lower post user_tags p idf). fst c \<le> w)"
proof -
  let ?cs = "shared_candidates lower post user_tags p idf"
  obtain b where b: "foldl better_tag None ?cs = Some b" "snd b = (t, is_artist)"
    using assms by (auto simp: best_shared_tag_def)
  then have "b \<in> set ?cs" "\<forall>c \<in> set ?cs. fst c \<le> fst b" using better_tag_fold [of ?cs] by blast+
  then show ?thesis using b(2) by (metis prod.collapse)
qed

end
