(* ===== verification/Calibrate_Metrics.thy ===== *)
theory Calibrate_Metrics
  imports Scorer_Bounds Diversify_Quota
begin

text \<open>
  How the calibration judges a ranking (\<open>bin/calibrate/metrics.rs\<close>): NDCG, recall and reciprocal
  rank of one account, their means, standard errors and bootstrap intervals, and a description of the
  head of the list.  A ranking is a list of post ids with scores and a mark for the held-out
  favourites.  The accounts are scored in parallel; their results are collected in order.
\<close>

section \<open>Metrics of one ranking\<close>

type_synonym ranking = "(int \<times> f32 \<times> bool) list"

abbreviation is_pos :: "int \<times> f32 \<times> bool \<Rightarrow> bool" where "is_pos e \<equiv> snd (snd e)"

definition gain :: "nat \<Rightarrow> f64" where
  "gain i = 1 / log 2 (real i + 2)"

fun dcg_from :: "nat \<Rightarrow> ranking \<Rightarrow> f64" where
  "dcg_from i [] = 0"
| "dcg_from i (e # es) = (if is_pos e then gain i else 0) + dcg_from (i + 1) es"

definition n_positives :: "ranking \<Rightarrow> nat" where
  "n_positives ranked = length (filter is_pos ranked)"

definition ndcg_at_k :: "ranking \<Rightarrow> nat \<Rightarrow> f64" where
  "ndcg_at_k ranked k =
     (let dcg = dcg_from 0 (take k ranked); n_pos = min (n_positives ranked) k; idcg = sum_list (map gain [0..<n_pos])
      in if idcg \<le> 0 then 0 else dcg / idcg)"

definition recall_at_k :: "ranking \<Rightarrow> nat \<Rightarrow> nat \<Rightarrow> f64" where
  "recall_at_k ranked k total_positives =
     (if total_positives = 0 then 0 else real (n_positives (take k ranked)) / real total_positives)"

fun mrr_from :: "nat \<Rightarrow> ranking \<Rightarrow> f64" where
  "mrr_from i [] = 0"
| "mrr_from i (e # es) = (if is_pos e then 1 / (real i + 1) else mrr_from (i + 1) es)"

definition mrr :: "ranking \<Rightarrow> f64" where
  "mrr ranked = mrr_from 0 ranked"

section \<open>Means and errors\<close>

record Metrics =
  mt_ndcg_at_k :: f64
  mt_recall_at_k :: f64
  mt_mrr :: f64
  mt_n_accounts :: nat
  mt_ndcg_per_account :: "f64 list"
  mt_recall_per_account :: "f64 list"
  mt_mrr_per_account :: "f64 list"
  mt_dist_age_days :: f64
  mt_dist_fav_count :: f64
  mt_dist_artists :: f64
  mt_dist_tag_jaccard :: f64

definition metrics_default :: Metrics where
  "metrics_default =
     \<lparr>mt_ndcg_at_k = 0, mt_recall_at_k = 0, mt_mrr = 0, mt_n_accounts = 0, mt_ndcg_per_account = [],
      mt_recall_per_account = [], mt_mrr_per_account = [], mt_dist_age_days = 0, mt_dist_fav_count = 0,
      mt_dist_artists = 0, mt_dist_tag_jaccard = 0\<rparr>"

definition average :: "Metrics \<Rightarrow> Metrics" where
  "average m =
     (if mt_n_accounts m = 0 then m
      else let n = real (mt_n_accounts m) in
        \<lparr>mt_ndcg_at_k = mt_ndcg_at_k m / n, mt_recall_at_k = mt_recall_at_k m / n, mt_mrr = mt_mrr m / n,
         mt_n_accounts = mt_n_accounts m, mt_ndcg_per_account = mt_ndcg_per_account m,
         mt_recall_per_account = mt_recall_per_account m, mt_mrr_per_account = mt_mrr_per_account m,
         mt_dist_age_days = mt_dist_age_days m / n, mt_dist_fav_count = mt_dist_fav_count m / n,
         mt_dist_artists = mt_dist_artists m / n, mt_dist_tag_jaccard = mt_dist_tag_jaccard m / n\<rparr>)"

definition mean_of :: "f64 list \<Rightarrow> f64" where
  "mean_of xs = sum_list xs / real (length xs)"

definition se_of_mean :: "f64 list \<Rightarrow> f64" where
  "se_of_mean xs =
     (let n = length xs in
      if n < 2 then 0
      else let mean = mean_of xs; var = sum_list (map (\<lambda>x. (x - mean)\<^sup>2) xs) / real (n - 1)
           in sqrt (var / real n))"

definition ndcg_se :: "Metrics \<Rightarrow> f64" where
  "ndcg_se m = se_of_mean (mt_ndcg_per_account m)"

definition paired_mean_se :: "f64 list \<Rightarrow> f64 list \<Rightarrow> (f64 \<times> f64) option" where
  "paired_mean_se candidate incumbent =
     (if length candidate \<noteq> length incumbent \<or> length candidate < 2 then None
      else let deltas = map2 (-) candidate incumbent in Some (mean_of deltas, se_of_mean deltas))"

definition T_TABLE :: "(nat \<times> f64) list" where
  "T_TABLE =
     [(1, 63138 / 10000), (2, 29200 / 10000), (3, 23534 / 10000), (4, 21318 / 10000), (5, 20150 / 10000),
      (6, 19432 / 10000), (7, 18946 / 10000), (8, 18595 / 10000), (9, 18331 / 10000), (10, 18125 / 10000),
      (12, 17823 / 10000), (15, 17531 / 10000), (20, 17247 / 10000), (30, 16973 / 10000), (60, 16706 / 10000),
      (120, 16577 / 10000)]"

fun t_search :: "nat \<Rightarrow> nat \<times> f64 \<Rightarrow> (nat \<times> f64) list \<Rightarrow> f64" where
  "t_search dof prev [] = 16449 / 10000"
| "t_search dof prev ((d, t) # rows) =
     (if d = dof then t
      else if d > dof then
        let frac = (real dof - real (fst prev)) / (real d - real (fst prev)) in snd prev + frac * (t - snd prev)
      else t_search dof (d, t) rows)"

definition t_quantile_95 :: "nat \<Rightarrow> f64" where
  "t_quantile_95 dof =
     (let n = max 1 dof in if n > 120 then 16449 / 10000 else t_search n (hd T_TABLE) T_TABLE)"

section \<open>The bootstrap\<close>

definition lcg_step :: "u64 \<Rightarrow> u64" where
  "lcg_step s = s * 6364136223846793005 + 1442695040888963407"

fun resample :: "f64 list \<Rightarrow> nat \<Rightarrow> u64 \<Rightarrow> f64 \<Rightarrow> f64 \<times> u64" where
  "resample xs 0 s acc = (acc, s)"
| "resample xs (Suc k) s acc =
     (let s' = lcg_step s; idx = unat (drop_bit 33 s' mod of_nat (length xs)) in resample xs k s' (acc + xs ! idx))"

fun resample_means :: "f64 list \<Rightarrow> nat \<Rightarrow> u64 \<Rightarrow> f64 list" where
  "resample_means xs 0 s = []"
| "resample_means xs (Suc k) s =
     (let (tot, s') = resample xs (length xs) s 0 in tot / real (length xs) # resample_means xs k s')"

definition bootstrap_ci_95 :: "f64 list \<Rightarrow> nat \<Rightarrow> f64 \<times> f64" where
  "bootstrap_ci_95 xs n_resamples =
     (let n = length xs in
      if n < 2 \<or> n_resamples = 0 then (let mean = (if n > 0 then mean_of xs else 0) in (mean, mean))
      else let means = sort (resample_means xs n_resamples 0x9E3779B97F4A7C15);
               lo_idx = nat \<lfloor>real n_resamples * (25 / 1000)\<rfloor>; hi_idx = nat \<lfloor>real n_resamples * (975 / 1000)\<rfloor>
           in (means ! min lo_idx (n_resamples - 1), means ! min hi_idx (n_resamples - 1)))"

definition ndcg_ci95 :: "Metrics \<Rightarrow> nat \<Rightarrow> f64 \<times> f64" where
  "ndcg_ci95 m n_resamples = bootstrap_ci_95 (mt_ndcg_per_account m) n_resamples"

section \<open>The head of a ranking\<close>

definition median :: "f64 list \<Rightarrow> f64" where
  "median xs =
     (if xs = [] then 0
      else let ys = sort xs; mid = length ys div 2 in if even (length ys) then (ys ! (mid - 1) + ys ! mid) / 2 else ys ! mid)"

definition set_jaccard :: "ustr set \<Rightarrow> ustr set \<Rightarrow> f64" where
  "set_jaccard a b = (let un = real (card (a \<union> b)) in if un > 0 then real (card (a \<inter> b)) / un else 0)"

fun jaccard_pairs :: "ustr set list \<Rightarrow> f64 \<times> nat \<Rightarrow> f64 \<times> nat" where
  "jaccard_pairs [] st = st"
| "jaccard_pairs (a # rest) st = jaccard_pairs rest (fold (\<lambda>b (sum, n). (sum + set_jaccard a b, n + 1)) rest st)"

definition mean_pairwise_jaccard :: "ustr set list \<Rightarrow> f64" where
  "mean_pairwise_jaccard sets =
     (if length sets < 2 then 0
      else let (sum, n) = jaccard_pairs sets (0, 0) in if n = 0 then 0 else sum / real n)"

record Distribution =
  di_age_days :: f64
  di_fav_count :: f64
  di_artists :: f64
  di_tag_jaccard :: f64

definition head_distribution :: "ranking \<Rightarrow> (int, CachedPostFeatures) table \<Rightarrow> nat \<Rightarrow> int \<Rightarrow> Distribution" where
  "head_distribution ranked by_id k now =
     (let front = List.map_filter (\<lambda>e. tbl_get by_id (fst e)) (take k ranked) in
      if front = [] then \<lparr>di_age_days = 0, di_fav_count = 0, di_artists = 0, di_tag_jaccard = 0\<rparr>
      else \<lparr>di_age_days = median (map (\<lambda>f. real_of_int (max 0 (num_seconds (now - cf_created_at f)) div 86400)) front),
            di_fav_count = median (map (\<lambda>f. real_of_int (cf_fav_count f)) front),
            di_artists = real (card (\<Union>f \<in> set front. ct_lc ` set (filter (\<lambda>t. ct_group t = Artist) (cf_tags f)))),
            di_tag_jaccard = mean_pairwise_jaccard (map (\<lambda>f. ct_lc ` set (cf_tags f)) front)\<rparr>)"

section \<open>NDCG\<close>

lemma gain_pos [simp]: "0 < gain i"
  by (simp add: gain_def)

lemma gain_less: "i < j \<Longrightarrow> gain j < gain i"
  by (simp add: gain_def divide_strict_left_mono)

abbreviation gains :: "nat \<Rightarrow> nat \<Rightarrow> f64" where
  "gains i m \<equiv> sum_list (map gain [i..<i + m])"

lemma gains_Suc: "gains i (Suc m) = gain i + gains (Suc i) m"
  by (simp add: upt_conv_Cons del: upt_Suc)

lemma gains_shift: "0 < m \<Longrightarrow> gains (Suc i) m < gains i m"
proof (induction m)
  case (Suc m)
  have "gain (Suc i + m) < gain (i + m)" by (rule gain_less) simp
  then show ?case using Suc by (cases m) auto
qed simp

lemma gains_mono: "m < n \<Longrightarrow> gains i m < gains i n"
proof (induction n)
  case (Suc n)
  have "gains i (Suc n) = gains i n + gain (i + n)" by simp
  then show ?case using Suc gain_pos [of "i + n"] by (cases "m = n") (auto intro: less_trans simp del: gain_pos)
qed simp

lemma dcg_from_le:
  "dcg_from i es \<le> gains i (n_positives es) \<and>
   (dcg_from i es = gains i (n_positives es) \<longleftrightarrow> list_all is_pos (take (n_positives es) es))"
proof (induction es arbitrary: i)
  case (Cons e es)
  show ?case
  proof (cases "is_pos e")
    case True
    then have n: "n_positives (e # es) = Suc (n_positives es)" by (simp add: n_positives_def)
    show ?thesis unfolding n gains_Suc using True Cons [of "Suc i"] by simp
  next
    case False
    then have n: "n_positives (e # es) = n_positives es" by (simp add: n_positives_def)
    show ?thesis
    proof (cases "n_positives es = 0")
      case True
      then show ?thesis using False Cons [of "Suc i"] by (simp add: n)
    next
      case some: False
      then have "gains (Suc i) (n_positives es) < gains i (n_positives es)" by (intro gains_shift) simp
      moreover have "\<not> list_all is_pos (take (n_positives es) (e # es))" using some False by (cases "n_positives es") auto
      ultimately show ?thesis using False Cons [of "Suc i"] unfolding n by simp
    qed
  qed
qed (simp add: n_positives_def)

lemma dcg_from_nonneg: "0 \<le> dcg_from i es"
  by (induction es arbitrary: i) (simp_all add: less_imp_le add_nonneg_nonneg)

lemma n_positives_take: "n_positives (take k es) \<le> min (n_positives es) k"
proof -
  have "n_positives es = n_positives (take k es) + n_positives (drop k es)"
    by (simp add: n_positives_def flip: length_append filter_append)
  moreover have "n_positives (take k es) \<le> length (take k es)" unfolding n_positives_def by (rule length_filter_le)
  ultimately show ?thesis by simp
qed

text \<open>A list that starts with \<open>m\<close> positives has at least \<open>m\<close> of them.\<close>

lemma n_positives_front:
  assumes "list_all is_pos (take m es)" "m \<le> length es"
  shows "m \<le> n_positives es"
proof -
  have "n_positives (take m es) = m" using assms by (simp add: n_positives_def list_all_iff filter_True)
  then show ?thesis using n_positives_take [of m es] by simp
qed

lemma dcg_take_le:
  assumes "n = min (n_positives es) k"
  shows "dcg_from 0 (take k es) \<le> gains 0 n" and
    "dcg_from 0 (take k es) = gains 0 n \<longleftrightarrow> list_all is_pos (take n es)"
proof -
  let ?m = "n_positives (take k es)"
  note dcg = dcg_from_le [of 0 "take k es"]
  have le: "?m \<le> n" using n_positives_take assms by simp
  have "gains 0 ?m \<le> gains 0 n \<and> (gains 0 ?m = gains 0 n \<longrightarrow> ?m = n)"
    using le gains_mono [of ?m n 0] by (cases "?m = n") auto
  note mono = this
  show "dcg_from 0 (take k es) \<le> gains 0 n" using dcg mono by linarith
  have nk: "n \<le> k" "n \<le> length es" using assms by (auto simp: n_positives_def intro: min.coboundedI1)
  have front: "?m = n" if "list_all is_pos (take n es)"
  proof -
    have "n \<le> n_positives (take k es)"
      by (rule n_positives_front) (use that nk in \<open>simp_all add: min_absorb1\<close>)
    then show ?thesis using le by simp
  qed
  show "dcg_from 0 (take k es) = gains 0 n \<longleftrightarrow> list_all is_pos (take n es)"
  proof
    assume eq: "dcg_from 0 (take k es) = gains 0 n"
    then have "gains 0 ?m = gains 0 n" using dcg mono by linarith
    then have "?m = n" using mono by blast
    then show "list_all is_pos (take n es)" using dcg eq nk by (simp add: min_absorb1)
  next
    assume all: "list_all is_pos (take n es)"
    then have "?m = n" by (rule front)
    then show "dcg_from 0 (take k es) = gains 0 n" using dcg all nk by (simp add: min_absorb1)
  qed
qed

text \<open>NDCG lies between 0 and 1.\<close>

theorem ndcg_in_unit: "0 \<le> ndcg_at_k es k \<and> ndcg_at_k es k \<le> 1"
proof -
  let ?n = "min (n_positives es) k"
  have "dcg_from 0 (take k es) \<le> gains 0 ?n" by (rule dcg_take_le(1)) simp
  then show ?thesis using dcg_from_nonneg [of 0 "take k es"] by (auto simp: ndcg_at_k_def Let_def divide_simps)
qed

text \<open>NDCG is 1 exactly for a ranking whose head holds the favourites first.\<close>

theorem ndcg_perfect:
  assumes "0 < n_positives es" "0 < k"
  shows "ndcg_at_k es k = 1 \<longleftrightarrow> list_all is_pos (take (min (n_positives es) k) es)"
proof -
  let ?n = "min (n_positives es) k"
  have "0 < gains 0 ?n" using gains_mono [of 0 ?n 0] assms by simp
  then have "ndcg_at_k es k = 1 \<longleftrightarrow> dcg_from 0 (take k es) = gains 0 ?n" by (auto simp: ndcg_at_k_def Let_def)
  also have "\<dots> \<longleftrightarrow> list_all is_pos (take ?n es)" by (rule dcg_take_le(2)) simp
  finally show ?thesis .
qed

theorem ndcg_perfect_witness:
  "ndcg_at_k [(1, 1, True), (2, 0, False)] 2 = 1 \<longleftrightarrow>
   list_all is_pos (take (min (n_positives [(1, 1, True), (2, 0, False)]) 2) [(1, 1, True), (2, 0, False)])"
  by (rule ndcg_perfect) (simp_all add: n_positives_def)

section \<open>The bootstrap interval\<close>

lemma resample_range:
  assumes "xs \<noteq> []" "\<forall>x \<in> set xs. a \<le> x \<and> x \<le> b" "length xs < 2 ^ 64"
  shows "acc + real k * a \<le> fst (resample xs k s acc) \<and> fst (resample xs k s acc) \<le> acc + real k * b"
proof (induction k arbitrary: s acc)
  case (Suc k)
  let ?s' = "lcg_step s"
  let ?idx = "unat (drop_bit 33 ?s' mod of_nat (length xs))"
  have "unat (of_nat (length xs) :: u64) = length xs" using assms(3) by (simp add: unat_of_nat)
  then have "?idx < length xs" using assms(1) by (simp add: unat_mod)
  then have "a \<le> xs ! ?idx \<and> xs ! ?idx \<le> b" using assms(2) by simp
  moreover have "resample xs (Suc k) s acc = resample xs k ?s' (acc + xs ! ?idx)" by (simp add: Let_def)
  ultimately show ?case using Suc [of "acc + xs ! ?idx" ?s'] by (simp add: algebra_simps)
qed simp

lemma resample_means_range:
  assumes "xs \<noteq> []" "\<forall>x \<in> set xs. a \<le> x \<and> x \<le> b" "length xs < 2 ^ 64" "m \<in> set (resample_means xs k s)"
  shows "a \<le> m \<and> m \<le> b"
  using assms(4)
proof (induction k arbitrary: s)
  case (Suc k)
  obtain tot s' where r: "resample xs (length xs) s 0 = (tot, s')" by fastforce
  have "real (length xs) * a \<le> tot \<and> tot \<le> real (length xs) * b"
    using resample_range [OF assms(1-3), of 0 "length xs" s] r by simp
  then have "a \<le> tot / real (length xs) \<and> tot / real (length xs) \<le> b"
    using assms(1) by (simp add: field_simps)
  then show ?case using Suc r by auto
qed simp

lemma length_resample_means [simp]: "length (resample_means xs k s) = k"
  by (induction k arbitrary: s) (simp_all split: prod.split)

lemma mean_of_range:
  assumes "xs \<noteq> []" "\<forall>x \<in> set xs. a \<le> x \<and> x \<le> b"
  shows "a \<le> mean_of xs \<and> mean_of xs \<le> b"
proof -
  have "real (length xs) * a \<le> sum_list xs \<and> sum_list xs \<le> real (length xs) * b"
    using assms(2) by (induction xs) (auto simp: algebra_simps)
  then show ?thesis using assms(1) by (simp add: mean_of_def field_simps)
qed

text \<open>The bootstrap interval of a mean is ordered and stays within the range of the values, whatever the
  number of resamples.\<close>

theorem bootstrap_within:
  assumes "xs \<noteq> []" "\<forall>x \<in> set xs. a \<le> x \<and> x \<le> b" "length xs < 2 ^ 64"
  shows "a \<le> fst (bootstrap_ci_95 xs n) \<and> fst (bootstrap_ci_95 xs n) \<le> snd (bootstrap_ci_95 xs n) \<and>
     snd (bootstrap_ci_95 xs n) \<le> b"
proof (cases "length xs < 2 \<or> n = 0")
  case True
  then show ?thesis using mean_of_range [OF assms(1,2)] assms(1) by (simp add: bootstrap_ci_95_def Let_def)
next
  case False
  let ?means = "sort (resample_means xs n 0x9E3779B97F4A7C15)"
  define lo where "lo = min (nat \<lfloor>real n * (25 / 1000)\<rfloor>) (n - 1)"
  define hi where "hi = min (nat \<lfloor>real n * (975 / 1000)\<rfloor>) (n - 1)"
  have "nat \<lfloor>real n * (25 / 1000)\<rfloor> \<le> nat \<lfloor>real n * (975 / 1000)\<rfloor>" by (intro nat_mono floor_mono mult_left_mono) simp_all
  then have idx: "lo \<le> hi" "hi < length ?means" using False unfolding lo_def hi_def by auto
  have ci: "bootstrap_ci_95 xs n = (?means ! lo, ?means ! hi)"
    using False by (simp add: bootstrap_ci_95_def Let_def lo_def hi_def)
  have mem: "?means ! i \<in> set (resample_means xs n 0x9E3779B97F4A7C15)" if i: "i < length ?means" for i
    using nth_mem [OF i] by simp
  note range = resample_means_range [OF assms mem]
  have "?means ! lo \<le> ?means ! hi" using idx by (intro sorted_nth_mono) simp_all
  then show ?thesis unfolding ci using range [of lo] range [of hi] idx by auto
qed

theorem bootstrap_within_witness:
  "1 \<le> fst (bootstrap_ci_95 [1, 2] 2) \<and> fst (bootstrap_ci_95 [1, 2] 2) \<le> snd (bootstrap_ci_95 [1, 2] 2) \<and>
   snd (bootstrap_ci_95 [1, 2] 2) \<le> 2"
  by (rule bootstrap_within) simp_all

section \<open>The quantile\<close>

lemma interpolate_between:
  fixes x y u :: f64
  assumes "y \<le> x" "0 \<le> u" "u \<le> 1"
  shows "y \<le> x + u * (y - x)" "x + u * (y - x) \<le> x"
proof -
  have "0 \<le> (1 - u) * (x - y)" using assms by simp
  then show "y \<le> x + u * (y - x)" by (simp add: algebra_simps)
  have "0 \<le> u * (x - y)" using assms by simp
  then show "x + u * (y - x) \<le> x" by (simp add: algebra_simps)
qed

text \<open>A table as \<open>t_search\<close> reads it: growing degrees of freedom, falling quantiles.\<close>

fun falling_table :: "nat \<times> f64 \<Rightarrow> (nat \<times> f64) list \<Rightarrow> bool" where
  "falling_table prev [] \<longleftrightarrow> 16449 / 10000 \<le> snd prev"
| "falling_table prev ((d, t) # rows) \<longleftrightarrow> fst prev < d \<and> t \<le> snd prev \<and> falling_table (d, t) rows"

lemma t_search_range:
  assumes "falling_table prev rows" "fst prev < n"
  shows "16449 / 10000 \<le> t_search n prev rows \<and> t_search n prev rows \<le> snd prev"
  using assms
proof (induction n prev rows rule: t_search.induct)
  case (2 dof prev d t rows)
  have t: "16449 / 10000 \<le> t"
  proof -
    have "falling_table (d, t) rows" using 2(2) by simp
    then show ?thesis by (induction "(d, t)" rows arbitrary: d t rule: falling_table.induct) (auto intro: order.trans)
  qed
  let ?u = "(real dof - real (fst prev)) / (real d - real (fst prev))"
  consider "d = dof" | "d > dof" | "d < dof" by linarith
  then show ?case
  proof cases
    case 2
    then have "0 \<le> ?u" "?u \<le> 1" using \<open>fst prev < dof\<close> by (simp_all add: divide_simps)
    moreover have "t \<le> snd prev" using \<open>falling_table prev ((d, t) # rows)\<close> by simp
    ultimately have "t \<le> snd prev + ?u * (t - snd prev)" "snd prev + ?u * (t - snd prev) \<le> snd prev"
      using interpolate_between [of t "snd prev" ?u] by blast+
    moreover have "t_search dof prev ((d, t) # rows) = snd prev + ?u * (t - snd prev)" using 2 by (simp add: Let_def)
    ultimately show ?thesis using t by linarith
  next
    case 3
    then show ?thesis using "2.IH" \<open>falling_table prev ((d, t) # rows)\<close> by fastforce
  qed (use 2(2) t in auto)
qed simp

lemma t_search_antitone:
  assumes "falling_table prev rows" "fst prev < m" "m \<le> n"
  shows "t_search n prev rows \<le> t_search m prev rows"
  using assms
proof (induction m prev rows rule: t_search.induct)
  case (2 m prev d t rows)
  let ?u = "\<lambda>x. (real x - real (fst prev)) / (real d - real (fst prev))"
  have tab: "fst prev < d" "t \<le> snd prev" "falling_table (d, t) rows" using 2(2) by simp_all
  have beyond: "t_search n prev ((d, t) # rows) \<le> t" if "d \<le> n"
    using t_search_range [OF tab(3), of n] that by (cases "d = n") simp_all
  consider "m = d" | "m < d" "n < d" | "m < d" "d \<le> n" | "d < m" by linarith
  then show ?case
  proof cases
    case 1
    then show ?thesis using beyond 2(4) by simp
  next
    case a: 2
    have "?u m \<le> ?u n" using 2(4) tab(1) by (simp add: divide_right_mono)
    then have "?u n * (t - snd prev) \<le> ?u m * (t - snd prev)" using tab(2) by (intro mult_right_mono_neg) simp_all
    moreover have "t_search x prev ((d, t) # rows) = snd prev + ?u x * (t - snd prev)" if "x < d" for x
      using that by (simp add: Let_def)
    ultimately show ?thesis using a by simp
  next
    case b: 3
    have "0 \<le> ?u m" "?u m \<le> 1" using b 2(3) by (simp_all add: divide_simps)
    then have "t \<le> snd prev + ?u m * (t - snd prev)" using interpolate_between(1) [OF tab(2)] by blast
    then have "t \<le> t_search m prev ((d, t) # rows)" using b by (simp add: Let_def)
    then show ?thesis using beyond [OF b(2)] by simp
  next
    case c: 4
    then show ?thesis using "2.IH" tab(3) 2(4) by simp
  qed
qed simp

lemma falling_T_TABLE: "falling_table (0, 63138 / 10000) T_TABLE"
  by (simp add: T_TABLE_def)

lemma t_search_first: "0 < n \<Longrightarrow> t_search n (hd T_TABLE) T_TABLE = t_search n (0, 63138 / 10000) T_TABLE"
  by (simp add: T_TABLE_def)

lemma t_quantile_search: "t_quantile_95 n = t_search (max 1 n) (0, 63138 / 10000) T_TABLE"
proof (cases "max 1 n > 120")
  case True
  then have n: "max 1 n = n" "120 < n" by auto
  have "t_search n (0, 63138 / 10000) T_TABLE = 16449 / 10000" using n(2) by (simp add: T_TABLE_def)
  then show ?thesis using n by (simp add: t_quantile_95_def Let_def)
next
  case False
  then show ?thesis using t_search_first [of "max 1 n"] by (simp add: t_quantile_95_def Let_def)
qed

text \<open>The acceptance threshold falls as accounts are added and never below the normal quantile.\<close>

theorem t_quantile_antitone:
  assumes "m \<le> n"
  shows "t_quantile_95 n \<le> t_quantile_95 m \<and> 16449 / 10000 \<le> t_quantile_95 n"
proof
  have "max 1 m \<le> max 1 n" using assms by (rule max.mono [OF order.refl])
  then show "t_quantile_95 n \<le> t_quantile_95 m"
    unfolding t_quantile_search by (intro t_search_antitone falling_T_TABLE) auto
  show "16449 / 10000 \<le> t_quantile_95 n"
    unfolding t_quantile_search using t_search_range [OF falling_T_TABLE, of "max 1 n"] by simp
qed

theorem t_quantile_antitone_witness:
  "t_quantile_95 50 \<le> t_quantile_95 15 \<and> 16449 / 10000 \<le> t_quantile_95 50"
  by (rule t_quantile_antitone) simp

end
