(* ===== verification/Calibrate_Cache.thy ===== *)
theory Calibrate_Cache
  imports Calibrate_Metrics Scorer_Profile
begin

text \<open>
  Scoring a whole dataset (\<open>bin/calibrate/dataset.rs\<close> for its types, \<open>score_with_opts\<close> in
  \<open>bin/calibrate/metrics.rs\<close>) and the cached version the grid uses
  (\<open>bin/calibrate/cache.rs\<close>): a probe recomputes the channels of its mask and reads the others from
  the cache of the previous probe.  The accounts are scored in parallel and collected in order.
\<close>

unbundle bit_operations_syntax

section \<open>The dataset\<close>

record AccountFixture =
  fx_profile :: AccountPreferenceProfile
  fx_tags :: "TagCount list"
  fx_test_features :: "CachedPostFeatures list"
  fx_neg_features :: "CachedPostFeatures list"
  fx_diversity_features :: "DiversityFeatures list"
  fx_user_relation :: TagRelationGraph
  fx_test_count :: nat

record EvalDataset =
  ds_idf :: IdfIndex
  ds_global_relation :: TagRelationGraph
  ds_accounts :: "AccountFixture list"

definition by_score :: "ranking \<Rightarrow> ranking" where
  "by_score es = sort_key (\<lambda>e. - fst (snd e)) es"

text \<open>The candidates of one account in the order of their score or of the diversifier, favourites
  marked; the candidates come with the favourites first.\<close>

definition ranked_candidates ::
  "AccountFixture \<Rightarrow> EvalDataset \<Rightarrow> Priors \<Rightarrow> nat \<Rightarrow> bool \<Rightarrow> TagRelationGraph option \<Rightarrow> (f32 \<times> int) list \<Rightarrow> ranking" where
  "ranked_candidates fx ds p head_limit diversify user_graph entries =
     (let n_test = length (fx_test_features fx);
          candidate = (\<lambda>i. (snd (entries ! i), fst (entries ! i), i < n_test))
      in if diversify then
           map candidate (diversify_indices entries (fx_diversity_features fx) (ds_global_relation ds) user_graph p head_limit)
         else by_score (map candidate [0..<length entries]))"

definition diversify_head_limit :: "nat \<Rightarrow> nat \<Rightarrow> nat" where
  "diversify_head_limit top_k_ndcg top_k_recall = max 50 (max top_k_ndcg top_k_recall * 2)"

section \<open>Scoring without a cache\<close>

definition features_by_id :: "CachedPostFeatures list \<Rightarrow> (int, CachedPostFeatures) table" where
  "features_by_id fs = fold (\<lambda>f m. tbl_insert (cf_id f) f m) fs []"

definition eval_account ::
  "(f32 \<Rightarrow> u32) \<Rightarrow> EvalDataset \<Rightarrow> Priors \<Rightarrow> nat \<Rightarrow> nat \<Rightarrow> bool \<Rightarrow> AccountFixture \<Rightarrow> (f64 \<times> f64 \<times> f64) \<times> Distribution" where
  "eval_account to_bits ds p top_k_ndcg top_k_recall diversify fx =
     (let ctx = context_new to_bits (fx_tags fx) p (ds_idf ds) (fx_profile fx) (ds_global_relation ds) (fx_user_relation fx);
          candidates = fx_test_features fx @ fx_neg_features fx;
          entries = map (\<lambda>f. (fst (score_cached ctx f), cf_id f)) candidates;
          scored = ranked_candidates fx ds p (diversify_head_limit top_k_ndcg top_k_recall) diversify None entries
      in ((ndcg_at_k scored top_k_ndcg, recall_at_k scored top_k_recall (fx_test_count fx), mrr scored),
          head_distribution scored (features_by_id candidates) top_k_ndcg (priors_now p)))"

definition add_metrics :: "f64 \<times> f64 \<times> f64 \<Rightarrow> Metrics \<Rightarrow> Metrics" where
  "add_metrics = (\<lambda>(n, r, m) t.
     t\<lparr>mt_ndcg_at_k := mt_ndcg_at_k t + n, mt_recall_at_k := mt_recall_at_k t + r, mt_mrr := mt_mrr t + m,
       mt_n_accounts := mt_n_accounts t + 1, mt_ndcg_per_account := mt_ndcg_per_account t @ [n],
       mt_recall_per_account := mt_recall_per_account t @ [r], mt_mrr_per_account := mt_mrr_per_account t @ [m]\<rparr>)"

definition add_distribution :: "Distribution \<Rightarrow> Metrics \<Rightarrow> Metrics" where
  "add_distribution d t =
     t\<lparr>mt_dist_age_days := mt_dist_age_days t + di_age_days d, mt_dist_fav_count := mt_dist_fav_count t + di_fav_count d,
       mt_dist_artists := mt_dist_artists t + di_artists d, mt_dist_tag_jaccard := mt_dist_tag_jaccard t + di_tag_jaccard d\<rparr>"

definition score_with_opts :: "(f32 \<Rightarrow> u32) \<Rightarrow> EvalDataset \<Rightarrow> Priors \<Rightarrow> int \<Rightarrow> nat \<Rightarrow> nat \<Rightarrow> bool \<Rightarrow> Metrics" where
  "score_with_opts to_bits ds priors now top_k_ndcg top_k_recall diversify =
     (let p = priors\<lparr>priors_now := now\<rparr> in
      fold (\<lambda>(nrm, d) t. add_distribution d (add_metrics nrm t))
        (map (eval_account to_bits ds p top_k_ndcg top_k_recall diversify) (ds_accounts ds)) metrics_default)"

section \<open>Channel masks\<close>

type_synonym channel_mask = "16 word"

definition M_SIM :: channel_mask where "M_SIM = push_bit 0 1"
definition M_QUALITY :: channel_mask where "M_QUALITY = push_bit 1 1"
definition M_RECENCY :: channel_mask where "M_RECENCY = push_bit 2 1"
definition M_RATING :: channel_mask where "M_RATING = push_bit 3 1"
definition M_MEDIA :: channel_mask where "M_MEDIA = push_bit 4 1"
definition M_POPULARITY :: channel_mask where "M_POPULARITY = push_bit 5 1"
definition M_TAG_RELATION :: channel_mask where "M_TAG_RELATION = push_bit 6 1"
definition M_UPLOADER :: channel_mask where "M_UPLOADER = push_bit 7 1"
definition M_EXCLUSIVITY :: channel_mask where "M_EXCLUSIVITY = push_bit 8 1"
definition M_NOVELTY :: channel_mask where "M_NOVELTY = push_bit 9 1"
definition M_ARTIST_DISCOVERY :: channel_mask where "M_ARTIST_DISCOVERY = push_bit 10 1"

definition M_NONE :: channel_mask where "M_NONE = 0"

definition M_ALL :: channel_mask where
  "M_ALL = M_SIM OR M_QUALITY OR M_RECENCY OR M_RATING OR M_MEDIA OR M_POPULARITY OR M_TAG_RELATION OR M_UPLOADER
     OR M_EXCLUSIVITY OR M_NOVELTY OR M_ARTIST_DISCOVERY"

definition M_CONFIDENCE_DERIVED :: channel_mask where
  "M_CONFIDENCE_DERIVED = M_RATING OR M_MEDIA OR M_RECENCY OR M_TAG_RELATION"

definition M_DISCRETE :: channel_mask where "M_DISCRETE = M_RATING OR M_MEDIA"

definition M_BOOST :: channel_mask where "M_BOOST = M_SIM OR M_DISCRETE"

definition M_RATIO_EXP :: channel_mask where "M_RATIO_EXP = M_QUALITY OR M_POPULARITY"

definition M_GROUP_W :: channel_mask where "M_GROUP_W = M_SIM OR M_TAG_RELATION"

lemmas mask_defs = M_SIM_def M_QUALITY_def M_RECENCY_def M_RATING_def M_MEDIA_def M_POPULARITY_def M_TAG_RELATION_def
  M_UPLOADER_def M_EXCLUSIVITY_def M_NOVELTY_def M_ARTIST_DISCOVERY_def M_NONE_def M_ALL_def M_CONFIDENCE_DERIVED_def
  M_DISCRETE_def M_BOOST_def M_RATIO_EXP_def M_GROUP_W_def

definition masked :: "channel_mask \<Rightarrow> channel_mask \<Rightarrow> bool" where
  "masked msk channel \<longleftrightarrow> msk AND channel \<noteq> 0"

section \<open>The cache\<close>

record ChannelScores =
  cs_sim :: f32
  cs_quality :: f32
  cs_recency :: f32
  cs_rating :: f32
  cs_media :: f32
  cs_popularity :: f32
  cs_tag_relation :: f32
  cs_uploader :: f32
  cs_exclusivity :: f32
  cs_novelty :: f32
  cs_artist_discovery :: f32

definition channel_scores_default :: ChannelScores where
  "channel_scores_default =
     \<lparr>cs_sim = 0, cs_quality = 0, cs_recency = 0, cs_rating = 0, cs_media = 0, cs_popularity = 0, cs_tag_relation = 0,
      cs_uploader = 0, cs_exclusivity = 0, cs_novelty = 0, cs_artist_discovery = 0\<rparr>"

definition channel_values :: "ChannelScores \<Rightarrow> f32 list" where
  "channel_values c =
     [cs_sim c, cs_quality c, cs_recency c, cs_rating c, cs_media c, cs_popularity c, cs_tag_relation c, cs_uploader c,
      cs_exclusivity c, cs_novelty c, cs_artist_discovery c]"

record AccountChannelCache =
  ac_channels :: "ChannelScores list"
  ac_n_test :: nat
  ac_context_base :: "ContextBase option"

type_synonym ScoreCache = "AccountChannelCache list"

definition recompute_one_post ::
  "ScoringContext \<Rightarrow> CachedPostFeatures \<Rightarrow> int \<Rightarrow> ChannelScores \<Rightarrow> channel_mask \<Rightarrow> ChannelScores" where
  "recompute_one_post ctx features now prev msk =
     \<lparr>cs_sim = (if masked msk M_SIM then similarity_cached ctx features else cs_sim prev),
      cs_quality = (if masked msk M_QUALITY then quality_cached ctx features else cs_quality prev),
      cs_recency = (if masked msk M_RECENCY
         then recency_channel ctx (real_of_int (num_seconds (now - cf_created_at features)) / 86400) else cs_recency prev),
      cs_rating = (if masked msk M_RATING then rating_cached ctx features else cs_rating prev),
      cs_media = (if masked msk M_MEDIA then media_cached ctx features else cs_media prev),
      cs_popularity = (if masked msk M_POPULARITY then popularity_cached ctx features else cs_popularity prev),
      cs_tag_relation = (if masked msk M_TAG_RELATION then relation_cached ctx features else cs_tag_relation prev),
      cs_uploader = (if masked msk M_UPLOADER then uploader_cached ctx features else cs_uploader prev),
      cs_exclusivity = (if masked msk M_EXCLUSIVITY then exclusivity_cached ctx features else cs_exclusivity prev),
      cs_novelty = (if masked msk M_NOVELTY then novelty_cached ctx features else cs_novelty prev),
      cs_artist_discovery = (if masked msk M_ARTIST_DISCOVERY then discovery_cached ctx features else cs_artist_discovery prev)\<rparr>"

definition blend_channel :: "ScoringContext \<Rightarrow> ChannelScores \<Rightarrow> f32" where
  "blend_channel ctx ch =
     final_blend ctx \<lparr>tag_similarity = cs_sim ch, quality_fit = cs_quality ch, recency_fit = cs_recency ch,
       rating_fit = cs_rating ch, media_fit = cs_media ch, popularity_fit = cs_popularity ch,
       tag_relation_fit = cs_tag_relation ch, uploader_fit = cs_uploader ch, exclusivity_fit = cs_exclusivity ch,
       novelty_fit = cs_novelty ch, artist_discovery_fit = cs_artist_discovery ch\<rparr>"

section \<open>Scoring with the cache\<close>

definition reusable_base :: "u64 \<Rightarrow> AccountChannelCache option \<Rightarrow> ContextBase option" where
  "reusable_base fp prev_acc =
     (case prev_acc of None \<Rightarrow> None
      | Some pa \<Rightarrow> (case ac_context_base pa of None \<Rightarrow> None | Some b \<Rightarrow> if cb_fingerprint b = fp then Some b else None))"

text \<open>The metrics of an account from its channels.\<close>

definition account_metrics ::
  "EvalDataset \<Rightarrow> Priors \<Rightarrow> nat \<Rightarrow> nat \<Rightarrow> bool \<Rightarrow> AccountFixture \<Rightarrow> ScoringContext \<Rightarrow> ChannelScores list \<Rightarrow> f64 \<times> f64 \<times> f64" where
  "account_metrics ds p top_k_ndcg top_k_recall diversify fx ctx channels =
     (let head_limit = (if diversify then diversify_head_limit top_k_ndcg top_k_recall else 0);
          entries = map2 (\<lambda>ch f. (blend_channel ctx ch, cf_id f)) channels (fx_test_features fx @ fx_neg_features fx);
          scored = ranked_candidates fx ds p head_limit diversify (Some (fx_user_relation fx)) entries
      in (ndcg_at_k scored top_k_ndcg, recall_at_k scored top_k_recall (fx_test_count fx), mrr scored))"

definition score_account ::
  "(f32 \<Rightarrow> u32) \<Rightarrow> EvalDataset \<Rightarrow> Priors \<Rightarrow> nat \<Rightarrow> nat \<Rightarrow> bool \<Rightarrow> channel_mask \<Rightarrow> AccountChannelCache option \<Rightarrow> AccountFixture \<Rightarrow>
     AccountChannelCache \<times> (f64 \<times> f64 \<times> f64)" where
  "score_account to_bits ds p top_k_ndcg top_k_recall diversify msk prev_acc fx =
     (let prev_base = reusable_base (context_fingerprint to_bits p) prev_acc;
          ctx = (case prev_base of
              Some base \<Rightarrow> from_base base p (ds_idf ds) (fx_profile fx) (ds_global_relation ds) (fx_user_relation fx)
            | None \<Rightarrow> context_new to_bits (fx_tags fx) p (ds_idf ds) (fx_profile fx) (ds_global_relation ds) (fx_user_relation fx));
          candidates = fx_test_features fx @ fx_neg_features fx;
          prior = (\<lambda>i. case prev_acc of None \<Rightarrow> channel_scores_default | Some a \<Rightarrow> ac_channels a ! i);
          next_channels = map (\<lambda>i. recompute_one_post ctx (candidates ! i) (priors_now p) (prior i) msk) [0..<length candidates];
          new_base = (case prev_base of
              Some base \<Rightarrow> base | None \<Rightarrow> context_base_new to_bits (fx_tags fx) p (ds_idf ds) (fx_profile fx))
      in (\<lparr>ac_channels = next_channels, ac_n_test = length (fx_test_features fx), ac_context_base = Some new_base\<rparr>,
          account_metrics ds p top_k_ndcg top_k_recall diversify fx ctx next_channels))"

definition score_with_cache ::
  "(f32 \<Rightarrow> u32) \<Rightarrow> EvalDataset \<Rightarrow> Priors \<Rightarrow> int \<Rightarrow> nat \<Rightarrow> nat \<Rightarrow> bool \<Rightarrow> ScoreCache option \<Rightarrow> channel_mask \<Rightarrow> Metrics \<times> ScoreCache" where
  "score_with_cache to_bits ds priors now top_k_ndcg top_k_recall diversify prev msk =
     (let p = priors\<lparr>priors_now := now\<rparr>;
          effective_mask = (case prev of None \<Rightarrow> M_ALL | Some _ \<Rightarrow> msk);
          per_account = map (\<lambda>(i, fx). score_account to_bits ds p top_k_ndcg top_k_recall diversify effective_mask
              (case prev of None \<Rightarrow> None | Some c \<Rightarrow> Some (c ! i)) fx) (enumerate 0 (ds_accounts ds))
      in (fold (\<lambda>(acc, nrm). add_metrics nrm) per_account metrics_default, map fst per_account))"

section \<open>The parameters a channel reads\<close>

text \<open>What enters the tag vector of an account, and what enters its confidence.\<close>

definition vector_fields :: "Priors \<Rightarrow> f32 list" where
  "vector_fields p =
     [idf_lambda p, idf_alpha p, df_floor p, idf_max p, idf_rsj_smoothing p, bm25_k p, freq_alpha p,
      group_w_artist p, group_w_character p, group_w_copyright p, group_w_species p, group_w_general p, group_w_lore p,
      coldstart_smoothing_boost p]"

definition group_fields :: "Priors \<Rightarrow> f32 list" where
  "group_fields p =
     [group_w_artist p, group_w_character p, group_w_copyright p, group_w_species p, group_w_general p, group_w_lore p]"

definition confidence_fields :: "Priors \<Rightarrow> f32 list" where
  "confidence_fields p = [coldstart_n0 p, confidence_steepness p]"

definition reads_quality :: "Priors \<Rightarrow> f32 list" where
  "reads_quality p =
     [quality_a p, quality_b p, quality_log_bias p, quality_w_absolute p, quality_w_relative_score p,
      quality_w_relative_comments p, quality_c p, one_sided_ratio_exp p]"

definition reads_recency :: "Priors \<Rightarrow> f32 list \<times> f32 option list \<times> bool \<times> f32 list" where
  "reads_recency p =
     ([recency_tau_days p, recency_split_age_days p, recency_split_age_hours p, recency_personal_floor_frac p,
       recency_w_global p, recency_w_personal p], [recency_tau_recent p, recency_tau_hot p], recency_log_personal p,
      confidence_fields p)"

definition reads_discrete :: "Priors \<Rightarrow> f32 list" where
  "reads_discrete p =
     [discrete_smoothing_alpha p, discrete_pref_floor p, coldstart_smoothing_boost p] @ confidence_fields p"

definition reads_popularity :: "Priors \<Rightarrow> f32 list" where
  "reads_popularity p = [one_sided_ratio_exp p, popularity_w_fav p, popularity_w_duration p]"

definition reads_relation :: "Priors \<Rightarrow> f32 list \<times> int list \<times> f32 option \<times> nat \<times> ustr" where
  "reads_relation p =
     (group_fields p @ confidence_fields p @ [tag_relation_w_global p, tag_relation_w_personal p, tag_relation_pmi_scale p,
       tag_relation_cooc_ref p, tag_relation_user_cooc_ref p], [tag_relation_min_cooc p, tag_relation_user_min_cooc p],
      tag_relation_pmi_scale_user p, tag_relation_max_tags p, tag_relation_pair_aggregator p)"

definition reads_uploader :: "Priors \<Rightarrow> f32 list" where
  "reads_uploader p =
     [uploader_n0 p, confidence_steepness p, one_sided_ratio_exp p, uploader_w_avg_score p, uploader_w_avg_fav p]"

definition reads_exclusivity :: "Priors \<Rightarrow> f32 list \<times> int \<times> nat" where
  "reads_exclusivity p =
     (group_fields p @ [df_floor p, idf_max p, idf_rsj_smoothing p, idf_lambda p, idf_alpha p, exclusivity_scale p,
       exclusivity_cross_group_weight p], min_exclusivity_cooc p, exclusivity_max_tags p)"

definition reads_novelty :: "Priors \<Rightarrow> f32 list \<times> bool" where
  "reads_novelty p = (vector_fields p @ [novelty_n0 p], novelty_use_feedback p)"

definition reads_discovery :: "Priors \<Rightarrow> f32 list" where
  "reads_discovery p = vector_fields p @ [artist_discovery_n0 p, artist_discovery_novelty_bonus p]"

definition reads_sim :: "Priors \<Rightarrow> f32 list" where
  "reads_sim p = vector_fields p @ [tag_sim_jaccard_blend p]"

text \<open>A mask covers a change of the parameters when every channel it leaves out reads the same.\<close>

definition mask_covers :: "Priors \<Rightarrow> Priors \<Rightarrow> channel_mask \<Rightarrow> bool" where
  "mask_covers p q msk \<longleftrightarrow>
     (masked msk M_SIM \<or> reads_sim p = reads_sim q) \<and> (masked msk M_QUALITY \<or> reads_quality p = reads_quality q) \<and>
     (masked msk M_RECENCY \<or> reads_recency p = reads_recency q) \<and> (masked msk M_RATING \<or> reads_discrete p = reads_discrete q) \<and>
     (masked msk M_MEDIA \<or> reads_discrete p = reads_discrete q) \<and>
     (masked msk M_POPULARITY \<or> reads_popularity p = reads_popularity q) \<and>
     (masked msk M_TAG_RELATION \<or> reads_relation p = reads_relation q) \<and>
     (masked msk M_UPLOADER \<or> reads_uploader p = reads_uploader q) \<and>
     (masked msk M_EXCLUSIVITY \<or> reads_exclusivity p = reads_exclusivity q) \<and>
     (masked msk M_NOVELTY \<or> reads_novelty p = reads_novelty q) \<and>
     (masked msk M_ARTIST_DISCOVERY \<or> reads_discovery p = reads_discovery q)"

section \<open>A channel depends on what it reads\<close>

lemma vector_fields_eq:
  assumes "vector_fields p = vector_fields q"
  shows "tag_weight idf p = tag_weight idf q" "group_wt p = group_wt q"
    "coldstart_smoothing_boost p = coldstart_smoothing_boost q"
proof -
  show "tag_weight idf p = tag_weight idf q" using assms by (simp add: vector_fields_def fun_eq_iff tag_weight_def)
  have "group_wt p g = group_wt q g" for g using assms by (cases g) (simp_all add: vector_fields_def)
  then show "group_wt p = group_wt q" by blast
  show "coldstart_smoothing_boost p = coldstart_smoothing_boost q" using assms by (simp add: vector_fields_def)
qed

lemma group_fields_eq: "group_fields p = group_fields q \<Longrightarrow> group_wt p = group_wt q"
proof
  fix g assume "group_fields p = group_fields q"
  then show "group_wt p g = group_wt q g" by (cases g) (simp_all add: group_fields_def)
qed

lemma new_base_fields:
  "cb_user (context_base_new to_bits counts p idf profile) =
     fst (fold (add_preferred idf p) (pf_preferred_tags profile)
       (tag_vector counts idf p, sq_norm (tag_vector counts idf p), n_entries (tag_vector counts idf p)))"
  "cb_u_norm (context_base_new to_bits counts p idf profile) =
     sqrt (fst (snd (fold (add_preferred idf p) (pf_preferred_tags profile)
       (tag_vector counts idf p, sq_norm (tag_vector counts idf p), n_entries (tag_vector counts idf p)))))"
  "cb_user_tag_count (context_base_new to_bits counts p idf profile) =
     snd (snd (fold (add_preferred idf p) (pf_preferred_tags profile)
       (tag_vector counts idf p, sq_norm (tag_vector counts idf p), n_entries (tag_vector counts idf p))))"
  "cb_feedback (context_base_new to_bits counts p idf profile) = feedback_map (pf_feedback profile)"
  "cb_rating_total (context_base_new to_bits counts p idf profile) = sum_list (map (\<lambda>r. max 0 (rs_count r)) (pf_rating profile))"
  "cb_media_total (context_base_new to_bits counts p idf profile) = sum_list (map (\<lambda>m. max 0 (ms_count m)) (pf_media profile))"
  "cb_uploader_map (context_base_new to_bits counts p idf profile) =
     fold (\<lambda>u m. tbl_insert (us_uploader_id u) u m) (pf_uploaders profile) []"
  by (simp_all add: context_base_new_def Let_def split: prod.split)

lemma base_vector_eq:
  assumes "vector_fields p = vector_fields q"
  shows "cb_user (context_base_new to_bits counts p idf profile) = cb_user (context_base_new to_bits counts q idf profile)"
    "cb_u_norm (context_base_new to_bits counts p idf profile) = cb_u_norm (context_base_new to_bits counts q idf profile)"
    "cb_user_tag_count (context_base_new to_bits counts p idf profile) =
     cb_user_tag_count (context_base_new to_bits counts q idf profile)"
proof -
  note eq = vector_fields_eq [OF assms]
  have "add_tag_count idf p = add_tag_count idf q" "add_preferred idf p = add_preferred idf q"
    unfolding fun_eq_iff add_tag_count_def add_preferred_def eq by simp_all
  then show "cb_user (context_base_new to_bits counts p idf profile) = cb_user (context_base_new to_bits counts q idf profile)"
    "cb_u_norm (context_base_new to_bits counts p idf profile) = cb_u_norm (context_base_new to_bits counts q idf profile)"
    "cb_user_tag_count (context_base_new to_bits counts p idf profile) =
     cb_user_tag_count (context_base_new to_bits counts q idf profile)"
    unfolding new_base_fields tag_vector_def by simp_all
qed

lemma base_confidence_eq:
  assumes "confidence_fields p = confidence_fields q"
  shows "cb_personal_confidence (context_base_new to_bits counts p idf profile) =
    cb_personal_confidence (context_base_new to_bits counts q idf profile)"
  using assms by (simp add: confidence_fields_def context_base_new_def Let_def split: prod.split)

text \<open>The scoring context of an account under given parameters.\<close>

definition account_context :: "(f32 \<Rightarrow> u32) \<Rightarrow> EvalDataset \<Rightarrow> AccountFixture \<Rightarrow> Priors \<Rightarrow> ScoringContext" where
  "account_context to_bits ds fx p =
     from_base (context_base_new to_bits (fx_tags fx) p (ds_idf ds) (fx_profile fx)) p (ds_idf ds) (fx_profile fx)
       (ds_global_relation ds) (fx_user_relation fx)"

lemma context_new_account:
  "context_new to_bits (fx_tags fx) p (ds_idf ds) (fx_profile fx) (ds_global_relation ds) (fx_user_relation fx) =
   account_context to_bits ds fx p"
  by (simp add: context_new_def new_with_blacklist_def account_context_def from_base_def Let_def)

lemma account_context_simps [simp]:
  "sc_priors (account_context to_bits ds fx p) = p"
  "sc_profile (account_context to_bits ds fx p) = fx_profile fx"
  "sc_idf (account_context to_bits ds fx p) = ds_idf ds"
  "sc_global_relation (account_context to_bits ds fx p) = ds_global_relation ds"
  "sc_user_relation (account_context to_bits ds fx p) = fx_user_relation fx"
  "sc_group_wts (account_context to_bits ds fx p) = group_wt p"
  "sc_pair_aggregator (account_context to_bits ds fx p) = pair_aggregator_of_str (tag_relation_pair_aggregator p)"
  "sc_mix (account_context to_bits ds fx p) = from_priors p"
  "sc_blacklisted_tags (account_context to_bits ds fx p) = {}"
  "sc_feedback (account_context to_bits ds fx p) = feedback_map (pf_feedback (fx_profile fx))"
  "sc_rating_total (account_context to_bits ds fx p) = sum_list (map (\<lambda>r. max 0 (rs_count r)) (pf_rating (fx_profile fx)))"
  "sc_media_total (account_context to_bits ds fx p) = sum_list (map (\<lambda>m. max 0 (ms_count m)) (pf_media (fx_profile fx)))"
  "sc_uploader_map (account_context to_bits ds fx p) =
     fold (\<lambda>u m. tbl_insert (us_uploader_id u) u m) (pf_uploaders (fx_profile fx)) []"
  by (simp_all add: account_context_def from_base_def new_base_fields)

lemma context_vector_eq:
  assumes "vector_fields p = vector_fields q"
  shows "sc_user (account_context to_bits ds fx p) = sc_user (account_context to_bits ds fx q)"
    "sc_u_norm (account_context to_bits ds fx p) = sc_u_norm (account_context to_bits ds fx q)"
    "sc_user_tag_count (account_context to_bits ds fx p) = sc_user_tag_count (account_context to_bits ds fx q)"
  by (simp_all add: account_context_def from_base_def base_vector_eq [OF assms])

lemma account_confidence_eq:
  assumes "confidence_fields p = confidence_fields q"
  shows "sc_personal_confidence (account_context to_bits ds fx p) = sc_personal_confidence (account_context to_bits ds fx q)"
  by (simp add: account_context_def from_base_def base_confidence_eq [OF assms])

end
