(* ===== verification/Calibrate_Probe.thy ===== *)
theory Calibrate_Probe
  imports Calibrate_Cache
begin

text \<open>
  A probe that recomputes only the channels of its mask against a full rebuild
  (\<open>bin/calibrate/cache.rs\<close>): each channel depends on the parameters it reads and nothing else, so the
  cache may stand in for every channel whose parameters the probe left alone.
\<close>

section \<open>Channels\<close>


lemma similarity_tag_eq:
  assumes "vector_fields p = vector_fields q"
  shows "similarity_cached_tag (account_context to_bits ds fx p) = similarity_cached_tag (account_context to_bits ds fx q)"
proof (intro ext)
  fix ct st
  have fields: "idf_lambda p = idf_lambda q" "idf_alpha p = idf_alpha q" "df_floor p = df_floor q" "idf_max p = idf_max q"
    "idf_rsj_smoothing p = idf_rsj_smoothing q" "group_wt p = group_wt q"
    using assms vector_fields_eq [OF assms] by (simp_all add: vector_fields_def)
  have "lambda_of p g = lambda_of q g" if "g \<noteq> Meta" for g using that fields by (simp add: lambda_of_def)
  then show "similarity_cached_tag (account_context to_bits ds fx p) ct st = similarity_cached_tag (account_context to_bits ds fx q) ct st"
    by (cases "ct_group ct = Meta") (simp_all add: similarity_cached_tag_def Let_def fields context_vector_eq [OF assms])
qed

lemma cosine_eq:
  assumes "vector_fields p = vector_fields q"
  shows "cosine (account_context to_bits ds fx p) = cosine (account_context to_bits ds fx q)"
  by (simp add: fun_eq_iff cosine_def context_vector_eq [OF assms])

lemma similarity_reads:
  assumes "reads_sim p = reads_sim q"
  shows "similarity_cached (account_context to_bits ds fx p) = similarity_cached (account_context to_bits ds fx q)"
proof -
  have v: "vector_fields p = vector_fields q" and b: "tag_sim_jaccard_blend p = tag_sim_jaccard_blend q"
    using assms by (simp_all add: reads_sim_def)
  show ?thesis
    unfolding fun_eq_iff Let_def similarity_cached_def similarity_tag_eq [OF v] blend_jaccard_def cosine_eq [OF v]
      context_vector_eq [OF v] account_context_simps b by simp
qed

section \<open>Parameters\<close>

lemma reads_quality_fields:
  assumes "reads_quality p = reads_quality q"
  shows "quality_a p = quality_a q" "quality_b p = quality_b q" "quality_log_bias p = quality_log_bias q"
    "quality_w_absolute p = quality_w_absolute q" "quality_w_relative_score p = quality_w_relative_score q" "quality_w_relative_comments p = quality_w_relative_comments q"
    "quality_c p = quality_c q" "one_sided_ratio_exp p = one_sided_ratio_exp q"
  using assms by (simp_all add: reads_quality_def)

lemma reads_recency_fields:
  assumes "reads_recency p = reads_recency q"
  shows "recency_tau_days p = recency_tau_days q" "recency_split_age_days p = recency_split_age_days q" "recency_split_age_hours p = recency_split_age_hours q"
    "recency_personal_floor_frac p = recency_personal_floor_frac q" "recency_w_global p = recency_w_global q" "recency_w_personal p = recency_w_personal q"
    "recency_tau_recent p = recency_tau_recent q" "recency_tau_hot p = recency_tau_hot q" "recency_log_personal p = recency_log_personal q"
    "confidence_fields p = confidence_fields q"
  using assms by (simp_all add: reads_recency_def)

lemma reads_discrete_fields:
  assumes "reads_discrete p = reads_discrete q"
  shows "discrete_smoothing_alpha p = discrete_smoothing_alpha q" "discrete_pref_floor p = discrete_pref_floor q" "coldstart_smoothing_boost p = coldstart_smoothing_boost q"
    "confidence_fields p = confidence_fields q"
  using assms by (simp_all add: reads_discrete_def confidence_fields_def)

lemma reads_popularity_fields:
  assumes "reads_popularity p = reads_popularity q"
  shows "one_sided_ratio_exp p = one_sided_ratio_exp q" "popularity_w_fav p = popularity_w_fav q" "popularity_w_duration p = popularity_w_duration q"
  using assms by (simp_all add: reads_popularity_def)

lemma reads_relation_fields:
  assumes "reads_relation p = reads_relation q"
  shows "group_fields p = group_fields q" "confidence_fields p = confidence_fields q" "tag_relation_w_global p = tag_relation_w_global q"
    "tag_relation_w_personal p = tag_relation_w_personal q" "tag_relation_pmi_scale p = tag_relation_pmi_scale q" "tag_relation_cooc_ref p = tag_relation_cooc_ref q"
    "tag_relation_user_cooc_ref p = tag_relation_user_cooc_ref q" "tag_relation_min_cooc p = tag_relation_min_cooc q" "tag_relation_user_min_cooc p = tag_relation_user_min_cooc q"
    "tag_relation_pmi_scale_user p = tag_relation_pmi_scale_user q" "tag_relation_max_tags p = tag_relation_max_tags q" "tag_relation_pair_aggregator p = tag_relation_pair_aggregator q"
  using assms by (simp_all add: reads_relation_def group_fields_def confidence_fields_def)

lemma reads_uploader_fields:
  assumes "reads_uploader p = reads_uploader q"
  shows "uploader_n0 p = uploader_n0 q" "confidence_steepness p = confidence_steepness q" "one_sided_ratio_exp p = one_sided_ratio_exp q"
    "uploader_w_avg_score p = uploader_w_avg_score q" "uploader_w_avg_fav p = uploader_w_avg_fav q"
  using assms by (simp_all add: reads_uploader_def)

lemma reads_exclusivity_fields:
  assumes "reads_exclusivity p = reads_exclusivity q"
  shows "group_fields p = group_fields q" "df_floor p = df_floor q" "idf_max p = idf_max q"
    "idf_rsj_smoothing p = idf_rsj_smoothing q" "idf_lambda p = idf_lambda q" "idf_alpha p = idf_alpha q"
    "exclusivity_scale p = exclusivity_scale q" "exclusivity_cross_group_weight p = exclusivity_cross_group_weight q" "min_exclusivity_cooc p = min_exclusivity_cooc q"
    "exclusivity_max_tags p = exclusivity_max_tags q"
  using assms by (simp_all add: reads_exclusivity_def group_fields_def)

lemma reads_novelty_fields:
  assumes "reads_novelty p = reads_novelty q"
  shows "vector_fields p = vector_fields q" "novelty_n0 p = novelty_n0 q" "novelty_use_feedback p = novelty_use_feedback q"
  using assms by (simp_all add: reads_novelty_def)

lemma reads_discovery_fields:
  assumes "reads_discovery p = reads_discovery q"
  shows "vector_fields p = vector_fields q" "artist_discovery_n0 p = artist_discovery_n0 q" "artist_discovery_novelty_bonus p = artist_discovery_novelty_bonus q"
  using assms by (simp_all add: reads_discovery_def)

section \<open>The remaining channels\<close>

lemma quality_reads:
  assumes "reads_quality p = reads_quality q"
  shows "quality_cached (account_context to_bits ds fx p) = quality_cached (account_context to_bits ds fx q)"
  unfolding fun_eq_iff Let_def quality_cached_def quality_of_def account_context_simps reads_quality_fields [OF assms] by simp

lemma recency_reads:
  assumes "reads_recency p = reads_recency q"
  shows "recency_channel (account_context to_bits ds fx p) = recency_channel (account_context to_bits ds fx q)"
  unfolding fun_eq_iff Let_def recency_channel_def recency_tau_def account_context_simps reads_recency_fields [OF assms]
    account_confidence_eq [OF reads_recency_fields(10) [OF assms]] by simp

lemma rating_reads:
  assumes "reads_discrete p = reads_discrete q"
  shows "rating_cached (account_context to_bits ds fx p) = rating_cached (account_context to_bits ds fx q)"
  unfolding fun_eq_iff Let_def rating_cached_def rating_of_def smoothing_alpha_def account_context_simps reads_discrete_fields [OF assms]
    account_confidence_eq [OF reads_discrete_fields(4) [OF assms]] by simp

lemma media_reads:
  assumes "reads_discrete p = reads_discrete q"
  shows "media_cached (account_context to_bits ds fx p) = media_cached (account_context to_bits ds fx q)"
  unfolding fun_eq_iff Let_def media_cached_def media_of_def smoothing_alpha_def account_context_simps reads_discrete_fields [OF assms]
    account_confidence_eq [OF reads_discrete_fields(4) [OF assms]] by simp

lemma popularity_reads:
  assumes "reads_popularity p = reads_popularity q"
  shows "popularity_cached (account_context to_bits ds fx p) = popularity_cached (account_context to_bits ds fx q)"
  unfolding fun_eq_iff Let_def popularity_cached_def popularity_of_def account_context_simps reads_popularity_fields [OF assms] by simp

lemma relation_reads:
  assumes "reads_relation p = reads_relation q"
  shows "relation_cached (account_context to_bits ds fx p) = relation_cached (account_context to_bits ds fx q)"
proof -
  let ?c = "account_context to_bits ds fx"
  note eqs = reads_relation_fields [OF assms]
  have pairs: "global_pair (?c p) = global_pair (?c q)" "user_pair (?c p) = user_pair (?c q)"
    "sc_pair_aggregator (?c p) = sc_pair_aggregator (?c q)"
    unfolding fun_eq_iff Let_def global_pair_def user_pair_def account_context_simps eqs by simp_all
  have "relation_pairs (?c p) w_g w_u es nd = relation_pairs (?c q) w_g w_u es nd" for w_g w_u es nd
  proof (induction es arbitrary: nd)
    case (Cons e es)
    obtain wi gi ui where e: "e = (wi, gi, ui)" by (cases e)
    show ?case unfolding e relation_pairs.simps pairs by (rule Cons)
  qed simp
  note loop = this
  show ?thesis
    unfolding fun_eq_iff Let_def relation_cached_def relation_cached_entries_def relation_of_def account_context_simps loop eqs
      group_fields_eq [OF eqs(1)] account_confidence_eq [OF eqs(2)] by simp
qed

lemma uploader_reads:
  assumes "reads_uploader p = reads_uploader q"
  shows "uploader_cached (account_context to_bits ds fx p) = uploader_cached (account_context to_bits ds fx q)"
  unfolding fun_eq_iff Let_def uploader_cached_def uploader_of_def account_context_simps reads_uploader_fields [OF assms] by simp

lemma exclusivity_reads:
  assumes "reads_exclusivity p = reads_exclusivity q"
  shows "exclusivity_cached (account_context to_bits ds fx p) = exclusivity_cached (account_context to_bits ds fx q)"
  unfolding fun_eq_iff Let_def exclusivity_cached_def exclusivity_cached_entries_def exclusivity_of_def account_context_simps reads_exclusivity_fields [OF assms]
    group_fields_eq [OF reads_exclusivity_fields(1) [OF assms]] by simp

lemma novelty_reads:
  assumes "reads_novelty p = reads_novelty q"
  shows "novelty_cached (account_context to_bits ds fx p) = novelty_cached (account_context to_bits ds fx q)"
proof -
  note eqs = reads_novelty_fields [OF assms]
  show ?thesis
    unfolding fun_eq_iff Let_def novelty_cached_def add_novelty_def tag_novelty_def account_context_simps context_vector_eq [OF eqs(1)]
      vector_fields_eq(2) [OF eqs(1)] eqs by simp
qed

lemma discovery_reads:
  assumes "reads_discovery p = reads_discovery q"
  shows "discovery_cached (account_context to_bits ds fx p) = discovery_cached (account_context to_bits ds fx q)"
proof -
  note eqs = reads_discovery_fields [OF assms]
  show ?thesis
    unfolding fun_eq_iff Let_def discovery_cached_def new_artists_def discovery_of_def cosine_eq [OF eqs(1)] similarity_tag_eq [OF eqs(1)]
      account_context_simps context_vector_eq [OF eqs(1)] eqs by simp
qed

lemmas channel_reads = similarity_reads quality_reads recency_reads rating_reads media_reads popularity_reads
  relation_reads uploader_reads exclusivity_reads novelty_reads discovery_reads

section \<open>One post\<close>

lemma masked_M_ALL [simp]:
  "masked M_ALL M_SIM" "masked M_ALL M_QUALITY" "masked M_ALL M_RECENCY" "masked M_ALL M_RATING" "masked M_ALL M_MEDIA"
  "masked M_ALL M_POPULARITY" "masked M_ALL M_TAG_RELATION" "masked M_ALL M_UPLOADER" "masked M_ALL M_EXCLUSIVITY"
  "masked M_ALL M_NOVELTY" "masked M_ALL M_ARTIST_DISCOVERY"
  by (simp_all add: masked_def mask_defs)

definition full_channels :: "ScoringContext \<Rightarrow> CachedPostFeatures \<Rightarrow> int \<Rightarrow> ChannelScores" where
  "full_channels ctx f now =
     \<lparr>cs_sim = similarity_cached ctx f, cs_quality = quality_cached ctx f,
      cs_recency = recency_channel ctx (real_of_int (num_seconds (now - cf_created_at f)) / 86400),
      cs_rating = rating_cached ctx f, cs_media = media_cached ctx f, cs_popularity = popularity_cached ctx f,
      cs_tag_relation = relation_cached ctx f, cs_uploader = uploader_cached ctx f, cs_exclusivity = exclusivity_cached ctx f,
      cs_novelty = novelty_cached ctx f, cs_artist_discovery = discovery_cached ctx f\<rparr>"

lemma recompute_all: "recompute_one_post ctx f now prev M_ALL = full_channels ctx f now"
  by (simp add: recompute_one_post_def full_channels_def)

lemma mask_coversD:
  assumes "mask_covers p q msk"
  shows "masked msk M_SIM \<or> reads_sim p = reads_sim q"
    "masked msk M_QUALITY \<or> reads_quality p = reads_quality q"
    "masked msk M_RECENCY \<or> reads_recency p = reads_recency q"
    "masked msk M_RATING \<or> reads_discrete p = reads_discrete q"
    "masked msk M_MEDIA \<or> reads_discrete p = reads_discrete q"
    "masked msk M_POPULARITY \<or> reads_popularity p = reads_popularity q"
    "masked msk M_TAG_RELATION \<or> reads_relation p = reads_relation q"
    "masked msk M_UPLOADER \<or> reads_uploader p = reads_uploader q"
    "masked msk M_EXCLUSIVITY \<or> reads_exclusivity p = reads_exclusivity q"
    "masked msk M_NOVELTY \<or> reads_novelty p = reads_novelty q"
    "masked msk M_ARTIST_DISCOVERY \<or> reads_discovery p = reads_discovery q"
  using assms by (simp_all only: mask_covers_def)

lemma kept_or_equal: "b \<or> f = g \<Longrightarrow> (if b then g x else f x) = g x"
  by auto

lemma covered_channels:
  assumes "mask_covers p q msk"
  shows "masked msk M_SIM \<or> similarity_cached (account_context to_bits ds fx p) = similarity_cached (account_context to_bits ds fx q)"
    "masked msk M_QUALITY \<or> quality_cached (account_context to_bits ds fx p) = quality_cached (account_context to_bits ds fx q)"
    "masked msk M_RECENCY \<or> recency_channel (account_context to_bits ds fx p) = recency_channel (account_context to_bits ds fx q)"
    "masked msk M_RATING \<or> rating_cached (account_context to_bits ds fx p) = rating_cached (account_context to_bits ds fx q)"
    "masked msk M_MEDIA \<or> media_cached (account_context to_bits ds fx p) = media_cached (account_context to_bits ds fx q)"
    "masked msk M_POPULARITY \<or> popularity_cached (account_context to_bits ds fx p) = popularity_cached (account_context to_bits ds fx q)"
    "masked msk M_TAG_RELATION \<or> relation_cached (account_context to_bits ds fx p) = relation_cached (account_context to_bits ds fx q)"
    "masked msk M_UPLOADER \<or> uploader_cached (account_context to_bits ds fx p) = uploader_cached (account_context to_bits ds fx q)"
    "masked msk M_EXCLUSIVITY \<or> exclusivity_cached (account_context to_bits ds fx p) = exclusivity_cached (account_context to_bits ds fx q)"
    "masked msk M_NOVELTY \<or> novelty_cached (account_context to_bits ds fx p) = novelty_cached (account_context to_bits ds fx q)"
    "masked msk M_ARTIST_DISCOVERY \<or> discovery_cached (account_context to_bits ds fx p) = discovery_cached (account_context to_bits ds fx q)"
proof -
  show "masked msk M_SIM \<or> similarity_cached (account_context to_bits ds fx p) = similarity_cached (account_context to_bits ds fx q)"
    using mask_coversD(1) [OF assms] by (rule disj_forward) (assumption, rule similarity_reads)
  show "masked msk M_QUALITY \<or> quality_cached (account_context to_bits ds fx p) = quality_cached (account_context to_bits ds fx q)"
    using mask_coversD(2) [OF assms] by (rule disj_forward) (assumption, rule quality_reads)
  show "masked msk M_RECENCY \<or> recency_channel (account_context to_bits ds fx p) = recency_channel (account_context to_bits ds fx q)"
    using mask_coversD(3) [OF assms] by (rule disj_forward) (assumption, rule recency_reads)
  show "masked msk M_RATING \<or> rating_cached (account_context to_bits ds fx p) = rating_cached (account_context to_bits ds fx q)"
    using mask_coversD(4) [OF assms] by (rule disj_forward) (assumption, rule rating_reads)
  show "masked msk M_MEDIA \<or> media_cached (account_context to_bits ds fx p) = media_cached (account_context to_bits ds fx q)"
    using mask_coversD(5) [OF assms] by (rule disj_forward) (assumption, rule media_reads)
  show "masked msk M_POPULARITY \<or> popularity_cached (account_context to_bits ds fx p) = popularity_cached (account_context to_bits ds fx q)"
    using mask_coversD(6) [OF assms] by (rule disj_forward) (assumption, rule popularity_reads)
  show "masked msk M_TAG_RELATION \<or> relation_cached (account_context to_bits ds fx p) = relation_cached (account_context to_bits ds fx q)"
    using mask_coversD(7) [OF assms] by (rule disj_forward) (assumption, rule relation_reads)
  show "masked msk M_UPLOADER \<or> uploader_cached (account_context to_bits ds fx p) = uploader_cached (account_context to_bits ds fx q)"
    using mask_coversD(8) [OF assms] by (rule disj_forward) (assumption, rule uploader_reads)
  show "masked msk M_EXCLUSIVITY \<or> exclusivity_cached (account_context to_bits ds fx p) = exclusivity_cached (account_context to_bits ds fx q)"
    using mask_coversD(9) [OF assms] by (rule disj_forward) (assumption, rule exclusivity_reads)
  show "masked msk M_NOVELTY \<or> novelty_cached (account_context to_bits ds fx p) = novelty_cached (account_context to_bits ds fx q)"
    using mask_coversD(10) [OF assms] by (rule disj_forward) (assumption, rule novelty_reads)
  show "masked msk M_ARTIST_DISCOVERY \<or> discovery_cached (account_context to_bits ds fx p) = discovery_cached (account_context to_bits ds fx q)"
    using mask_coversD(11) [OF assms] by (rule disj_forward) (assumption, rule discovery_reads)
qed

lemma recompute_covered:
  assumes "mask_covers p q msk"
  shows "recompute_one_post (account_context to_bits ds fx q) f now (full_channels (account_context to_bits ds fx p) f now) msk =
    full_channels (account_context to_bits ds fx q) f now"
  unfolding recompute_one_post_def full_channels_def ChannelScores.select_convs
    covered_channels [OF assms, THEN kept_or_equal] by (rule refl)

section \<open>One account\<close>

text \<open>The cache entry a full rebuild leaves.\<close>

definition full_entry :: "(f32 \<Rightarrow> u32) \<Rightarrow> EvalDataset \<Rightarrow> Priors \<Rightarrow> AccountFixture \<Rightarrow> AccountChannelCache" where
  "full_entry to_bits ds p fx =
     \<lparr>ac_channels = map (\<lambda>f. full_channels (account_context to_bits ds fx p) f (priors_now p)) (fx_test_features fx @ fx_neg_features fx),
      ac_n_test = length (fx_test_features fx),
      ac_context_base = Some (context_base_new to_bits (fx_tags fx) p (ds_idf ds) (fx_profile fx))\<rparr>"

lemma map_nth_upt: "map (\<lambda>i. g (xs ! i)) [0..<length xs] = map g xs"
  by (rule nth_equalityI) simp_all

lemma rebuilt_entry: "fst (score_account to_bits ds p k1 k2 d M_ALL None fx) = full_entry to_bits ds p fx"
  unfolding score_account_def full_entry_def Let_def fst_conv reusable_base_def option.case context_new_account recompute_all
    map_nth_upt [where g = "\<lambda>f. full_channels (account_context to_bits ds fx p) f (priors_now p)"] by (rule refl)

text \<open>No two parameter settings in play share a fingerprint without sharing its fields.\<close>

definition no_collision :: "(f32 \<Rightarrow> u32) \<Rightarrow> Priors \<Rightarrow> Priors \<Rightarrow> bool" where
  "no_collision to_bits p q \<longleftrightarrow>
     (context_fingerprint to_bits p = context_fingerprint to_bits q \<longrightarrow> fingerprint_fields p = fingerprint_fields q)"

lemma reusable_base_agrees:
  assumes "no_collision to_bits p q" "reusable_base (context_fingerprint to_bits q) (Some (full_entry to_bits ds p fx)) = Some base"
  shows "base = context_base_new to_bits (fx_tags fx) q (ds_idf ds) (fx_profile fx)"
proof -
  let ?b = "\<lambda>p. context_base_new to_bits (fx_tags fx) p (ds_idf ds) (fx_profile fx)"
  have fp: "cb_fingerprint (?b p) = context_fingerprint to_bits p" by (simp add: context_base_new_def Let_def split: prod.split)
  then have same: "base = ?b p" "context_fingerprint to_bits p = context_fingerprint to_bits q"
    using assms(2) by (simp_all add: reusable_base_def full_entry_def split: if_splits)
  then have "fingerprint_fields p = fingerprint_fields q" using assms(1) by (simp add: no_collision_def)
  then have "?b p = ?b q" by (rule base_same_fields)
  then show ?thesis unfolding same(1) .
qed

text \<open>A covered probe on the cache of a full rebuild is a full rebuild.\<close>

lemma probe_account:
  assumes "no_collision to_bits p q" "mask_covers p q msk" "priors_now p = priors_now q"
  shows "score_account to_bits ds q k1 k2 d msk (Some (full_entry to_bits ds p fx)) fx = score_account to_bits ds q k1 k2 d M_ALL None fx"
proof -
  let ?r = "reusable_base (context_fingerprint to_bits q) (Some (full_entry to_bits ds p fx))"
  let ?b = "context_base_new to_bits (fx_tags fx) q (ds_idf ds) (fx_profile fx)"
  let ?cands = "fx_test_features fx @ fx_neg_features fx"
  have base: "(case ?r of None \<Rightarrow> ?b | Some b \<Rightarrow> b) = ?b"
    using reusable_base_agrees [OF assms(1)] by (cases ?r) simp_all
  have ctx: "(case ?r of None \<Rightarrow> account_context to_bits ds fx q
      | Some b \<Rightarrow> from_base b q (ds_idf ds) (fx_profile fx) (ds_global_relation ds) (fx_user_relation fx)) = account_context to_bits ds fx q"
    using reusable_base_agrees [OF assms(1)] by (cases ?r) (simp_all add: account_context_def)
  have "recompute_one_post (account_context to_bits ds fx q) (?cands ! i) (priors_now q)
      (ac_channels (full_entry to_bits ds p fx) ! i) msk = full_channels (account_context to_bits ds fx q) (?cands ! i) (priors_now q)"
    if "i < length ?cands" for i
  proof -
    have "ac_channels (full_entry to_bits ds p fx) ! i = full_channels (account_context to_bits ds fx p) (?cands ! i) (priors_now q)"
      unfolding full_entry_def AccountChannelCache.select_convs nth_map [OF that] assms(3) by (rule refl)
    then show ?thesis by (simp only: recompute_covered [OF assms(2)])
  qed
  then have chans: "map (\<lambda>i. recompute_one_post (account_context to_bits ds fx q) (?cands ! i) (priors_now q)
        (ac_channels (full_entry to_bits ds p fx) ! i) msk) [0..<length ?cands] =
      map (\<lambda>i. full_channels (account_context to_bits ds fx q) (?cands ! i) (priors_now q)) [0..<length ?cands]"
    by (intro map_cong refl) simp
  have none: "reusable_base fp None = None" for fp by (simp add: reusable_base_def)
  show ?thesis
    unfolding score_account_def Let_def none option.case context_new_account base ctx chans recompute_all by (rule refl)
qed

section \<open>The dataset\<close>

lemma map_enumerate_nth:
  assumes "length cs = length xs"
  shows "map (\<lambda>(i, x). g (cs ! i) x) (enumerate 0 xs) = map2 g cs xs"
  using assms by (intro nth_equalityI) (simp_all add: nth_enumerate_eq)

lemma map_enumerate_snd: "map (\<lambda>(i, x). g x) (enumerate 0 xs) = map g xs"
  by (intro nth_equalityI) (simp_all add: nth_enumerate_eq)

lemma rebuilt_cache:
  "snd (score_with_cache to_bits ds p now k1 k2 d None msk) = map (full_entry to_bits ds (p\<lparr>priors_now := now\<rparr>)) (ds_accounts ds)"
  by (simp add: score_with_cache_def Let_def map_enumerate_snd rebuilt_entry)

text \<open>A probe that reads every channel outside its mask from the cache of the previous parameters gives
  the metrics and the cache of a full rebuild, provided the mask covers every channel that reads a
  changed parameter and the two settings do not collide under the fingerprint.\<close>

theorem probe_is_full_rebuild:
  assumes "mask_covers (p\<lparr>priors_now := now\<rparr>) (q\<lparr>priors_now := now\<rparr>) msk"
    and "no_collision to_bits (p\<lparr>priors_now := now\<rparr>) (q\<lparr>priors_now := now\<rparr>)"
    and "prev = snd (score_with_cache to_bits ds p now k1' k2' d' None m)"
  shows "score_with_cache to_bits ds q now k1 k2 d (Some prev) msk = score_with_cache to_bits ds q now k1 k2 d None M_ALL"
proof -
  let ?p = "p\<lparr>priors_now := now\<rparr>" and ?q = "q\<lparr>priors_now := now\<rparr>"
  have prev: "prev = map (full_entry to_bits ds ?p) (ds_accounts ds)" unfolding assms(3) rebuilt_cache ..
  let ?run = "\<lambda>i fx. score_account to_bits ds ?q k1 k2 d msk (Some (prev ! i)) fx"
  have "map (\<lambda>(i, fx). ?run i fx) (enumerate 0 (ds_accounts ds)) =
      map (\<lambda>fx. score_account to_bits ds ?q k1 k2 d M_ALL None fx) (ds_accounts ds)"
    by (intro nth_equalityI) (simp_all add: nth_enumerate_eq prev probe_account [OF assms(2,1)])
  then show ?thesis unfolding score_with_cache_def Let_def option.case map_enumerate_snd by simp
qed

section \<open>The cache against the plain evaluation\<close>

definition without_distribution :: "Metrics \<Rightarrow> Metrics" where
  "without_distribution t = t\<lparr>mt_dist_age_days := 0, mt_dist_fav_count := 0, mt_dist_artists := 0, mt_dist_tag_jaccard := 0\<rparr>"

lemma without_distribution_simps [simp]:
  "without_distribution (add_distribution d t) = without_distribution t"
  "without_distribution (add_metrics nrm t) = add_metrics nrm (without_distribution t)"
  "without_distribution metrics_default = metrics_default"
  by (simp_all add: without_distribution_def add_distribution_def add_metrics_def metrics_default_def split: prod.split)

lemma cached_score_blends:
  "fst (score_cached c f) = blend_channel c (full_channels c f (priors_now (sc_priors c)))"
  by (simp add: score_cached_def blend_channel_def full_channels_def age_in_days_def Let_def)

lemma rebuilt_metrics:
  "snd (score_account to_bits ds p k1 k2 False M_ALL None fx) = fst (eval_account to_bits ds p k1 k2 False fx)"
proof -
  let ?c = "account_context to_bits ds fx p" and ?cands = "fx_test_features fx @ fx_neg_features fx"
  let ?g = "\<lambda>f. full_channels ?c f (priors_now p)"
  have entries: "map2 (\<lambda>ch f. (blend_channel ?c ch, cf_id f)) (map ?g xs) xs = map (\<lambda>f. (fst (score_cached ?c f), cf_id f)) xs" for xs
    by (induction xs) (simp_all add: cached_score_blends)
  have none: "reusable_base fp None = None" for fp by (simp add: reusable_base_def)
  have ranked: "ranked_candidates fx ds p 0 False (Some g) es = ranked_candidates fx ds p (diversify_head_limit k1 k2) False None es" for g es
    by (simp add: ranked_candidates_def)
  show ?thesis
    unfolding score_account_def eval_account_def account_metrics_def Let_def none option.case context_new_account recompute_all
      map_nth_upt [where g = ?g] entries if_False snd_conv fst_conv ranked by (rule refl)
qed

text \<open>C38. Without the diversifier, the metrics of a full rebuild of the cache are those of the plain
  evaluation, the description of the head apart.\<close>

theorem rebuild_matches_eval:
  "fst (score_with_cache to_bits ds p now k1 k2 False None m) = without_distribution (score_with_opts to_bits ds p now k1 k2 False)"
proof -
  let ?p = "p\<lparr>priors_now := now\<rparr>"
  have "without_distribution (fold (\<lambda>(nrm, d) t. add_distribution d (add_metrics nrm t))
      (map (eval_account to_bits ds ?p k1 k2 False) fxs) t) =
    fold (\<lambda>(acc, nrm). add_metrics nrm) (map (score_account to_bits ds ?p k1 k2 False M_ALL None) fxs) (without_distribution t)" for fxs t
    by (induction fxs arbitrary: t) (simp_all add: case_prod_unfold rebuilt_metrics)
  from this [of "ds_accounts ds" metrics_default] show ?thesis
    by (simp add: score_with_cache_def score_with_opts_def Let_def map_enumerate_snd)
qed

end
