(* ===== verification/Calibrate_Knobs.thy ===== *)
theory Calibrate_Knobs
  imports Calibrate_Probe
begin

text \<open>
  The knobs of the calibration grid (\<open>bin/calibrate/knobs.rs\<close>): what each one does to the parameters,
  the deltas it is probed with, and the mask of channels a probe recomputes.  A NaN parameter that means
  \<open>as the parent\<close> is \<open>None\<close> and is seeded from its parent by the first probe.
\<close>

section \<open>Registry\<close>

record KnobSpec =
  kn_name :: string
  kn_apply :: "Priors \<Rightarrow> f32 \<Rightarrow> Priors"
  kn_probes :: "f32 list"
  kn_invalidates :: channel_mask
  kn_diversify_only :: bool

definition knob :: "string \<Rightarrow> (Priors \<Rightarrow> f32 \<Rightarrow> Priors) \<Rightarrow> f32 list \<Rightarrow> channel_mask \<Rightarrow> bool \<Rightarrow> KnobSpec" where
  "knob name ap pr iv dv =
     \<lparr>kn_name = name, kn_apply = ap, kn_probes = pr, kn_invalidates = iv, kn_diversify_only = dv\<rparr>"

lemma knob_simps [simp]:
  "kn_name (knob name ap pr iv dv) = name" "kn_apply (knob name ap pr iv dv) = ap" "kn_probes (knob name ap pr iv dv) = pr"
  "kn_invalidates (knob name ap pr iv dv) = iv" "kn_diversify_only (knob name ap pr iv dv) = dv"
  by (simp_all add: knob_def)

text \<open>\<open>f32::round\<close> rounds halves away from zero; a clamped integer step then fits its type.\<close>

definition round_f32 :: "f32 \<Rightarrow> f32" where
  "round_f32 x = (if 0 \<le> x then real_of_int \<lfloor>x + 1 / 2\<rfloor> else - real_of_int \<lfloor>1 / 2 - x\<rfloor>)"

definition int_step :: "f32 \<Rightarrow> f32 \<Rightarrow> int \<Rightarrow> f32 \<Rightarrow> int" where
  "int_step lo hi x v = \<lfloor>clamp lo hi (round_f32 (real_of_int x + v))\<rfloor>"

definition or_parent :: "f32 option \<Rightarrow> f32 \<Rightarrow> f32" where
  "or_parent own parent = (case own of None \<Rightarrow> parent | Some x \<Rightarrow> x)"

subsection \<open>Deltas\<close>

definition PROBES_MIX_REL :: "f32 list" where "PROBES_MIX_REL = [- (25 / 100), 25 / 100, - (5 / 10), 5 / 10, - 1, 1]"
definition PROBES_FRACTION :: "f32 list" where "PROBES_FRACTION = [- (1 / 10), - (5 / 100), 5 / 100, 1 / 10]"
definition PROBES_SMALL_FRACTION :: "f32 list" where "PROBES_SMALL_FRACTION = [- (5 / 100), - (2 / 100), 2 / 100, 5 / 100]"
definition PROBES_WEIGHT :: "f32 list" where "PROBES_WEIGHT = [- (2 / 10), - (1 / 10), 1 / 10, 2 / 10]"
definition PROBES_DAYS :: "f32 list" where "PROBES_DAYS = [- 5, - 2, 2, 5]"
definition PROBES_LOG_BIAS :: "f32 list" where "PROBES_LOG_BIAS = [- 1, - (5 / 10), 5 / 10, 1]"
definition PROBES_SMOOTHING :: "f32 list" where "PROBES_SMOOTHING = [- (5 / 10), - (2 / 10), 2 / 10, 5 / 10]"
definition PROBES_PMI :: "f32 list" where "PROBES_PMI = [- 1, - (5 / 10), 5 / 10, 1]"
definition PROBES_COLDSTART :: "f32 list" where "PROBES_COLDSTART = [- 10, - 5, 5, 10]"
definition PROBES_COOC_REF :: "f32 list" where "PROBES_COOC_REF = [- 5, - 2, 2, 5]"
definition PROBES_DF_FLOOR :: "f32 list" where "PROBES_DF_FLOOR = [- (3 / 10), - (1 / 10), 1 / 10, 3 / 10]"
definition PROBES_IDF_MAX :: "f32 list" where "PROBES_IDF_MAX = [- 20, - 5, 5, 20]"
definition PROBES_BM25_K :: "f32 list" where "PROBES_BM25_K = [- (5 / 10), - (2 / 10), 2 / 10, 5 / 10]"
definition PROBES_RATIO_EXP :: "f32 list" where "PROBES_RATIO_EXP = [- (2 / 10), - (5 / 100), 5 / 100, 2 / 10]"
definition PROBES_GROUP_W :: "f32 list" where "PROBES_GROUP_W = [- (2 / 10), - (1 / 10), 1 / 10, 2 / 10]"
definition PROBES_GROUP_W_LORE :: "f32 list" where "PROBES_GROUP_W_LORE = [- (1 / 10), - (5 / 100), 5 / 100, 1 / 10]"
definition PROBES_RSJ :: "f32 list" where "PROBES_RSJ = [- (2 / 10), - (5 / 100), 5 / 100, 2 / 10]"
definition PROBES_BOOST :: "f32 list" where "PROBES_BOOST = [- (5 / 10), - (2 / 10), 2 / 10, 5 / 10]"
definition PROBES_TEMP :: "f32 list" where "PROBES_TEMP = [- (5 / 10), 5 / 10, 15 / 10, 3]"
definition PROBES_STEEP :: "f32 list" where "PROBES_STEEP = [- (3 / 10), - (1 / 10), 1 / 10, 3 / 10]"
definition PROBES_MMR_EXP :: "f32 list" where "PROBES_MMR_EXP = [- (3 / 10), - (1 / 10), 1 / 10, 3 / 10]"
definition PROBES_JAC_BLEND :: "f32 list" where "PROBES_JAC_BLEND = [- (5 / 100), 5 / 100, 1 / 10, 2 / 10]"
definition PROBES_TAU_RECENT :: "f32 list" where "PROBES_TAU_RECENT = [- 2, - 1, 1, 2]"
definition PROBES_TAU_HOT :: "f32 list" where "PROBES_TAU_HOT = [- (5 / 10), - (2 / 10), 2 / 10, 5 / 10]"
definition PROBES_HOURS :: "f32 list" where "PROBES_HOURS = [- 6, - 2, 2, 6]"
definition PROBES_INT_TINY :: "f32 list" where "PROBES_INT_TINY = [- 1, 1]"
definition PROBES_DIV_W :: "f32 list" where "PROBES_DIV_W = [- (5 / 100), - (2 / 100), 2 / 100, 5 / 100]"
definition PROBES_DIV_PENALTY :: "f32 list" where "PROBES_DIV_PENALTY = [- (1 / 10), - (5 / 100), 5 / 100, 1 / 10]"
definition PROBES_DIV_WINDOW :: "f32 list" where "PROBES_DIV_WINDOW = [- 8, - 4, 4, 8]"
definition PROBES_SPLIT_AGE :: "f32 list" where "PROBES_SPLIT_AGE = [- 10, - 5, 5, 10]"

subsection \<open>Knobs\<close>

definition mix_knobs :: "KnobSpec list" where
  "mix_knobs = [knob ''mix_sim'' (\<lambda>p v. p\<lparr>mix_sim := max 0 (mix_sim p * (1 + v))\<rparr>) PROBES_MIX_REL M_NONE False,
     knob ''mix_quality'' (\<lambda>p v. p\<lparr>mix_quality := max 0 (mix_quality p * (1 + v))\<rparr>) PROBES_MIX_REL M_NONE False,
     knob ''mix_recency'' (\<lambda>p v. p\<lparr>mix_recency := max 0 (mix_recency p * (1 + v))\<rparr>) PROBES_MIX_REL M_NONE False,
     knob ''mix_rating'' (\<lambda>p v. p\<lparr>mix_rating := max 0 (mix_rating p * (1 + v))\<rparr>) PROBES_MIX_REL M_NONE False,
     knob ''mix_media'' (\<lambda>p v. p\<lparr>mix_media := max 0 (mix_media p * (1 + v))\<rparr>) PROBES_MIX_REL M_NONE False,
     knob ''mix_popularity'' (\<lambda>p v. p\<lparr>mix_popularity := max 0 (mix_popularity p * (1 + v))\<rparr>) PROBES_MIX_REL M_NONE False,
     knob ''mix_tag_relation'' (\<lambda>p v. p\<lparr>mix_tag_relation := max 0 (mix_tag_relation p * (1 + v))\<rparr>) PROBES_MIX_REL M_NONE False,
     knob ''mix_uploader'' (\<lambda>p v. p\<lparr>mix_uploader := max 0 (mix_uploader p * (1 + v))\<rparr>) PROBES_MIX_REL M_NONE False,
     knob ''mix_exclusivity'' (\<lambda>p v. p\<lparr>mix_exclusivity := max 0 (mix_exclusivity p * (1 + v))\<rparr>) PROBES_MIX_REL M_NONE False,
     knob ''mix_novelty'' (\<lambda>p v. p\<lparr>mix_novelty := max 0 (mix_novelty p * (1 + v))\<rparr>) PROBES_MIX_REL M_NONE False,
     knob ''mix_artist_discovery'' (\<lambda>p v. p\<lparr>mix_artist_discovery := max 0 (mix_artist_discovery p * (1 + v))\<rparr>) PROBES_MIX_REL M_NONE False]"

definition idf_knobs :: "KnobSpec list" where
  "idf_knobs = [knob ''idf_lambda'' (\<lambda>p v. p\<lparr>idf_lambda := clamp 0 (15 / 10) (idf_lambda p + v)\<rparr>) PROBES_FRACTION M_SIM False,
     knob ''idf_alpha'' (\<lambda>p v. p\<lparr>idf_alpha := clamp 0 (15 / 10) (idf_alpha p + v)\<rparr>) PROBES_FRACTION M_SIM False,
     knob ''freq_alpha'' (\<lambda>p v. p\<lparr>freq_alpha := clamp 0 (15 / 10) (freq_alpha p + v)\<rparr>) PROBES_FRACTION M_SIM False,
     knob ''df_floor'' (\<lambda>p v. p\<lparr>df_floor := clamp (5 / 100) 5 (df_floor p + v)\<rparr>) PROBES_DF_FLOOR M_SIM False,
     knob ''idf_max'' (\<lambda>p v. p\<lparr>idf_max := clamp 1 200 (idf_max p + v)\<rparr>) PROBES_IDF_MAX M_SIM False,
     knob ''bm25_k'' (\<lambda>p v. p\<lparr>bm25_k := clamp (1 / 10) 10 (bm25_k p + v)\<rparr>) PROBES_BM25_K M_SIM False,
     knob ''one_sided_ratio_exp'' (\<lambda>p v. p\<lparr>one_sided_ratio_exp := clamp (5 / 100) 3 (one_sided_ratio_exp p + v)\<rparr>) PROBES_RATIO_EXP M_RATIO_EXP False]"

definition quality_knobs :: "KnobSpec list" where
  "quality_knobs = [knob ''quality_a'' (\<lambda>p v. p\<lparr>quality_a := max 0 (quality_a p + v)\<rparr>) PROBES_SMALL_FRACTION M_QUALITY False,
     knob ''quality_b'' (\<lambda>p v. p\<lparr>quality_b := max 0 (quality_b p + v)\<rparr>) PROBES_SMALL_FRACTION M_QUALITY False,
     knob ''quality_log_bias'' (\<lambda>p v. p\<lparr>quality_log_bias := quality_log_bias p + v\<rparr>) PROBES_LOG_BIAS M_QUALITY False,
     knob ''quality_w_absolute'' (\<lambda>p v. p\<lparr>quality_w_absolute := max 0 (quality_w_absolute p + v)\<rparr>) PROBES_WEIGHT M_QUALITY False,
     knob ''quality_w_relative_score'' (\<lambda>p v. p\<lparr>quality_w_relative_score := max 0 (quality_w_relative_score p + v)\<rparr>) PROBES_WEIGHT M_QUALITY False,
     knob ''quality_w_relative_comments'' (\<lambda>p v. p\<lparr>quality_w_relative_comments := max 0 (quality_w_relative_comments p + v)\<rparr>) PROBES_WEIGHT M_QUALITY False,
     knob ''quality_c'' (\<lambda>p v. p\<lparr>quality_c := clamp 0 1 (quality_c p + v)\<rparr>) PROBES_SMALL_FRACTION M_QUALITY False]"

definition recency_knobs :: "KnobSpec list" where
  "recency_knobs = [knob ''recency_tau_days'' (\<lambda>p v. p\<lparr>recency_tau_days := max 1 (recency_tau_days p + v)\<rparr>) PROBES_DAYS M_RECENCY False,
     knob ''recency_w_global'' (\<lambda>p v. p\<lparr>recency_w_global := max 0 (recency_w_global p + v)\<rparr>) PROBES_WEIGHT M_RECENCY False,
     knob ''recency_w_personal'' (\<lambda>p v. p\<lparr>recency_w_personal := max 0 (recency_w_personal p + v)\<rparr>) PROBES_WEIGHT M_RECENCY False,
     knob ''recency_personal_floor_frac'' (\<lambda>p v. p\<lparr>recency_personal_floor_frac := clamp 0 2 (recency_personal_floor_frac p + v)\<rparr>) PROBES_SMALL_FRACTION M_RECENCY False]"

definition popularity_knobs :: "KnobSpec list" where
  "popularity_knobs = [knob ''popularity_w_fav'' (\<lambda>p v. p\<lparr>popularity_w_fav := max 0 (popularity_w_fav p + v)\<rparr>) PROBES_WEIGHT M_POPULARITY False,
     knob ''popularity_w_duration'' (\<lambda>p v. p\<lparr>popularity_w_duration := max 0 (popularity_w_duration p + v)\<rparr>) PROBES_WEIGHT M_POPULARITY False]"

definition uploader_knobs :: "KnobSpec list" where
  "uploader_knobs = [knob ''uploader_n0'' (\<lambda>p v. p\<lparr>uploader_n0 := max 1 (uploader_n0 p + v)\<rparr>) PROBES_COLDSTART M_UPLOADER False,
     knob ''uploader_w_avg_score'' (\<lambda>p v. p\<lparr>uploader_w_avg_score := max 0 (uploader_w_avg_score p + v)\<rparr>) PROBES_WEIGHT M_UPLOADER False,
     knob ''uploader_w_avg_fav'' (\<lambda>p v. p\<lparr>uploader_w_avg_fav := max 0 (uploader_w_avg_fav p + v)\<rparr>) PROBES_WEIGHT M_UPLOADER False]"

definition exclusivity_knobs :: "KnobSpec list" where
  "exclusivity_knobs = [knob ''min_exclusivity_cooc'' (\<lambda>p v. p\<lparr>min_exclusivity_cooc := int_step 0 20 (min_exclusivity_cooc p) v\<rparr>) PROBES_INT_TINY M_EXCLUSIVITY False,
     knob ''exclusivity_scale'' (\<lambda>p v. p\<lparr>exclusivity_scale := clamp (1 / 10) 5 (exclusivity_scale p + v)\<rparr>) PROBES_SMALL_FRACTION M_EXCLUSIVITY False,
     knob ''exclusivity_max_tags'' (\<lambda>p v. p\<lparr>exclusivity_max_tags := nat (int_step 1 50 (int (exclusivity_max_tags p)) v)\<rparr>) [- 5, - 2, 2, 5] M_EXCLUSIVITY False]"

definition novelty_knobs :: "KnobSpec list" where
  "novelty_knobs = [knob ''novelty_n0'' (\<lambda>p v. p\<lparr>novelty_n0 := max 1 (novelty_n0 p + v)\<rparr>) PROBES_COLDSTART M_NOVELTY False,
     knob ''artist_discovery_n0'' (\<lambda>p v. p\<lparr>artist_discovery_n0 := max 1 (artist_discovery_n0 p + v)\<rparr>) PROBES_COLDSTART M_ARTIST_DISCOVERY False,
     knob ''artist_discovery_novelty_bonus'' (\<lambda>p v. p\<lparr>artist_discovery_novelty_bonus := clamp 0 1 (artist_discovery_novelty_bonus p + v)\<rparr>) PROBES_SMALL_FRACTION M_ARTIST_DISCOVERY False]"

definition discrete_knobs :: "KnobSpec list" where
  "discrete_knobs = [knob ''discrete_smoothing_alpha'' (\<lambda>p v. p\<lparr>discrete_smoothing_alpha := max 0 (discrete_smoothing_alpha p + v)\<rparr>) PROBES_SMOOTHING M_DISCRETE False,
     knob ''discrete_pref_floor'' (\<lambda>p v. p\<lparr>discrete_pref_floor := clamp 0 (5 / 10) (discrete_pref_floor p + v)\<rparr>) PROBES_SMALL_FRACTION M_DISCRETE False,
     knob ''coldstart_n0'' (\<lambda>p v. p\<lparr>coldstart_n0 := max 1 (coldstart_n0 p + v)\<rparr>) PROBES_COLDSTART M_CONFIDENCE_DERIVED False]"

definition relation_knobs :: "KnobSpec list" where
  "relation_knobs = [knob ''tag_relation_pmi_scale'' (\<lambda>p v. p\<lparr>tag_relation_pmi_scale := max 1 (tag_relation_pmi_scale p + v)\<rparr>) PROBES_PMI M_TAG_RELATION False,
     knob ''tag_relation_w_global'' (\<lambda>p v. p\<lparr>tag_relation_w_global := max 0 (tag_relation_w_global p + v)\<rparr>) PROBES_WEIGHT M_TAG_RELATION False,
     knob ''tag_relation_w_personal'' (\<lambda>p v. p\<lparr>tag_relation_w_personal := max 0 (tag_relation_w_personal p + v)\<rparr>) PROBES_WEIGHT M_TAG_RELATION False,
     knob ''tag_relation_cooc_ref'' (\<lambda>p v. p\<lparr>tag_relation_cooc_ref := max 1 (tag_relation_cooc_ref p + v)\<rparr>) PROBES_COOC_REF M_TAG_RELATION False,
     knob ''tag_relation_user_cooc_ref'' (\<lambda>p v. p\<lparr>tag_relation_user_cooc_ref := max 1 (tag_relation_user_cooc_ref p + v)\<rparr>) PROBES_COOC_REF M_TAG_RELATION False,
     knob ''tag_relation_max_tags'' (\<lambda>p v. p\<lparr>tag_relation_max_tags := nat (int_step 5 50 (int (tag_relation_max_tags p)) v)\<rparr>) [- 5, - 2, 2, 5] M_TAG_RELATION False]"

definition constant_knobs :: "KnobSpec list" where
  "constant_knobs = [knob ''idf_rsj_smoothing'' (\<lambda>p v. p\<lparr>idf_rsj_smoothing := clamp (5 / 100) 5 (idf_rsj_smoothing p + v)\<rparr>) PROBES_RSJ M_SIM False,
     knob ''coldstart_smoothing_boost'' (\<lambda>p v. p\<lparr>coldstart_smoothing_boost := clamp 0 10 (coldstart_smoothing_boost p + v)\<rparr>) PROBES_BOOST M_BOOST False]"

definition group_knobs :: "KnobSpec list" where
  "group_knobs = [knob ''group_w_artist'' (\<lambda>p v. p\<lparr>group_w_artist := max 0 (group_w_artist p + v)\<rparr>) PROBES_GROUP_W M_GROUP_W False,
     knob ''group_w_character'' (\<lambda>p v. p\<lparr>group_w_character := max 0 (group_w_character p + v)\<rparr>) PROBES_GROUP_W M_GROUP_W False,
     knob ''group_w_copyright'' (\<lambda>p v. p\<lparr>group_w_copyright := max 0 (group_w_copyright p + v)\<rparr>) PROBES_GROUP_W M_GROUP_W False,
     knob ''group_w_species'' (\<lambda>p v. p\<lparr>group_w_species := max 0 (group_w_species p + v)\<rparr>) PROBES_GROUP_W M_GROUP_W False,
     knob ''group_w_general'' (\<lambda>p v. p\<lparr>group_w_general := max (1 / 10) (group_w_general p + v)\<rparr>) PROBES_GROUP_W_LORE M_GROUP_W False,
     knob ''group_w_lore'' (\<lambda>p v. p\<lparr>group_w_lore := max 0 (group_w_lore p + v)\<rparr>) PROBES_GROUP_W_LORE M_GROUP_W False]"

definition shape_knobs :: "KnobSpec list" where
  "shape_knobs = [knob ''score_temperature'' (\<lambda>p v. p\<lparr>score_temperature := max 0 (score_temperature p + v)\<rparr>) PROBES_TEMP M_NONE False,
     knob ''confidence_steepness'' (\<lambda>p v. p\<lparr>confidence_steepness := clamp (1 / 10) 5 (confidence_steepness p + v)\<rparr>) PROBES_STEEP M_CONFIDENCE_DERIVED False,
     knob ''mmr_redundancy_exp'' (\<lambda>p v. p\<lparr>mmr_redundancy_exp := clamp (1 / 10) 5 (mmr_redundancy_exp p + v)\<rparr>) PROBES_MMR_EXP M_NONE True,
     knob ''tag_sim_jaccard_blend'' (\<lambda>p v. p\<lparr>tag_sim_jaccard_blend := clamp 0 1 (tag_sim_jaccard_blend p + v)\<rparr>) PROBES_JAC_BLEND M_SIM False,
     knob ''exploration_epsilon'' (\<lambda>p v. p\<lparr>exploration_epsilon := clamp 0 (5 / 10) (exploration_epsilon p + v)\<rparr>) PROBES_SMALL_FRACTION M_NONE False]"

definition split_knobs :: "KnobSpec list" where
  "split_knobs = [knob ''idf_lambda_meta'' (\<lambda>p v. p\<lparr>idf_lambda_meta := Some (clamp 0 (15 / 10) (or_parent (idf_lambda_meta p) (idf_lambda p) + v))\<rparr>) PROBES_FRACTION M_SIM False,
     knob ''recency_tau_recent'' (\<lambda>p v. p\<lparr>recency_tau_recent := Some (max (5 / 10) (or_parent (recency_tau_recent p) (recency_tau_days p) + v))\<rparr>) PROBES_TAU_RECENT M_RECENCY False,
     knob ''tag_relation_pmi_scale_user'' (\<lambda>p v. p\<lparr>tag_relation_pmi_scale_user := Some (max 1 (or_parent (tag_relation_pmi_scale_user p) (tag_relation_pmi_scale p) + v))\<rparr>) PROBES_PMI M_TAG_RELATION False,
     knob ''recency_tau_hot'' (\<lambda>p v. p\<lparr>recency_tau_hot := Some (max (1 / 10) (or_parent (recency_tau_hot p) (or_parent (recency_tau_recent p) (recency_tau_days p)) + v))\<rparr>) PROBES_TAU_HOT M_RECENCY False,
     knob ''recency_split_age_hours'' (\<lambda>p v. p\<lparr>recency_split_age_hours := clamp 1 168 (recency_split_age_hours p + v)\<rparr>) PROBES_HOURS M_RECENCY False]"

definition cooc_knobs :: "KnobSpec list" where
  "cooc_knobs = [knob ''tag_relation_min_cooc'' (\<lambda>p v. p\<lparr>tag_relation_min_cooc := int_step 2 20 (tag_relation_min_cooc p) v\<rparr>) PROBES_INT_TINY M_TAG_RELATION False,
     knob ''tag_relation_user_min_cooc'' (\<lambda>p v. p\<lparr>tag_relation_user_min_cooc := int_step 2 10 (tag_relation_user_min_cooc p) v\<rparr>) PROBES_INT_TINY M_TAG_RELATION False,
     knob ''recency_split_age_days'' (\<lambda>p v. p\<lparr>recency_split_age_days := clamp 1 365 (recency_split_age_days p + v)\<rparr>) PROBES_SPLIT_AGE M_RECENCY False]"

definition diversity_knobs :: "KnobSpec list" where
  "diversity_knobs = [knob ''diversity_window'' (\<lambda>p v. p\<lparr>diversity_window := nat (int_step 1 256 (int (diversity_window p)) v)\<rparr>) PROBES_DIV_WINDOW M_NONE True,
     knob ''diversity_w_artist'' (\<lambda>p v. p\<lparr>diversity_w_artist := clamp 0 1 (diversity_w_artist p + v)\<rparr>) PROBES_DIV_W M_NONE True,
     knob ''diversity_w_character'' (\<lambda>p v. p\<lparr>diversity_w_character := clamp 0 1 (diversity_w_character p + v)\<rparr>) PROBES_DIV_W M_NONE True,
     knob ''diversity_w_copyright'' (\<lambda>p v. p\<lparr>diversity_w_copyright := clamp 0 10 (diversity_w_copyright p + v)\<rparr>) PROBES_DIV_W M_NONE True,
     knob ''diversity_w_species'' (\<lambda>p v. p\<lparr>diversity_w_species := clamp 0 10 (diversity_w_species p + v)\<rparr>) PROBES_DIV_W M_NONE True,
     knob ''diversity_w_general'' (\<lambda>p v. p\<lparr>diversity_w_general := clamp 0 1 (diversity_w_general p + v)\<rparr>) PROBES_DIV_W M_NONE True,
     knob ''diversity_max_penalty'' (\<lambda>p v. p\<lparr>diversity_max_penalty := clamp 0 1 (diversity_max_penalty p + v)\<rparr>) PROBES_DIV_PENALTY M_NONE True,
     knob ''diversity_semantic_blend'' (\<lambda>p v. p\<lparr>diversity_semantic_blend := clamp 0 1 (diversity_semantic_blend p + v)\<rparr>) [- (1 / 10), - (5 / 100), 5 / 100, 1 / 10] M_NONE True,
     knob ''diversity_pmi_threshold'' (\<lambda>p v. p\<lparr>diversity_pmi_threshold := clamp 0 5 (diversity_pmi_threshold p + v)\<rparr>) [- (5 / 10), - (2 / 10), 2 / 10, 5 / 10] M_NONE True,
     knob ''diversity_semantic_max_tags'' (\<lambda>p v. p\<lparr>diversity_semantic_max_tags := nat (int_step 1 50 (int (diversity_semantic_max_tags p)) v)\<rparr>) [- 3, - 1, 1, 3] M_NONE True]"

definition late_knobs :: "KnobSpec list" where
  "late_knobs = [knob ''exclusivity_cross_group_weight'' (\<lambda>p v. p\<lparr>exclusivity_cross_group_weight := clamp (1 / 10) 10 (exclusivity_cross_group_weight p + v)\<rparr>) [25 / 100, 5 / 10, 1, 2, 5] M_EXCLUSIVITY False,
     knob ''diversity_user_pmi_weight'' (\<lambda>p v. p\<lparr>diversity_user_pmi_weight := clamp (1 / 10) 10 (diversity_user_pmi_weight p + v)\<rparr>) [5 / 10, 1, 2, 5] M_NONE True]"

definition GRID_KNOBS :: "KnobSpec list" where
  "GRID_KNOBS = mix_knobs @ idf_knobs @ quality_knobs @ recency_knobs @ popularity_knobs @ uploader_knobs @ exclusivity_knobs @ novelty_knobs @ discrete_knobs @ relation_knobs @ constant_knobs @ group_knobs @ shape_knobs @ split_knobs @ cooc_knobs @ diversity_knobs @ late_knobs"

definition MIX_ONLY_KNOBS :: "KnobSpec list" where
  "MIX_ONLY_KNOBS = mix_knobs"

definition PAIRED_KNOBS :: "(string \<times> string) list" where
  "PAIRED_KNOBS = [(''idf_lambda'', ''idf_alpha''),
     (''idf_lambda'', ''freq_alpha''),
     (''idf_alpha'', ''freq_alpha''),
     (''df_floor'', ''idf_max''),
     (''tag_relation_w_global'', ''tag_relation_w_personal''),
     (''recency_w_global'', ''recency_w_personal''),
     (''popularity_w_fav'', ''popularity_w_duration''),
     (''bm25_k'', ''freq_alpha''),
     (''tag_relation_min_cooc'', ''tag_relation_cooc_ref''),
     (''tag_relation_user_min_cooc'', ''tag_relation_user_cooc_ref''),
     (''recency_tau_recent'', ''recency_split_age_days''),
     (''diversity_w_artist'', ''diversity_w_character''),
     (''diversity_w_copyright'', ''diversity_w_species''),
     (''diversity_w_general'', ''diversity_window''),
     (''diversity_max_penalty'', ''diversity_interaction_damp''),
     (''recency_tau_hot'', ''recency_split_age_hours''),
     (''mix_exclusivity'', ''exclusivity_scale''),
     (''mix_novelty'', ''novelty_n0''),
     (''diversity_semantic_blend'', ''diversity_pmi_threshold''),
     (''diversity_semantic_blend'', ''diversity_semantic_max_tags''),
     (''mix_exclusivity'', ''exclusivity_cross_group_weight''),
     (''diversity_semantic_blend'', ''diversity_user_pmi_weight''),
     (''mix_artist_discovery'', ''artist_discovery_n0'')]"

definition PASS_SCALES :: "f32 list" where "PASS_SCALES = [1, 5 / 10, 25 / 100]"

record CategoricalKnob =
  ck_name :: string
  ck_candidates :: "string list"
  ck_apply :: "Priors \<Rightarrow> string \<Rightarrow> Priors"
  ck_invalidates :: channel_mask

definition CATEGORICAL_KNOBS :: "CategoricalKnob list" where
  "CATEGORICAL_KNOBS =
     [\<lparr>ck_name = ''tag_relation_pair_aggregator'', ck_candidates = [''mean'', ''max'', ''geomean''],
       ck_apply = (\<lambda>p v. p\<lparr>tag_relation_pair_aggregator := lit v\<rparr>), ck_invalidates = M_TAG_RELATION\<rparr>,
      \<lparr>ck_name = ''novelty_use_feedback'', ck_candidates = [''true'', ''false''],
       ck_apply = (\<lambda>p v. p\<lparr>novelty_use_feedback := (v = ''true'')\<rparr>), ck_invalidates = M_NOVELTY\<rparr>]"

section \<open>Masks\<close>

text \<open>Which channels a mask holds.\<close>

lemma masked_simps [simp]:
  "\<not> masked M_NONE M_SIM" "\<not> masked M_NONE M_QUALITY" "\<not> masked M_NONE M_RECENCY" "\<not> masked M_NONE M_RATING"
  "\<not> masked M_NONE M_MEDIA" "\<not> masked M_NONE M_POPULARITY" "\<not> masked M_NONE M_TAG_RELATION" "\<not> masked M_NONE M_UPLOADER"
  "\<not> masked M_NONE M_EXCLUSIVITY" "\<not> masked M_NONE M_NOVELTY" "\<not> masked M_NONE M_ARTIST_DISCOVERY"
  "masked M_SIM M_SIM" "\<not> masked M_SIM M_QUALITY" "\<not> masked M_SIM M_RECENCY" "\<not> masked M_SIM M_RATING"
  "\<not> masked M_SIM M_MEDIA" "\<not> masked M_SIM M_POPULARITY" "\<not> masked M_SIM M_TAG_RELATION" "\<not> masked M_SIM M_UPLOADER"
  "\<not> masked M_SIM M_EXCLUSIVITY" "\<not> masked M_SIM M_NOVELTY" "\<not> masked M_SIM M_ARTIST_DISCOVERY"
  "\<not> masked M_QUALITY M_SIM" "masked M_QUALITY M_QUALITY" "\<not> masked M_QUALITY M_RECENCY" "\<not> masked M_QUALITY M_RATING"
  "\<not> masked M_QUALITY M_MEDIA" "\<not> masked M_QUALITY M_POPULARITY" "\<not> masked M_QUALITY M_TAG_RELATION" "\<not> masked M_QUALITY M_UPLOADER"
  "\<not> masked M_QUALITY M_EXCLUSIVITY" "\<not> masked M_QUALITY M_NOVELTY" "\<not> masked M_QUALITY M_ARTIST_DISCOVERY"
  "\<not> masked M_RECENCY M_SIM" "\<not> masked M_RECENCY M_QUALITY" "masked M_RECENCY M_RECENCY" "\<not> masked M_RECENCY M_RATING"
  "\<not> masked M_RECENCY M_MEDIA" "\<not> masked M_RECENCY M_POPULARITY" "\<not> masked M_RECENCY M_TAG_RELATION" "\<not> masked M_RECENCY M_UPLOADER"
  "\<not> masked M_RECENCY M_EXCLUSIVITY" "\<not> masked M_RECENCY M_NOVELTY" "\<not> masked M_RECENCY M_ARTIST_DISCOVERY"
  "\<not> masked M_POPULARITY M_SIM" "\<not> masked M_POPULARITY M_QUALITY" "\<not> masked M_POPULARITY M_RECENCY" "\<not> masked M_POPULARITY M_RATING"
  "\<not> masked M_POPULARITY M_MEDIA" "masked M_POPULARITY M_POPULARITY" "\<not> masked M_POPULARITY M_TAG_RELATION" "\<not> masked M_POPULARITY M_UPLOADER"
  "\<not> masked M_POPULARITY M_EXCLUSIVITY" "\<not> masked M_POPULARITY M_NOVELTY" "\<not> masked M_POPULARITY M_ARTIST_DISCOVERY"
  "\<not> masked M_TAG_RELATION M_SIM" "\<not> masked M_TAG_RELATION M_QUALITY" "\<not> masked M_TAG_RELATION M_RECENCY" "\<not> masked M_TAG_RELATION M_RATING"
  "\<not> masked M_TAG_RELATION M_MEDIA" "\<not> masked M_TAG_RELATION M_POPULARITY" "masked M_TAG_RELATION M_TAG_RELATION" "\<not> masked M_TAG_RELATION M_UPLOADER"
  "\<not> masked M_TAG_RELATION M_EXCLUSIVITY" "\<not> masked M_TAG_RELATION M_NOVELTY" "\<not> masked M_TAG_RELATION M_ARTIST_DISCOVERY"
  "\<not> masked M_UPLOADER M_SIM" "\<not> masked M_UPLOADER M_QUALITY" "\<not> masked M_UPLOADER M_RECENCY" "\<not> masked M_UPLOADER M_RATING"
  "\<not> masked M_UPLOADER M_MEDIA" "\<not> masked M_UPLOADER M_POPULARITY" "\<not> masked M_UPLOADER M_TAG_RELATION" "masked M_UPLOADER M_UPLOADER"
  "\<not> masked M_UPLOADER M_EXCLUSIVITY" "\<not> masked M_UPLOADER M_NOVELTY" "\<not> masked M_UPLOADER M_ARTIST_DISCOVERY"
  "\<not> masked M_EXCLUSIVITY M_SIM" "\<not> masked M_EXCLUSIVITY M_QUALITY" "\<not> masked M_EXCLUSIVITY M_RECENCY" "\<not> masked M_EXCLUSIVITY M_RATING"
  "\<not> masked M_EXCLUSIVITY M_MEDIA" "\<not> masked M_EXCLUSIVITY M_POPULARITY" "\<not> masked M_EXCLUSIVITY M_TAG_RELATION" "\<not> masked M_EXCLUSIVITY M_UPLOADER"
  "masked M_EXCLUSIVITY M_EXCLUSIVITY" "\<not> masked M_EXCLUSIVITY M_NOVELTY" "\<not> masked M_EXCLUSIVITY M_ARTIST_DISCOVERY"
  "\<not> masked M_NOVELTY M_SIM" "\<not> masked M_NOVELTY M_QUALITY" "\<not> masked M_NOVELTY M_RECENCY" "\<not> masked M_NOVELTY M_RATING"
  "\<not> masked M_NOVELTY M_MEDIA" "\<not> masked M_NOVELTY M_POPULARITY" "\<not> masked M_NOVELTY M_TAG_RELATION" "\<not> masked M_NOVELTY M_UPLOADER"
  "\<not> masked M_NOVELTY M_EXCLUSIVITY" "masked M_NOVELTY M_NOVELTY" "\<not> masked M_NOVELTY M_ARTIST_DISCOVERY"
  "\<not> masked M_ARTIST_DISCOVERY M_SIM" "\<not> masked M_ARTIST_DISCOVERY M_QUALITY" "\<not> masked M_ARTIST_DISCOVERY M_RECENCY" "\<not> masked M_ARTIST_DISCOVERY M_RATING"
  "\<not> masked M_ARTIST_DISCOVERY M_MEDIA" "\<not> masked M_ARTIST_DISCOVERY M_POPULARITY" "\<not> masked M_ARTIST_DISCOVERY M_TAG_RELATION" "\<not> masked M_ARTIST_DISCOVERY M_UPLOADER"
  "\<not> masked M_ARTIST_DISCOVERY M_EXCLUSIVITY" "\<not> masked M_ARTIST_DISCOVERY M_NOVELTY" "masked M_ARTIST_DISCOVERY M_ARTIST_DISCOVERY"
  "\<not> masked M_CONFIDENCE_DERIVED M_SIM" "\<not> masked M_CONFIDENCE_DERIVED M_QUALITY" "masked M_CONFIDENCE_DERIVED M_RECENCY" "masked M_CONFIDENCE_DERIVED M_RATING"
  "masked M_CONFIDENCE_DERIVED M_MEDIA" "\<not> masked M_CONFIDENCE_DERIVED M_POPULARITY" "masked M_CONFIDENCE_DERIVED M_TAG_RELATION" "\<not> masked M_CONFIDENCE_DERIVED M_UPLOADER"
  "\<not> masked M_CONFIDENCE_DERIVED M_EXCLUSIVITY" "\<not> masked M_CONFIDENCE_DERIVED M_NOVELTY" "\<not> masked M_CONFIDENCE_DERIVED M_ARTIST_DISCOVERY"
  "\<not> masked M_DISCRETE M_SIM" "\<not> masked M_DISCRETE M_QUALITY" "\<not> masked M_DISCRETE M_RECENCY" "masked M_DISCRETE M_RATING"
  "masked M_DISCRETE M_MEDIA" "\<not> masked M_DISCRETE M_POPULARITY" "\<not> masked M_DISCRETE M_TAG_RELATION" "\<not> masked M_DISCRETE M_UPLOADER"
  "\<not> masked M_DISCRETE M_EXCLUSIVITY" "\<not> masked M_DISCRETE M_NOVELTY" "\<not> masked M_DISCRETE M_ARTIST_DISCOVERY"
  "masked M_BOOST M_SIM" "\<not> masked M_BOOST M_QUALITY" "\<not> masked M_BOOST M_RECENCY" "masked M_BOOST M_RATING"
  "masked M_BOOST M_MEDIA" "\<not> masked M_BOOST M_POPULARITY" "\<not> masked M_BOOST M_TAG_RELATION" "\<not> masked M_BOOST M_UPLOADER"
  "\<not> masked M_BOOST M_EXCLUSIVITY" "\<not> masked M_BOOST M_NOVELTY" "\<not> masked M_BOOST M_ARTIST_DISCOVERY"
  "\<not> masked M_RATIO_EXP M_SIM" "masked M_RATIO_EXP M_QUALITY" "\<not> masked M_RATIO_EXP M_RECENCY" "\<not> masked M_RATIO_EXP M_RATING"
  "\<not> masked M_RATIO_EXP M_MEDIA" "masked M_RATIO_EXP M_POPULARITY" "\<not> masked M_RATIO_EXP M_TAG_RELATION" "\<not> masked M_RATIO_EXP M_UPLOADER"
  "\<not> masked M_RATIO_EXP M_EXCLUSIVITY" "\<not> masked M_RATIO_EXP M_NOVELTY" "\<not> masked M_RATIO_EXP M_ARTIST_DISCOVERY"
  "masked M_GROUP_W M_SIM" "\<not> masked M_GROUP_W M_QUALITY" "\<not> masked M_GROUP_W M_RECENCY" "\<not> masked M_GROUP_W M_RATING"
  "\<not> masked M_GROUP_W M_MEDIA" "\<not> masked M_GROUP_W M_POPULARITY" "masked M_GROUP_W M_TAG_RELATION" "\<not> masked M_GROUP_W M_UPLOADER"
  "\<not> masked M_GROUP_W M_EXCLUSIVITY" "\<not> masked M_GROUP_W M_NOVELTY" "\<not> masked M_GROUP_W M_ARTIST_DISCOVERY"
  by (simp_all add: masked_def mask_defs)

text \<open>The knobs whose mask leaves out a channel that reads them.\<close>

definition stale_knobs :: "string list" where
  "stale_knobs =
     [''idf_lambda'', ''idf_alpha'', ''freq_alpha'', ''df_floor'', ''idf_max'', ''bm25_k'', ''one_sided_ratio_exp'',
      ''idf_rsj_smoothing'', ''coldstart_smoothing_boost'', ''confidence_steepness'', ''group_w_artist'',
      ''group_w_character'', ''group_w_copyright'', ''group_w_species'', ''group_w_general'', ''group_w_lore'']"

definition knob_covered :: "KnobSpec \<Rightarrow> bool" where
  "knob_covered k \<longleftrightarrow> (\<forall>p v. mask_covers p (kn_apply k p v) (kn_invalidates k))"

lemmas reads_defs = vector_fields_def group_fields_def confidence_fields_def reads_quality_def reads_recency_def
  reads_discrete_def reads_popularity_def reads_relation_def reads_uploader_def reads_exclusivity_def reads_novelty_def
  reads_discovery_def reads_sim_def

lemma mix_knobs_covered: "list_all knob_covered mix_knobs"
  by (simp only: mix_knobs_def list.pred_inject knob_covered_def knob_simps, intro conjI allI TrueI)
    (simp_all add: mask_covers_def reads_defs)

lemma idf_knobs_stale: "list_all (\<lambda>k. kn_name k \<in> set stale_knobs) idf_knobs"
  by (simp add: idf_knobs_def stale_knobs_def)

lemma quality_knobs_covered: "list_all knob_covered quality_knobs"
  by (simp only: quality_knobs_def list.pred_inject knob_covered_def knob_simps, intro conjI allI TrueI)
    (simp_all add: mask_covers_def reads_defs)

lemma recency_knobs_covered: "list_all knob_covered recency_knobs"
  by (simp only: recency_knobs_def list.pred_inject knob_covered_def knob_simps, intro conjI allI TrueI)
    (simp_all add: mask_covers_def reads_defs)

lemma popularity_knobs_covered: "list_all knob_covered popularity_knobs"
  by (simp only: popularity_knobs_def list.pred_inject knob_covered_def knob_simps, intro conjI allI TrueI)
    (simp_all add: mask_covers_def reads_defs)

lemma uploader_knobs_covered: "list_all knob_covered uploader_knobs"
  by (simp only: uploader_knobs_def list.pred_inject knob_covered_def knob_simps, intro conjI allI TrueI)
    (simp_all add: mask_covers_def reads_defs)

lemma exclusivity_knobs_covered: "list_all knob_covered exclusivity_knobs"
  by (simp only: exclusivity_knobs_def list.pred_inject knob_covered_def knob_simps, intro conjI allI TrueI)
    (simp_all add: mask_covers_def reads_defs)

lemma novelty_knobs_covered: "list_all knob_covered novelty_knobs"
  by (simp only: novelty_knobs_def list.pred_inject knob_covered_def knob_simps, intro conjI allI TrueI)
    (simp_all add: mask_covers_def reads_defs)

lemma discrete_knobs_covered: "list_all knob_covered discrete_knobs"
  by (simp only: discrete_knobs_def list.pred_inject knob_covered_def knob_simps, intro conjI allI TrueI)
    (simp_all add: mask_covers_def reads_defs)

lemma relation_knobs_covered: "list_all knob_covered relation_knobs"
  by (simp only: relation_knobs_def list.pred_inject knob_covered_def knob_simps, intro conjI allI TrueI)
    (simp_all add: mask_covers_def reads_defs)

lemma constant_knobs_stale: "list_all (\<lambda>k. kn_name k \<in> set stale_knobs) constant_knobs"
  by (simp add: constant_knobs_def stale_knobs_def)

lemma group_knobs_stale: "list_all (\<lambda>k. kn_name k \<in> set stale_knobs) group_knobs"
  by (simp add: group_knobs_def stale_knobs_def)

lemma shape_knobs_covered: "list_all (\<lambda>k. kn_name k \<in> set stale_knobs \<or> knob_covered k) shape_knobs"
  by (simp only: shape_knobs_def list.pred_inject knob_covered_def knob_simps, intro conjI allI TrueI)
    (simp_all add: stale_knobs_def mask_covers_def reads_defs)

lemma split_knobs_covered: "list_all knob_covered split_knobs"
  by (simp only: split_knobs_def list.pred_inject knob_covered_def knob_simps, intro conjI allI TrueI)
    (simp_all add: mask_covers_def reads_defs)

lemma cooc_knobs_covered: "list_all knob_covered cooc_knobs"
  by (simp only: cooc_knobs_def list.pred_inject knob_covered_def knob_simps, intro conjI allI TrueI)
    (simp_all add: mask_covers_def reads_defs)

lemma diversity_knobs_covered: "list_all knob_covered diversity_knobs"
  by (simp only: diversity_knobs_def list.pred_inject knob_covered_def knob_simps, intro conjI allI TrueI)
    (simp_all add: mask_covers_def reads_defs)

lemma late_knobs_covered: "list_all knob_covered late_knobs"
  by (simp only: late_knobs_def list.pred_inject knob_covered_def knob_simps, intro conjI allI TrueI)
    (simp_all add: mask_covers_def reads_defs)

lemma grid_knob_covered:
  assumes "k \<in> set GRID_KNOBS" "kn_name k \<notin> set stale_knobs"
  shows "knob_covered k"
  using assms mix_knobs_covered idf_knobs_stale quality_knobs_covered recency_knobs_covered popularity_knobs_covered uploader_knobs_covered exclusivity_knobs_covered novelty_knobs_covered discrete_knobs_covered relation_knobs_covered constant_knobs_stale group_knobs_stale shape_knobs_covered split_knobs_covered cooc_knobs_covered diversity_knobs_covered late_knobs_covered
  unfolding GRID_KNOBS_def set_append Un_iff list_all_iff by blast

section \<open>Probes are exact\<close>

lemma mask_covers_now: "mask_covers (p\<lparr>priors_now := n\<rparr>) (q\<lparr>priors_now := n\<rparr>) msk = mask_covers p q msk"
  by (simp add: mask_covers_def reads_defs)

lemma covered_probe:
  assumes "knob_covered k" "no_collision to_bits (p\<lparr>priors_now := now\<rparr>) ((kn_apply k p v)\<lparr>priors_now := now\<rparr>)"
    and "prev = snd (score_with_cache to_bits ds p now k1' k2' d' None m)"
  shows "score_with_cache to_bits ds (kn_apply k p v) now k1 k2 d (Some prev) (kn_invalidates k) =
    score_with_cache to_bits ds (kn_apply k p v) now k1 k2 d None M_ALL"
proof (rule probe_is_full_rebuild)
  show "mask_covers (p\<lparr>priors_now := now\<rparr>) ((kn_apply k p v)\<lparr>priors_now := now\<rparr>) (kn_invalidates k)"
    using assms(1) by (simp add: mask_covers_now knob_covered_def)
qed (use assms in auto)

definition otter_tag :: ustr where "otter_tag = lit ''otter''"
definition lake_tag :: ustr where "lake_tag = lit ''lake''"
definition new_tag :: ustr where "new_tag = lit ''artist''"

lemma otter_tags: "normalize_tag otter_tag = otter_tag" "lake_tag \<noteq> otter_tag"
  by code_simp+

text \<open>A fixture: an account with one favourite species, a candidate of that species with a general tag and
  an artist the account does not know.\<close>

definition otter_features :: CachedPostFeatures where
  "otter_features = \<lparr>cf_id = 1, cf_uploader_id = 7, cf_created_at = 0, cf_score_total = 0, cf_score_up = 0, cf_score_down = 0,
     cf_fav_count = 0, cf_comment_count = 0, cf_duration = 0, cf_rating = S, cf_media_type = lit ''image'',
     cf_tags =
       [\<lparr>ct_group = Artist, ct_lc = new_tag, ct_df_raw = 0, ct_global_tid = None, ct_user_tid = None\<rparr>,
        \<lparr>ct_group = Species, ct_lc = otter_tag, ct_df_raw = 0, ct_global_tid = None, ct_user_tid = None\<rparr>,
        \<lparr>ct_group = General, ct_lc = lake_tag, ct_df_raw = 0, ct_global_tid = None, ct_user_tid = None\<rparr>]\<rparr>"

definition otter_account :: AccountFixture where
  "otter_account = \<lparr>fx_profile = empty_profile,
     fx_tags = [\<lparr>tc_name = otter_tag, tc_group_type = group_name Species, tc_count = 3\<rparr>],
     fx_test_features = [otter_features], fx_neg_features = [], fx_diversity_features = [],
     fx_user_relation = empty_graph, fx_test_count = 1\<rparr>"

definition otter_dataset :: EvalDataset where
  "otter_dataset = \<lparr>ds_idf = empty_index, ds_global_relation = empty_graph, ds_accounts = [otter_account]\<rparr>"

text \<open>C37. The grid scores a probe from the cache of the configuration it starts from.  For every knob whose
  mask is complete that gives the metrics and the cache of a full rebuild under the probed parameters,
  on every dataset and with or without the diversifier.\<close>

theorem grid_probe_exact:
  assumes "k \<in> set GRID_KNOBS" "kn_name k \<notin> set stale_knobs"
    and "no_collision to_bits (p\<lparr>priors_now := now\<rparr>) ((kn_apply k p v)\<lparr>priors_now := now\<rparr>)"
    and "prev = snd (score_with_cache to_bits ds p now k1' k2' d' None m)"
  shows "score_with_cache to_bits ds (kn_apply k p v) now k1 k2 d (Some prev) (kn_invalidates k) =
    score_with_cache to_bits ds (kn_apply k p v) now k1 k2 d None M_ALL"
  by (rule covered_probe [OF grid_knob_covered [OF assms(1,2)] assms(3,4)])

lemma no_collision_mix: "no_collision to_bits (p\<lparr>priors_now := now\<rparr>) (p\<lparr>mix_sim := x, priors_now := now\<rparr>)"
  by (simp add: no_collision_def fingerprint_fields_def split: option.split)

theorem grid_probe_exact_witness:
  "let k = hd mix_knobs; p = priors_default 0; q = kn_apply k p (5 / 10) in
   score_with_cache (\<lambda>_. 0) otter_dataset q 9 20 50 True
     (Some (snd (score_with_cache (\<lambda>_. 0) otter_dataset p 9 20 50 True None M_ALL))) (kn_invalidates k) =
   score_with_cache (\<lambda>_. 0) otter_dataset q 9 20 50 True None M_ALL"
  unfolding Let_def
proof (rule grid_probe_exact)
  have k: "hd mix_knobs \<in> set mix_knobs" "kn_name (hd mix_knobs) = ''mix_sim''"
    "kn_apply (hd mix_knobs) = (\<lambda>p v. p\<lparr>mix_sim := max 0 (mix_sim p * (1 + v))\<rparr>)" by (simp_all add: mix_knobs_def)
  then show "hd mix_knobs \<in> set GRID_KNOBS" "kn_name (hd mix_knobs) \<notin> set stale_knobs"
    by (simp_all add: GRID_KNOBS_def stale_knobs_def)
  show "no_collision (\<lambda>_. 0) ((priors_default 0)\<lparr>priors_now := 9\<rparr>)
      ((kn_apply (hd mix_knobs) (priors_default 0) (5 / 10))\<lparr>priors_now := 9\<rparr>)"
    by (simp only: k no_collision_mix)
qed (rule refl)

section \<open>Weights the grid cannot switch on\<close>

text \<open>The three channels whose weight is zero by default, and the knobs: a relative probe keeps zero at
  zero, and no other knob touches the weights.\<close>

definition off_channels :: "Priors \<Rightarrow> bool" where
  "off_channels p \<longleftrightarrow> mix_exclusivity p = 0 \<and> mix_novelty p = 0 \<and> mix_artist_discovery p = 0"

definition keeps_off :: "KnobSpec \<Rightarrow> bool" where
  "keeps_off k \<longleftrightarrow> (\<forall>p v. off_channels p \<longrightarrow> off_channels (kn_apply k p v))"

lemma mix_knobs_keep_off: "list_all keeps_off mix_knobs"
  by (simp only: mix_knobs_def list.pred_inject keeps_off_def knob_simps, intro conjI allI TrueI impI)
    (simp_all add: off_channels_def)

lemma idf_knobs_keep_off: "list_all keeps_off idf_knobs"
  by (simp only: idf_knobs_def list.pred_inject keeps_off_def knob_simps, intro conjI allI TrueI impI)
    (simp_all add: off_channels_def)

lemma quality_knobs_keep_off: "list_all keeps_off quality_knobs"
  by (simp only: quality_knobs_def list.pred_inject keeps_off_def knob_simps, intro conjI allI TrueI impI)
    (simp_all add: off_channels_def)

lemma recency_knobs_keep_off: "list_all keeps_off recency_knobs"
  by (simp only: recency_knobs_def list.pred_inject keeps_off_def knob_simps, intro conjI allI TrueI impI)
    (simp_all add: off_channels_def)

lemma popularity_knobs_keep_off: "list_all keeps_off popularity_knobs"
  by (simp only: popularity_knobs_def list.pred_inject keeps_off_def knob_simps, intro conjI allI TrueI impI)
    (simp_all add: off_channels_def)

lemma uploader_knobs_keep_off: "list_all keeps_off uploader_knobs"
  by (simp only: uploader_knobs_def list.pred_inject keeps_off_def knob_simps, intro conjI allI TrueI impI)
    (simp_all add: off_channels_def)

lemma exclusivity_knobs_keep_off: "list_all keeps_off exclusivity_knobs"
  by (simp only: exclusivity_knobs_def list.pred_inject keeps_off_def knob_simps, intro conjI allI TrueI impI)
    (simp_all add: off_channels_def)

lemma novelty_knobs_keep_off: "list_all keeps_off novelty_knobs"
  by (simp only: novelty_knobs_def list.pred_inject keeps_off_def knob_simps, intro conjI allI TrueI impI)
    (simp_all add: off_channels_def)

lemma discrete_knobs_keep_off: "list_all keeps_off discrete_knobs"
  by (simp only: discrete_knobs_def list.pred_inject keeps_off_def knob_simps, intro conjI allI TrueI impI)
    (simp_all add: off_channels_def)

lemma relation_knobs_keep_off: "list_all keeps_off relation_knobs"
  by (simp only: relation_knobs_def list.pred_inject keeps_off_def knob_simps, intro conjI allI TrueI impI)
    (simp_all add: off_channels_def)

lemma constant_knobs_keep_off: "list_all keeps_off constant_knobs"
  by (simp only: constant_knobs_def list.pred_inject keeps_off_def knob_simps, intro conjI allI TrueI impI)
    (simp_all add: off_channels_def)

lemma group_knobs_keep_off: "list_all keeps_off group_knobs"
  by (simp only: group_knobs_def list.pred_inject keeps_off_def knob_simps, intro conjI allI TrueI impI)
    (simp_all add: off_channels_def)

lemma shape_knobs_keep_off: "list_all keeps_off shape_knobs"
  by (simp only: shape_knobs_def list.pred_inject keeps_off_def knob_simps, intro conjI allI TrueI impI)
    (simp_all add: off_channels_def)

lemma split_knobs_keep_off: "list_all keeps_off split_knobs"
  by (simp only: split_knobs_def list.pred_inject keeps_off_def knob_simps, intro conjI allI TrueI impI)
    (simp_all add: off_channels_def)

lemma cooc_knobs_keep_off: "list_all keeps_off cooc_knobs"
  by (simp only: cooc_knobs_def list.pred_inject keeps_off_def knob_simps, intro conjI allI TrueI impI)
    (simp_all add: off_channels_def)

lemma diversity_knobs_keep_off: "list_all keeps_off diversity_knobs"
  by (simp only: diversity_knobs_def list.pred_inject keeps_off_def knob_simps, intro conjI allI TrueI impI)
    (simp_all add: off_channels_def)

lemma late_knobs_keep_off: "list_all keeps_off late_knobs"
  by (simp only: late_knobs_def list.pred_inject keeps_off_def knob_simps, intro conjI allI TrueI impI)
    (simp_all add: off_channels_def)

lemma grid_knobs_keep_off: "k \<in> set GRID_KNOBS \<Longrightarrow> keeps_off k"
  using mix_knobs_keep_off idf_knobs_keep_off quality_knobs_keep_off recency_knobs_keep_off popularity_knobs_keep_off uploader_knobs_keep_off exclusivity_knobs_keep_off novelty_knobs_keep_off discrete_knobs_keep_off relation_knobs_keep_off constant_knobs_keep_off group_knobs_keep_off shape_knobs_keep_off split_knobs_keep_off cooc_knobs_keep_off diversity_knobs_keep_off late_knobs_keep_off
  unfolding GRID_KNOBS_def set_append Un_iff list_all_iff by blast

lemma off_by_default: "off_channels (priors_default now)"
  by (simp add: off_channels_def priors_default_def)

text \<open>A probe of \<open>-1\<close> on the support threshold of the personal graph raises it: the clamp starts at 2,
  above the default of 1.\<close>

theorem both_probes_raise_user_min_cooc:
  "\<forall>k \<in> set cooc_knobs. \<forall>v \<in> set PROBES_INT_TINY. kn_name k = ''tag_relation_user_min_cooc'' \<longrightarrow>
     tag_relation_user_min_cooc (kn_apply k (priors_default now) v) = 2"
  by (simp add: cooc_knobs_def PROBES_INT_TINY_def priors_default_def int_step_def round_f32_def clamp_def)

end
