(* ===== verification/Calibrate_Masks.thy ===== *)
theory Calibrate_Masks
  imports Calibrate_Knobs
begin

text \<open>
  A mask of the registry (\<open>bin/calibrate/knobs.rs\<close>) that is not complete: the probe of a group weight
  reads a channel from the cache that the weight enters.
\<close>

section \<open>Masks that leave out a channel\<close>

lemma discovery_reuse:
  "cs_artist_discovery (recompute_one_post ctx f now (full_channels old f now) M_GROUP_W) = discovery_cached old f"
  by (simp add: recompute_one_post_def full_channels_def)

lemma otter_idf:
  assumes "p = (priors_default 0)\<lparr>group_w_species := g\<rparr>"
  obtains w where "0 < w" "\<And>t. idf_tempered empty_index t (df_floor p) (idf_max p) (idf_rsj_smoothing p) (idf_lambda p) (idf_alpha p) = w"
    "idf_tempered_from_df empty_index 0 (df_floor p) (idf_max p) (idf_rsj_smoothing p) (idf_lambda p) (idf_alpha p) = w"
proof -
  let ?w = "idf_tempered_from_df empty_index 0 (df_floor p) (idf_max p) (idf_rsj_smoothing p) (idf_lambda p) (idf_alpha p)"
  have "0 < ln (34 / 15 :: f32)" "ln (34 / 15 :: f32) \<le> 100" using ln_le_minus_one [of "34 / 15 :: f32"] by simp_all
  then have "0 < ?w"
    by (simp add: assms priors_default_def idf_tempered_from_df_def compute_idf_def empty_index_def Let_def clamp01_def powf_def)
  moreover have "idf_tempered empty_index t (df_floor p) (idf_max p) (idf_rsj_smoothing p) (idf_lambda p) (idf_alpha p) = ?w" for t
  proof -
    have "lookup_df empty_index t = 0" by (simp add: lookup_df_def empty_index_def tbl_get_def)
    then show ?thesis using tempered_from_df [of empty_index t] by metis
  qed
  ultimately show thesis using that by blast
qed

lemma otter_context:
  assumes p: "p = (priors_default 0)\<lparr>group_w_species := g\<rparr>" and "0 < g" and ds: "ds_idf ds = empty_index"
  obtains a where "0 < a" "sc_user (account_context to_bits ds otter_account p) = (\<lambda>_. [])(Species := [(otter_tag, a)])"
    "sc_u_norm (account_context to_bits ds otter_account p) = a"
proof -
  obtain w where w: "0 < w"
    "\<And>t. idf_tempered empty_index t (df_floor p) (idf_max p) (idf_rsj_smoothing p) (idf_lambda p) (idf_alpha p) = w"
    using otter_idf [OF p] by metis
  define a where "a = tag_weight empty_index p otter_tag 3 g"
  have pos: "0 < a"
    using w(1) \<open>0 < g\<close> unfolding a_def tag_weight_def Let_def w(2) by (simp add: p priors_default_def powf_def)
  have wt: "group_w_species p = g" by (simp add: p)
  have user: "tag_vector (fx_tags otter_account) empty_index p = (\<lambda>_. [])(Species := [(otter_tag, a)])"
    using pos \<open>0 < g\<close>
    by (simp add: otter_account_def tag_vector_def add_tag_count_def otter_tags wt Let_def a_def [symmetric] add_weight_def
        entry_weight_def tbl_get_def tbl_insert_def fun_eq_iff)
  have "sq_norm ((\<lambda>_. [])(Species := [(otter_tag, a)])) = a * a" by (simp add: sq_norm_def all_groups_def)
  then have "sc_user (account_context to_bits ds otter_account p) = (\<lambda>_. [])(Species := [(otter_tag, a)])"
    "sc_u_norm (account_context to_bits ds otter_account p) = a"
    using pos by (simp_all add: account_context_def from_base_def new_base_fields ds user) (simp_all add: otter_account_def empty_profile_def)
  then show thesis using that pos by blast
qed

lemma otter_discovery:
  assumes p: "p = (priors_default 0)\<lparr>group_w_species := g\<rparr>" and g: "0 < g" and ds: "ds_idf ds = empty_index"
  shows "discovery_cached (account_context to_bits ds otter_account p) otter_features =
    clamp01 (clamp01 (g / sqrt (g\<^sup>2 + (7 / 10)\<^sup>2)) * (1 / 4) * (115 / 100))"
proof -
  let ?c = "account_context to_bits ds otter_account p"
  obtain a where a: "0 < a" "sc_user ?c = (\<lambda>_. [])(Species := [(otter_tag, a)])" "sc_u_norm ?c = a"
    by (rule otter_context [OF p g ds])
  obtain w where w: "0 < w"
    "idf_tempered_from_df empty_index 0 (df_floor p) (idf_max p) (idf_rsj_smoothing p) (idf_lambda p) (idf_alpha p) = w"
    using otter_idf [OF p] by metis
  have wts: "group_w_species p = g" "group_w_general p = 7 / 10" by (simp_all add: p priors_default_def)
  have lam: "lambda_of p Species = idf_lambda p" "lambda_of p General = idf_lambda p" by (simp_all add: lambda_of_def)
  let ?step = "\<lambda>ct st. if ct_group ct = Artist \<or> ct_group ct = Meta then st else similarity_cached_tag ?c ct st"
  have state: "fold ?step (cf_tags otter_features) (0, 0, 0, 0) = (a * (g * w), (g * w) * (g * w) + (7 / 10 * w) * (7 / 10 * w), 1, 2)"
    using g otter_tags by (simp add: otter_features_def similarity_cached_tag_def wts lam ds w(2) a(2) tbl_get_def add_to_similarity_def)
  have "cosine ?c (a * (g * w)) ((g * w) * (g * w) + (7 / 10 * w) * (7 / 10 * w)) = clamp01 (g / sqrt (g\<^sup>2 + (7 / 10)\<^sup>2))"
  proof -
    have sq: "(g * w) * (g * w) + (7 / 10 * w) * (7 / 10 * w) = w\<^sup>2 * (g\<^sup>2 + (7 / 10)\<^sup>2)"
      by (simp add: power2_eq_square algebra_simps)
    have pos: "0 < w\<^sup>2 * (g\<^sup>2 + (7 / 10)\<^sup>2)" using w(1) g by (simp add: add_pos_pos)
    have "sqrt (w\<^sup>2 * (g\<^sup>2 + (7 / 10)\<^sup>2)) = w * sqrt (g\<^sup>2 + (7 / 10)\<^sup>2)" using w(1) by (simp add: real_sqrt_mult)
    then have "a * (g * w) / (a * sqrt (w\<^sup>2 * (g\<^sup>2 + (7 / 10)\<^sup>2))) = g / sqrt (g\<^sup>2 + (7 / 10)\<^sup>2)" using a(1) w(1) by simp
    then show ?thesis using pos a(1) unfolding cosine_def sq a(3) by simp
  qed
  note cos = this
  have artists: "filter (\<lambda>ct. ct_group ct = Artist) (cf_tags otter_features) =
      [\<lparr>ct_group = Artist, ct_lc = new_tag, ct_df_raw = 0, ct_global_tid = None, ct_user_tid = None\<rparr>]"
    by (simp add: otter_features_def)
  have new: "new_artists ?c [new_tag] = 1" by (simp add: new_artists_def a(2) tbl_get_def)
  have par: "artist_discovery_n0 p = 3" "artist_discovery_novelty_bonus p = 2 / 10" by (simp_all add: p priors_default_def)
  show ?thesis
    unfolding discovery_cached_def Let_def artists state list.map CachedTag.select_convs new discovery_of_def prod.case
      account_context_simps par cos by simp
qed

text \<open>The probe of a group weight reuses the artist discovery channel, whose similarity part weighs the
  groups: at the default parameters the reused value is not the one a full rebuild gives.\<close>

theorem group_probe_reuses_stale_discovery:
  "let k = group_knobs ! 3; p = priors_default 0; q = kn_apply k p (2 / 10);
     old = account_context to_bits otter_dataset otter_account p; new = account_context to_bits otter_dataset otter_account q
   in kn_name k = ''group_w_species'' \<and>
      cs_artist_discovery (recompute_one_post new otter_features now (full_channels old otter_features now) (kn_invalidates k)) \<noteq>
      cs_artist_discovery (full_channels new otter_features now)"
proof -
  let ?p = "priors_default 0" and ?k = "group_knobs ! 3" and ?h = "\<lambda>x :: f32. x / sqrt (x\<^sup>2 + (7 / 10)\<^sup>2)"
  have k: "kn_name ?k = ''group_w_species''" "kn_invalidates ?k = M_GROUP_W"
    "kn_apply ?k ?p (2 / 10) = ?p\<lparr>group_w_species := 15 / 10\<rparr>"
    by (simp_all add: group_knobs_def priors_default_def)
  have p: "?p = ?p\<lparr>group_w_species := 13 / 10\<rparr>" by (simp add: priors_default_def)
  have ds: "ds_idf otter_dataset = empty_index" by (simp add: otter_dataset_def)
  have unit: "0 \<le> ?h x \<and> ?h x \<le> 1" if "0 < x" for x
  proof -
    have "x \<le> sqrt (x\<^sup>2 + (7 / 10)\<^sup>2)" by (rule real_le_rsqrt) simp
    moreover from this that have "0 < sqrt (x\<^sup>2 + (7 / 10)\<^sup>2)" by linarith
    ultimately show ?thesis using that by (simp only: divide_le_eq_1_pos zero_le_divide_iff less_imp_le simp_thms)
  qed
  have fit: "discovery_cached (account_context to_bits otter_dataset otter_account (?p\<lparr>group_w_species := x\<rparr>)) otter_features =
      ?h x * (1 / 4) * (115 / 100)" if "0 < x" for x
    using otter_discovery [OF refl that ds] unit [OF that] by (simp add: clamp01_def)
  have "(?h x)\<^sup>2 = x\<^sup>2 / (x\<^sup>2 + (7 / 10)\<^sup>2)" for x by (simp add: power_divide)
  from this [of "13 / 10"] this [of "15 / 10"] have "(?h (13 / 10))\<^sup>2 \<noteq> (?h (15 / 10))\<^sup>2" by (simp add: power2_eq_square)
  then have "?h (13 / 10) \<noteq> ?h (15 / 10)" by metis
  moreover have "discovery_cached (account_context to_bits otter_dataset otter_account ?p) otter_features = ?h (13 / 10) * (1 / 4) * (115 / 100)"
    by (subst p) (rule fit, simp)
  ultimately have "discovery_cached (account_context to_bits otter_dataset otter_account ?p) otter_features \<noteq>
      discovery_cached (account_context to_bits otter_dataset otter_account (?p\<lparr>group_w_species := 15 / 10\<rparr>)) otter_features"
    using fit [of "15 / 10"] by simp
  then show ?thesis unfolding Let_def k discovery_reuse by (simp add: full_channels_def)
qed

end
