(* ===== verification/Calibrate_Grid.thy ===== *)
theory Calibrate_Grid
  imports Calibrate_Knobs
begin

text \<open>
  The grid search (\<open>bin/calibrate/grid.rs\<close>): the gate a probe has to pass, the passes over the knobs with
  their early exit, the sweep over pairs and over the categorical knob.  Scores are reals, so the guard
  against NaN and infinite scores has nothing to drop; progress lines are not modelled.
\<close>

section \<open>The gate\<close>

record Gate =
  g_accept :: bool
  g_delta :: f64
  g_se :: f64
  g_z :: f64
  g_paired :: bool

definition MIN_ABS_DELTA :: f64 where "MIN_ABS_DELTA = 1 / 10000"

definition gate_threshold :: "Gate \<Rightarrow> f64" where
  "gate_threshold g = max (g_z g * g_se g) MIN_ABS_DELTA"

definition gate_probe :: "Metrics \<Rightarrow> f64 \<Rightarrow> f64 list \<Rightarrow> Gate" where
  "gate_probe cand inc_mean inc_per_account =
     (case paired_mean_se (mt_ndcg_per_account cand) inc_per_account of
        Some (delta, se) \<Rightarrow>
          let g = \<lparr>g_accept = False, g_delta = delta, g_se = se,
                g_z = t_quantile_95 (length (mt_ndcg_per_account cand) - 1), g_paired = True\<rparr>
          in g\<lparr>g_accept := delta > gate_threshold g\<rparr>
      | None \<Rightarrow>
          let g = \<lparr>g_accept = False, g_delta = mt_ndcg_at_k cand - inc_mean, g_se = ndcg_se cand,
                g_z = t_quantile_95 (mt_n_accounts cand - 1), g_paired = False\<rparr>
          in g\<lparr>g_accept := g_delta g > gate_threshold g\<rparr>)"

section \<open>The search\<close>

record GridState =
  gs_best :: Priors
  gs_score :: f64
  gs_per_account :: "f64 list"
  gs_cache :: ScoreCache

text \<open>What a run is given: the dataset, the clock, the cut-offs and the diversifier flag.\<close>

record GridEnv =
  ge_to_bits :: "f32 \<Rightarrow> u32"
  ge_dataset :: EvalDataset
  ge_now :: int
  ge_top_k_ndcg :: nat
  ge_top_k_recall :: nat
  ge_diversify :: bool

definition grid_score :: "GridEnv \<Rightarrow> Priors \<Rightarrow> ScoreCache option \<Rightarrow> channel_mask \<Rightarrow> Metrics \<times> ScoreCache" where
  "grid_score env p prev msk =
     score_with_cache (ge_to_bits env) (ge_dataset env) p (ge_now env) (ge_top_k_ndcg env) (ge_top_k_recall env) (ge_diversify env) prev msk"

definition grid_probe :: "GridEnv \<Rightarrow> Priors \<Rightarrow> channel_mask \<Rightarrow> GridState \<Rightarrow> GridState \<times> bool" where
  "grid_probe env trial msk st =
     (let (m_raw, trial_cache) = grid_score env trial (Some (gs_cache st)) msk;
          m = average m_raw
      in if g_accept (gate_probe m (gs_score st) (gs_per_account st)) then
           (\<lparr>gs_best = trial, gs_score = mt_ndcg_at_k m, gs_per_account = mt_ndcg_per_account m, gs_cache = trial_cache\<rparr>, True)
         else (st, False))"

text \<open>The probes of one knob: after two misses in a row the rest of the list is skipped.\<close>

fun knob_loop :: "GridEnv \<Rightarrow> KnobSpec \<Rightarrow> f32 \<Rightarrow> f32 list \<Rightarrow> nat \<Rightarrow> GridState \<times> bool \<Rightarrow> GridState \<times> bool" where
  "knob_loop env k scale [] misses (st, changed) = (st, changed)"
| "knob_loop env k scale (raw_delta # rest) misses (st, changed) =
     (if misses \<ge> 2 then (st, changed)
      else let (st', won) = grid_probe env (kn_apply k (gs_best st) (raw_delta * scale)) (kn_invalidates k) st
           in knob_loop env k scale rest (if won then 0 else misses + 1) (st', changed \<or> won))"

definition grid_pass :: "GridEnv \<Rightarrow> KnobSpec list \<Rightarrow> f32 \<Rightarrow> GridState \<Rightarrow> GridState \<times> bool" where
  "grid_pass env knobs scale st = fold (\<lambda>k s. knob_loop env k scale (kn_probes k) 0 s) knobs (st, False)"

fun grid_passes :: "GridEnv \<Rightarrow> KnobSpec list \<Rightarrow> f32 list \<Rightarrow> GridState \<Rightarrow> GridState" where
  "grid_passes env knobs [] st = st"
| "grid_passes env knobs (scale # scales) st =
     (let (st', changed) = grid_pass env knobs scale st in if changed then grid_passes env knobs scales st' else st')"

definition knob_by_name :: "KnobSpec list \<Rightarrow> string \<Rightarrow> KnobSpec option" where
  "knob_by_name knobs name = find (\<lambda>k. kn_name k = name) knobs"

definition smallest_step :: "KnobSpec \<Rightarrow> f32" where
  "smallest_step k = Min (abs ` set (kn_probes k))"

definition pair_signs :: "(f32 \<times> f32) list" where
  "pair_signs = [(1, 1), (1, - 1), (- 1, 1), (- 1, - 1)]"

definition pair_trial :: "KnobSpec \<Rightarrow> KnobSpec \<Rightarrow> f32 \<Rightarrow> f32 \<times> f32 \<Rightarrow> Priors \<Rightarrow> Priors" where
  "pair_trial ka kb pair_scale = (\<lambda>(sa, sb) p.
     kn_apply kb (kn_apply ka p (sa * smallest_step ka * pair_scale)) (sb * smallest_step kb * pair_scale))"

definition pair_sweep :: "GridEnv \<Rightarrow> KnobSpec list \<Rightarrow> f32 \<Rightarrow> string \<times> string \<Rightarrow> GridState \<Rightarrow> GridState" where
  "pair_sweep env knobs pair_scale names st =
     (case (knob_by_name knobs (fst names), knob_by_name knobs (snd names)) of
        (Some ka, Some kb) \<Rightarrow>
          fold (\<lambda>signs st. fst (grid_probe env (pair_trial ka kb pair_scale signs (gs_best st))
            (kn_invalidates ka OR kn_invalidates kb) st)) pair_signs st
      | _ \<Rightarrow> st)"

text \<open>The sweep over the categorical knobs knows only the pair aggregator; every other one is passed over.
  The value a candidate is compared with is the one from before the sweep.\<close>

definition categorical_sweep :: "GridEnv \<Rightarrow> CategoricalKnob \<Rightarrow> GridState \<Rightarrow> GridState" where
  "categorical_sweep env ck st =
     (if ck_name ck = ''tag_relation_pair_aggregator'' then
        let baseline_value = tag_relation_pair_aggregator (gs_best st) in
        fold (\<lambda>cand st. if lit cand = baseline_value then st
          else fst (grid_probe env (ck_apply ck (gs_best st) cand) (ck_invalidates ck) st)) (ck_candidates ck) st
      else st)"

record GridOptions =
  go_pairs_only :: bool
  go_run_paired :: bool

definition active_knobs :: "bool \<Rightarrow> KnobSpec list \<Rightarrow> KnobSpec list" where
  "active_knobs diversify knobs = filter (\<lambda>k. diversify \<or> \<not> kn_diversify_only k) knobs"

definition grid_start :: "GridEnv \<Rightarrow> Priors \<Rightarrow> (Metrics \<times> ScoreCache) option \<Rightarrow> GridState" where
  "grid_start env baseline reused_baseline =
     (let (m, cache) = (case reused_baseline of Some mc \<Rightarrow> mc
            | None \<Rightarrow> (let (m_raw, c) = grid_score env baseline None M_ALL in (average m_raw, c)))
      in \<lparr>gs_best = baseline, gs_score = mt_ndcg_at_k m, gs_per_account = mt_ndcg_per_account m, gs_cache = cache\<rparr>)"

definition run_grid :: "GridEnv \<Rightarrow> KnobSpec list \<Rightarrow> GridOptions \<Rightarrow> Priors \<Rightarrow> (Metrics \<times> ScoreCache) option \<Rightarrow> Priors \<times> Metrics" where
  "run_grid env knobs opts baseline reused_baseline =
     (let active = active_knobs (ge_diversify env) knobs;
          st0 = grid_start env baseline reused_baseline;
          st1 = (if go_pairs_only opts then st0 else grid_passes env active PASS_SCALES st0);
          pair_scale = (if go_pairs_only opts then 1 else 5 / 10);
          st2 = (if go_run_paired opts \<or> go_pairs_only opts then fold (pair_sweep env active pair_scale) PAIRED_KNOBS st1 else st1);
          st3 = fold (categorical_sweep env) CATEGORICAL_KNOBS st2
      in (gs_best st3, average (fst (grid_score env (gs_best st3) None M_ALL))))"

section \<open>The trials of a run\<close>

text \<open>A run as a sequence of probes: every state the search goes through is reached from the start by
  trying a knob, a pair or a candidate on the best parameters so far.\<close>

inductive grid_trial :: "KnobSpec list \<Rightarrow> Priors \<Rightarrow> Priors \<Rightarrow> channel_mask \<Rightarrow> bool" for knobs :: "KnobSpec list" where
  single: "k \<in> set knobs \<Longrightarrow> raw \<in> set (kn_probes k) \<Longrightarrow> scale \<in> set PASS_SCALES \<Longrightarrow>
     grid_trial knobs p (kn_apply k p (raw * scale)) (kn_invalidates k)"
| pair: "ka \<in> set knobs \<Longrightarrow> kb \<in> set knobs \<Longrightarrow> signs \<in> set pair_signs \<Longrightarrow> pair_scale \<in> {1, 5 / 10} \<Longrightarrow>
     grid_trial knobs p (pair_trial ka kb pair_scale signs p) (kn_invalidates ka OR kn_invalidates kb)"
| categorical: "ck \<in> set CATEGORICAL_KNOBS \<Longrightarrow> c \<in> set (ck_candidates ck) \<Longrightarrow>
     grid_trial knobs p (ck_apply ck p c) (ck_invalidates ck)"

inductive grid_reach :: "GridEnv \<Rightarrow> KnobSpec list \<Rightarrow> GridState \<Rightarrow> GridState \<Rightarrow> bool"
  for env :: GridEnv and knobs :: "KnobSpec list" and st0 :: GridState where
  start: "grid_reach env knobs st0 st0"
| probe: "grid_reach env knobs st0 st \<Longrightarrow> grid_trial knobs (gs_best st) trial msk \<Longrightarrow>
     grid_reach env knobs st0 (fst (grid_probe env trial msk st))"

lemma knob_loop_reach:
  assumes "grid_reach env knobs st0 st" "k \<in> set knobs" "scale \<in> set PASS_SCALES" "set deltas \<subseteq> set (kn_probes k)"
  shows "grid_reach env knobs st0 (fst (knob_loop env k scale deltas misses (st, changed)))"
  using assms(1,4)
proof (induction deltas arbitrary: misses st changed)
  case (Cons raw rest)
  let ?r = "grid_probe env (kn_apply k (gs_best st) (raw * scale)) (kn_invalidates k) st"
  have "grid_reach env knobs st0 (fst ?r)"
    by (rule probe [OF Cons.prems(1) single [OF assms(2) _ assms(3)]]) (use Cons.prems(2) in simp)
  from Cons.IH [OF this] show ?case using Cons.prems by (cases ?r) simp
qed simp

lemma grid_pass_reach:
  assumes "grid_reach env knobs st0 st" "set ks \<subseteq> set knobs" "scale \<in> set PASS_SCALES"
  shows "grid_reach env knobs st0 (fst (fold (\<lambda>k s. knob_loop env k scale (kn_probes k) 0 s) ks (st, changed)))"
  using assms(1,2)
proof (induction ks arbitrary: st changed)
  case (Cons k ks)
  let ?r = "knob_loop env k scale (kn_probes k) 0 (st, changed)"
  have "grid_reach env knobs st0 (fst ?r)" using Cons.prems assms(3) by (intro knob_loop_reach) simp_all
  then show ?case using Cons.IH [of "fst ?r" "snd ?r"] Cons.prems(2) by simp
qed simp

lemma grid_passes_reach:
  assumes "grid_reach env knobs st0 st" "set scales \<subseteq> set PASS_SCALES"
  shows "grid_reach env knobs st0 (grid_passes env knobs scales st)"
  using assms
proof (induction scales arbitrary: st)
  case (Cons scale scales)
  have "grid_reach env knobs st0 (fst (grid_pass env knobs scale st))"
    unfolding grid_pass_def by (rule grid_pass_reach [OF Cons.prems(1) subset_refl]) (use Cons.prems(2) in simp)
  then show ?case using Cons.IH Cons.prems(2) by (simp add: split_beta Let_def)
qed simp

lemma knob_by_name_mem: "knob_by_name knobs name = Some k \<Longrightarrow> k \<in> set knobs"
  unfolding knob_by_name_def by (auto simp: find_Some_iff)

lemma fold_reach:
  assumes "grid_reach env knobs st0 st"
    and "\<And>x st. x \<in> set xs \<Longrightarrow> grid_reach env knobs st0 st \<Longrightarrow> grid_reach env knobs st0 (f x st)"
  shows "grid_reach env knobs st0 (fold f xs st)"
  using assms by (induction xs arbitrary: st) auto

lemma pair_sweep_reach:
  assumes "grid_reach env knobs st0 st" "sc \<in> {1, 5 / 10}"
  shows "grid_reach env knobs st0 (pair_sweep env knobs sc names st)"
proof (cases "knob_by_name knobs (fst names)")
  case (Some ka)
  note a = Some
  show ?thesis
  proof (cases "knob_by_name knobs (snd names)")
    case (Some kb)
    have "grid_reach env knobs st0 (fst (grid_probe env (pair_trial ka kb sc sg (gs_best st)) (kn_invalidates ka OR kn_invalidates kb) st))"
      if "sg \<in> set pair_signs" "grid_reach env knobs st0 st" for sg st
      by (rule probe [OF that(2) pair [OF knob_by_name_mem [OF a] knob_by_name_mem [OF Some] that(1) assms(2)]])
    then show ?thesis using assms(1) by (simp add: pair_sweep_def a Some fold_reach)
  qed (simp add: pair_sweep_def a assms)
qed (simp add: pair_sweep_def assms)

lemma categorical_sweep_reach:
  assumes "grid_reach env knobs st0 st" "ck \<in> set CATEGORICAL_KNOBS"
  shows "grid_reach env knobs st0 (categorical_sweep env ck st)"
proof -
  have "grid_reach env knobs st0 (if lit c = b then st else fst (grid_probe env (ck_apply ck (gs_best st) c) (ck_invalidates ck) st))"
    if "c \<in> set (ck_candidates ck)" "grid_reach env knobs st0 st" for c b st
    using that(2) probe [OF that(2) categorical [OF assms(2) that(1)]] by simp
  then show ?thesis using assms(1) by (simp add: categorical_sweep_def Let_def fold_reach)
qed

text \<open>The result of a run is a state the search reaches.\<close>

lemma run_grid_reach:
  assumes "active = active_knobs (ge_diversify env) knobs"
  obtains st where "grid_reach env active (grid_start env baseline reused) st"
    "run_grid env knobs opts baseline reused = (gs_best st, average (fst (grid_score env (gs_best st) None M_ALL)))"
proof -
  let ?st0 = "grid_start env baseline reused"
  let ?st1 = "if go_pairs_only opts then ?st0 else grid_passes env active PASS_SCALES ?st0"
  let ?sc = "if go_pairs_only opts then 1 else 5 / 10"
  let ?st2 = "if go_run_paired opts \<or> go_pairs_only opts then fold (pair_sweep env active ?sc) PAIRED_KNOBS ?st1 else ?st1"
  let ?st3 = "fold (categorical_sweep env) CATEGORICAL_KNOBS ?st2"
  have 1: "grid_reach env active ?st0 ?st1" using grid_passes_reach [OF start subset_refl] start by simp
  have "grid_reach env active ?st0 (fold (pair_sweep env active ?sc) PAIRED_KNOBS ?st1)"
    by (rule fold_reach [OF 1 pair_sweep_reach]) simp_all
  then have 2: "grid_reach env active ?st0 ?st2" using 1 by (cases "go_run_paired opts \<or> go_pairs_only opts") (simp_all only: if_True if_False)
  then have 3: "grid_reach env active ?st0 ?st3" by (rule fold_reach) (rule categorical_sweep_reach)
  show thesis by (rule that [OF 3]) (simp only: run_grid_def Let_def assms)
qed

section \<open>The gate accepts improvements only\<close>

lemma add_metrics_fold:
  "mt_ndcg_at_k (fold (\<lambda>(acc, nrm). add_metrics nrm) xs t) = mt_ndcg_at_k t + sum_list (map (fst o snd) xs)"
  "mt_n_accounts (fold (\<lambda>(acc, nrm). add_metrics nrm) xs t) = mt_n_accounts t + length xs"
  "mt_ndcg_per_account (fold (\<lambda>(acc, nrm). add_metrics nrm) xs t) = mt_ndcg_per_account t @ map (fst o snd) xs"
  by (induction xs arbitrary: t) (simp_all add: add_metrics_def split_beta)

text \<open>The mean of the metrics is the mean of the list the gate compares.\<close>

lemma average_consistent:
  assumes "m = average (fst (grid_score env p prev msk))"
  shows "mt_ndcg_at_k m = mean_of (mt_ndcg_per_account m)"
proof -
  obtain xs :: "(AccountChannelCache \<times> f64 \<times> f64 \<times> f64) list"
    where "fst (grid_score env p prev msk) = fold (\<lambda>(acc, nrm). add_metrics nrm) xs metrics_default"
    by (simp add: grid_score_def score_with_cache_def Let_def)
  then show ?thesis
    by (simp add: assms average_def add_metrics_fold metrics_default_def mean_of_def Let_def)
qed

lemma mean_of_differences:
  assumes "length xs = length ys"
  shows "mean_of (map2 (-) xs ys) = mean_of xs - mean_of ys"
proof -
  have "sum_list (map2 (-) xs ys) = sum_list xs - sum_list ys" using assms by (induction xs ys rule: list_induct2) simp_all
  then show ?thesis using assms by (simp add: mean_of_def diff_divide_distrib)
qed

lemma gate_accepts_improvement:
  assumes "g_accept (gate_probe m inc_mean inc)" "mt_ndcg_at_k m = mean_of (mt_ndcg_per_account m)" "inc_mean = mean_of inc"
  shows "inc_mean + MIN_ABS_DELTA < mt_ndcg_at_k m"
proof (cases "paired_mean_se (mt_ndcg_per_account m) inc")
  case None
  then show ?thesis using assms(1) by (simp add: gate_probe_def gate_threshold_def Let_def)
next
  case (Some ds)
  then have len: "length (mt_ndcg_per_account m) = length inc" and d: "fst ds = mean_of (map2 (-) (mt_ndcg_per_account m) inc)"
    by (auto simp: paired_mean_se_def Let_def split: if_splits)
  have "MIN_ABS_DELTA < fst ds" using assms(1) Some by (simp add: gate_probe_def gate_threshold_def Let_def split: prod.splits)
  then show ?thesis unfolding d mean_of_differences [OF len] using assms(2,3) by simp
qed

definition consistent :: "GridState \<Rightarrow> bool" where
  "consistent st \<longleftrightarrow> gs_score st = mean_of (gs_per_account st)"

lemma grid_probe_step:
  assumes "consistent st" "grid_probe env trial msk st = (st', won)"
  shows "consistent st'" "won \<Longrightarrow> gs_score st + MIN_ABS_DELTA < gs_score st'" "\<not> won \<Longrightarrow> st' = st"
proof -
  obtain m_raw c where r: "grid_score env trial (Some (gs_cache st)) msk = (m_raw, c)" by fastforce
  let ?m = "average m_raw"
  have m: "mt_ndcg_at_k ?m = mean_of (mt_ndcg_per_account ?m)" using average_consistent [of ?m env trial "Some (gs_cache st)" msk] by (simp add: r)
  have step: "(if g_accept (gate_probe ?m (gs_score st) (gs_per_account st)) then
       (\<lparr>gs_best = trial, gs_score = mt_ndcg_at_k ?m, gs_per_account = mt_ndcg_per_account ?m, gs_cache = c\<rparr>, True)
     else (st, False)) = (st', won)" using assms(2) by (simp add: grid_probe_def r Let_def)
  have accept: "g_accept (gate_probe ?m (gs_score st) (gs_per_account st)) \<Longrightarrow> gs_score st + MIN_ABS_DELTA < mt_ndcg_at_k ?m"
    using assms(1) by (intro gate_accepts_improvement m) (simp_all add: consistent_def)
  show "consistent st'" using step assms(1) m by (auto simp: consistent_def split: if_splits)
  show "won \<Longrightarrow> gs_score st + MIN_ABS_DELTA < gs_score st'" using step accept by (auto split: if_splits)
  show "\<not> won \<Longrightarrow> st' = st" using step by (auto split: if_splits)
qed

lemma grid_reach_improves:
  assumes "grid_reach env knobs st0 st" "consistent st0"
  shows "consistent st \<and> (st = st0 \<or> gs_score st0 + MIN_ABS_DELTA < gs_score st)"
  using assms
proof (induction rule: grid_reach.induct)
  case (probe st trial msk)
  obtain st' won where r: "grid_probe env trial msk st = (st', won)" by fastforce
  from probe have st: "consistent st" "st = st0 \<or> gs_score st0 + MIN_ABS_DELTA < gs_score st" by simp_all
  note step = grid_probe_step [OF st(1) r]
  show ?case
  proof (cases won)
    case True
    have "0 < MIN_ABS_DELTA" by (simp add: MIN_ABS_DELTA_def)
    then show ?thesis using step(1) step(2) [OF True] st(2) by (auto simp: r)
  next
    case False
    then show ?thesis using step(3) st by (simp add: r)
  qed
qed simp

end
