(* ===== verification/Calibrate_Grid_Props.thy ===== *)
theory Calibrate_Grid_Props
  imports Calibrate_Grid
begin

text \<open>
  What a grid run guarantees (\<open>bin/calibrate/grid.rs\<close>): with complete masks the incumbent the search
  carries along is at every moment what a full rebuild gives, so the parameters a run returns are never
  worse than the baseline; and whatever the masks, three of the weights cannot leave zero.
\<close>

section \<open>Trials with complete masks\<close>

lemma masked_or: "masked (m1 OR m2) c \<longleftrightarrow> masked m1 c \<or> masked m2 c"
  by (simp add: masked_def bit.conj_disj_distrib2 or_eq_0_iff)

lemma mask_covers_trans:
  assumes "mask_covers p q m1" "mask_covers q r m2"
  shows "mask_covers p r (m1 OR m2)"
  using assms unfolding mask_covers_def masked_or by metis

definition sound_knobs :: "KnobSpec list \<Rightarrow> bool" where
  "sound_knobs knobs \<longleftrightarrow> (\<forall>k \<in> set knobs. k \<in> set GRID_KNOBS \<and> kn_name k \<notin> set stale_knobs)"

lemma categorical_covered:
  assumes "ck \<in> set CATEGORICAL_KNOBS"
  shows "mask_covers p (ck_apply ck p c) (ck_invalidates ck)"
  using assms by (auto simp: CATEGORICAL_KNOBS_def mask_covers_def reads_defs)

lemma trial_covered:
  assumes "grid_trial knobs p trial msk" "sound_knobs knobs"
  shows "mask_covers p trial msk"
  using assms(1)
proof cases
  case (single k raw scale)
  then show ?thesis using assms(2) grid_knob_covered by (simp add: sound_knobs_def knob_covered_def)
next
  case (pair ka kb signs pair_scale)
  then have "knob_covered ka" "knob_covered kb" using assms(2) grid_knob_covered by (simp_all add: sound_knobs_def)
  then show ?thesis unfolding pair pair_trial_def split_beta knob_covered_def by (blast intro: mask_covers_trans)
next
  case (categorical ck c)
  then show ?thesis by (simp add: categorical_covered)
qed

section \<open>The incumbent\<close>

definition exact :: "GridEnv \<Rightarrow> GridState \<Rightarrow> bool" where
  "exact env st \<longleftrightarrow>
     (let (m, cache) = grid_score env (gs_best st) None M_ALL in
      gs_cache st = cache \<and> gs_score st = mt_ndcg_at_k (average m) \<and> gs_per_account st = mt_ndcg_per_account (average m))"

lemma exact_start: "exact env (grid_start env baseline None)"
  by (simp add: exact_def grid_start_def split: prod.split)

lemma grid_probe_best: "gs_best (fst (grid_probe env trial msk st)) \<in> {trial, gs_best st}"
  by (simp add: grid_probe_def Let_def split: prod.split)

lemma probe_is_rebuild:
  assumes "exact env st" "mask_covers (gs_best st) trial msk"
    and "no_collision (ge_to_bits env) ((gs_best st)\<lparr>priors_now := ge_now env\<rparr>) (trial\<lparr>priors_now := ge_now env\<rparr>)"
  shows "grid_score env trial (Some (gs_cache st)) msk = grid_score env trial None M_ALL"
proof -
  have "mask_covers ((gs_best st)\<lparr>priors_now := ge_now env\<rparr>) (trial\<lparr>priors_now := ge_now env\<rparr>) msk"
    using assms(2) by (simp add: mask_covers_now)
  note rebuild = probe_is_full_rebuild [OF this assms(3)]
  have "gs_cache st = snd (grid_score env (gs_best st) None M_ALL)" using assms(1) by (simp add: exact_def split_beta Let_def)
  then show ?thesis unfolding grid_score_def by (rule rebuild)
qed

lemma exact_probe:
  assumes "exact env st" "mask_covers (gs_best st) trial msk"
    and "no_collision (ge_to_bits env) ((gs_best st)\<lparr>priors_now := ge_now env\<rparr>) (trial\<lparr>priors_now := ge_now env\<rparr>)"
  shows "exact env (fst (grid_probe env trial msk st))"
proof -
  obtain m c where r: "grid_score env trial None M_ALL = (m, c)" by fastforce
  show ?thesis using assms(1) unfolding grid_probe_def probe_is_rebuild [OF assms] r Let_def
    by (simp add: exact_def r)
qed

text \<open>No trial of the search collides with the parameters it starts from.\<close>

definition collision_free :: "GridEnv \<Rightarrow> KnobSpec list \<Rightarrow> GridState \<Rightarrow> bool" where
  "collision_free env knobs st0 \<longleftrightarrow>
     (\<forall>st trial msk. grid_reach env knobs st0 st \<and> grid_trial knobs (gs_best st) trial msk \<longrightarrow>
        no_collision (ge_to_bits env) ((gs_best st)\<lparr>priors_now := ge_now env\<rparr>) (trial\<lparr>priors_now := ge_now env\<rparr>))"

lemma grid_reach_exact:
  assumes "grid_reach env knobs st0 st" "exact env st0" "sound_knobs knobs" "collision_free env knobs st0"
  shows "exact env st"
  using assms
proof (induction rule: grid_reach.induct)
  case (probe st trial msk)
  then have "exact env st" by blast
  then show ?case
  proof (rule exact_probe)
    show "mask_covers (gs_best st) trial msk" using probe by (blast intro: trial_covered)
    show "no_collision (ge_to_bits env) ((gs_best st)\<lparr>priors_now := ge_now env\<rparr>) (trial\<lparr>priors_now := ge_now env\<rparr>)"
      using probe unfolding collision_free_def by blast
  qed
qed

lemma grid_reach_same_best:
  assumes "grid_reach env knobs st0 st" "consistent st0"
  shows "gs_best st = gs_best st0 \<or> gs_score st0 + MIN_ABS_DELTA < gs_score st"
  using grid_reach_improves [OF assms] by auto

section \<open>The grid over the mix weights\<close>

text \<open>No mix knob, pair of them or categorical candidate touches a field of the fingerprint, so the grid
  over the mix weights is free of collisions under any hash.\<close>

lemma fingerprint_now: "fingerprint_fields (p\<lparr>priors_now := n\<rparr>) = fingerprint_fields p"
  by (simp add: fingerprint_fields_def split: option.split)

lemma mix_knobs_keep: "list_all (\<lambda>k. \<forall>p v. fingerprint_fields (kn_apply k p v) = fingerprint_fields p) mix_knobs"
  by (simp only: mix_knobs_def list.pred_inject knob_simps, intro conjI allI TrueI)
    (simp_all add: fingerprint_fields_def split: option.split)

lemma mix_knob_keeps: "k \<in> set mix_knobs \<Longrightarrow> fingerprint_fields (kn_apply k p v) = fingerprint_fields p"
  using mix_knobs_keep by (simp add: list_all_iff)

lemma mix_grid_sound: "sound_knobs (active_knobs d MIX_ONLY_KNOBS)"
proof -
  have "list_all (\<lambda>k. kn_name k \<notin> set stale_knobs) mix_knobs" by (simp add: mix_knobs_def stale_knobs_def)
  then show ?thesis by (auto simp: sound_knobs_def active_knobs_def MIX_ONLY_KNOBS_def GRID_KNOBS_def list_all_iff)
qed

lemma mix_grid_collision_free: "collision_free env (active_knobs d MIX_ONLY_KNOBS) st0"
proof -
  have "fingerprint_fields p = fingerprint_fields trial" if "grid_trial (active_knobs d MIX_ONLY_KNOBS) p trial msk" for p trial msk
    using that
  proof cases
    case (categorical ck c)
    then show ?thesis by (auto simp: CATEGORICAL_KNOBS_def fingerprint_fields_def split: option.split)
  qed (auto simp: active_knobs_def MIX_ONLY_KNOBS_def mix_knob_keeps pair_trial_def)
  then show ?thesis unfolding collision_free_def no_collision_def fingerprint_now by blast
qed

definition demo_env :: GridEnv where
  "demo_env = \<lparr>ge_to_bits = (\<lambda>_. 0), ge_dataset = otter_dataset, ge_now = 0, ge_top_k_ndcg = 20, ge_top_k_recall = 50,
     ge_diversify = False\<rparr>"

definition demo_run :: "Priors \<times> Metrics" where
  "demo_run = run_grid demo_env MIX_ONLY_KNOBS \<lparr>go_pairs_only = False, go_run_paired = True\<rparr> (priors_default 0) None"

section \<open>Weights that stay off\<close>

lemma categorical_keeps_off: "ck \<in> set CATEGORICAL_KNOBS \<Longrightarrow> off_channels p \<Longrightarrow> off_channels (ck_apply ck p c)"
  by (auto simp: CATEGORICAL_KNOBS_def off_channels_def)

lemma grid_reach_keeps_off:
  assumes "grid_reach env knobs st0 st" "set knobs \<subseteq> set GRID_KNOBS" "off_channels (gs_best st0)"
  shows "off_channels (gs_best st)"
  using assms
proof (induction rule: grid_reach.induct)
  case (probe st trial msk)
  then have st: "off_channels (gs_best st)" by blast
  have knob: "off_channels (kn_apply k p v)" if "k \<in> set knobs" "off_channels p" for k p v
    using that probe.prems(1) grid_knobs_keep_off unfolding keeps_off_def by blast
  from \<open>grid_trial knobs (gs_best st) trial msk\<close> have "off_channels trial"
  proof cases
    case (single k raw scale)
    then show ?thesis using knob st by blast
  next
    case (pair ka kb signs pair_scale)
    then show ?thesis using knob st by (simp add: pair_trial_def split_beta)
  next
    case (categorical ck c)
    then show ?thesis using categorical_keeps_off st by blast
  qed
  then show ?case using st grid_probe_best [of env trial msk st] by auto
qed simp

section \<open>Guarantees of a run\<close>

text \<open>C36. A run over knobs whose masks are complete returns parameters that a full rebuild scores at least
  as high as the baseline, and by more than the acceptance floor higher when they differ from it.\<close>

theorem grid_run_improves:
  assumes "sound_knobs (active_knobs (ge_diversify env) knobs)"
    and "collision_free env (active_knobs (ge_diversify env) knobs) (grid_start env baseline None)"
    and "run_grid env knobs opts baseline None = (best, m)"
    and "base = average (fst (grid_score env baseline None M_ALL))"
  shows "(best = baseline \<and> mt_ndcg_at_k m = mt_ndcg_at_k base) \<or> mt_ndcg_at_k base + 1 / 10000 < mt_ndcg_at_k m"
proof -
  let ?active = "active_knobs (ge_diversify env) knobs" and ?st0 = "grid_start env baseline None"
  obtain st where st: "grid_reach env ?active ?st0 st"
    and run: "run_grid env knobs opts baseline None = (gs_best st, average (fst (grid_score env (gs_best st) None M_ALL)))"
    by (rule run_grid_reach [OF refl])
  have "exact env st" by (rule grid_reach_exact [OF st exact_start assms(1,2)])
  then have score: "gs_score st = mt_ndcg_at_k m" "gs_best st = best" using run assms(3) by (auto simp: exact_def split_beta Let_def)
  have st0: "gs_score ?st0 = mt_ndcg_at_k base" "gs_best ?st0 = baseline"
    by (simp_all add: grid_start_def assms(4) split_beta Let_def)
  have "consistent ?st0"
    using average_consistent [OF refl, of env baseline None M_ALL] by (simp add: consistent_def grid_start_def split_beta Let_def)
  from grid_reach_improves [OF st this] show ?thesis using score st0 by (auto simp: MIN_ABS_DELTA_def)
qed

theorem grid_run_improves_witness:
  "(fst demo_run = priors_default 0 \<and>
     mt_ndcg_at_k (snd demo_run) = mt_ndcg_at_k (average (fst (grid_score demo_env (priors_default 0) None M_ALL)))) \<or>
   mt_ndcg_at_k (average (fst (grid_score demo_env (priors_default 0) None M_ALL))) + 1 / 10000 < mt_ndcg_at_k (snd demo_run)"
  by (rule grid_run_improves [OF mix_grid_sound mix_grid_collision_free _ refl]) (simp add: demo_run_def)



end
