(* ===== verification/Calibrate_Sampling.thy ===== *)
theory Calibrate_Sampling
  imports Calibrate_Cache
begin

text \<open>
  How the evaluation set is drawn (\<open>bin/calibrate/sampling.rs\<close>, \<open>options.rs\<close>, \<open>CatalogIndex\<close> in
  \<open>dataset.rs\<close>): the train/test splits, the pseudo-random negatives and the pool of hard candidates.
  A split that panics is \<open>None\<close>; a \<open>HashSet\<close> of ids is a set.
\<close>

section \<open>Options\<close>

datatype SplitStrategy = PostId | Random | TimeCausal | Favourites

datatype NegMode = Uniform | Catalog | Mixed | Hybrid f32

fun split_label :: "SplitStrategy \<Rightarrow> string" where
  "split_label PostId = ''post_id''"
| "split_label Random = ''random''"
| "split_label TimeCausal = ''time_causal''"
| "split_label Favourites = ''favourites''"

fun neg_label :: "NegMode \<Rightarrow> string" where
  "neg_label Uniform = ''uniform''"
| "neg_label Catalog = ''catalog''"
| "neg_label Mixed = ''mixed-hard''"
| "neg_label (Hybrid _) = ''hybrid-hard''"

section \<open>The generator\<close>

definition SPLIT_SEED :: u64 where "SPLIT_SEED = 0xE6215917"
definition NEG_SAMPLE_SEED :: u64 where "NEG_SAMPLE_SEED = 0xE621CA118"

definition xorshift :: "u64 \<Rightarrow> u64" where
  "xorshift s =
     (let s = s XOR push_bit 13 s; s = s XOR drop_bit 7 s; s = s XOR push_bit 17 s in s)"

definition account_seed :: "u64 \<Rightarrow> 32 word \<Rightarrow> u64" where
  "account_seed seed account_id = seed XOR (scast account_id * 0x9E3779B97F4A7C15)"

definition draw_below :: "nat \<Rightarrow> u64 \<Rightarrow> nat" where
  "draw_below n rng = unat rng mod n"

section \<open>Splits\<close>

text \<open>\<open>f32::round\<close> of a count that is not negative.\<close>

definition round_count :: "f32 \<Rightarrow> nat" where
  "round_count x = nat \<lfloor>x + 1 / 2\<rfloor>"

definition test_size :: "nat \<Rightarrow> f32 \<Rightarrow> nat" where
  "test_size n test_frac = max (min 1 n) (min (round_count (real n * test_frac)) (n - 1))"

definition swap_at :: "'a list \<Rightarrow> nat \<Rightarrow> nat \<Rightarrow> 'a list" where
  "swap_at xs i j = xs[i := xs ! j, j := xs ! i]"

text \<open>The loop of the shuffle runs its index down from \<open>n - 1\<close> to 1.\<close>

fun shuffle_loop :: "nat \<Rightarrow> u64 \<Rightarrow> nat list \<Rightarrow> nat list" where
  "shuffle_loop 0 rng xs = xs"
| "shuffle_loop (Suc i) rng xs =
     (let rng' = xorshift rng in shuffle_loop i rng' (swap_at xs (Suc i) (draw_below (Suc i + 1) rng')))"

definition shuffled :: "32 word \<Rightarrow> nat \<Rightarrow> nat list" where
  "shuffled account_id n = shuffle_loop (n - 1) (account_seed SPLIT_SEED account_id) [0..<n]"

definition pick_indices :: "nat set \<Rightarrow> 'a list \<Rightarrow> 'a list \<times> 'a list" where
  "pick_indices I xs =
     (map snd (filter (\<lambda>(i, x). i \<notin> I) (enumerate 0 xs)), map snd (filter (\<lambda>(i, x). i \<in> I) (enumerate 0 xs)))"

definition split_train_test :: "32 word \<Rightarrow> int list \<Rightarrow> f32 \<Rightarrow> SplitStrategy \<Rightarrow> (int list \<times> int list) option" where
  "split_train_test account_id ids test_frac strategy =
     (let sorted_ids = sort ids; n = length sorted_ids; n_test = test_size n test_frac in
      case strategy of
        PostId \<Rightarrow>
          (let split_at = max 1 (n - n_test) in
           if split_at > n then None else Some (take split_at sorted_ids, drop split_at sorted_ids))
      | Random \<Rightarrow> Some (pick_indices (set (take n_test (shuffled account_id n))) sorted_ids)
      | TimeCausal \<Rightarrow> None
      | Favourites \<Rightarrow> None)"

definition split_train_test_time :: "(int \<times> int) list \<Rightarrow> f32 \<Rightarrow> (int list \<times> int list) option" where
  "split_train_test_time favs test_frac =
     (let sorted_favs = sort_key (\<lambda>(i, ts). ts) (sort_key (\<lambda>(i, ts). i) favs); n = length sorted_favs;
          n_test = test_size n test_frac; split_at = max 1 (n - n_test)
      in if split_at > n then None
         else Some (map fst (take split_at sorted_favs), map fst (drop split_at sorted_favs)))"

definition split_train_test_favourites :: "(int \<times> int option) list \<Rightarrow> int \<Rightarrow> int list \<times> int list" where
  "split_train_test_favourites favs cutoff =
     (let late = (\<lambda>(i, added). case added of Some ts \<Rightarrow> ts \<ge> cutoff | None \<Rightarrow> False)
      in (map fst (filter (\<lambda>f. \<not> late f) favs), map fst (filter late favs)))"

section \<open>The catalog\<close>

record CatalogIndex =
  ci_ids :: "int list"
  ci_fav_counts :: "int list"
  ci_created_at_epoch :: "int list"
  ci_by_fav :: "nat list"
  ci_by_age :: "nat list"

definition order_by :: "int list \<Rightarrow> nat list" where
  "order_by vals = sort_key (\<lambda>i. vals ! i) [0..<length vals]"

definition catalog_of :: "(int \<times> int \<times> int) list \<Rightarrow> CatalogIndex" where
  "catalog_of rows =
     (let favs = map (\<lambda>(i, f, t). f) rows; ages = map (\<lambda>(i, f, t). t) rows in
      \<lparr>ci_ids = map fst rows, ci_fav_counts = favs, ci_created_at_epoch = ages, ci_by_fav = order_by favs,
       ci_by_age = order_by ages\<rparr>)"

definition catalog_rows :: "CatalogIndex \<Rightarrow> (int \<times> int \<times> int) list" where
  "catalog_rows c = zip (ci_ids c) (zip (ci_fav_counts c) (ci_created_at_epoch c))"

definition catalog_restrict :: "int set \<Rightarrow> CatalogIndex \<Rightarrow> CatalogIndex" where
  "catalog_restrict keep c = catalog_of (filter (\<lambda>(i, f, t). i \<in> keep) (catalog_rows c))"

section \<open>Negatives\<close>

text \<open>What the sampling loops share: draw a candidate, keep it when it is neither excluded nor chosen,
  until there are enough or the tries are spent.  The state is the generator, the set of ids seen and the
  negatives chosen.\<close>

type_synonym draw_state = "u64 \<times> int set \<times> int list"

fun draw_loop :: "(u64 \<Rightarrow> u64 \<times> int option) \<Rightarrow> nat \<Rightarrow> nat \<Rightarrow> draw_state \<Rightarrow> draw_state" where
  "draw_loop pick goal 0 st = st"
| "draw_loop pick goal (Suc tries) (rng, seen, out) =
     (if length out < goal then
        case pick rng of
          (rng', None) \<Rightarrow> draw_loop pick goal tries (rng', seen, out)
        | (rng', Some i) \<Rightarrow>
            if i \<in> seen then draw_loop pick goal tries (rng', seen, out)
            else draw_loop pick goal tries (rng', insert i seen, out @ [i])
      else (rng, seen, out))"

definition pick_uniform :: "int list \<Rightarrow> u64 \<Rightarrow> u64 \<times> int option" where
  "pick_uniform catalog rng =
     (let rng' = xorshift rng in (rng', Some (catalog ! draw_below (length catalog) rng')))"

definition sample_negatives_uniform :: "int list \<Rightarrow> int list \<Rightarrow> nat \<Rightarrow> int list \<times> int set" where
  "sample_negatives_uniform catalog excluded target =
     (if catalog = [] then ([], set excluded)
      else let (_, seen, out) = draw_loop (pick_uniform catalog) target (max 100 (target * 10)) (NEG_SAMPLE_SEED, set excluded, [])
           in (out, seen))"

text \<open>\<open>partition_point\<close> on a list whose prefix satisfies the predicate.\<close>

definition partition_point :: "('a \<Rightarrow> bool) \<Rightarrow> 'a list \<Rightarrow> nat" where
  "partition_point pr xs = length (takeWhile pr xs)"

text \<open>A candidate whose value lies within a window, from an order of the catalog by that value.\<close>

definition pick_window :: "int list \<Rightarrow> nat list \<Rightarrow> int list \<Rightarrow> int \<Rightarrow> int \<Rightarrow> u64 \<Rightarrow> u64 \<times> int option" where
  "pick_window ids order vals lo hi rng =
     (let lo_idx = partition_point (\<lambda>i. vals ! i < lo) order; hi_idx = partition_point (\<lambda>i. vals ! i \<le> hi) order in
      if hi_idx > lo_idx then
        let rng' = xorshift rng in (rng', Some (ids ! (order ! (lo_idx + draw_below (hi_idx - lo_idx) rng'))))
      else (rng, None))"

definition as_i32 :: "int \<Rightarrow> int" where
  "as_i32 x = (x + 2147483648) mod 4294967296 - 2147483648"

definition f32_to_i32 :: "f32 \<Rightarrow> int" where
  "f32_to_i32 x = max (- 2147483648) (min 2147483647 (if 0 \<le> x then \<lfloor>x\<rfloor> else \<lceil>x\<rceil>))"

definition pick_popular :: "CatalogIndex \<Rightarrow> Post list \<Rightarrow> u64 \<Rightarrow> u64 \<times> int option" where
  "pick_popular c test_posts rng =
     (let rng' = xorshift rng;
          pivot = as_i32 (max 0 (fav_count (stats (test_posts ! draw_below (length test_posts) rng'))));
          lo = f32_to_i32 (real_of_int pivot * (7 / 10));
          hi = f32_to_i32 (max (real_of_int (as_i32 (pivot + 50))) (real_of_int pivot * (15 / 10)))
      in pick_window (ci_ids c) (ci_by_fav c) (ci_fav_counts c) lo hi rng')"

definition WINDOW_SECS :: int where "WINDOW_SECS = 30 * 24 * 3600"

text \<open>\<open>timestamp\<close> counts whole seconds since the epoch, rounded down.\<close>

definition timestamp_of :: "int \<Rightarrow> int" where
  "timestamp_of t = t div 1000000000"

definition pick_recent :: "CatalogIndex \<Rightarrow> Post list \<Rightarrow> u64 \<Rightarrow> u64 \<times> int option" where
  "pick_recent c test_posts rng =
     (let rng' = xorshift rng; pivot_epoch = timestamp_of (created_at (test_posts ! draw_below (length test_posts) rng'))
      in pick_window (ci_ids c) (ci_by_age c) (ci_created_at_epoch c) (pivot_epoch - WINDOW_SECS) (pivot_epoch + WINDOW_SECS) rng')"

definition sample_negatives_mixed ::
  "CatalogIndex \<Rightarrow> int list \<Rightarrow> Post list \<Rightarrow> nat \<Rightarrow> 32 word \<Rightarrow> int list \<times> int set" where
  "sample_negatives_mixed c excluded test_posts target account_id =
     (if ci_ids c = [] \<or> test_posts = [] then ([], set excluded)
      else let target_uniform = round_count (real target * (40 / 100)); target_pop = round_count (real target * (30 / 100));
               target_time = target - (target_uniform + target_pop);
               st1 = draw_loop (pick_uniform (ci_ids c)) target_uniform (max 100 (target_uniform * 5))
                 (account_seed NEG_SAMPLE_SEED account_id, set excluded, []);
               st2 = (if ci_by_fav c = [] then st1
                 else draw_loop (pick_popular c test_posts) (length (snd (snd st1)) + target_pop) (max 100 (target_pop * 5)) st1);
               st3 = (if ci_by_age c = [] then st2
                 else draw_loop (pick_recent c test_posts) (length (snd (snd st2)) + target_time) (max 100 (target_time * 5)) st2);
               st4 = draw_loop (pick_uniform (ci_ids c)) target (max 50 ((target - length (snd (snd st3))) * 5)) st3
           in (snd (snd st4), fst (snd st4)))"

definition sample_hard_pool :: "int list \<Rightarrow> nat \<Rightarrow> 32 word \<Rightarrow> int set \<Rightarrow> int list \<times> int set" where
  "sample_hard_pool catalog pool_size account_id scratch =
     (if catalog = [] \<or> pool_size = 0 then ([], scratch)
      else let (_, seen, out) = draw_loop (pick_uniform catalog) pool_size (max 100 (pool_size * 10))
             (account_seed NEG_SAMPLE_SEED account_id, scratch, [])
           in (out, seen))"

section \<open>Splits are partitions\<close>

lemma length_swap_at [simp]: "length (swap_at xs i j) = length xs"
  by (simp add: swap_at_def)

lemma mset_swap_at:
  assumes "i < length xs" "j < length xs"
  shows "mset (swap_at xs i j) = mset xs"
  using assms by (simp add: swap_at_def mset_update nth_list_update)

lemma mset_shuffle_loop: "i < length xs \<Longrightarrow> mset (shuffle_loop i rng xs) = mset xs"
proof (induction i rng xs rule: shuffle_loop.induct)
  case (2 i rng xs)
  have "draw_below (Suc i + 1) (xorshift rng) < length xs"
    using 2(2) by (auto simp: draw_below_def intro: less_le_trans [OF mod_less_divisor])
  then have "mset (swap_at xs (Suc i) (draw_below (Suc i + 1) (xorshift rng))) = mset xs" using 2(2) by (rule mset_swap_at [rotated])
  then show ?case using 2 by (simp add: Let_def)
qed simp

lemma shuffled_perm: "mset (shuffled account_id n) = mset [0..<n]"
  by (cases "n = 0") (simp_all add: shuffled_def mset_shuffle_loop del: mset_upt)

lemma pick_indices_partition: "mset (fst (pick_indices I xs)) + mset (snd (pick_indices I xs)) = mset xs"
proof -
  have "mset (map snd (filter (\<lambda>(i, x). i \<notin> I) es)) + mset (map snd (filter (\<lambda>(i, x). i \<in> I) es)) = mset (map snd es)"
    for es :: "(nat \<times> 'a) list" by (induction es) auto
  from this [of "enumerate 0 xs"] show ?thesis by (simp add: pick_indices_def)
qed

lemma pick_indices_length:
  assumes "I \<subseteq> {..<length xs}"
  shows "length (snd (pick_indices I xs)) = card I"
proof -
  let ?f = "filter (\<lambda>(i, x). i \<in> I) (enumerate 0 xs)"
  have "distinct (map fst ?f)" by (rule distinct_map_filter) simp
  then have "length ?f = card (set (map fst ?f))" using distinct_card by fastforce
  moreover have "set (map fst ?f) = I" using assms by (force simp: in_set_enumerate_eq image_iff)
  ultimately show ?thesis by (simp add: pick_indices_def)
qed

lemma test_size_bounds: "2 \<le> n \<Longrightarrow> 1 \<le> test_size n f \<and> test_size n f \<le> n - 1"
  by (simp add: test_size_def)

text \<open>A split of at least two favourites holds out the announced number of them and keeps at least one on
  each side; nothing is lost or duplicated.\<close>

theorem split_is_partition:
  assumes "2 \<le> length ids" "strategy \<in> {PostId, Random}"
  shows "\<exists>train test. split_train_test account_id ids f strategy = Some (train, test) \<and> mset train + mset test = mset ids \<and>
     length test = test_size (length ids) f \<and> test \<noteq> [] \<and> train \<noteq> []"
proof -
  let ?n = "length ids" and ?t = "test_size (length ids) f"
  have t: "1 \<le> ?t" "?t \<le> ?n - 1" using test_size_bounds [OF assms(1)] by blast+
  have sizes: "test \<noteq> [] \<and> train \<noteq> []" if "mset train + mset test = mset ids" "length test = ?t" for train test :: "int list"
  proof -
    have "size (mset train + mset test) = ?n" using that(1) by simp
    then have "length train + length test = ?n" by simp
    then show ?thesis using that(2) t assms(1) by auto
  qed
  show ?thesis
  proof (cases strategy)
    case PostId
    let ?s = "?n - ?t"
    have "split_train_test account_id ids f PostId = Some (take ?s (sort ids), drop ?s (sort ids))"
      using t assms(1) by (simp add: split_train_test_def Let_def)
    moreover have part: "mset (take ?s (sort ids)) + mset (drop ?s (sort ids)) = mset ids"
      by (simp flip: mset_append)
    moreover have len: "length (drop ?s (sort ids)) = ?t" using t assms(1) by simp
    ultimately show ?thesis using sizes [OF part len] PostId by blast
  next
    case Random
    let ?I = "set (take ?t (shuffled account_id ?n))"
    have perm: "distinct (shuffled account_id ?n)" "set (shuffled account_id ?n) = {..<?n}" "length (shuffled account_id ?n) = ?n"
      using shuffled_perm [of account_id ?n] mset_eq_imp_distinct_iff mset_eq_setD mset_eq_length by (fastforce simp: atLeast0LessThan)+
    have "?I \<subseteq> {..<length (sort ids)}" using set_take_subset [of ?t "shuffled account_id ?n"] perm(2) by simp
    moreover have "card ?I = ?t" using perm(1,3) t assms(1) by (simp add: distinct_card)
    ultimately have len: "length (snd (pick_indices ?I (sort ids))) = ?t" using pick_indices_length by metis
    have part: "mset (fst (pick_indices ?I (sort ids))) + mset (snd (pick_indices ?I (sort ids))) = mset ids"
      using pick_indices_partition [of ?I "sort ids"] by simp
    have "split_train_test account_id ids f Random =
        Some (fst (pick_indices ?I (sort ids)), snd (pick_indices ?I (sort ids)))" by (simp add: split_train_test_def Let_def)
    then show ?thesis using sizes [OF part len] part len Random by blast
  qed (use assms(2) in auto)
qed

theorem split_is_partition_witness:
  "\<exists>train test. split_train_test 7 [30, 10, 20] (2 / 10) Random = Some (train, test) \<and> mset train + mset test = mset [30, 10, 20] \<and>
     length test = test_size (length [30, 10, 20 :: int]) (2 / 10) \<and> test \<noteq> [] \<and> train \<noteq> []"
  by (rule split_is_partition) simp_all

text \<open>The boundary: an account without favourites makes the split by post id panic.\<close>

lemma empty_split_panics: "split_train_test account_id [] f PostId = None"
  by (simp add: split_train_test_def test_size_def)

text \<open>The split by favourite time: nothing the profile was built from was favourited after the cutoff.\<close>

theorem favourites_split_causal:
  assumes "split_train_test_favourites favs cutoff = (train, test)"
  shows "mset train + mset test = mset (map fst favs) \<and>
    (\<forall>i \<in> set test. \<exists>ts. (i, Some ts) \<in> set favs \<and> cutoff \<le> ts) \<and>
    (\<forall>i \<in> set train. (i, None) \<in> set favs \<or> (\<exists>ts. (i, Some ts) \<in> set favs \<and> ts < cutoff))"
proof -
  have part: "image_mset fst (mset (filter (\<lambda>f. \<not> late f) fs)) + image_mset fst (mset (filter late fs)) = image_mset fst (mset fs)"
    for fs :: "(int \<times> int option) list" and late by (induction fs) auto
  then show ?thesis
    using assms by (force simp: split_train_test_favourites_def Let_def not_le split: option.splits)
qed

section \<open>Negatives\<close>

definition fresh_draws :: "int set \<Rightarrow> int set \<Rightarrow> draw_state \<Rightarrow> bool" where
  "fresh_draws X C st \<longleftrightarrow>
     (let (rng, seen, out) = st in distinct out \<and> set out \<subseteq> C - X \<and> seen = X \<union> set out)"

lemma draw_loop_fresh:
  assumes "\<And>rng rng' i. pick rng = (rng', Some i) \<Longrightarrow> i \<in> C" "fresh_draws X C st"
  shows "fresh_draws X C (draw_loop pick goal tries st)"
  using assms(2)
proof (induction tries arbitrary: st)
  case (Suc tries)
  obtain rng seen out where st: "st = (rng, seen, out)" by (cases st)
  obtain rng' c where p: "pick rng = (rng', c)" by fastforce
  have kept: "fresh_draws X C (rng', seen, out)" using Suc.prems by (simp add: st fresh_draws_def)
  have chosen: "fresh_draws X C (rng', insert i seen, out @ [i])" if "c = Some i" "i \<notin> seen" for i
    using Suc.prems assms(1) [of rng rng' i] p that by (auto simp: st fresh_draws_def)
  show ?case using Suc.IH [OF kept] Suc.IH [OF chosen] Suc.prems by (cases c) (simp_all add: st p)
qed simp

lemma draw_loop_bound: "length (snd (snd (draw_loop pick goal tries st))) \<le> max goal (length (snd (snd st)))"
proof (induction pick goal tries st rule: draw_loop.induct)
  case (2 pick goal tries rng seen out)
  obtain rng' c where p: "pick rng = (rng', c)" by fastforce
  show ?case using 2 p by (cases c) fastforce+
qed simp

text \<open>A catalog whose orders point into it.\<close>

definition catalog_ok :: "CatalogIndex \<Rightarrow> bool" where
  "catalog_ok c \<longleftrightarrow>
     (\<forall>i \<in> set (ci_by_fav c). i < length (ci_ids c)) \<and> (\<forall>i \<in> set (ci_by_age c). i < length (ci_ids c))"

lemma catalog_of_ok: "catalog_ok (catalog_of rows)"
  by (simp add: catalog_ok_def catalog_of_def order_by_def Let_def)

lemma catalog_restrict_ids:
  assumes "length (ci_fav_counts c) = length (ci_ids c)" "length (ci_created_at_epoch c) = length (ci_ids c)"
  shows "set (ci_ids (catalog_restrict keep c)) = set (ci_ids c) \<inter> keep"
proof -
  have "set (map fst (filter (\<lambda>(i, f, t). i \<in> keep) rows)) = set (map fst rows) \<inter> keep" for rows :: "(int \<times> int \<times> int) list"
    by force
  moreover have "map fst (catalog_rows c) = ci_ids c" using assms by (simp add: catalog_rows_def)
  ultimately have "set (map fst (filter (\<lambda>(i, f, t). i \<in> keep) (catalog_rows c))) = set (ci_ids c) \<inter> keep" by metis
  then show ?thesis by (simp add: catalog_restrict_def catalog_of_def Let_def)
qed

lemma pick_uniform_mem: "catalog \<noteq> [] \<Longrightarrow> pick_uniform catalog rng = (rng', Some i) \<Longrightarrow> i \<in> set catalog"
  by (auto simp: pick_uniform_def draw_below_def Let_def)

lemma partition_point_le: "partition_point pr xs \<le> length xs"
  by (simp add: partition_point_def length_takeWhile_le)

lemma pick_window_mem:
  assumes "pick_window ids order vals lo hi rng = (rng', Some i)" "\<forall>j \<in> set order. j < length ids"
  shows "i \<in> set ids"
proof -
  let ?lo = "partition_point (\<lambda>i. vals ! i < lo) order" and ?hi = "partition_point (\<lambda>i. vals ! i \<le> hi) order"
  have lt: "?lo < ?hi" and i: "i = ids ! (order ! (?lo + draw_below (?hi - ?lo) rng'))"
    using assms(1) by (auto simp: pick_window_def Let_def split: if_splits)
  have "draw_below (?hi - ?lo) rng' < ?hi - ?lo" using lt by (simp add: draw_below_def)
  then have "?lo + draw_below (?hi - ?lo) rng' < length order"
    using partition_point_le [of "\<lambda>i. vals ! i \<le> hi" order] by linarith
  then show ?thesis using assms(2) i by simp
qed

lemma pick_popular_mem: "catalog_ok c \<Longrightarrow> pick_popular c ps rng = (rng', Some i) \<Longrightarrow> i \<in> set (ci_ids c)"
  unfolding pick_popular_def Let_def catalog_ok_def by (blast intro: pick_window_mem)

lemma pick_recent_mem: "catalog_ok c \<Longrightarrow> pick_recent c ps rng = (rng', Some i) \<Longrightarrow> i \<in> set (ci_ids c)"
  unfolding pick_recent_def Let_def catalog_ok_def by (blast intro: pick_window_mem)

lemma round_count_le: "0 \<le> x \<Longrightarrow> real (round_count x) \<le> x + 1 / 2"
  unfolding round_count_def by (simp add: of_nat_nat)

lemma strata_fit: "round_count (real n * (40 / 100)) + round_count (real n * (30 / 100)) \<le> n"
proof (cases "n < 4")
  case True
  then have "n = 0 \<or> n = 1 \<or> n = 2 \<or> n = 3" by linarith
  then show ?thesis by (auto simp: round_count_def)
next
  case False
  have "real (round_count (real n * (40 / 100))) \<le> real n * (40 / 100) + 1 / 2"
    "real (round_count (real n * (30 / 100))) \<le> real n * (30 / 100) + 1 / 2" by (rule round_count_le, simp)+
  then have "real (round_count (real n * (40 / 100)) + round_count (real n * (30 / 100))) \<le> real n" using False by simp
  then show ?thesis by linarith
qed

text \<open>C40. The negatives of an account come from the catalog, are distinct, avoid every excluded id and are at
  most as many as asked for, whatever the generator draws.\<close>

theorem negatives_are_fresh:
  assumes "catalog_ok c" "sample_negatives_mixed c excluded test_posts target account_id = (out, seen)"
  shows "distinct out \<and> set out \<subseteq> set (ci_ids c) - set excluded \<and> seen = set excluded \<union> set out \<and> length out \<le> target"
proof (cases "ci_ids c = [] \<or> test_posts = []")
  case True
  then show ?thesis using assms(2) by (auto simp: sample_negatives_mixed_def)
next
  case False
  let ?C = "set (ci_ids c)" and ?X = "set excluded"
  let ?u = "round_count (real target * (40 / 100))" and ?p = "round_count (real target * (30 / 100))"
  define st0 where "st0 = (account_seed NEG_SAMPLE_SEED account_id, ?X, [] :: int list)"
  define st1 where "st1 = draw_loop (pick_uniform (ci_ids c)) ?u (max 100 (?u * 5)) st0"
  define st2 where "st2 = (if ci_by_fav c = [] then st1
    else draw_loop (pick_popular c test_posts) (length (snd (snd st1)) + ?p) (max 100 (?p * 5)) st1)"
  define st3 where "st3 = (if ci_by_age c = [] then st2
    else draw_loop (pick_recent c test_posts) (length (snd (snd st2)) + (target - (?u + ?p))) (max 100 ((target - (?u + ?p)) * 5)) st2)"
  define st4 where "st4 = draw_loop (pick_uniform (ci_ids c)) target (max 50 ((target - length (snd (snd st3))) * 5)) st3"
  have result: "out = snd (snd st4)" "seen = fst (snd st4)"
  proof -
    have "sample_negatives_mixed c excluded test_posts target account_id = (snd (snd st4), fst (snd st4))"
      unfolding sample_negatives_mixed_def Let_def st4_def st3_def st2_def st1_def st0_def by (simp only: False if_False)
    then show "out = snd (snd st4)" "seen = fst (snd st4)" using assms(2) by simp_all
  qed
  have uniform: "\<And>rng rng' i. pick_uniform (ci_ids c) rng = (rng', Some i) \<Longrightarrow> i \<in> ?C" using False pick_uniform_mem by blast
  have "fresh_draws ?X ?C st0" by (simp add: st0_def fresh_draws_def)
  then have "fresh_draws ?X ?C st1" unfolding st1_def by (rule draw_loop_fresh [rotated]) (rule uniform)
  then have "fresh_draws ?X ?C st2" unfolding st2_def using draw_loop_fresh [OF pick_popular_mem [OF assms(1)]] by simp
  then have "fresh_draws ?X ?C st3" unfolding st3_def using draw_loop_fresh [OF pick_recent_mem [OF assms(1)]] by simp
  then have fresh: "fresh_draws ?X ?C st4" unfolding st4_def by (rule draw_loop_fresh [rotated]) (rule uniform)
  have "length (snd (snd st1)) \<le> ?u" unfolding st1_def using draw_loop_bound [of _ ?u _ st0] by (simp add: st0_def)
  moreover have "length (snd (snd st2)) \<le> length (snd (snd st1)) + ?p"
    unfolding st2_def using draw_loop_bound [of _ "length (snd (snd st1)) + ?p" _ st1] by simp
  moreover have "length (snd (snd st3)) \<le> length (snd (snd st2)) + (target - (?u + ?p))"
    unfolding st3_def using draw_loop_bound [of _ "length (snd (snd st2)) + (target - (?u + ?p))" _ st2] by simp
  ultimately have "length (snd (snd st3)) \<le> target" using strata_fit [of target] by linarith
  then have "length out \<le> target" unfolding result st4_def using draw_loop_bound [of _ target _ st3] by fastforce
  then show ?thesis using fresh unfolding result by (auto simp: fresh_draws_def split: prod.splits)
qed

theorem negatives_are_fresh_witness:
  "let (out, seen) = sample_negatives_mixed (catalog_of [(1, 5, 0), (2, 9, 40), (3, 7, 90)]) [2] [sample_post 2 0 []] 2 7 in
   distinct out \<and> set out \<subseteq> set (ci_ids (catalog_of [(1, 5, 0), (2, 9, 40), (3, 7, 90)])) - set [2] \<and> seen = set [2] \<union> set out \<and>
   length out \<le> 2"
proof -
  obtain out seen where r: "sample_negatives_mixed (catalog_of [(1, 5, 0), (2, 9, 40), (3, 7, 90)]) [2] [sample_post 2 0 []] 2 7 = (out, seen)"
    by fastforce
  show ?thesis unfolding r Let_def prod.case by (rule negatives_are_fresh [OF catalog_of_ok r])
qed

end
