(* ===== verification/Catalog.thy ===== *)
theory Catalog
  imports Posts Idf Hydrate_Cache
begin

text \<open>
  The catalog of posts and tags, \<open>parser-api/src/db/posts.rs\<close> and \<open>db/tags.rs\<close>: how a post becomes a
  row, how its tags become postings, how both are read back, and how deletions and replacements keep the
  document frequencies of the tags and of the index in memory.

  A table is the list of its rows in the order of insertion; a statement without \<open>ORDER BY\<close> returns them in that
  order.  A stamp is stored as its instant: the text the code writes holds the nanoseconds and is parsed back exactly.
  A transaction is one step, and changes nothing when it fails.
\<close>

section \<open>Rows\<close>

record PostRow =
  pr_id :: int
  pr_created_at :: int
  pr_updated_at :: "int option"
  pr_score_total :: int
  pr_fav_count :: int
  pr_rating :: ustr
  pr_last_seen_at :: int
  pr_file_ext :: "ustr option"
  pr_file_width :: "int option"
  pr_file_height :: "int option"
  pr_file_size :: "int option"
  pr_is_animated :: int
  pr_duration :: "f64 option"
  pr_comment_count :: int
  pr_has_notes :: int
  pr_is_deleted :: int
  pr_has_children :: int
  pr_preview_url :: "ustr option"
  pr_sample_url :: "ustr option"
  pr_file_url :: "ustr option"
  pr_score_up :: int
  pr_score_down :: int
  pr_sample_width :: "int option"
  pr_sample_height :: "int option"
  pr_preview_width :: "int option"
  pr_preview_height :: "int option"
  pr_uploader_id :: "int option"

record TagRow =
  tg_id :: int
  tg_name :: ustr
  tg_group :: ustr
  tg_df :: int

text \<open>The tables; the sequence is the last id \<open>AUTOINCREMENT\<close> gave to a tag, the media are the posts whose original is
  stored on disk.\<close>

record Catalog_DB =
  cat_posts :: "PostRow list"
  cat_tags :: "TagRow list"
  cat_tag_seq :: int
  cat_tags_posts :: "(int \<times> int) list"
  cat_accounts :: "int list"
  cat_accounts_post :: "(int \<times> int \<times> int) list"
  cat_cooccurrence :: "(int \<times> int, int) table"
  cat_account_cooccurrence :: "(int \<times> int \<times> int, int) table"
  cat_tag_counts :: "(int \<times> ustr \<times> ustr \<times> int) list"
  cat_preferred_tags :: "(int \<times> ustr \<times> f64) list"
  cat_quality :: "(int, f64) table"
  cat_media :: "int list"

definition empty_catalog :: Catalog_DB where
  "empty_catalog = \<lparr>cat_posts = [], cat_tags = [], cat_tag_seq = 0, cat_tags_posts = [], cat_accounts = [], cat_accounts_post = [],
     cat_cooccurrence = [], cat_account_cooccurrence = [], cat_tag_counts = [], cat_preferred_tags = [], cat_quality = [],
     cat_media = []\<rparr>"

datatype CatalogError = NoSuchPost int | NoSuchAccount int | BadRating int ustr

section \<open>Writing posts\<close>

definition or_else :: "'a option \<Rightarrow> 'a option \<Rightarrow> 'a option" where
  "or_else a b = (case a of None \<Rightarrow> b | Some x \<Rightarrow> Some x)"

definition flag :: "bool \<Rightarrow> int" where
  "flag b = (if b then 1 else 0)"

definition post_upsert_params :: "int \<Rightarrow> Post \<Rightarrow> PostRow" where
  "post_upsert_params now post =
     (let pv = preview (files post); sm = f_sample (files post);
          preview_url = or_else (or_else (or_else (pv_url pv) (pv_alt pv)) (pv_jpg pv)) (pv_webp pv);
          sample_url = or_else (or_else (or_else (sm_url sm) (sm_alt sm)) (sm_jpg sm)) (sm_webp sm)
      in \<lparr>pr_id = p_id post, pr_created_at = created_at post, pr_updated_at = Some (updated_at post),
          pr_score_total = total (st_score (stats post)), pr_fav_count = fav_count (stats post),
          pr_rating = rating_text (rating post), pr_last_seen_at = now,
          pr_file_ext = ext (f_meta (files post)), pr_file_width = Some (o_width (original (files post))),
          pr_file_height = Some (o_height (original (files post))), pr_file_size = Some (file_size (f_meta (files post))),
          pr_is_animated = flag (is_animated post), pr_duration = duration (f_meta (files post)),
          pr_comment_count = comment_count (stats post), pr_has_notes = flag (has_notes (has post)),
          pr_is_deleted = flag (deleted (flags post)), pr_has_children = flag (has_children (has post)),
          pr_preview_url = preview_url, pr_sample_url = sample_url, pr_file_url = o_url (original (files post)),
          pr_score_up = up (st_score (stats post)), pr_score_down = down (st_score (stats post)),
          pr_sample_width = map_option (\<lambda>_. sm_width sm) sample_url, pr_sample_height = map_option (\<lambda>_. sm_height sm) sample_url,
          pr_preview_width = Some (pv_width pv), pr_preview_height = Some (pv_height pv),
          pr_uploader_id = Some (uploader_id post)\<rparr>)"

text \<open>On a conflict the row keeps its creation date and every URL or size the new post does not have.\<close>

definition merge_row :: "PostRow \<Rightarrow> PostRow \<Rightarrow> PostRow" where
  "merge_row old new =
     new\<lparr>pr_created_at := pr_created_at old, pr_preview_url := or_else (pr_preview_url new) (pr_preview_url old),
       pr_sample_url := or_else (pr_sample_url new) (pr_sample_url old), pr_file_url := or_else (pr_file_url new) (pr_file_url old),
       pr_sample_width := or_else (pr_sample_width new) (pr_sample_width old),
       pr_sample_height := or_else (pr_sample_height new) (pr_sample_height old),
       pr_preview_width := or_else (pr_preview_width new) (pr_preview_width old),
       pr_preview_height := or_else (pr_preview_height new) (pr_preview_height old)\<rparr>"

definition post_ids :: "Catalog_DB \<Rightarrow> int list" where
  "post_ids db = map pr_id (cat_posts db)"

definition POST_UPSERT_SQL :: "PostRow \<Rightarrow> Catalog_DB \<Rightarrow> Catalog_DB" where
  "POST_UPSERT_SQL row db =
     (if pr_id row \<in> set (post_ids db)
      then db\<lparr>cat_posts := map (\<lambda>r. if pr_id r = pr_id row then merge_row r row else r) (cat_posts db)\<rparr>
      else db\<lparr>cat_posts := cat_posts db @ [row]\<rparr>)"

definition upsert_catalog_posts_in_tx :: "int \<Rightarrow> Post list \<Rightarrow> Catalog_DB \<Rightarrow> Catalog_DB" where
  "upsert_catalog_posts_in_tx now ps db = fold (\<lambda>p. POST_UPSERT_SQL (post_upsert_params now p)) ps db"

definition link_account :: "int \<Rightarrow> int \<Rightarrow> int \<Rightarrow> Catalog_DB \<Rightarrow> Catalog_DB" where
  "link_account account post added_at db =
     (if list_ex (\<lambda>(a, p, _). a = account \<and> p = post) (cat_accounts_post db) then db
      else db\<lparr>cat_accounts_post := cat_accounts_post db @ [(account, post, added_at)]\<rparr>)"

definition save_posts_in_tx :: "int \<Rightarrow> Post list \<Rightarrow> int \<Rightarrow> Catalog_DB \<Rightarrow> CatalogError + Catalog_DB" where
  "save_posts_in_tx now ps account db =
     (if ps \<noteq> [] \<and> account \<notin> set (cat_accounts db) then Inl (NoSuchAccount account)
      else Inr (fold (\<lambda>p d. link_account account (p_id p) now (POST_UPSERT_SQL (post_upsert_params now p) d)) ps db))"

section \<open>Writing tags\<close>

definition upsert_tag :: "ustr \<Rightarrow> ustr \<Rightarrow> Catalog_DB \<Rightarrow> int \<times> Catalog_DB" where
  "upsert_tag name grp db =
     (case List.find (\<lambda>r. tg_name r = name \<and> tg_group r = grp) (cat_tags db) of
        Some r \<Rightarrow> (tg_id r, db)
      | None \<Rightarrow> let i = cat_tag_seq db + 1
                in (i, db\<lparr>cat_tags := cat_tags db @ [\<lparr>tg_id = i, tg_name = name, tg_group = grp, tg_df = 0\<rparr>], cat_tag_seq := i\<rparr>))"

definition tag_items :: "Post \<Rightarrow> (ustr \<times> ustr) list" where
  "tag_items post =
     (let t = tags post
      in map (Pair (lit ''artist'')) (artist t) @ map (Pair (lit ''character'')) (character t) @
         map (Pair (lit ''copyright'')) (copyright t) @ map (Pair (lit ''general'')) (general t) @
         map (Pair (lit ''lore'')) (lore t) @ map (Pair (lit ''species'')) (species t) @ map (Pair (lit ''meta'')) (meta t))"

text \<open>The cache of tag ids of a batch only saves the statement: it holds what the statement returns.\<close>

record Tag_Batch =
  tb_db :: Catalog_DB
  tb_delta :: "(int, int) table"
  tb_touched :: "int set"
  tb_ids :: "int list"

definition save_tag :: "int \<Rightarrow> ustr set \<Rightarrow> ustr \<times> ustr \<Rightarrow> Tag_Batch \<Rightarrow> Tag_Batch" where
  "save_tag pid blacklist = (\<lambda>(grp, tag) b.
     let tag_lc = to_ascii_lowercase tag
     in if tag = [] \<or> tag_lc \<in> blacklist then b
        else let (i, db) = upsert_tag tag_lc grp (tb_db b); fresh = (i, pid) \<notin> set (cat_tags_posts db)
             in \<lparr>tb_db = (if fresh then db\<lparr>cat_tags_posts := cat_tags_posts db @ [(i, pid)]\<rparr> else db),
                 tb_delta = (if fresh then tbl_insert i ((case tbl_get (tb_delta b) i of None \<Rightarrow> 0 | Some n \<Rightarrow> n) + 1) (tb_delta b)
                   else tb_delta b),
                 tb_touched = insert i (tb_touched b), tb_ids = tb_ids b @ [i]\<rparr>)"

fun pairs_of :: "int list \<Rightarrow> (int \<times> int) list" where
  "pairs_of [] = []"
| "pairs_of (a # bs) = map (\<lambda>b. if a < b then (a, b) else (b, a)) bs @ pairs_of bs"

definition count_up :: "'k \<Rightarrow> ('k, int) table \<Rightarrow> ('k, int) table" where
  "count_up k t = tbl_insert k ((case tbl_get t k of None \<Rightarrow> 0 | Some n \<Rightarrow> n) + 1) t"

definition upsert_cooccurrence_pairs :: "int list \<Rightarrow> Catalog_DB \<Rightarrow> Catalog_DB" where
  "upsert_cooccurrence_pairs ids db = db\<lparr>cat_cooccurrence := fold count_up (pairs_of ids) (cat_cooccurrence db)\<rparr>"

definition upsert_account_cooccurrence_pairs :: "int \<Rightarrow> int list \<Rightarrow> Catalog_DB \<Rightarrow> Catalog_DB" where
  "upsert_account_cooccurrence_pairs account ids db =
     db\<lparr>cat_account_cooccurrence := fold (\<lambda>(a, b). count_up (account, a, b)) (pairs_of ids) (cat_account_cooccurrence db)\<rparr>"

definition has_postings :: "int \<Rightarrow> Catalog_DB \<Rightarrow> bool" where
  "has_postings pid db \<longleftrightarrow> list_ex (\<lambda>(t, p). p = pid) (cat_tags_posts db)"

definition save_post_tags :: "ustr set \<Rightarrow> bool \<Rightarrow> int option \<Rightarrow> Post \<Rightarrow> Tag_Batch \<times> bool \<Rightarrow> Tag_Batch \<times> bool" where
  "save_post_tags blacklist track account_id post = (\<lambda>(b, cooc_dirty).
     let pid = p_id post;
         had_tags = (track \<longrightarrow> has_postings pid (tb_db b));
         b1 = fold (save_tag pid blacklist) (tag_items post) (b\<lparr>tb_ids := []\<rparr>);
         multi = length (tb_ids b1) \<ge> 2;
         ids = (if multi then remdups_adj (sort (tb_ids b1)) else tb_ids b1);
         global = (track \<and> \<not> had_tags \<and> multi);
         db1 = (if global then upsert_cooccurrence_pairs ids (tb_db b1) else tb_db b1);
         db2 = (case account_id of Some a \<Rightarrow> (if track \<and> multi then upsert_account_cooccurrence_pairs a ids db1 else db1) | None \<Rightarrow> db1)
     in (b1\<lparr>tb_db := db2\<rparr>, cooc_dirty \<or> global))"

definition df_of :: "Catalog_DB \<Rightarrow> int \<Rightarrow> int" where
  "df_of db i = int (length (filter (\<lambda>(t, p). t = i) (cat_tags_posts db)))"

definition recompute_df_for_tags :: "int set \<Rightarrow> Catalog_DB \<Rightarrow> Catalog_DB" where
  "recompute_df_for_tags ids db =
     db\<lparr>cat_tags := map (\<lambda>r. if tg_id r \<in> ids then r\<lparr>tg_df := df_of db (tg_id r)\<rparr> else r) (cat_tags db)\<rparr>"

definition name_of_id :: "Catalog_DB \<Rightarrow> int \<Rightarrow> ustr option" where
  "name_of_id db i = map_option tg_name (List.find (\<lambda>r. tg_id r = i) (cat_tags db))"

text \<open>Collecting into a map: of two deltas under one name the later stays.\<close>

definition deltas_by_name :: "Catalog_DB \<Rightarrow> (int, int) table \<Rightarrow> (ustr, int) table" where
  "deltas_by_name db deltas =
     fold (\<lambda>(i, n) t. case name_of_id db i of None \<Rightarrow> t | Some name \<Rightarrow> tbl_insert name n t) deltas []"

record TagBatchEffects =
  df_delta_by_name :: "(ustr, int) table"
  te_cooc_dirty :: bool

definition no_effects :: TagBatchEffects where
  "no_effects = \<lparr>df_delta_by_name = [], te_cooc_dirty = False\<rparr>"

definition apply_effects :: "TagBatchEffects \<Rightarrow> IdfIndex \<Rightarrow> IdfIndex" where
  "apply_effects e x = (if df_delta_by_name e = [] then x else bump (df_delta_by_name e) 0 x)"

text \<open>A posting needs its post: the first post that has tags to link and no row fails the batch.\<close>

definition linkable :: "ustr set \<Rightarrow> Post \<Rightarrow> bool" where
  "linkable blacklist post \<longleftrightarrow> list_ex (\<lambda>(grp, tag). tag \<noteq> [] \<and> to_ascii_lowercase tag \<notin> blacklist) (tag_items post)"

definition save_posts_tags_batch_in_tx ::
  "Post list \<Rightarrow> ustr set \<Rightarrow> bool \<Rightarrow> int option \<Rightarrow> Catalog_DB \<Rightarrow> CatalogError + (TagBatchEffects \<times> Catalog_DB)" where
  "save_posts_tags_batch_in_tx ps blacklist track account_id db =
     (case List.find (\<lambda>p. linkable blacklist p \<and> p_id p \<notin> set (post_ids db)) ps of
        Some p \<Rightarrow> Inl (NoSuchPost (p_id p))
      | None \<Rightarrow>
          let (b, dirty) = fold (save_post_tags blacklist track account_id) ps
                (\<lparr>tb_db = db, tb_delta = [], tb_touched = {}, tb_ids = []\<rparr>, False);
              db' = recompute_df_for_tags (tb_touched b) (tb_db b)
          in Inr (\<lparr>df_delta_by_name = deltas_by_name db' (tb_delta b), te_cooc_dirty = dirty\<rparr>, db'))"

definition save_posts_with_tags ::
  "int \<Rightarrow> Post list \<Rightarrow> int \<Rightarrow> ustr set \<Rightarrow> bool \<Rightarrow> int option \<Rightarrow> Catalog_DB \<Rightarrow> CatalogError + (TagBatchEffects \<times> Catalog_DB)" where
  "save_posts_with_tags now ps account blacklist track cooc_account db =
     (if ps = [] then Inr (no_effects, db)
      else case save_posts_in_tx now ps account db of
        Inl e \<Rightarrow> Inl e
      | Inr db1 \<Rightarrow> save_posts_tags_batch_in_tx ps blacklist track cooc_account db1)"

definition upsert_catalog_posts_with_tags :: "int \<Rightarrow> Post list \<Rightarrow> Catalog_DB \<Rightarrow> CatalogError + (TagBatchEffects \<times> Catalog_DB)" where
  "upsert_catalog_posts_with_tags now ps db =
     (if ps = [] then Inr (no_effects, db)
      else save_posts_tags_batch_in_tx ps {} False None (upsert_catalog_posts_in_tx now ps db))"

definition replace_posts_tags_batch :: "Post list \<Rightarrow> Catalog_DB \<Rightarrow> CatalogError + (TagBatchEffects \<times> Catalog_DB)" where
  "replace_posts_tags_batch ps db =
     (if ps = [] then Inr (no_effects, db)
      else save_posts_tags_batch_in_tx ps {} False None
        (fold (\<lambda>p d. d\<lparr>cat_tags_posts := filter (\<lambda>(t, q). q \<noteq> p_id p) (cat_tags_posts d)\<rparr>) ps db))"

section \<open>Lists in chunks\<close>

text \<open>\<open>slice::chunks\<close>: statements over a list of ids are split to stay below the number of variables one may have.\<close>

function chunks :: "nat \<Rightarrow> 'a list \<Rightarrow> 'a list list" where
  "chunks n xs = (if xs = [] \<or> n = 0 then [] else take n xs # chunks n (drop n xs))"
  by pat_completeness auto
termination by (relation "measure (\<lambda>(n, xs). length xs)") auto

declare chunks.simps [simp del]

lemma concat_chunks: "0 < n \<Longrightarrow> concat (chunks n xs) = xs"
  by (induction n xs rule: chunks.induct) (subst chunks.simps, simp)

lemma in_chunks: "0 < n \<Longrightarrow> (\<exists>ch \<in> set (chunks n xs). x \<in> set ch) \<longleftrightarrow> x \<in> set xs"
  using arg_cong [OF concat_chunks [of n xs], of set] by auto

definition IN_CLAUSE_CHUNK :: nat where "IN_CLAUSE_CHUNK = 1000"
definition CHUNK :: nat where "CHUNK = 800"

lemma find_Some: "List.find P xs = Some x \<Longrightarrow> x \<in> set xs \<and> P x"
  by (metis find_Some_iff in_set_conv_nth)

section \<open>Deleting posts\<close>

record PostDeleteEffects =
  removed :: nat
  df_delta :: "(ustr, int) table"

definition apply_post_delete_effects :: "PostDeleteEffects \<Rightarrow> IdfIndex \<Rightarrow> IdfIndex" where
  "apply_post_delete_effects e x = (if removed e = 0 then x else bump (df_delta e) (- int (removed e)) x)"

definition postings_of_chunk :: "Catalog_DB \<Rightarrow> int list \<Rightarrow> (int, int) table \<Rightarrow> (int, int) table" where
  "postings_of_chunk db chunk t =
     (let hits = map fst (filter (\<lambda>(i, p). p \<in> set chunk) (cat_tags_posts db))
      in fold (\<lambda>i t. tbl_insert i ((case tbl_get t i of None \<Rightarrow> 0 | Some n \<Rightarrow> n) + int (count_list hits i)) t) (remdups hits) t)"

text \<open>A post takes its postings, its owners and its file of the media index with it.\<close>

definition delete_rows :: "int list \<Rightarrow> Catalog_DB \<Rightarrow> Catalog_DB" where
  "delete_rows ids db =
     db\<lparr>cat_posts := filter (\<lambda>r. pr_id r \<notin> set ids) (cat_posts db),
        cat_tags_posts := filter (\<lambda>(t, p). p \<notin> set ids) (cat_tags_posts db),
        cat_accounts_post := filter (\<lambda>(a, p, _). p \<notin> set ids) (cat_accounts_post db),
        cat_media := filter (\<lambda>p. p \<notin> set ids) (cat_media db)\<rparr>"

definition delete_chunk :: "int list \<Rightarrow> nat \<times> Catalog_DB \<Rightarrow> nat \<times> Catalog_DB" where
  "delete_chunk ids = (\<lambda>(n, db). (n + length (filter (\<lambda>r. pr_id r \<in> set ids) (cat_posts db)), delete_rows ids db))"

definition delete_posts_by_ids_in_tx :: "int list \<Rightarrow> Catalog_DB \<Rightarrow> PostDeleteEffects \<times> Catalog_DB" where
  "delete_posts_by_ids_in_tx ids db =
     (if ids = [] then (\<lparr>removed = 0, df_delta = []\<rparr>, db)
      else let postings = fold (postings_of_chunk db) (chunks IN_CLAUSE_CHUNK ids) [];
               (n, db1) = fold delete_chunk (chunks IN_CLAUSE_CHUNK ids) (0, db);
               db2 = recompute_df_for_tags (fst ` set postings) db1
           in (\<lparr>removed = n, df_delta = deltas_by_name db (map (\<lambda>(i, c). (i, - c)) postings)\<rparr>, db2))"

definition orphans :: "int \<Rightarrow> Catalog_DB \<Rightarrow> int list" where
  "orphans cutoff db =
     map pr_id (filter (\<lambda>r. pr_last_seen_at r < cutoff \<and> \<not> list_ex (\<lambda>(a, p, _). p = pr_id r) (cat_accounts_post db)) (cat_posts db))"

lemma delete_rows_twice: "delete_rows ys (delete_rows xs db) = delete_rows (xs @ ys) db"
  unfolding delete_rows_def by (simp add: split_def)

lemma count_split:
  "length (filter (\<lambda>r. pr_id r \<in> set (xs @ ys)) rs) =
    length (filter (\<lambda>r. pr_id r \<in> set xs) rs) + length (filter (\<lambda>r. pr_id r \<in> set ys) (filter (\<lambda>r. pr_id r \<notin> set xs) rs))"
  by (induction rs) auto

lemma posts_delete_rows [simp]: "cat_posts (delete_rows ids db) = filter (\<lambda>r. pr_id r \<notin> set ids) (cat_posts db)"
  by (simp add: delete_rows_def)

lemma delete_rows_Nil [simp]: "delete_rows [] db = db"
  unfolding delete_rows_def by (simp add: split_def)

lemma delete_chunks_rows:
  "fold delete_chunk chs (n, db) =
    (n + length (filter (\<lambda>r. pr_id r \<in> set (concat chs)) (cat_posts db)), delete_rows (concat chs) db)"
proof (induction chs arbitrary: n db)
  case (Cons ch chs)
  have "fold delete_chunk (ch # chs) (n, db) =
      fold delete_chunk chs (n + length (filter (\<lambda>r. pr_id r \<in> set ch) (cat_posts db)), delete_rows ch db)"
    by (simp add: delete_chunk_def)
  then show ?case unfolding Cons.IH by (simp only: concat.simps count_split delete_rows_twice posts_delete_rows add.assoc)
qed simp

lemma chunks_Nil [simp]: "chunks n [] = []"
  by (simp add: chunks.simps)

lemma chunks_eq_Nil: "0 < n \<Longrightarrow> chunks n xs = [] \<longleftrightarrow> xs = []"
  by (simp add: chunks.simps [of n xs])

lemma delete_posts_cases:
  "ids \<noteq> [] \<Longrightarrow> delete_posts_by_ids_in_tx ids db =
    (let postings = fold (postings_of_chunk db) (chunks IN_CLAUSE_CHUNK ids) []
     in (\<lparr>removed = length (filter (\<lambda>r. pr_id r \<in> set ids) (cat_posts db)),
          df_delta = deltas_by_name db (map (\<lambda>(i, c). (i, - c)) postings)\<rparr>,
         recompute_df_for_tags (fst ` set postings) (delete_rows ids db)))"
  using delete_chunks_rows [of "chunks IN_CLAUSE_CHUNK ids" 0 db]
  by (simp add: delete_posts_by_ids_in_tx_def concat_chunks IN_CLAUSE_CHUNK_def chunks_eq_Nil del: set_concat)

lemma removed_delete:
  "removed (fst (delete_posts_by_ids_in_tx ids db)) = length (filter (\<lambda>r. pr_id r \<in> set ids) (cat_posts db))"
  by (cases "ids = []") (simp_all add: delete_posts_by_ids_in_tx_def [of "[]"] delete_posts_cases Let_def)

lemma posts_delete:
  "cat_posts (snd (delete_posts_by_ids_in_tx ids db)) = filter (\<lambda>r. pr_id r \<notin> set ids) (cat_posts db)"
  by (cases "ids = []")
    (simp_all add: delete_posts_by_ids_in_tx_def [of "[]"] delete_posts_cases Let_def delete_rows_def recompute_df_for_tags_def)

definition ORPHAN_PRUNE_BATCH :: nat where "ORPHAN_PRUNE_BATCH = 5000"

function prune_orphan_posts_batched :: "int \<Rightarrow> nat \<Rightarrow> Catalog_DB \<times> IdfIndex \<Rightarrow> nat \<times> Catalog_DB \<times> IdfIndex" where
  "prune_orphan_posts_batched cutoff batch (db, idf) =
     (let (e, db') = delete_posts_by_ids_in_tx (take batch (orphans cutoff db)) db;
          idf' = apply_post_delete_effects e idf
      in if removed e = 0 then (0, db', idf')
         else let (n, rest) = prune_orphan_posts_batched cutoff batch (db', idf') in (removed e + n, rest))"
  by pat_completeness auto
termination
proof (relation "measure (\<lambda>(cutoff, batch, db, idf). length (cat_posts db))")
  fix cutoff batch db idf e db' idf' and p
  assume "p = delete_posts_by_ids_in_tx (take batch (orphans cutoff db)) db" "(e, db') = p"
    "idf' = apply_post_delete_effects e idf" "removed e \<noteq> 0"
  then have *: "e = fst (delete_posts_by_ids_in_tx (take batch (orphans cutoff db)) db)" "db' = snd (delete_posts_by_ids_in_tx (take batch (orphans cutoff db)) db)"
    by (metis fst_conv, metis snd_conv)
  let ?P = "\<lambda>r. pr_id r \<in> set (take batch (orphans cutoff db))"
  have "length (filter ?P (cat_posts db)) + length (filter (\<lambda>r. \<not> ?P r) (cat_posts db)) = length (cat_posts db)"
    by (rule sum_length_filter_compl)
  then show "((cutoff, batch, db', idf'), (cutoff, batch, db, idf)) \<in> measure (\<lambda>(cutoff, batch, db, idf). length (cat_posts db))"
    using \<open>removed e \<noteq> 0\<close> by (simp only: in_measure case_prod_conv posts_delete * removed_delete)
qed simp

declare prune_orphan_posts_batched.simps [simp del]

text \<open>The two prunings also mark the tag graph as out of date when they removed something; the flag is the last component.\<close>

definition prune_orphan_candidates ::
  "int \<Rightarrow> int \<Rightarrow> Catalog_DB \<times> IdfIndex \<Rightarrow> (nat \<times> nat) \<times> (Catalog_DB \<times> IdfIndex) \<times> bool" where
  "prune_orphan_candidates now retention_secs = (\<lambda>(db, idf).
     let cutoff = now - secs retention_secs; before = length (orphans cutoff db)
     in if before = 0 then ((0, 0), (db, idf), False)
        else let (deleted, st) = prune_orphan_posts_batched cutoff ORPHAN_PRUNE_BATCH (db, idf)
             in ((before, before - deleted), st, deleted > 0))"

definition prune_stale_catalog_posts :: "int \<Rightarrow> int \<Rightarrow> Catalog_DB \<times> IdfIndex \<Rightarrow> nat \<times> (Catalog_DB \<times> IdfIndex) \<times> bool" where
  "prune_stale_catalog_posts now retention_days s =
     (let (deleted, st) = prune_orphan_posts_batched (now - secs (retention_days * 86400)) ORPHAN_PRUNE_BATCH s
      in (deleted, st, deleted > 0))"

definition exclusively_owned :: "Catalog_DB \<Rightarrow> int \<Rightarrow> int list" where
  "exclusively_owned db account =
     map (\<lambda>(a, p, _). p) (filter (\<lambda>(a, p, _). a = account \<and> \<not> list_ex (\<lambda>(b, q, _). q = p \<and> b \<noteq> account) (cat_accounts_post db))
       (cat_accounts_post db))"

definition drop_account_posts :: "int \<Rightarrow> Catalog_DB \<Rightarrow> IdfIndex \<Rightarrow> HydrateCaches \<Rightarrow> Catalog_DB \<times> IdfIndex \<times> HydrateCaches" where
  "drop_account_posts account db idf caches =
     (let (e, db') = delete_posts_by_ids_in_tx (exclusively_owned db account) db
      in (db'\<lparr>cat_accounts_post := filter (\<lambda>(a, _). a \<noteq> account) (cat_accounts_post db')\<rparr>, apply_post_delete_effects e idf,
          clear_owned_and_candidates caches account))"

definition drop_account_cooccurrence :: "int \<Rightarrow> Catalog_DB \<Rightarrow> nat \<times> Catalog_DB" where
  "drop_account_cooccurrence account db =
     (length (filter (\<lambda>((a, _), _). a = account) (cat_account_cooccurrence db)),
      db\<lparr>cat_account_cooccurrence := filter (\<lambda>((a, _), _). a \<noteq> account) (cat_account_cooccurrence db)\<rparr>)"

section \<open>Reading posts\<close>

definition local_media_url :: "int \<Rightarrow> ustr" where
  "local_media_url i = lit ''/api/media/'' @ show_int i @ lit ''?size=original''"

definition rewrite_post :: "Catalog_DB \<Rightarrow> Post \<Rightarrow> Post" where
  "rewrite_post db p =
     (if p_id p \<in> set (cat_media db) then
        let local = (\<lambda>_. local_media_url (p_id p)); f = files p
        in p\<lparr>files := f\<lparr>preview := (preview f)\<lparr>pv_url := map_option local (pv_url (preview f))\<rparr>,
             f_sample := (f_sample f)\<lparr>sm_url := map_option local (sm_url (f_sample f))\<rparr>,
             original := (original f)\<lparr>o_url := map_option local (o_url (original f))\<rparr>\<rparr>\<rparr>
      else p)"

definition rewrite_local_media_urls :: "Catalog_DB \<Rightarrow> Post list \<Rightarrow> Post list" where
  "rewrite_local_media_urls db ps = map (rewrite_post db) ps"

definition rating_of_text :: "ustr \<Rightarrow> Rating option" where
  "rating_of_text r = (if r = lit ''s'' then Some S else if r = lit ''q'' then Some Q else if r = lit ''e'' then Some E else None)"

definition or_zero :: "int option \<Rightarrow> int" where
  "or_zero x = (case x of None \<Rightarrow> 0 | Some n \<Rightarrow> n)"

definition post_of_row :: "PostRow \<Rightarrow> Rating \<Rightarrow> Post" where
  "post_of_row r rt =
     \<lparr>p_id = pr_id r, created_at = pr_created_at r,
      updated_at = (case pr_updated_at r of None \<Rightarrow> pr_created_at r | Some t \<Rightarrow> t),
      files = \<lparr>f_meta = \<lparr>md5 = None, ext = pr_file_ext r, file_size = or_zero (pr_file_size r), duration = pr_duration r,
                 has_sample = pr_sample_url r \<noteq> None\<rparr>,
        original = \<lparr>o_width = or_zero (pr_file_width r), o_height = or_zero (pr_file_height r), o_url = pr_file_url r\<rparr>,
        preview = \<lparr>pv_url = pr_preview_url r, pv_alt = None, pv_width = or_zero (pr_preview_width r),
          pv_height = or_zero (pr_preview_height r), pv_jpg = pr_preview_url r, pv_webp = None\<rparr>,
        f_sample = \<lparr>sm_url = pr_sample_url r, sm_alt = None, sm_width = or_zero (pr_sample_width r),
          sm_height = or_zero (pr_sample_height r), sm_jpg = pr_sample_url r, sm_webp = None\<rparr>\<rparr>,
      change_seq = 0, uploader_id = or_zero (pr_uploader_id r), uploader_name = None, approver_id = None,
      stats = \<lparr>st_score = \<lparr>up = pr_score_up r, down = pr_score_down r, total = pr_score_total r\<rparr>, fav_count = pr_fav_count r,
        is_favorited = False, st_vote = 0, comment_count = pr_comment_count r\<rparr>,
      flags = Flags_default\<lparr>deleted := pr_is_deleted r \<noteq> 0\<rparr>,
      has = \<lparr>has_parent = False, has_children = pr_has_children r \<noteq> 0, active_children = False, has_notes = pr_has_notes r \<noteq> 0,
        sample = pr_sample_url r \<noteq> None\<rparr>,
      relationships = \<lparr>parent_id = None, children = []\<rparr>, pools = [], rating = rt, locked_tags = [], sources = [],
      description = None, tags = Tags_default\<rparr>"

definition push_tag :: "ustr \<Rightarrow> ustr \<Rightarrow> Tags \<Rightarrow> Tags" where
  "push_tag grp name t =
     (if grp = lit ''artist'' then t\<lparr>artist := artist t @ [name]\<rparr>
      else if grp = lit ''character'' then t\<lparr>character := character t @ [name]\<rparr>
      else if grp = lit ''copyright'' then t\<lparr>copyright := copyright t @ [name]\<rparr>
      else if grp = lit ''general'' then t\<lparr>general := general t @ [name]\<rparr>
      else if grp = lit ''lore'' then t\<lparr>lore := lore t @ [name]\<rparr>
      else if grp = lit ''meta'' then t\<lparr>meta := meta t @ [name]\<rparr>
      else if grp = lit ''species'' then t\<lparr>species := species t @ [name]\<rparr>
      else t)"

text \<open>The join of the postings of a post with the tags.\<close>

definition posting_rows :: "Catalog_DB \<Rightarrow> int \<Rightarrow> TagRow list" where
  "posting_rows db pid = concat (map (\<lambda>(t, p). filter (\<lambda>r. p = pid \<and> tg_id r = t) (cat_tags db)) (cat_tags_posts db))"

definition stored_tags :: "Catalog_DB \<Rightarrow> int \<Rightarrow> Tags" where
  "stored_tags db pid = fold (\<lambda>r. push_tag (tg_group r) (tg_name r)) (posting_rows db pid) Tags_default"

definition stored_post :: "Catalog_DB \<Rightarrow> int \<Rightarrow> Post option" where
  "stored_post db i =
     (case List.find (\<lambda>r. pr_id r = i) (cat_posts db) of None \<Rightarrow> None
      | Some r \<Rightarrow> map_option (\<lambda>rt. (post_of_row r rt)\<lparr>tags := stored_tags db i\<rparr>) (rating_of_text (pr_rating r)))"

lemma stored_post_id: "stored_post db i = Some p \<Longrightarrow> p_id p = i"
  by (auto simp: stored_post_def post_of_row_def dest!: find_Some split: option.splits)

definition hydrate_posts_by_ids :: "Catalog_DB \<Rightarrow> int list \<Rightarrow> CatalogError + Post list" where
  "hydrate_posts_by_ids db ids =
     (let rows = concat (map (\<lambda>ch. filter (\<lambda>r. pr_id r \<in> set ch) (cat_posts db)) (chunks CHUNK ids))
      in case List.find (\<lambda>r. rating_of_text (pr_rating r) = None) rows of
           Some r \<Rightarrow> Inl (BadRating (pr_id r) (pr_rating r))
         | None \<Rightarrow> Inr (rewrite_local_media_urls db (List.map_filter (stored_post db) (rev (remdups (rev ids))))))"

definition get_post_by_id :: "Catalog_DB \<Rightarrow> int \<Rightarrow> CatalogError + Post option" where
  "get_post_by_id db i =
     (case hydrate_posts_by_ids db [i] of Inl e \<Rightarrow> Inl e | Inr ps \<Rightarrow> Inr (if ps = [] then None else Some (last ps)))"

section \<open>The tags of an account\<close>

definition count_rows :: "Catalog_DB \<Rightarrow> int \<Rightarrow> ustr \<times> ustr \<Rightarrow> int" where
  "count_rows db account = (\<lambda>(name, grp).
     int (length (concat (map (\<lambda>(t, p). concat (map (\<lambda>r. filter (\<lambda>(a, q, _). tg_id r = t \<and> tg_name r = name \<and> tg_group r = grp \<and>
       a = account \<and> q = p) (cat_accounts_post db)) (cat_tags db))) (cat_tags_posts db)))))"

definition set_tag_counts :: "int \<Rightarrow> Catalog_DB \<Rightarrow> Catalog_DB" where
  "set_tag_counts account db =
     (let keys = remdups (map (\<lambda>r. (tg_name r, tg_group r)) (cat_tags db));
          counted = filter (\<lambda>(k, n). n > 0) (map (\<lambda>k. (k, count_rows db account k)) keys);
          counts = sort_key (\<lambda>(k, n). - n) counted
      in db\<lparr>cat_tag_counts := filter (\<lambda>(a, _). a \<noteq> account) (cat_tag_counts db) @ map (\<lambda>((name, grp), n). (account, name, grp, n)) counts\<rparr>)"

end
