(* ===== verification/Catalog_Props.thy ===== *)
theory Catalog_Props
  imports Catalog
begin

text \<open>
  What the catalog keeps: its references point at rows that exist, the document frequency of a tag counts its
  postings, and the index in memory follows the table through the deltas of each batch.
\<close>

section \<open>Integrity\<close>

definition tag_ids :: "Catalog_DB \<Rightarrow> int list" where
  "tag_ids db = map tg_id (cat_tags db)"

definition tag_keys :: "Catalog_DB \<Rightarrow> (ustr \<times> ustr) list" where
  "tag_keys db = map (\<lambda>r. (tg_name r, tg_group r)) (cat_tags db)"

definition catalog_ok :: "Catalog_DB \<Rightarrow> bool" where
  "catalog_ok db \<longleftrightarrow> distinct (post_ids db) \<and> distinct (tag_ids db) \<and> distinct (tag_keys db) \<and>
     (\<forall>r \<in> set (cat_tags db). tg_id r \<le> cat_tag_seq db \<and> plain (tg_name r)) \<and>
     distinct (cat_tags_posts db) \<and> fst ` set (cat_tags_posts db) \<subseteq> set (tag_ids db) \<and>
     snd ` set (cat_tags_posts db) \<subseteq> set (post_ids db) \<and>
     distinct (map (\<lambda>(a, p, _). (a, p)) (cat_accounts_post db)) \<and>
     (fst \<circ> snd) ` set (cat_accounts_post db) \<subseteq> set (post_ids db) \<and> set (cat_media db) \<subseteq> set (post_ids db)"

definition df_exact :: "Catalog_DB \<Rightarrow> bool" where
  "df_exact db \<longleftrightarrow> (\<forall>r \<in> set (cat_tags db). tg_df r = df_of db (tg_id r))"

lemma catalog_ok_empty: "catalog_ok empty_catalog \<and> df_exact empty_catalog"
  by (simp add: catalog_ok_def df_exact_def empty_catalog_def post_ids_def tag_ids_def tag_keys_def)

lemma ids_merge: "map (pr_id \<circ> (\<lambda>r. if pr_id r = pr_id row then merge_row r row else r)) rs = map pr_id rs"
  by (induction rs) (auto simp: merge_row_def)

lemma post_ids_upsert:
  "post_ids (POST_UPSERT_SQL row db) = (if pr_id row \<in> set (post_ids db) then post_ids db else post_ids db @ [pr_id row])"
  by (simp add: POST_UPSERT_SQL_def post_ids_def ids_merge)

lemma upsert_frame [simp]:
  "cat_tags (POST_UPSERT_SQL row db) = cat_tags db" "cat_tag_seq (POST_UPSERT_SQL row db) = cat_tag_seq db"
  "cat_tags_posts (POST_UPSERT_SQL row db) = cat_tags_posts db" "cat_accounts_post (POST_UPSERT_SQL row db) = cat_accounts_post db"
  "cat_media (POST_UPSERT_SQL row db) = cat_media db" "cat_accounts (POST_UPSERT_SQL row db) = cat_accounts db"
  by (simp_all add: POST_UPSERT_SQL_def)

lemma df_of_cong: "cat_tags_posts db' = cat_tags_posts db \<Longrightarrow> df_of db' = df_of db"
  by (simp add: df_of_def fun_eq_iff)

lemma upsert_ok:
  "catalog_ok db \<and> df_exact db \<Longrightarrow> catalog_ok (POST_UPSERT_SQL row db) \<and> df_exact (POST_UPSERT_SQL row db)"
  using df_of_cong [of "POST_UPSERT_SQL row db" db]
  by (auto simp: catalog_ok_def df_exact_def post_ids_upsert tag_ids_def tag_keys_def)

lemma link_ok:
  assumes "catalog_ok db \<and> df_exact db" "p \<in> set (post_ids db)"
  shows "catalog_ok (link_account a p now db) \<and> df_exact (link_account a p now db)"
proof (cases "list_ex (\<lambda>(b, q, _). b = a \<and> q = p) (cat_accounts_post db)")
  case False
  then have "(a, p) \<notin> set (map (\<lambda>(a, p, _). (a, p)) (cat_accounts_post db))" by (auto simp: list_ex_iff)
  then show ?thesis using assms False df_of_cong [of "link_account a p now db" db]
    by (simp add: link_account_def catalog_ok_def df_exact_def post_ids_def tag_ids_def tag_keys_def)
next
  case True
  then show ?thesis using assms by (simp add: link_account_def)
qed

lemma link_frame [simp]:
  "cat_tags (link_account a p now db) = cat_tags db" "cat_tags_posts (link_account a p now db) = cat_tags_posts db"
  "post_ids (link_account a p now db) = post_ids db"
  by (simp_all add: link_account_def post_ids_def)

lemma save_posts_ok:
  "catalog_ok db \<and> df_exact db \<Longrightarrow> save_posts_in_tx now ps a db = Inr db' \<Longrightarrow>
    (catalog_ok db' \<and> df_exact db') \<and> set (post_ids db') = set (post_ids db) \<union> p_id ` set ps \<and>
    cat_tags db' = cat_tags db \<and> cat_tags_posts db' = cat_tags_posts db"
proof -
  let ?f = "\<lambda>p d. link_account a (p_id p) now (POST_UPSERT_SQL (post_upsert_params now p) d)"
  have step: "(catalog_ok (?f p d) \<and> df_exact (?f p d)) \<and> set (post_ids (?f p d)) = insert (p_id p) (set (post_ids d)) \<and>
     cat_tags (?f p d) = cat_tags d \<and> cat_tags_posts (?f p d) = cat_tags_posts d" if "catalog_ok d \<and> df_exact d" for p d
  proof -
    have "set (post_ids (POST_UPSERT_SQL (post_upsert_params now p) d)) = insert (p_id p) (set (post_ids d))"
      by (auto simp: post_ids_upsert post_upsert_params_def Let_def)
    then show ?thesis using link_ok [OF upsert_ok [OF that], of "p_id p" "post_upsert_params now p" a now] by simp
  qed
  have "(catalog_ok (fold ?f ps d) \<and> df_exact (fold ?f ps d)) \<and> set (post_ids (fold ?f ps d)) = set (post_ids d) \<union> p_id ` set ps \<and>
      cat_tags (fold ?f ps d) = cat_tags d \<and> cat_tags_posts (fold ?f ps d) = cat_tags_posts d"
    if "catalog_ok d \<and> df_exact d" for d
    using that
  proof (induction ps arbitrary: d)
    case (Cons p ps)
    then show ?case using step [OF Cons.prems, of p] by simp
  qed simp
  then show "catalog_ok db \<and> df_exact db \<Longrightarrow> save_posts_in_tx now ps a db = Inr db' \<Longrightarrow> ?thesis"
    by (auto simp: save_posts_in_tx_def split: if_splits)
qed

lemma upsert_posts_ok:
  "catalog_ok db \<and> df_exact db \<Longrightarrow>
    (catalog_ok (upsert_catalog_posts_in_tx now ps db) \<and> df_exact (upsert_catalog_posts_in_tx now ps db)) \<and>
    cat_tags (upsert_catalog_posts_in_tx now ps db) = cat_tags db \<and>
    cat_tags_posts (upsert_catalog_posts_in_tx now ps db) = cat_tags_posts db"
  unfolding upsert_catalog_posts_in_tx_def
proof (induction ps arbitrary: db)
  case (Cons p ps)
  then show ?case using upsert_ok [OF Cons.prems] by simp
qed simp

section \<open>A batch of tags\<close>

text \<open>The state of a batch against the catalog it started from.\<close>

definition batch_ok :: "Catalog_DB \<Rightarrow> Tag_Batch \<Rightarrow> bool" where
  "batch_ok db0 b \<longleftrightarrow> catalog_ok (tb_db b) \<and> post_ids (tb_db b) = post_ids db0 \<and>
     (\<exists>new. cat_tags (tb_db b) = cat_tags db0 @ new) \<and> tbl_ok (tb_delta b) \<and> fst ` set (tb_delta b) \<subseteq> set (tag_ids (tb_db b)) \<and>
     (\<forall>r \<in> set (cat_tags (tb_db b)). tg_id r \<in> tb_touched b \<or> tg_df r = df_of (tb_db b) (tg_id r)) \<and>
     (\<forall>i. df_of (tb_db b) i = df_of db0 i + (case tbl_get (tb_delta b) i of None \<Rightarrow> 0 | Some n \<Rightarrow> n))"

lemma df_of_fresh: "catalog_ok db \<Longrightarrow> cat_tag_seq db < i \<Longrightarrow> df_of db i = 0"
  by (force simp: catalog_ok_def df_of_def tag_ids_def filter_empty_conv)

lemma upsert_tag_ok:
  assumes "catalog_ok db" "plain name" "upsert_tag name grp db = (i, db')"
  shows "catalog_ok db' \<and> i \<in> set (tag_ids db') \<and> post_ids db' = post_ids db \<and> cat_tags_posts db' = cat_tags_posts db \<and>
    (\<exists>new. cat_tags db' = cat_tags db @ new \<and> (\<forall>r \<in> set new. tg_df r = 0 \<and> df_of db (tg_id r) = 0))"
proof (cases "List.find (\<lambda>r. tg_name r = name \<and> tg_group r = grp) (cat_tags db)")
  case None
  then have "(name, grp) \<notin> set (tag_keys db)" by (auto simp: find_None_iff tag_keys_def)
  moreover have "cat_tag_seq db + 1 \<notin> set (tag_ids db)" using assms(1) by (force simp: catalog_ok_def tag_ids_def)
  moreover have db: "db' = db\<lparr>cat_tags := cat_tags db @ [\<lparr>tg_id = i, tg_name = name, tg_group = grp, tg_df = 0\<rparr>], cat_tag_seq := i\<rparr>"
    "i = cat_tag_seq db + 1"
    using None assms(3) by (auto simp: upsert_tag_def Let_def)
  moreover have "\<forall>r \<in> set (cat_tags db). tg_id r \<le> i \<and> plain (tg_name r)" using assms(1) db(2) by (auto simp: catalog_ok_def)
  ultimately have "catalog_ok db'"
    using assms(1,2) by (simp add: catalog_ok_def tag_ids_def tag_keys_def post_ids_def subset_insertI2)
  then show ?thesis using db df_of_fresh [OF assms(1), of i] by (simp add: tag_ids_def post_ids_def)
next
  case (Some r)
  then show ?thesis using assms find_Some [OF Some] by (auto simp: upsert_tag_def tag_ids_def)
qed

lemma df_of_append: "df_of (db\<lparr>cat_tags_posts := cat_tags_posts db @ [(i, p)]\<rparr>) j = df_of db j + (if j = i then 1 else 0)"
  by (simp add: df_of_def)

lemma add_posting_ok:
  "catalog_ok db \<Longrightarrow> i \<in> set (tag_ids db) \<Longrightarrow> p \<in> set (post_ids db) \<Longrightarrow> (i, p) \<notin> set (cat_tags_posts db) \<Longrightarrow>
    catalog_ok (db\<lparr>cat_tags_posts := cat_tags_posts db @ [(i, p)]\<rparr>)"
  by (auto simp: catalog_ok_def tag_ids_def tag_keys_def post_ids_def)

lemma save_tag_ok:
  assumes "batch_ok db0 b" "p \<in> set (post_ids db0)"
  shows "batch_ok db0 (save_tag p bl (grp, tag) b)"
proof (cases "tag = [] \<or> to_ascii_lowercase tag \<in> bl")
  case True
  then show ?thesis using assms by (simp add: save_tag_def Let_def)
next
  case False
  obtain i db where up: "upsert_tag (to_ascii_lowercase tag) grp (tb_db b) = (i, db)" by fastforce
  have b: "catalog_ok (tb_db b)" "post_ids (tb_db b) = post_ids db0" "tbl_ok (tb_delta b)" "fst ` set (tb_delta b) \<subseteq> set (tag_ids (tb_db b))"
    "\<forall>r \<in> set (cat_tags (tb_db b)). tg_id r \<in> tb_touched b \<or> tg_df r = df_of (tb_db b) (tg_id r)"
    "\<forall>i. df_of (tb_db b) i = df_of db0 i + (case tbl_get (tb_delta b) i of None \<Rightarrow> 0 | Some n \<Rightarrow> n)"
    using assms(1) by (auto simp: batch_ok_def)
  note u = upsert_tag_ok [OF b(1) plain_lowercase up]
  obtain old where old: "cat_tags (tb_db b) = cat_tags db0 @ old" using assms(1) by (auto simp: batch_ok_def)
  obtain new where new: "cat_tags db = cat_tags (tb_db b) @ new" "\<forall>r \<in> set new. tg_df r = 0 \<and> df_of (tb_db b) (tg_id r) = 0"
    using u by blast
  have df: "df_of db = df_of (tb_db b)" using df_of_cong u by blast
  have tags: "set (tag_ids (tb_db b)) \<subseteq> set (tag_ids db)" using new(1) by (auto simp: tag_ids_def)
  have exact: "\<forall>r \<in> set (cat_tags db). tg_id r \<in> tb_touched b \<or> tg_df r = df_of (tb_db b) (tg_id r)"
    using b(5) new by auto
  let ?db = "db\<lparr>cat_tags_posts := cat_tags_posts db @ [(i, p)]\<rparr>"
  show ?thesis
  proof (cases "(i, p) \<in> set (cat_tags_posts db)")
    case True
    then have "save_tag p bl (grp, tag) b = b\<lparr>tb_db := db, tb_touched := insert i (tb_touched b), tb_ids := tb_ids b @ [i]\<rparr>"
      using False up by (simp add: save_tag_def Let_def)
    then show ?thesis using u b old new(1) df tags exact by (auto simp: batch_ok_def)
  next
    case fresh: False
    define D where "D = ?db"
    have "p \<in> set (post_ids db)" using u assms(2) b(2) by metis
    then have D: "catalog_ok D" unfolding D_def using add_posting_ok [of db i p] u fresh by blast
    have D2: "post_ids D = post_ids db" "cat_tags D = cat_tags db" by (simp_all add: D_def post_ids_def)
    have dfD: "df_of D j = df_of (tb_db b) j + (if j = i then 1 else 0)" for j unfolding D_def df_of_append df ..
    have delta: "df_of D j = df_of db0 j + (case tbl_get (tbl_insert i ((case tbl_get (tb_delta b) i of None \<Rightarrow> 0 | Some n \<Rightarrow> n) + 1)
        (tb_delta b)) j of None \<Rightarrow> 0 | Some n \<Rightarrow> n)" for j
      unfolding dfD using b(6) by simp
    have keys: "fst ` set (tbl_insert i n (tb_delta b)) \<subseteq> set (tag_ids D)" for n
      using b(4) tags u D2(2) by (auto simp: tbl_insert_def tag_ids_def dom_update)
    have stale: "\<forall>r \<in> set (cat_tags D). tg_id r \<in> insert i (tb_touched b) \<or> tg_df r = df_of D (tg_id r)"
      using exact by (auto simp: D2(2) dfD)
    have "save_tag p bl (grp, tag) b = \<lparr>tb_db = D, tb_delta = tbl_insert i ((case tbl_get (tb_delta b) i of None \<Rightarrow> 0 | Some n \<Rightarrow> n) + 1)
        (tb_delta b), tb_touched = insert i (tb_touched b), tb_ids = tb_ids b @ [i]\<rparr>"
      using False up fresh by (simp add: save_tag_def Let_def D_def)
    moreover have "\<exists>new. cat_tags D = cat_tags db0 @ new" using D2(2) new(1) old by simp
    moreover have "post_ids D = post_ids db0" using D2(1) u b(2) by simp
    ultimately show ?thesis unfolding batch_ok_def using D delta keys stale b(3) by simp
  qed
qed

lemma save_tags_ok:
  "batch_ok db0 b \<Longrightarrow> p \<in> set (post_ids db0) \<Longrightarrow> batch_ok db0 (fold (save_tag p bl) items b)"
proof (induction items arbitrary: b)
  case (Cons item items)
  then show ?case using save_tag_ok [of db0 b p bl "fst item" "snd item"] by simp
qed simp

lemma save_tags_idle:
  "\<forall>(grp, tag) \<in> set items. tag = [] \<or> to_ascii_lowercase tag \<in> bl \<Longrightarrow> fold (save_tag p bl) items b = b"
  by (induction items) (auto simp: save_tag_def Let_def split: prod.splits)

lemma cooccurrence_ok [simp]:
  "batch_ok db0 (b\<lparr>tb_db := upsert_cooccurrence_pairs ids db\<rparr>) = batch_ok db0 (b\<lparr>tb_db := db\<rparr>)"
  "batch_ok db0 (b\<lparr>tb_db := upsert_account_cooccurrence_pairs a ids db\<rparr>) = batch_ok db0 (b\<lparr>tb_db := db\<rparr>)"
  by (simp_all add: batch_ok_def catalog_ok_def upsert_cooccurrence_pairs_def upsert_account_cooccurrence_pairs_def
      post_ids_def tag_ids_def tag_keys_def df_of_def)

lemma batch_ok_ids [simp]: "batch_ok db0 (b\<lparr>tb_ids := ids\<rparr>) = batch_ok db0 b"
  by (simp add: batch_ok_def)

lemma save_post_tags_ok:
  assumes "batch_ok db0 b" "linkable bl post \<Longrightarrow> p_id post \<in> set (post_ids db0)"
  shows "batch_ok db0 (fst (save_post_tags bl track account post (b, dirty)))"
proof -
  let ?b = "fold (save_tag (p_id post) bl) (tag_items post) (b\<lparr>tb_ids := []\<rparr>)"
  have "batch_ok db0 ?b"
  proof (cases "linkable bl post")
    case True
    then show ?thesis using save_tags_ok [of db0 "b\<lparr>tb_ids := []\<rparr>"] assms by simp
  next
    case False
    then have "?b = b\<lparr>tb_ids := []\<rparr>" by (intro save_tags_idle) (auto simp: linkable_def list_ex_iff)
    then show ?thesis using assms(1) by simp
  qed
  then show ?thesis by (simp add: save_post_tags_def Let_def split: option.splits)
qed

lemma save_posts_tags_ok:
  assumes "batch_ok db0 (fst s)" "\<forall>p \<in> set ps. linkable bl p \<longrightarrow> p_id p \<in> set (post_ids db0)"
  shows "batch_ok db0 (fst (fold (save_post_tags bl track account) ps s))"
  using assms
proof (induction ps arbitrary: s)
  case (Cons p ps)
  then show ?case using save_post_tags_ok [of db0 "fst s" bl p track account "snd s"] by simp
qed simp

text \<open>What a batch leaves: frequencies that are exact, and a delta per tag that says by how much they grew.\<close>

lemma recompute_tags: "cat_tags (recompute_df_for_tags ids db) = map (\<lambda>r. if tg_id r \<in> ids then r\<lparr>tg_df := df_of db (tg_id r)\<rparr> else r) (cat_tags db)"
  "df_of (recompute_df_for_tags ids db) = df_of db" "post_ids (recompute_df_for_tags ids db) = post_ids db"
  by (simp_all add: recompute_df_for_tags_def df_of_def post_ids_def fun_eq_iff)

lemma recompute_keys:
  "map tg_id (cat_tags (recompute_df_for_tags ids db)) = map tg_id (cat_tags db)"
  "map (\<lambda>r. (tg_name r, tg_group r)) (cat_tags (recompute_df_for_tags ids db)) = map (\<lambda>r. (tg_name r, tg_group r)) (cat_tags db)"
  by (simp_all add: recompute_tags)

lemma recompute_ok:
  assumes "catalog_ok db"
  shows "catalog_ok (recompute_df_for_tags ids db)"
proof -
  have "\<forall>r \<in> set (cat_tags (recompute_df_for_tags ids db)). tg_id r \<le> cat_tag_seq db \<and> plain (tg_name r)"
    using assms by (auto simp: recompute_tags catalog_ok_def)
  then show ?thesis using assms recompute_keys [of ids db] recompute_tags(3) [of ids db]
    by (simp add: catalog_ok_def tag_ids_def tag_keys_def) (simp add: recompute_df_for_tags_def)
qed

lemma recompute_exact:
  "\<forall>r \<in> set (cat_tags db). tg_id r \<in> ids \<or> tg_df r = df_of db (tg_id r) \<Longrightarrow> df_exact (recompute_df_for_tags ids db)"
  by (auto simp: df_exact_def recompute_tags)

lemma batch_result:
  assumes "catalog_ok db" "df_exact db" "save_posts_tags_batch_in_tx ps bl track account db = Inr (e, db')"
  obtains delta where "catalog_ok db'" "df_exact db'" "post_ids db' = post_ids db" "df_delta_by_name e = deltas_by_name db' delta"
    "tbl_ok delta" "fst ` set delta \<subseteq> set (tag_ids db')" "set (tag_keys db) \<subseteq> set (tag_keys db')" "set (tag_ids db) \<subseteq> set (tag_ids db')"
    "\<And>i. df_of db' i = df_of db i + (case tbl_get delta i of None \<Rightarrow> 0 | Some n \<Rightarrow> n)"
    "\<exists>new. map (\<lambda>r. (tg_id r, tg_name r)) (cat_tags db') = map (\<lambda>r. (tg_id r, tg_name r)) (cat_tags db) @ new"
proof -
  have none: "List.find (\<lambda>p. linkable bl p \<and> p_id p \<notin> set (post_ids db)) ps = None"
    using assms(3) by (auto simp: save_posts_tags_batch_in_tx_def split: option.splits)
  obtain b d where b: "fold (save_post_tags bl track account) ps (\<lparr>tb_db = db, tb_delta = [], tb_touched = {}, tb_ids = []\<rparr>, False) = (b, d)"
    by fastforce
  have start: "batch_ok db \<lparr>tb_db = db, tb_delta = [], tb_touched = {}, tb_ids = []\<rparr>"
    using assms(1,2) by (simp add: batch_ok_def df_exact_def)
  have ok: "batch_ok db b"
    using save_posts_tags_ok [of db "(\<lparr>tb_db = db, tb_delta = [], tb_touched = {}, tb_ids = []\<rparr>, False)" ps bl track account] none b start
    by (auto simp: find_None_iff)
  have res: "db' = recompute_df_for_tags (tb_touched b) (tb_db b)" "df_delta_by_name e = deltas_by_name db' (tb_delta b)"
    using assms(3) none b by (auto simp: save_posts_tags_batch_in_tx_def Let_def)
  obtain new where new: "cat_tags (tb_db b) = cat_tags db @ new" using ok by (auto simp: batch_ok_def)
  have keys: "tag_ids db' = tag_ids (tb_db b)" "tag_keys db' = tag_keys (tb_db b)"
    unfolding tag_ids_def tag_keys_def res(1) by (rule recompute_keys)+
  have "map (\<lambda>r. (tg_id r, tg_name r)) (cat_tags db') = map (\<lambda>r. (tg_id r, tg_name r)) (cat_tags (tb_db b))"
    by (simp add: res(1) recompute_tags)
  then show ?thesis
    using that [of "tb_delta b"] ok res recompute_ok [of "tb_db b"] recompute_exact [of "tb_db b" "tb_touched b"] keys new
    by (auto simp: batch_ok_def recompute_tags tag_ids_def tag_keys_def)
qed

section \<open>Operations on the catalog\<close>

definition reached :: "Catalog_DB \<Rightarrow> bool" where
  "reached db \<longleftrightarrow> catalog_ok db \<and> df_exact db"

lemma df_of_delete: "df_of (delete_rows ids db) i = df_of db i - int (length (filter (\<lambda>(t, p). t = i \<and> p \<in> set ids) (cat_tags_posts db)))"
proof -
  have "int (length (filter (\<lambda>(t, p). t = i) (filter (\<lambda>(t, p). p \<notin> set ids) ps))) =
     int (length (filter (\<lambda>(t, p). t = i) ps)) - int (length (filter (\<lambda>(t, p). t = i \<and> p \<in> set ids) ps))" for ps
    by (induction ps) (auto split: prod.splits)
  then show ?thesis by (simp add: df_of_def delete_rows_def)
qed

lemma post_ids_delete: "post_ids (delete_rows ids db) = filter (\<lambda>i. i \<notin> set ids) (post_ids db)"
  by (simp add: post_ids_def filter_map comp_def)

lemma catalog_ok_delete:
  assumes "catalog_ok db"
  shows "catalog_ok (delete_rows ids db)"
proof -
  have fields: "cat_tags (delete_rows ids db) = cat_tags db" "cat_tag_seq (delete_rows ids db) = cat_tag_seq db"
    "cat_tags_posts (delete_rows ids db) = filter (\<lambda>x. snd x \<notin> set ids) (cat_tags_posts db)"
    "cat_accounts_post (delete_rows ids db) = filter (\<lambda>x. (fst \<circ> snd) x \<notin> set ids) (cat_accounts_post db)"
    "cat_media (delete_rows ids db) = filter (\<lambda>p. p \<notin> set ids) (cat_media db)"
    unfolding delete_rows_def by (simp_all add: split_def)
  have sub: "f ` set (filter (\<lambda>x. f x \<notin> I) xs) \<subseteq> set (filter (\<lambda>i. i \<notin> I) ys)" if "f ` set xs \<subseteq> set ys" for f :: "'a \<Rightarrow> int" and xs ys I
    using that by auto
  show ?thesis unfolding catalog_ok_def post_ids_delete tag_ids_def tag_keys_def fields
    using assms sub [of snd "cat_tags_posts db" "post_ids db" "set ids"] sub [of "fst \<circ> snd" "cat_accounts_post db" "post_ids db" "set ids"]
      sub [of id "cat_media db" "post_ids db" "set ids"]
    by (intro conjI) (auto simp: catalog_ok_def tag_ids_def tag_keys_def distinct_map_filter)
qed

lemma cat_tags_delete [simp]: "cat_tags (delete_rows ids db) = cat_tags db"
  by (simp add: delete_rows_def)

text \<open>The number of postings of a tag among the posts of a list of chunks.\<close>

definition hits_in :: "Catalog_DB \<Rightarrow> int list \<Rightarrow> int \<Rightarrow> int" where
  "hits_in db ids i = int (length (filter (\<lambda>(t, p). t = i \<and> p \<in> set ids) (cat_tags_posts db)))"

lemma count_list_map_fst: "count_list (map fst (filter (\<lambda>(i, p). P p) ps)) i = length (filter (\<lambda>(t, p). t = i \<and> P p) ps)"
  by (induction ps) auto

lemma fold_insert_counts:
  "distinct ks \<Longrightarrow> tbl_ok t \<Longrightarrow>
    tbl_ok (fold (\<lambda>i t. tbl_insert i ((case tbl_get t i of None \<Rightarrow> 0 | Some n \<Rightarrow> n) + f i) t) ks t) \<and>
    (\<forall>k. tbl_get (fold (\<lambda>i t. tbl_insert i ((case tbl_get t i of None \<Rightarrow> 0 | Some n \<Rightarrow> n) + f i) t) ks t) k =
      (if k \<in> set ks then Some ((case tbl_get t k of None \<Rightarrow> 0 | Some n \<Rightarrow> n) + f k) else tbl_get t k))"
  for f :: "int \<Rightarrow> int"
proof (induction ks arbitrary: t)
  case (Cons i ks)
  then show ?case by auto
qed simp

lemma postings_of_chunk_get:
  assumes "tbl_ok t"
  shows "tbl_ok (postings_of_chunk db ch t)"
    "tbl_get (postings_of_chunk db ch t) i =
      (if hits_in db ch i = 0 then tbl_get t i else Some ((case tbl_get t i of None \<Rightarrow> 0 | Some n \<Rightarrow> n) + hits_in db ch i))"
proof -
  let ?hits = "map fst (filter (\<lambda>(i, p). p \<in> set ch) (cat_tags_posts db))"
  have c: "int (count_list ?hits k) = hits_in db ch k" for k by (simp add: hits_in_def count_list_map_fst)
  have "k \<in> set ?hits \<longleftrightarrow> hits_in db ch k \<noteq> 0" for k unfolding c [symmetric] by (simp only: count_list_0_iff of_nat_eq_0_iff not_not)
  then show "tbl_ok (postings_of_chunk db ch t)"
    "tbl_get (postings_of_chunk db ch t) i =
      (if hits_in db ch i = 0 then tbl_get t i else Some ((case tbl_get t i of None \<Rightarrow> 0 | Some n \<Rightarrow> n) + hits_in db ch i))"
    using fold_insert_counts [of "remdups ?hits" t "\<lambda>i. int (count_list ?hits i)"] assms
    unfolding postings_of_chunk_def Let_def c by (simp_all only: set_remdups distinct_remdups simp_thms) auto
qed

lemma hits_in_append: "distinct (xs @ ys) \<Longrightarrow> hits_in db (xs @ ys) i = hits_in db xs i + hits_in db ys i"
proof -
  assume "distinct (xs @ ys)"
  then have "length (filter (\<lambda>(t, p). t = i \<and> p \<in> set (xs @ ys)) ps) =
     length (filter (\<lambda>(t, p). t = i \<and> p \<in> set xs) ps) + length (filter (\<lambda>(t, p). t = i \<and> p \<in> set ys) ps)" for ps :: "(int \<times> int) list"
    by (induction ps) auto
  then show ?thesis by (simp add: hits_in_def)
qed

lemma hits_in_nonneg: "0 \<le> hits_in db ids i"
  by (simp add: hits_in_def)

lemma postings_get:
  assumes "distinct (concat chs)" "tbl_ok t"
  shows "tbl_ok (fold (postings_of_chunk db) chs t) \<and> (\<forall>i. tbl_get (fold (postings_of_chunk db) chs t) i =
    (if hits_in db (concat chs) i = 0 then tbl_get t i
     else Some ((case tbl_get t i of None \<Rightarrow> 0 | Some n \<Rightarrow> n) + hits_in db (concat chs) i)))"
  using assms
proof (induction chs arbitrary: t)
  case Nil
  then show ?case by (simp add: hits_in_def)
next
  case (Cons ch chs)
  have "distinct (concat chs)" "distinct (ch @ concat chs)" using Cons.prems(1) by auto
  note IH = Cons.IH [OF this(1) postings_of_chunk_get(1) [OF Cons.prems(2), of db ch]] and app = hits_in_append [OF this(2), of db]
  show ?case unfolding fold_simps comp_apply concat.simps app
    using IH hits_in_nonneg [of db ch] hits_in_nonneg [of db "concat chs"]
    by (simp add: postings_of_chunk_get(2) [OF Cons.prems(2)] add_nonneg_eq_0_iff split: if_splits)
qed

text \<open>Deleting keeps both, and its deltas say by how much the frequencies fell.\<close>

lemma hits_in_concat: "hits_in db (concat chs) i \<noteq> 0 \<longleftrightarrow> (\<exists>ch \<in> set chs. hits_in db ch i \<noteq> 0)"
  by (auto simp: hits_in_def filter_empty_conv)

lemma postings_keys:
  "tbl_ok t \<Longrightarrow> tbl_ok (fold (postings_of_chunk db) chs t) \<and>
    (tbl_get (fold (postings_of_chunk db) chs t) i = None \<longleftrightarrow> tbl_get t i = None \<and> hits_in db (concat chs) i = 0)"
proof (induction chs arbitrary: t)
  case (Cons ch chs)
  have "hits_in db (concat (ch # chs)) i = 0 \<longleftrightarrow> hits_in db ch i = 0 \<and> hits_in db (concat chs) i = 0"
    using hits_in_concat [of db "ch # chs" i] hits_in_concat [of db chs i] by auto
  then show ?case unfolding fold_simps comp_apply
    using Cons.IH [OF postings_of_chunk_get(1) [OF Cons.prems, of db ch]] by (simp add: postings_of_chunk_get(2) [OF Cons.prems])
qed (simp add: hits_in_def)

lemma tbl_get_None: "tbl_get t k = None \<longleftrightarrow> k \<notin> fst ` set t"
  by (simp add: tbl_get_def map_of_eq_None_iff)

lemma df_of_delete_hits: "df_of (delete_rows ids db) i = df_of db i - hits_in db ids i"
  by (simp add: df_of_delete hits_in_def)

lemma delete_ok:
  assumes "catalog_ok db \<and> df_exact db"
  shows "catalog_ok (snd (delete_posts_by_ids_in_tx ids db)) \<and> df_exact (snd (delete_posts_by_ids_in_tx ids db))"
proof (cases "ids = []")
  case True
  then show ?thesis using assms by (simp add: delete_posts_by_ids_in_tx_def)
next
  case False
  let ?ps = "fold (postings_of_chunk db) (chunks IN_CLAUSE_CHUNK ids) []"
  have "0 < IN_CLAUSE_CHUNK" by (simp add: IN_CLAUSE_CHUNK_def)
  then have "i \<in> fst ` set ?ps \<or> hits_in db ids i = 0" for i
    using postings_keys [OF tbl_ok_Nil, of db "chunks IN_CLAUSE_CHUNK ids" i] tbl_get_None [of ?ps i] by (auto simp: concat_chunks)
  then have "\<forall>r \<in> set (cat_tags (delete_rows ids db)). tg_id r \<in> fst ` set ?ps \<or> tg_df r = df_of (delete_rows ids db) (tg_id r)"
    using assms by (auto simp: df_of_delete_hits df_exact_def)
  then show ?thesis using False assms recompute_exact recompute_ok [OF catalog_ok_delete [of db ids], of "fst ` set ?ps"]
    by (simp add: delete_posts_cases Let_def)
qed

section \<open>The index in memory\<close>

definition single_group :: "Catalog_DB \<Rightarrow> bool" where
  "single_group db \<longleftrightarrow> distinct (map tg_name (cat_tags db))"

definition name_df :: "Catalog_DB \<Rightarrow> ustr \<Rightarrow> int" where
  "name_df db name = (case List.find (\<lambda>r. tg_name r = name) (cat_tags db) of None \<Rightarrow> 0 | Some r \<Rightarrow> df_of db (tg_id r))"

definition index_agrees :: "Catalog_DB \<Rightarrow> IdfIndex \<Rightarrow> bool" where
  "index_agrees db idf \<longleftrightarrow> (\<forall>name. plain name \<longrightarrow> lookup_df idf name = name_df db name)"

lemma find_by: "distinct (map f xs) \<Longrightarrow> r \<in> set xs \<Longrightarrow> List.find (\<lambda>x. f x = f r) xs = Some r"
  by (induction xs) auto

lemma name_df_row: "single_group db \<Longrightarrow> r \<in> set (cat_tags db) \<Longrightarrow> name_df db (tg_name r) = df_of db (tg_id r)"
  by (simp add: name_df_def find_by single_group_def)

lemma name_df_absent: "name \<notin> tg_name ` set (cat_tags db) \<Longrightarrow> name_df db name = 0"
  by (cases "List.find (\<lambda>r. tg_name r = name) (cat_tags db)") (auto simp: name_df_def dest!: find_Some)

lemma name_of_row: "catalog_ok db \<Longrightarrow> r \<in> set (cat_tags db) \<Longrightarrow> name_of_id db (tg_id r) = Some (tg_name r)"
  by (simp add: name_of_id_def find_by catalog_ok_def tag_ids_def)

lemma deltas_get:
  assumes "catalog_ok db" "single_group db" "r \<in> set (cat_tags db)"
    and "tbl_ok delta" "fst ` set delta \<subseteq> set (tag_ids db)" "tbl_ok t" "fst ` set t \<subseteq> tg_name ` set (cat_tags db)"
  defines "f \<equiv> (\<lambda>(i, n) t. case name_of_id db i of None \<Rightarrow> t | Some name \<Rightarrow> tbl_insert name n t)"
  shows "tbl_ok (fold f delta t) \<and> fst ` set (fold f delta t) \<subseteq> tg_name ` set (cat_tags db) \<and>
    tbl_get (fold f delta t) (tg_name r) = (case tbl_get delta (tg_id r) of None \<Rightarrow> tbl_get t (tg_name r) | Some n \<Rightarrow> Some n)"
  using assms(4-7)
proof (induction delta arbitrary: t)
  case (Cons e delta)
  obtain i n where e: "e = (i, n)" by fastforce
  obtain r' where r': "r' \<in> set (cat_tags db)" "i = tg_id r'" using Cons.prems(2) e by (auto simp: tag_ids_def)
  have step: "f e t = tbl_insert (tg_name r') n t" using name_of_row [OF assms(1) r'(1)] by (simp add: f_def e r'(2))
  have same: "tg_name r = tg_name r' \<longleftrightarrow> r = r'" "tg_id r = tg_id r' \<longleftrightarrow> r = r'"
    using assms(1-3) r'(1) by (auto simp: single_group_def catalog_ok_def tag_ids_def distinct_map inj_on_def)
  have "tbl_ok delta" "tbl_get delta i = None" using Cons.prems(1) e by (auto simp: tbl_ok_def tbl_get_None)
  moreover have "fst ` set (tbl_insert (tg_name r') n t) \<subseteq> tg_name ` set (cat_tags db)"
    using Cons.prems(4) r'(1) by (auto simp: tbl_insert_def dom_update)
  moreover have "fold f (e # delta) t = fold f delta (tbl_insert (tg_name r') n t)" by (simp add: step)
  moreover have "tbl_get (e # delta) (tg_id r) = (if r = r' then Some n else tbl_get delta (tg_id r))"
    using same(2) by (simp add: e r'(2) tbl_get_def eq_commute)
  ultimately show ?case
    using Cons.IH [of "tbl_insert (tg_name r') n t"] Cons.prems(2,3) same r'(2) by (auto split: option.splits)
qed simp

lemma delta_of_plain:
  "tbl_ok t \<Longrightarrow> \<forall>k \<in> fst ` set t. plain k \<Longrightarrow> plain name \<Longrightarrow> delta_of t name = entry_of t name"
proof (induction t)
  case (Cons e t)
  obtain k n where e: "e = (k, n)" by fastforce
  have "tbl_ok t" "k \<notin> fst ` set t" using Cons.prems(1) e by (auto simp: tbl_ok_def)
  then show ?case using Cons.IH Cons.prems(2,3) e lowercase_of_plain [of k] lowercase_of_plain [of name] tbl_get_None [of t k]
    by (auto simp: tbl_get_def)
qed (simp add: tbl_get_def)

lemma tags_plain: "catalog_ok db \<Longrightarrow> r \<in> set (cat_tags db) \<Longrightarrow> plain (tg_name r)"
  by (auto simp: catalog_ok_def)

text \<open>Bumping by the deltas of a batch moves the index from one catalog to the next.\<close>

lemma index_follows:
  assumes "catalog_ok db'" "single_group db'" "tbl_ok delta" "fst ` set delta \<subseteq> set (tag_ids db')"
    and grow: "\<And>i. df_of db' i = df_of db i + (case tbl_get delta i of None \<Rightarrow> 0 | Some n \<Rightarrow> n)"
    and old: "\<And>r. r \<in> set (cat_tags db') \<Longrightarrow> name_df db (tg_name r) = df_of db (tg_id r)"
      "\<And>name. name \<notin> tg_name ` set (cat_tags db') \<Longrightarrow> name_df db name = 0"
    and "index_agrees db idf"
  shows "index_agrees db' (bump (deltas_by_name db' delta) k idf)"
  unfolding index_agrees_def
proof (intro allI impI)
  fix name :: ustr
  assume plain: "plain name"
  let ?d = "deltas_by_name db' delta"
  have d: "tbl_ok ?d \<and> fst ` set ?d \<subseteq> tg_name ` set (cat_tags db')"
  proof (cases "cat_tags db'")
    case Nil
    then have "delta = []" using assms(4) by (simp add: tag_ids_def)
    then show ?thesis by (simp add: deltas_by_name_def)
  next
    case (Cons r rs)
    then show ?thesis using deltas_get [OF assms(1,2) _ assms(3,4) tbl_ok_Nil, of r] by (simp add: deltas_by_name_def)
  qed
  have plains: "\<forall>k \<in> fst ` set ?d. plain k"
  proof
    fix k assume "k \<in> fst ` set ?d"
    then have "k \<in> tg_name ` set (cat_tags db')" by (rule subsetD [OF conjunct2 [OF d]])
    then show "plain k" by (elim imageE) (simp add: tags_plain [OF assms(1)])
  qed
  have "map (to_ascii_lowercase \<circ> fst) ?d = map fst ?d" using plains by (simp add: lowercase_of_plain)
  then have dist: "distinct (map (to_ascii_lowercase \<circ> fst) ?d)" using d by (simp only: tbl_ok_def)
  have delta: "delta_of ?d name = entry_of ?d name" by (rule delta_of_plain [OF conjunct1 [OF d] plains plain])
  have sum: "name_df db name + entry_of ?d name = name_df db' name"
  proof (cases "name \<in> tg_name ` set (cat_tags db')")
    case True
    then obtain r where r: "r \<in> set (cat_tags db')" "name = tg_name r" by blast
    show ?thesis using deltas_get [OF assms(1,2) r(1) assms(3,4) tbl_ok_Nil] old(1) [OF r(1)] grow [of "tg_id r"]
      by (simp add: r(2) name_df_row [OF assms(2) r(1)] deltas_by_name_def split: option.splits)
  next
    case False
    then have "tbl_get ?d name = None" using d tbl_get_None [of ?d name] by blast
    then have "entry_of ?d name = 0" by simp
    then show ?thesis using False old(2) name_df_absent by simp
  qed
  have pos: "0 \<le> name_df db' name" by (simp add: name_df_def df_of_def split: option.splits)
  have now: "entry_of (df idf) name = name_df db name" using assms(8) plain unfolding index_agrees_def lookup_plain [OF plain, symmetric] by blast
  have low: "to_ascii_lowercase name = name" by (rule lowercase_of_plain [OF plain])
  have fin: "entry_of (fold bump_tag ?d (df idf)) name = name_df db' name"
    using bump_entry_eq [OF dist, of "df idf" name] unfolding low delta now sum using pos by simp
  show "lookup_df (bump ?d k idf) name = name_df db' name"
  proof (cases "?d = [] \<and> k = 0")
    case True
    then show ?thesis using fin lookup_plain [OF plain, of idf] by (simp add: bump_def)
  next
    case False
    then have "df (bump ?d k idf) = fold bump_tag ?d (df idf)" by (auto simp: bump_def)
    then show ?thesis using fin lookup_plain [OF plain, of "bump ?d k idf"] by simp
  qed
qed

section \<open>Runs of the catalog\<close>

definition tracked :: "Catalog_DB \<times> IdfIndex \<Rightarrow> bool" where
  "tracked = (\<lambda>(db, idf). catalog_ok db \<and> df_exact db \<and> (single_group db \<longrightarrow> index_agrees db idf))"

lemma single_group_prefix:
  "map (\<lambda>r. (tg_id r, tg_name r)) (cat_tags db') = map (\<lambda>r. (tg_id r, tg_name r)) (cat_tags db) @ new \<Longrightarrow> single_group db' \<Longrightarrow> single_group db"
proof -
  assume "map (\<lambda>r. (tg_id r, tg_name r)) (cat_tags db') = map (\<lambda>r. (tg_id r, tg_name r)) (cat_tags db) @ new"
  from arg_cong [OF this, of "map snd"] have "map tg_name (cat_tags db') = map tg_name (cat_tags db) @ map snd new"
    by (simp add: comp_def)
  then show "single_group db' \<Longrightarrow> single_group db" by (simp add: single_group_def)
qed

lemma bump_or_not: "(if delta = [] then x else bump delta 0 x) = bump delta 0 x"
  by (simp add: bump_def)

lemma tracked_batch:
  assumes "tracked (db, idf)" "save_posts_tags_batch_in_tx ps bl track account db = Inr (e, db')"
  shows "tracked (db', apply_effects e idf)"
proof -
  have ok: "catalog_ok db" "df_exact db" using assms(1) by (simp_all add: tracked_def)
  obtain delta where d: "catalog_ok db'" "df_exact db'" "df_delta_by_name e = deltas_by_name db' delta" "tbl_ok delta"
    "fst ` set delta \<subseteq> set (tag_ids db')" "\<And>i. df_of db' i = df_of db i + (case tbl_get delta i of None \<Rightarrow> 0 | Some n \<Rightarrow> n)"
    "\<exists>new. map (\<lambda>r. (tg_id r, tg_name r)) (cat_tags db') = map (\<lambda>r. (tg_id r, tg_name r)) (cat_tags db) @ new"
    by (rule batch_result [OF ok assms(2)]) (rule that)
  obtain new where new: "map (\<lambda>r. (tg_id r, tg_name r)) (cat_tags db') = map (\<lambda>r. (tg_id r, tg_name r)) (cat_tags db) @ new"
    using d(7) by blast
  have sub: "(tg_id r, tg_name r) \<in> (\<lambda>r. (tg_id r, tg_name r)) ` set (cat_tags db')" if "r \<in> set (cat_tags db)" for r
    using arg_cong [OF new, of set] that by auto
  have "index_agrees db' (apply_effects e idf)" if single: "single_group db'"
  proof -
    note single0 = single_group_prefix [OF new single]
    have "name_df db (tg_name r) = df_of db (tg_id r)" if r: "r \<in> set (cat_tags db')" for r
    proof (cases "\<exists>s \<in> set (cat_tags db). tg_name s = tg_name r")
      case True
      then obtain s where s: "s \<in> set (cat_tags db)" "tg_name s = tg_name r" by blast
      obtain s' where s': "s' \<in> set (cat_tags db')" "tg_id s' = tg_id s" "tg_name s' = tg_name s" using sub [OF s(1)] by auto
      then have "s' = r" using single r s(2) by (auto simp: single_group_def distinct_map inj_on_def)
      then show ?thesis using name_df_row [OF single0 s(1)] s s' by simp
    next
      case False
      have "tg_id r \<notin> set (tag_ids db)"
      proof
        assume "tg_id r \<in> set (tag_ids db)"
        then obtain s where s: "s \<in> set (cat_tags db)" "tg_id s = tg_id r" by (auto simp: tag_ids_def)
        obtain s' where s': "s' \<in> set (cat_tags db')" "tg_id s' = tg_id s" "tg_name s' = tg_name s" using sub [OF s(1)] by auto
        then have "s' = r" using d(1) r s(2) by (auto simp: catalog_ok_def tag_ids_def distinct_map inj_on_def)
        then show False using False s s' by auto
      qed
      then have "df_of db (tg_id r) = 0" using ok(1) by (force simp: catalog_ok_def df_of_def filter_empty_conv)
      moreover have "name_df db (tg_name r) = 0" using False by (intro name_df_absent) auto
      ultimately show ?thesis by simp
    qed
    moreover have "name_df db name = 0" if "name \<notin> tg_name ` set (cat_tags db')" for name
      using that sub by (intro name_df_absent) force
    moreover have "index_agrees db idf" using assms(1) single0 by (simp add: tracked_def)
    ultimately show ?thesis
      unfolding apply_effects_def bump_or_not d(3) by (intro index_follows [OF d(1) single d(4,5) d(6)])
  qed
  then show ?thesis using d(1,2) by (simp add: tracked_def)
qed

lemma tracked_frame:
  "tracked (db, idf) \<Longrightarrow> catalog_ok db' \<and> df_exact db' \<Longrightarrow> cat_tags db' = cat_tags db \<Longrightarrow> cat_tags_posts db' = cat_tags_posts db \<Longrightarrow>
    tracked (db', idf)"
  using df_of_cong [of db' db] by (simp add: tracked_def index_agrees_def name_df_def single_group_def cong: option.case_cong)

lemma tracked_save:
  assumes "tracked (db, idf)" "save_posts_with_tags now ps a bl track c db = Inr (e, db')"
  shows "tracked (db', apply_effects e idf)"
proof (cases "ps = []")
  case True
  then show ?thesis using assms by (auto simp: save_posts_with_tags_def no_effects_def apply_effects_def)
next
  case False
  then obtain db1 where db1: "save_posts_in_tx now ps a db = Inr db1" "save_posts_tags_batch_in_tx ps bl track c db1 = Inr (e, db')"
    using assms(2) by (auto simp: save_posts_with_tags_def split: sum.splits)
  have "catalog_ok db \<and> df_exact db" using assms(1) by (simp add: tracked_def)
  from save_posts_ok [OF this db1(1)] have "tracked (db1, idf)" using tracked_frame [OF assms(1)] by blast
  then show ?thesis by (rule tracked_batch [OF _ db1(2)])
qed

lemma tracked_browse:
  assumes "tracked (db, idf)" "upsert_catalog_posts_with_tags now ps db = Inr (e, db')"
  shows "tracked (db', apply_effects e idf)"
proof (cases "ps = []")
  case True
  then show ?thesis using assms by (auto simp: upsert_catalog_posts_with_tags_def no_effects_def apply_effects_def)
next
  case False
  have "catalog_ok db \<and> df_exact db" using assms(1) by (simp add: tracked_def)
  from upsert_posts_ok [OF this, of now ps] have "tracked (upsert_catalog_posts_in_tx now ps db, idf)"
    using tracked_frame [OF assms(1)] by blast
  then show ?thesis using tracked_batch assms(2) False by (simp add: upsert_catalog_posts_with_tags_def)
qed

text \<open>A deletion of distinct posts.\<close>

lemma deltas_negated:
  fixes t :: "(int, int) table"
  assumes "tbl_ok t"
  shows "tbl_ok (map (\<lambda>(i, c). (i, - c)) t)" "fst ` set (map (\<lambda>(i, c). (i, - c)) t) = fst ` set t"
    "tbl_get (map (\<lambda>(i, c). (i, - c)) t) k = map_option uminus (tbl_get t k)"
proof -
  have keys: "map fst (map (\<lambda>(i, c). (i, - c)) t) = map fst t" by (induction t) auto
  show "tbl_ok (map (\<lambda>(i, c). (i, - c)) t)" unfolding tbl_ok_def keys using assms by (simp add: tbl_ok_def)
  show "fst ` set (map (\<lambda>(i, c). (i, - c)) t) = fst ` set t" using arg_cong [OF keys, of set] by (simp only: set_map)
  show "tbl_get (map (\<lambda>(i, c). (i, - c)) t) k = map_option uminus (tbl_get t k)" unfolding tbl_get_def by (induction t) auto
qed

lemma tracked_delete:
  assumes "tracked (db, idf)" "distinct ids" "ids \<noteq> [] \<Longrightarrow> set ids \<subseteq> set (post_ids db)"
    and "delete_posts_by_ids_in_tx ids db = (e, db')"
  shows "tracked (db', apply_post_delete_effects e idf)"
proof (cases "ids = []")
  case True
  then show ?thesis using assms by (auto simp: delete_posts_by_ids_in_tx_def apply_post_delete_effects_def)
next
  case False
  have ok: "catalog_ok db \<and> df_exact db" using assms(1) by (simp add: tracked_def)
  have ok': "catalog_ok db' \<and> df_exact db'" using delete_ok [OF ok, of ids] assms(4) by simp
  let ?ps = "fold (postings_of_chunk db) (chunks IN_CLAUSE_CHUNK ids) []"
  have conc: "concat (chunks IN_CLAUSE_CHUNK ids) = ids" by (simp add: concat_chunks IN_CLAUSE_CHUNK_def)
  have ps: "tbl_ok ?ps" "\<And>i. tbl_get ?ps i = (if hits_in db ids i = 0 then None else Some (hits_in db ids i))"
    using postings_get [OF _ tbl_ok_Nil, of "chunks IN_CLAUSE_CHUNK ids" db] assms(2) conc by auto
  have db': "cat_tags db' = map (\<lambda>r. if tg_id r \<in> fst ` set ?ps then r\<lparr>tg_df := df_of db' (tg_id r)\<rparr> else r) (cat_tags db)"
    "\<And>i. df_of db' i = df_of db i - hits_in db ids i" and e: "df_delta e = deltas_by_name db (map (\<lambda>(i, c). (i, - c)) ?ps)"
    using assms(4) False by (auto simp: delete_posts_cases Let_def recompute_tags df_of_delete_hits)
  have names: "map tg_name (cat_tags db') = map tg_name (cat_tags db)" "map tg_id (cat_tags db') = map tg_id (cat_tags db)"
    by (simp_all add: db'(1) comp_def if_distrib cong: if_cong)
  have pairs: "map (\<lambda>r. (tg_id r, tg_name r)) (cat_tags db') = map (\<lambda>r. (tg_id r, tg_name r)) (cat_tags db)"
    by (simp add: db'(1) comp_def if_distrib cong: if_cong)
  have rows: "name_of_id db' = name_of_id db"
  proof
    fix i
    have "map_option tg_name (List.find (\<lambda>r. tg_id r = i) (map (\<lambda>r. if P r then r\<lparr>tg_df := g r\<rparr> else r) rs)) =
        map_option tg_name (List.find (\<lambda>r. tg_id r = i) rs)" for P g rs
      by (induction rs) auto
    then show "name_of_id db' i = name_of_id db i" unfolding name_of_id_def db'(1) .
  qed
  have removed: "0 < removed e"
  proof -
    obtain i where "i \<in> set ids" "i \<in> set (post_ids db)" using assms(3) False by (cases ids) auto
    then have "filter (\<lambda>r. pr_id r \<in> set ids) (cat_posts db) \<noteq> []" by (auto simp: filter_empty_conv post_ids_def)
    then show ?thesis using removed_delete [of ids db] assms(4) by simp
  qed
  have "index_agrees db' (bump (df_delta e) k idf)" if single: "single_group db'" for k
  proof -
    have single0: "single_group db" using single names by (simp add: single_group_def)
    have agree: "index_agrees db idf" using assms(1) single0 by (simp add: tracked_def)
    have "name_df db (tg_name r) = df_of db (tg_id r)" if "r \<in> set (cat_tags db')" for r
    proof -
      have "(tg_id r, tg_name r) \<in> (\<lambda>r. (tg_id r, tg_name r)) ` set (cat_tags db)"
        using arg_cong [OF pairs, of set] that by auto
      then obtain s where "s \<in> set (cat_tags db)" "tg_name s = tg_name r" "tg_id s = tg_id r" by auto
      then show ?thesis using name_df_row [OF single0] by metis
    qed
    moreover have "name_df db name = 0" if "name \<notin> tg_name ` set (cat_tags db')" for name
      using that arg_cong [OF names(1), of set] by (intro name_df_absent) simp
    moreover have "fst ` set ?ps \<subseteq> set (tag_ids db')"
    proof
      fix i assume "i \<in> fst ` set ?ps"
      then have "hits_in db ids i \<noteq> 0" using tbl_get_None [of ?ps i] ps(2) by auto
      then have "i \<in> fst ` set (cat_tags_posts db)" by (force simp: hits_in_def filter_empty_conv)
      then show "i \<in> set (tag_ids db')" using ok names(2) by (auto simp: catalog_ok_def tag_ids_def)
    qed
    moreover have "df_delta e = deltas_by_name db' (map (\<lambda>(i, c). (i, - c)) ?ps)" by (simp add: e deltas_by_name_def rows)
    ultimately show ?thesis
      using index_follows [of db' "map (\<lambda>(i, c). (i, - c)) ?ps" db idf k] ok' single agree deltas_negated [OF ps(1)] ps(2) db'(2)
      by simp
  qed
  then show ?thesis using ok' removed by (simp add: tracked_def apply_post_delete_effects_def)
qed

end
