(* ===== verification/Catalog_Run.thy ===== *)
theory Catalog_Run
  imports Catalog_Props
begin

text \<open>
  Runs of the catalog together with the index in memory, and what a stored post reads back as.
\<close>

section \<open>Steps\<close>

definition get_tags_df :: "Catalog_DB \<Rightarrow> (ustr, int) table" where
  "get_tags_df db = fold (\<lambda>r. tbl_insert (tg_name r) (tg_df r)) (cat_tags db) []"

definition try_post_count :: "Catalog_DB \<Rightarrow> int" where
  "try_post_count db = int (length (cat_posts db))"

definition from_db :: "(ustr \<Rightarrow> ustr) \<Rightarrow> Catalog_DB \<Rightarrow> IdfIndex" where
  "from_db lowercase db = from_df lowercase (get_tags_df db) (try_post_count db)"

text \<open>What the server does to the catalog: new accounts, syncs of favourites, posts met while browsing, tag counts, prunings,
  the removal of an account's posts, originals stored on disk, and a rebuild of the index from the table.\<close>

inductive catalog_step :: "(ustr \<Rightarrow> ustr) \<Rightarrow> Catalog_DB \<times> IdfIndex \<Rightarrow> Catalog_DB \<times> IdfIndex \<Rightarrow> bool" for lowercase where
  account: "catalog_step lowercase (db, idf) (db\<lparr>cat_accounts := a # cat_accounts db\<rparr>, idf)"
| save: "save_posts_with_tags now ps a bl track c db = Inr (e, db') \<Longrightarrow> catalog_step lowercase (db, idf) (db', apply_effects e idf)"
| browse: "upsert_catalog_posts_with_tags now ps db = Inr (e, db') \<Longrightarrow> catalog_step lowercase (db, idf) (db', apply_effects e idf)"
| recount: "catalog_step lowercase (db, idf) (set_tag_counts a db, idf)"
| orphans: "prune_orphan_candidates now ttl (db, idf) = (r, s, d) \<Longrightarrow> catalog_step lowercase (db, idf) s"
| stale: "prune_stale_catalog_posts now keep (db, idf) = (n, s, d) \<Longrightarrow> catalog_step lowercase (db, idf) s"
| drop: "drop_account_posts a db idf caches = (db', idf', caches') \<Longrightarrow> catalog_step lowercase (db, idf) (db', idf')"
| forget: "catalog_step lowercase (db, idf) (snd (drop_account_cooccurrence a db), idf)"
| media: "p \<in> set (post_ids db) \<Longrightarrow> catalog_step lowercase (db, idf) (db\<lparr>cat_media := p # cat_media db\<rparr>, idf)"
| rebuild: "\<forall>r \<in> set (cat_tags db). lowercase (tg_name r) = tg_name r \<Longrightarrow> catalog_step lowercase (db, idf) (db, from_db lowercase db)"

inductive catalog_run :: "(ustr \<Rightarrow> ustr) \<Rightarrow> Catalog_DB \<times> IdfIndex \<Rightarrow> bool" for lowercase where
  start: "catalog_run lowercase (empty_catalog, empty_index)"
| step: "catalog_run lowercase s \<Longrightarrow> catalog_step lowercase s s' \<Longrightarrow> catalog_run lowercase s'"

lemma distinct_orphans: "catalog_ok db \<Longrightarrow> distinct (take n (orphans cutoff db))"
  by (simp add: orphans_def catalog_ok_def post_ids_def distinct_map_filter)

lemma tracked_prune:
  "tracked s \<Longrightarrow> tracked (snd (prune_orphan_posts_batched cutoff batch s))"
proof (induction cutoff batch s rule: prune_orphan_posts_batched.induct)
  case (1 cutoff batch db idf)
  let ?ids = "take batch (orphans cutoff db)"
  obtain e db' where del: "delete_posts_by_ids_in_tx ?ids db = (e, db')" by fastforce
  have "set ?ids \<subseteq> set (post_ids db)" using set_take_subset [of batch "orphans cutoff db"] by (auto simp: orphans_def post_ids_def)
  moreover have "distinct ?ids" using 1(2) by (intro distinct_orphans) (simp add: tracked_def)
  ultimately have t: "tracked (db', apply_post_delete_effects e idf)" using tracked_delete [OF 1(2) _ _ del] by blast
  show ?case
    using t 1(1) [OF del [symmetric] refl refl _ t]
    by (subst prune_orphan_posts_batched.simps) (simp add: del Let_def split_beta)
qed

lemma owners_ok:
  assumes "catalog_ok db" "distinct (map (\<lambda>(a, p, _). (a, p)) xs)" "(fst \<circ> snd) ` set xs \<subseteq> set (post_ids db)"
  shows "catalog_ok (db\<lparr>cat_accounts_post := xs\<rparr>)"
  using assms unfolding catalog_ok_def post_ids_def tag_ids_def tag_keys_def by simp

lemma tracked_drop:
  assumes "tracked (db, idf)" "drop_account_posts a db idf caches = (db', idf', caches')"
  shows "tracked (db', idf')"
proof -
  let ?ids = "exclusively_owned db a"
  obtain e db1 where del: "delete_posts_by_ids_in_tx ?ids db = (e, db1)" by fastforce
  have ok: "catalog_ok db" using assms(1) by (simp add: tracked_def)
  have "distinct (map (\<lambda>(a, p, _). p) (filter (\<lambda>(b, p, _). b = a \<and> P p) xs))"
    if "distinct (map (\<lambda>(a, p, _). (a, p)) xs)" for xs :: "(int \<times> int \<times> int) list" and P
    using that by (induction xs) (auto simp: image_iff)
  then have "distinct ?ids" using ok by (simp add: catalog_ok_def exclusively_owned_def)
  moreover have "set ?ids \<subseteq> set (post_ids db)"
  proof -
    have "set ?ids \<subseteq> (fst \<circ> snd) ` set (cat_accounts_post db)" by (force simp: exclusively_owned_def)
    also have "\<dots> \<subseteq> set (post_ids db)" using ok unfolding catalog_ok_def by blast
    finally show ?thesis .
  qed
  ultimately have t: "tracked (db1, apply_post_delete_effects e idf)" by (intro tracked_delete [OF assms(1) _ _ del])
  let ?db = "db1\<lparr>cat_accounts_post := filter (\<lambda>(b, _). b \<noteq> a) (cat_accounts_post db1)\<rparr>"
  have db1: "catalog_ok db1" "df_exact db1" using t by (simp_all add: tracked_def)
  have "distinct (map (\<lambda>(a, p, _). (a, p)) (cat_accounts_post db1))" "(fst \<circ> snd) ` set (cat_accounts_post db1) \<subseteq> set (post_ids db1)"
    using db1(1) unfolding catalog_ok_def by blast+
  then have "catalog_ok ?db" using db1(1) by (intro owners_ok) (auto simp: distinct_map_filter)
  moreover have "df_exact ?db" using db1(2) df_of_cong [of ?db db1] by (simp add: df_exact_def)
  ultimately have "catalog_ok ?db \<and> df_exact ?db" by blast
  then have "tracked (?db, apply_post_delete_effects e idf)" using tracked_frame [OF t, of ?db] by simp
  then show ?thesis using assms(2) by (simp add: drop_account_posts_def del Let_def)
qed

lemma get_tags_df_get:
  assumes "catalog_ok db" "single_group db"
  shows "tbl_ok (get_tags_df db)" "fst ` set (get_tags_df db) = tg_name ` set (cat_tags db)"
    "r \<in> set (cat_tags db) \<Longrightarrow> tbl_get (get_tags_df db) (tg_name r) = Some (tg_df r)"
proof -
  have "distinct (map tg_name rs) \<Longrightarrow> tbl_ok t \<Longrightarrow> tbl_ok (fold (\<lambda>r. tbl_insert (tg_name r) (tg_df r)) rs t) \<and>
      fst ` set (fold (\<lambda>r. tbl_insert (tg_name r) (tg_df r)) rs t) = fst ` set t \<union> tg_name ` set rs \<and>
      (\<forall>r \<in> set rs. tbl_get (fold (\<lambda>r. tbl_insert (tg_name r) (tg_df r)) rs t) (tg_name r) = Some (tg_df r)) \<and>
      (\<forall>k. k \<notin> tg_name ` set rs \<longrightarrow> tbl_get (fold (\<lambda>r. tbl_insert (tg_name r) (tg_df r)) rs t) k = tbl_get t k)" for rs t
  proof (induction rs arbitrary: t)
    case (Cons r rs)
    have "fst ` set (tbl_insert (tg_name r) (tg_df r) t) = insert (tg_name r) (fst ` set t)" by (simp add: tbl_insert_def dom_update)
    then show ?case using Cons.IH [of "tbl_insert (tg_name r) (tg_df r) t"] Cons.prems by simp
  qed simp
  from this [of "cat_tags db" "[]"] assms(2)
  show "tbl_ok (get_tags_df db)" "fst ` set (get_tags_df db) = tg_name ` set (cat_tags db)"
    "r \<in> set (cat_tags db) \<Longrightarrow> tbl_get (get_tags_df db) (tg_name r) = Some (tg_df r)"
    by (simp_all add: get_tags_df_def single_group_def)
qed

lemma from_db_agrees:
  assumes "catalog_ok db" "df_exact db" "single_group db" "\<forall>r \<in> set (cat_tags db). lowercase (tg_name r) = tg_name r"
  shows "index_agrees db (from_db lowercase db)"
  unfolding index_agrees_def
proof (intro allI impI)
  fix name :: ustr
  assume plain: "plain name"
  note t = get_tags_df_get [OF assms(1,3)]
  have "distinct (map fst (get_tags_df db))" using t(1) by (simp add: tbl_ok_def)
  moreover have "\<forall>k \<in> fst ` set (get_tags_df db). lowercase k = k" unfolding t(2) using assms(4) by simp
  ultimately have get: "tbl_get (df (from_db lowercase db)) = tbl_get (get_tags_df db)" unfolding from_db_def by (rule from_df_get)
  show "lookup_df (from_db lowercase db) name = name_df db name"
  proof (cases "name \<in> tg_name ` set (cat_tags db)")
    case True
    then obtain r where r: "r \<in> set (cat_tags db)" "name = tg_name r" by blast
    have "tbl_get (get_tags_df db) name = Some (tg_df r)" using t(3) [OF r(1)] r(2) by simp
    then have "lookup_df (from_db lowercase db) name = tg_df r" unfolding lookup_plain [OF plain] get by simp
    then show ?thesis using assms(2) r(1) name_df_row [OF assms(3) r(1)] r(2) by (simp add: df_exact_def)
  next
    case False
    then have "tbl_get (get_tags_df db) name = None" using tbl_get_None [of "get_tags_df db" name] t(2) by simp
    then show ?thesis unfolding lookup_plain [OF plain] get name_df_absent [OF False] by simp
  qed
qed

lemma catalog_step_tracked: "catalog_step lowercase s s' \<Longrightarrow> tracked s \<Longrightarrow> tracked s'"
proof (induction rule: catalog_step.induct)
  case (account db idf a)
  then show ?case using tracked_frame [OF account, of "db\<lparr>cat_accounts := a # cat_accounts db\<rparr>"]
    by (simp add: tracked_def catalog_ok_def df_exact_def post_ids_def tag_ids_def tag_keys_def df_of_def)
next
  case (recount db idf a)
  then show ?case using tracked_frame [OF recount, of "set_tag_counts a db"]
    by (simp add: tracked_def catalog_ok_def df_exact_def post_ids_def tag_ids_def tag_keys_def df_of_def set_tag_counts_def Let_def)
next
  case (forget db idf a)
  then show ?case using tracked_frame [OF forget, of "snd (drop_account_cooccurrence a db)"]
    by (simp add: tracked_def catalog_ok_def df_exact_def post_ids_def tag_ids_def tag_keys_def df_of_def drop_account_cooccurrence_def)
next
  case (media p db idf)
  then show ?case using tracked_frame [OF media(2), of "db\<lparr>cat_media := p # cat_media db\<rparr>"]
    by (simp add: tracked_def catalog_ok_def df_exact_def post_ids_def tag_ids_def tag_keys_def df_of_def)
next
  case (orphans now ttl db idf r s d)
  let ?p = "prune_orphan_posts_batched (now - secs ttl) ORPHAN_PRUNE_BATCH (db, idf)"
  have "s = (db, idf) \<or> s = snd ?p"
    using orphans(1) by (cases ?p) (auto simp: prune_orphan_candidates_def Let_def split: if_splits)
  then show ?case using orphans(2) tracked_prune [OF orphans(2)] by metis
next
  case (stale now keep db idf n s d)
  then have "s = snd (prune_orphan_posts_batched (now - secs (keep * 86400)) ORPHAN_PRUNE_BATCH (db, idf))"
    by (simp add: prune_stale_catalog_posts_def Let_def split_beta)
  then show ?case using tracked_prune [OF stale(2)] by simp
next
  case (rebuild db idf)
  then show ?case using from_db_agrees by (simp add: tracked_def)
qed (simp_all add: tracked_save tracked_browse tracked_drop)

lemma tracked_start: "tracked (empty_catalog, empty_index)"
  using catalog_ok_empty by (simp add: tracked_def index_agrees_def name_df_def empty_catalog_def empty_index_def lookup_df_def Let_def)

lemma catalog_run_tracked: "catalog_run lowercase s \<Longrightarrow> tracked s"
  by (induction rule: catalog_run.induct) (auto intro: tracked_start catalog_step_tracked)


lemma save_otter:
  fixes p :: Post
  defines "p \<equiv> sample_post 7 0 [lit ''Otter'']" and "db0 \<equiv> empty_catalog\<lparr>cat_accounts := [1]\<rparr>"
  shows "\<exists>db. save_posts_with_tags 5 [p] 1 {} True None db0 =
      Inr (\<lparr>df_delta_by_name = [(lit ''otter'', 1)], te_cooc_dirty = False\<rparr>, db) \<and>
    cat_tags db = [\<lparr>tg_id = 1, tg_name = lit ''otter'', tg_group = lit ''artist'', tg_df = 1\<rparr>] \<and> cat_tags_posts db = [(1, 7)]"
proof -
  define db1 where "db1 = link_account 1 7 5 (POST_UPSERT_SQL (post_upsert_params 5 p) db0)"
  have pid: "p_id p = 7" and items: "tag_items p = [(lit ''artist'', lit ''Otter'')]"
    by (simp_all add: p_def sample_post_def tag_items_def Tags_default_def del: lit_simps)
  have lc: "to_ascii_lowercase (lit ''Otter'') = lit ''otter''" "lit ''Otter'' \<noteq> []" by (simp_all add: to_ascii_lowercase_def lower_char_def is_ascii_uppercase_def)
  have row: "pr_id (post_upsert_params 5 p) = 7" by (simp add: post_upsert_params_def Let_def pid)
  have db1: "cat_tags db1 = []" "cat_tag_seq db1 = 0" "cat_tags_posts db1 = []" "post_ids db1 = [7]"
    by (simp_all add: db1_def link_account_def POST_UPSERT_SQL_def db0_def empty_catalog_def post_ids_def row)
  have "save_posts_in_tx 5 [p] 1 db0 = Inr db1" by (simp add: save_posts_in_tx_def db0_def db1_def pid)
  moreover have "\<exists>db. save_posts_tags_batch_in_tx [p] {} True None db1 =
      Inr (\<lparr>df_delta_by_name = [(lit ''otter'', 1)], te_cooc_dirty = False\<rparr>, db) \<and>
    cat_tags db = [\<lparr>tg_id = 1, tg_name = lit ''otter'', tg_group = lit ''artist'', tg_df = 1\<rparr>] \<and> cat_tags_posts db = [(1, 7)]"
    by (simp add: save_posts_tags_batch_in_tx_def save_post_tags_def save_tag_def items pid lc db1 upsert_tag_def Let_def has_postings_def
        recompute_df_for_tags_def df_of_def deltas_by_name_def name_of_id_def tbl_insert_def del: lit_simps)
  ultimately show ?thesis by (simp add: save_posts_with_tags_def del: lit_simps)
qed

text \<open>The run of an account that syncs one favourite.\<close>

definition otter_effects :: TagBatchEffects where
  "otter_effects = \<lparr>df_delta_by_name = [(lit ''otter'', 1)], te_cooc_dirty = False\<rparr>"

lemma otter_run:
  obtains db where "catalog_run id (db, apply_effects otter_effects empty_index)" "cat_tags_posts db = [(1, 7)]"
    "cat_tags db = [\<lparr>tg_id = 1, tg_name = lit ''otter'', tg_group = lit ''artist'', tg_df = 1\<rparr>]"
proof -
  obtain db where db: "save_posts_with_tags 5 [sample_post 7 0 [lit ''Otter'']] 1 {} True None (empty_catalog\<lparr>cat_accounts := [1]\<rparr>) =
      Inr (otter_effects, db)"
    "cat_tags db = [\<lparr>tg_id = 1, tg_name = lit ''otter'', tg_group = lit ''artist'', tg_df = 1\<rparr>]" "cat_tags_posts db = [(1, 7)]"
    using save_otter unfolding otter_effects_def by blast
  have "catalog_step id (empty_catalog, empty_index) (empty_catalog\<lparr>cat_accounts := [1]\<rparr>, empty_index)"
    using catalog_step.account [of id empty_catalog empty_index 1] by (simp add: empty_catalog_def)
  then have "catalog_run id (empty_catalog\<lparr>cat_accounts := [1]\<rparr>, empty_index)" by (rule catalog_run.step [OF catalog_run.start])
  then show ?thesis by (rule that [OF catalog_run.step [OF _ catalog_step.save [OF db(1)]] db(3,2)])
qed


text \<open>Replacing the tags of a post is not such a step: it removes the postings first and counts each one it puts back as new, so the index in
  memory says 2 for a tag with one posting.\<close>

lemma replace_counts_twice:
  "\<exists>db idf e db'. catalog_run id (db, idf) \<and> replace_posts_tags_batch [sample_post 7 0 [lit ''Otter'']] db = Inr (e, db') \<and>
    cat_tags_posts db' = [(1, 7)] \<and> lookup_df (apply_effects e idf) (lit ''otter'') = 2"
proof -
  let ?idf = "apply_effects otter_effects empty_index" and ?p = "sample_post 7 0 [lit ''Otter'']"
  obtain db where db: "catalog_run id (db, ?idf)" "cat_tags_posts db = [(1, 7)]"
    "cat_tags db = [\<lparr>tg_id = 1, tg_name = lit ''otter'', tg_group = lit ''artist'', tg_df = 1\<rparr>]" by (rule otter_run)
  have "catalog_ok db" using catalog_run_tracked [OF db(1)] by (simp add: tracked_def)
  then have id: "7 \<in> set (post_ids db)" by (simp add: catalog_ok_def db(2))
  have pid: "p_id ?p = 7" and items: "tag_items ?p = [(lit ''artist'', lit ''Otter'')]"
    by (simp_all add: sample_post_def tag_items_def Tags_default_def del: lit_simps)
  have lc: "to_ascii_lowercase (lit ''Otter'') = lit ''otter''" "lit ''Otter'' \<noteq> []" "plain (lit ''otter'')"
    by (simp_all add: to_ascii_lowercase_def lower_char_def is_ascii_uppercase_def plain_def)
  define db1 where "db1 = db\<lparr>cat_tags_posts := []\<rparr>"
  have db1: "cat_tags db1 = cat_tags db" "cat_tags_posts db1 = []" "post_ids db1 = post_ids db" by (simp_all add: db1_def post_ids_def)
  have "\<exists>db'. save_posts_tags_batch_in_tx [?p] {} False None db1 = Inr (otter_effects, db') \<and> cat_tags_posts db' = [(1, 7)]"
    using id by (simp add: save_posts_tags_batch_in_tx_def save_post_tags_def save_tag_def items pid lc db1 db(3) upsert_tag_def Let_def has_postings_def
        recompute_df_for_tags_def df_of_def deltas_by_name_def name_of_id_def tbl_insert_def otter_effects_def del: lit_simps)
  then obtain db' where db': "replace_posts_tags_batch [?p] db = Inr (otter_effects, db')" "cat_tags_posts db' = [(1, 7)]"
    by (auto simp: replace_posts_tags_batch_def pid db(2) db1_def simp del: lit_simps)
  have "lookup_df (apply_effects otter_effects ?idf) (lit ''otter'') = 2"
    using lc(3) by (simp add: apply_effects_def otter_effects_def bump_def bump_tag_def empty_index_def lookup_plain plain_def Let_def del: lit_simps)
  then show ?thesis using db(1) db' by blast
qed

end
