(* ===== verification/Catalog_Read.thy ===== *)
theory Catalog_Read
  imports Catalog_Run
begin

text \<open>
  What a post reads back as after it was stored: everything the columns hold, and the tags of the seven stored
  groups, lowercased, without blanks, duplicates and the tags of the blacklist.
\<close>

section \<open>The tags of a post\<close>

text \<open>The links of a post: the group and the name of every tag it has a posting for.\<close>

definition links :: "Catalog_DB \<Rightarrow> int \<Rightarrow> (ustr \<times> ustr) set" where
  "links db pid = {(tg_group r, tg_name r) | r. r \<in> set (cat_tags db) \<and> (tg_id r, pid) \<in> set (cat_tags_posts db)}"

definition kept_tag :: "ustr set \<Rightarrow> ustr \<Rightarrow> bool" where
  "kept_tag bl tag \<longleftrightarrow> tag \<noteq> [] \<and> to_ascii_lowercase tag \<notin> bl"

definition stored_names :: "ustr set \<Rightarrow> ustr list \<Rightarrow> ustr set" where
  "stored_names bl names = to_ascii_lowercase ` {tag \<in> set names. kept_tag bl tag}"

lemma upsert_tag_row:
  "upsert_tag name grp db = (i, db') \<Longrightarrow> \<exists>r \<in> set (cat_tags db'). tg_id r = i \<and> tg_name r = name \<and> tg_group r = grp"
  by (auto simp: upsert_tag_def Let_def dest: find_Some split: option.splits)

lemma tags_unique: "catalog_ok db \<Longrightarrow> r \<in> set (cat_tags db) \<Longrightarrow> s \<in> set (cat_tags db) \<Longrightarrow> tg_id r = tg_id s \<longleftrightarrow> r = s"
  by (auto simp: catalog_ok_def tag_ids_def distinct_map inj_on_def)

lemma links_save_tag:
  assumes "batch_ok db0 b" "pid \<in> set (post_ids db0)"
  shows "links (tb_db (save_tag pid bl (grp, tag) b)) pid =
    (if kept_tag bl tag then insert (grp, to_ascii_lowercase tag) (links (tb_db b) pid) else links (tb_db b) pid)"
proof (cases "kept_tag bl tag")
  case False
  then show ?thesis by (auto simp: save_tag_def kept_tag_def Let_def)
next
  case True
  obtain i db where up: "upsert_tag (to_ascii_lowercase tag) grp (tb_db b) = (i, db)" by fastforce
  have ok: "catalog_ok (tb_db b)" using assms(1) by (simp add: batch_ok_def)
  note u = upsert_tag_ok [OF ok plain_lowercase up]
  obtain r where r: "r \<in> set (cat_tags db)" "tg_id r = i" "tg_name r = to_ascii_lowercase tag" "tg_group r = grp"
    using upsert_tag_row [OF up] by blast
  obtain new where new: "cat_tags db = cat_tags (tb_db b) @ new" "\<forall>r \<in> set new. df_of (tb_db b) (tg_id r) = 0" using u by blast
  have none: "(tg_id s, pid) \<notin> set (cat_tags_posts (tb_db b))" if "s \<in> set new" for s
    using new(2) that by (force simp: df_of_def filter_empty_conv)
  have same: "links db pid = links (tb_db b) pid" using u new(1) none by (auto simp: links_def)
  let ?db = "tb_db (save_tag pid bl (grp, tag) b)"
  have res: "cat_tags ?db = cat_tags db" "set (cat_tags_posts ?db) = insert (i, pid) (set (cat_tags_posts db))"
    using True up by (auto simp: save_tag_def kept_tag_def Let_def)
  have "links ?db pid = insert (grp, to_ascii_lowercase tag) (links db pid)"
  proof -
    have "links ?db pid = {(tg_group s, tg_name s) | s. s \<in> set (cat_tags db) \<and> (tg_id s = i \<or> (tg_id s, pid) \<in> set (cat_tags_posts db))}"
      unfolding links_def res by auto
    moreover have "s \<in> set (cat_tags db) \<and> tg_id s = i \<longleftrightarrow> s = r" for s using tags_unique [of db s r] u r(1,2) by auto
    then have "s \<in> set (cat_tags db) \<and> (tg_id s = i \<or> (tg_id s, pid) \<in> set (cat_tags_posts db)) \<longleftrightarrow>
        s = r \<or> s \<in> set (cat_tags db) \<and> (tg_id s, pid) \<in> set (cat_tags_posts db)" for s by blast
    ultimately show ?thesis unfolding links_def r(3,4) [symmetric] by auto
  qed
  then show ?thesis using True same by simp
qed

lemma links_save_tags:
  "batch_ok db0 b \<Longrightarrow> pid \<in> set (post_ids db0) \<Longrightarrow>
    links (tb_db (fold (save_tag pid bl) items b)) pid =
      links (tb_db b) pid \<union> {(grp, to_ascii_lowercase tag) | grp tag. (grp, tag) \<in> set items \<and> kept_tag bl tag}"
proof (induction items arbitrary: b)
  case (Cons item items)
  obtain grp tag where item: "item = (grp, tag)" by fastforce
  have "fold (save_tag pid bl) (item # items) b = fold (save_tag pid bl) items (save_tag pid bl (grp, tag) b)" by (simp add: item)
  then show ?case using Cons.IH [OF save_tag_ok [OF Cons.prems, of bl grp tag] Cons.prems(2)] links_save_tag [OF Cons.prems, of bl grp tag]
    by (simp add: item split: if_splits) blast+
qed simp

text \<open>A batch leaves posts and media alone.\<close>

definition rows_frame :: "Catalog_DB \<Rightarrow> Catalog_DB \<Rightarrow> bool" where
  "rows_frame db db' \<longleftrightarrow> cat_posts db' = cat_posts db \<and> cat_media db' = cat_media db"

lemma frame_tag: "rows_frame (tb_db b) (tb_db (save_tag pid bl item b))"
proof -
  obtain grp tag where item: "item = (grp, tag)" by fastforce
  obtain i db where up: "upsert_tag (to_ascii_lowercase tag) grp (tb_db b) = (i, db)" by fastforce
  then have "rows_frame (tb_db b) db" by (auto simp: upsert_tag_def Let_def rows_frame_def split: option.splits)
  then show ?thesis using up by (simp add: item save_tag_def Let_def rows_frame_def)
qed

lemma frame_tags: "rows_frame (tb_db b) (tb_db (fold (save_tag pid bl) items b))"
proof (induction items arbitrary: b)
  case (Cons item items)
  then show ?case using frame_tag [of b pid bl item] Cons.IH [of "save_tag pid bl item b"] by (simp add: rows_frame_def)
qed (simp add: rows_frame_def)

lemma pairs_frame [simp]:
  "cat_tags (upsert_cooccurrence_pairs ids db) = cat_tags db" "cat_tags_posts (upsert_cooccurrence_pairs ids db) = cat_tags_posts db"
  "cat_posts (upsert_cooccurrence_pairs ids db) = cat_posts db" "cat_media (upsert_cooccurrence_pairs ids db) = cat_media db"
  "cat_tags (upsert_account_cooccurrence_pairs a ids db) = cat_tags db"
  "cat_tags_posts (upsert_account_cooccurrence_pairs a ids db) = cat_tags_posts db"
  "cat_posts (upsert_account_cooccurrence_pairs a ids db) = cat_posts db" "cat_media (upsert_account_cooccurrence_pairs a ids db) = cat_media db"
  by (simp_all add: upsert_cooccurrence_pairs_def upsert_account_cooccurrence_pairs_def)

lemma frame_post:
  fixes b :: Tag_Batch and p :: Post and bl track account d
  defines "f \<equiv> fold (save_tag (p_id p) bl) (tag_items p) (b\<lparr>tb_ids := []\<rparr>)" and "g \<equiv> fst (save_post_tags bl track account p (b, d))"
  shows "cat_tags (tb_db g) = cat_tags (tb_db f)" "cat_tags_posts (tb_db g) = cat_tags_posts (tb_db f)" "rows_frame (tb_db f) (tb_db g)"
  unfolding f_def g_def by (simp_all add: save_post_tags_def Let_def rows_frame_def split: option.split)

lemma links_recompute: "links (recompute_df_for_tags ids db) pid = links db pid"
proof -
  have "cat_tags (recompute_df_for_tags ids db) = map (\<lambda>r. if tg_id r \<in> ids then r\<lparr>tg_df := df_of db (tg_id r)\<rparr> else r) (cat_tags db)"
    "cat_tags_posts (recompute_df_for_tags ids db) = cat_tags_posts db" by (simp_all add: recompute_df_for_tags_def)
  moreover have "(\<exists>r. x = (tg_group r, tg_name r) \<and> r \<in> (\<lambda>r. if P r then r\<lparr>tg_df := h r\<rparr> else r) ` A \<and> (tg_id r, pid) \<in> B) \<longleftrightarrow>
     (\<exists>r. x = (tg_group r, tg_name r) \<and> r \<in> A \<and> (tg_id r, pid) \<in> B)" for x P h and A :: "TagRow set" and B
  proof
    assume "\<exists>r. x = (tg_group r, tg_name r) \<and> r \<in> A \<and> (tg_id r, pid) \<in> B"
    then obtain r where "x = (tg_group r, tg_name r)" "r \<in> A" "(tg_id r, pid) \<in> B" by blast
    then show "\<exists>r. x = (tg_group r, tg_name r) \<and> r \<in> (\<lambda>r. if P r then r\<lparr>tg_df := h r\<rparr> else r) ` A \<and> (tg_id r, pid) \<in> B"
      by (intro exI [of _ "if P r then r\<lparr>tg_df := h r\<rparr> else r"]) auto
  qed (auto split: if_splits)
  ultimately show ?thesis unfolding links_def by simp
qed

lemma one_post_batch:
  assumes "catalog_ok db" "df_exact db" "pid = p_id p" "pid \<in> set (post_ids db)" "links db pid = {}"
    and "save_posts_tags_batch_in_tx [p] bl track account db = Inr (e, db')"
  shows "links db' pid = {(grp, to_ascii_lowercase tag) | grp tag. (grp, tag) \<in> set (tag_items p) \<and> kept_tag bl tag} \<and> rows_frame db db'"
proof -
  let ?b0 = "\<lparr>tb_db = db, tb_delta = [], tb_touched = {}, tb_ids = []\<rparr>"
  let ?b1 = "fold (save_tag pid bl) (tag_items p) (?b0\<lparr>tb_ids := []\<rparr>)"
  have start: "batch_ok db ?b0" using assms(1,2) by (simp add: batch_ok_def df_exact_def)
  obtain b d where b: "save_post_tags bl track account p (?b0, False) = (b, d)" by fastforce
  have db': "db' = recompute_df_for_tags (tb_touched b) (tb_db b)"
    using assms(6) b by (simp add: save_posts_tags_batch_in_tx_def Let_def split: option.splits)
  have "links (tb_db b) pid = links (tb_db ?b1) pid" "rows_frame (tb_db ?b1) (tb_db b)"
    using frame_post [where b = ?b0 and p = p and bl = bl and track = track and account = account and d = False] b
    by (simp_all add: assms(3) links_def)
  moreover have "links db' pid = links (tb_db b) pid" by (simp add: db' links_recompute)
  moreover have "rows_frame (tb_db b) db'" by (simp add: db' rows_frame_def recompute_df_for_tags_def)
  moreover have "links (tb_db ?b1) pid = links db pid \<union> {(grp, to_ascii_lowercase tag) | grp tag. (grp, tag) \<in> set (tag_items p) \<and> kept_tag bl tag}"
    using links_save_tags [of db "?b0\<lparr>tb_ids := []\<rparr>" pid bl "tag_items p"] start assms(4) by simp
  moreover have "rows_frame db (tb_db ?b1)" using frame_tags [of "?b0\<lparr>tb_ids := []\<rparr>" pid bl "tag_items p"] by simp
  ultimately show ?thesis using assms(5) by (simp add: rows_frame_def)
qed

section \<open>Reading it back\<close>

lemma tag_rows_set: "set (posting_rows db pid) = {r \<in> set (cat_tags db). (tg_id r, pid) \<in> set (cat_tags_posts db)}"
  by (force simp: posting_rows_def)

lemma distinct_tag_rows:
  assumes "catalog_ok db"
  shows "distinct (posting_rows db pid)"
proof -
  have tags: "distinct (cat_tags db)" using assms by (simp add: catalog_ok_def tag_ids_def distinct_map)
  have "distinct ps \<Longrightarrow> distinct (concat (map (\<lambda>(t, p). filter (\<lambda>r. p = pid \<and> tg_id r = t) (cat_tags db)) ps))" for ps
  proof (induction ps)
    case (Cons x ps)
    obtain t p where x: "x = (t, p)" by fastforce
    have "set (filter (\<lambda>r. p = pid \<and> tg_id r = t) (cat_tags db)) \<inter>
        set (concat (map (\<lambda>(t, p). filter (\<lambda>r. p = pid \<and> tg_id r = t) (cat_tags db)) ps)) = {}"
      using Cons.prems x by auto
    then show ?case using Cons tags x by simp
  qed simp
  then show ?thesis unfolding posting_rows_def using assms by (simp add: catalog_ok_def)
qed

definition in_group :: "char list \<Rightarrow> TagRow list \<Rightarrow> ustr list" where
  "in_group g rows = map tg_name (filter (\<lambda>r. tg_group r = lit g) rows)"

lemma stored_tags_groups:
  "stored_tags db pid = Tags_default\<lparr>general := in_group ''general'' (posting_rows db pid), artist := in_group ''artist'' (posting_rows db pid),
     copyright := in_group ''copyright'' (posting_rows db pid), character := in_group ''character'' (posting_rows db pid),
     species := in_group ''species'' (posting_rows db pid), meta := in_group ''meta'' (posting_rows db pid),
     lore := in_group ''lore'' (posting_rows db pid)\<rparr>"
proof -
  have "fold (\<lambda>r. push_tag (tg_group r) (tg_name r)) rows t = t\<lparr>general := general t @ in_group ''general'' rows,
      artist := artist t @ in_group ''artist'' rows, copyright := copyright t @ in_group ''copyright'' rows,
      character := character t @ in_group ''character'' rows, species := species t @ in_group ''species'' rows,
      meta := meta t @ in_group ''meta'' rows, lore := lore t @ in_group ''lore'' rows\<rparr>" for rows t
  proof (induction rows arbitrary: t)
    case (Cons r rows)
    show ?case unfolding fold_simps comp_apply Cons.IH by (simp add: push_tag_def in_group_def)
  qed (simp add: in_group_def)
  then show ?thesis by (simp add: stored_tags_def Tags_default_def)
qed

lemma in_group_set: "set (in_group g (posting_rows db pid)) = {name. (lit g, name) \<in> links db pid}"
  by (auto simp: in_group_def tag_rows_set links_def) metis

lemma distinct_in_group:
  assumes "catalog_ok db"
  shows "distinct (in_group g (posting_rows db pid))"
proof -
  have "inj_on (\<lambda>r. (tg_name r, tg_group r)) (set (cat_tags db))" using assms by (simp add: catalog_ok_def tag_keys_def distinct_map)
  then have "inj_on tg_name (set (filter (\<lambda>r. tg_group r = lit g) (posting_rows db pid)))"
    unfolding inj_on_def by (simp add: tag_rows_set)
  then show ?thesis unfolding in_group_def distinct_map using distinct_tag_rows [OF assms] by simp
qed

lemma find_later: "List.find P xs = None \<Longrightarrow> List.find P (xs @ ys) = List.find P ys"
  by (induction xs) (auto split: if_splits)

lemma rating_back [simp]: "rating_of_text (rating_text rt) = Some rt"
  by (cases rt) (simp_all add: rating_of_text_def)

text \<open>The names of a group among what was saved.\<close>

lemma saved_group:
  "{name. (lit g, name) \<in> {(grp, to_ascii_lowercase tag) | grp tag. (grp, tag) \<in> set (tag_items p) \<and> kept_tag bl tag}} =
    to_ascii_lowercase ` {tag. (lit g, tag) \<in> set (tag_items p) \<and> kept_tag bl tag}"
  by auto

lemma items_group:
  "{tag. (lit ''general'', tag) \<in> set (tag_items p)} = set (general (tags p))"
  "{tag. (lit ''artist'', tag) \<in> set (tag_items p)} = set (artist (tags p))"
  "{tag. (lit ''copyright'', tag) \<in> set (tag_items p)} = set (copyright (tags p))"
  "{tag. (lit ''character'', tag) \<in> set (tag_items p)} = set (character (tags p))"
  "{tag. (lit ''species'', tag) \<in> set (tag_items p)} = set (species (tags p))"
  "{tag. (lit ''meta'', tag) \<in> set (tag_items p)} = set (meta (tags p))"
  "{tag. (lit ''lore'', tag) \<in> set (tag_items p)} = set (lore (tags p))"
  by (auto simp: tag_items_def Let_def)

lemma saved_names:
  "{tag. (lit g, tag) \<in> set (tag_items p)} = set names \<Longrightarrow>
    {name. (lit g, name) \<in> {(grp, to_ascii_lowercase tag) | grp tag. (grp, tag) \<in> set (tag_items p) \<and> kept_tag bl tag}} = stored_names bl names"
  unfolding saved_group stored_names_def by (rule arg_cong [of _ _ "image to_ascii_lowercase"]) auto

lemma save_one:
  assumes "catalog_ok db" "df_exact db" "p_id p \<notin> set (post_ids db)" "save_posts_with_tags now [p] a bl track c db = Inr (e, db')"
  shows "catalog_ok db' \<and> cat_posts db' = cat_posts db @ [post_upsert_params now p] \<and> p_id p \<notin> set (cat_media db') \<and>
    links db' (p_id p) = {(grp, to_ascii_lowercase tag) | grp tag. (grp, tag) \<in> set (tag_items p) \<and> kept_tag bl tag}"
proof -
  let ?row = "post_upsert_params now p"
  obtain db1 where db1: "save_posts_in_tx now [p] a db = Inr db1" "save_posts_tags_batch_in_tx [p] bl track c db1 = Inr (e, db')"
    using assms(4) by (auto simp: save_posts_with_tags_def split: sum.splits)
  have id: "pr_id ?row = p_id p" by (simp add: post_upsert_params_def Let_def)
  have "db1 = link_account a (p_id p) now (POST_UPSERT_SQL ?row db)" using db1(1) by (simp add: save_posts_in_tx_def split: if_splits)
  then have rows: "cat_posts db1 = cat_posts db @ [?row]" "cat_media db1 = cat_media db" "cat_tags_posts db1 = cat_tags_posts db" "cat_tags db1 = cat_tags db"
    using assms(3) by (simp_all add: link_account_def POST_UPSERT_SQL_def id)
  have ok1: "catalog_ok db1" "df_exact db1" "p_id p \<in> set (post_ids db1)"
    using save_posts_ok [OF conjI [OF assms(1,2)] db1(1)] by auto
  have "links db1 (p_id p) = {}"
    using assms(1,3) unfolding links_def rows catalog_ok_def by (force simp: image_subset_iff)
  note batch = one_post_batch [OF ok1(1,2) refl ok1(3) this db1(2)]
  have "p_id p \<notin> set (cat_media db)" using assms(1,3) by (auto simp: catalog_ok_def)
  moreover have "catalog_ok db'" by (rule batch_result [OF ok1(1,2) db1(2)]) simp
  ultimately show ?thesis using batch rows by (simp add: rows_frame_def)
qed

text \<open>What of a post survives the columns of the table.\<close>

definition same_columns :: "Post \<Rightarrow> Post \<Rightarrow> bool" where
  "same_columns p q \<longleftrightarrow> p_id q = p_id p \<and> created_at q = created_at p \<and> updated_at q = updated_at p \<and> rating q = rating p \<and>
     uploader_id q = uploader_id p \<and> st_score (stats q) = st_score (stats p) \<and> fav_count (stats q) = fav_count (stats p) \<and>
     comment_count (stats q) = comment_count (stats p) \<and> deleted (flags q) = deleted (flags p) \<and>
     has_children (has q) = has_children (has p) \<and> has_notes (has q) = has_notes (has p) \<and> original (files q) = original (files p) \<and>
     ext (f_meta (files q)) = ext (f_meta (files p)) \<and> file_size (f_meta (files q)) = file_size (f_meta (files p)) \<and>
     duration (f_meta (files q)) = duration (f_meta (files p)) \<and>
     pv_width (preview (files q)) = pv_width (preview (files p)) \<and> pv_height (preview (files q)) = pv_height (preview (files p))"

lemma columns_back: "same_columns p ((post_of_row (post_upsert_params now p) (rating p))\<lparr>tags := t\<rparr>)"
  by (simp add: same_columns_def post_of_row_def post_upsert_params_def Let_def or_zero_def flag_def Flags_default_def)



end
