(* ===== verification/Candidate_Pool.thy ===== *)
theory Candidate_Pool
  imports Catalog "HOL-Library.List_Lexorder"
begin

text \<open>
  The local candidate pool, \<open>parser-api/src/db/feed.rs\<close>: the posts of the local catalog a page of the
  feed may draw from.  Six streams of ids, each with a ceiling of its own, are drained in turn.

  A statement that sorts without a unique key leaves the order of ties to SQLite; here ties keep the order of the table.
\<close>

section \<open>Rows of a tag\<close>

text \<open>The rows a stream may serve: the posts with a tag that are not deleted and have a preview.\<close>

definition servable :: "PostRow \<Rightarrow> bool" where
  "servable r \<longleftrightarrow> pr_is_deleted r = 0 \<and> pr_preview_url r \<noteq> None"

definition rows_of_tag :: "Catalog_DB \<Rightarrow> ustr \<Rightarrow> PostRow list" where
  "rows_of_tag db tag =
     (case List.find (\<lambda>r. tg_name r = tag) (cat_tags db) of None \<Rightarrow> []
      | Some t \<Rightarrow> concat (map (\<lambda>(i, p). filter (\<lambda>r. pr_id r = p \<and> servable r) (cat_posts db))
          (filter (\<lambda>(i, p). i = tg_id t) (cat_tags_posts db))))"

section \<open>The streams\<close>

definition local_candidates_for_tag_names :: "Catalog_DB \<Rightarrow> ustr list \<Rightarrow> nat \<Rightarrow> int list" where
  "local_candidates_for_tag_names db names limit =
     (let merged = concat (map (\<lambda>t. take limit (rev (sort (map pr_id (rows_of_tag db t))))) names)
      in take limit (remdups_adj (rev (sort merged))))"

definition rank_tags_by_idf :: "(ustr \<times> int) list \<Rightarrow> IdfIndex \<Rightarrow> nat \<Rightarrow> ustr list" where
  "rank_tags_by_idf rows idf want =
     (let scored = map (\<lambda>(name, n). (real_of_int (max n 1) * idf_tempered_from_df idf (df_for idf name) 1 100 (1 / 2) 1 1, name)) rows
      in map snd (take want (sort_key (\<lambda>x. - fst x) (sort_key snd scored))))"

definition local_candidates_backlog :: "Catalog_DB \<Rightarrow> int \<Rightarrow> ustr list \<Rightarrow> f64 \<Rightarrow> int \<Rightarrow> int list" where
  "local_candidates_backlog db now names older_than_days limit =
     (if limit \<le> 0 \<or> names = [] then []
      else let cutoff = now - secs \<lfloor>max 0 older_than_days * 86400\<rfloor>;
               merged = concat (map (\<lambda>t. take (nat limit) (sort_key (\<lambda>r. - pr_fav_count r)
                 (filter (\<lambda>r. pr_created_at r < cutoff) (rows_of_tag db t)))) names);
               ordered = sort_key (\<lambda>r. - pr_fav_count r) (sort_key (\<lambda>r. - pr_id r) merged)
           in take (nat limit) (rev (remdups (rev (map pr_id ordered)))))"

definition local_candidates_recent_popular :: "Catalog_DB \<Rightarrow> int \<Rightarrow> f64 \<Rightarrow> int \<Rightarrow> int \<Rightarrow> int list" where
  "local_candidates_recent_popular db now fav_baseline recent_days limit =
     (if limit \<le> 0 then []
      else let cutoff = now - secs (max recent_days 1 * 86400);
               threshold = max (max 0 fav_baseline * (6 / 10)) 1
           in take (nat limit) (map pr_id (sort_key (\<lambda>r. - pr_created_at r)
                (filter (\<lambda>r. cutoff \<le> pr_created_at r \<and> servable r \<and> threshold \<le> real_of_int (pr_fav_count r)) (cat_posts db)))))"

section \<open>Draining the streams in turn\<close>

record Stream =
  st_cap :: nat
  st_rest :: "int list"
  st_taken :: nat

definition new_stream :: "nat \<times> int list \<Rightarrow> Stream" where
  "new_stream = (\<lambda>(cap, ids). \<lparr>st_cap = cap, st_rest = ids, st_taken = 0\<rparr>)"

text \<open>The set of ids met is the set of the pool: an id is entered exactly when it is pushed.\<close>

definition fill_step :: "nat \<Rightarrow> Stream \<Rightarrow> int list \<Rightarrow> Stream \<times> int list \<times> bool" where
  "fill_step limit s out =
     (if length out \<ge> limit \<or> st_taken s \<ge> st_cap s then (s, out, False)
      else case dropWhile (\<lambda>i. i \<in> set out) (st_rest s) of
        [] \<Rightarrow> (s\<lparr>st_rest := []\<rparr>, out, False)
      | i # rest \<Rightarrow> (s\<lparr>st_rest := rest, st_taken := st_taken s + 1\<rparr>, out @ [i], True))"

fun fill_round :: "nat \<Rightarrow> Stream list \<Rightarrow> int list \<Rightarrow> Stream list \<times> int list \<times> bool" where
  "fill_round limit [] out = ([], out, False)"
| "fill_round limit (s # ss) out =
     (let (s', out1, p) = fill_step limit s out; (ss', out2, p') = fill_round limit ss out1
      in (s' # ss', out2, p \<or> p'))"

definition pending :: "Stream list \<Rightarrow> nat" where
  "pending ss = sum_list (map (\<lambda>s. length (st_rest s)) ss)"

lemma fill_step_rest:
  "fill_step limit s out = (s', out', p) \<Longrightarrow> length (st_rest s') \<le> length (st_rest s) \<and> (p \<longrightarrow> length (st_rest s') < length (st_rest s))"
  unfolding fill_step_def
  using length_dropWhile_le [of "\<lambda>i. i \<in> set out" "st_rest s"]
  by (auto split: if_splits list.splits)

lemma fill_round_pending:
  "fill_round limit ss out = (ss', out', p) \<Longrightarrow> pending ss' \<le> pending ss \<and> (p \<longrightarrow> pending ss' < pending ss)"
proof (induction ss arbitrary: out ss' out' p)
  case (Cons s ss)
  obtain s1 out1 p1 where 1: "fill_step limit s out = (s1, out1, p1)" by (metis prod_cases3)
  obtain ss2 out2 p2 where 2: "fill_round limit ss out1 = (ss2, out2, p2)" by (metis prod_cases3)
  show ?case using Cons.IH [OF 2] fill_step_rest [OF 1] Cons.prems by (auto simp: 1 2 pending_def)
qed (simp add: pending_def)

function fill_pool :: "nat \<Rightarrow> Stream list \<Rightarrow> int list \<Rightarrow> Stream list \<times> int list" where
  "fill_pool limit ss out =
     (case fill_round limit ss out of (ss', out', progressed) \<Rightarrow>
        if length out' \<ge> limit \<or> \<not> progressed then (ss', out') else fill_pool limit ss' out')"
  by pat_completeness auto
termination
  by (relation "measure (\<lambda>(limit, ss, out). pending ss)") (auto dest: fill_round_pending [OF sym])

declare fill_pool.simps [simp del]

section \<open>The pool of an account\<close>

record CandidatePoolTuning =
  cp_anchor_tags :: nat
  cp_recent_days :: int
  cp_stream_share :: f64
  cp_preferred_limit :: nat
  cp_cooccurrence_limit :: nat
  cp_cooccurrence_min_cooc :: int
  cp_backlog_days :: f64
  cp_backlog_tags :: nat
  cp_backlog_limit :: int
  cp_backlog_enabled :: bool

definition stream_cap :: "CandidatePoolTuning \<Rightarrow> int \<Rightarrow> int" where
  "stream_cap t limit = max \<lceil>real_of_int limit * clamp (5 / 100) 1 (cp_stream_share t)\<rceil> 1"

record CandidatePoolInput =
  ci_tag_counts :: "(ustr \<times> ustr \<times> int) list"
  ci_cooccurrence :: "ustr list"
  ci_preferred :: "ustr list"
  ci_fav_baseline :: f64

definition anchors_for :: "CandidatePoolInput \<Rightarrow> IdfIndex \<Rightarrow> CandidatePoolTuning \<Rightarrow> ustr \<Rightarrow> ustr list" where
  "anchors_for input idf t grp =
     rank_tags_by_idf (map (\<lambda>(name, _, n). (name, n)) (filter (\<lambda>(_, g, _). g = grp) (ci_tag_counts input))) idf (cp_anchor_tags t)"

definition pool_streams :: "Catalog_DB \<Rightarrow> int \<Rightarrow> CandidatePoolInput \<Rightarrow> IdfIndex \<Rightarrow> CandidatePoolTuning \<Rightarrow> int \<Rightarrow> (nat \<times> int list) list" where
  "pool_streams db now input idf t limit =
     (let cap = stream_cap t limit;
          artist_anchors = anchors_for input idf t (lit ''artist'');
          character_anchors = anchors_for input idf t (lit ''character'');
          preferred = take (cp_preferred_limit t) (ci_preferred input);
          neighbours = take (cp_cooccurrence_limit t) (ci_cooccurrence input);
          by_tags = (\<lambda>names. (nat cap, local_candidates_for_tag_names db names (nat cap)))
      in [by_tags artist_anchors, by_tags character_anchors,
          (nat cap, local_candidates_recent_popular db now (ci_fav_baseline input) (cp_recent_days t) cap),
          by_tags preferred, by_tags neighbours] @
         (if cp_backlog_enabled t \<and> cp_backlog_limit t > 0
          then [(nat (max (min (cp_backlog_limit t) cap) 1),
                 local_candidates_backlog db now (take (cp_backlog_tags t) (artist_anchors @ character_anchors @ preferred))
                   (cp_backlog_days t) (cp_backlog_limit t))]
          else []))"

definition collect_candidate_ids :: "Catalog_DB \<Rightarrow> int \<Rightarrow> CandidatePoolInput \<Rightarrow> IdfIndex \<Rightarrow> CandidatePoolTuning \<Rightarrow> int \<Rightarrow> int list" where
  "collect_candidate_ids db now input idf t limit =
     (if limit \<le> 0 then [] else snd (fill_pool (nat limit) (map new_stream (pool_streams db now input idf t limit)) []))"

section \<open>Reading the inputs\<close>

definition sum_for :: "int \<Rightarrow> (int \<times> int) list \<Rightarrow> int" where
  "sum_for k rows = sum_list (map snd (filter (\<lambda>(i, n). i = k) rows))"

definition cooccurrence_partners :: "Catalog_DB \<Rightarrow> int \<Rightarrow> CandidatePoolTuning \<Rightarrow> (int \<times> int) list" where
  "cooccurrence_partners db account t =
     (let rows = filter (\<lambda>((a, t1, t2), n). a = account \<and> n \<ge> cp_cooccurrence_min_cooc t) (cat_account_cooccurrence db);
          halves = map (\<lambda>((a, t1, t2), n). (t1, n)) rows @ map (\<lambda>((a, t1, t2), n). (t2, n)) rows;
          grouped = map (\<lambda>k. (k, sum_for k halves)) (sort (remdups (map fst halves)))
      in take (cp_cooccurrence_limit t * 4 + 16) (sort_key (\<lambda>(k, n). - n) grouped))"

definition load_candidate_pool_input :: "Catalog_DB \<Rightarrow> int \<Rightarrow> CandidatePoolTuning \<Rightarrow> CandidatePoolInput" where
  "load_candidate_pool_input db account t =
     (let named = List.map_filter (\<lambda>(i, n). map_option (\<lambda>name. (n, name)) (name_of_id db i)) (cooccurrence_partners db account t)
      in \<lparr>ci_tag_counts = map snd (filter (\<lambda>(a, _). a = account) (cat_tag_counts db)),
          ci_cooccurrence = map snd (take (cp_cooccurrence_limit t) (sort_key (\<lambda>x. - fst x) (sort_key snd named))),
          ci_preferred = map (\<lambda>(a, name, w). name) (sort_key (\<lambda>(a, name, w). - w) (sort_key (\<lambda>(a, name, w). name)
            (filter (\<lambda>(a, _). a = account) (cat_preferred_tags db)))),
          ci_fav_baseline = (case tbl_get (cat_quality db) account of None \<Rightarrow> 0 | Some x \<Rightarrow> x)\<rparr>)"

definition collect_local_candidate_ids ::
  "int \<Rightarrow> int \<Rightarrow> int \<Rightarrow> Catalog_DB \<Rightarrow> IdfIndex \<Rightarrow> CandidatePoolTuning \<Rightarrow> HydrateCaches \<Rightarrow> int list \<times> HydrateCaches" where
  "collect_local_candidate_ids account limit now db idf t c =
     (case candidates c now account of
        Some cached \<Rightarrow> (cached, c)
      | None \<Rightarrow> let result = collect_candidate_ids db now (load_candidate_pool_input db account t) idf t limit
                in (result, store_candidates c now account result))"

section \<open>The blacklisted posts of a pool\<close>

definition blacklisted_in :: "Catalog_DB \<Rightarrow> ustr list \<Rightarrow> int list \<Rightarrow> int set" where
  "blacklisted_in db tag_chunk post_chunk =
     set (map snd (filter (\<lambda>(t, p). p \<in> set post_chunk \<and> list_ex (\<lambda>r. tg_id r = t \<and> tg_name r \<in> set tag_chunk) (cat_tags db)) (cat_tags_posts db)))"

definition load_blacklisted_post_ids :: "Catalog_DB \<Rightarrow> int list \<Rightarrow> ustr list \<Rightarrow> int set" where
  "load_blacklisted_post_ids db ids blacklisted_tags =
     (if ids = [] \<or> blacklisted_tags = [] then {}
      else \<Union> (set (map (\<lambda>tc. \<Union> (set (map (\<lambda>pc. blacklisted_in db tc pc) (chunks 400 ids)))) (chunks 400 blacklisted_tags))))"

text \<open>The statements are split in chunks to stay below the number of variables a statement may have; together they
  find every post of the list that carries one of the tags.\<close>

lemma blacklisted_in_iff:
  "p \<in> blacklisted_in db tc pc \<longleftrightarrow> p \<in> set pc \<and> (\<exists>r \<in> set (cat_tags db). tg_name r \<in> set tc \<and> (tg_id r, p) \<in> set (cat_tags_posts db))"
  unfolding blacklisted_in_def list_ex_iff by force

lemma load_blacklisted_iff:
  "p \<in> load_blacklisted_post_ids db ids names \<longleftrightarrow>
     p \<in> set ids \<and> (\<exists>r \<in> set (cat_tags db). tg_name r \<in> set names \<and> (tg_id r, p) \<in> set (cat_tags_posts db))"
proof -
  have "p \<in> load_blacklisted_post_ids db ids names \<longleftrightarrow>
     (\<exists>tc \<in> set (chunks 400 names). \<exists>pc \<in> set (chunks 400 ids). p \<in> blacklisted_in db tc pc)"
    by (cases "ids = [] \<or> names = []") (auto simp: load_blacklisted_post_ids_def)
  also have "\<dots> \<longleftrightarrow> (\<exists>pc \<in> set (chunks 400 ids). p \<in> set pc) \<and>
     (\<exists>r \<in> set (cat_tags db). (\<exists>tc \<in> set (chunks 400 names). tg_name r \<in> set tc) \<and> (tg_id r, p) \<in> set (cat_tags_posts db))"
    unfolding blacklisted_in_iff by blast
  also have "\<dots> \<longleftrightarrow> p \<in> set ids \<and> (\<exists>r \<in> set (cat_tags db). tg_name r \<in> set names \<and> (tg_id r, p) \<in> set (cat_tags_posts db))"
    by (simp add: in_chunks)
  finally show ?thesis .
qed

section \<open>What draining guarantees\<close>

text \<open>A stream has nothing to give any more when it has used its share or everything left in it was met.\<close>

definition stuck :: "int list \<Rightarrow> Stream \<Rightarrow> bool" where
  "stuck out s \<longleftrightarrow> st_cap s \<le> st_taken s \<or> set (st_rest s) \<subseteq> set out"

text \<open>After \<open>r\<close> rounds a stream has given \<open>r\<close> ids, or fewer and is stuck.\<close>

definition even_after :: "nat \<Rightarrow> int list \<Rightarrow> Stream \<Rightarrow> bool" where
  "even_after r out s \<longleftrightarrow> st_taken s \<le> r \<and> (st_taken s < r \<longrightarrow> stuck out s)"

lemma stuck_mono: "stuck out s \<Longrightarrow> set out \<subseteq> set out' \<Longrightarrow> stuck out' s"
  by (auto simp: stuck_def)

lemma even_mono: "even_after r out s \<Longrightarrow> set out \<subseteq> set out' \<Longrightarrow> even_after r out' s"
  using stuck_mono by (auto simp: even_after_def)

lemma dropWhile_split: "dropWhile P xs = y # ys \<Longrightarrow> y \<in> set xs \<and> set ys \<subseteq> set xs \<and> \<not> P y"
  by (induction xs) (auto split: if_splits)

lemma fill_step_cases [consumes 1, case_names idle dry gives]:
  assumes "fill_step limit s out = (s', out', p)"
  obtains "s' = s" "out' = out" "\<not> p" "length out \<ge> limit \<or> st_taken s \<ge> st_cap s"
  | "s' = s\<lparr>st_rest := []\<rparr>" "out' = out" "\<not> p" "set (st_rest s) \<subseteq> set out" "length out < limit"
  | i rest where "s' = s\<lparr>st_rest := rest, st_taken := st_taken s + 1\<rparr>" "out' = out @ [i]" p "i \<notin> set out" "i \<in> set (st_rest s)"
      "set rest \<subseteq> set (st_rest s)" "length out < limit" "st_taken s < st_cap s"
proof (cases "length out \<ge> limit \<or> st_taken s \<ge> st_cap s")
  case True
  then show ?thesis using assms that(1) by (simp add: fill_step_def)
next
  case False
  show ?thesis
  proof (cases "dropWhile (\<lambda>i. i \<in> set out) (st_rest s)")
    case Nil
    then have "set (st_rest s) \<subseteq> set out" by (auto simp: dropWhile_eq_Nil_conv)
    then show ?thesis using assms False Nil that(2) by (auto simp: fill_step_def)
  next
    case (Cons i rest)
    then show ?thesis using assms False dropWhile_split [OF Cons] that(3) [of rest i] by (auto simp: fill_step_def)
  qed
qed

definition pool_ok :: "nat \<Rightarrow> int set \<Rightarrow> Stream list \<Rightarrow> int list \<Rightarrow> bool" where
  "pool_ok limit A ss out \<longleftrightarrow> distinct out \<and> length out \<le> limit \<and> set out \<subseteq> A \<and>
     (\<forall>s \<in> set ss. set (st_rest s) \<subseteq> A \<and> st_taken s \<le> st_cap s)"

text \<open>The same in the middle of a round.\<close>

definition nearly_even :: "nat \<Rightarrow> int list \<Rightarrow> Stream \<Rightarrow> bool" where
  "nearly_even r out s \<longleftrightarrow> st_taken s \<le> Suc r \<and> (st_taken s < r \<longrightarrow> stuck out s)"

lemma nearly_mono: "nearly_even r out s \<Longrightarrow> set out \<subseteq> set out' \<Longrightarrow> nearly_even r out' s"
  using stuck_mono by (auto simp: nearly_even_def)

lemma fill_step_ok:
  assumes "fill_step limit s out = (s', out', p)" "pool_ok limit A [s] out"
  shows "pool_ok limit A [s'] out'" "\<exists>ys. out' = out @ ys" "even_after r out s \<Longrightarrow> nearly_even r out' s'"
    "even_after r out s \<Longrightarrow> length out' < limit \<Longrightarrow> even_after (Suc r) out' s'"
    "\<not> p \<Longrightarrow> length out' < limit \<Longrightarrow> stuck out' s'"
  using assms(1)
  by (cases rule: fill_step_cases; use assms(2) in \<open>auto simp: pool_ok_def even_after_def nearly_even_def stuck_def\<close>)+

lemma fill_round_ok:
  assumes "fill_round limit ss out = (ss', out', p)" "pool_ok limit A ss out"
  shows "pool_ok limit A ss' out' \<and> (\<exists>ys. out' = out @ ys) \<and>
    (list_all (even_after r out) ss \<longrightarrow> list_all (nearly_even r out') ss' \<and>
       (length out' < limit \<longrightarrow> list_all (even_after (Suc r) out') ss')) \<and>
    (\<not> p \<and> length out' < limit \<longrightarrow> list_all (stuck out') ss')"
  using assms
proof (induction ss arbitrary: out ss' out' p)
  case (Cons s ss)
  obtain s1 out1 p1 where 1: "fill_step limit s out = (s1, out1, p1)" by (metis prod_cases3)
  obtain ss2 out2 p2 where 2: "fill_round limit ss out1 = (ss2, out2, p2)" by (metis prod_cases3)
  have res: "ss' = s1 # ss2" "out' = out2" "p = (p1 \<or> p2)" using Cons.prems(1) by (auto simp: 1 2)
  have "pool_ok limit A [s] out" using Cons.prems(2) by (simp add: pool_ok_def)
  note step = fill_step_ok [OF 1 this]
  obtain ys where ys: "out1 = out @ ys" using step(2) by blast
  have "pool_ok limit A ss out1" using step(1) Cons.prems(2) by (simp add: pool_ok_def)
  note rest = Cons.IH [OF 2 this]
  obtain zs where zs: "out2 = out1 @ zs" using rest by blast
  have sub: "set out \<subseteq> set out1" "set out1 \<subseteq> set out2" "length out2 < limit \<Longrightarrow> length out1 < limit" using ys zs by auto
  have even: "list_all (even_after r out) ss \<Longrightarrow> list_all (even_after r out1) ss"
    using even_mono [OF _ sub(1)] by (auto simp: list.pred_set)
  have head: "even_after r out s \<Longrightarrow> nearly_even r out2 s1" "even_after r out s \<Longrightarrow> length out2 < limit \<Longrightarrow> even_after (Suc r) out2 s1"
    "\<not> p1 \<Longrightarrow> length out2 < limit \<Longrightarrow> stuck out2 s1"
    using nearly_mono [OF step(3) sub(2)] even_mono [OF step(4) sub(2)] stuck_mono [OF step(5) sub(2)] sub(3) by blast+
  have "pool_ok limit A ss' out'" using rest step(1) by (simp add: res pool_ok_def)
  then show ?case using rest even head ys zs by (simp add: res)
qed (simp add: pool_ok_def)

lemma fill_pool_ok:
  assumes "fill_pool limit ss out = (final, out')" "pool_ok limit A ss out" "list_all (even_after r out) ss"
  shows "pool_ok limit A final out' \<and> (\<exists>r. list_all (nearly_even r out') final) \<and> (length out' < limit \<longrightarrow> list_all (stuck out') final)"
  using assms
proof (induction limit ss out arbitrary: r rule: fill_pool.induct)
  case (1 limit ss out)
  obtain ss1 out1 p where round: "fill_round limit ss out = (ss1, out1, p)" by (metis prod_cases3)
  note ok = fill_round_ok [OF round 1(3), of r]
  show ?case
  proof (cases "length out1 \<ge> limit \<or> \<not> p")
    case True
    then have "final = ss1" "out' = out1" using 1(2) by (auto simp: fill_pool.simps [of limit ss] round)
    then show ?thesis using ok 1(4) True by (auto simp: not_le)
  next
    case False
    then have "fill_pool limit ss1 out1 = (final, out')" using 1(2) by (auto simp: fill_pool.simps [of limit ss] round)
    from 1(1) [OF round [symmetric] refl False this] show ?thesis using ok 1(4) False by (auto simp: not_le)
  qed
qed



text \<open>The first rounds of that pool: an id two streams have is taken from the first, and the second gives its next one.\<close>

lemma fill_round_example:
  "fill_round 4 (map new_stream [(3, [9, 8, 7]), (3, [9, 5]), (1, [2, 1])]) [] =
    ([\<lparr>st_cap = 3, st_rest = [8, 7], st_taken = 1\<rparr>, \<lparr>st_cap = 3, st_rest = [], st_taken = 1\<rparr>, \<lparr>st_cap = 1, st_rest = [1], st_taken = 1\<rparr>],
     [9, 5, 2], True)"
  by (simp add: new_stream_def fill_step_def)

end
