(* ===== verification/Api_Query.thy ===== *)
theory Api_Query
  imports Blacklist "HOL-Library.List_Lexorder"
begin

text \<open>
  The tag query sent to the upstream, \<open>parser-api/src/api.rs\<close>: what the user searches for, the tags the
  account is known to like, and the account's blacklist share the terms the upstream accepts in one
  request.  A \<open>String\<close> is ordered by its bytes, which is the order of its code points.
\<close>

section \<open>The budget\<close>

definition E621_TAG_LIMIT :: nat where "E621_TAG_LIMIT = 40"

record TagQueryBudget =
  tq_limit :: nat
  tq_boost :: nat
  tq_blacklist :: nat

definition budget_default :: TagQueryBudget where
  "budget_default = \<lparr>tq_limit = E621_TAG_LIMIT, tq_boost = 0, tq_blacklist = 0\<rparr>"

text \<open>The three settings of the runtime section that size the query.\<close>

definition budget_from_config :: "nat \<Rightarrow> nat \<Rightarrow> nat \<Rightarrow> TagQueryBudget" where
  "budget_from_config e621_tag_limit e621_boost_budget e621_blacklist_budget =
     \<lparr>tq_limit = min (max e621_tag_limit 1) E621_TAG_LIMIT, tq_boost = e621_boost_budget,
      tq_blacklist = e621_blacklist_budget\<rparr>"

section \<open>Collecting the terms\<close>

text \<open>Each pass goes over its source with the set of names any pass has met so far.\<close>

type_synonym term_state = "ustr set \<times> ustr list"

definition take_positive :: "ustr \<Rightarrow> term_state \<Rightarrow> term_state" where
  "take_positive raw = (\<lambda>(seen, positives).
     let tail = strip_dashes raw; key = to_ascii_lowercase tail
     in if tail = [] \<or> key \<in> seen then (seen, positives) else (insert key seen, positives @ [tail]))"

definition breaks_query :: "nat \<Rightarrow> bool" where
  "breaks_query c \<longleftrightarrow> is_whitespace c \<or> c \<in> {40, 41, 126, 34}"

definition take_boost :: "ustr \<Rightarrow> term_state \<Rightarrow> term_state" where
  "take_boost raw = (\<lambda>(seen, boosts).
     let tail = strip_dashes (trim raw); key = to_ascii_lowercase tail
     in if tail = [] \<or> key \<in> seen then (seen, boosts)
        else if list_ex breaks_query tail then (insert key seen, boosts)
        else (insert key seen, boosts @ [126 # tail]))"

definition take_required :: "ustr \<Rightarrow> term_state \<Rightarrow> term_state" where
  "take_required tag = (\<lambda>(seen, req).
     let key = to_ascii_lowercase tag in if key \<in> seen then (seen, req) else (insert key seen, req @ [tag]))"

definition take_negative :: "ustr \<Rightarrow> term_state \<Rightarrow> term_state" where
  "take_negative tail = (\<lambda>(seen, negatives).
     let key = to_ascii_lowercase tail
     in if tail = [] \<or> key \<in> seen then (seen, negatives) else (insert key seen, negatives @ [45 # tail]))"

record QueryGroups =
  qg_positives :: "ustr list"
  qg_boosts :: "ustr list"
  qg_required :: "ustr list"
  qg_negatives :: "ustr list"

definition query_groups :: "ustr \<Rightarrow> ustr \<Rightarrow> ustr list \<Rightarrow> QueryGroups" where
  "query_groups user_query blacklist boost =
     (let (seen1, positives) = fold take_positive (split_whitespace user_query) ({}, []);
          (seen2, boosts) = fold take_boost boost (seen1, []);
          terms = query_terms blacklist;
          (seen3, req) = fold take_required (required terms) (seen2, []);
          (_, negatives) = fold take_negative (excluded terms) (seen3, [])
      in \<lparr>qg_positives = sort positives, qg_boosts = boosts, qg_required = sort req, qg_negatives = sort negatives\<rparr>)"

section \<open>Filling the budget\<close>

definition picked_groups :: "QueryGroups \<Rightarrow> TagQueryBudget \<Rightarrow> QueryGroups" where
  "picked_groups g budget =
     (let limit = min (max (tq_limit budget) 1) E621_TAG_LIMIT;
          ps = take limit (qg_positives g);
          boost_take = min (min (tq_boost budget) (length (qg_boosts g))) (limit - length ps);
          bs = take boost_take (qg_boosts g);
          used = length ps + length bs;
          rs = take (limit - used) (qg_required g);
          used' = used + length rs;
          cap = (if tq_blacklist budget = 0 then limit else tq_blacklist budget);
          ns = take (min (limit - used') cap) (qg_negatives g)
      in \<lparr>qg_positives = ps, qg_boosts = bs, qg_required = rs, qg_negatives = ns\<rparr>)"

definition boost_group :: "ustr list \<Rightarrow> ustr list" where
  "boost_group bs = (if bs = [] then [] else [lit ''( '' @ join [32] bs @ lit '' )''])"

definition build_e621_tags_query_with_budget :: "ustr \<Rightarrow> ustr \<Rightarrow> ustr list \<Rightarrow> TagQueryBudget \<Rightarrow> ustr" where
  "build_e621_tags_query_with_budget user_query blacklist boost budget =
     (let g = picked_groups (query_groups user_query blacklist boost) budget
      in join [32] (qg_positives g @ boost_group (qg_boosts g) @ qg_required g @ qg_negatives g))"

definition build_e621_tags_query :: "ustr \<Rightarrow> ustr \<Rightarrow> ustr" where
  "build_e621_tags_query user_query blacklist =
     build_e621_tags_query_with_budget user_query blacklist [] budget_default"

definition build_recommendation_tags :: "TagQueryBudget \<Rightarrow> ustr \<Rightarrow> ustr list \<Rightarrow> ustr" where
  "build_recommendation_tags budget blacklist boost =
     build_e621_tags_query_with_budget (lit ''order:id_desc'') blacklist boost budget"

text \<open>How long a page of the upstream is cached.\<close>

definition posts_cache_ttl :: "nat \<Rightarrow> int option \<Rightarrow> nat" where
  "posts_cache_ttl e621_cache_ttl_secs page =
     (if (case page of None \<Rightarrow> 1 | Some p \<Rightarrow> p) = 1 then 120 else e621_cache_ttl_secs)"


section \<open>The names of a query\<close>

text \<open>A pass either leaves its state alone or enters a new name, with or without picking it.\<close>

definition picks_names :: "ustr \<Rightarrow> ('a \<Rightarrow> term_state \<Rightarrow> term_state) \<Rightarrow> bool" where
  "picks_names pre f \<longleftrightarrow> (\<forall>x seen ps. f x (seen, ps) = (seen, ps) \<or>
     (\<exists>t. to_ascii_lowercase t \<notin> seen \<and> f x (seen, ps) \<in>
        {(insert (to_ascii_lowercase t) seen, ps), (insert (to_ascii_lowercase t) seen, ps @ [pre @ t])}))"

definition term_keys :: "ustr \<Rightarrow> ustr list \<Rightarrow> ustr list" where
  "term_keys pre ps = map (\<lambda>p. to_ascii_lowercase (drop (length pre) p)) ps"

lemma term_keys_simps [simp]:
  "term_keys pre [] = []" "term_keys pre (ps @ [pre @ t]) = term_keys pre ps @ [to_ascii_lowercase t]"
  by (simp_all add: term_keys_def)

lemma term_keys_perm: "mset ps = mset qs \<Longrightarrow> mset (term_keys pre ps) = mset (term_keys pre qs)"
  by (simp add: term_keys_def)

lemma term_keys_sort [simp]:
  "set (term_keys pre (sort ps)) = set (term_keys pre ps)" "distinct (term_keys pre (sort ps)) = distinct (term_keys pre ps)"
proof -
  show "set (term_keys pre (sort ps)) = set (term_keys pre ps)" by (simp add: term_keys_def)
  show "distinct (term_keys pre (sort ps)) = distinct (term_keys pre ps)" by (rule mset_eq_imp_distinct_iff [OF term_keys_perm]) simp
qed

lemma term_keys_take: "term_keys pre (take n ps) = take n (term_keys pre ps)"
  by (simp add: term_keys_def take_map)

lemma passes_pick_names:
  "picks_names [] take_positive" "picks_names [126] take_boost" "picks_names [] take_required" "picks_names [45] take_negative"
  by (auto simp: picks_names_def take_positive_def take_boost_def take_required_def take_negative_def Let_def)

lemma fold_picks:
  assumes "picks_names pre f" "fold f xs (seen, ps) = (seen', ps')" "distinct (term_keys pre ps)" "set (term_keys pre ps) \<subseteq> seen - before"
    "before \<subseteq> seen"
  shows "distinct (term_keys pre ps') \<and> set (term_keys pre ps') \<subseteq> seen' - before \<and> before \<subseteq> seen'"
  using assms(2-5)
proof (induction xs arbitrary: seen ps)
  case (Cons x xs)
  obtain seen1 ps1 where step: "f x (seen, ps) = (seen1, ps1)" by (cases "f x (seen, ps)")
  from assms(1) [unfolded picks_names_def, rule_format, of x seen ps] step
  consider "seen1 = seen" "ps1 = ps"
    | t where "to_ascii_lowercase t \<notin> seen" "seen1 = insert (to_ascii_lowercase t) seen" "ps1 = ps \<or> ps1 = ps @ [pre @ t]"
    by auto
  then have "distinct (term_keys pre ps1)" "set (term_keys pre ps1) \<subseteq> seen1 - before" "before \<subseteq> seen1"
    by (cases; use Cons.prems(2-4) in auto)+
  then show ?case using Cons.IH [of seen1 ps1] Cons.prems(1) step by simp
qed simp

lemma pass_names:
  assumes "picks_names pre f" "fold f xs (seen, []) = (seen', ps)"
  shows "distinct (term_keys pre ps)" "set (term_keys pre ps) \<subseteq> seen' - seen" "seen \<subseteq> seen'"
  using fold_picks [OF assms(1,2), where before = seen] by auto

definition query_names :: "QueryGroups \<Rightarrow> ustr list" where
  "query_names g = term_keys [] (qg_positives g) @ term_keys [126] (qg_boosts g) @ term_keys [] (qg_required g) @
     term_keys [45] (qg_negatives g)"

lemma query_groups_distinct: "distinct (query_names (query_groups q blacklist boost))"
proof -
  let ?t = "query_terms blacklist"
  obtain s1 ps where 1: "fold take_positive (split_whitespace q) ({}, []) = (s1, ps)" by fastforce
  obtain s2 bs where 2: "fold take_boost boost (s1, []) = (s2, bs)" by fastforce
  obtain s3 rs where 3: "fold take_required (required ?t) (s2, []) = (s3, rs)" by fastforce
  obtain s4 ns where 4: "fold take_negative (excluded ?t) (s3, []) = (s4, ns)" by fastforce
  note n = pass_names [OF passes_pick_names(1) 1] pass_names [OF passes_pick_names(2) 2]
    pass_names [OF passes_pick_names(3) 3] pass_names [OF passes_pick_names(4) 4]
  have "distinct (query_names \<lparr>qg_positives = sort ps, qg_boosts = bs, qg_required = sort rs, qg_negatives = sort ns\<rparr>)"
    unfolding query_names_def QueryGroups.simps distinct_append term_keys_sort set_append
    using n by (intro conjI) (simp_all, blast+)
  then show ?thesis by (simp add: query_groups_def 1 2 3 4 Let_def)
qed

lemma take_min_length: "take (min n (length xs)) xs = take n xs"
  by (cases "n \<le> length xs") (simp_all add: min_def)

lemma picked_takes:
  obtains i j k l where "qg_positives (picked_groups g b) = take i (qg_positives g)" "qg_boosts (picked_groups g b) = take j (qg_boosts g)"
    "qg_required (picked_groups g b) = take k (qg_required g)" "qg_negatives (picked_groups g b) = take l (qg_negatives g)"
    "i + j + k + l \<le> 40"
proof -
  define L where "L = min (max (tq_limit b) 1) E621_TAG_LIMIT"
  define i where "i = min L (length (qg_positives g))"
  define j where "j = min (min (tq_boost b) (length (qg_boosts g))) (L - i)"
  define k where "k = min (L - (i + j)) (length (qg_required g))"
  define l where "l = min (L - (i + j + k)) (if tq_blacklist b = 0 then L else tq_blacklist b)"
  have L: "L \<le> 40" by (simp add: L_def E621_TAG_LIMIT_def)
  have le: "i \<le> L" "j \<le> L - i" "k \<le> L - (i + j)" "l \<le> L - (i + j + k)" unfolding i_def j_def k_def l_def by (rule min.cobounded1 min.cobounded2)+
  have len: "length (take i (qg_positives g)) = i" "length (take j (qg_boosts g)) = j"
    "length (take k (qg_required g)) = k" by (simp_all add: i_def j_def k_def)
  have tk: "take L (qg_positives g) = take i (qg_positives g)" "take (L - (i + j)) (qg_required g) = take k (qg_required g)"
    unfolding i_def k_def by (rule take_min_length [symmetric])+
  have "picked_groups g b = \<lparr>qg_positives = take i (qg_positives g), qg_boosts = take j (qg_boosts g),
      qg_required = take k (qg_required g), qg_negatives = take l (qg_negatives g)\<rparr>"
    unfolding picked_groups_def L_def [symmetric] Let_def len j_def [symmetric] l_def [symmetric] tk by (rule refl)
  then show ?thesis using le L by (intro that [of i j k l]) simp_all
qed

lemma distinct_takes:
  assumes "distinct (as @ bs @ cs @ ds)"
  shows "distinct (take i as @ take j bs @ take k cs @ take l ds)"
proof -
  have sub: "set (take i as) \<subseteq> set as" "set (take j bs) \<subseteq> set bs" "set (take k cs) \<subseteq> set cs" "set (take l ds) \<subseteq> set ds"
    by (rule set_take_subset)+
  show ?thesis using assms sub unfolding distinct_append set_append by (intro conjI) (simp_all, blast+)
qed

lemma picked_distinct:
  assumes "distinct (query_names g)"
  shows "distinct (query_names (picked_groups g b))"
proof -
  obtain i j k l where "qg_positives (picked_groups g b) = take i (qg_positives g)" "qg_boosts (picked_groups g b) = take j (qg_boosts g)"
    "qg_required (picked_groups g b) = take k (qg_required g)" "qg_negatives (picked_groups g b) = take l (qg_negatives g)"
    by (rule picked_takes)
  then show ?thesis using distinct_takes [OF assms [unfolded query_names_def], of i j k l] by (simp only: query_names_def term_keys_take)
qed

section \<open>Reading a query back\<close>

definition plain_token :: "ustr \<Rightarrow> bool" where
  "plain_token t \<longleftrightarrow> t \<noteq> [] \<and> (\<forall>c \<in> set t. \<not> is_whitespace c)"

lemma split_ws_acc_token: "(\<forall>c \<in> set t. \<not> is_whitespace c) \<Longrightarrow> split_ws_acc acc (t @ s) = split_ws_acc (rev t @ acc) s"
  by (induction t arbitrary: acc) simp_all

lemma split_plain: "plain_token t \<Longrightarrow> split_whitespace t = [t]"
  using split_ws_acc_token [of t "[]" "[]"] by (simp add: plain_token_def split_whitespace_def)

lemma split_ws_acc_space: "split_ws_acc acc (s @ 32 # r) = split_ws_acc acc s @ split_whitespace r"
  by (induction acc s rule: split_ws_acc.induct) (simp_all add: split_whitespace_def is_whitespace_def)

lemma split_join: "split_whitespace (join [32] ts) = concat (map split_whitespace ts)"
  by (induction "[32] :: ustr" ts rule: join.induct) (simp_all add: split_whitespace_def split_ws_acc_space)

lemma split_join_plain: "list_all plain_token ts \<Longrightarrow> split_whitespace (join [32] ts) = ts"
  unfolding split_join by (induction ts) (simp_all add: split_plain)

lemma list_all_take: "list_all P xs \<Longrightarrow> list_all P (take n xs)"
  by (auto simp: list.pred_set dest: in_set_takeD)

lemma split_boost_group:
  assumes "list_all plain_token bs" "bs \<noteq> []"
  shows "split_whitespace (lit ''( '' @ join [32] bs @ lit '' )'') = [40] # bs @ [[41]]"
proof -
  have "split_whitespace (([40] @ 32 # (join [32] bs @ 32 # [41]))) = split_whitespace [40] @ split_whitespace (join [32] bs) @ split_whitespace [41]"
    unfolding split_whitespace_def split_ws_acc_space by simp
  then show ?thesis using assms by (simp add: split_join_plain split_plain plain_token_def is_whitespace_def)
qed

lemma fold_plain:
  assumes "\<And>x seen ps. x \<in> set xs \<Longrightarrow> list_all plain_token ps \<Longrightarrow> list_all plain_token (snd (f x (seen, ps)))" "list_all plain_token (snd st)"
  shows "list_all plain_token (snd (fold f xs st))"
  using assms
proof (induction xs arbitrary: st)
  case (Cons x xs)
  have "list_all plain_token (snd (f x st))" using Cons.prems(1) [of x "snd st" "fst st"] Cons.prems(2) by simp
  then show ?case using Cons.IH [of "f x st"] Cons.prems(1) by simp
qed simp

lemma strip_dashes_plain: "plain_token r \<Longrightarrow> strip_dashes r \<noteq> [] \<Longrightarrow> plain_token (strip_dashes r)"
  by (auto simp: plain_token_def strip_dashes_def trim_start_matches_def dest: set_dropWhileD)

lemma rules_plain: "r \<in> set (rules blacklist) \<Longrightarrow> plain_token r"
  unfolding rules_def using split_whitespace_token strip_dashes_plain by (fastforce simp: plain_token_def)

lemma require_tags_plain: "list_all plain_token REQUIRE_TAGS"
  by (simp add: REQUIRE_TAGS_def plain_token_def is_whitespace_def)

lemma require_tag_plain:
  assumes "require_tag r = Some t"
  shows "plain_token t"
proof -
  obtain payload where "List.find (eq_ignore_ascii_case payload) REQUIRE_TAGS = Some t"
    using assms by (cases "require_payload r") (simp_all add: require_tag_def)
  then have "t \<in> set REQUIRE_TAGS" unfolding find_Some_iff by (metis nth_mem)
  then show ?thesis using require_tags_plain by (simp add: list.pred_set)
qed

lemma query_terms_plain:
  "list_all plain_token (required (query_terms blacklist)) \<and> list_all plain_token (excluded (query_terms blacklist))"
proof -
  have step: "list_all plain_token (required (add_term r terms)) \<and> list_all plain_token (excluded (add_term r terms))"
    if "plain_token r" "list_all plain_token (required terms)" "list_all plain_token (excluded terms)" for r terms
    using that require_tag_plain by (cases "require_tag r") (simp_all add: add_term_def)
  have "list_all plain_token (required (fold add_term rs terms)) \<and> list_all plain_token (excluded (fold add_term rs terms))"
    if "list_all plain_token rs" "list_all plain_token (required terms)" "list_all plain_token (excluded terms)" for rs terms
    using that
  proof (induction rs arbitrary: terms)
    case (Cons r rs)
    then show ?case using step [of r terms] by simp
  qed simp
  moreover have "list_all plain_token (rules blacklist)" using rules_plain by (simp add: list.pred_set)
  ultimately show ?thesis unfolding query_terms_def by simp
qed

lemma not_space: "\<not> is_whitespace 126" "\<not> is_whitespace 45" "\<not> is_whitespace 40" "\<not> is_whitespace 41" "is_whitespace 32"
  by (simp_all add: is_whitespace_def)

lemma query_groups_plain:
  fixes q blacklist boost
  defines "g \<equiv> query_groups q blacklist boost"
  shows "list_all plain_token (qg_positives g) \<and> list_all plain_token (qg_boosts g) \<and> list_all plain_token (qg_required g) \<and>
     list_all plain_token (qg_negatives g)"
proof -
  let ?t = "query_terms blacklist"
  obtain s1 ps where 1: "fold take_positive (split_whitespace q) ({}, []) = (s1, ps)" by fastforce
  obtain s2 bs where 2: "fold take_boost boost (s1, []) = (s2, bs)" by fastforce
  obtain s3 rs where 3: "fold take_required (required ?t) (s2, []) = (s3, rs)" by fastforce
  obtain s4 ns where 4: "fold take_negative (excluded ?t) (s3, []) = (s4, ns)" by fastforce
  have tok: "plain_token x" if "x \<in> set (split_whitespace q)" for x
    using split_whitespace_token [OF that] by (simp add: plain_token_def)
  have "list_all plain_token (snd (fold take_positive (split_whitespace q) ({}, [])))"
    by (rule fold_plain) (simp_all add: take_positive_def Let_def strip_dashes_plain tok)
  moreover have "list_all plain_token (snd (fold take_boost boost (s1, [])))"
    by (rule fold_plain) (auto simp: take_boost_def Let_def plain_token_def list_ex_iff breaks_query_def not_space)
  moreover have "list_all plain_token (snd (fold take_required (required ?t) (s2, [])))"
    by (rule fold_plain) (use query_terms_plain [of blacklist] in \<open>simp_all add: take_required_def Let_def list.pred_set\<close>)
  moreover have "list_all plain_token (snd (fold take_negative (excluded ?t) (s3, [])))"
    by (rule fold_plain) (use query_terms_plain [of blacklist] in \<open>simp_all add: take_negative_def Let_def list.pred_set plain_token_def not_space\<close>)
  ultimately show ?thesis unfolding g_def by (simp add: query_groups_def 1 2 3 4 Let_def list.pred_set)
qed

text \<open>C20. The query holds at most forty terms, no name twice up to case whatever it is used for, and the
  upstream reads back from it exactly the terms that were picked.\<close>

theorem query_well_formed:
  fixes q blacklist boost budget
  defines "g \<equiv> picked_groups (query_groups q blacklist boost) budget"
  shows "length (qg_positives g) + length (qg_boosts g) + length (qg_required g) + length (qg_negatives g) \<le> 40 \<and>
    distinct (query_names g) \<and>
    split_whitespace (build_e621_tags_query_with_budget q blacklist boost budget) =
      qg_positives g @ (if qg_boosts g = [] then [] else [40] # qg_boosts g @ [[41]]) @ qg_required g @ qg_negatives g"
proof -
  obtain i j k l where g: "qg_positives g = take i (qg_positives (query_groups q blacklist boost))"
    "qg_boosts g = take j (qg_boosts (query_groups q blacklist boost))" "qg_required g = take k (qg_required (query_groups q blacklist boost))"
    "qg_negatives g = take l (qg_negatives (query_groups q blacklist boost))" and le: "i + j + k + l \<le> 40"
    unfolding g_def by (rule picked_takes)
  have plain: "list_all plain_token (qg_positives g)" "list_all plain_token (qg_boosts g)" "list_all plain_token (qg_required g)"
    "list_all plain_token (qg_negatives g)"
    using query_groups_plain [of q blacklist boost] unfolding g by (simp_all only: list_all_take)
  have each: "list_all plain_token ts \<Longrightarrow> concat (map split_whitespace ts) = ts" for ts
    by (induction ts) (simp_all add: split_plain)
  have "split_whitespace (build_e621_tags_query_with_budget q blacklist boost budget) =
      qg_positives g @ (if qg_boosts g = [] then [] else [40] # qg_boosts g @ [[41]]) @ qg_required g @ qg_negatives g"
    unfolding build_e621_tags_query_with_budget_def g_def [symmetric] Let_def split_join boost_group_def
      map_append concat_append each [OF plain(1)] each [OF plain(3)] each [OF plain(4)]
    using split_boost_group [OF plain(2)] by (cases "qg_boosts g = []") simp_all
  moreover have "length (qg_positives g) + length (qg_boosts g) + length (qg_required g) + length (qg_negatives g) \<le> 40"
    unfolding g using le by simp
  moreover have "distinct (query_names g)" unfolding g_def by (rule picked_distinct [OF query_groups_distinct])
  ultimately show ?thesis by blast
qed

end
