(* ===== verification/Recommend.thy ===== *)
theory Recommend
  imports Candidate_Pool Api_Query Feed_Seen Rate_Limit Validation Scorer_Cached Exploration Composition_Props Diversify_Quota Explain
begin

text \<open>
  The recommendation endpoints of \<open>parser-api/src/routes/feed.rs\<close>: the shared pipeline from the candidates to the
  page, the two routes that keep the memory of a scroll, and the posts similar to one post.

  A request runs alone.  e621 is a function from a query and a page to a list of posts or an error text.  What the
  account's tables hold besides the interactions (its tag counts, its profile, its graph, its blacklist) and the two
  shared indices are values of the request.  The catalog rows the pipeline stores in the background, the metrics and the
  audit log do not reach the response and are left out.  A request that never returns, which the artist ceiling of the
  composition can cause, is \<open>None\<close>.
\<close>

section \<open>What a request works on\<close>

record RecsConfig =
  rc_dedup_lookback_days :: int
  rc_local_candidate_limit :: int
  rc_tuning :: CandidatePoolTuning
  rc_budget :: TagQueryBudget
  rc_composition :: CompositionTargets
  rc_priors :: Priors

record RecsTaste =
  rt_tags :: "TagCount list"
  rt_profile :: AccountPreferenceProfile
  rt_blacklist :: ustr
  rt_preferred :: "(ustr \<times> ustr \<times> f64) list"
  rt_idf :: IdfIndex
  rt_global :: TagRelationGraph
  rt_user :: TagRelationGraph

text \<open>The functions the standard library and e621 provide: the bits of a float, the hash of a tag, the hash of the seed,
  Unicode lowercase, and the upstream fetch.\<close>

record RecsWorld =
  w_to_bits :: "f32 \<Rightarrow> u32"
  w_hash_tag :: "ustr \<Rightarrow> u64"
  w_hash_seed :: "int \<times> ustr \<times> nat \<Rightarrow> u64"
  w_lower :: "ustr \<Rightarrow> ustr"
  w_fetch :: "ustr \<Rightarrow> int option \<Rightarrow> ustr + Post list"

record Recs_State =
  rs_feed :: FeedState
  rs_catalog :: Catalog_DB
  rs_limits :: Limiter

record RecommendationRequest =
  rq_account :: int
  rq_owner :: ustr
  rq_page :: "int option"
  rq_threshold :: "f32 option"
  rq_exploration :: "f32 option"
  rq_session :: "ustr option"
  rq_shown :: "int set"

definition get_account_by_id :: "Instance_DB \<Rightarrow> ustr \<Rightarrow> int \<Rightarrow> ustr + unit" where
  "get_account_by_id d token account =
     (if account \<in> set (accounts d) \<and> may_address d token account then Inr ()
      else Inl (NOT_FOUND_ERR_MARKER @ lit ''No account found''))"

section \<open>The candidates\<close>

definition live_boost :: "RecsTaste \<Rightarrow> CandidatePoolTuning \<Rightarrow> ustr list" where
  "live_boost t tuning =
     map fst (sort_key (\<lambda>(name, g, w). - w) (sort_key fst (rt_preferred t))) @
     concat (map (\<lambda>grp. rank_tags_by_idf (map (\<lambda>c. (tc_name c, tc_count c)) (filter (\<lambda>c. tc_group_type c = grp) (rt_tags t)))
       (rt_idf t) (cp_anchor_tags tuning)) [lit ''artist'', lit ''character''])"

definition get_posts :: "RecsWorld \<Rightarrow> RecsConfig \<Rightarrow> RecsTaste \<Rightarrow> int option \<Rightarrow> ustr + Post list" where
  "get_posts w c t page = w_fetch w (build_recommendation_tags (rc_budget c) (rt_blacklist t) (live_boost t (rc_tuning c))) page"

definition prefiltered :: "RecsWorld \<Rightarrow> RecsTaste \<Rightarrow> Catalog_DB \<Rightarrow> int list \<Rightarrow> int list" where
  "prefiltered w t cat cands =
     (let simple = simple_tags (w_lower w) (rt_blacklist t)
      in if simple \<noteq> [] \<and> cands \<noteq> [] then filter (\<lambda>i. i \<notin> load_blacklisted_post_ids cat cands simple) cands else cands)"

definition local_to_hydrate :: "Post list \<Rightarrow> int set \<Rightarrow> int set \<Rightarrow> int set \<Rightarrow> int set \<Rightarrow> int list \<Rightarrow> int list" where
  "local_to_hydrate live mine seen long shown cands =
     (let kept = filter (\<lambda>i. i \<notin> p_id ` set live \<and> i \<notin> mine \<and> i \<notin> seen \<union> long) cands
      in if shown \<noteq> {} then filter (\<lambda>i. i \<notin> shown) kept else kept)"

definition catalog_error_text :: "CatalogError \<Rightarrow> ustr" where
  "catalog_error_text e = (case e of
       NoSuchPost _ \<Rightarrow> lit ''FOREIGN KEY constraint failed''
     | NoSuchAccount _ \<Rightarrow> lit ''FOREIGN KEY constraint failed''
     | BadRating i r \<Rightarrow> lit ''hydrate post '' @ show_int i @ lit '': bad rating '' @ r)"

definition hydrate_locals :: "Catalog_DB \<Rightarrow> ustr \<Rightarrow> int list \<Rightarrow> ustr + Post list" where
  "hydrate_locals cat blacklist ids =
     (if ids = [] then Inr []
      else case hydrate_posts_by_ids cat ids of
        Inl e \<Rightarrow> Inl (catalog_error_text e)
      | Inr ps \<Rightarrow> Inr (filter (\<lambda>p. \<not> matches p blacklist) ps))"

definition add_local :: "Post \<Rightarrow> Post list \<Rightarrow> Post list" where
  "add_local p out = (if p_id p \<in> p_id ` set out then out else out @ [p])"

definition merge_pool :: "Post list \<Rightarrow> int set \<Rightarrow> int set \<Rightarrow> int set \<Rightarrow> ustr \<Rightarrow> Post list \<Rightarrow> Post list" where
  "merge_pool live mine seen shown blacklist stored_posts =
     (let kept = filter (\<lambda>p. p_id p \<notin> shown) (filter (\<lambda>p. p_id p \<notin> mine \<and> p_id p \<notin> seen) live);
          combined = fold add_local stored_posts kept
      in if blacklist \<noteq> [] then filter (\<lambda>p. \<not> matches p blacklist) combined else combined)"

section \<open>Scoring and ordering\<close>

definition request_priors :: "RecsConfig \<Rightarrow> f32 option \<Rightarrow> int \<Rightarrow> Priors" where
  "request_priors c exploration now =
     (let p = (rc_priors c)\<lparr>priors_now := now\<rparr>
      in case exploration of None \<Rightarrow> p | Some x \<Rightarrow> p\<lparr>exploration_epsilon := max 0 (min (1 / 2) x)\<rparr>)"

definition score_pool :: "RecsWorld \<Rightarrow> RecsTaste \<Rightarrow> Priors \<Rightarrow> Post list \<Rightarrow> ScoredPost list" where
  "score_pool w t p combined =
     (let ctx = new_with_blacklist (w_to_bits w) (rt_tags t) p (rt_idf t) (rt_profile t) (rt_global t) (rt_user t)
            (set (simple_tags (w_lower w) (rt_blacklist t)))
      in map (\<lambda>post. let (s, b) = score_cached ctx (from_post_with_user post (rt_idf t) (rt_global t) (Some (rt_user t)))
           in \<lparr>sp_post = post, sp_score = s, breakdown = Some b, reasons = []\<rparr>) combined)"

definition user_tag_table :: "(ustr \<Rightarrow> ustr) \<Rightarrow> TagCount list \<Rightarrow> (ustr, f32) table" where
  "user_tag_table lower tgs = fold (\<lambda>c. tbl_insert (lower (tc_name c)) (real_of_int (tc_count c))) tgs []"

definition over_threshold :: "f32 option \<Rightarrow> ScoredPost list \<Rightarrow> ScoredPost list" where
  "over_threshold threshold scored = (case threshold of None \<Rightarrow> scored | Some x \<Rightarrow> filter (\<lambda>sp. sp_score sp \<ge> x) scored)"

definition order_page :: "RecsWorld \<Rightarrow> RecsConfig \<Rightarrow> RecsTaste \<Rightarrow> RecommendationRequest \<Rightarrow> int \<Rightarrow> Post list \<Rightarrow> ScoredPost list option" where
  "order_page w c t req now combined =
     (let p = request_priors c (rq_exploration req) now;
          depth = card (rq_shown req);
          explored = apply_exploration_bonus (score_pool w t p combined) (exploration_epsilon p * exploration_decay depth)
            (exploration_seed (w_hash_seed w) (rq_account req) (rq_session req) depth);
          diversified = diversify_scored_posts (w_hash_tag w) (over_threshold (rq_threshold req) explored) (rt_global t) (Some (rt_user t)) p
      in map_option (\<lambda>(page, _). explain_scored_posts (w_lower w) page (user_tag_table (w_lower w) (rt_tags t)) p (rt_idf t)
             (exploration_epsilon p > 1 / 10000))
           (apply_composition_quota diversified now (rc_composition c)))"

section \<open>The pipeline\<close>

text \<open>The reads of the first wave; each one may store what it read in its cache.\<close>

definition read_windows :: "RecsConfig \<Rightarrow> RecsTaste \<Rightarrow> int \<Rightarrow> int \<Rightarrow> Recs_State \<Rightarrow> (int set \<times> int set \<times> int set \<times> int list) \<times> Recs_State" where
  "read_windows c t account now s =
     (let (seen, f1) = get_recently_seen_post_ids account (rc_dedup_lookback_days c) now (rs_feed s);
          (mine, f2) = get_owned_post_ids account now f1;
          (cands, hc) = collect_local_candidate_ids account (rc_local_candidate_limit c) now (rs_catalog s) (rt_idf t) (rc_tuning c) (caches f2);
          (long, f3) = get_long_term_seen_post_ids account LONG_TERM_DEDUP_DAYS now (f2\<lparr>caches := hc\<rparr>)
      in ((seen, mine, long, cands), s\<lparr>rs_feed := f3\<rparr>))"

definition build_recommendations_shared ::
  "RecsWorld \<Rightarrow> RecsConfig \<Rightarrow> RecsTaste \<Rightarrow> RecommendationRequest \<Rightarrow> int \<Rightarrow> Recs_State \<Rightarrow> (ApiError + ScoredPost list) option \<times> Recs_State" where
  "build_recommendations_shared w c t req now s =
     (let ((seen, mine, long, cands), s1) = read_windows c t (rq_account req) now s;
          fail = (\<lambda>msg. Some (Inl (from_string msg)))
      in (case get_account_by_id (instance_db (db (rs_feed s))) (rq_owner req) (rq_account req) of
            Inl e \<Rightarrow> fail (lit ''Failed to get account: '' @ e)
          | Inr _ \<Rightarrow> (case get_posts w c t (rq_page req) of
              Inl e \<Rightarrow> fail (lit ''Failed to fetch posts: '' @ e)
            | Inr live \<Rightarrow> (case hydrate_locals (rs_catalog s) (rt_blacklist t)
                  (local_to_hydrate live mine seen long (rq_shown req) (prefiltered w t (rs_catalog s) cands)) of
                Inl e \<Rightarrow> fail e
              | Inr stored_posts \<Rightarrow> map_option Inr
                  (order_page w c t req now (merge_pool live mine seen (rq_shown req) (rt_blacklist t) stored_posts)))),
          s1))"

section \<open>The routes\<close>

definition finite_value :: "fnum \<Rightarrow> f32" where
  "finite_value x = (case x of Fin r \<Rightarrow> r | _ \<Rightarrow> 0)"

definition with_sessions :: "Session_DB \<Rightarrow> Recs_State \<Rightarrow> Recs_State" where
  "with_sessions d s = s\<lparr>rs_feed := (rs_feed s)\<lparr>db := (db (rs_feed s))\<lparr>session_db := d\<rparr>\<rparr>\<rparr>"

text \<open>The session of a request: its state, and what it showed so far, read only when it is active.\<close>

definition open_session :: "ustr \<Rightarrow> int \<Rightarrow> int \<Rightarrow> Recs_State \<Rightarrow> FeedSessionState \<times> int set \<times> Recs_State" where
  "open_session sess account now s =
     (let (state, d) = touch_or_create_feed_session sess account now (session_db (db (rs_feed s)))
      in (state, if state = Active_session then get_session_shown_post_ids sess account d else {}, with_sessions d s))"

definition numbered :: "nat \<Rightarrow> ScoredPost list \<Rightarrow> (int \<times> int) list" where
  "numbered start page = zip (map (\<lambda>sp. p_id (sp_post sp)) page) (map int [start..<start + length page])"

definition record_page ::
  "ustr \<Rightarrow> int \<Rightarrow> FeedSessionState \<Rightarrow> nat \<Rightarrow> ScoredPost list \<Rightarrow> int \<Rightarrow> Recs_State \<Rightarrow> (ApiError + unit) \<times> Recs_State" where
  "record_page sess account state start page now s =
     (if state = Expired_session then (Inr (), s)
      else case record_session_shown_posts sess account (numbered start page) now (session_db (db (rs_feed s))) of
        (Inl e, d) \<Rightarrow> (Inl (from_string e), with_sessions d s)
      | (Inr _, d) \<Rightarrow> (Inr (), with_sessions d s))"

definition limit_request :: "ustr \<Rightarrow> nat \<Rightarrow> nat \<Rightarrow> int \<Rightarrow> Recs_State \<Rightarrow> (ApiError + unit) \<times> Recs_State" where
  "limit_request key per_min b now s = (let (l, r) = check (rs_limits s) now key per_min b in (r, s\<lparr>rs_limits := l\<rparr>))"

definition recs_params ::
  "int \<Rightarrow> int option \<Rightarrow> fnum option \<Rightarrow> fnum option \<Rightarrow> ustr option \<Rightarrow> (fnum option \<times> fnum option) checked" where
  "recs_params account page threshold exploration session =
     and_then (validate_account_id account) (and_then (validate_recommendations_page page)
       (case validate_affinity_threshold threshold of Inl e \<Rightarrow> Inl e
        | Inr thr \<Rightarrow> (case validate_exploration exploration of Inl e \<Rightarrow> Inl e
          | Inr ex \<Rightarrow> and_then (case session of None \<Rightarrow> Inr () | Some sess \<Rightarrow> validate_session_token sess) (Inr (thr, ex)))))"

definition get_recommendations ::
  "RecsWorld \<Rightarrow> RecsConfig \<Rightarrow> RecsTaste \<Rightarrow> int \<Rightarrow> ustr \<Rightarrow> int option \<Rightarrow> fnum option \<Rightarrow> fnum option \<Rightarrow> ustr option \<Rightarrow> int \<Rightarrow> Recs_State \<Rightarrow>
     (ApiError + ScoredPost list) option \<times> Recs_State" where
  "get_recommendations w c t account owner page threshold exploration session now s =
     (case recs_params account page threshold exploration session of
        Inl e \<Rightarrow> (Some (Inl e), s)
      | Inr (thr, ex) \<Rightarrow>
          let (limited, s1) = limit_request (lit ''recs:owner:'' @ owner) 60 30 now s;
              request = (\<lambda>shown. \<lparr>rq_account = account, rq_owner = owner, rq_page = page, rq_threshold = map_option finite_value thr,
                rq_exploration = map_option finite_value ex, rq_session = session, rq_shown = shown\<rparr>)
          in (case limited of Inl e \<Rightarrow> (Some (Inl e), s1)
              | Inr _ \<Rightarrow> (case session of
                  None \<Rightarrow> build_recommendations_shared w c t (request {}) now s1
                | Some sess \<Rightarrow> (case get_account_by_id (instance_db (db (rs_feed s1))) owner account of
                    Inl e \<Rightarrow> (Some (Inl (from_string (lit ''account access: '' @ e))), s1)
                  | Inr _ \<Rightarrow>
                      let (state, shown, s2) = open_session sess account now s1
                      in (case build_recommendations_shared w c t (request shown) now s2 of
                            (Some (Inr scored), s3) \<Rightarrow>
                              let (stored, s4) = record_page sess account state 1 scored now s3
                              in (Some (case stored of Inl e \<Rightarrow> Inl e | Inr _ \<Rightarrow> Inr scored), s4)
                          | (r, s3) \<Rightarrow> (r, s3))))))"

record ContinueResponse =
  cr_posts :: "ScoredPost list"
  cr_fresh_start :: bool

definition get_recommendations_continue ::
  "RecsWorld \<Rightarrow> RecsConfig \<Rightarrow> RecsTaste \<Rightarrow> int \<Rightarrow> ustr \<Rightarrow> ustr \<Rightarrow> int option \<Rightarrow> int \<Rightarrow> Recs_State \<Rightarrow>
     (ApiError + ContinueResponse) option \<times> Recs_State" where
  "get_recommendations_continue w c t account owner session n now s =
     (case and_then (validate_account_id account) (and_then (validate_session_token session) (validate_continue_count n)) of
        Inl e \<Rightarrow> (Some (Inl e), s)
      | Inr wanted \<Rightarrow>
          let (limited, s1) = limit_request (lit ''recs:owner:'' @ owner) 60 30 now s
          in (case limited of Inl e \<Rightarrow> (Some (Inl e), s1)
              | Inr _ \<Rightarrow> (case get_account_by_id (instance_db (db (rs_feed s1))) owner account of
                  Inl e \<Rightarrow> (Some (Inl (from_string (lit ''account access: '' @ e))), s1)
                | Inr _ \<Rightarrow>
                    let (state, shown, s2) = open_session session account now s1;
                        request = \<lparr>rq_account = account, rq_owner = owner, rq_page = None, rq_threshold = None, rq_exploration = None,
                          rq_session = Some session, rq_shown = shown\<rparr>
                    in (case build_recommendations_shared w c t request now s2 of
                          (None, s3) \<Rightarrow> (None, s3)
                        | (Some (Inl e), s3) \<Rightarrow> (Some (Inl e), s3)
                        | (Some (Inr scored), s3) \<Rightarrow>
                            let page = take (nat wanted) scored;
                                (stored, s4) = record_page session account state 0 page now s3
                            in (Some (case stored of Inl e \<Rightarrow> Inl e
                                  | Inr _ \<Rightarrow> Inr \<lparr>cr_posts = page, cr_fresh_start = (state = Expired_session)\<rparr>), s4)))))"

end
