(* ===== verification/Recommend_Props.thy ===== *)
theory Recommend_Props
  imports Recommend Feed_Claims
begin

text \<open>
  What a page of recommendations never contains, where its posts come from, and that the pages of one scroll
  do not repeat each other.
\<close>

section \<open>The stages keep the posts\<close>

lemma explain_keeps: "map sp_post (explain_scored_posts lower page ut p idf act) = map sp_post page"
  "map sp_score (explain_scored_posts lower page ut p idf act) = map sp_score page"
  by (simp_all add: explain_scored_posts_def Let_def comp_def)

lemma explore_keeps: "map sp_post (explore_posts eps rng sps) = map sp_post sps"
  by (induction sps arbitrary: rng) (auto simp: Let_def split: prod.split)

lemma bonus_keeps: "map sp_post (apply_exploration_bonus sps eps seed) = map sp_post sps"
  by (simp add: apply_exploration_bonus_def explore_keeps)

lemma score_keeps: "map sp_post (score_pool w t p combined) = combined"
  by (induction combined) (simp_all add: score_pool_def Let_def split_beta)

lemma quota_mset:
  assumes "apply_composition_quota scored now t = Some (out, r)"
  shows "mset out = mset scored"
proof -
  have "mset (after_ceiling t now w scored) = mset scored"
    if "0 < w" "w = min (window t) (length scored)" for w
    using that by (intro after_ceiling_mset) auto
  with apply_composition_quota_SomeD [OF assms] show ?thesis
    by (auto simp: same_upto_def dest!: artist_bands_same_upto)
qed

lemma mset_map_of: "mset xs = mset ys \<Longrightarrow> mset (map f xs) = mset (map f ys)"
  by simp

text \<open>The page is the scored pool, cut at the threshold, in another order.\<close>

lemma order_page_mset:
  assumes "order_page w c t req now combined = Some page"
  obtains scored where "map sp_post scored = combined"
    "mset (map (\<lambda>sp. (sp_post sp, sp_score sp)) page) = mset (map (\<lambda>sp. (sp_post sp, sp_score sp)) (over_threshold (rq_threshold req) scored))"
proof -
  let ?p = "request_priors c (rq_exploration req) now"
  let ?scored = "apply_exploration_bonus (score_pool w t ?p combined) (exploration_epsilon ?p * exploration_decay (card (rq_shown req)))
            (exploration_seed (w_hash_seed w) (rq_account req) (rq_session req) (card (rq_shown req)))"
  let ?cut = "over_threshold (rq_threshold req) ?scored"
  obtain out r where out: "apply_composition_quota (diversify_scored_posts (w_hash_tag w) ?cut (rt_global t) (Some (rt_user t)) ?p) now
      (rc_composition c) = Some (out, r)"
    and page: "page = explain_scored_posts (w_lower w) out (user_tag_table (w_lower w) (rt_tags t)) ?p (rt_idf t) (exploration_epsilon ?p > 1 / 10000)"
    using assms by (auto simp: order_page_def Let_def)
  have "mset out = mset ?cut" using quota_mset [OF out] by (simp only: diversify_permutes)
  note same = mset_map_of [OF this, of "\<lambda>sp. (sp_post sp, sp_score sp)"]
  have "map (\<lambda>sp. (sp_post sp, sp_score sp)) page = map (\<lambda>sp. (sp_post sp, sp_score sp)) out"
    by (simp add: page explain_scored_posts_def Let_def)
  then have "mset (map (\<lambda>sp. (sp_post sp, sp_score sp)) page) = mset (map (\<lambda>sp. (sp_post sp, sp_score sp)) ?cut)"
    using same by (simp only:)
  moreover have "map sp_post ?scored = combined" by (simp add: bonus_keeps score_keeps)
  ultimately show ?thesis by (intro that)
qed

lemma over_threshold_sub: "mset (over_threshold x scored) \<subseteq># mset scored"
  "sp \<in> set (over_threshold (Some y) scored) \<Longrightarrow> y \<le> sp_score sp"
  by (auto simp: over_threshold_def mset_filter split: option.splits)

lemma order_page_posts:
  assumes "order_page w c t req now combined = Some page"
  shows "mset (map sp_post page) \<subseteq># mset combined"
    and "sp \<in> set page \<Longrightarrow> rq_threshold req = Some x \<Longrightarrow> x \<le> sp_score sp"
    and "rq_threshold req = None \<Longrightarrow> mset (map sp_post page) = mset combined"
proof -
  obtain scored where s: "map sp_post scored = combined"
    "mset (map (\<lambda>sp. (sp_post sp, sp_score sp)) page) = mset (map (\<lambda>sp. (sp_post sp, sp_score sp)) (over_threshold (rq_threshold req) scored))"
    by (rule order_page_mset [OF assms])
  have posts: "mset (map sp_post page) = mset (map sp_post (over_threshold (rq_threshold req) scored))"
    using mset_map_of [OF s(2), of fst] by (simp add: comp_def)
  show "mset (map sp_post page) \<subseteq># mset combined"
  proof -
    have "mset (map sp_post (over_threshold (rq_threshold req) scored)) \<subseteq># mset (map sp_post scored)"
      by (simp add: image_mset_subseteq_mono over_threshold_sub(1))
    then show ?thesis by (simp only: posts s(1))
  qed
  show "rq_threshold req = None \<Longrightarrow> mset (map sp_post page) = mset combined" unfolding posts s(1) [symmetric] by (simp add: over_threshold_def)
  show "x \<le> sp_score sp" if "sp \<in> set page" "rq_threshold req = Some x"
  proof -
    have "(sp_post sp, sp_score sp) \<in> (\<lambda>sp. (sp_post sp, sp_score sp)) ` set (over_threshold (Some x) scored)"
      using mset_eq_setD [OF s(2)] that by auto
    then show ?thesis using over_threshold_sub(2) by auto
  qed
qed

section \<open>The pool\<close>

lemma matches_empty: "\<not> matches p []"
  by (simp add: matches_def matches_impl_def rules_def str_lines_def)

lemma add_locals_set:
  "set (fold add_local qs out) \<subseteq> set out \<union> set qs \<and> (distinct (map p_id out) \<longrightarrow> distinct (map p_id (fold add_local qs out)))"
proof (induction qs arbitrary: out)
  case (Cons q qs)
  have "set (add_local q out) \<subseteq> insert q (set out)" "distinct (map p_id out) \<longrightarrow> distinct (map p_id (add_local q out))"
    by (auto simp: add_local_def)
  then show ?case using Cons.IH [of "add_local q out"] by auto
qed simp

lemma merge_pool_member:
  assumes "p \<in> set (merge_pool live mine seen shown bl stored)" "\<And>q. q \<in> set stored \<Longrightarrow> p_id q \<notin> mine \<union> seen \<union> shown"
  shows "p_id p \<notin> mine \<union> seen \<union> shown" "\<not> matches p bl" "p \<in> set live \<union> set stored"
  using assms add_locals_set [of stored "filter (\<lambda>p. p_id p \<notin> shown) (filter (\<lambda>p. p_id p \<notin> mine \<and> p_id p \<notin> seen) live)"]
  by (auto simp: merge_pool_def Let_def matches_empty split: if_splits)

lemma merge_pool_distinct:
  "distinct (map p_id live) \<Longrightarrow> distinct (map p_id (merge_pool live mine seen shown bl stored))"
  unfolding merge_pool_def Let_def
  using add_locals_set [of stored "filter (\<lambda>p. p_id p \<notin> shown) (filter (\<lambda>p. p_id p \<notin> mine \<and> p_id p \<notin> seen) live)"]
  by (auto simp: distinct_map_filter)

lemma hydrate_ids: "hydrate_posts_by_ids cat ids = Inr ps \<Longrightarrow> p \<in> set ps \<Longrightarrow> p_id p \<in> set ids"
proof -
  assume "hydrate_posts_by_ids cat ids = Inr ps" "p \<in> set ps"
  then obtain i q where "i \<in> set ids" "stored_post cat i = Some q" "p = rewrite_post cat q"
    by (auto simp: hydrate_posts_by_ids_def Let_def rewrite_local_media_urls_def List.map_filter_def split: option.splits)
  then show ?thesis using stored_post_id [of cat i q] by (simp add: rewrite_post_def Let_def)
qed

lemma local_to_hydrate_set:
  "i \<in> set (local_to_hydrate live mine seen long shown cands) \<longleftrightarrow>
    i \<in> set cands \<and> i \<notin> p_id ` set live \<and> i \<notin> mine \<union> seen \<union> long \<union> shown"
  by (auto simp: local_to_hydrate_def Let_def)

lemma hydrate_locals_set:
  "hydrate_locals cat bl ids = Inr ps \<Longrightarrow> p \<in> set ps \<Longrightarrow> p_id p \<in> set ids"
  by (auto simp: hydrate_locals_def dest: hydrate_ids split: if_splits sum.splits)

lemma prefiltered_sub: "set (prefiltered w t cat cands) \<subseteq> set cands"
  by (auto simp: prefiltered_def Let_def)

lemma build_cases:
  assumes "build_recommendations_shared w c t req now s = (Some (Inr page), s')" "read_windows c t (rq_account req) now s = ((seen, mine, long, cands), s1)"
  obtains live stored where "s' = s1" "get_posts w c t (rq_page req) = Inr live"
    "hydrate_locals (rs_catalog s) (rt_blacklist t) (local_to_hydrate live mine seen long (rq_shown req) (prefiltered w t (rs_catalog s) cands)) = Inr stored"
    "order_page w c t req now (merge_pool live mine seen (rq_shown req) (rt_blacklist t) stored) = Some page"
  using assms unfolding build_recommendations_shared_def assms(2) Let_def prod.case
  by (auto split: sum.splits)

lemma stored_clean:
  assumes "hydrate_locals cat bl (local_to_hydrate live mine seen long shown cands) = Inr stored" "q \<in> set stored"
  shows "p_id q \<notin> mine \<union> seen \<union> shown" "p_id q \<notin> long" "p_id q \<in> set cands" "p_id q \<notin> p_id ` set live"
  using hydrate_locals_set [OF assms] unfolding local_to_hydrate_set by blast+

text \<open>The reads of the first wave are reads of the state the request found.\<close>

lemma read_windows_eq:
  assumes "read_windows c t account now s = ((seen, mine, long, cands), s1)"
  shows "seen = fst (get_recently_seen_post_ids account (rc_dedup_lookback_days c) now (rs_feed s))"
    "mine = fst (get_owned_post_ids account now (rs_feed s))"
    "long = fst (get_long_term_seen_post_ids account LONG_TERM_DEDUP_DAYS now (rs_feed s))"
    "db (rs_feed s1) = db (rs_feed s)" "rs_catalog s1 = rs_catalog s"
  using assms
  by (auto simp: read_windows_def Let_def get_recently_seen_post_ids_def get_owned_post_ids_def get_long_term_seen_post_ids_def
      collect_local_candidate_ids_def store_recent_seen_def store_owned_def store_candidates_def owned_def long_term_seen_def
      split: prod.splits option.splits)

section \<open>What a page contains\<close>

lemma page_post:
  assumes "build_recommendations_shared w c t req now s = (Some (Inr page), s')"
    and "read_windows c t (rq_account req) now s = ((seen, mine, long, cands), s1)" and "sp \<in> set page"
  obtains live where "get_posts w c t (rq_page req) = Inr live" "p_id (sp_post sp) \<notin> mine \<union> seen \<union> rq_shown req"
    "\<not> matches (sp_post sp) (rt_blacklist t)" "\<forall>x. rq_threshold req = Some x \<longrightarrow> x \<le> sp_score sp"
    "sp_post sp \<in> set live \<or> p_id (sp_post sp) \<in> set cands - long - p_id ` set live"
proof -
  obtain live stored where b: "get_posts w c t (rq_page req) = Inr live"
    "hydrate_locals (rs_catalog s) (rt_blacklist t) (local_to_hydrate live mine seen long (rq_shown req) (prefiltered w t (rs_catalog s) cands)) = Inr stored"
    "order_page w c t req now (merge_pool live mine seen (rq_shown req) (rt_blacklist t) stored) = Some page"
    using build_cases [OF assms(1,2)] by blast
  have "sp_post sp \<in># mset (map sp_post page)" using assms(3) by simp
  then have "sp_post sp \<in> set (merge_pool live mine seen (rq_shown req) (rt_blacklist t) stored)"
    using mset_subset_eqD [OF order_page_posts(1) [OF b(3)]] by simp
  note m = merge_pool_member [OF this stored_clean(1) [OF b(2)]]
  have "p_id (sp_post sp) \<in> set cands - long - p_id ` set live" if "sp_post sp \<in> set stored"
    using stored_clean(2-4) [OF b(2) that] prefiltered_sub [of w t "rs_catalog s" cands] by blast
  then show ?thesis using that [OF b(1) m(1,2)] order_page_posts(2) [OF b(3) assms(3)] m(3) by blast
qed



section \<open>The pages of a scroll\<close>

text \<open>A page served in a session, by either route.\<close>

definition serves ::
  "RecsWorld \<Rightarrow> RecsConfig \<Rightarrow> RecsTaste \<Rightarrow> int \<Rightarrow> ustr \<Rightarrow> int \<Rightarrow> Recs_State \<Rightarrow> ScoredPost list \<Rightarrow> Recs_State \<Rightarrow> bool" where
  "serves w c t account sess now s page s' \<longleftrightarrow>
     (\<exists>owner p thr ex. get_recommendations w c t account owner p thr ex (Some sess) now s = (Some (Inr page), s')) \<or>
     (\<exists>owner n r. get_recommendations_continue w c t account owner sess n now s = (Some (Inr r), s') \<and> cr_posts r = page)"

abbreviation sessions_of :: "Recs_State \<Rightarrow> Session_DB" where
  "sessions_of s \<equiv> session_db (db (rs_feed s))"

lemma with_sessions_of [simp]: "sessions_of (with_sessions d s) = d"
  by (simp add: with_sessions_def)

lemma limit_sessions: "limit_request key a b now s = (r, s') \<Longrightarrow> sessions_of s' = sessions_of s"
  by (auto simp: limit_request_def split: prod.splits)

lemma build_sessions: "build_recommendations_shared w c t req now s = (r, s') \<Longrightarrow> sessions_of s' = sessions_of s"
proof -
  assume b: "build_recommendations_shared w c t req now s = (r, s')"
  obtain seen mine long cands s1 where read: "read_windows c t (rq_account req) now s = ((seen, mine, long, cands), s1)"
    by (metis prod_cases4 prod.exhaust)
  have "s' = s1" using b by (simp add: build_recommendations_shared_def read)
  then show ?thesis using read_windows_eq(4) [OF read] by simp
qed

text \<open>What both routes do with a session: they open it, build a page that leaves out what an active one showed, and record the page unless
  it is expired.\<close>

lemma serves_steps:
  assumes "serves w c t account sess now s page s'"
  obtains state d where "touch_or_create_feed_session sess account now (sessions_of s) = (state, d)"
    "state = Active_session \<longrightarrow> (\<forall>sp \<in> set page. p_id (sp_post sp) \<notin> get_session_shown_post_ids sess account d)"
    "\<exists>start. state \<noteq> Expired_session \<longrightarrow>
       sessions_of s' = snd (record_session_shown_posts sess account (numbered start page) now d) \<and>
       fst (record_session_shown_posts sess account (numbered start page) now d) = Inr ()"
proof -
  note goal = that
  obtain state d where touch: "touch_or_create_feed_session sess account now (sessions_of s) = (state, d)" by fastforce
  have core: thesis
    if built: "build_recommendations_shared w c t req now (with_sessions d s1) = (Some (Inr full), s3)"
      and sub: "set page \<subseteq> set full" and shown: "rq_shown req = (if state = Active_session then get_session_shown_post_ids sess account d else {})"
      and rec: "record_page sess account state start page now s3 = (Inr (), s')"
    for req s1 full s3 start
  proof (rule goal [OF touch])
    obtain seen mine long cands s4 where read: "read_windows c t (rq_account req) now (with_sessions d s1) = ((seen, mine, long, cands), s4)"
      by (metis prod_cases4 prod.exhaust)
    show "state = Active_session \<longrightarrow> (\<forall>sp \<in> set page. p_id (sp_post sp) \<notin> get_session_shown_post_ids sess account d)"
      using page_post [OF built read] sub shown by (metis UnCI subsetD)
    have "sessions_of s3 = d" using build_sessions [OF built] by simp
    then show "\<exists>start. state \<noteq> Expired_session \<longrightarrow>
       sessions_of s' = snd (record_session_shown_posts sess account (numbered start page) now d) \<and>
       fst (record_session_shown_posts sess account (numbered start page) now d) = Inr ()"
      using rec by (intro exI [of _ start]) (auto simp: record_page_def split: sum.splits prod.splits if_splits)
  qed
  from assms show thesis unfolding serves_def
  proof (elim disjE exE conjE)
    fix owner p thr ex
    assume "get_recommendations w c t account owner p thr ex (Some sess) now s = (Some (Inr page), s')"
    then obtain s1 req s3 where "limit_request (lit ''recs:owner:'' @ owner) 60 30 now s = (Inr (), s1)"
      "build_recommendations_shared w c t req now (with_sessions d s1) = (Some (Inr page), s3)"
      "rq_shown req = (if state = Active_session then get_session_shown_post_ids sess account d else {})"
      "record_page sess account state 1 page now s3 = (Inr (), s')"
      using touch limit_sessions [of "lit ''recs:owner:'' @ owner" 60 30 now s]
      by (auto simp: get_recommendations_def open_session_def Let_def split: sum.splits prod.splits option.splits)
    then show thesis using core by blast
  next
    fix owner n r
    assume "get_recommendations_continue w c t account owner sess n now s = (Some (Inr r), s')" "cr_posts r = page"
    then obtain s1 req full s3 m where "limit_request (lit ''recs:owner:'' @ owner) 60 30 now s = (Inr (), s1)"
      "build_recommendations_shared w c t req now (with_sessions d s1) = (Some (Inr full), s3)" "page = take m full"
      "rq_shown req = (if state = Active_session then get_session_shown_post_ids sess account d else {})"
      "record_page sess account state 0 page now s3 = (Inr (), s')"
      using touch limit_sessions [of "lit ''recs:owner:'' @ owner" 60 30 now s]
      by (auto simp: get_recommendations_continue_def open_session_def Let_def split: sum.splits prod.splits option.splits)
    then show thesis using core set_take_subset [of m full] by blast
  qed
qed

lemma numbered_ids: "fst ` set (numbered start page) = (\<lambda>sp. p_id (sp_post sp)) ` set page"
proof -
  have "map fst (numbered start page) = map (\<lambda>sp. p_id (sp_post sp)) page" by (simp add: numbered_def)
  from arg_cong [OF this, of set] show ?thesis by simp
qed

lemma recorded_shown:
  assumes "sessions_ok d" "record_session_shown_posts sess account ps now d = (Inr u, d')"
  shows "fst ` set ps \<subseteq> get_session_shown_post_ids sess account d'" "feed_sessions d' = feed_sessions d"
proof -
  show "feed_sessions d' = feed_sessions d" using assms(2) by (auto simp: record_session_shown_posts_def split: if_splits)
  show "fst ` set ps \<subseteq> get_session_shown_post_ids sess account d'"
    using session_posts_scoped [OF assms(1), of sess account ps now] by (simp add: assms(2))
qed

lemma touch_row:
  "touch_or_create_feed_session sess account now d = (state, d') \<Longrightarrow> state \<noteq> Expired_session \<Longrightarrow>
    (\<exists>r. tbl_get (feed_sessions d') (sess, account) = Some r \<and> last_accessed_at r = now) \<and> feed_session_posts d' = feed_session_posts d"
  by (auto simp: touch_or_create_feed_session_def split: option.splits if_splits)

lemma touch_again:
  assumes "tbl_get (feed_sessions d) (sess, account) = Some r" "num_minutes (now - last_accessed_at r) \<le> FEED_SESSION_TTL_MIN"
    and "touch_or_create_feed_session sess account now d = (state, d')"
  shows "state = Active_session" "get_session_shown_post_ids sess account d' = get_session_shown_post_ids sess account d"
proof -
  have "state = Active_session \<and> feed_session_posts d' = feed_session_posts d"
    using assms by (auto simp: touch_or_create_feed_session_def)
  then show "state = Active_session" "get_session_shown_post_ids sess account d' = get_session_shown_post_ids sess account d"
    by (simp_all add: get_session_shown_post_ids_def)
qed


end
