(* ===== verification/Recommend_Demo.thy ===== *)
theory Recommend_Demo
  imports Recommend_Props
begin

text \<open>
  The properties of the recommendation routes at work: a server with one account, nothing stored, and an e621 that
  answers every query with one post.
\<close>

definition demo_world :: RecsWorld where
  "demo_world = \<lparr>w_to_bits = (\<lambda>_. 0), w_hash_tag = (\<lambda>_. 0), w_hash_seed = (\<lambda>_. 0), w_lower = id,
     w_fetch = (\<lambda>_ _. Inr [sample_post 7 0 [lit ''otter'']])\<rparr>"

definition demo_config :: RecsConfig where
  "demo_config = \<lparr>rc_dedup_lookback_days = 14, rc_local_candidate_limit = 0,
     rc_tuning = \<lparr>cp_anchor_tags = 5, cp_recent_days = 30, cp_stream_share = 1 / 4, cp_preferred_limit = 5, cp_cooccurrence_limit = 5,
       cp_cooccurrence_min_cooc = 2, cp_backlog_days = 180, cp_backlog_tags = 3, cp_backlog_limit = 40, cp_backlog_enabled = False\<rparr>,
     rc_budget = budget_default, rc_composition = targets_default\<lparr>window := 0\<rparr>, rc_priors = priors_default 0\<rparr>"

definition demo_taste :: RecsTaste where
  "demo_taste = \<lparr>rt_tags = [], rt_profile = empty_profile, rt_blacklist = [], rt_preferred = [], rt_idf = empty_index,
     rt_global = empty_graph, rt_user = empty_graph\<rparr>"

definition demo_recs :: Recs_State where
  "demo_recs = \<lparr>rs_feed = demo_state, rs_catalog = empty_catalog, rs_limits = \<lparr>buckets = [], last_gc = 0\<rparr>\<rparr>"

text \<open>The server with any session rows and any limiter.\<close>

definition demo_at :: "Session_DB \<Rightarrow> Limiter \<Rightarrow> Recs_State" where
  "demo_at d l = with_sessions d (demo_recs\<lparr>rs_limits := l\<rparr>)"

lemma demo_at_simps [simp]: "with_sessions d' (demo_at d l) = demo_at d' l" "(demo_at d l)\<lparr>rs_limits := l'\<rparr> = demo_at d l'"
  "sessions_of (demo_at d l) = d" "rs_limits (demo_at d l) = l"
  by (simp_all add: demo_at_def with_sessions_def)

lemma demo_recs_at: "demo_recs = demo_at (session_db demo_db) \<lparr>buckets = [], last_gc = 0\<rparr>"
  by (simp add: demo_at_def with_sessions_def demo_recs_def demo_state_def)

lemma order_page_total:
  assumes "window (rc_composition c) = 0"
  obtains page where "order_page w c t req now combined = Some page"
proof -
  have "\<exists>page. order_page w c t req now combined = Some page"
    unfolding order_page_def Let_def apply_composition_quota_def assms by simp
  then show ?thesis using that by blast
qed

lemma demo_reads:
  "read_windows demo_config demo_taste 1 now (demo_at d l) = ((seen, mine, long, cands), s1) \<Longrightarrow>
    seen = {} \<and> mine = {} \<and> cands = []"
  by (auto simp: read_windows_def demo_recs_def demo_at_def with_sessions_def demo_state_def demo_db_def no_caches_def demo_config_def
      get_recently_seen_post_ids_def get_owned_post_ids_def recent_seen_def owned_def get_set_def SEEN_POST_IDS_SQL_def
      collect_local_candidate_ids_def candidates_def get_ids_def collect_candidate_ids_def store_recent_seen_def store_owned_def Let_def
      split: prod.splits)

lemma demo_access: "get_account_by_id (instance_db (db (rs_feed (demo_at d l)))) (lit ''tok'') 1 = Inr ()"
  by (simp add: get_account_by_id_def demo_at_def with_sessions_def demo_recs_def demo_state_def demo_db_def demo_instance_def may_address_def del: lit_simps)

lemma demo_build:
  assumes "rq_account req = 1" "rq_owner req = lit ''tok''" "rq_threshold req = None"
  obtains page s' where "build_recommendations_shared demo_world demo_config demo_taste req now (demo_at d l) = (Some (Inr page), s')"
    "7 \<notin> rq_shown req \<Longrightarrow> map sp_post page = [sample_post 7 0 [lit ''otter'']]"
proof -
  let ?p = "sample_post 7 0 [lit ''otter'']" and ?s = "demo_at d l"
  obtain seen mine long cands s1 where read: "read_windows demo_config demo_taste 1 now ?s = ((seen, mine, long, cands), s1)"
    by (metis prod_cases4 prod.exhaust)
  have r: "seen = {}" "mine = {}" "cands = []" using demo_reads [OF read] by simp_all
  have posts: "get_posts demo_world demo_config demo_taste (rq_page req) = Inr [?p]" by (simp add: get_posts_def demo_world_def)
  have none: "local_to_hydrate [?p] mine seen long (rq_shown req) (prefiltered demo_world demo_taste (rs_catalog ?s) cands) = []"
    by (simp add: r prefiltered_def local_to_hydrate_def Let_def)
  let ?pool = "merge_pool [?p] mine seen (rq_shown req) (rt_blacklist demo_taste) []"
  have "window (rc_composition demo_config) = 0" by (simp add: demo_config_def)
  then obtain page where page: "order_page demo_world demo_config demo_taste req now ?pool = Some page" by (rule order_page_total)
  have built: "build_recommendations_shared demo_world demo_config demo_taste req now ?s = (Some (Inr page), s1)"
    unfolding build_recommendations_shared_def assms(1,2) read Let_def prod.case demo_access sum.case posts none hydrate_locals_def
    by (simp add: page del: lit_simps)
  have "map sp_post page = [?p]" if "7 \<notin> rq_shown req"
  proof -
    have "p_id ?p = 7" by (simp add: sample_post_def)
    then have "?pool = [?p]" using that by (simp add: merge_pool_def r demo_taste_def)
    then have "mset (map sp_post page) = mset [?p]" using order_page_posts(3) [OF page assms(3)] by simp
    then show ?thesis by (metis mset_single_iff_right mset.simps)
  qed
  then show ?thesis by (rule that [OF built])
qed

section \<open>Witnesses\<close>



text \<open>Two pages of one session: the post of the first is not on the second.\<close>

lemma demo_params:
  "and_then (validate_account_id 1) (and_then (validate_session_token (lit ''session-1'')) (validate_continue_count None)) = Inr 20"
proof -
  have "byte_len (lit ''session-1'') = 9" by (simp add: byte_len_def utf8_width_def)
  moreover have "list_all token_char (lit ''session-1'')" by (simp add: token_char_def char_class_defs)
  ultimately show ?thesis
    by (simp add: and_then_def validate_account_id_def validate_session_token_def validate_continue_count_def ranged_def reject_def
        MAX_ACCOUNT_ID_def Let_def del: lit_simps)
qed

lemma demo_limit:
  obtains l' where "limit_request key 60 30 now (demo_at d \<lparr>buckets = [], last_gc = 0\<rparr>) = (Inr (), demo_at d l')"
proof -
  have "snd (take_token now 60 30 None)" by (simp add: take_token_def refill_def Let_def duration_since_def as_secs_f64_def)
  then have "snd (check \<lparr>buckets = [], last_gc = 0\<rparr> now key 60 30) = Inr ()" by (simp add: check_def)
  then have "limit_request key 60 30 now (demo_at d \<lparr>buckets = [], last_gc = 0\<rparr>) =
      (Inr (), demo_at d (fst (check \<lparr>buckets = [], last_gc = 0\<rparr> now key 60 30)))"
    unfolding limit_request_def by (simp add: split_beta)
  then show ?thesis by (rule that)
qed

lemma demo_serves:
  assumes touch: "touch_or_create_feed_session (lit ''session-1'') 1 now d = (state, d')" "state \<noteq> Expired_session"
  obtains page s' where "serves demo_world demo_config demo_taste 1 (lit ''session-1'') now (demo_at d \<lparr>buckets = [], last_gc = 0\<rparr>) page s'"
    "7 \<notin> (if state = Active_session then get_session_shown_post_ids (lit ''session-1'') 1 d' else {}) \<Longrightarrow>
       map sp_post page = [sample_post 7 0 [lit ''otter'']]"
proof -
  let ?shown = "if state = Active_session then get_session_shown_post_ids (lit ''session-1'') 1 d' else {}"
  let ?req = "\<lparr>rq_account = 1, rq_owner = lit ''tok'', rq_page = None, rq_threshold = None, rq_exploration = None,
    rq_session = Some (lit ''session-1''), rq_shown = ?shown\<rparr>"
  obtain l where l: "limit_request (lit ''recs:owner:'' @ lit ''tok'') 60 30 now (demo_at d \<lparr>buckets = [], last_gc = 0\<rparr>) = (Inr (), demo_at d l)"
    by (rule demo_limit)
  obtain page s' where b: "build_recommendations_shared demo_world demo_config demo_taste ?req now (demo_at d' l) = (Some (Inr page), s')"
    "7 \<notin> ?shown \<Longrightarrow> map sp_post page = [sample_post 7 0 [lit ''otter'']]"
    using demo_build [of ?req now d' l] by auto
  have open1: "open_session (lit ''session-1'') 1 now (demo_at d l) = (state, ?shown, demo_at d' l)"
    by (simp add: open_session_def touch del: lit_simps)
  have "tbl_get (feed_sessions (sessions_of s')) (lit ''session-1'', 1) \<noteq> None"
    using touch_row [OF touch] build_sessions [OF b(1)] by auto
  then obtain r where "tbl_get (feed_sessions (sessions_of s')) (lit ''session-1'', 1) = Some r" by blast
  then have "fst (record_session_shown_posts (lit ''session-1'') 1 (numbered 0 (take (nat 20) page)) now (sessions_of s')) = Inr ()"
    by (simp add: record_session_shown_posts_def del: lit_simps)
  then obtain d3 where d3: "record_session_shown_posts (lit ''session-1'') 1 (numbered 0 (take (nat 20) page)) now (sessions_of s') = (Inr (), d3)"
    by (metis prod.collapse)
  define s4 where "s4 = with_sessions d3 s'"
  have rec: "record_page (lit ''session-1'') 1 state 0 (take (nat 20) page) now s' = (Inr (), s4)"
    unfolding record_page_def d3 s4_def using touch(2) by simp
  have "get_recommendations_continue demo_world demo_config demo_taste 1 (lit ''tok'') (lit ''session-1'') None now
      (demo_at d \<lparr>buckets = [], last_gc = 0\<rparr>) = (Some (Inr \<lparr>cr_posts = take (nat 20) page, cr_fresh_start = (state = Expired_session)\<rparr>), s4)"
    unfolding get_recommendations_continue_def demo_params sum.case l Let_def prod.case demo_access open1 b(1) option.case rec by simp
  then have "serves demo_world demo_config demo_taste 1 (lit ''session-1'') now (demo_at d \<lparr>buckets = [], last_gc = 0\<rparr>) (take (nat 20) page) s4"
    unfolding serves_def by (intro disjI2 exI conjI) (assumption, simp)
  then show ?thesis
  proof (rule that)
    assume "7 \<notin> ?shown"
    from b(2) [OF this] have "map sp_post (take (nat 20) page) = take (nat 20) [sample_post 7 0 [lit ''otter'']]" by (simp only: take_map [symmetric])
    then show "map sp_post (take (nat 20) page) = [sample_post 7 0 [lit ''otter'']]" by simp
  qed
qed


end
