(* ===== verification/Similar.thy ===== *)
theory Similar
  imports Recommend_Demo Catalog_Run Scorer_Score
begin

text \<open>
  The posts similar to one post: \<open>find_similar_post_ids\<close> of \<open>parser-api/src/db/posts.rs\<close> and the route
  \<open>get_similar_posts\<close> of \<open>routes/feed.rs\<close>.  The fetch of a post the catalog lacks is a parameter.
\<close>

section \<open>Candidates\<close>

definition tags_of_post :: "Catalog_DB \<Rightarrow> int \<Rightarrow> int set" where
  "tags_of_post cat pid = {t. (t, pid) \<in> set (cat_tags_posts cat)}"

definition overlap :: "Catalog_DB \<Rightarrow> int \<Rightarrow> int \<Rightarrow> int" where
  "overlap cat source pid =
     int (length (remdups (map fst (filter (\<lambda>(t, p). p = pid \<and> (t, source) \<in> set (cat_tags_posts cat)) (cat_tags_posts cat)))))"

definition dismissed :: "Feed_DB \<Rightarrow> int \<Rightarrow> int \<Rightarrow> bool" where
  "dismissed d account pid \<longleftrightarrow> list_ex (\<lambda>r. ir_account r = account \<and> ir_post r = pid \<and>
     ir_event r \<in> {lit ''qualified_impression'', lit ''hide'', lit ''open''}) (feed_interactions d)"

definition find_similar_post_ids :: "Catalog_DB \<Rightarrow> Feed_DB \<Rightarrow> int \<Rightarrow> int \<Rightarrow> int \<Rightarrow> int \<Rightarrow> int \<Rightarrow> int list" where
  "find_similar_post_ids cat d source account min_overlap limit page =
     (let rows = filter (\<lambda>r. overlap cat source (pr_id r) > 0 \<and> pr_id r \<noteq> source \<and> servable r \<and>
            \<not> list_ex (\<lambda>(a, p, _). a = account \<and> p = pr_id r) (cat_accounts_post cat) \<and> \<not> dismissed d account (pr_id r) \<and>
            overlap cat source (pr_id r) \<ge> min_overlap) (cat_posts cat);
          ordered = sort_key (\<lambda>r. - overlap cat source (pr_id r)) (sort_key (\<lambda>r. - pr_score_total r) rows)
      in take (nat limit) (drop (nat (max (page - 1) 0 * limit)) (map pr_id ordered)))"

section \<open>The route\<close>

definition similarity_breakdown :: "f32 \<Rightarrow> ScoreBreakdown" where
  "similarity_breakdown sim = \<lparr>tag_similarity = sim, quality_fit = 0, recency_fit = 0, rating_fit = 0, media_fit = 0, popularity_fit = 0,
     tag_relation_fit = 0, uploader_fit = 0, exclusivity_fit = 0, novelty_fit = 0, artist_discovery_fit = 0\<rparr>"

definition rank_similar :: "Post \<Rightarrow> IdfIndex \<Rightarrow> Priors \<Rightarrow> int \<Rightarrow> Post list \<Rightarrow> ScoredPost list" where
  "rank_similar source idf p limit cand =
     (let scored = map (\<lambda>post. let sim = post_pair_similarity source post idf p
            in \<lparr>sp_post = post, sp_score = sim, breakdown = Some (similarity_breakdown sim), reasons = []\<rparr>) cand
      in take (nat limit) (sort_key (\<lambda>sp. - sp_score sp) (filter (\<lambda>sp. sp_score sp > 0) scored)))"

definition similar_params :: "int \<Rightarrow> int option \<Rightarrow> int option \<Rightarrow> int option \<Rightarrow> (int \<times> int \<times> int) checked" where
  "similar_params account limit min_overlap page =
     and_then (validate_account_id account)
       (case validate_similar_posts_limit limit of Inl e \<Rightarrow> Inl e
        | Inr l \<Rightarrow> (case validate_similar_posts_min_overlap min_overlap of Inl e \<Rightarrow> Inl e
          | Inr m \<Rightarrow> (case validate_similar_posts_page page of Inl e \<Rightarrow> Inl e | Inr g \<Rightarrow> Inr (l, m, g))))"

definition source_post :: "(int \<Rightarrow> ustr + Post list) \<Rightarrow> Catalog_DB \<Rightarrow> int \<Rightarrow> Post checked" where
  "source_post fetch_by_id cat pid =
     (case get_post_by_id cat pid of
        Inl e \<Rightarrow> Inl (from_string (lit ''Failed to fetch source post: '' @ catalog_error_text e))
      | Inr (Some p) \<Rightarrow> Inr p
      | Inr None \<Rightarrow> (case fetch_by_id pid of
          Inl e \<Rightarrow> Inl (from_string (lit ''Failed to fetch post from e621: '' @ e))
        | Inr [] \<Rightarrow> Inl (NotFound (lit ''Post '' @ show_int pid @ lit '' not found''))
        | Inr (p # _) \<Rightarrow> Inr p))"

definition get_similar_posts ::
  "(int \<Rightarrow> ustr + Post list) \<Rightarrow> IdfIndex \<Rightarrow> Priors \<Rightarrow> int \<Rightarrow> int \<Rightarrow> ustr \<Rightarrow> int option \<Rightarrow> int option \<Rightarrow> int option \<Rightarrow> int \<Rightarrow> Recs_State \<Rightarrow>
     ScoredPost list checked \<times> Recs_State" where
  "get_similar_posts fetch_by_id idf p pid account owner limit min_overlap page now s =
     (case similar_params account limit min_overlap page of
        Inl e \<Rightarrow> (Inl e, s)
      | Inr (l, m, g) \<Rightarrow>
          let (limited, s1) = limit_request (lit ''read:owner:'' @ owner) 240 60 now s;
              cat = rs_catalog s1
          in (and_then limited (case get_account_by_id (instance_db (db (rs_feed s1))) owner account of
                Inl e \<Rightarrow> Inl (from_string (lit ''Failed to verify account access: '' @ e))
              | Inr _ \<Rightarrow> (case source_post fetch_by_id cat pid of
                  Inl e \<Rightarrow> Inl e
                | Inr source \<Rightarrow>
                    let ids = find_similar_post_ids cat (db (rs_feed s1)) pid account m (l * 3) g
                    in if ids = [] then Inr []
                       else case hydrate_posts_by_ids cat ids of
                         Inl e \<Rightarrow> Inl (from_string (lit ''Failed to hydrate candidates: '' @ catalog_error_text e))
                       | Inr cand \<Rightarrow> Inr (rank_similar source idf p l cand))), s1))"

section \<open>What the list holds\<close>

lemma overlap_card: "overlap cat source pid = int (card (tags_of_post cat source \<inter> tags_of_post cat pid))"
proof -
  have "set (map fst (filter (\<lambda>(t, p). p = pid \<and> (t, source) \<in> set (cat_tags_posts cat)) (cat_tags_posts cat))) =
      tags_of_post cat source \<inter> tags_of_post cat pid"
    by (force simp: tags_of_post_def)
  then show ?thesis by (simp only: overlap_def length_remdups_card_conv)
qed

lemma similar_ids:
  assumes "i \<in> set (find_similar_post_ids cat d source account m limit page)"
  shows "i \<noteq> source \<and> m \<le> overlap cat source i \<and> \<not> list_ex (\<lambda>(a, p, _). a = account \<and> p = i) (cat_accounts_post cat) \<and> \<not> dismissed d account i"
  using assms by (auto simp: find_similar_post_ids_def Let_def dest!: in_set_takeD in_set_dropD)

lemma hydrate_distinct:
  assumes "hydrate_posts_by_ids cat ids = Inr ps"
  shows "distinct (map p_id ps)"
proof -
  have "map p_id (List.map_filter f xs) = filter (\<lambda>i. f i \<noteq> None) xs" if "\<And>i p. f i = Some p \<Longrightarrow> p_id p = i" for f :: "int \<Rightarrow> Post option" and xs
    using that by (induction xs) (auto simp: List.map_filter_simps split: option.splits)
  moreover have "map p_id (rewrite_local_media_urls cat qs) = map p_id qs" for qs
    by (simp add: rewrite_local_media_urls_def rewrite_post_def Let_def)
  moreover have "ps = rewrite_local_media_urls cat (List.map_filter (stored_post cat) (rev (remdups (rev ids))))"
    using assms by (simp add: hydrate_posts_by_ids_def Let_def split: option.splits)
  ultimately show ?thesis using stored_post_id by simp
qed

definition scored_similar :: "Post \<Rightarrow> IdfIndex \<Rightarrow> Priors \<Rightarrow> Post \<Rightarrow> ScoredPost" where
  "scored_similar source idf p post =
     (let sim = post_pair_similarity source post idf p
      in \<lparr>sp_post = post, sp_score = sim, breakdown = Some (similarity_breakdown sim), reasons = []\<rparr>)"

lemma scored_similar_simps [simp]: "sp_post (scored_similar source idf p post) = post"
  "sp_score (scored_similar source idf p post) = post_pair_similarity source post idf p"
  by (simp_all add: scored_similar_def Let_def)

lemma rank_similar_list:
  assumes "distinct (map p_id cand)"
  shows "length (rank_similar source idf p limit cand) \<le> nat limit"
    and "sorted_wrt (\<lambda>a b. sp_score a \<ge> sp_score b) (rank_similar source idf p limit cand)"
    and "distinct (map (\<lambda>sp. p_id (sp_post sp)) (rank_similar source idf p limit cand))"
    and "sp \<in> set (rank_similar source idf p limit cand) \<Longrightarrow>
      sp_post sp \<in> set cand \<and> sp_score sp = post_pair_similarity source (sp_post sp) idf p \<and> sp_score sp > 0"
proof -
  define kept where "kept = filter (\<lambda>sp. sp_score sp > 0) (map (scored_similar source idf p) cand)"
  have r: "rank_similar source idf p limit cand = take (nat limit) (sort_key (\<lambda>sp. - sp_score sp) kept)"
    unfolding rank_similar_def kept_def scored_similar_def by (simp add: Let_def)
  show "length (rank_similar source idf p limit cand) \<le> nat limit" unfolding r by simp
  have "sorted (map (\<lambda>sp. - sp_score sp) (sort_key (\<lambda>sp. - sp_score sp) kept))" by (rule sorted_sort_key)
  then have "sorted_wrt (\<lambda>a b. sp_score a \<ge> sp_score b) (sort_key (\<lambda>sp. - sp_score sp) kept)" by (simp add: sorted_map)
  then show "sorted_wrt (\<lambda>a b. sp_score a \<ge> sp_score b) (rank_similar source idf p limit cand)" unfolding r by (rule sorted_wrt_take)
  have "map (\<lambda>sp. p_id (sp_post sp)) (map (scored_similar source idf p) cand) = map p_id cand" by (simp add: comp_def)
  then have "distinct (map (\<lambda>sp. p_id (sp_post sp)) kept)" unfolding kept_def using assms by (intro distinct_map_filter) (simp only:)
  then have "distinct (map (\<lambda>sp. p_id (sp_post sp)) (sort_key (\<lambda>sp. - sp_score sp) kept))"
    by (simp add: distinct_map)
  then show "distinct (map (\<lambda>sp. p_id (sp_post sp)) (rank_similar source idf p limit cand))"
    unfolding r by (simp only: take_map [symmetric] distinct_take)
  show "sp_post sp \<in> set cand \<and> sp_score sp = post_pair_similarity source (sp_post sp) idf p \<and> sp_score sp > 0"
    if "sp \<in> set (rank_similar source idf p limit cand)"
    using that unfolding r by (auto simp: kept_def dest!: in_set_takeD)
qed



end
