(* ===== verification/Spec2Isabelle.thy ===== *)
theory Spec2Isabelle
  imports Composition_Props Api_Errors Rate_Limit Feed_Claims Jobs Load_Monitor Interaction_Queue
    Validation_Props Blacklist Access Sessions Tag_Graph_Train Tag_Graph_Props Relation_Cache Idf_Cache
    Diversify_Quota Scorer_Profile Exploration Taste_Themes Explain Calibrate_Masks Calibrate_Grid_Props
    Calibrate_Sampling Catalog_Read Similar
begin

text \<open>
  A model of the E621-Feed server (\<open>parser-api\<close>) and of the browser queue that feeds it
  (\<open>parser-web\<close>), as definitions that read like the Rust code and compute.

  \<^bold>\<open>The program.\<close>  The server ingests posts from the upstream site, scores them for an account
  and serves a feed.  A page of the feed is a list of scored posts that passes through a chain
  of reorderings; the last is the composition pass, which guarantees the head of the feed a
  share of fresh and old posts and bounds the share of one artist.  What was served and how the
  user reacted is recorded in tables, and caches in front of the tables keep a post that was
  seen from being served again.  Requests pass validation, the owner guard, a rate limiter and
  the scope of the account; requests to the upstream pass a gate.

  \<^bold>\<open>Parts and theories.\<close>
    \<^item> \<open>Prelude\<close>: lists, options, sums (an \<open>Inl\<close> is the error of a \<open>Result\<close>) and the
      collections of rules the components share.  \<open>Text_Ops\<close>: the string functions of the standard
      library the code calls, on lists of code points.  \<open>Timed_Table\<close>: the maps from keys to
      timed rows that tables and caches are, on a clock in nanoseconds.
    \<^item> \<open>Posts\<close> (\<open>models/posts.rs\<close>): posts, tags, interactions.
    \<^item> \<open>Composition\<close>, \<open>_Floors\<close>, \<open>_Artists\<close>, \<open>_Props\<close> (\<open>utils/composition.rs\<close>): the floor pass with
      its promote loop, the old ceiling pass with its demote loop, the artist pass with its swaps,
      the report.
    \<^item> \<open>Hydrate_Cache\<close> (\<open>db/hydrate_cache.rs\<close>) and \<open>Feed_Tables\<close>, \<open>Feed_Seen\<close>, \<open>Feed_Runs\<close>,
      \<open>Feed_Props\<close>, \<open>Feed_Claims\<close> (\<open>db/feed.rs\<close>): the interaction tables, the seen sets and their
      caches, as one state; runs of operations on it are an inductive relation.
    \<^item> \<open>Sessions\<close> (\<open>db/sessions.rs\<close>): what one feed session was served.
    \<^item> \<open>Access\<close> (\<open>db/instance.rs\<close>, \<open>auth.rs\<close>): who owns the instance, which accounts a token may
      address, revocations, the owner guard with its origin check.
    \<^item> \<open>Validation\<close>, \<open>Validation_Props\<close> (\<open>validation.rs\<close>), \<open>Api_Errors\<close> (\<open>errors.rs\<close>), \<open>Rate_Limit\<close>
      (\<open>ratelimit.rs\<close>): what a request has to pass and how it is refused.
    \<^item> \<open>Blacklist\<close> (\<open>utils/blacklist.rs\<close>): rules, matching, and the terms of the upstream query.
    \<^item> \<open>Jobs\<close> (\<open>jobs.rs\<close>) and \<open>Load_Monitor\<close> (\<open>load_monitor.rs\<close>): one worker per account, and the
      gate in front of the upstream.
    \<^item> \<open>Tag_Graph\<close>, \<open>_Store\<close>, \<open>_Props\<close>, \<open>_Train\<close> (\<open>utils/tag_relation.rs\<close>): the co-occurrence graph
      as a hash map and as a sorted vector searched by bisection, its truncation and training.
      \<open>Idf\<close> (\<open>utils/idf.rs\<close>): document frequencies and the weights made of them.  \<open>Rebuild\<close>: the two
      flags and the thread states of the background rebuild both share; \<open>Relation_Cache\<close> and
      \<open>Idf_Cache\<close>: the cached indices with every interleaving of writers, readers, eviction and worker.
    \<^item> \<open>Diversify\<close>, \<open>_Rank\<close>, \<open>_Mmr\<close>, \<open>_Quota\<close> (\<open>utils/scorer/diversify.rs\<close>): the similarity of posts, the
      greedy re-ranking, the quotas of distinct artists and characters.
    \<^item> \<open>Scorer_Priors\<close>, \<open>_Util\<close>, \<open>_Context\<close>, \<open>_Channels\<close>, \<open>_Score\<close>, \<open>_Cached\<close> (\<open>utils/scorer/priors.rs\<close>,
      \<open>util.rs\<close>, \<open>context.rs\<close>, \<open>channels.rs\<close>, \<open>cached.rs\<close>, \<open>channels_cached.rs\<close>): the settings, the tag vector
      of an account, the eleven channels on a post and on its cached features, and their blend.
      \<open>Scorer_Equal\<close>: both versions agree.  \<open>Scorer_Bounds\<close>: every channel and the score lie in the unit
      interval, the blend is monotone.  \<open>Scorer_Profile\<close>: what the blacklist and the settings do to the
      base of an account; the similarity of two posts.
    \<^item> \<open>Exploration\<close> (\<open>utils/scorer/mod.rs\<close>): the random bonus and its stream.
    \<^item> \<open>Taste_Nodes\<close>, \<open>_Backbone\<close>, \<open>_Communities\<close>, \<open>_Themes\<close> (\<open>utils/taste_themes.rs\<close>): the graph of an
      account's tags, its spanning forest by union-find, label propagation and page rank, and the themes
      made of them.
    \<^item> \<open>Explain\<close> (\<open>utils/explain.rs\<close>): the sentences that say why a post is in the feed.
    \<^item> \<open>Calibrate_Metrics\<close> (\<open>bin/calibrate/metrics.rs\<close>): the ranking metrics with their errors and intervals.
      \<open>Calibrate_Cache\<close>, \<open>_Probe\<close> (\<open>bin/calibrate/cache.rs\<close>, \<open>dataset.rs\<close>): the evaluation of a dataset, directly
      and over the cached channels, of which a mask says what to recompute; both agree.
      \<open>Calibrate_Knobs\<close>, \<open>_Masks\<close> (\<open>bin/calibrate/knobs.rs\<close>): every knob of the search and whether its mask is
      complete.  \<open>Calibrate_Grid\<close>, \<open>_Grid_Props\<close> (\<open>bin/calibrate/grid.rs\<close>): the gate and the search, with the
      states it goes through as an inductive relation.  \<open>Calibrate_Sampling\<close> (\<open>bin/calibrate/sampling.rs\<close>):
      the splits of the favourites and the draws of negatives.
    \<^item> \<open>Catalog\<close> (\<open>db/posts.rs\<close>, \<open>db/tags.rs\<close>, \<open>db/cooccurrence.rs\<close>, \<open>media_store.rs\<close>): the tables of posts, tags,
      postings and pairs as one record, their upserts with the deltas they hand to the index in memory, deletion,
      pruning and hydration.  \<open>Catalog_Props\<close>: the references and frequencies every operation keeps exact.
      \<open>Catalog_Run\<close>: runs of the operations together with the index, as an inductive relation.  \<open>Catalog_Read\<close>:
      what a saved post reads back as.
    \<^item> \<open>Api_Query\<close> (\<open>api.rs\<close>): the query sent to the upstream and how its budget is shared.
      \<open>Candidate_Pool\<close> (\<open>db/feed.rs\<close>): the streams of stored candidates and their union in turns.
    \<^item> \<open>Recommend\<close>, \<open>_Props\<close>, \<open>_Demo\<close> (\<open>routes/feed.rs\<close>): the recommendation pipeline and its two routes, which
      compose validation, rate limit, scope, sessions, seen sets, pool, hydration, blacklist, score, exploration,
      re-ranking, quotas and reasons, on one state.  \<open>Similar\<close>: the posts similar to a post.
    \<^item> \<open>Interaction_Queue\<close> (\<open>parser-web/src/interaction_queue.rs\<close>): the browser's buffer.

  \<^bold>\<open>Interfaces.\<close>  \<open>ttl_cache\<close> and \<open>growing_cache\<close> state what a cache promises its reader and are
  interpreted on both cache shapes of \<open>hydrate_cache.rs\<close>; \<open>validator\<close> states that a validator accepts
  exactly the good payloads and refuses the others with status 400, and is interpreted on seven of
  them; \<open>pair_lookup\<close> states what a store of pairs reads back, for the map and for the vector.  The
  properties rest on the facts of these interpretations.

  \<^bold>\<open>Bounds and fuel.\<close>  The loops of the code are structural recursions or functions with a measure,
  except the swaps of the artist pass, which may run for ever: there the loop is a partial function
  into \<open>option\<close>, and it is proved both that it returns when no post names an artist twice and that
  it may fail to otherwise.  Integers that wrap or saturate are words (the estimate of the load
  monitor, the comparison of secrets); those that are bounded by what they count are \<open>nat\<close> or \<open>int\<close>.

  \<^bold>\<open>Not modelled.\<close>  Floating-point numbers are reals (a validated number may also be infinite or
  not a number); clocks are one argument \<open>now\<close> in nanoseconds or seconds; locks are not poisoned and
  each operation runs on its own, except where an interleaving is the subject (jobs, reloads of the
  revocations, rebuilds of the tag indices, whose atomic flags are sequentially consistent).  The tag
  hash, the hash of a seed, the bits of a float, Unicode lower case and what a rebuild reads from
  the database are arguments; counters of tags and pairs do not overflow.  A quotient by zero is zero
  here and not a number there: the properties that could meet one assume the denominator positive, or
  speak about code that tests it.  A transaction is one step.  Logging, metrics, HTTP, SQL as text,
  cookies' encryption
  and rendering are left out.  What the recommendation pipeline reads besides the seen sets, the catalog and
  the sessions (settings, tag counts, profile, graphs) is an argument of it, and so is the upstream; its reads run
  at one moment, and its background write of the live posts to the catalog is a step of its own.  A
  constraint of the database that is violated is an error of the operation and leaves the tables as they were; other
  errors of the database do not happen.  Of the offline calibration the analytic fit, the persisted cache, the
  written report and the hydration from the database are left out; its unstable sorts are stable here, a
  measured mean is never infinite, and that two settings with one fingerprint agree on what the
  fingerprint reads is a hypothesis.\<close>

end
